(* ===== verification/Rust_Prelude.thy ===== *)
theory Rust_Prelude
  imports Complex_Main "HOL-Library.AList" "HOL-Library.Multiset" "HOL-Library.Log_Nat"
begin

text \<open>
  What every component of the model shares: identifiers, timestamps, decimals, the error type
  of \<open>sensei-core/src/error.rs\<close>, the integer arithmetic of the release build, the text
  helpers of the Rust standard library that the services use, the \<open>HashMap\<close> contract (a
  locale with its interpretation on association lists), pagination
  (\<open>sensei-core/src/pagination.rs\<close>) and the environment that supplies the results of the
  clock, the UUID generator and the unspecified \<open>HashMap\<close> iteration order.
\<close>

named_theorems hm_simps \<open>how a table answers after an update\<close>
named_theorems op_defs \<open>definitions of the operations of a service\<close>

section \<open>Identifiers, time, exact decimals\<close>

text \<open>
  A UUID is its 128-bit value; the services only compare, sort and format UUIDs and test for
  the nil one. A timestamp is an instant on the UTC time line. A \<open>rust_decimal::Decimal\<close>
  is its exact value.
\<close>

type_synonym uuid = nat
type_synonym timestamp = int
type_synonym decimal = rat

definition uuid_nil :: uuid where
  "uuid_nil = 0"

section \<open>Errors\<close>

text \<open>
  An error message is kept as the list of the pieces that \<open>format!\<close> joins, so that two
  errors are equal exactly when the client receives the same variant and the same text.
\<close>

datatype frag =
    Txt string
  | FId uuid
  | FNum int
  | FStr string
  | FDbg string

type_synonym message = "frag list"

datatype sensei_error =
    Database message
  | DatabaseConnection message
  | NotFound message
  | AlreadyExists message
  | Validation message
  | MissingField message
  | InvalidValue message message
  | Unauthorized message
  | Forbidden message
  | TokenError message
  | TokenExpired
  | EventBus message
  | PublishError message
  | SubscribeError message
  | ExternalService message
  | HttpError nat message
  | Timeout message
  | Conflict message
  | Configuration message
  | MissingEnvVar message
  | Internal message
  | Serialization message
  | Io message
  | LockError message
  | ChannelError message

text \<open>
  A fallible method that mutates shared state in place: it returns its result and the state it
  leaves behind, on the error paths too. Nothing is rolled back unless the code does it.
\<close>

type_synonym 'a res = "sensei_error + 'a"
type_synonym ('s, 'a) action = "'s \<Rightarrow> 'a res \<times> 's"

abbreviation Ok :: "'a \<Rightarrow> 'a res" where
  "Ok x \<equiv> Inr x"

abbreviation Err :: "sensei_error \<Rightarrow> 'a res" where
  "Err e \<equiv> Inl e"

section \<open>Machine integers\<close>

text \<open>
  The release profile of \<open>Cargo.toml\<close> leaves \<open>overflow-checks\<close> off, so \<open>i64\<close>
  arithmetic wraps in two's complement and \<open>usize\<close>/\<open>u64\<close> arithmetic modulo
  \<open>2 ^ 64\<close>.
\<close>

definition in_i64 :: "int \<Rightarrow> bool" where
  "in_i64 x \<longleftrightarrow> - (2 ^ 63) \<le> x \<and> x < 2 ^ 63"

definition i64_wrap :: "int \<Rightarrow> int" where
  "i64_wrap x = (x + 2 ^ 63) mod 2 ^ 64 - 2 ^ 63"

definition i64_add :: "int \<Rightarrow> int \<Rightarrow> int" where
  "i64_add a b = i64_wrap (a + b)"

definition i64_sub :: "int \<Rightarrow> int \<Rightarrow> int" where
  "i64_sub a b = i64_wrap (a - b)"

definition i64_neg :: "int \<Rightarrow> int" where
  "i64_neg a = i64_wrap (- a)"

definition u64_wrap :: "nat \<Rightarrow> nat" where
  "u64_wrap n = n mod 2 ^ 64"

lemma u64_wrap_int [code]: "u64_wrap n = nat (int n mod 2 ^ 64)"
  by (simp add: u64_wrap_def nat_mod_distrib nat_power_eq)

lemma i64_wrap_id: "in_i64 x \<Longrightarrow> i64_wrap x = x"
  by (simp add: in_i64_def i64_wrap_def)

lemma in_i64_wrap [simp, intro]: "in_i64 (i64_wrap x)"
proof -
  have "0 \<le> (x + 2 ^ 63) mod 2 ^ 64" and "(x + 2 ^ 63) mod 2 ^ 64 < (2 :: int) ^ 64"
    by simp_all
  then show ?thesis unfolding in_i64_def i64_wrap_def by simp
qed

lemma in_i64_add [simp, intro]: "in_i64 (i64_add a b)"
  by (simp add: i64_add_def)

lemma in_i64_sub [simp, intro]: "in_i64 (i64_sub a b)"
  by (simp add: i64_sub_def)

lemma i64_add_exact: "in_i64 (a + b) \<Longrightarrow> i64_add a b = a + b"
  by (simp add: i64_add_def i64_wrap_id)

lemma i64_sub_exact: "in_i64 (a - b) \<Longrightarrow> i64_sub a b = a - b"
  by (simp add: i64_sub_def i64_wrap_id)

lemma i64_neg_exact: "in_i64 (- a) \<Longrightarrow> i64_neg a = - a"
  by (simp add: i64_neg_def i64_wrap_id)

lemma in_i64_max0 [simp, intro]: "in_i64 a \<Longrightarrow> in_i64 (max a 0)"
  by (simp add: in_i64_def)

lemma in_i64_nonneg: "0 \<le> a \<Longrightarrow> a \<le> b \<Longrightarrow> in_i64 b \<Longrightarrow> in_i64 a"
  by (simp add: in_i64_def)

lemma in_i64_0 [simp, intro]: "in_i64 0"
  by (simp add: in_i64_def)

text \<open>
  \<open>n as f64\<close> for an \<open>i64\<close>: the nearest integer with a significand of 53 bits, ties to
  the even significand. The value of the double is the integer it denotes.
\<close>

definition f64_round :: "nat \<Rightarrow> nat" where
  "f64_round m =
     (if m < 2 ^ 53 then m
      else let e = floorlog 2 m - 53; q = m div 2 ^ e; r = m mod 2 ^ e; h = 2 ^ (e - 1)
           in (if h < r \<or> (r = h \<and> odd q) then q + 1 else q) * 2 ^ e)"

definition i64_as_f64 :: "int \<Rightarrow> int" where
  "i64_as_f64 n = (if n < 0 then - int (f64_round (nat (- n))) else int (f64_round (nat n)))"

lemma i64_as_f64_exact: "\<bar>n\<bar> < 2 ^ 53 \<Longrightarrow> i64_as_f64 n = n"
  by (auto simp: i64_as_f64_def f64_round_def nat_less_iff abs_if split: if_splits)

lemma i64_as_f64_code [code]:
  "i64_as_f64 n = (if \<bar>n\<bar> < 2 ^ 53 then n
     else if n < 0 then - int (f64_round (nat (- n))) else int (f64_round (nat n)))"
  by (simp add: i64_as_f64_exact) (simp add: i64_as_f64_def)

section \<open>Text\<close>

text \<open>\<open>str::trim\<close> on the ASCII white space of a byte string.\<close>

definition is_ws :: "char \<Rightarrow> bool" where
  "is_ws c \<longleftrightarrow> of_char c \<in> {9 :: nat, 10, 11, 12, 13, 32}"

definition trim :: "string \<Rightarrow> string" where
  "trim s = rev (dropWhile is_ws (rev (dropWhile is_ws s)))"

text \<open>Decimal digits of a counter and the \<open>{:04}\<close> format (zero padding to width four).\<close>

definition digit_char :: "nat \<Rightarrow> char" where
  "digit_char d = char_of (48 + d)"

fun show_nat :: "nat \<Rightarrow> string" where
  "show_nat n = (if n < 10 then [digit_char n] else show_nat (n div 10) @ [digit_char (n mod 10)])"

declare show_nat.simps [simp del]

definition pad4 :: "nat \<Rightarrow> string" where
  "pad4 n = replicate (4 - length (show_nat n)) (CHR ''0'') @ show_nat n"

definition digit_val :: "char \<Rightarrow> nat" where
  "digit_val c = of_char c - 48"

definition read_nat :: "string \<Rightarrow> nat" where
  "read_nat s = foldl (\<lambda>a c. 10 * a + digit_val c) 0 s"

lemma digit_val_char [simp]: "d < 10 \<Longrightarrow> digit_val (digit_char d) = d"
  by (simp add: digit_val_def digit_char_def)

lemma read_nat_append1: "read_nat (s @ [c]) = 10 * read_nat s + digit_val c"
  by (simp add: read_nat_def)

lemma read_show_nat: "read_nat (show_nat n) = n"
proof (induction n rule: show_nat.induct)
  case (1 n)
  show ?case
  proof (cases "n < 10")
    case True
    then show ?thesis by (simp add: show_nat.simps [of n] read_nat_def)
  next
    case False
    with 1 show ?thesis by (simp add: show_nat.simps [of n] read_nat_append1)
  qed
qed

lemma read_nat_zeros: "read_nat (replicate k (CHR ''0'') @ s) = read_nat s"
proof (induction k)
  case 0
  then show ?case by simp
next
  case (Suc k)
  then show ?case by (simp add: read_nat_def digit_val_def)
qed

lemma read_pad4: "read_nat (pad4 n) = n"
  by (simp add: pad4_def read_nat_zeros read_show_nat)

lemma pad4_inject [simp]: "pad4 m = pad4 n \<longleftrightarrow> m = n"
  using read_pad4 by metis

text \<open>\<open>str::split_once\<close>: at the first occurrence of the separator.\<close>

fun split_once :: "char \<Rightarrow> string \<Rightarrow> (string \<times> string) option" where
  "split_once c [] = None"
| "split_once c (x # xs) =
     (if x = c then Some ([], xs)
      else (case split_once c xs of None \<Rightarrow> None | Some (a, b) \<Rightarrow> Some (x # a, b)))"

text \<open>\<open>str::split\<close> at a character: always at least one piece.\<close>

fun split_on :: "char \<Rightarrow> string \<Rightarrow> string list" where
  "split_on c [] = [[]]"
| "split_on c (x # xs) =
     (if x = c then [] # split_on c xs
      else (case split_on c xs of [] \<Rightarrow> [[x]] | t # ts \<Rightarrow> (x # t) # ts))"

lemma split_on_nonempty: "split_on c s \<noteq> []"
  by (induction s) (auto split: list.splits)

lemma split_on_prefix:
  "c \<notin> set p \<Longrightarrow> split_on c (p @ [c] @ s) = p # split_on c s"
  by (induction p) auto

lemma split_on_whole: "c \<notin> set p \<Longrightarrow> split_on c p = [p]"
  by (induction p) auto

text \<open>\<open>str::starts_with\<close> and \<open>str::strip_prefix\<close>.\<close>

definition starts_with :: "string \<Rightarrow> string \<Rightarrow> bool" where
  "starts_with p s \<longleftrightarrow> take (length p) s = p"

definition strip_prefix :: "string \<Rightarrow> string \<Rightarrow> string option" where
  "strip_prefix p s = (if starts_with p s then Some (drop (length p) s) else None)"

lemma starts_with_append [simp]: "starts_with p (p @ s)"
  by (simp add: starts_with_def)

lemma strip_prefix_append [simp]: "strip_prefix p (p @ s) = Some s"
  by (simp add: strip_prefix_def)

lemma split_once_append:
  "c \<notin> set a \<Longrightarrow> split_once c (a @ c # b) = Some (a, b)"
  by (induction a) auto

text \<open>\<open>str::parse::<i64>\<close>: an optional sign and decimal digits, in range.\<close>

definition quoted :: "string \<Rightarrow> string" where
  "quoted i = CHR 0x27 # i @ [CHR 0x27]"

definition is_digit :: "char \<Rightarrow> bool" where
  "is_digit c \<longleftrightarrow> 48 \<le> (of_char c :: nat) \<and> (of_char c :: nat) \<le> 57"

definition parse_digits :: "string \<Rightarrow> nat option" where
  "parse_digits s = (if s = [] \<or> \<not> list_all is_digit s then None else Some (read_nat s))"

definition parse_i64 :: "string \<Rightarrow> int option" where
  "parse_i64 s =
     (let value = (if starts_with ''-'' s then map_option (\<lambda>n. - int n) (parse_digits (tl s))
                   else if starts_with ''+'' s then map_option int (parse_digits (tl s))
                   else map_option int (parse_digits s))
      in case value of None \<Rightarrow> None | Some n \<Rightarrow> if in_i64 n then Some n else None)"

lemma digit_char_is_digit [simp]: "d < 10 \<Longrightarrow> is_digit (digit_char d)"
  by (simp add: is_digit_def digit_char_def)

lemma show_nat_digits: "c \<in> set (show_nat n) \<Longrightarrow> \<exists>d < 10. c = digit_char d"
proof (induction n rule: show_nat.induct)
  case (1 n)
  show ?case
  proof (cases "n < 10")
    case True
    with 1 show ?thesis by (auto simp: show_nat.simps [of n])
  next
    case False
    with 1 show ?thesis by (auto simp: show_nat.simps [of n] intro: exI [of _ "n mod 10"])
  qed
qed

lemma show_nat_nonempty [simp]: "show_nat n \<noteq> []"
  by (simp add: show_nat.simps [of n])

lemma parse_show_nat:
  assumes "n < 2 ^ 63"
  shows "parse_i64 (show_nat n) = Some (int n)"
proof -
  have digits: "\<forall>c \<in> set (show_nat n). is_digit c" using show_nat_digits by force
  then have "parse_digits (show_nat n) = Some n"
    by (simp add: parse_digits_def list_all_iff read_show_nat)
  moreover have "\<not> starts_with ''-'' (show_nat n)" "\<not> starts_with ''+'' (show_nat n)"
    using digits by (cases "show_nat n"; auto simp: starts_with_def is_digit_def)+
  moreover have "int n < int (2 ^ 63)" using assms by (simp only: of_nat_less_iff)
  then have "in_i64 (int n)" by (simp add: in_i64_def)
  ultimately show ?thesis by (simp add: parse_i64_def)
qed

section \<open>The HashMap contract\<close>

text \<open>
  The operations of \<open>std::collections::HashMap\<close> that the services call, and the laws they
  rely on: what a lookup answers after an insert and a remove, and that keys stay distinct.
\<close>

locale hash_table =
  fixes empty :: 'm
    and get :: "'m \<Rightarrow> 'k \<Rightarrow> 'v option"
    and ins :: "'k \<Rightarrow> 'v \<Rightarrow> 'm \<Rightarrow> 'm"
    and rem :: "'k \<Rightarrow> 'm \<Rightarrow> 'm"
    and entries :: "'m \<Rightarrow> ('k \<times> 'v) list"
    and wf :: "'m \<Rightarrow> bool"
  assumes get_empty: "get empty k = None"
    and get_ins: "get (ins k v m) k' = (if k' = k then Some v else get m k')"
    and get_rem: "get (rem k m) k' = (if k' = k then None else get m k')"
    and wf_empty: "wf empty"
    and wf_ins: "wf m \<Longrightarrow> wf (ins k v m)"
    and wf_rem: "wf m \<Longrightarrow> wf (rem k m)"
    and entries_get: "wf m \<Longrightarrow> (k, v) \<in> set (entries m) \<longleftrightarrow> get m k = Some v"
    and wf_distinct: "wf m \<Longrightarrow> distinct (map fst (entries m))"
begin

lemma get_ins_same: "get (ins k v m) k = Some v"
  by (simp add: get_ins)

lemma get_ins_other: "k' \<noteq> k \<Longrightarrow> get (ins k v m) k' = get m k'"
  by (simp add: get_ins)

text \<open>An invariant of all stored rows is kept by an insert of a row that has it.\<close>

lemma all_ins:
  assumes "\<And>k' v'. get m k' = Some v' \<Longrightarrow> P k' v'" and "P k v"
    and "get (ins k v m) k' = Some v'"
  shows "P k' v'"
  using assms by (auto simp: get_ins split: if_splits)

lemma all_rem:
  assumes "\<And>k' v'. get m k' = Some v' \<Longrightarrow> P k' v'"
    and "get (rem k m) k' = Some v'"
  shows "P k' v'"
  using assms by (auto simp: get_rem split: if_splits)

lemma entry_unique: "wf m \<Longrightarrow> (k, v) \<in> set (entries m) \<Longrightarrow> (k, w) \<in> set (entries m) \<Longrightarrow> v = w"
  by (simp add: entries_get)

lemma set_entries_ins:
  "wf m \<Longrightarrow> set (entries (ins k v m)) = insert (k, v) {(k', v') \<in> set (entries m). k' \<noteq> k}"
  by (auto simp: entries_get wf_ins get_ins split: if_splits)

end

text \<open>
  The model's table: the list of its entries, keys distinct. The order of the list carries no
  meaning, since every iteration goes through a rank of the environment (below).
\<close>

type_synonym ('k, 'v) hmap = "('k \<times> 'v) list"

definition hm_get :: "('k, 'v) hmap \<Rightarrow> 'k \<Rightarrow> 'v option" where
  "hm_get m k = map_of m k"

definition hm_insert :: "'k \<Rightarrow> 'v \<Rightarrow> ('k, 'v) hmap \<Rightarrow> ('k, 'v) hmap" where
  "hm_insert k v m = AList.update k v m"

definition hm_remove :: "'k \<Rightarrow> ('k, 'v) hmap \<Rightarrow> ('k, 'v) hmap" where
  "hm_remove k m = AList.delete k m"

definition hm_wf :: "('k, 'v) hmap \<Rightarrow> bool" where
  "hm_wf m \<longleftrightarrow> distinct (map fst m)"

interpretation ht: hash_table "[]" hm_get hm_insert hm_remove "\<lambda>m. m" hm_wf
proof (unfold_locales, goal_cases)
  case (2 k v m k')
  show ?case by (simp add: hm_get_def hm_insert_def update_conv')
next
  case (3 k m k')
  show ?case by (simp add: hm_get_def hm_remove_def delete_conv')
next
  case (5 m k v)
  then show ?case by (simp add: hm_wf_def hm_insert_def distinct_update)
next
  case (6 m k)
  then show ?case by (simp add: hm_wf_def hm_remove_def distinct_delete)
qed (auto simp: hm_get_def hm_wf_def)

lemmas hm_laws [simp, hm_simps] = ht.get_empty ht.get_ins ht.get_rem
lemmas hm_wf_laws [simp, intro] = ht.wf_empty ht.wf_ins ht.wf_rem

lemma hm_get_conv [simp]: "hm_get ((k, v) # m) k' = (if k' = k then Some v else hm_get m k')"
  by (simp add: hm_get_def)

lemma hm_insert_same [simp]: "hm_get m k = Some v \<Longrightarrow> hm_insert k v m = m"
  by (induction m) (auto simp: hm_get_def hm_insert_def split: if_splits)

lemma hm_insert_new: "hm_get m k = None \<Longrightarrow> hm_insert k v m = m @ [(k, v)]"
  by (induction m) (auto simp: hm_get_def hm_insert_def split: if_splits)

text \<open>
  Iteration. \<open>HashMap::values\<close> runs in an order the library leaves unspecified: the rank
  \<open>r\<close> decides it, and every order of the entries is the order of some rank.
\<close>

definition hm_entries :: "(nat \<Rightarrow> nat) \<Rightarrow> ('k, 'v) hmap \<Rightarrow> ('k \<times> 'v) list" where
  "hm_entries r m = map snd (sort_key (\<lambda>p. r (fst p)) (enumerate 0 m))"

definition hm_values :: "(nat \<Rightarrow> nat) \<Rightarrow> ('k, 'v) hmap \<Rightarrow> 'v list" where
  "hm_values r m = map snd (hm_entries r m)"

lemma mset_hm_entries [simp]: "mset (hm_entries r m) = mset m"
proof -
  have "mset (hm_entries r m) = image_mset snd (mset (enumerate 0 m))"
    by (simp add: hm_entries_def)
  also have "\<dots> = mset (map snd (enumerate 0 m))" by (simp only: mset_map)
  also have "map snd (enumerate 0 m) = m" by simp
  finally show ?thesis .
qed

lemma set_hm_entries [simp]: "set (hm_entries r m) = set m"
  using mset_hm_entries mset_eq_setD by blast

lemma mset_hm_values [simp]: "mset (hm_values r m) = mset (map snd m)"
  by (simp add: hm_values_def)

lemma set_hm_values: "hm_wf m \<Longrightarrow> v \<in> set (hm_values r m) \<longleftrightarrow> (\<exists>k. hm_get m k = Some v)"
  by (auto simp: hm_values_def image_iff ht.entries_get [symmetric] Bex_def)

text \<open>A quantity summed over the rows of a table.\<close>

definition hm_sum :: "('v \<Rightarrow> int) \<Rightarrow> ('k, 'v) hmap \<Rightarrow> int" where
  "hm_sum f m = sum_list (map (\<lambda>p. f (snd p)) m)"

lemma hm_sum_Nil [simp]: "hm_sum f [] = 0"
  by (simp add: hm_sum_def)

lemma hm_sum_insert:
  "hm_wf m \<Longrightarrow> hm_sum f (hm_insert k v m) =
     hm_sum f m + f v - (case hm_get m k of None \<Rightarrow> 0 | Some w \<Rightarrow> f w)"
  by (induction m) (auto simp: hm_sum_def hm_insert_def hm_get_def hm_wf_def)

lemma hm_sum_nonneg: "hm_wf m \<Longrightarrow> (\<And>k v. hm_get m k = Some v \<Longrightarrow> 0 \<le> f v) \<Longrightarrow> 0 \<le> hm_sum f m"
  unfolding hm_sum_def by (rule sum_list_nonneg) (auto simp: ht.entries_get [symmetric])

lemma hm_sum_ge:
  assumes "hm_wf m" and "hm_get m k = Some v" and "\<And>k v. hm_get m k = Some v \<Longrightarrow> 0 \<le> f v"
  shows "f v \<le> hm_sum f m"
proof -
  have "(k, v) \<in> set m" using assms(1,2) by (simp add: ht.entries_get)
  then obtain xs ys where m: "m = xs @ (k, v) # ys" by (meson split_list)
  have "\<forall>p \<in> set m. 0 \<le> f (snd p)"
    using assms(1,3) ht.entries_get by fastforce
  then have "\<forall>p \<in> set xs. 0 \<le> f (snd p)" "\<forall>p \<in> set ys. 0 \<le> f (snd p)"
    unfolding m by simp_all
  then have "0 \<le> sum_list (map (\<lambda>p. f (snd p)) xs)" "0 \<le> sum_list (map (\<lambda>p. f (snd p)) ys)"
    by (auto intro!: sum_list_nonneg)
  then show ?thesis by (simp add: hm_sum_def m)
qed

section \<open>The environment of a call\<close>

text \<open>
  What a call takes from outside the program: the UUIDs that \<open>Uuid::new_v4()\<close> returns
  (the \<open>i\<close>-th fresh one), the instants of \<open>Utc::now()\<close>, the date text of
  \<open>Utc::now().format("%Y%m%d")\<close>, the display form of a UUID, the name-based
  \<open>Uuid::new_v5\<close> in the OID namespace and the iteration order of the tables.
\<close>

record env =
  fresh :: "nat \<Rightarrow> uuid"
  clock :: "nat \<Rightarrow> timestamp"
  today :: string
  disp :: "uuid \<Rightarrow> string"
  v5_oid :: "string \<Rightarrow> uuid"
  rank :: "nat \<Rightarrow> nat"

text \<open>A concrete environment for the witnesses.\<close>

definition demo_env :: env where
  "demo_env = \<lparr>fresh = (\<lambda>i. 1000 + i), clock = (\<lambda>i. 50 + int i), today = ''20260101'',
     disp = show_nat, v5_oid = length, rank = (\<lambda>i. i)\<rparr>"

lemma demo_env_sel [simp]:
  "fresh demo_env i = 1000 + i" "clock demo_env i = 50 + int i" "today demo_env = ''20260101''"
  "disp demo_env = show_nat" "v5_oid demo_env = length" "rank demo_env i = i"
  by (simp_all add: demo_env_def)

text \<open>
  What the display form of UUIDs gives the code that joins it with a colon: distinct UUIDs
  print differently and never with a colon.
\<close>

definition plain_disp :: "env \<Rightarrow> bool" where
  "plain_disp e \<longleftrightarrow> inj (disp e) \<and> (\<forall>u. CHR '':'' \<notin> set (disp e u))"

lemma split_at_colon:
  "CHR '':'' \<notin> set x \<Longrightarrow> CHR '':'' \<notin> set x' \<Longrightarrow> x @ '':'' @ y = x' @ '':'' @ y' \<Longrightarrow>
     x = x' \<and> y = y'"
proof (induction x arbitrary: x')
  case Nil
  then show ?case by (cases x') auto
next
  case (Cons a x)
  then show ?case by (cases x') auto
qed

lemma plain_demo: "plain_disp demo_env"
proof -
  have "CHR '':'' \<noteq> digit_char d" if "d < 10" for d
  proof
    assume "CHR '':'' = digit_char d"
    then have "of_char (CHR '':'') = (of_char (digit_char d) :: nat)" by simp
    with that show False by (simp add: digit_char_def)
  qed
  then have "CHR '':'' \<notin> set (show_nat u)" for u
    using show_nat_digits by metis
  moreover have "inj show_nat" by (metis injI read_show_nat)
  ultimately show ?thesis by (simp add: plain_disp_def)
qed

text \<open>The \<open>k\<close>-th call of a run of the witnesses, with identifiers of its own.\<close>

definition demo_at :: "nat \<Rightarrow> env" where
  "demo_at k = demo_env\<lparr>fresh := (\<lambda>i. 10 * k + i)\<rparr>"

lemma demo_at_sel [simp]:
  "fresh (demo_at k) i = 10 * k + i" "disp (demo_at k) = show_nat" "today (demo_at k) = ''20260101''"
  by (simp_all add: demo_at_def)

lemma plain_demo_at: "plain_disp (demo_at k)"
  using plain_demo by (simp add: plain_disp_def)

text \<open>The sequential document numbers: a prefix, the date and the padded counter.\<close>

definition doc_number :: "string \<Rightarrow> env \<Rightarrow> nat \<Rightarrow> string" where
  "doc_number prefix e n = prefix @ ''-'' @ today e @ ''-'' @ pad4 n"

lemma doc_number_inject:
  assumes "length (today e) = length (today e')" and "doc_number p e m = doc_number p e' n"
  shows "m = n"
  using assms by (auto simp: doc_number_def)

section \<open>Pagination\<close>

text \<open>
  \<open>PaginatedResponse::new\<close> (\<open>sensei-core/src/pagination.rs\<close>): a one-based page,
  \<open>per_page\<close> clamped to \<open>[1, 100]\<close>, and the start offset computed in \<open>usize\<close>.
\<close>

record 'a paginated =
  pr_data :: "'a list"
  pr_total :: nat
  pr_page :: nat
  pr_per_page :: nat
  pr_total_pages :: nat

definition div_ceil :: "nat \<Rightarrow> nat \<Rightarrow> nat" where
  "div_ceil a b = (if a mod b = 0 then a div b else a div b + 1)"

definition paginate :: "'a list \<Rightarrow> nat option \<Rightarrow> nat option \<Rightarrow> 'a paginated" where
  "paginate items page per_page =
     (let total = length items;
          pg = max (case page of None \<Rightarrow> 1 | Some p \<Rightarrow> p) 1;
          pp = max 1 (min 100 (case per_page of None \<Rightarrow> 20 | Some p \<Rightarrow> p));
          pages = max (div_ceil total pp) 1;
          start = u64_wrap ((pg - 1) * pp);
          dat = (if total \<le> start then [] else take pp (drop start items))
      in \<lparr>pr_data = dat, pr_total = total, pr_page = pg, pr_per_page = pp,
          pr_total_pages = pages\<rparr>)"

text \<open>\<open>Option::is_none_or\<close>, the shape of every optional filter.\<close>

definition is_none_or :: "'a option \<Rightarrow> ('a \<Rightarrow> bool) \<Rightarrow> bool" where
  "is_none_or x p = (case x of None \<Rightarrow> True | Some a \<Rightarrow> p a)"

definition is_some_and :: "'a option \<Rightarrow> ('a \<Rightarrow> bool) \<Rightarrow> bool" where
  "is_some_and x p = (case x of None \<Rightarrow> False | Some a \<Rightarrow> p a)"

lemma is_none_or_simps [simp]:
  "is_none_or None p" "is_none_or (Some a) p = p a"
  by (simp_all add: is_none_or_def)

lemma is_some_and_simps [simp]:
  "\<not> is_some_and None p" "is_some_and (Some a) p = p a"
  by (simp_all add: is_some_and_def)


lemma div_ceil_bounds:
  assumes "0 < b"
  shows "a \<le> div_ceil a b * b" and "0 < a \<Longrightarrow> (div_ceil a b - 1) * b < a"
proof -
  have a: "a = a div b * b + a mod b" and r: "a mod b < b" using assms by simp_all
  show "a \<le> div_ceil a b * b"
  proof (cases "a mod b = 0")
    case True
    with a show ?thesis by (simp add: div_ceil_def)
  next
    case False
    have "a \<le> a div b * b + b" using a r by linarith
    with False show ?thesis by (simp add: div_ceil_def)
  qed
  show "(div_ceil a b - 1) * b < a" if "0 < a"
  proof (cases "a mod b = 0")
    case True
    with a that have "0 < a div b" by (cases "a div b") auto
    then have "(a div b - 1) * b < a div b * b" using assms by simp
    also have "\<dots> \<le> a" using a by linarith
    finally show ?thesis using True by (simp add: div_ceil_def)
  next
    case False
    have "a div b * b < a" using a False by linarith
    with False show ?thesis by (simp add: div_ceil_def)
  qed
qed

lemma concat_chunks:
  "concat (map (\<lambda>k. take b (drop (k * b) xs)) [0..<n]) = take (n * b) xs"
proof (induction n)
  case (Suc n)
  have "take (Suc n * b) xs = take (n * b) xs @ take b (drop (n * b) xs)"
    using take_add [of "n * b" b xs] by (simp add: add.commute)
  with Suc show ?case by simp
qed simp

lemma paginate_data:
  "pr_data (paginate items (Some p) per_page) =
     (let pp = max 1 (min 100 (case per_page of None \<Rightarrow> 20 | Some p \<Rightarrow> p))
      in take pp (drop (u64_wrap ((max p 1 - 1) * pp)) items))"
  by (simp add: paginate_def Let_def)

text \<open>
  The pages of a listing are the listing. For every requested page size, fetching pages
  1 up to the reported page count and joining them gives exactly the items, each once and in
  order, and no page is longer than the reported page size, which lies between 1 and 100.
\<close>

lemma pages_partition:
  assumes "length items < 2 ^ 64"
  shows "concat (map (\<lambda>p. pr_data (paginate items (Some p) per_page))
      [1..<pr_total_pages (paginate items page per_page) + 1]) = items
    \<and> length (pr_data (paginate items page per_page)) \<le> pr_per_page (paginate items page per_page)
    \<and> 1 \<le> pr_per_page (paginate items page per_page)
    \<and> pr_per_page (paginate items page per_page) \<le> 100"
proof -
  define pp where "pp = max 1 (min 100 (case per_page of None \<Rightarrow> 20 | Some p \<Rightarrow> p))"
  define n where "n = max (div_ceil (length items) pp) 1"
  have pp: "0 < pp" "pp \<le> 100" by (simp_all add: pp_def)
  have pages: "pr_total_pages (paginate items page per_page) = n"
    by (simp add: paginate_def Let_def n_def pp_def)
  have "pr_data (paginate items (Some (Suc k)) per_page) = take pp (drop (k * pp) items)"
    if "k < n" for k
  proof -
    have "k * pp < 2 ^ 64"
    proof (cases "k = 0")
      case False
      with that have "0 < length items" and k: "k \<le> div_ceil (length items) pp - 1"
        by (auto simp: n_def div_ceil_def split: if_splits)
      then have "k * pp \<le> (div_ceil (length items) pp - 1) * pp" by (intro mult_le_mono1)
      also have "\<dots> < length items" using div_ceil_bounds(2) [OF pp(1)] \<open>0 < length items\<close> by simp
      finally show ?thesis using assms by simp
    qed simp
    then have "u64_wrap ((max (Suc k) 1 - 1) * pp) = k * pp" by (simp add: u64_wrap_def)
    then show ?thesis unfolding paginate_data Let_def pp_def [symmetric] by simp
  qed
  then have "map (\<lambda>k. pr_data (paginate items (Some (Suc k)) per_page)) [0..<n] =
      map (\<lambda>k. take pp (drop (k * pp) items)) [0..<n]" by simp
  moreover have "[1..<n + 1] = map Suc [0..<n]" by (simp add: map_Suc_upt)
  ultimately have "map (\<lambda>p. pr_data (paginate items (Some p) per_page)) [1..<n + 1] =
      map (\<lambda>k. take pp (drop (k * pp) items)) [0..<n]" by (simp only: map_map comp_def)
  then have "concat (map (\<lambda>p. pr_data (paginate items (Some p) per_page)) [1..<n + 1]) =
      take (n * pp) items" by (simp only: concat_chunks)
  also have "\<dots> = items"
  proof -
    have "div_ceil (length items) pp * pp \<le> n * pp" by (intro mult_le_mono1) (simp add: n_def)
    from order_trans [OF div_ceil_bounds(1) [OF pp(1)] this] show ?thesis by simp
  qed
  finally show ?thesis
    using pages by (auto simp: paginate_def Let_def pp_def)
qed

lemma pages_partition_witness:
  "concat (map (\<lambda>p. pr_data (paginate [1, 2, 3 :: nat] (Some p) (Some 2))) [1..<3]) = [1, 2, 3]"
proof -
  have "pr_total_pages (paginate [1, 2, 3 :: nat] None (Some 2)) = 2"
    by code_simp
  then show ?thesis
    using pages_partition [of "[1, 2, 3 :: nat]" "Some 2" None] by simp
qed

text \<open>
  A page number far beyond the last one wraps around in the release build, where the
  documentation promises an empty page.
\<close>

lemma huge_page_wraps:
  "pr_data (paginate [1, 2, 3 :: nat] (Some (2 ^ 60 + 1)) (Some 16)) = [1, 2, 3]"
  by (simp add: paginate_def Let_def u64_wrap_def)

lemma find_append: "find P (xs @ ys) = (case find P xs of None \<Rightarrow> find P ys | Some x \<Rightarrow> Some x)"
  by (induction xs) auto

lemma find_Some_set: "find P xs = Some x \<Longrightarrow> x \<in> set xs \<and> P x"
  by (induction xs) (auto split: if_splits)

end
