(* ===== verification/Domain_Events.thy ===== *)
theory Domain_Events
  imports Rust_Prelude
begin

text \<open>
  The domain events (\<open>sensei-core/src/domain/events.rs\<close>) that the supply-chain and the
  production services publish: one constructor per event struct, its fields in the order of the
  struct, the metadata that \<open>EventMetadata::new\<close> adds, and the type name each reports.
\<close>

text \<open>A \<open>f64\<close> field that is filled by \<open>as f64\<close> holds the integer the double denotes.\<close>

datatype event_body =
    RFQCreated uuid string uuid string string
      \<comment> \<open>rfq, number, account, priority, source\<close>
  | RFQStatusChanged uuid string string \<comment> \<open>rfq, old, new\<close>
  | QuoteCreated uuid string uuid decimal string
      \<comment> \<open>quote, number, rfq, total, currency\<close>
  | QuoteApproved uuid uuid decimal \<comment> \<open>quote, approver, total\<close>
  | QuoteConverted uuid uuid \<comment> \<open>quote, sales order\<close>
  | SalesOrderCreated uuid string uuid decimal string
      \<comment> \<open>order, number, account, total, currency\<close>
  | PurchaseOrderCreated uuid string uuid decimal string
      \<comment> \<open>order, number, supplier, total, currency\<close>
  | StockMoveCreated uuid uuid int uuid uuid string
      \<comment> \<open>move, product, quantity as f64, from, to, type\<close>
  | GoodsReceiptCreated uuid uuid int \<comment> \<open>receipt, order, quantity as f64\<close>
  | WorkOrderStatusChanged uuid string string string uuid
      \<comment> \<open>order, number, old, new, actor\<close>
  | WorkOrderCreated uuid uuid string string \<comment> \<open>order, asset, priority, work type\<close>
  | ProductionOrderStarted uuid uuid int string \<comment> \<open>order, product, quantity, line\<close>
  | ProductionOrderCompleted uuid uuid int int \<comment> \<open>order, product, produced, scrap\<close>
  | MRPRunCompleted uuid int int \<comment> \<open>run, planned orders, shortages\<close>
  | DowntimeRecorded uuid int string message \<comment> \<open>asset, minutes as f64, cause, impact\<close>

fun event_type :: "event_body \<Rightarrow> string" where
  "event_type (RFQCreated _ _ _ _ _) = ''supply-chain.rfq.created''"
| "event_type (RFQStatusChanged _ _ _) = ''supply-chain.rfq.status-changed''"
| "event_type (QuoteCreated _ _ _ _ _) = ''supply-chain.quote.created''"
| "event_type (QuoteApproved _ _ _) = ''supply-chain.quote.approved''"
| "event_type (QuoteConverted _ _) = ''supply-chain.quote.converted''"
| "event_type (SalesOrderCreated _ _ _ _ _) = ''supply-chain.sales-order.created''"
| "event_type (PurchaseOrderCreated _ _ _ _ _) = ''supply-chain.purchase-order.created''"
| "event_type (StockMoveCreated _ _ _ _ _ _) = ''supply-chain.stock-move.created''"
| "event_type (GoodsReceiptCreated _ _ _) = ''supply-chain.goods-receipt.created''"
| "event_type (WorkOrderStatusChanged _ _ _ _ _) = ''production.work-order.status-changed''"
| "event_type (WorkOrderCreated _ _ _ _) = ''production.work-order.created''"
| "event_type (ProductionOrderStarted _ _ _ _) = ''production.order.started''"
| "event_type (ProductionOrderCompleted _ _ _ _) = ''production.order.completed''"
| "event_type (MRPRunCompleted _ _ _) = ''production.mrp.completed''"
| "event_type (DowntimeRecorded _ _ _ _) = ''production.downtime.recorded''"

record event_metadata =
  em_event_id :: uuid
  em_event_type :: string
  em_correlation_id :: uuid
  em_tenant_id :: uuid
  em_occurred_at :: timestamp
  em_version :: nat

record domain_event =
  de_metadata :: event_metadata
  de_body :: event_body

text \<open>
  The fresh identifiers and the instant of an event are drawn after those of the record it
  announces; the model takes them from a block of the environment reserved for events.
\<close>

definition new_event :: "env \<Rightarrow> uuid \<Rightarrow> event_body \<Rightarrow> domain_event" where
  "new_event e tenant b =
     \<lparr>de_metadata = \<lparr>em_event_id = fresh e 100, em_event_type = event_type b,
        em_correlation_id = fresh e 101, em_tenant_id = tenant,
        em_occurred_at = clock e 100, em_version = 1\<rparr>, de_body = b\<rparr>"

text \<open>
  A service's handle on the bus: absent, or the events handed to it so far. A failed publish
  is logged and ignored by every service, so the result of a call never depends on it.
\<close>

type_synonym event_log = "domain_event list option"

definition publish_event :: "event_log \<Rightarrow> domain_event \<Rightarrow> event_log" where
  "publish_event bus ev = map_option (\<lambda>es. es @ [ev]) bus"

end
