(* ===== verification/Event_Bus.thy ===== *)
theory Event_Bus
  imports Domain_Events
begin

text \<open>
  The in-memory event bus and the subject rules shared with the NATS bus
  (\<open>sensei-event-bus/src/bus.rs\<close>): the \<open>sensei.\<close> prefix, the wildcard matcher, the
  consumer group names, and the delivery of a published event to the subscribers.
\<close>

section \<open>Subjects\<close>

definition SUBJECT_PREFIX :: string where
  "SUBJECT_PREFIX = ''sensei''"

text \<open>The matching loop of \<open>subject_matches\<close>, with its index into the subject.\<close>

fun match_loop :: "string list \<Rightarrow> string list \<Rightarrow> nat \<Rightarrow> bool" where
  "match_loop [] subject idx = (idx = length subject)"
| "match_loop (tok # toks) subject idx =
     (if tok = ''>'' then True
      else if length subject \<le> idx then False
      else if tok \<noteq> ''*'' \<and> tok \<noteq> subject ! idx then False
      else match_loop toks subject (idx + 1))"

definition subject_matches :: "string \<Rightarrow> string \<Rightarrow> bool" where
  "subject_matches pattern subject =
     match_loop (split_on (CHR ''.'') pattern) (split_on (CHR ''.'') subject) 0"

definition normalize_subject :: "string \<Rightarrow> string" where
  "normalize_subject subject =
     (let s = trim subject
      in if starts_with SUBJECT_PREFIX s then s else SUBJECT_PREFIX @ ''.'' @ s)"

definition is_ascii_alphanumeric :: "char \<Rightarrow> bool" where
  "is_ascii_alphanumeric c \<longleftrightarrow>
     (let n = (of_char c :: nat)
      in (48 \<le> n \<and> n \<le> 57) \<or> (65 \<le> n \<and> n \<le> 90) \<or> (97 \<le> n \<and> n \<le> 122))"

definition sanitize_group :: "string \<Rightarrow> string" where
  "sanitize_group g =
     map (\<lambda>c. if is_ascii_alphanumeric c \<or> c = CHR ''-'' \<or> c = CHR ''_'' then c else CHR ''-'') g"

definition default_group :: "string \<Rightarrow> string" where
  "default_group subject = sanitize_group subject"

definition event_subject :: "domain_event \<Rightarrow> string" where
  "event_subject ev = SUBJECT_PREFIX @ ''.'' @ event_type (de_body ev)"

section \<open>The in-memory bus\<close>

text \<open>
  A handler is code of the subscriber: an identity here, and the result of running it on an
  envelope is a parameter. The sync handlers run in turn, a failing one is logged and skipped;
  the async ones are spawned.
\<close>

record 'h bus =
  subscribers :: "(string \<times> 'h) list"
  core_subscribers :: "(string \<times> 'h) list"
  async_subscribers :: "(string \<times> string \<times> 'h) list"

definition bus_new :: "'h bus" where
  "bus_new = \<lparr>subscribers = [], core_subscribers = [], async_subscribers = []\<rparr>"

definition subscribe_with_group :: "string \<Rightarrow> string \<Rightarrow> 'h \<Rightarrow> 'h bus \<Rightarrow> 'h bus" where
  "subscribe_with_group subject grp h b =
     b\<lparr>subscribers := subscribers b @ [(normalize_subject subject, h)]\<rparr>"

definition subscribe :: "string \<Rightarrow> 'h \<Rightarrow> 'h bus \<Rightarrow> 'h bus" where
  "subscribe subject h b = subscribe_with_group subject (default_group subject) h b"

definition subscribe_with_group_async :: "string \<Rightarrow> string \<Rightarrow> 'h \<Rightarrow> 'h bus \<Rightarrow> 'h bus" where
  "subscribe_with_group_async subject grp h b =
     b\<lparr>async_subscribers := async_subscribers b @ [(normalize_subject subject, grp, h)]\<rparr>"

definition subscribe_core :: "string \<Rightarrow> string \<Rightarrow> 'h \<Rightarrow> 'h bus \<Rightarrow> 'h bus" where
  "subscribe_core subject grp h b =
     b\<lparr>core_subscribers := core_subscribers b @ [(normalize_subject subject, h)]\<rparr>"

text \<open>
  \<open>publish\<close>: the envelope of the event (its type, payload and headers) is the event itself.
  The result lists the handler runs it starts, in order: the sync ones, then the spawned ones.
\<close>

definition publish_deliveries :: "'h bus \<Rightarrow> domain_event \<Rightarrow> ('h \<times> domain_event) list" where
  "publish_deliveries b ev =
     map (\<lambda>(p, h). (h, ev)) (filter (\<lambda>(p, h). subject_matches p (event_subject ev))
       (subscribers b))
     @ map (\<lambda>(p, g, h). (h, ev)) (filter (\<lambda>(p, g, h). subject_matches p (event_subject ev))
       (async_subscribers b))"

definition publish_core_deliveries :: "'h bus \<Rightarrow> string \<Rightarrow> 'p \<Rightarrow> ('h \<times> 'p) list" where
  "publish_core_deliveries b subject payload =
     map (\<lambda>(p, h). (h, payload)) (filter (\<lambda>(p, h). subject_matches p (normalize_subject subject))
       (core_subscribers b))"

definition disconnect :: "'h bus \<Rightarrow> 'h bus" where
  "disconnect b = b\<lparr>subscribers := []\<rparr>"

section \<open>The wildcard contract\<close>

text \<open>
  What the comment of \<open>subject_matches\<close> promises, by the structure of the token lists:
  \<open>>\<close> takes any remainder (the empty one too), \<open>*\<close> exactly one token, any other
  token itself.
\<close>

inductive nats_match :: "string list \<Rightarrow> string list \<Rightarrow> bool" where
  nm_end: "nats_match [] []"
| nm_rest: "nats_match (''>'' # toks) subject"
| nm_star: "nats_match toks subject \<Longrightarrow> nats_match (''*'' # toks) (s # subject)"
| nm_tok: "nats_match toks subject \<Longrightarrow> nats_match (s # toks) (s # subject)"

inductive_cases nats_match_NilE: "nats_match [] subject"
inductive_cases nats_match_ConsE: "nats_match (tok # toks) subject"
inductive_simps nats_match_Nil: "nats_match [] subject"
inductive_simps nats_match_Cons: "nats_match (tok # toks) subject"

lemma match_loop_drop:
  "idx \<le> length subject \<Longrightarrow> match_loop toks subject idx \<longleftrightarrow> nats_match toks (drop idx subject)"
proof (induction toks arbitrary: idx)
  case Nil
  then show ?case by (auto simp: nats_match_Nil)
next
  case (Cons tok toks)
  show ?case
  proof (cases "idx < length subject")
    case True
    then have "drop idx subject = subject ! idx # drop (idx + 1) subject"
      by (simp add: Cons_nth_drop_Suc)
    with True Cons.IH [of "idx + 1"] show ?thesis
      by (auto simp: nats_match_Cons)
  next
    case False
    with Cons.prems show ?thesis by (auto simp: nats_match_Cons)
  qed
qed

lemma split_on_head:
  assumes "split_on c s = t # ts"
  shows "t = takeWhile (\<lambda>x. x \<noteq> c) s"
  using assms
proof (induction s arbitrary: t ts)
  case Nil
  then show ?case by simp
next
  case (Cons x s)
  then show ?case by (auto simp: split_on_nonempty split: if_splits list.splits)
qed

lemma split_event_subject:
  "split_on (CHR ''.'') (event_subject ev) =
     ''sensei'' # split_on (CHR ''.'') (event_type (de_body ev))"
  using split_on_prefix [of "CHR ''.''" "''sensei''" "event_type (de_body ev)"]
  by (simp add: event_subject_def SUBJECT_PREFIX_def)

lemma subject_matches_nats:
  "subject_matches p s \<longleftrightarrow> nats_match (split_on (CHR ''.'') p) (split_on (CHR ''.'') s)"
  by (simp add: subject_matches_def match_loop_drop)


lemma nats_match_head:
  "nats_match (t # ts) (u # us) \<Longrightarrow> t = ''>'' \<or> t = ''*'' \<or> t = u"
  by (auto simp: nats_match_Cons)

lemma starts_with_prefix [simp]: "starts_with SUBJECT_PREFIX (SUBJECT_PREFIX @ s)"
  by (simp add: starts_with_def)

lemma deliveries_subscribe:
  "publish_deliveries (subscribe subject h b) ev =
     publish_deliveries (b\<lparr>async_subscribers := []\<rparr>) ev
     @ (if subject_matches (normalize_subject subject) (event_subject ev) then [(h, ev)] else [])
     @ publish_deliveries (b\<lparr>subscribers := []\<rparr>) ev"
  by (simp add: publish_deliveries_def subscribe_def subscribe_with_group_def)

lemma deliveries_split:
  "publish_deliveries b ev =
     publish_deliveries (b\<lparr>async_subscribers := []\<rparr>) ev
     @ publish_deliveries (b\<lparr>subscribers := []\<rparr>) ev"
  by (simp add: publish_deliveries_def)

lemma bare_subject_matches:
  assumes "\<not> starts_with SUBJECT_PREFIX (trim subject)"
  shows "subject_matches (normalize_subject subject) (event_subject ev) \<longleftrightarrow>
    nats_match (split_on (CHR ''.'') (trim subject)) (split_on (CHR ''.'') (event_type (de_body ev)))"
proof -
  have "split_on (CHR ''.'') (normalize_subject subject)
      = ''sensei'' # split_on (CHR ''.'') (trim subject)"
    using assms split_on_prefix [of "CHR ''.''" "''sensei''" "trim subject"]
    by (simp add: normalize_subject_def SUBJECT_PREFIX_def)
  then show ?thesis
    by (simp add: subject_matches_nats split_event_subject nats_match_Cons)
qed

lemma foreign_head_never_matches:
  assumes "starts_with SUBJECT_PREFIX (trim subject)"
    and "split_on (CHR ''.'') (trim subject) = t # ts" and "t \<noteq> ''sensei''"
  shows "\<not> subject_matches (normalize_subject subject) (event_subject ev)"
proof -
  have "t \<noteq> ''>''" and "t \<noteq> ''*''"
    using assms(1,3) split_on_head [OF assms(2)]
    by (auto simp: starts_with_def SUBJECT_PREFIX_def take_Suc_conv_app_nth
        split: if_splits) (cases "trim subject"; auto split: if_splits)+
  with assms show ?thesis
    by (auto simp: normalize_subject_def subject_matches_nats split_event_subject
        dest!: nats_match_head)
qed

section \<open>Properties\<close>

text \<open>
  C40. The index loop of \<open>subject_matches\<close> decides exactly the documented NATS wildcard
  contract on the dot-separated tokens, for every pattern and every subject.
\<close>

theorem subject_matches_contract:
  "subject_matches pattern subject \<longleftrightarrow>
     nats_match (split_on (CHR ''.'') pattern) (split_on (CHR ''.'') subject)"
  by (rule subject_matches_nats)

text \<open>
  A subscription to a subject written without the \<open>sensei\<close> prefix receives an event
  exactly when its pattern matches the event's type, between the earlier sync subscribers and
  the async ones, and never changes what the others receive.
\<close>

lemma bare_subscription_delivery:
  assumes "\<not> starts_with SUBJECT_PREFIX (trim subject)"
  shows "publish_deliveries (subscribe subject h b) ev =
    publish_deliveries (b\<lparr>async_subscribers := []\<rparr>) ev
    @ (if nats_match (split_on (CHR ''.'') (trim subject))
            (split_on (CHR ''.'') (event_type (de_body ev))) then [(h, ev)] else [])
    @ publish_deliveries (b\<lparr>subscribers := []\<rparr>) ev"
  using bare_subject_matches [OF assms] by (simp add: deliveries_subscribe)

lemma bare_subscription_delivery_witness:
  "publish_deliveries (subscribe ''production.*.completed'' (7 :: nat) bus_new)
       (new_event demo_env 1 (MRPRunCompleted 5 3 3))
     = [(7, new_event demo_env 1 (MRPRunCompleted 5 3 3))]"
proof -
  have "\<not> starts_with SUBJECT_PREFIX (trim ''production.*.completed'')"
    by code_simp
  moreover have "nats_match (split_on (CHR ''.'') (trim ''production.*.completed''))
      (split_on (CHR ''.'') (event_type (MRPRunCompleted 5 3 3)))"
    by (simp add: trim_def is_ws_def nats_match_Cons nats_match_Nil)
  ultimately show ?thesis
    using bare_subscription_delivery [of "''production.*.completed''" 7 bus_new
        "new_event demo_env 1 (MRPRunCompleted 5 3 3)"]
    by (simp add: new_event_def publish_deliveries_def bus_new_def)
qed

text \<open>
  A subject that begins with the letters \<open>sensei\<close> but whose first token is another
  word (\<open>sensei_jobs.>\<close>) is taken as already prefixed: the subscription is accepted and
  never receives any event.
\<close>

lemma lookalike_prefix_is_deaf:
  assumes "starts_with SUBJECT_PREFIX (trim subject)"
    and "split_on (CHR ''.'') (trim subject) = t # ts" and "t \<noteq> ''sensei''"
  shows "publish_deliveries (subscribe subject h b) ev = publish_deliveries b ev"
  using foreign_head_never_matches [OF assms] deliveries_split [of b ev]
  by (simp add: deliveries_subscribe)

lemma lookalike_prefix_is_deaf_witness:
  "publish_deliveries (subscribe ''sensei_jobs.>'' (7 :: nat) bus_new)
       (new_event demo_env 1 (MRPRunCompleted 5 3 3)) = []"
proof -
  have "starts_with SUBJECT_PREFIX (trim ''sensei_jobs.>'')" by code_simp
  moreover have "split_on (CHR ''.'') (trim ''sensei_jobs.>'') = [''sensei_jobs'', ''>'']"
    by (simp add: trim_def is_ws_def)
  ultimately show ?thesis
    using lookalike_prefix_is_deaf [of "''sensei_jobs.>''" "''sensei_jobs''" "[''>'']" 7 bus_new
        "new_event demo_env 1 (MRPRunCompleted 5 3 3)"]
    by (simp add: publish_deliveries_def bus_new_def)
qed

end
