(* ===== verification/Sql_Model.thy ===== *)
theory Sql_Model
  imports Rust_Prelude
begin

text \<open>
  How the model runs SQL. A table is the list of its rows and a statement a function of the
  tables that follows the text of the query. What the PostgreSQL server decides on its own is
  the parameter \<open>pg\<close>: which statement of a call fails and with which text (connection
  loss, a column limit, a foreign key), the texts for a NULL read as a UUID, for a violated
  UNIQUE constraint, for a number out of range, for a violated foreign key
  or CHECK and for a missing row, the transaction
  time \<open>NOW()\<close>, which row an unordered \<open>LIMIT 1\<close> returns, and how an
  \<open>ORDER BY\<close> breaks ties. A transaction that
  ends in an error leaves the tables as they were.
\<close>

record pg =
  stmt_error :: "nat \<Rightarrow> string option"
  null_error :: string
  unique_error :: string
  range_error :: string
  reference_error :: string
  check_error :: string
  no_row_error :: string
  db_now :: timestamp
  any_row :: nat
  tie :: "nat \<Rightarrow> nat"

definition no_faults :: pg where
  "no_faults = \<lparr>stmt_error = (\<lambda>_. None), null_error = [], unique_error = [], range_error = [],
     reference_error = [], check_error = [], no_row_error = [], db_now = 0,
     any_row = 0, tie = (\<lambda>i. i)\<rparr>"

lemma no_faults_sel [simp]:
  "stmt_error no_faults n = None" "any_row no_faults = 0" "db_now no_faults = 0"
  "tie no_faults i = i"
  by (simp_all add: no_faults_def)

text \<open>The JSON values the services build and store; a number is an integer or a float.\<close>

datatype json =
    JNull
  | JBool bool
  | JNum int
  | JFloat rat
  | JStr string
  | JArr "json list"
  | JObj "(string \<times> json) list"

section \<open>Transactions as state passing\<close>

text \<open>
  A step of a transaction takes the tables and the number of statements run so far, and
  returns a result or an error text, the tables and the new number.
\<close>

type_synonym ('d, 'e, 'a) step = "'d \<Rightarrow> nat \<Rightarrow> ('e + 'a) \<times> 'd \<times> nat"
type_synonym ('d, 'a) tx = "('d, message, 'a) step"

definition tx_return :: "'a \<Rightarrow> ('d, 'e, 'a) step" where
  "tx_return x d n = (Inr x, d, n)"

definition tx_fail :: "'e \<Rightarrow> ('d, 'e, 'a) step" where
  "tx_fail m d n = (Inl m, d, n)"

definition tx_bind :: "('d, 'e, 'a) step \<Rightarrow> ('a \<Rightarrow> ('d, 'e, 'b) step) \<Rightarrow> ('d, 'e, 'b) step" where
  "tx_bind t k d n =
     (case t d n of (Inl e, d', n') \<Rightarrow> (Inl e, d', n') | (Inr x, d', n') \<Rightarrow> k x d' n')"

definition tx_then :: "('d, 'e, 'a) step \<Rightarrow> ('d, 'e, 'b) step \<Rightarrow> ('d, 'e, 'b) step" where
  "tx_then t u = tx_bind t (\<lambda>_. u)"

text \<open>One statement: the server may fail it, or the tables may refuse it (\<open>Inl\<close>).\<close>

definition tx_stmt :: "pg \<Rightarrow> message \<Rightarrow> ('d \<Rightarrow> string + 'a \<times> 'd) \<Rightarrow> ('d, 'a) tx" where
  "tx_stmt f msg step d n =
     (case stmt_error f n of
        Some e \<Rightarrow> (Inl (msg @ [FStr e]), d, n + 1)
      | None \<Rightarrow> (case step d of Inl e \<Rightarrow> (Inl (msg @ [FStr e]), d, n + 1)
                 | Inr (x, d') \<Rightarrow> (Inr x, d', n + 1)))"

definition tx_query :: "pg \<Rightarrow> message \<Rightarrow> ('d \<Rightarrow> 'a) \<Rightarrow> ('d, 'a) tx" where
  "tx_query f msg q = tx_stmt f msg (\<lambda>d. Inr (q d, d))"

text \<open>
  \<open>with_tenant_tx\<close> (\<open>sensei-workflow/src/lib.rs\<close>): begin, establish the tenant
  context, run the body, commit; an early return drops the transaction, which rolls it back.
\<close>

definition with_tenant_tx :: "pg \<Rightarrow> ('d, 'a) tx \<Rightarrow> ('d, 'a) tx" where
  "with_tenant_tx f body d n =
     (case tx_then (tx_query f [Txt ''failed to begin tenant tx: ''] (\<lambda>_. ()))
           (tx_then (tx_query f [Txt ''failed to set tenant context: ''] (\<lambda>_. ()))
           (tx_bind body (\<lambda>x.
            tx_then (tx_query f [Txt ''failed to commit tenant tx: ''] (\<lambda>_. ()))
              (tx_return x)))) d n of
        (Inl e, d', n') \<Rightarrow> (Inl e, d, n')
      | (Inr x, d', n') \<Rightarrow> (Inr x, d', n'))"

section \<open>Reading off a successful transaction\<close>

lemma tx_return_Ok [simp]:
  "tx_return x d n = (Inr y, d', n') \<longleftrightarrow> y = x \<and> d' = d \<and> n' = n"
  by (auto simp: tx_return_def)

lemma tx_fail_Ok [simp]: "tx_fail m d n \<noteq> (Inr y, d', n')"
  by (simp add: tx_fail_def)

lemma tx_bind_Ok [simp]:
  "tx_bind t k d n = (Inr y, d', n') \<longleftrightarrow>
     (\<exists>x d1 n1. t d n = (Inr x, d1, n1) \<and> k x d1 n1 = (Inr y, d', n'))"
  by (auto simp: tx_bind_def split: prod.splits sum.splits)

lemma tx_then_Ok [simp]:
  "tx_then t u d n = (Inr y, d', n') \<longleftrightarrow>
     (\<exists>x d1 n1. t d n = (Inr x, d1, n1) \<and> u d1 n1 = (Inr y, d', n'))"
  by (simp add: tx_then_def)

lemma tx_stmt_Ok [simp]:
  "tx_stmt f msg step d n = (Inr y, d', n') \<longleftrightarrow>
     stmt_error f n = None \<and> step d = Inr (y, d') \<and> n' = n + 1"
  by (auto simp: tx_stmt_def split: option.splits sum.splits prod.splits)

lemma tx_query_Ok [simp]:
  "tx_query f msg q d n = (Inr y, d', n') \<longleftrightarrow>
     stmt_error f n = None \<and> y = q d \<and> d' = d \<and> n' = n + 1"
  by (auto simp: tx_query_def)

lemma with_tenant_tx_Ok:
  "with_tenant_tx f body d n = (Inr y, d', n') \<longleftrightarrow>
     stmt_error f n = None \<and> stmt_error f (n + 1) = None
     \<and> (\<exists>n1. body d (n + 2) = (Inr y, d', n1) \<and> stmt_error f n1 = None \<and> n' = n1 + 1)"
proof -
  have result: "(case t of (Inl e, d2, n2) \<Rightarrow> (Inl e, d, n2) | (Inr x, d2, n2) \<Rightarrow> (Inr x, d2, n2))
      = (Inr y, d', n') \<longleftrightarrow> t = (Inr y, d', n')" for t :: "(message + 'a) \<times> 'b \<times> nat"
    by (auto split: prod.splits sum.splits)
  show ?thesis unfolding with_tenant_tx_def result by auto
qed

text \<open>Atomicity: an error leaves the tables as the call found them.\<close>

lemma with_tenant_tx_Err:
  "with_tenant_tx f body d n = (Inl e, d', n') \<Longrightarrow> d' = d"
  by (auto simp: with_tenant_tx_def split: prod.splits sum.splits)

text \<open>With a server that fails nothing, a transaction is its body with rollback.\<close>

lemma tx_stmt_no_faults:
  "stmt_error f = (\<lambda>_. None) \<Longrightarrow> tx_stmt f msg step d n =
     (case step d of Inl e \<Rightarrow> (Inl (msg @ [FStr e]), d, n + 1) | Inr (x, d') \<Rightarrow> (Inr x, d', n + 1))"
  by (simp add: tx_stmt_def)

lemma with_tenant_tx_no_faults:
  assumes "stmt_error f = (\<lambda>_. None)"
  shows "with_tenant_tx f body d n =
    (case body d (n + 2) of (Inl e, d', n') \<Rightarrow> (Inl e, d, n') | (Inr x, d', n') \<Rightarrow> (Inr x, d', n' + 1))"
  using assms
  by (auto simp: with_tenant_tx_def tx_then_def tx_bind_def tx_query_def tx_stmt_no_faults
      tx_return_def split: prod.splits sum.splits)

end
