(* ===== verification/Workflow_Engine.thy ===== *)
theory Workflow_Engine
  imports Sql_Model
begin

text \<open>
  The workflow engine (\<open>sensei-workflow/src\<close>): \<open>state.rs\<close>, \<open>transition.rs\<close>,
  \<open>evidence.rs\<close>, \<open>approval.rs\<close>, with the tables of migrations 118 and 127, and the
  authorization snapshot of \<open>sensei-auth/src/authz_snapshot.rs\<close>. Every operation runs in
  a tenant transaction of \<open>Sql_Model\<close>.
\<close>

section \<open>Status\<close>

datatype workflow_status =
    Pending | Running | AwaitingApproval | AwaitingEvidence | Completed | Failed | Compensated

fun status_str :: "workflow_status \<Rightarrow> string" where
  "status_str Pending = ''pending''"
| "status_str Running = ''running''"
| "status_str AwaitingApproval = ''awaiting_approval''"
| "status_str AwaitingEvidence = ''awaiting_evidence''"
| "status_str Completed = ''completed''"
| "status_str Failed = ''failed''"
| "status_str Compensated = ''compensated''"

section \<open>Tables\<close>

record checkpoint_row =
  ck_tenant :: uuid
  ck_workflow :: string
  ck_type :: string
  ck_step :: string
  ck_status :: string
  ck_actor :: "uuid option"
  ck_payload :: json
  ck_checkpoint :: int

record instance_row =
  wi_tenant :: uuid
  wi_workflow :: string
  wi_step :: string
  wi_version :: int

record approval_row =
  ap_tenant :: uuid
  ap_workflow :: string
  ap_step :: string
  ap_role :: string
  ap_rationale :: string
  ap_status :: string
  ap_decided_by :: "uuid option"
  ap_decided_at :: "timestamp option"

record evidence =
  ev_kind :: string
  ev_source :: string
  ev_captured_at :: timestamp
  ev_value :: json

record evidence_row =
  er_tenant :: uuid
  er_workflow :: string
  er_evidence :: evidence

record wf_db =
  checkpoints :: "checkpoint_row list"
  instances :: "instance_row list"
  approvals :: "approval_row list"
  evidences :: "evidence_row list"

definition wf_empty :: wf_db where
  "wf_empty = \<lparr>checkpoints = [], instances = [], approvals = [], evidences = []\<rparr>"

text \<open>The rows of one workflow of one tenant.\<close>

definition wf_checkpoints :: "wf_db \<Rightarrow> uuid \<Rightarrow> string \<Rightarrow> checkpoint_row list" where
  "wf_checkpoints d t w = filter (\<lambda>r. ck_tenant r = t \<and> ck_workflow r = w) (checkpoints d)"

definition wf_instance :: "wf_db \<Rightarrow> uuid \<Rightarrow> string \<Rightarrow> instance_row option" where
  "wf_instance d t w = find (\<lambda>r. wi_tenant r = t \<and> wi_workflow r = w) (instances d)"

text \<open>\<open>ORDER BY checkpoint DESC LIMIT 1\<close>.\<close>

fun pick_latest :: "checkpoint_row list \<Rightarrow> checkpoint_row option" where
  "pick_latest [] = None"
| "pick_latest (r # rs) =
     (case pick_latest rs of None \<Rightarrow> Some r
      | Some q \<Rightarrow> if ck_checkpoint r \<le> ck_checkpoint q then Some q else Some r)"

definition latest_row :: "wf_db \<Rightarrow> uuid \<Rightarrow> string \<Rightarrow> checkpoint_row option" where
  "latest_row d t w = pick_latest (wf_checkpoints d t w)"

section \<open>Transitions\<close>

text \<open>\<open>insert_checkpoint\<close>, refused by \<open>UNIQUE (tenant_id, workflow_id, checkpoint)\<close>.\<close>

definition insert_checkpoint ::
    "pg \<Rightarrow> uuid \<Rightarrow> string \<Rightarrow> string \<Rightarrow> workflow_status \<Rightarrow> string \<Rightarrow> string \<Rightarrow> uuid option
      \<Rightarrow> json \<Rightarrow> int \<Rightarrow> (wf_db, unit) tx" where
  "insert_checkpoint f t w typ st from_step to_step actor payload ck =
     tx_stmt f [Txt ''failed to record transition '', FStr from_step, Txt '' -> '', FStr to_step,
                Txt '' for workflow '', FStr w, Txt '': '']
       (\<lambda>d. if list_ex (\<lambda>r. ck_checkpoint r = ck) (wf_checkpoints d t w)
            then Inl (unique_error f)
            else Inr ((), d\<lparr>checkpoints := checkpoints d @
              [\<lparr>ck_tenant = t, ck_workflow = w, ck_type = typ, ck_step = to_step,
                ck_status = status_str st, ck_actor = actor, ck_payload = payload,
                ck_checkpoint = ck\<rparr>]\<rparr>))"

text \<open>
  The instance UPSERT: version 1 for a new workflow, else the version bumped by one, refused
  by the server when the BIGINT column cannot hold it.
\<close>

definition bump_instance :: "pg \<Rightarrow> uuid \<Rightarrow> string \<Rightarrow> string \<Rightarrow> wf_db \<Rightarrow> string + int \<times> wf_db" where
  "bump_instance f t w to_step d =
     (case wf_instance d t w of
        None \<Rightarrow> Inr (1, d\<lparr>instances := instances d @
                  [\<lparr>wi_tenant = t, wi_workflow = w, wi_step = to_step, wi_version = 1\<rparr>]\<rparr>)
      | Some i \<Rightarrow>
          if \<not> in_i64 (wi_version i + 1) then Inl (range_error f)
          else Inr (wi_version i + 1, d\<lparr>instances := map (\<lambda>r.
            if wi_tenant r = t \<and> wi_workflow r = w
            then r\<lparr>wi_step := to_step, wi_version := wi_version r + 1\<rparr> else r) (instances d)\<rparr>))"

definition append_transition ::
    "pg \<Rightarrow> uuid \<Rightarrow> string \<Rightarrow> string \<Rightarrow> workflow_status \<Rightarrow> string \<Rightarrow> string \<Rightarrow> uuid option
      \<Rightarrow> json \<Rightarrow> (wf_db, int) tx" where
  "append_transition f t w typ st from_step to_step actor payload =
     tx_bind (tx_stmt f [Txt ''failed to advance workflow instance '', FStr w, Txt '': '']
                (bump_instance f t w to_step))
       (\<lambda>v. tx_then (insert_checkpoint f t w typ st from_step to_step actor payload v)
              (tx_return v))"

definition current_step :: "pg \<Rightarrow> uuid \<Rightarrow> string \<Rightarrow> (wf_db, string option) tx" where
  "current_step f t w =
     tx_query f [Txt ''failed to read current workflow step: '']
       (\<lambda>d. map_option ck_step (latest_row d t w))"

definition record_transition ::
    "pg \<Rightarrow> uuid \<Rightarrow> string \<Rightarrow> string \<Rightarrow> workflow_status \<Rightarrow> string \<Rightarrow> string \<Rightarrow> uuid option
      \<Rightarrow> json \<Rightarrow> (wf_db, unit) tx" where
  "record_transition f t w typ st from_step to_step actor payload =
     with_tenant_tx f
       (tx_then (append_transition f t w typ st from_step to_step actor payload) (tx_return ()))"

text \<open>
  The compare-and-swap form. The expected version is a \<open>u64\<close>, compared after a cast to
  \<open>i64\<close>; the new checkpoint number is the cast of its (wrapping) successor.
\<close>

definition cas_instance ::
    "pg \<Rightarrow> uuid \<Rightarrow> string \<Rightarrow> string \<Rightarrow> int \<Rightarrow> wf_db \<Rightarrow> string + nat \<times> wf_db" where
  "cas_instance f t w to_step v d =
     (let hit = (\<lambda>r. wi_tenant r = t \<and> wi_workflow r = w \<and> wi_version r = v);
          n = length (filter hit (instances d))
      in if n \<noteq> 0 \<and> \<not> in_i64 (v + 1) then Inl (range_error f)
         else Inr (n, d\<lparr>instances := map (\<lambda>r. if hit r
           then r\<lparr>wi_step := to_step, wi_version := wi_version r + 1\<rparr> else r) (instances d)\<rparr>))"

definition record_transition_expected ::
    "pg \<Rightarrow> uuid \<Rightarrow> string \<Rightarrow> string \<Rightarrow> nat \<Rightarrow> workflow_status \<Rightarrow> string \<Rightarrow> string
      \<Rightarrow> uuid option \<Rightarrow> json \<Rightarrow> (wf_db, unit) tx" where
  "record_transition_expected f t w typ expected st from_step to_step actor payload =
     with_tenant_tx f
       (tx_bind (tx_stmt f [Txt ''failed to CAS workflow instance '', FStr w, Txt '': '']
                   (cas_instance f t w to_step (i64_wrap (int expected))))
          (\<lambda>updated. if updated = 0
             then tx_fail [Txt ''optimistic concurrency violation: workflow '', FStr w,
                    Txt '' is not at expected version '', FNum (int expected)]
             else insert_checkpoint f t w typ st from_step to_step actor payload
                    (i64_wrap (int (u64_wrap (expected + 1))))))"

definition latest_checkpoint ::
    "pg \<Rightarrow> uuid \<Rightarrow> string \<Rightarrow> (wf_db, (nat \<times> string \<times> json) option) tx" where
  "latest_checkpoint f t w =
     with_tenant_tx f
       (tx_query f [Txt ''failed to read latest checkpoint: '']
          (\<lambda>d. map_option (\<lambda>r. (nat (ck_checkpoint r mod 2 ^ 64), ck_step r, ck_payload r))
                 (latest_row d t w)))"

section \<open>Evidence\<close>

definition insert_evidence_in_tx :: "pg \<Rightarrow> uuid \<Rightarrow> string \<Rightarrow> evidence \<Rightarrow> (wf_db, unit) tx" where
  "insert_evidence_in_tx f t w ev =
     tx_stmt f [Txt ''failed to record '', FStr (ev_kind ev), Txt '' evidence: '']
       (\<lambda>d. Inr ((), d\<lparr>evidences := evidences d @
          [\<lparr>er_tenant = t, er_workflow = w, er_evidence = ev\<rparr>]\<rparr>))"

definition add_evidence :: "pg \<Rightarrow> uuid \<Rightarrow> string \<Rightarrow> evidence \<Rightarrow> (wf_db, unit) tx" where
  "add_evidence f t w ev = with_tenant_tx f (insert_evidence_in_tx f t w ev)"

section \<open>Authorization snapshot\<close>

record authz_snapshot =
  az_tenant :: uuid
  az_principal :: uuid
  az_roles :: "string list"
  az_policy_revision :: nat
  az_relationship_revision :: nat
  az_principal_revision :: nat
  az_scope_site :: "uuid option"
  az_permission_digest :: "nat list"

text \<open>
  \<open>is_still_current\<close>: the revisions row of the snapshot's tenant, re-read; a failed
  read or a missing row is not current. The three columns are \<open>i64\<close> cast to \<open>u64\<close>.
\<close>

definition is_still_current ::
    "authz_snapshot \<Rightarrow> bool \<Rightarrow> (uuid \<Rightarrow> (int \<times> int \<times> int) option) option \<Rightarrow> bool" where
  "is_still_current az tx_begun revisions =
     (tx_begun \<and> (case revisions of None \<Rightarrow> False
      | Some table \<Rightarrow> (case table (az_tenant az) of None \<Rightarrow> False
          | Some (policy, relationship, prn) \<Rightarrow>
              nat (policy mod 2 ^ 64) = az_policy_revision az
              \<and> nat (relationship mod 2 ^ 64) = az_relationship_revision az
              \<and> nat (prn mod 2 ^ 64) = az_principal_revision az)))"

section \<open>Approvals\<close>

datatype compensation = CompNone | RevertStep | NotifyStakeholders

definition request_approval ::
    "pg \<Rightarrow> uuid \<Rightarrow> string \<Rightarrow> string \<Rightarrow> string \<Rightarrow> (wf_db, unit) tx" where
  "request_approval f t w role rationale =
     with_tenant_tx f
       (tx_bind (current_step f t w)
          (\<lambda>step. case step of
             None \<Rightarrow> tx_fail [Txt ''workflow '', FStr w, Txt '' has no checkpoint to approve'']
           | Some s \<Rightarrow>
               tx_stmt f [Txt ''failed to request approval for workflow '', FStr w, Txt '': '']
                 (\<lambda>d. Inr ((), d\<lparr>approvals := approvals d @
                    [\<lparr>ap_tenant = t, ap_workflow = w, ap_step = s, ap_role = role,
                      ap_rationale = rationale, ap_status = ''pending'', ap_decided_by = None,
                      ap_decided_at = None\<rparr>]\<rparr>))))"

definition is_pending :: "uuid \<Rightarrow> string \<Rightarrow> approval_row \<Rightarrow> bool" where
  "is_pending t w a \<longleftrightarrow> ap_tenant a = t \<and> ap_workflow a = w \<and> ap_status a = ''pending''"

text \<open>An unordered \<open>LIMIT 1\<close>: some row of the selection.\<close>

definition limit_1 :: "pg \<Rightarrow> 'a list \<Rightarrow> 'a option" where
  "limit_1 f xs = (if xs = [] then None else Some (xs ! (any_row f mod length xs)))"

text \<open>The decision is written to every pending row of the workflow.\<close>

definition mark_decided ::
    "pg \<Rightarrow> uuid \<Rightarrow> string \<Rightarrow> string \<Rightarrow> uuid option \<Rightarrow> wf_db \<Rightarrow> nat \<times> wf_db" where
  "mark_decided f t w status decided_by d =
     (length (filter (is_pending t w) (approvals d)),
      d\<lparr>approvals := map (\<lambda>a. if is_pending t w a
          then a\<lparr>ap_status := status, ap_decided_by := decided_by,
                 ap_decided_at := Some (db_now f)\<rparr> else a) (approvals d)\<rparr>)"

definition decide_approval ::
    "pg \<Rightarrow> uuid \<Rightarrow> string \<Rightarrow> bool \<Rightarrow> uuid option \<Rightarrow> authz_snapshot \<Rightarrow> (wf_db, compensation) tx"
where
  "decide_approval f t w approved decided_by az =
     with_tenant_tx f
       (tx_bind (tx_query f [Txt ''failed to read pending approval for workflow '', FStr w, Txt '': '']
                   (\<lambda>d. map_option ap_role (limit_1 f (filter (is_pending t w) (approvals d)))))
       (\<lambda>required. case required of
          None \<Rightarrow> tx_fail [Txt ''no pending approval for workflow '', FStr w]
        | Some role \<Rightarrow>
          if role \<notin> set (az_roles az)
          then tx_fail [Txt ''approver does not hold the required role '', FStr role,
                 Txt '' - required_role is enforced, not descriptive'']
          else
       tx_bind (tx_stmt f [Txt ''failed to decide approval for workflow '', FStr w, Txt '': '']
                  (\<lambda>d. Inr (mark_decided f t w (if approved then ''approved'' else ''rejected'')
                              decided_by d)))
       (\<lambda>updated. if updated = 0
          then tx_fail [Txt ''no pending approval for workflow '', FStr w]
          else
       tx_bind (tx_stmt f [Txt ''failed to read workflow step for the decision: '']
                  (\<lambda>d. case latest_row d t w of None \<Rightarrow> Inl (no_row_error f)
                       | Some r \<Rightarrow> Inr ((ck_step r, ck_type r), d)))
       (\<lambda>(step, typ).
       tx_then (append_transition f t w typ
                  (if approved then AwaitingEvidence else Compensated) step
                  (if approved then ''countermeasure_approved'' else ''compensated'') decided_by
                  (JObj [(''decision'', JStr (if approved then ''approved'' else ''rejected''))]))
         (tx_return (if approved then CompNone else RevertStep))))))"


section \<open>The history invariant\<close>

text \<open>
  What the instance row and the UNIQUE constraint are for: at most one instance per workflow,
  and its checkpoints are numbered \<open>1, 2, \<dots>, version\<close> in the order they were written, the
  last one at the instance's current step.
\<close>

definition history_of :: "wf_db \<Rightarrow> uuid \<Rightarrow> string \<Rightarrow> bool" where
  "history_of d t w \<longleftrightarrow>
     (case wf_instance d t w of
        None \<Rightarrow> wf_checkpoints d t w = []
      | Some i \<Rightarrow> 1 \<le> wi_version i \<and> in_i64 (wi_version i)
          \<and> map ck_checkpoint (wf_checkpoints d t w) = [1..wi_version i]
          \<and> ck_step (last (wf_checkpoints d t w)) = wi_step i)"

definition instance_keys :: "wf_db \<Rightarrow> (uuid \<times> string) list" where
  "instance_keys d = map (\<lambda>r. (wi_tenant r, wi_workflow r)) (instances d)"

definition history_ok :: "wf_db \<Rightarrow> bool" where
  "history_ok d \<longleftrightarrow> distinct (instance_keys d) \<and> (\<forall>t w. history_of d t w)"

lemma history_ok_empty: "history_ok wf_empty"
  by (simp add: history_ok_def history_of_def instance_keys_def wf_empty_def wf_instance_def
      wf_checkpoints_def)

lemma history_ok_cong:
  assumes "checkpoints d' = checkpoints d" and "instances d' = instances d"
  shows "history_ok d' = history_ok d"
proof -
  have "wf_checkpoints d' = wf_checkpoints d" "wf_instance d' = wf_instance d"
    using assms by (intro ext; simp add: wf_checkpoints_def wf_instance_def)+
  moreover have "instance_keys d' = instance_keys d"
    using assms by (simp add: instance_keys_def)
  ultimately show ?thesis by (simp only: history_ok_def history_of_def)
qed

lemma pick_latest_append:
  "(\<And>q. q \<in> set rs \<Longrightarrow> ck_checkpoint q \<le> ck_checkpoint r) \<Longrightarrow> pick_latest (rs @ [r]) = Some r"
  by (induction rs) auto

lemma upto_snoc: "1 \<le> v + 1 \<Longrightarrow> [1..v + 1] = [1..v] @ [v + 1 :: int]"
  by (subst upto_rec2) auto

text \<open>The checkpoint a transition writes.\<close>

definition new_row ::
    "uuid \<Rightarrow> string \<Rightarrow> string \<Rightarrow> workflow_status \<Rightarrow> string \<Rightarrow> uuid option \<Rightarrow> json \<Rightarrow> int
      \<Rightarrow> checkpoint_row" where
  "new_row t w typ st step actor payload ck =
     \<lparr>ck_tenant = t, ck_workflow = w, ck_type = typ, ck_step = step, ck_status = status_str st,
      ck_actor = actor, ck_payload = payload, ck_checkpoint = ck\<rparr>"

lemma new_row_sel [simp]:
  "ck_step (new_row t w typ st step actor payload ck) = step"
  "ck_tenant (new_row t w typ st step actor payload ck) = t"
  "ck_workflow (new_row t w typ st step actor payload ck) = w"
  "ck_type (new_row t w typ st step actor payload ck) = typ"
  "ck_checkpoint (new_row t w typ st step actor payload ck) = ck"
  by (simp_all add: new_row_def)

text \<open>
  An effect on the tables: the instance of one workflow advanced to \<open>v\<close> and a checkpoint
  with that number appended, everything else as before.
\<close>

definition advanced :: "wf_db \<Rightarrow> wf_db \<Rightarrow> checkpoint_row \<Rightarrow> bool" where
  "advanced d d' row \<longleftrightarrow>
     checkpoints d' = checkpoints d @ [row]
     \<and> approvals d' = approvals d \<and> evidences d' = evidences d
     \<and> instance_keys d' = (case wf_instance d (ck_tenant row) (ck_workflow row) of
          None \<Rightarrow> instance_keys d @ [(ck_tenant row, ck_workflow row)] | Some _ \<Rightarrow> instance_keys d)
     \<and> (\<forall>t w. wf_instance d' t w =
          (if t = ck_tenant row \<and> w = ck_workflow row
           then Some \<lparr>wi_tenant = t, wi_workflow = w, wi_step = ck_step row,
                      wi_version = ck_checkpoint row\<rparr>
           else wf_instance d t w))
     \<and> ck_checkpoint row = (case wf_instance d (ck_tenant row) (ck_workflow row) of
          None \<Rightarrow> 1 | Some i \<Rightarrow> wi_version i + 1)
     \<and> in_i64 (ck_checkpoint row)"

lemma wf_checkpoints_advanced:
  "advanced d d' row \<Longrightarrow> wf_checkpoints d' t w =
     wf_checkpoints d t w @ (if t = ck_tenant row \<and> w = ck_workflow row then [row] else [])"
  by (auto simp: advanced_def wf_checkpoints_def)

lemma find_None_keys:
  "wf_instance d t w = None \<longleftrightarrow> (t, w) \<notin> set (instance_keys d)"
  by (auto simp: wf_instance_def instance_keys_def find_None_iff)

lemma history_ok_advanced:
  assumes "history_ok d" and "advanced d d' row"
  shows "history_ok d'"
proof -
  have "distinct (instance_keys d')"
    using assms by (auto simp: history_ok_def advanced_def find_None_keys split: option.splits)
  moreover have "history_of d' t w" for t w
  proof (cases "t = ck_tenant row \<and> w = ck_workflow row")
    case False
    have "wf_instance d' t w = wf_instance d t w" "wf_checkpoints d' t w = wf_checkpoints d t w"
      using False assms(2) wf_checkpoints_advanced [OF assms(2), of t w]
      by (auto simp: advanced_def)
    moreover have "history_of d t w" using assms(1) by (simp add: history_ok_def)
    ultimately show ?thesis by (simp only: history_of_def)
  next
    case True
    have h: "history_of d t w" using assms(1) by (simp add: history_ok_def)
    have i': "wf_instance d' t w = Some \<lparr>wi_tenant = t, wi_workflow = w, wi_step = ck_step row,
        wi_version = ck_checkpoint row\<rparr>"
      and cs': "wf_checkpoints d' t w = wf_checkpoints d t w @ [row]"
      and ck: "ck_checkpoint row = (case wf_instance d t w of None \<Rightarrow> 1 | Some i \<Rightarrow> wi_version i + 1)"
      and rng: "in_i64 (ck_checkpoint row)"
      using True assms(2) wf_checkpoints_advanced [OF assms(2), of t w]
      by (auto simp: advanced_def)
    show ?thesis
    proof (cases "wf_instance d t w")
      case None
      with h ck rng show ?thesis by (simp add: history_of_def i' cs')
    next
      case (Some i)
      with h ck rng show ?thesis by (simp add: history_of_def i' cs' upto_snoc)
    qed
  qed
  ultimately show ?thesis by (simp add: history_ok_def)
qed

lemma latest_row_advanced:
  assumes "history_ok d" and "advanced d d' row"
  shows "latest_row d' (ck_tenant row) (ck_workflow row) = Some row"
proof -
  let ?cs = "wf_checkpoints d (ck_tenant row) (ck_workflow row)"
  have h: "history_of d (ck_tenant row) (ck_workflow row)"
    using assms(1) by (simp add: history_ok_def)
  have "ck_checkpoint q \<le> ck_checkpoint row" if "q \<in> set ?cs" for q
  proof (cases "wf_instance d (ck_tenant row) (ck_workflow row)")
    case None
    with h that show ?thesis by (simp add: history_of_def)
  next
    case (Some i)
    have "map ck_checkpoint ?cs = [1..wi_version i]"
      using h Some by (simp add: history_of_def)
    from arg_cong [OF this, of set] that have "ck_checkpoint q \<le> wi_version i" by auto
    with Some assms(2) show ?thesis by (simp add: advanced_def)
  qed
  then show ?thesis
    using assms(2) by (simp add: latest_row_def wf_checkpoints_advanced pick_latest_append)
qed

lemma latest_row_other:
  "advanced d d' row \<Longrightarrow> t \<noteq> ck_tenant row \<or> w \<noteq> ck_workflow row \<Longrightarrow>
     latest_row d' t w = latest_row d t w"
  by (auto simp: latest_row_def wf_checkpoints_advanced)

lemma latest_row_last:
  assumes "history_ok d" and "wf_instance d t w = Some i"
  shows "latest_row d t w = Some (last (wf_checkpoints d t w))"
proof -
  let ?cs = "wf_checkpoints d t w"
  have "history_of d t w" using assms(1) by (simp add: history_ok_def)
  with assms(2) have nums: "map ck_checkpoint ?cs = [1..wi_version i]" and "1 \<le> wi_version i"
    by (simp_all add: history_of_def)
  then have ne: "?cs \<noteq> []" by auto
  then obtain rs r where split: "?cs = rs @ [r]" by (metis rev_exhaust)
  have "[1..wi_version i] = [1..wi_version i - 1] @ [wi_version i]"
    using \<open>1 \<le> wi_version i\<close> by (rule upto_rec2)
  then have "ck_checkpoint r = wi_version i"
    using nums by (simp only: split map_append list.map append1_eq_conv)
  moreover have "ck_checkpoint q \<le> wi_version i" if "q \<in> set rs" for q
  proof -
    have "ck_checkpoint q \<in> set [1..wi_version i]"
      unfolding nums [symmetric] using that split by simp
    then show ?thesis by simp
  qed
  ultimately show ?thesis by (simp add: latest_row_def split pick_latest_append)
qed


section \<open>Effects of the transactions\<close>

text \<open>A successful append of a transition advances the instance.\<close>

lemma find_map_same_key:
  assumes "\<And>r. K (g r) = K r"
  shows "find (\<lambda>r. K r = k) (map g xs) = map_option g (find (\<lambda>r. K r = k) xs)"
  using assms by (induction xs) auto

lemma wf_instance_key:
  "wf_instance d t w = find (\<lambda>r. (wi_tenant r, wi_workflow r) = (t, w)) (instances d)"
  by (simp add: wf_instance_def)

lemma wf_instance_Some: "wf_instance d t w = Some i \<Longrightarrow> wi_tenant i = t \<and> wi_workflow i = w"
  by (auto simp: wf_instance_def find_Some_iff)

lemma advanced_insert:
  assumes "wf_instance d t w = None"
    and "d' = d\<lparr>instances := instances d @
           [\<lparr>wi_tenant = t, wi_workflow = w, wi_step = s, wi_version = 1\<rparr>],
         checkpoints := checkpoints d @ [new_row t w typ st s actor payload 1]\<rparr>"
  shows "advanced d d' (new_row t w typ st s actor payload 1)"
  unfolding advanced_def using assms
  by (auto simp: instance_keys_def wf_instance_def find_append in_i64_def split: option.split)

lemma advanced_update:
  assumes i: "wf_instance d t w = Some i" and rng: "in_i64 (wi_version i + 1)"
    and g: "g = (\<lambda>r. if wi_tenant r = t \<and> wi_workflow r = w \<and> P r
           then r\<lparr>wi_step := s, wi_version := wi_version r + 1\<rparr> else r)" and "P i"
    and d': "d' = d\<lparr>instances := map g (instances d),
         checkpoints := checkpoints d @ [new_row t w typ st s actor payload (wi_version i + 1)]\<rparr>"
  shows "advanced d d' (new_row t w typ st s actor payload (wi_version i + 1))"
proof -
  have "wi_tenant (g r) = wi_tenant r \<and> wi_workflow (g r) = wi_workflow r" for r
    by (simp add: g)
  then have keys: "(\<lambda>r. (wi_tenant r, wi_workflow r)) (g r) = (\<lambda>r. (wi_tenant r, wi_workflow r)) r" for r
    by simp
  have "wf_instance d' t' w' = map_option g (wf_instance d t' w')" for t' w'
    unfolding wf_instance_key d'
    using find_map_same_key [of "\<lambda>r. (wi_tenant r, wi_workflow r)" g "(t', w')" "instances d"] keys
    by simp
  moreover have "map_option g (wf_instance d t' w') =
      (if t' = t \<and> w' = w then Some \<lparr>wi_tenant = t', wi_workflow = w', wi_step = s,
         wi_version = wi_version i + 1\<rparr> else wf_instance d t' w')" for t' w'
    using i wf_instance_Some [OF i] \<open>P i\<close>
    by (cases "wf_instance d t' w'") (auto simp: g dest: wf_instance_Some)
  moreover have "instance_keys d' = instance_keys d"
    using keys by (simp add: d' instance_keys_def)
  ultimately show ?thesis
    unfolding advanced_def using i rng by (auto simp: d')
qed

lemma append_transition_advanced:
  assumes "append_transition f t w typ st from s actor payload d n = (Inr v, d', n')"
  shows "advanced d d' (new_row t w typ st s actor payload v)"
proof (cases "wf_instance d t w")
  case None
  with assms show ?thesis
    by (auto simp: append_transition_def insert_checkpoint_def bump_instance_def new_row_def
        wf_checkpoints_def intro!: advanced_insert [unfolded new_row_def] split: if_splits)
next
  case (Some i)
  let ?g = "\<lambda>r. if wi_tenant r = t \<and> wi_workflow r = w
           then r\<lparr>wi_step := s, wi_version := wi_version r + 1\<rparr> else r"
  from Some assms have "in_i64 (wi_version i + 1)" "v = wi_version i + 1"
      "d' = d\<lparr>instances := map ?g (instances d),
         checkpoints := checkpoints d @ [new_row t w typ st s actor payload (wi_version i + 1)]\<rparr>"
    by (auto simp: append_transition_def insert_checkpoint_def bump_instance_def new_row_def
        split: if_splits)
  with advanced_update [OF Some, of ?g "\<lambda>_. True" s d' "typ" st actor payload] show ?thesis
    by simp
qed


text \<open>The compare-and-swap form has the same effect, and only at the expected version.\<close>

lemma filter_key_singleton:
  assumes "distinct (map K xs)" and "find (\<lambda>r. K r = k) xs = Some x"
  shows "filter (\<lambda>r. K r = k \<and> P r) xs = (if P x then [x] else [])"
  using assms
proof (induction xs)
  case (Cons a xs)
  show ?case
  proof (cases "K a = k")
    case True
    with Cons.prems have "filter (\<lambda>r. K r = k \<and> P r) xs = []"
      by (auto simp: filter_empty_conv image_iff)
    with True Cons.prems show ?thesis by simp
  next
    case False
    with Cons show ?thesis by simp
  qed
qed simp

lemma cas_hits:
  assumes "distinct (instance_keys d)"
  shows "filter (\<lambda>r. wi_tenant r = t \<and> wi_workflow r = w \<and> wi_version r = v) (instances d) =
    (case wf_instance d t w of None \<Rightarrow> [] | Some i \<Rightarrow> if wi_version i = v then [i] else [])"
proof (cases "wf_instance d t w")
  case None
  then have "filter (\<lambda>r. wi_tenant r = t \<and> wi_workflow r = w \<and> wi_version r = v) (instances d) = []"
    by (auto simp: wf_instance_def find_None_iff filter_empty_conv)
  with None show ?thesis by simp
next
  case (Some i)
  with assms show ?thesis
    using filter_key_singleton [of "\<lambda>r. (wi_tenant r, wi_workflow r)" "instances d" "(t, w)" i
      "\<lambda>r. wi_version r = v"]
    by (simp add: instance_keys_def wf_instance_def)
qed

lemma u64_succ_wrap: "i64_wrap (int (u64_wrap (Suc n))) = i64_wrap (i64_wrap (int n) + 1)"
  by (simp add: u64_wrap_def i64_wrap_def zmod_int mod_simps algebra_simps)

lemma record_expected_advanced:
  assumes ok: "history_ok d"
    and run: "record_transition_expected f t w typ expected st from s actor payload d n = (Inr (), d', n')"
  shows "\<exists>i. wf_instance d t w = Some i \<and> wi_version i = i64_wrap (int expected)
    \<and> advanced d d' (new_row t w typ st s actor payload (wi_version i + 1))"
proof -
  let ?v = "i64_wrap (int expected)"
  let ?g = "\<lambda>r. if wi_tenant r = t \<and> wi_workflow r = w \<and> wi_version r = ?v
           then r\<lparr>wi_step := s, wi_version := wi_version r + 1\<rparr> else r"
  have keys: "distinct (instance_keys d)" using ok by (simp add: history_ok_def)
  from run obtain d1 where hits: "length (filter (\<lambda>r. wi_tenant r = t \<and> wi_workflow r = w
        \<and> wi_version r = ?v) (instances d)) \<noteq> 0"
      and rng: "in_i64 (?v + 1)" and d1: "d1 = d\<lparr>instances := map ?g (instances d)\<rparr>"
      and d': "d' = d1\<lparr>checkpoints := checkpoints d1 @
        [new_row t w typ st s actor payload (i64_wrap (?v + 1))]\<rparr>"
    by (auto simp: record_transition_expected_def with_tenant_tx_Ok cas_instance_def Let_def
        insert_checkpoint_def u64_succ_wrap new_row_def
        split: if_splits)
  from hits keys obtain i where i: "wf_instance d t w = Some i" "wi_version i = ?v"
    by (auto simp: cas_hits split: option.splits if_splits)
  moreover have "advanced d d' (new_row t w typ st s actor payload (wi_version i + 1))"
    by (rule advanced_update [where g = ?g and P = "\<lambda>r. wi_version r = ?v" and i = i])
      (use i rng d1 d' in \<open>auto simp: i64_wrap_id\<close>)
  ultimately show ?thesis by blast
qed

end
