(* ===== verification/Corrective_Action.thy ===== *)
theory Corrective_Action
  imports Workflow_Engine
begin

text \<open>
  The corrective-action investigation (\<open>sensei-workflow/src/corrective_action.rs\<close>), the
  workflow wired through the engine of \<open>Workflow_Engine\<close>: its lifecycle steps, the step
  guard, the six operations, the call interface and the states its callers can reach when each
  call runs by itself. Calls that overlap are in \<open>Workflow_Concurrency\<close>.
\<close>

section \<open>Lifecycle steps\<close>

datatype corrective_action_step =
    Contain | Investigate | CountermeasureProposed | CountermeasureApproved | Verify | Closed

fun allowed :: "corrective_action_step \<Rightarrow> corrective_action_step \<Rightarrow> bool" where
  "allowed Contain Investigate = True"
| "allowed Investigate CountermeasureProposed = True"
| "allowed CountermeasureProposed CountermeasureApproved = True"
| "allowed CountermeasureApproved Verify = True"
| "allowed Verify Closed = True"
| "allowed _ _ = False"

lemma allowed_into:
  "allowed c Closed \<longleftrightarrow> c = Verify" "allowed c Verify \<longleftrightarrow> c = CountermeasureApproved"
  by (cases c; simp)+

fun step_str :: "corrective_action_step \<Rightarrow> string" where
  "step_str Contain = ''contain''"
| "step_str Investigate = ''investigate''"
| "step_str CountermeasureProposed = ''countermeasure_proposed''"
| "step_str CountermeasureApproved = ''countermeasure_approved''"
| "step_str Verify = ''verify''"
| "step_str Closed = ''closed''"

text \<open>The derived \<open>Debug\<close> form, which the guard's message prints.\<close>

fun step_dbg :: "corrective_action_step \<Rightarrow> string" where
  "step_dbg Contain = ''Contain''"
| "step_dbg Investigate = ''Investigate''"
| "step_dbg CountermeasureProposed = ''CountermeasureProposed''"
| "step_dbg CountermeasureApproved = ''CountermeasureApproved''"
| "step_dbg Verify = ''Verify''"
| "step_dbg Closed = ''Closed''"

text \<open>\<open>parse\<close>: serde's \<open>snake_case\<close> names, written out from the variant names.\<close>

definition parse :: "string \<Rightarrow> message + corrective_action_step" where
  "parse s =
     (if s = ''contain'' then Inr Contain
      else if s = ''investigate'' then Inr Investigate
      else if s = ''countermeasure_proposed'' then Inr CountermeasureProposed
      else if s = ''countermeasure_approved'' then Inr CountermeasureApproved
      else if s = ''verify'' then Inr Verify
      else if s = ''closed'' then Inr Closed
      else Inl [FDbg s, Txt '' is not a corrective-action lifecycle step''])"

lemma parse_Inr_iff: "parse s = Inr c \<longleftrightarrow> s = step_str c"
  by (cases c) (auto simp: parse_def)

lemma parse_step_str [simp]: "parse (step_str c) = Inr c"
  by (simp add: parse_Inr_iff)

lemma step_str_inject [simp]: "step_str a = step_str b \<longleftrightarrow> a = b"
  using parse_Inr_iff by (metis sum.inject(2))

section \<open>The operations\<close>

definition WORKFLOW_TYPE :: string where
  "WORKFLOW_TYPE = ''corrective_action.investigate''"

definition COUNTERMEASURE_APPROVER_ROLE :: string where
  "COUNTERMEASURE_APPROVER_ROLE = ''quality_engineer''"

definition require_step :: "pg \<Rightarrow> uuid \<Rightarrow> string \<Rightarrow> corrective_action_step \<Rightarrow> (wf_db, unit) tx" where
  "require_step f t w expected =
     tx_bind (current_step f t w)
       (\<lambda>step. case step of
          None \<Rightarrow> tx_fail [Txt ''workflow '', FStr w, Txt '' has no checkpointed steps'']
        | Some s \<Rightarrow> (case parse s of
            Inl e \<Rightarrow> tx_fail e
          | Inr current \<Rightarrow>
              if current \<noteq> expected
              then tx_fail [Txt ''workflow '', FStr w, Txt '' is at step '',
                     FDbg (step_dbg current), Txt '' (db step '', FDbg s,
                     Txt '') but this transition requires '', FDbg (step_dbg expected),
                     Txt '' - audit item 47'']
              else tx_return ()))"

definition workflow_id_of :: "env \<Rightarrow> uuid \<Rightarrow> string" where
  "workflow_id_of e cond = WORKFLOW_TYPE @ '':'' @ disp e cond"

definition start_investigation ::
    "pg \<Rightarrow> env \<Rightarrow> uuid \<Rightarrow> uuid \<Rightarrow> uuid \<Rightarrow> (wf_db, string) tx" where
  "start_investigation f e t cond actor =
     tx_then
       (with_tenant_tx f
          (tx_then
             (append_transition f t (workflow_id_of e cond) WORKFLOW_TYPE Running ''start''
                (step_str Contain) (Some actor)
                (JObj [(''condition_id'', JStr (disp e cond)), (''status'', JStr ''contained'')]))
          (tx_then
             (append_transition f t (workflow_id_of e cond) WORKFLOW_TYPE Running
                (step_str Contain) (step_str Investigate) (Some actor)
                (JObj [(''condition_id'', JStr (disp e cond)),
                       (''status'', JStr ''investigating'')]))
             (tx_return ()))))
       (tx_return (workflow_id_of e cond))"

definition record_observation :: "pg \<Rightarrow> env \<Rightarrow> uuid \<Rightarrow> string \<Rightarrow> json \<Rightarrow> (wf_db, unit) tx" where
  "record_observation f e t w observation =
     add_evidence f t w \<lparr>ev_kind = ''observation'', ev_source = ''investigator'',
       ev_captured_at = clock e 0, ev_value = observation\<rparr>"

text \<open>\<open>propose_countermeasure\<close>: two transactions, the transition and then the request.\<close>

definition propose_countermeasure ::
    "pg \<Rightarrow> uuid \<Rightarrow> string \<Rightarrow> json \<Rightarrow> string \<Rightarrow> (wf_db, unit) tx" where
  "propose_countermeasure f t w countermeasure rationale =
     tx_then
       (with_tenant_tx f
          (tx_then (require_step f t w Investigate)
          (tx_then
             (append_transition f t w WORKFLOW_TYPE AwaitingApproval
                (step_str Investigate) (step_str CountermeasureProposed) None
                (JObj [(''countermeasure'', countermeasure)]))
             (tx_return ()))))
       (request_approval f t w COUNTERMEASURE_APPROVER_ROLE rationale)"

definition verify_countermeasure :: "pg \<Rightarrow> env \<Rightarrow> uuid \<Rightarrow> string \<Rightarrow> json \<Rightarrow> (wf_db, unit) tx" where
  "verify_countermeasure f e t w verification =
     with_tenant_tx f
       (tx_then (require_step f t w CountermeasureApproved)
       (tx_then
          (insert_evidence_in_tx f t w
             \<lparr>ev_kind = ''verification'', ev_source = ''quality_engineer'',
              ev_captured_at = clock e 0, ev_value = verification\<rparr>)
       (tx_then
          (append_transition f t w WORKFLOW_TYPE Running
             (step_str CountermeasureApproved) (step_str Verify) None
             (JObj [(''status'', JStr ''verified'')]))
          (tx_return ()))))"

text \<open>What the two queries of \<open>close_investigation\<close> look for.\<close>

definition countermeasure_approved :: "wf_db \<Rightarrow> uuid \<Rightarrow> string \<Rightarrow> bool" where
  "countermeasure_approved d t w =
     list_ex (\<lambda>a. ap_tenant a = t \<and> ap_workflow a = w
       \<and> ap_step a = ''countermeasure_proposed'' \<and> ap_status a = ''approved'') (approvals d)"

definition verification_count :: "wf_db \<Rightarrow> uuid \<Rightarrow> string \<Rightarrow> nat" where
  "verification_count d t w =
     length (filter (\<lambda>r. er_tenant r = t \<and> er_workflow r = w
       \<and> ev_kind (er_evidence r) = ''verification'') (evidences d))"

definition close_investigation :: "pg \<Rightarrow> uuid \<Rightarrow> string \<Rightarrow> uuid \<Rightarrow> (wf_db, unit) tx" where
  "close_investigation f t w actor =
     with_tenant_tx f
       (tx_then (require_step f t w Verify)
       (tx_bind (tx_query f [Txt ''failed to read the countermeasure approval: '']
                   (\<lambda>d. if countermeasure_approved d t w then Some ''approved'' else None))
       (\<lambda>approved. if approved = None
          then tx_fail [Txt ''close_investigation requires an APPROVED countermeasure approval for workflow '',
                 FStr w, Txt '' (workflow_approvals step 'countermeasure_proposed' status 'approved') - audit item 47'']
          else
       tx_bind (tx_query f [Txt ''failed to read verification evidence: '']
                  (\<lambda>d. verification_count d t w))
       (\<lambda>count. if count = 0
          then tx_fail [Txt ''close_investigation requires at least one verification evidence row for workflow '',
                 FStr w, Txt '' (workflow_evidence kind 'verification') - audit item 47'']
          else
       tx_then
         (append_transition f t w WORKFLOW_TYPE Completed
            (step_str Verify) (step_str Closed) (Some actor)
            (JObj [(''status'', JStr ''closed'')]))
         (tx_return ())))))"


section \<open>The call interface\<close>

text \<open>
  The public functions of the crate, the six of this workflow first, and a call run for a
  tenant against a server \<open>f\<close> (which may fail any statement): an error text or nothing, and
  the tables afterwards.
\<close>

datatype wf_call =
    StartInvestigation uuid uuid
  | RecordObservation string json
  | ProposeCountermeasure string json string
  | DecideApproval string bool "uuid option" authz_snapshot
  | VerifyCountermeasure string json
  | CloseInvestigation string uuid
  | RecordTransition string string workflow_status string string "uuid option" json
  | RecordTransitionExpected string string nat workflow_status string string "uuid option" json
  | RequestApproval string string string
  | AddEvidence string evidence

fun corrective_action_call :: "wf_call \<Rightarrow> bool" where
  "corrective_action_call (StartInvestigation _ _) = True"
| "corrective_action_call (RecordObservation _ _) = True"
| "corrective_action_call (ProposeCountermeasure _ _ _) = True"
| "corrective_action_call (DecideApproval _ _ _ _) = True"
| "corrective_action_call (VerifyCountermeasure _ _) = True"
| "corrective_action_call (CloseInvestigation _ _) = True"
| "corrective_action_call _ = False"

definition ran :: "(wf_db, 'a) tx \<Rightarrow> wf_db \<Rightarrow> message option \<times> wf_db" where
  "ran t d = (case t d 0 of (Inl e, d', _) \<Rightarrow> (Some e, d') | (Inr _, d', _) \<Rightarrow> (None, d'))"

fun run_call :: "pg \<Rightarrow> env \<Rightarrow> uuid \<Rightarrow> wf_call \<Rightarrow> wf_db \<Rightarrow> message option \<times> wf_db" where
  "run_call f e t (StartInvestigation cond actor) d = ran (start_investigation f e t cond actor) d"
| "run_call f e t (RecordObservation w obs) d = ran (record_observation f e t w obs) d"
| "run_call f e t (ProposeCountermeasure w cm why) d = ran (propose_countermeasure f t w cm why) d"
| "run_call f e t (DecideApproval w yes who az) d = ran (decide_approval f t w yes who az) d"
| "run_call f e t (VerifyCountermeasure w v) d = ran (verify_countermeasure f e t w v) d"
| "run_call f e t (CloseInvestigation w actor) d = ran (close_investigation f t w actor) d"
| "run_call f e t (RecordTransition w ty st s s' actor p) d =
     ran (record_transition f t w ty st s s' actor p) d"
| "run_call f e t (RecordTransitionExpected w ty v st s s' actor p) d =
     ran (record_transition_expected f t w ty v st s s' actor p) d"
| "run_call f e t (RequestApproval w role why) d = ran (request_approval f t w role why) d"
| "run_call f e t (AddEvidence w ev) d = ran (add_evidence f t w ev) d"

text \<open>
  The states that callers reach from empty tables: any tenant, any server behaviour at each
  call, and the calls that \<open>P\<close> admits.
\<close>

inductive wf_reachable :: "(wf_call \<Rightarrow> bool) \<Rightarrow> wf_db \<Rightarrow> bool" for P where
  init: "wf_reachable P wf_empty"
| call: "wf_reachable P d \<Longrightarrow> P c \<Longrightarrow> wf_reachable P (snd (run_call f e t c d))"

section \<open>What keeps an invariant\<close>

definition keeps :: "(wf_db \<Rightarrow> bool) \<Rightarrow> (wf_db, 'a) tx \<Rightarrow> bool" where
  "keeps I t \<longleftrightarrow> (\<forall>d n. I d \<longrightarrow> I (fst (snd (t d n))))"

lemma keeps_ran: "keeps I t \<Longrightarrow> I d \<Longrightarrow> I (snd (ran t d))"
  unfolding keeps_def ran_def
  by (drule spec [of _ d], drule spec [of _ 0]) (auto split: prod.splits sum.splits)

lemma keeps_return: "keeps I (tx_return x)"
  by (simp add: keeps_def tx_return_def)

lemma keeps_then:
  assumes "keeps I t" and "keeps I u"
  shows "keeps I (tx_then t u)"
  unfolding keeps_def
proof (intro allI impI)
  fix d n assume "I d"
  obtain r d1 n1 where run: "t d n = (r, d1, n1)" by (cases "t d n")
  with assms(1) \<open>I d\<close> have "I d1" unfolding keeps_def by (metis fst_conv snd_conv)
  with assms(2) have "I (fst (snd (u d1 n1)))" by (simp add: keeps_def)
  with run \<open>I d1\<close> show "I (fst (snd (tx_then t u d n)))"
    by (simp add: tx_then_def tx_bind_def split: sum.split)
qed

lemma keeps_tenant_tx:
  assumes "\<And>d n x d' n'. I d \<Longrightarrow> body d n = (Inr x, d', n') \<Longrightarrow> I d'"
  shows "keeps I (with_tenant_tx f body)"
  unfolding keeps_def
proof (intro allI impI)
  fix d n assume I: "I d"
  obtain r d' n' where run: "with_tenant_tx f body d n = (r, d', n')" by (cases "with_tenant_tx f body d n")
  show "I (fst (snd (with_tenant_tx f body d n)))"
  proof (cases r)
    case (Inl e)
    with run I show ?thesis by (auto dest: with_tenant_tx_Err)
  next
    case (Inr x)
    with run obtain n1 where "body d (n + 2) = (Inr x, d', n1)" by (auto simp: with_tenant_tx_Ok)
    with assms [OF I] have "I d'" by blast
    with run show ?thesis by simp
  qed
qed

lemma require_step_Ok [simp]:
  "require_step f t w s d n = (Inr u, d', n') \<longleftrightarrow>
     stmt_error f n = None \<and> map_option ck_step (latest_row d t w) = Some (step_str s)
     \<and> d' = d \<and> n' = n + 1"
  by (auto simp: require_step_def current_step_def parse_Inr_iff split: option.splits sum.splits
      if_splits)


section \<open>Effects of the calls\<close>

definition pending_row :: "uuid \<Rightarrow> string \<Rightarrow> string \<Rightarrow> string \<Rightarrow> string \<Rightarrow> approval_row" where
  "pending_row t w step role why = \<lparr>ap_tenant = t, ap_workflow = w, ap_step = step, ap_role = role,
     ap_rationale = why, ap_status = ''pending'', ap_decided_by = None, ap_decided_at = None\<rparr>"

definition add_request :: "approval_row \<Rightarrow> wf_db \<Rightarrow> wf_db" where
  "add_request a d = d\<lparr>approvals := approvals d @ [a]\<rparr>"

definition add_evidences :: "evidence_row list \<Rightarrow> wf_db \<Rightarrow> wf_db" where
  "add_evidences es d = d\<lparr>evidences := evidences d @ es\<rparr>"

definition at_step :: "wf_db \<Rightarrow> uuid \<Rightarrow> string \<Rightarrow> string \<Rightarrow> bool" where
  "at_step d t w s \<longleftrightarrow> map_option ck_step (latest_row d t w) = Some s"

lemma request_approval_effect:
  assumes "request_approval f t w role why d n = (Inr u, d', n')"
  shows "\<exists>r. latest_row d t w = Some r \<and> d' = add_request (pending_row t w (ck_step r) role why) d"
  using assms
  by (auto simp: request_approval_def with_tenant_tx_Ok current_step_def add_request_def
      pending_row_def split: option.splits)

lemma request_approval_Err:
  "request_approval f t w role why d n = (Inl e, d', n') \<Longrightarrow> d' = d"
  unfolding request_approval_def by (rule with_tenant_tx_Err)

lemma evidence_effect:
  "insert_evidence_in_tx f t w ev d n = (Inr u, d', n') \<Longrightarrow>
     d' = add_evidences [\<lparr>er_tenant = t, er_workflow = w, er_evidence = ev\<rparr>] d"
  by (auto simp: insert_evidence_in_tx_def add_evidences_def)

text \<open>A decision, on the status it writes and the step it enters.\<close>

definition decided_status :: "bool \<Rightarrow> string" where
  "decided_status yes = (if yes then ''approved'' else ''rejected'')"

definition decided_step :: "bool \<Rightarrow> string" where
  "decided_step yes = (if yes then ''countermeasure_approved'' else ''compensated'')"

lemma limit_1_Some: "limit_1 f xs = Some x \<Longrightarrow> x \<in> set xs"
  by (auto simp: limit_1_def split: if_splits)

lemma latest_row_approvals [simp]:
  "latest_row (d\<lparr>approvals := as\<rparr>) = latest_row d" "latest_row (d\<lparr>evidences := es\<rparr>) = latest_row d"
  by (intro ext; simp add: latest_row_def wf_checkpoints_def)+

lemma latest_row_mark [simp]:
  "latest_row (snd (mark_decided f t w st who d)) = latest_row d"
  by (simp add: mark_decided_def)

lemma decide_effect:
  assumes "decide_approval f t w yes who az d n = (Inr c, d', n')"
  shows "\<exists>a r row. a \<in> set (approvals d) \<and> is_pending t w a \<and> ap_role a \<in> set (az_roles az)
    \<and> latest_row d t w = Some r
    \<and> advanced (snd (mark_decided f t w (decided_status yes) who d)) d' row
    \<and> ck_tenant row = t \<and> ck_workflow row = w \<and> ck_step row = decided_step yes
    \<and> c = (if yes then CompNone else RevertStep)"
proof -
  from assms obtain role d1 r n1 v n2 where
      "map_option ap_role (limit_1 f (filter (is_pending t w) (approvals d))) = Some role"
      "role \<in> set (az_roles az)" "d1 = snd (mark_decided f t w (decided_status yes) who d)"
      "latest_row d1 t w = Some r"
      "append_transition f t w (ck_type r) (if yes then AwaitingEvidence else Compensated)
         (ck_step r) (decided_step yes) who (JObj [(''decision'', JStr (decided_status yes))])
         d1 n1 = (Inr v, d', n2)"
      "c = (if yes then CompNone else RevertStep)"
    by (auto simp: decide_approval_def with_tenant_tx_Ok decided_status_def decided_step_def
        mark_decided_def split: option.splits if_splits)
  then show ?thesis
    by (fastforce dest!: limit_1_Some append_transition_advanced)
qed


section \<open>The contract of the calls\<close>

text \<open>
  The edges of the lifecycle that the code takes: those of \<open>allowed\<close>, a (re)start, and the
  two outcomes of a decision, which the engine takes from whatever step the workflow is at.
\<close>

definition step_edge :: "string \<Rightarrow> string \<Rightarrow> bool" where
  "step_edge s s' \<longleftrightarrow> s' \<in> {''contain'', ''countermeasure_approved'', ''compensated''}
     \<or> (\<exists>a b. allowed a b \<and> s = step_str a \<and> s' = step_str b)"

lemma step_edge_allowed: "allowed a b \<Longrightarrow> step_edge (step_str a) (step_str b)"
  by (auto simp: step_edge_def)

definition step_before :: "wf_db \<Rightarrow> uuid \<Rightarrow> string \<Rightarrow> string" where
  "step_before d t w = (case latest_row d t w of None \<Rightarrow> ''start'' | Some r \<Rightarrow> ck_step r)"

text \<open>What a step entered without a decision has to show.\<close>

definition lawful :: "wf_db \<Rightarrow> checkpoint_row \<Rightarrow> bool" where
  "lawful d row \<longleftrightarrow>
     step_edge (step_before d (ck_tenant row) (ck_workflow row)) (ck_step row)
     \<and> ck_step row \<noteq> ''countermeasure_approved''
     \<and> (ck_step row = ''verify'' \<longrightarrow>
          at_step d (ck_tenant row) (ck_workflow row) ''countermeasure_approved''
          \<and> verification_count d (ck_tenant row) (ck_workflow row) \<noteq> 0)
     \<and> (ck_step row = ''closed'' \<longrightarrow>
          countermeasure_approved d (ck_tenant row) (ck_workflow row)
          \<and> verification_count d (ck_tenant row) (ck_workflow row) \<noteq> 0)"

text \<open>
  Two contracts for an invariant of the tables. Under the first, every effect the engine can
  have keeps it, so every public function does; under the second only the effects of the
  corrective-action functions have to.
\<close>

locale lifecycle_invariant =
  fixes inv :: "wf_db \<Rightarrow> bool"
  assumes history: "inv d \<Longrightarrow> history_ok d"
    and step: "inv d \<Longrightarrow> advanced d d' row \<Longrightarrow> lawful d row \<Longrightarrow> inv d'"
    and decided: "inv d \<Longrightarrow> a \<in> set (approvals d) \<Longrightarrow> is_pending (ck_tenant row) (ck_workflow row) a
      \<Longrightarrow> advanced (snd (mark_decided f (ck_tenant row) (ck_workflow row) (decided_status yes) who d)) d' row
      \<Longrightarrow> ck_step row = decided_step yes \<Longrightarrow> inv d'"
    and evidence: "inv d \<Longrightarrow> inv (add_evidences es d)"
    and request: "inv d \<Longrightarrow> inv (add_request
      (pending_row t w ''countermeasure_proposed'' COUNTERMEASURE_APPROVER_ROLE why) d)"
begin

lemma keeps_start: "keeps inv (start_investigation f e t cond actor)"
proof -
  have "inv d'"
    if I: "inv d" and
      run1: "append_transition f t (workflow_id_of e cond) WORKFLOW_TYPE Running ''start''
          ''contain'' (Some actor) p d n = (Inr u, d1, n1)" and
      run2: "append_transition f t (workflow_id_of e cond) WORKFLOW_TYPE Running ''contain''
          ''investigate'' (Some actor) p' d1 n1 = (Inr v, d', n2)"
    for d n u d1 n1 v d' n2 p p'
  proof -
    from run1 have adv: "advanced d d1 (new_row t (workflow_id_of e cond) WORKFLOW_TYPE Running
        ''contain'' (Some actor) p u)"
      by (rule append_transition_advanced)
    have "inv d1"
      by (rule step [OF I adv]) (auto simp: lawful_def step_edge_def)
    moreover from latest_row_advanced [OF history [OF I] adv]
    have "latest_row d1 t (workflow_id_of e cond) = Some (new_row t (workflow_id_of e cond)
        WORKFLOW_TYPE Running ''contain'' (Some actor) p u)" by simp
    moreover have "step_edge ''contain'' ''investigate''"
      using step_edge_allowed [of Contain Investigate] by simp
    ultimately show ?thesis
      by (intro step [OF _ append_transition_advanced [OF run2]]) (auto simp: lawful_def step_before_def)
  qed
  then show ?thesis
    unfolding start_investigation_def
    by (intro keeps_then keeps_return keeps_tenant_tx) auto
qed

lemma keeps_evidence: "keeps inv (add_evidence f t w ev)"
  unfolding add_evidence_def
  by (intro keeps_tenant_tx) (auto dest!: evidence_effect intro: evidence)

lemma guarded_step:
  assumes I: "inv d" and at: "at_step d t w (step_str a)" and "allowed a b"
    and run: "append_transition f t w ty st s (step_str b) actor p d n = (Inr v, d', n')"
    and "b = Verify \<Longrightarrow> verification_count d t w \<noteq> 0"
    and "b = Closed \<Longrightarrow> countermeasure_approved d t w \<and> verification_count d t w \<noteq> 0"
    and "b \<noteq> CountermeasureApproved"
  shows "inv d'"
proof -
  have "step_edge (step_str a) (step_str b)"
    using \<open>allowed a b\<close> by (rule step_edge_allowed)
  moreover have "step_str b = ''verify'' \<Longrightarrow> a = CountermeasureApproved \<and> b = Verify"
    "step_str b = ''closed'' \<Longrightarrow> b = Closed" "step_str b = ''countermeasure_approved'' \<Longrightarrow> False"
    using \<open>allowed a b\<close> \<open>b \<noteq> CountermeasureApproved\<close> by (cases b; cases a; simp)+
  ultimately have "lawful d (new_row t w ty st (step_str b) actor p v)"
    using at assms(5,6) by (auto simp: lawful_def at_step_def step_before_def)
  then show ?thesis
    by (rule step [OF I append_transition_advanced [OF run]])
qed


lemma keeps_propose: "keeps inv (propose_countermeasure f t w cm why)"
  unfolding keeps_def
proof (intro allI impI)
  fix d n assume I: "inv d"
  let ?tx = "with_tenant_tx f
          (tx_then (require_step f t w Investigate)
          (tx_then
             (append_transition f t w WORKFLOW_TYPE AwaitingApproval
                (step_str Investigate) (step_str CountermeasureProposed) None
                (JObj [(''countermeasure'', cm)]))
             (tx_return ()))) :: (wf_db, unit) tx"
  obtain r d1 n1 where run: "?tx d n = (r, d1, n1)" by (cases "?tx d n")
  obtain r2 d2 n2 where run2: "request_approval f t w COUNTERMEASURE_APPROVER_ROLE why d1 n1
      = (r2, d2, n2)" by (cases "request_approval f t w COUNTERMEASURE_APPROVER_ROLE why d1 n1")
  show "inv (fst (snd (propose_countermeasure f t w cm why d n)))"
  proof (cases r)
    case (Inl e)
    have "d1 = d" by (rule with_tenant_tx_Err [OF run [unfolded Inl]])
    with run Inl I show ?thesis
      by (simp add: propose_countermeasure_def tx_then_def [of _ "request_approval _ _ _ _ _"]
          tx_bind_def)
  next
    case (Inr u)
    with run obtain v m where at: "at_step d t w (step_str Investigate)" and
        app: "append_transition f t w WORKFLOW_TYPE AwaitingApproval ''investigate''
          (step_str CountermeasureProposed) None (JObj [(''countermeasure'', cm)]) d m = (Inr v, d1, n1 - 1)"
      by (auto simp: with_tenant_tx_Ok at_step_def)
    have I1: "inv d1"
      by (rule guarded_step [OF I at _ app]) simp_all
    have "at_step d1 t w ''countermeasure_proposed''"
      using latest_row_advanced [OF history [OF I] append_transition_advanced [OF app]]
      by (simp add: at_step_def)
    then have "inv d2"
      using run2 I1 by (cases r2)
        (auto simp: at_step_def dest!: request_approval_Err request_approval_effect intro: request)
    with run run2 Inr show ?thesis
      by (simp add: propose_countermeasure_def tx_then_def [of _ "request_approval _ _ _ _ _"]
          tx_bind_def)
  qed
qed

lemma keeps_verify: "keeps inv (verify_countermeasure f e t w v)"
  unfolding verify_countermeasure_def
proof (rule keeps_tenant_tx, goal_cases)
  case (1 d n x d' n')
  then obtain d1 k m m' where at: "at_step d t w (step_str CountermeasureApproved)"
    and d1: "d1 = add_evidences [\<lparr>er_tenant = t, er_workflow = w,
         er_evidence = \<lparr>ev_kind = ''verification'', ev_source = ''quality_engineer'',
           ev_captured_at = clock e 0, ev_value = v\<rparr>\<rparr>] d"
    and app: "append_transition f t w WORKFLOW_TYPE Running ''countermeasure_approved''
        (step_str Verify) None (JObj [(''status'', JStr ''verified'')]) d1 m = (Inr k, d', m')"
    by (auto simp: at_step_def dest!: evidence_effect)
  have "inv d1" using \<open>inv d\<close> d1 evidence by simp
  moreover have "at_step d1 t w (step_str CountermeasureApproved)"
    using at by (simp add: d1 add_evidences_def at_step_def)
  moreover have "verification_count d1 t w \<noteq> 0"
    by (simp add: d1 add_evidences_def verification_count_def)
  ultimately show ?case
    by (intro guarded_step [of d1 t w CountermeasureApproved Verify, OF _ _ _ app]) simp_all
qed

lemma keeps_close: "keeps inv (close_investigation f t w actor)"
  unfolding close_investigation_def
proof (rule keeps_tenant_tx, goal_cases)
  case (1 d n x d' n')
  then obtain k m m' where at: "at_step d t w (step_str Verify)"
    and ok: "countermeasure_approved d t w" "verification_count d t w \<noteq> 0"
    and app: "append_transition f t w WORKFLOW_TYPE Completed ''verify'' (step_str Closed) (Some actor)
         (JObj [(''status'', JStr ''closed'')]) d m = (Inr k, d', m')"
    by (auto simp: at_step_def split: if_splits)
  show ?case
    by (rule guarded_step [OF \<open>inv d\<close> at _ app]) (simp_all add: ok)
qed

lemma keeps_decide: "keeps inv (decide_approval f t w yes who az)"
proof -
  have "inv (fst (snd (decide_approval f t w yes who az d n)))" if I: "inv d" for d n
  proof -
    obtain r d' n' where run: "decide_approval f t w yes who az d n = (r, d', n')"
      by (cases "decide_approval f t w yes who az d n")
    show ?thesis
    proof (cases r)
      case (Inl e)
      with run I show ?thesis by (auto simp: decide_approval_def dest: with_tenant_tx_Err)
    next
      case (Inr c)
      with run obtain a row where "a \<in> set (approvals d)" "is_pending t w a"
          "advanced (snd (mark_decided f t w (decided_status yes) who d)) d' row"
          "ck_tenant row = t" "ck_workflow row = w" "ck_step row = decided_step yes"
        using decide_effect by blast
      with I run show ?thesis by (auto intro: decided)
    qed
  qed
  then show ?thesis by (simp add: keeps_def)
qed

theorem corrective_action_keeps:
  "corrective_action_call c \<Longrightarrow> inv d \<Longrightarrow> inv (snd (run_call f e t c d))"
  by (cases c) (auto intro: keeps_ran keeps_start keeps_evidence [unfolded add_evidence_def]
      keeps_propose keeps_decide keeps_verify keeps_close
      simp: record_observation_def add_evidence_def)

theorem corrective_action_reachable:
  "wf_reachable corrective_action_call d \<Longrightarrow> inv wf_empty \<Longrightarrow> inv d"
  by (induction rule: wf_reachable.induct) (auto intro: corrective_action_keeps)

end


locale engine_invariant =
  fixes inv :: "wf_db \<Rightarrow> bool"
  assumes history: "inv d \<Longrightarrow> history_ok d"
    and step: "inv d \<Longrightarrow> advanced d d' row \<Longrightarrow> inv d'"
    and decided: "inv d \<Longrightarrow> inv (snd (mark_decided f t w st who d))"
    and evidence: "inv d \<Longrightarrow> inv (add_evidences es d)"
    and request: "inv d \<Longrightarrow> inv (add_request a d)"
begin

lemma keeps_record: "keeps inv (record_transition f t w ty st s s' actor p)"
  unfolding record_transition_def
  by (rule keeps_tenant_tx) (auto dest!: append_transition_advanced intro: step)

lemma keeps_record_expected:
  "keeps inv (record_transition_expected f t w ty v st s s' actor p)"
  unfolding keeps_def
proof (intro allI impI)
  fix d n assume I: "inv d"
  let ?t = "record_transition_expected f t w ty v st s s' actor p"
  obtain r d' n' where run: "?t d n = (r, d', n')" by (cases "?t d n")
  show "inv (fst (snd (?t d n)))"
  proof (cases r)
    case (Inl e)
    with run have "d' = d"
      unfolding record_transition_expected_def by (auto dest: with_tenant_tx_Err)
    with run I show ?thesis by simp
  next
    case (Inr u)
    with run record_expected_advanced [OF history [OF I]] obtain row where "advanced d d' row"
      by fastforce
    with run I step show ?thesis by simp
  qed
qed

lemma keeps_request: "keeps inv (request_approval f t w role why)"
proof -
  have "inv (fst (snd (request_approval f t w role why d n)))" if I: "inv d" for d n
  proof -
    obtain r d' n' where run: "request_approval f t w role why d n = (r, d', n')"
      by (cases "request_approval f t w role why d n")
    with I show ?thesis
      by (cases r) (auto dest!: request_approval_Err request_approval_effect intro: request)
  qed
  then show ?thesis by (simp add: keeps_def)
qed

end

sublocale engine_invariant \<subseteq> lifecycle: lifecycle_invariant inv
  by unfold_locales (auto intro: history step decided evidence request)

context engine_invariant begin

theorem call_keeps: "inv d \<Longrightarrow> inv (snd (run_call f e t c d))"
proof (cases "corrective_action_call c")
  case True
  then show "inv d \<Longrightarrow> ?thesis" by (rule lifecycle.corrective_action_keeps)
next
  case False
  assume "inv d"
  with False show ?thesis
    by (cases c) (auto intro: keeps_ran keeps_record keeps_record_expected keeps_request
        lifecycle.keeps_evidence)
qed

theorem reachable: "wf_reachable P d \<Longrightarrow> inv wf_empty \<Longrightarrow> inv d"
  by (induction rule: wf_reachable.induct) (auto intro: call_keeps)

end

section \<open>The invariants\<close>

lemma mark_decided_tables [simp]:
  "checkpoints (snd (mark_decided f t w st who d)) = checkpoints d"
  "instances (snd (mark_decided f t w st who d)) = instances d"
  "evidences (snd (mark_decided f t w st who d)) = evidences d"
  by (simp_all add: mark_decided_def)

lemma add_tables [simp]:
  "checkpoints (add_request a d) = checkpoints d" "instances (add_request a d) = instances d"
  "evidences (add_request a d) = evidences d" "approvals (add_request a d) = approvals d @ [a]"
  "checkpoints (add_evidences es d) = checkpoints d" "instances (add_evidences es d) = instances d"
  "evidences (add_evidences es d) = evidences d @ es" "approvals (add_evidences es d) = approvals d"
  by (simp_all add: add_request_def add_evidences_def)

lemma history_ok_frame [simp]:
  "history_ok (snd (mark_decided f t w st who d)) = history_ok d"
  "history_ok (add_request a d) = history_ok d" "history_ok (add_evidences es d) = history_ok d"
  by (rule history_ok_cong; simp)+

interpretation numbering: engine_invariant history_ok
  by unfold_locales (auto intro: history_ok_advanced)

text \<open>Versions only grow.\<close>

definition version_of :: "wf_db \<Rightarrow> uuid \<Rightarrow> string \<Rightarrow> int" where
  "version_of d t w = (case wf_instance d t w of None \<Rightarrow> 0 | Some i \<Rightarrow> wi_version i)"

definition version_past :: "uuid \<Rightarrow> string \<Rightarrow> int \<Rightarrow> wf_db \<Rightarrow> bool" where
  "version_past t w v d \<longleftrightarrow> history_ok d \<and> v < version_of d t w"

lemma version_of_advanced:
  assumes "history_ok d" and "advanced d d' row"
  shows "version_of d' t w =
    (if t = ck_tenant row \<and> w = ck_workflow row then version_of d t w + 1 else version_of d t w)"
  using assms by (auto simp: advanced_def version_of_def split: option.splits)

lemma version_of_cong: "instances d' = instances d \<Longrightarrow> version_of d' t w = version_of d t w"
  by (simp add: version_of_def wf_instance_def)

lemma version_of_frame [simp]:
  "version_of (snd (mark_decided f t w st who d)) t' w' = version_of d t' w'"
  "version_of (add_request a d) t' w' = version_of d t' w'"
  "version_of (add_evidences es d) t' w' = version_of d t' w'"
  by (rule version_of_cong; simp)+

interpretation versions: engine_invariant "version_past t w v" for t w v
proof (unfold_locales, goal_cases)
  case (2 d d' row)
  then show ?case
    by (auto simp: version_past_def version_of_advanced intro: history_ok_advanced)
qed (auto simp: version_past_def)


text \<open>
  The lifecycle of a workflow that only the corrective-action functions touch: adjacent
  checkpoints are edges; a step behind the decision has an approved countermeasure request,
  a step behind verification has verification evidence; every request names the role.
\<close>

definition gate :: "wf_db \<Rightarrow> checkpoint_row \<Rightarrow> bool" where
  "gate d r \<longleftrightarrow>
     (ck_step r \<in> {''countermeasure_approved'', ''verify'', ''closed''} \<longrightarrow>
        countermeasure_approved d (ck_tenant r) (ck_workflow r))
     \<and> (ck_step r \<in> {''verify'', ''closed''} \<longrightarrow>
        verification_count d (ck_tenant r) (ck_workflow r) \<noteq> 0)"

definition edges_ok :: "wf_db \<Rightarrow> bool" where
  "edges_ok d \<longleftrightarrow> (\<forall>t w. successively step_edge (''start'' # map ck_step (wf_checkpoints d t w)))"

definition requests_ok :: "wf_db \<Rightarrow> bool" where
  "requests_ok d \<longleftrightarrow> (\<forall>a \<in> set (approvals d).
     ap_role a = COUNTERMEASURE_APPROVER_ROLE \<and> ap_step a = ''countermeasure_proposed'')"

definition lifecycle_ok :: "wf_db \<Rightarrow> bool" where
  "lifecycle_ok d \<longleftrightarrow> history_ok d \<and> edges_ok d \<and> (\<forall>r \<in> set (checkpoints d). gate d r)
     \<and> requests_ok d"

lemma latest_row_is_last:
  assumes "history_ok d"
  shows "latest_row d t w =
    (if wf_checkpoints d t w = [] then None else Some (last (wf_checkpoints d t w)))"
proof (cases "wf_instance d t w")
  case None
  from assms have "history_of d t w" by (simp add: history_ok_def)
  with None show ?thesis by (simp add: latest_row_def history_of_def)
next
  case (Some i)
  from assms have "history_of d t w" by (simp add: history_ok_def)
  with Some have "1 \<le> wi_version i" "map ck_checkpoint (wf_checkpoints d t w) = [1..wi_version i]"
    by (simp_all add: history_of_def)
  then have "wf_checkpoints d t w \<noteq> []" by auto
  with latest_row_last [OF assms Some] show ?thesis by simp
qed

lemma latest_row_mem:
  assumes "history_ok d" and "latest_row d t w = Some r"
  shows "r \<in> set (checkpoints d) \<and> ck_tenant r = t \<and> ck_workflow r = w"
proof -
  from assms have "r \<in> set (wf_checkpoints d t w)"
    by (auto simp: latest_row_is_last split: if_splits)
  then show ?thesis by (simp add: wf_checkpoints_def)
qed

lemma edges_ok_advanced:
  assumes "history_ok d" and "edges_ok d" and "advanced d d' row"
    and "step_edge (step_before d (ck_tenant row) (ck_workflow row)) (ck_step row)"
  shows "edges_ok d'"
proof -
  let ?t = "ck_tenant row" and ?w = "ck_workflow row"
  have "step_edge (last (''start'' # map ck_step (wf_checkpoints d ?t ?w))) (ck_step row)"
    using assms(4) by (simp add: step_before_def latest_row_is_last [OF assms(1)] last_map
        split: if_splits)
  moreover have "successively step_edge ((''start'' # map ck_step (wf_checkpoints d ?t ?w)) @ [ck_step row])
      \<longleftrightarrow> successively step_edge (''start'' # map ck_step (wf_checkpoints d ?t ?w))
        \<and> step_edge (last (''start'' # map ck_step (wf_checkpoints d ?t ?w))) (ck_step row)"
    by (simp only: successively_append_iff) simp
  ultimately show ?thesis
    using assms(2) wf_checkpoints_advanced [OF assms(3)] by (simp add: edges_ok_def)
qed

lemma edges_ok_frame [simp]:
  "edges_ok (snd (mark_decided f t w st who d)) = edges_ok d"
  "edges_ok (add_request a d) = edges_ok d" "edges_ok (add_evidences es d) = edges_ok d"
  by (simp_all add: edges_ok_def wf_checkpoints_def)

text \<open>The evidence for a gate is never taken away.\<close>

lemma gate_mono:
  assumes "gate d r"
    and "\<And>t w. countermeasure_approved d t w \<Longrightarrow> countermeasure_approved d' t w"
    and "\<And>t w. verification_count d t w \<le> verification_count d' t w"
  shows "gate d' r"
  using assms(1) assms(2) [of "ck_tenant r" "ck_workflow r"] assms(3) [of "ck_tenant r" "ck_workflow r"]
  by (auto simp: gate_def)

lemma approved_marked:
  "countermeasure_approved d t w \<Longrightarrow> countermeasure_approved (snd (mark_decided f t' w' st who d)) t w"
  by (force simp: countermeasure_approved_def mark_decided_def list_ex_iff is_pending_def)

lemma gate_frame:
  "gate d r \<Longrightarrow> gate (snd (mark_decided f t w st who d)) r"
  "gate d r \<Longrightarrow> gate (add_request a d) r" "gate d r \<Longrightarrow> gate (add_evidences es d) r"
  by (erule gate_mono; auto simp: verification_count_def approved_marked)
     (erule gate_mono; auto simp: countermeasure_approved_def verification_count_def)+

lemma gate_cong:
  "approvals d' = approvals d \<Longrightarrow> evidences d' = evidences d \<Longrightarrow> gate d' r = gate d r"
  by (simp add: gate_def countermeasure_approved_def verification_count_def)

interpretation lifecycle: lifecycle_invariant lifecycle_ok
proof (unfold_locales, goal_cases)
  case (2 d d' row)
  have adv: "checkpoints d' = checkpoints d @ [row]" "approvals d' = approvals d"
    "evidences d' = evidences d" using 2(2) by (simp_all add: advanced_def)
  have "gate d row"
  proof (cases "ck_step row = ''verify''")
    case True
    with 2 obtain r where "latest_row d (ck_tenant row) (ck_workflow row) = Some r"
        "ck_step r = ''countermeasure_approved''"
      by (auto simp: lawful_def at_step_def)
    moreover from 2(1) this(1) have "gate d r" "ck_tenant r = ck_tenant row"
        "ck_workflow r = ck_workflow row"
      using latest_row_mem by (auto simp: lifecycle_ok_def)
    ultimately show ?thesis using 2(3) True by (simp add: gate_def lawful_def)
  next
    case False
    with 2(3) show ?thesis by (auto simp: gate_def lawful_def)
  qed
  moreover have "edges_ok d'"
    using 2 by (intro edges_ok_advanced [of d d' row]) (auto simp: lifecycle_ok_def lawful_def)
  ultimately show ?case
    using 2(1,2) gate_cong [OF adv(2,3)]
    by (auto simp: lifecycle_ok_def adv(1) requests_ok_def adv(2) intro: history_ok_advanced)
next
  case (3 d a row f yes who d')
  let ?d = "snd (mark_decided f (ck_tenant row) (ck_workflow row) (decided_status yes) who d)"
  have adv: "checkpoints d' = checkpoints d @ [row]" "approvals d' = approvals ?d"
    "evidences d' = evidences ?d" using 3(4) by (simp_all add: advanced_def)
  have req: "requests_ok ?d"
    using 3(1) by (auto simp: lifecycle_ok_def requests_ok_def mark_decided_def)
  have "gate ?d row"
  proof (cases yes)
    case True
    let ?a = "a\<lparr>ap_status := ''approved'', ap_decided_by := who, ap_decided_at := Some (db_now f)\<rparr>"
    have "ap_step a = ''countermeasure_proposed''"
      using 3(1,2) by (auto simp: lifecycle_ok_def requests_ok_def)
    moreover have "?a \<in> set (approvals ?d)"
      using 3(2,3) True by (auto simp: mark_decided_def decided_status_def image_iff)
    ultimately have "countermeasure_approved ?d (ck_tenant row) (ck_workflow row)"
      using 3(3) unfolding countermeasure_approved_def list_ex_iff is_pending_def
      by (intro bexI [of _ ?a]) simp_all
    with True 3(5) show ?thesis by (simp add: gate_def decided_step_def)
  next
    case False
    with 3(5) show ?thesis by (simp add: gate_def decided_step_def)
  qed
  moreover have "edges_ok d'"
    using 3 by (intro edges_ok_advanced [OF _ _ 3(4)])
      (auto simp: lifecycle_ok_def step_edge_def decided_step_def)
  moreover have "history_ok d'"
    using 3(1) by (intro history_ok_advanced [OF _ 3(4)]) (simp add: lifecycle_ok_def)
  ultimately show ?case
    using 3(1) req gate_cong [OF adv(2,3)]
    by (auto simp: lifecycle_ok_def adv(1) requests_ok_def adv(2) intro: gate_frame)
qed (auto simp: lifecycle_ok_def requests_ok_def pending_row_def intro: gate_frame)


lemma history_ok_reachable: "wf_reachable P d \<Longrightarrow> history_ok d"
  by (rule numbering.reachable [OF _ history_ok_empty])

lemma lifecycle_ok_reachable: "wf_reachable corrective_action_call d \<Longrightarrow> lifecycle_ok d"
  by (erule lifecycle.corrective_action_reachable)
    (simp add: lifecycle_ok_def history_ok_empty,
      simp add: edges_ok_def requests_ok_def wf_empty_def wf_checkpoints_def)

text \<open>The step guard in front of a transaction.\<close>

lemma require_step_refused:
  assumes "\<not> at_step d t w (step_str s)"
  shows "\<exists>err n'. with_tenant_tx f (tx_then (require_step f t w s) k) d n = (Inl err, d, n')"
proof -
  obtain r d' n' where run: "with_tenant_tx f (tx_then (require_step f t w s) k) d n = (r, d', n')"
    by (cases "with_tenant_tx f (tx_then (require_step f t w s) k) d n")
  with assms show ?thesis
    by (cases r) (auto simp: with_tenant_tx_Ok at_step_def dest: with_tenant_tx_Err)
qed

lemma require_step_ran:
  "\<not> at_step d t w (step_str s) \<Longrightarrow>
     \<exists>err. ran (with_tenant_tx f (tx_then (require_step f t w s) k)) d = (Some err, d)"
  using require_step_refused [of d t w s f k 0] by (auto simp: ran_def)

lemma step_guard_verify:
  "\<not> at_step d t w ''countermeasure_approved'' \<Longrightarrow>
     \<exists>err. run_call f e t (VerifyCountermeasure w x) d = (Some err, d)"
  using require_step_ran [of d t w CountermeasureApproved]
  by (simp add: verify_countermeasure_def)

lemma step_guard_close:
  "\<not> at_step d t w ''verify'' \<Longrightarrow> \<exists>err. run_call f e t (CloseInvestigation w actor) d = (Some err, d)"
  using require_step_ran [of d t w Verify] by (simp add: close_investigation_def)

lemma step_guard_propose:
  assumes "\<not> at_step d t w ''investigate''"
  shows "\<exists>err. run_call f e t (ProposeCountermeasure w x why) d = (Some err, d)"
proof -
  from assms require_step_refused [of d t w Investigate] obtain err n' where
      "with_tenant_tx f (tx_then (require_step f t w Investigate)
          (tx_then
             (append_transition f t w WORKFLOW_TYPE AwaitingApproval
                (step_str Investigate) (step_str CountermeasureProposed) None
                (JObj [(''countermeasure'', x)]))
             (tx_return ()))) d 0 = (Inl err, d, n')" by fastforce
  then show ?thesis
    by (simp add: ran_def propose_countermeasure_def tx_then_def [of "with_tenant_tx _ _"]
        tx_bind_def [of "with_tenant_tx _ _"])
qed

section \<open>A complete investigation\<close>

text \<open>
  The run of the witnesses: tenant 1, condition 7, an approver with the required role.
\<close>

definition demo_wf :: string where
  "demo_wf = workflow_id_of demo_env 7"

definition demo_snapshot :: authz_snapshot where
  "demo_snapshot = \<lparr>az_tenant = 1, az_principal = 8, az_roles = [COUNTERMEASURE_APPROVER_ROLE],
     az_policy_revision = 0, az_relationship_revision = 0, az_principal_revision = 0,
     az_scope_site = None, az_permission_digest = []\<rparr>"

definition demo_calls :: "wf_call list" where
  "demo_calls = [StartInvestigation 7 9, ProposeCountermeasure demo_wf JNull ''why'',
     DecideApproval demo_wf True (Some 8) demo_snapshot, VerifyCountermeasure demo_wf JNull,
     CloseInvestigation demo_wf 9]"

fun run_calls :: "pg \<Rightarrow> env \<Rightarrow> uuid \<Rightarrow> wf_call list \<Rightarrow> wf_db \<Rightarrow> wf_db" where
  "run_calls f e t [] d = d"
| "run_calls f e t (c # cs) d = run_calls f e t cs (snd (run_call f e t c d))"

lemma run_calls_reachable:
  "wf_reachable P d \<Longrightarrow> list_all P cs \<Longrightarrow> wf_reachable P (run_calls f e t cs d)"
  by (induction cs arbitrary: d) (auto intro: wf_reachable.call)

definition demo_db :: "nat \<Rightarrow> wf_db" where
  "demo_db k = run_calls no_faults demo_env 1 (take k demo_calls) wf_empty"

lemma demo_reachable: "wf_reachable corrective_action_call (demo_db k)"
  unfolding demo_db_def
  by (rule run_calls_reachable [OF wf_reachable.init])
    (auto simp: list_all_iff demo_calls_def dest!: in_set_takeD)

lemma demo_steps: "map ck_step (wf_checkpoints (demo_db 5) 1 demo_wf) =
  [''contain'', ''investigate'', ''countermeasure_proposed'', ''countermeasure_approved'',
   ''verify'', ''closed'']"
  by code_simp


section \<open>When a transition is accepted\<close>

lemma checkpoint_numbers:
  assumes "history_ok d"
  shows "ck_checkpoint ` set (wf_checkpoints d t w) = {1..version_of d t w}"
proof (cases "wf_instance d t w")
  case None
  from assms have "history_of d t w" by (simp add: history_ok_def)
  with None show ?thesis by (simp add: history_of_def version_of_def)
next
  case (Some i)
  from assms have "history_of d t w" by (simp add: history_ok_def)
  with Some have "map ck_checkpoint (wf_checkpoints d t w) = [1..wi_version i]"
    by (simp add: history_of_def)
  from arg_cong [OF this, of set] Some show ?thesis by (simp add: version_of_def)
qed

lemma append_transition_accepted:
  assumes "history_ok d" and "stmt_error f = (\<lambda>_. None)" and "in_i64 (version_of d t w + 1)"
  shows "\<exists>d' n'. append_transition f t w ty st s s' actor p d n
    = (Inr (version_of d t w + 1), d', n')"
proof -
  obtain d1 where bump: "bump_instance f t w s' d = Inr (version_of d t w + 1, d1)"
      and cks: "checkpoints d1 = checkpoints d"
    using assms(3) by (cases "wf_instance d t w") (auto simp: bump_instance_def version_of_def)
  have "wf_checkpoints d1 t w = wf_checkpoints d t w" by (simp add: wf_checkpoints_def cks)
  moreover have "version_of d t w + 1 \<notin> ck_checkpoint ` set (wf_checkpoints d t w)"
    by (simp add: checkpoint_numbers [OF assms(1)])
  ultimately have "\<not> list_ex (\<lambda>r. ck_checkpoint r = version_of d t w + 1) (wf_checkpoints d1 t w)"
    unfolding list_ex_iff by (metis image_eqI)
  with bump assms(2) show ?thesis
    by (simp add: append_transition_def tx_bind_def tx_then_def tx_stmt_no_faults
        insert_checkpoint_def tx_return_def)
qed

section \<open>Properties\<close>

text \<open>C32.
  Whatever sequence of engine calls a client makes, for any tenants, and whatever statement
  the server fails at each call, the checkpoints of a workflow are numbered 1, 2, ... up to the
  version of its single instance row, without gap or repetition, the instance sits at the step
  of the last checkpoint, and that is the step a resuming client reads.
\<close>

theorem checkpoint_history:
  assumes "wf_reachable P d" and "wf_instance d t w = Some i"
  shows "map ck_checkpoint (wf_checkpoints d t w) = [1..wi_version i]
    \<and> latest_row d t w = Some (last (wf_checkpoints d t w))
    \<and> ck_step (last (wf_checkpoints d t w)) = wi_step i \<and> in_i64 (wi_version i)"
proof -
  from history_ok_reachable [OF assms(1)] have ok: "history_ok d" .
  then have "history_of d t w" by (simp add: history_ok_def)
  with assms(2) latest_row_last [OF ok assms(2)] show ?thesis by (simp add: history_of_def)
qed

lemma checkpoint_history_witness:
  "map ck_checkpoint (wf_checkpoints (demo_db 5) 1 demo_wf) = [1..6]"
proof -
  have "wf_instance (demo_db 5) 1 demo_wf = Some \<lparr>wi_tenant = 1, wi_workflow = demo_wf,
      wi_step = ''closed'', wi_version = 6\<rparr>" by code_simp
  from checkpoint_history [OF demo_reachable this] show ?thesis by simp
qed

text \<open>The two queries in terms of the rows.\<close>

lemma approval_on_record:
  "(\<exists>a \<in> set (approvals d). ap_tenant a = t \<and> ap_workflow a = w
          \<and> ap_step a = ''countermeasure_proposed'' \<and> ap_status a = ''approved'') \<longleftrightarrow> countermeasure_approved d t w"
  by (simp add: countermeasure_approved_def list_ex_iff)

lemma verification_on_record:
  "(\<exists>r \<in> set (evidences d). er_tenant r = t \<and> er_workflow r = w
          \<and> ev_kind (er_evidence r) = ''verification'') \<longleftrightarrow> verification_count d t w \<noteq> 0"
  by (auto simp: verification_count_def filter_empty_conv)

text \<open>
  Calls that run one after another, and only those of the corrective-action functions: a
  checkpoint closed stands directly behind verify, which stands directly behind
  countermeasure_approved, and an approved countermeasure request and verification evidence of the
  same tenant and workflow are on record. \<open>Workflow_Concurrency\<close> says what is left of it when
  calls overlap.
\<close>

theorem serial_closed_in_order:
  assumes "wf_reachable corrective_action_call d"
    and "steps = map ck_step (wf_checkpoints d t w)" and "k < length steps" and "steps ! k = ''closed''"
  shows "2 \<le> k \<and> steps ! (k - 1) = ''verify'' \<and> steps ! (k - 2) = ''countermeasure_approved''
    \<and> (\<exists>a \<in> set (approvals d). ap_tenant a = t \<and> ap_workflow a = w
          \<and> ap_step a = ''countermeasure_proposed'' \<and> ap_status a = ''approved'')
    \<and> (\<exists>r \<in> set (evidences d). er_tenant r = t \<and> er_workflow r = w
          \<and> ev_kind (er_evidence r) = ''verification'')"
proof -
  have ok: "lifecycle_ok d" using assms(1) by (rule lifecycle_ok_reachable)
  have edge: "step_edge ((''start'' # steps) ! j) (steps ! j)" if "j < length steps" for j
    using ok that assms(2) successively_conv_nth [of step_edge "''start'' # steps"]
    by (auto simp: lifecycle_ok_def edges_ok_def)
  have prev: "(''start'' # steps) ! j = step_str a"
    if "j < length steps" "steps ! j = step_str b" "b \<in> {Verify, Closed}"
      "\<And>c. allowed c b \<longleftrightarrow> c = a" for j a b
    using edge [OF that(1)] that by (auto simp: step_edge_def)
  have "(''start'' # steps) ! k = step_str Verify"
    by (rule prev [of _ Closed]) (use assms in \<open>simp_all add: allowed_into\<close>)
  then obtain j where j: "k = Suc j" "steps ! j = ''verify''"
    by (cases k) auto
  have "(''start'' # steps) ! j = step_str CountermeasureApproved"
    by (rule prev [of _ Verify]) (use j assms in \<open>simp_all add: allowed_into\<close>)
  then obtain i where i: "j = Suc i" "steps ! i = ''countermeasure_approved''"
    by (cases j) auto
  from assms have row: "wf_checkpoints d t w ! k \<in> set (wf_checkpoints d t w)"
      "ck_step (wf_checkpoints d t w ! k) = ''closed''" by auto
  then have "gate d (wf_checkpoints d t w ! k)" "ck_tenant (wf_checkpoints d t w ! k) = t"
      "ck_workflow (wf_checkpoints d t w ! k) = w"
    using ok by (auto simp: wf_checkpoints_def lifecycle_ok_def)
  with i j row show ?thesis
    unfolding approval_on_record verification_on_record by (auto simp: gate_def)
qed

text \<open>
  Closing, exactly: on a server without faults and with a version number left, a call of
  \<open>close_investigation\<close> succeeds if and only if the workflow's latest checkpoint is at
  step verify, a countermeasure request of it is approved and verification evidence of it is
  on record. On success one checkpoint, closed, is appended and nothing else of the tables but
  the instance row changes; on failure the tables are as they were.
\<close>

theorem close_exact:
  assumes "history_ok d" and "stmt_error f = (\<lambda>_. None)" and "in_i64 (version_of d t w + 1)"
  shows "case run_call f e t (CloseInvestigation w actor) d of (err, d') \<Rightarrow>
    (err = None \<longleftrightarrow> at_step d t w ''verify''
       \<and> (\<exists>a \<in> set (approvals d). ap_tenant a = t \<and> ap_workflow a = w
          \<and> ap_step a = ''countermeasure_proposed'' \<and> ap_status a = ''approved'')
       \<and> (\<exists>r \<in> set (evidences d). er_tenant r = t \<and> er_workflow r = w
          \<and> ev_kind (er_evidence r) = ''verification''))
    \<and> (if err = None
       then checkpoints d' = checkpoints d @ [new_row t w WORKFLOW_TYPE Completed ''closed''
              (Some actor) (JObj [(''status'', JStr ''closed'')]) (version_of d t w + 1)]
            \<and> approvals d' = approvals d \<and> evidences d' = evidences d
       else d' = d)"
proof -
  obtain r d' n' where run: "close_investigation f t w actor d 0 = (r, d', n')"
    by (cases "close_investigation f t w actor d 0")
  obtain d1 n1 where app: "append_transition f t w WORKFLOW_TYPE Completed ''verify'' ''closed''
        (Some actor) (JObj [(''status'', JStr ''closed'')]) d (Suc (Suc (Suc (Suc (Suc 0))))) = (Inr (version_of d t w + 1), d1, n1)"
    using append_transition_accepted [OF assms] by blast
  show ?thesis
  proof (cases r)
    case (Inl e)
    with run have "d' = d" by (auto simp: close_investigation_def dest: with_tenant_tx_Err)
    moreover have "\<not> (at_step d t w ''verify'' \<and> countermeasure_approved d t w
        \<and> verification_count d t w \<noteq> 0)"
    proof
      assume "at_step d t w ''verify'' \<and> countermeasure_approved d t w
        \<and> verification_count d t w \<noteq> 0"
      with app assms(2) have "close_investigation f t w actor d 0 = (Inr (), d1, n1 + 1)"
        by (auto simp: close_investigation_def with_tenant_tx_Ok at_step_def)
      with run Inl show False by simp
    qed
    ultimately show ?thesis unfolding approval_on_record verification_on_record
      using run Inl by (simp add: ran_def)
  next
    case (Inr u)
    with run app have "at_step d t w ''verify'' \<and> countermeasure_approved d t w
        \<and> verification_count d t w \<noteq> 0" "d' = d1"
      by (auto simp: close_investigation_def with_tenant_tx_Ok at_step_def split: if_splits)
    with append_transition_advanced [OF app] run Inr show ?thesis
      unfolding approval_on_record verification_on_record by (simp add: ran_def advanced_def)
  qed
qed

lemma close_exact_witness:
  "fst (run_call no_faults demo_env 1 (CloseInvestigation demo_wf 9) (demo_db 4)) = None"
proof -
  have "in_i64 (version_of (demo_db 4) 1 demo_wf + 1)" by code_simp
  moreover have "stmt_error no_faults = (\<lambda>_. None)" by (simp add: fun_eq_iff)
  moreover have "at_step (demo_db 4) 1 demo_wf ''verify'' \<and> countermeasure_approved (demo_db 4) 1 demo_wf
      \<and> verification_count (demo_db 4) 1 demo_wf \<noteq> 0" by code_simp
  ultimately show ?thesis
    using close_exact [unfolded approval_on_record verification_on_record, where d = "demo_db 4" and f = no_faults and t = 1 and w = demo_wf
        and e = demo_env and actor = 9] history_ok_reachable [OF demo_reachable, of 4]
    by (cases "run_call no_faults demo_env 1 (CloseInvestigation demo_wf 9) (demo_db 4)")
      (simp del: run_call.simps One_nat_def)
qed

text \<open>
  The step guard. At any step but its own, each of \<open>propose_countermeasure\<close>,
  \<open>verify_countermeasure\<close> and \<open>close_investigation\<close> ends in an error and leaves the
  tables unchanged, whatever the server does. A rejected (compensated) workflow can therefore
  not be proposed, verified or closed.
\<close>

lemma wrong_step_refused:
  assumes "c = ProposeCountermeasure w x why \<and> required = ''investigate''
    \<or> c = VerifyCountermeasure w x \<and> required = ''countermeasure_approved''
    \<or> c = CloseInvestigation w actor \<and> required = ''verify''"
    and "\<not> at_step d t w required"
  shows "\<exists>err. run_call f e t c d = (Some err, d)"
  using assms by (auto intro: step_guard_propose step_guard_verify step_guard_close)

lemma wrong_step_refused_witness:
  "\<exists>err. run_call no_faults demo_env 1 (CloseInvestigation demo_wf 9) (demo_db 3) = (Some err, demo_db 3)"
proof -
  have "\<not> at_step (demo_db 3) 1 demo_wf ''verify''" by code_simp
  then show ?thesis
    by (intro wrong_step_refused [where required = "''verify''" and w = demo_wf and actor = 9]) simp_all
qed

text \<open>
  A decision on a workflow that only the corrective-action functions touch: if
  \<open>decide_approval\<close> succeeds then a pending request existed, the snapshot holds the role
  quality_engineer, no request of the workflow is pending afterwards, every request that was
  pending carries the decision, its author and the transaction time, every other row is as it
  was, and the workflow is at the step of the decision.
\<close>

lemma decision_needs_role:
  assumes "wf_reachable corrective_action_call d"
    and "decide_approval f t w yes who az d n = (Inr c, d', n')"
  shows "COUNTERMEASURE_APPROVER_ROLE \<in> set (az_roles az)
    \<and> (\<exists>a \<in> set (approvals d). is_pending t w a)
    \<and> approvals d' = map (\<lambda>a. if is_pending t w a
         then a\<lparr>ap_status := if yes then ''approved'' else ''rejected'', ap_decided_by := who,
                ap_decided_at := Some (db_now f)\<rparr> else a) (approvals d)
    \<and> (\<forall>a \<in> set (approvals d'). \<not> is_pending t w a)
    \<and> at_step d' t w (if yes then ''countermeasure_approved'' else ''compensated'')
    \<and> c = (if yes then CompNone else RevertStep)"
proof -
  have ok: "lifecycle_ok d" using assms(1) by (rule lifecycle_ok_reachable)
  let ?d = "snd (mark_decided f t w (decided_status yes) who d)"
  from decide_effect [OF assms(2)] obtain a row where
      a: "a \<in> set (approvals d)" "is_pending t w a" "ap_role a \<in> set (az_roles az)"
      and adv: "advanced ?d d' row" and row: "ck_tenant row = t" "ck_workflow row = w"
        "ck_step row = decided_step yes" and c: "c = (if yes then CompNone else RevertStep)"
    by blast
  have "ap_role a = COUNTERMEASURE_APPROVER_ROLE"
    using ok a(1) by (auto simp: lifecycle_ok_def requests_ok_def)
  moreover have apps: "approvals d' = map (\<lambda>a. if is_pending t w a
         then a\<lparr>ap_status := decided_status yes, ap_decided_by := who,
                ap_decided_at := Some (db_now f)\<rparr> else a) (approvals d)"
    using adv by (simp add: advanced_def mark_decided_def)
  moreover have "history_ok ?d" using ok by (simp add: lifecycle_ok_def)
  from latest_row_advanced [OF this adv] row have "at_step d' t w (decided_step yes)"
    by (simp add: at_step_def)
  ultimately show ?thesis
    using a c by (auto simp: decided_status_def decided_step_def is_pending_def)
qed

lemma decision_needs_role_witness:
  "COUNTERMEASURE_APPROVER_ROLE \<in> set (az_roles demo_snapshot)
   \<and> at_step (demo_db 3) 1 demo_wf ''countermeasure_approved''"
proof -
  have "decide_approval no_faults 1 demo_wf True (Some 8) demo_snapshot (demo_db 2) 0
      = (Inr CompNone, demo_db 3, 8)" by code_simp
  from decision_needs_role [OF demo_reachable this] show ?thesis by simp
qed

text \<open>
  Optimistic concurrency: once a writer's compare-and-swap at an expected version has
  succeeded, no second one with the same expected version for that workflow can succeed,
  whatever calls are made in between and however far the version is counted on.
\<close>

theorem cas_single_winner:
  assumes "history_ok d"
    and "run_call f e t (RecordTransitionExpected w ty v st s s' actor p) d = (None, d')"
  shows "fst (run_call f2 e2 t (RecordTransitionExpected w ty2 v st2 s2 s2' actor2 p2)
    (run_calls f1 e1 t1 cs d')) \<noteq> None"
proof
  let ?d = "run_calls f1 e1 t1 cs d'"
  assume win2: "fst (run_call f2 e2 t (RecordTransitionExpected w ty2 v st2 s2 s2' actor2 p2) ?d) = None"
  from assms(2) obtain n' where
      "record_transition_expected f t w ty v st s s' actor p d 0 = (Inr (), d', n')"
    by (auto simp: ran_def split: prod.splits sum.splits)
  from record_expected_advanced [OF assms(1) this] obtain i where
      i: "wf_instance d t w = Some i" "wi_version i = i64_wrap (int v)"
      and adv: "advanced d d' (new_row t w ty st s' actor p (wi_version i + 1))" by blast
  have "version_past t w (i64_wrap (int v)) d'"
    using version_of_advanced [OF assms(1) adv, of t w] history_ok_advanced [OF assms(1) adv] i
    by (simp add: version_past_def version_of_def)
  then have "version_past t w (i64_wrap (int v)) ?d"
    by (induction cs arbitrary: d') (auto intro: versions.call_keeps)
  moreover from win2 obtain d2 n2 where
      "record_transition_expected f2 t w ty2 v st2 s2 s2' actor2 p2 ?d 0 = (Inr (), d2, n2)"
    by (auto simp: ran_def split: prod.splits sum.splits)
  ultimately show False
    using record_expected_advanced [of ?d f2 t w ty2 v st2 s2 s2' actor2 p2 0 d2 n2]
    by (auto simp: version_past_def version_of_def)
qed

lemma cas_single_winner_witness:
  "fst (run_call no_faults demo_env 1 (RecordTransitionExpected demo_wf [] 2 Running [] ''b'' None JNull)
     (run_calls no_faults demo_env 1 [RecordObservation demo_wf JNull]
       (snd (run_call no_faults demo_env 1
          (RecordTransitionExpected demo_wf [] 2 Running [] ''a'' None JNull) (demo_db 1))))) \<noteq> None"
proof (rule cas_single_winner [OF history_ok_reachable [OF demo_reachable, of 1]])
  have "fst (run_call no_faults demo_env 1
      (RecordTransitionExpected demo_wf [] 2 Running [] ''a'' None JNull) (demo_db 1)) = None"
    by code_simp
  then show "run_call no_faults demo_env 1
      (RecordTransitionExpected demo_wf [] 2 Running [] ''a'' None JNull) (demo_db 1) = (None,
      snd (run_call no_faults demo_env 1
      (RecordTransitionExpected demo_wf [] 2 Running [] ''a'' None JNull) (demo_db 1)))"
    by (intro prod_eqI) (simp_all only: fst_conv snd_conv)
qed


text \<open>C38.
  Failure atomicity and its one exception. Whatever statement the server fails, a call of the
  crate that returns an error leaves the tables exactly as they were, unless the call is
  \<open>propose_countermeasure\<close>: its transition and its approval request are two
  transactions, so an error may leave the workflow at step countermeasure_proposed with no
  request added. If no request was pending before, the workflow is then stuck: proposing
  again, deciding, verifying and closing all fail and change nothing.
\<close>

theorem call_atomicity:
  assumes "run_call f e t c d = (Some err, d')" and "d' \<noteq> d" and "history_ok d"
  shows "\<exists>w x why. c = ProposeCountermeasure w x why
    \<and> at_step d' t w ''countermeasure_proposed'' \<and> approvals d' = approvals d
    \<and> ((\<forall>a \<in> set (approvals d). \<not> is_pending t w a) \<longrightarrow>
        (\<forall>f' e' x' why' yes who az actor c'.
          c' \<in> {ProposeCountermeasure w x' why', DecideApproval w yes who az,
                 VerifyCountermeasure w x', CloseInvestigation w actor} \<longrightarrow>
          (\<exists>err'. run_call f' e' t c' d' = (Some err', d'))))"
proof -
  have single: False if "c = StartInvestigation cond actor \<or> c = RecordObservation w x
      \<or> c = DecideApproval w yes who az \<or> c = VerifyCountermeasure w x \<or> c = CloseInvestigation w actor
      \<or> c = RecordTransition w ty st s s' actor' x \<or> c = RecordTransitionExpected w ty v st s s' actor' x
      \<or> c = RequestApproval w role why \<or> c = AddEvidence w ev"
    for cond actor w x yes who az ty st s s' actor' v role why ev
    using that assms(1,2)
    by (auto simp: ran_def start_investigation_def record_observation_def add_evidence_def
        decide_approval_def verify_countermeasure_def close_investigation_def record_transition_def
        record_transition_expected_def request_approval_def tx_then_def [of "with_tenant_tx _ _"]
        tx_bind_def [of "with_tenant_tx _ _"] tx_return_def
        split: prod.splits sum.splits dest!: with_tenant_tx_Err)
  then obtain w x why where c: "c = ProposeCountermeasure w x why" by (cases c) blast+
  let ?tx = "with_tenant_tx f
          (tx_then (require_step f t w Investigate)
          (tx_then
             (append_transition f t w WORKFLOW_TYPE AwaitingApproval
                (step_str Investigate) (step_str CountermeasureProposed) None
                (JObj [(''countermeasure'', x)]))
             (tx_return ()))) :: (wf_db, unit) tx"
  obtain r d1 n1 where run: "?tx d 0 = (r, d1, n1)" by (cases "?tx d 0")
  show ?thesis
  proof (cases r)
    case (Inl e1)
    with run have "d1 = d" by (blast dest: with_tenant_tx_Err)
    with assms(1,2) c run Inl show ?thesis
      by (simp add: ran_def propose_countermeasure_def tx_then_def [of "with_tenant_tx _ _"]
          tx_bind_def [of "with_tenant_tx _ _"])
  next
    case (Inr u)
    obtain r2 d2 n2 where run2: "request_approval f t w COUNTERMEASURE_APPROVER_ROLE why d1 n1
        = (r2, d2, n2)" by (cases "request_approval f t w COUNTERMEASURE_APPROVER_ROLE why d1 n1")
    from assms(1) c run Inr run2 have "r2 = Inl err" "d' = d2"
      by (auto simp: ran_def propose_countermeasure_def tx_then_def [of "with_tenant_tx _ _"]
          tx_bind_def [of "with_tenant_tx _ _"] split: sum.splits)
    with run2 have d': "d' = d1" by (auto dest: request_approval_Err)
    from run Inr obtain v m where
        app: "append_transition f t w WORKFLOW_TYPE AwaitingApproval ''investigate''
          ''countermeasure_proposed'' None (JObj [(''countermeasure'', x)]) d m = (Inr v, d1, n1 - 1)"
      by (auto simp: with_tenant_tx_Ok)
    from append_transition_advanced [OF app] have adv: "approvals d' = approvals d"
      by (simp add: d' advanced_def)
    from latest_row_advanced [OF assms(3) append_transition_advanced [OF app]]
    have at: "at_step d' t w ''countermeasure_proposed''" by (simp add: at_step_def d')
    then have not_at: "\<not> at_step d' t w s" if "s \<noteq> ''countermeasure_proposed''" for s
      using that by (auto simp: at_step_def)
    have "\<exists>err'. run_call f' e' t (DecideApproval w yes who az) d' = (Some err', d')"
      if none: "\<forall>a \<in> set (approvals d). \<not> is_pending t w a" for f' e' yes who az
    proof -
      obtain r' d3 n3 where dec: "decide_approval f' t w yes who az d' 0 = (r', d3, n3)"
        by (cases "decide_approval f' t w yes who az d' 0")
      then show ?thesis
        using none decide_effect [of f' t w yes who az d' 0 _ d3 n3] adv
        by (cases r') (auto simp: ran_def decide_approval_def dest: with_tenant_tx_Err)
    qed
    then show ?thesis
      using c at adv not_at
      by (auto simp del: run_call.simps intro: step_guard_propose step_guard_verify step_guard_close)
  qed
qed


text \<open>A server that fails the seventh statement of a call.\<close>

definition fault_6 :: pg where
  "fault_6 = no_faults\<lparr>stmt_error := (\<lambda>n. if n = 6 then Some ''connection closed'' else None)\<rparr>"

lemma call_atomicity_witness:
  "at_step (snd (run_call fault_6 demo_env 1 (ProposeCountermeasure demo_wf JNull []) (demo_db 1))) 1
     demo_wf ''countermeasure_proposed''"
proof -
  let ?r = "run_call fault_6 demo_env 1 (ProposeCountermeasure demo_wf JNull []) (demo_db 1)"
  have *: "fst ?r = Some [Txt ''failed to begin tenant tx: '', FStr ''connection closed'']
    \<and> length (checkpoints (snd ?r)) = 3 \<and> length (checkpoints (demo_db 1)) = 2" by code_simp
  have "?r = (Some [Txt ''failed to begin tenant tx: '', FStr ''connection closed''], snd ?r)"
    using * by (intro prod_eqI) (simp_all only: fst_conv snd_conv)
  moreover have "snd ?r \<noteq> demo_db 1"
    using * by (auto simp del: run_call.simps)
  ultimately show ?thesis
    using call_atomicity [of fault_6 demo_env 1] history_ok_reachable [OF demo_reachable]
    by fastforce
qed

section \<open>Where the code departs from its comments\<close>

text \<open>
  A decision is not tied to the step: an investigation that is restarted while a request is
  pending moves from investigate directly to countermeasure_approved, which \<open>allowed\<close>
  (never called by the operations) excludes.
\<close>

definition shortcut_calls :: "wf_call list" where
  "shortcut_calls = [StartInvestigation 7 9, ProposeCountermeasure demo_wf JNull [],
     StartInvestigation 7 9, DecideApproval demo_wf True (Some 8) demo_snapshot]"

lemma decision_skips_proposal:
  "map ck_step (wf_checkpoints (run_calls no_faults demo_env 1 shortcut_calls wf_empty) 1 demo_wf) =
     [''contain'', ''investigate'', ''countermeasure_proposed'', ''contain'', ''investigate'',
      ''countermeasure_approved''] \<and> \<not> allowed Investigate CountermeasureApproved"
  by code_simp

text \<open>
  A decision checks the role of one pending request and writes all of them: a request that
  names another role is approved with it.
\<close>

definition two_request_calls :: "wf_call list" where
  "two_request_calls = [StartInvestigation 7 9, ProposeCountermeasure demo_wf JNull [],
     RequestApproval demo_wf ''plant_manager'' [],
     DecideApproval demo_wf True (Some 8) demo_snapshot]"

lemma unheld_role_approved:
  "map (\<lambda>a. (ap_role a, ap_status a))
     (approvals (run_calls no_faults demo_env 1 two_request_calls wf_empty)) =
     [(''quality_engineer'', ''approved''), (''plant_manager'', ''approved'')]
   \<and> ''plant_manager'' \<notin> set (az_roles demo_snapshot)"
  by code_simp

text \<open>Of the authorization snapshot, a decision reads nothing but the roles.\<close>

lemma decision_ignores_snapshot:
  "az_roles az = az_roles az' \<Longrightarrow>
     decide_approval f t w yes who az = decide_approval f t w yes who az'"
  by (simp add: decide_approval_def)

end
