(* ===== verification/Workflow_Concurrency.thy ===== *)
theory Workflow_Concurrency
  imports Corrective_Action
begin

text \<open>
  The corrective-action functions under concurrency. \<open>run_call\<close> of \<open>Corrective_Action\<close>
  runs a whole call at once; PostgreSQL does not. The transactions of
  \<open>sensei-workflow/src/corrective_action.rs\<close> and \<open>approval.rs\<close> read their guards with
  plain \<open>SELECT\<close>s under READ COMMITTED, so other transactions commit between a guard and the
  write it guards. Here every such read is a step of its own, and any number of calls interleave.
  \<open>solo_call\<close> says that a call whose steps meet no other call is \<open>run_call\<close>.
\<close>

section \<open>Where a call stands\<close>

text \<open>
  A call between two statements, with what it has read: \<open>Proposing\<close>, \<open>Verifying\<close> and
  \<open>Closing\<close> are about to run \<open>require_step\<close>; \<open>CloseApproval\<close> and
  \<open>CloseEvidence\<close> about to run the second and the third guard of
  \<open>close_investigation\<close>; a constructor that ends in \<open>Ready\<close> has passed its guards. A
  decision that has run its \<open>UPDATE\<close> holds the locks on the rows it hit, by their positions,
  until it ends.
\<close>

datatype wf_pc =
    Starting uuid uuid
  | Observing string json
  | Proposing string json string
  | ProposeReady string json string
  | Requesting string string
  | RequestReady string string string
  | Deciding string bool "uuid option" authz_snapshot
  | DecideReady string bool "uuid option"
  | Decided string bool "uuid option" "nat list" timestamp
  | DecideTyped string bool "uuid option" "nat list" timestamp string string
  | Verifying string json
  | VerifyReady string json
  | Closing string uuid
  | CloseApproval string uuid
  | CloseEvidence string uuid
  | CloseReady string uuid

fun entry_point :: "wf_call \<Rightarrow> wf_pc option" where
  "entry_point (StartInvestigation cond actor) = Some (Starting cond actor)"
| "entry_point (RecordObservation w obs) = Some (Observing w obs)"
| "entry_point (ProposeCountermeasure w cm why) = Some (Proposing w cm why)"
| "entry_point (DecideApproval w yes who az) = Some (Deciding w yes who az)"
| "entry_point (VerifyCountermeasure w v) = Some (Verifying w v)"
| "entry_point (CloseInvestigation w actor) = Some (Closing w actor)"
| "entry_point _ = None"

fun locks_held :: "wf_pc \<Rightarrow> nat list" where
  "locks_held (Decided w yes who hits tm) = hits"
| "locks_held (DecideTyped w yes who hits tm step ty) = hits"
| "locks_held _ = []"

text \<open>A statement lets the call go on, answers it, or waits for a lock.\<close>

datatype wf_outcome = Goes wf_pc | Answers "message option" | Waits

section \<open>One statement\<close>

text \<open>
  The writes of a transaction and its commit. The first write of every transaction but a decision
  is the \<open>UPSERT\<close> of the instance, which locks its row until the commit, or an
  \<open>INSERT\<close> that no other transaction waits for or sees before the commit; so they are one
  step, and an error undoes it.
\<close>

definition commits :: "pg \<Rightarrow> (wf_db, unit) tx \<Rightarrow> wf_db \<Rightarrow> message option \<times> wf_db" where
  "commits f body d =
     (case tx_then body (tx_query f [Txt ''failed to commit tenant tx: ''] (\<lambda>_. ())) d 0 of
        (Inl e, _, _) \<Rightarrow> (Some e, d) | (Inr _, d', _) \<Rightarrow> (None, d'))"

definition then_answer :: "message option \<times> wf_db \<Rightarrow> wf_outcome \<times> wf_db" where
  "then_answer r = (Answers (fst r), snd r)"

definition guarded_by :: "(wf_db, 'a) tx \<Rightarrow> ('a \<Rightarrow> wf_outcome) \<Rightarrow> wf_db \<Rightarrow> wf_outcome \<times> wf_db" where
  "guarded_by g k d = (case g d 0 of (Inl e, _, _) \<Rightarrow> (Answers (Some e), d) | (Inr x, _, _) \<Rightarrow> (k x, d))"

text \<open>The rows that the \<open>UPDATE\<close> of a decision hits, and what it writes to them.\<close>

definition pending_at :: "uuid \<Rightarrow> string \<Rightarrow> wf_db \<Rightarrow> nat list" where
  "pending_at t w d = filter (\<lambda>n. is_pending t w (approvals d ! n)) [0..<length (approvals d)]"

definition mark_at :: "nat list \<Rightarrow> string \<Rightarrow> uuid option \<Rightarrow> timestamp \<Rightarrow> wf_db \<Rightarrow> wf_db" where
  "mark_at hits status who tm d = d\<lparr>approvals := map (\<lambda>n.
     if n \<in> set hits
     then (approvals d ! n)\<lparr>ap_status := status, ap_decided_by := who, ap_decided_at := Some tm\<rparr>
     else approvals d ! n) [0..<length (approvals d)]\<rparr>"

fun wf_statement ::
    "pg \<Rightarrow> env \<Rightarrow> nat list \<Rightarrow> uuid \<Rightarrow> wf_pc \<Rightarrow> wf_db \<Rightarrow> wf_outcome \<times> wf_db" where
  "wf_statement f e held t (Starting cond actor) d = then_answer (commits f
     (tx_then (append_transition f t (workflow_id_of e cond) WORKFLOW_TYPE Running ''start''
         (step_str Contain) (Some actor)
         (JObj [(''condition_id'', JStr (disp e cond)), (''status'', JStr ''contained'')]))
     (tx_then (append_transition f t (workflow_id_of e cond) WORKFLOW_TYPE Running
         (step_str Contain) (step_str Investigate) (Some actor)
         (JObj [(''condition_id'', JStr (disp e cond)), (''status'', JStr ''investigating'')]))
       (tx_return ()))) d)"
| "wf_statement f e held t (Observing w obs) d = then_answer (commits f
     (insert_evidence_in_tx f t w \<lparr>ev_kind = ''observation'', ev_source = ''investigator'',
        ev_captured_at = clock e 0, ev_value = obs\<rparr>) d)"
| "wf_statement f e held t (Proposing w cm why) d =
     guarded_by (require_step f t w Investigate) (\<lambda>_. Goes (ProposeReady w cm why)) d"
| "wf_statement f e held t (ProposeReady w cm why) d =
     (case commits f (tx_then (append_transition f t w WORKFLOW_TYPE AwaitingApproval
         (step_str Investigate) (step_str CountermeasureProposed) None
         (JObj [(''countermeasure'', cm)])) (tx_return ())) d of
        (Some err, d') \<Rightarrow> (Answers (Some err), d') | (None, d') \<Rightarrow> (Goes (Requesting w why), d'))"
| "wf_statement f e held t (Requesting w why) d =
     guarded_by (current_step f t w) (\<lambda>step. case step of
        None \<Rightarrow> Answers (Some [Txt ''workflow '', FStr w, Txt '' has no checkpoint to approve''])
      | Some s \<Rightarrow> Goes (RequestReady w s why)) d"
| "wf_statement f e held t (RequestReady w s why) d = then_answer (commits f
     (tx_stmt f [Txt ''failed to request approval for workflow '', FStr w, Txt '': '']
        (\<lambda>d. Inr ((), d\<lparr>approvals := approvals d @
           [\<lparr>ap_tenant = t, ap_workflow = w, ap_step = s, ap_role = COUNTERMEASURE_APPROVER_ROLE,
             ap_rationale = why, ap_status = ''pending'', ap_decided_by = None,
             ap_decided_at = None\<rparr>]\<rparr>))) d)"
| "wf_statement f e held t (Deciding w yes who az) d =
     guarded_by (tx_query f [Txt ''failed to read pending approval for workflow '', FStr w, Txt '': '']
         (\<lambda>d. map_option ap_role (limit_1 f (filter (is_pending t w) (approvals d)))))
       (\<lambda>required. case required of
          None \<Rightarrow> Answers (Some [Txt ''no pending approval for workflow '', FStr w])
        | Some role \<Rightarrow>
            if role \<notin> set (az_roles az)
            then Answers (Some [Txt ''approver does not hold the required role '', FStr role,
                   Txt '' - required_role is enforced, not descriptive''])
            else Goes (DecideReady w yes who)) d"
| "wf_statement f e held t (DecideReady w yes who) d =
     (let hits = pending_at t w d
      in if list_ex (\<lambda>n. n \<in> set held) hits then (Waits, d)
         else if hits = []
         then (Answers (Some [Txt ''no pending approval for workflow '', FStr w]), d)
         else (Goes (Decided w yes who hits (db_now f)), d))"
| "wf_statement f e held t (Decided w yes who hits tm) d =
     (case latest_row d t w of
        None \<Rightarrow> (Answers (Some [Txt ''failed to read workflow step for the decision: '',
                   FStr (no_row_error f)]), d)
      | Some r \<Rightarrow> (Goes (DecideTyped w yes who hits tm (ck_step r) (ck_type r)), d))"
| "wf_statement f e held t (DecideTyped w yes who hits tm step ty) d = then_answer (commits f
     (tx_then (\<lambda>d n. (Inr (), mark_at hits (if yes then ''approved'' else ''rejected'') who tm d, n))
     (tx_then (append_transition f t w ty (if yes then AwaitingEvidence else Compensated) step
         (if yes then ''countermeasure_approved'' else ''compensated'') who
         (JObj [(''decision'', JStr (if yes then ''approved'' else ''rejected''))]))
       (tx_return ()))) d)"
| "wf_statement f e held t (Verifying w v) d =
     guarded_by (require_step f t w CountermeasureApproved) (\<lambda>_. Goes (VerifyReady w v)) d"
| "wf_statement f e held t (VerifyReady w v) d = then_answer (commits f
     (tx_then (insert_evidence_in_tx f t w \<lparr>ev_kind = ''verification'',
         ev_source = ''quality_engineer'', ev_captured_at = clock e 0, ev_value = v\<rparr>)
     (tx_then (append_transition f t w WORKFLOW_TYPE Running (step_str CountermeasureApproved)
         (step_str Verify) None (JObj [(''status'', JStr ''verified'')]))
       (tx_return ()))) d)"
| "wf_statement f e held t (Closing w actor) d =
     guarded_by (require_step f t w Verify) (\<lambda>_. Goes (CloseApproval w actor)) d"
| "wf_statement f e held t (CloseApproval w actor) d =
     guarded_by (tx_query f [Txt ''failed to read the countermeasure approval: '']
         (\<lambda>d. countermeasure_approved d t w))
       (\<lambda>approved. if \<not> approved
          then Answers (Some [Txt ''close_investigation requires an APPROVED countermeasure approval for workflow '',
                 FStr w, Txt '' (workflow_approvals step 'countermeasure_proposed' status 'approved') - audit item 47''])
          else Goes (CloseEvidence w actor)) d"
| "wf_statement f e held t (CloseEvidence w actor) d =
     guarded_by (tx_query f [Txt ''failed to read verification evidence: '']
         (\<lambda>d. verification_count d t w))
       (\<lambda>count. if count = 0
          then Answers (Some [Txt ''close_investigation requires at least one verification evidence row for workflow '',
                 FStr w, Txt '' (workflow_evidence kind 'verification') - audit item 47''])
          else Goes (CloseReady w actor)) d"
| "wf_statement f e held t (CloseReady w actor) d = then_answer (commits f
     (tx_then (append_transition f t w WORKFLOW_TYPE Completed (step_str Verify) (step_str Closed)
         (Some actor) (JObj [(''status'', JStr ''closed'')])) (tx_return ())) d)"

section \<open>Interleaved calls\<close>

text \<open>
  The tables and the calls in flight, each for a tenant. At any time a call may begin, a call may
  run its next statement under any server and clock, or a call may be lost (a failed statement, a
  dropped connection, a crash), which rolls its transaction back.
\<close>

type_synonym wf_world = "wf_db \<times> (uuid \<times> wf_pc) option list"

datatype wf_event = Begins uuid wf_call | Turn nat | Lost nat

definition in_flight :: "(uuid \<times> wf_pc) option list \<Rightarrow> nat \<Rightarrow> (uuid \<times> wf_pc) option" where
  "in_flight ss s = (if s < length ss then ss ! s else None)"

definition held_by_others :: "(uuid \<times> wf_pc) option list \<Rightarrow> nat \<Rightarrow> nat list" where
  "held_by_others ss s = concat (map (\<lambda>i. case in_flight ss i of
     Some (t, p) \<Rightarrow> if i = s then [] else locks_held p | None \<Rightarrow> []) [0..<length ss])"

fun wf_event_step :: "pg \<Rightarrow> env \<Rightarrow> wf_event \<Rightarrow> wf_world \<Rightarrow> wf_world" where
  "wf_event_step f e (Begins t c) (d, ss) =
     (case entry_point c of None \<Rightarrow> (d, ss) | Some p \<Rightarrow> (d, ss @ [Some (t, p)]))"
| "wf_event_step f e (Lost s) (d, ss) = (d, ss[s := None])"
| "wf_event_step f e (Turn s) (d, ss) =
     (case in_flight ss s of
        None \<Rightarrow> (d, ss)
      | Some (t, p) \<Rightarrow> (case wf_statement f e (held_by_others ss s) t p d of
          (Goes p', d') \<Rightarrow> (d', ss[s := Some (t, p')])
        | (Answers _, d') \<Rightarrow> (d', ss[s := None])
        | (Waits, d') \<Rightarrow> (d', ss)))"

inductive wf_interleaved :: "wf_world \<Rightarrow> bool" where
  init: "wf_interleaved (wf_empty, [])"
| event: "wf_interleaved x \<Longrightarrow> wf_interleaved (wf_event_step f e ev x)"

section \<open>What concurrent calls keep\<close>

definition steps_of :: "wf_db \<Rightarrow> uuid \<Rightarrow> string \<Rightarrow> string list" where
  "steps_of d t w = map ck_step (wf_checkpoints d t w)"

text \<open>Each verify has a decision before it, each closed a verify.\<close>

definition in_order :: "string list \<Rightarrow> bool" where
  "in_order steps \<longleftrightarrow> (\<forall>k < length steps.
     (steps ! k = ''verify'' \<longrightarrow> ''countermeasure_approved'' \<in> set (take k steps))
     \<and> (steps ! k = ''closed'' \<longrightarrow> ''verify'' \<in> set (take k steps)))"

lemma in_order_Nil [simp]: "in_order []"
  by (simp add: in_order_def)

lemma in_order_snoc:
  "in_order (steps @ [x]) \<longleftrightarrow> in_order steps
     \<and> (x = ''verify'' \<longrightarrow> ''countermeasure_approved'' \<in> set steps)
     \<and> (x = ''closed'' \<longrightarrow> ''verify'' \<in> set steps)"
  unfolding in_order_def length_append_singleton All_less_Suc by (auto simp: nth_append)

text \<open>A closed row has its approval and its evidence on record.\<close>

definition backed :: "wf_db \<Rightarrow> checkpoint_row \<Rightarrow> bool" where
  "backed d r \<longleftrightarrow> (ck_step r = ''closed'' \<longrightarrow> countermeasure_approved d (ck_tenant r) (ck_workflow r)
     \<and> verification_count d (ck_tenant r) (ck_workflow r) \<noteq> 0)"

definition tables_ok :: "wf_db \<Rightarrow> bool" where
  "tables_ok d \<longleftrightarrow> history_ok d \<and> (\<forall>t w. in_order (steps_of d t w)) \<and> (\<forall>r \<in> set (checkpoints d). backed d r)
     \<and> (\<forall>a \<in> set (approvals d). ap_role a = COUNTERMEASURE_APPROVER_ROLE)"

text \<open>What a call has read stays true, whoever commits in between.\<close>

fun call_ok :: "wf_db \<Rightarrow> uuid \<Rightarrow> wf_pc \<Rightarrow> bool" where
  "call_ok d t (VerifyReady w v) \<longleftrightarrow> ''countermeasure_approved'' \<in> set (steps_of d t w)"
| "call_ok d t (CloseApproval w actor) \<longleftrightarrow> ''verify'' \<in> set (steps_of d t w)"
| "call_ok d t (CloseEvidence w actor) \<longleftrightarrow>
     ''verify'' \<in> set (steps_of d t w) \<and> countermeasure_approved d t w"
| "call_ok d t (CloseReady w actor) \<longleftrightarrow> ''verify'' \<in> set (steps_of d t w)
     \<and> countermeasure_approved d t w \<and> verification_count d t w \<noteq> 0"
| "call_ok d t (Decided w yes who hits tm) \<longleftrightarrow>
     (\<forall>n \<in> set hits. n < length (approvals d) \<and> is_pending t w (approvals d ! n))"
| "call_ok d t (DecideTyped w yes who hits tm step ty) \<longleftrightarrow>
     (\<forall>n \<in> set hits. n < length (approvals d) \<and> is_pending t w (approvals d ! n))"
| "call_ok d t _ \<longleftrightarrow> True"

definition tables_grow :: "wf_db \<Rightarrow> wf_db \<Rightarrow> bool" where
  "tables_grow d d' \<longleftrightarrow> (\<exists>rs. checkpoints d' = checkpoints d @ rs)
     \<and> (\<forall>t w. countermeasure_approved d t w \<longrightarrow> countermeasure_approved d' t w)
     \<and> (\<forall>t w. verification_count d t w \<le> verification_count d' t w)"

definition untouched :: "nat set \<Rightarrow> wf_db \<Rightarrow> wf_db \<Rightarrow> bool" where
  "untouched H d d' \<longleftrightarrow> length (approvals d) \<le> length (approvals d')
     \<and> (\<forall>n < length (approvals d). n \<notin> H \<longrightarrow> approvals d' ! n = approvals d ! n)"

lemma tables_grow_refl [simp]: "tables_grow d d"
  by (simp add: tables_grow_def)

lemma tables_grow_trans: "tables_grow d d1 \<Longrightarrow> tables_grow d1 d2 \<Longrightarrow> tables_grow d d2"
  unfolding tables_grow_def by (metis append.assoc le_trans)

lemma untouched_refl [simp]: "untouched H d d"
  by (simp add: untouched_def)

lemma untouched_trans: "untouched H d d1 \<Longrightarrow> untouched H d1 d2 \<Longrightarrow> untouched H d d2"
  by (auto simp: untouched_def)

lemma untouched_mono: "untouched H d d' \<Longrightarrow> H \<subseteq> H' \<Longrightarrow> untouched H' d d'"
  by (auto simp: untouched_def)

lemma tables_grow_steps: "tables_grow d d' \<Longrightarrow> s \<in> set (steps_of d t w) \<Longrightarrow> s \<in> set (steps_of d' t w)"
  by (auto simp: tables_grow_def steps_of_def wf_checkpoints_def)

lemma tables_grow_backed: "tables_grow d d' \<Longrightarrow> backed d r \<Longrightarrow> backed d' r"
  unfolding tables_grow_def backed_def by (metis le_zero_eq)

lemma call_ok_stable:
  assumes "call_ok d t p" and "tables_grow d d'" and "untouched H d d'" and "set (locks_held p) \<inter> H = {}"
  shows "call_ok d' t p"
proof -
  have mono: "countermeasure_approved d t w \<Longrightarrow> countermeasure_approved d' t w"
    "verification_count d t w \<noteq> 0 \<Longrightarrow> verification_count d' t w \<noteq> 0" for w
    using assms(2) unfolding tables_grow_def by (blast, metis le_zero_eq)
  have rows: "n < length (approvals d') \<and> is_pending t w (approvals d' ! n)"
    if "n < length (approvals d)" "is_pending t w (approvals d ! n)" "n \<in> set (locks_held p)" for n w
    using that assms(3,4) by (auto simp: untouched_def)
  show ?thesis
    using assms(1) mono rows tables_grow_steps [OF assms(2)] by (cases p) auto
qed

section \<open>The effects of a commit\<close>

lemma commits_effect:
  "commits f body d = (r, d') \<Longrightarrow>
     (r \<noteq> None \<and> d' = d) \<or> (r = None \<and> (\<exists>n. body d 0 = (Inr (), d', n)))"
  by (auto simp: commits_def tx_then_def tx_bind_def tx_query_def tx_stmt_def
      split: prod.splits sum.splits option.splits)

lemma tables_ok_advanced:
  assumes ok: "tables_ok d" and adv: "advanced d d' row"
    and "ck_step row = ''verify'' \<Longrightarrow>
      ''countermeasure_approved'' \<in> set (steps_of d (ck_tenant row) (ck_workflow row))"
    and "ck_step row = ''closed'' \<Longrightarrow> ''verify'' \<in> set (steps_of d (ck_tenant row) (ck_workflow row))
      \<and> countermeasure_approved d (ck_tenant row) (ck_workflow row)
      \<and> verification_count d (ck_tenant row) (ck_workflow row) \<noteq> 0"
  shows "tables_ok d' \<and> tables_grow d d' \<and> untouched {} d d'"
proof -
  have same: "approvals d' = approvals d" "evidences d' = evidences d" "checkpoints d' = checkpoints d @ [row]"
    using adv by (simp_all add: advanced_def)
  have grow: "tables_grow d d'"
    using same by (auto simp: tables_grow_def countermeasure_approved_def verification_count_def)
  have "in_order (steps_of d' t w)" for t w
    using ok assms(3,4) wf_checkpoints_advanced [OF adv, of t w]
    by (auto simp: tables_ok_def steps_of_def in_order_snoc)
  moreover have "backed d' row"
    using assms(4) grow unfolding backed_def tables_grow_def by (metis le_zero_eq)
  ultimately show ?thesis
    using ok grow same history_ok_advanced [OF _ adv]
    by (auto simp: tables_ok_def untouched_def intro: tables_grow_backed)
qed

lemma tables_ok_evidences:
  assumes "tables_ok d"
  shows "tables_ok (add_evidences es d) \<and> tables_grow d (add_evidences es d)
    \<and> untouched {} d (add_evidences es d)"
proof -
  have "tables_grow d (add_evidences es d)"
    by (auto simp: tables_grow_def countermeasure_approved_def verification_count_def)
  then show ?thesis
    using assms by (auto simp: tables_ok_def untouched_def steps_of_def wf_checkpoints_def intro: tables_grow_backed)
qed

lemma tables_ok_request:
  assumes "tables_ok d" and "ap_role a = COUNTERMEASURE_APPROVER_ROLE"
  shows "tables_ok (add_request a d) \<and> tables_grow d (add_request a d) \<and> untouched {} d (add_request a d)"
proof -
  have "tables_grow d (add_request a d)"
    by (auto simp: tables_grow_def countermeasure_approved_def verification_count_def)
  then show ?thesis
    using assms by (auto simp: tables_ok_def untouched_def nth_append steps_of_def wf_checkpoints_def intro: tables_grow_backed)
qed

lemma mark_at_tables [simp]:
  "checkpoints (mark_at hits st who tm d) = checkpoints d"
  "instances (mark_at hits st who tm d) = instances d"
  "evidences (mark_at hits st who tm d) = evidences d"
  "length (approvals (mark_at hits st who tm d)) = length (approvals d)"
  by (simp_all add: mark_at_def)

lemma tables_ok_mark:
  assumes "tables_ok d"
    and "\<forall>n \<in> set hits. n < length (approvals d) \<and> is_pending t w (approvals d ! n)"
  shows "tables_ok (mark_at hits st who tm d) \<and> tables_grow d (mark_at hits st who tm d)
    \<and> untouched (set hits) d (mark_at hits st who tm d)"
proof -
  let ?d = "mark_at hits st who tm d"
  have "countermeasure_approved ?d t' w'" if "countermeasure_approved d t' w'" for t' w'
  proof -
    from that obtain n where n: "n < length (approvals d)" "ap_tenant (approvals d ! n) = t'"
        "ap_workflow (approvals d ! n) = w'" "ap_step (approvals d ! n) = ''countermeasure_proposed''"
        "ap_status (approvals d ! n) = ''approved''"
      by (auto simp: countermeasure_approved_def list_ex_iff in_set_conv_nth)
    then have "n \<notin> set hits" using assms(2) by (auto simp: is_pending_def)
    with n have "approvals ?d ! n = approvals d ! n" by (simp add: mark_at_def)
    with n show ?thesis
      unfolding countermeasure_approved_def list_ex_iff by (metis nth_mem mark_at_tables(4))
  qed
  then have grow: "tables_grow d ?d" by (auto simp: tables_grow_def verification_count_def)
  moreover have "history_ok ?d = history_ok d" by (rule history_ok_cong) simp_all
  ultimately show ?thesis
    using assms(1) by (auto simp: tables_ok_def untouched_def mark_at_def steps_of_def wf_checkpoints_def
      intro: tables_grow_backed)
qed

section \<open>One statement keeps it\<close>

text \<open>The tables after a statement of a call that holds the rows \<open>H\<close>.\<close>

definition moves_to :: "nat set \<Rightarrow> wf_db \<Rightarrow> wf_db \<Rightarrow> bool" where
  "moves_to H d d' \<longleftrightarrow> tables_ok d' \<and> tables_grow d d' \<and> untouched H d d'"

lemma moves_to_refl: "tables_ok d \<Longrightarrow> moves_to H d d"
  by (simp add: moves_to_def)

lemma moves_to_trans: "moves_to H d d1 \<Longrightarrow> moves_to H d1 d2 \<Longrightarrow> moves_to H d d2"
  unfolding moves_to_def using tables_grow_trans untouched_trans by blast

lemma moves_to_append:
  assumes "tables_ok d" and "append_transition f t w ty st s s' actor p d n = (Inr v, d', n')"
    and "s' = ''verify'' \<Longrightarrow> ''countermeasure_approved'' \<in> set (steps_of d t w)"
    and "s' = ''closed'' \<Longrightarrow> ''verify'' \<in> set (steps_of d t w) \<and> countermeasure_approved d t w
      \<and> verification_count d t w \<noteq> 0"
  shows "moves_to H d d'"
  using tables_ok_advanced [OF assms(1) append_transition_advanced [OF assms(2)]] assms(3,4)
  by (auto simp: moves_to_def intro: untouched_mono)

lemma moves_to_evidences: "tables_ok d \<Longrightarrow> moves_to H d (add_evidences es d)"
  using tables_ok_evidences by (auto simp: moves_to_def intro: untouched_mono)

lemma moves_to_request:
  "tables_ok d \<Longrightarrow> ap_role a = COUNTERMEASURE_APPROVER_ROLE \<Longrightarrow> moves_to H d (add_request a d)"
  using tables_ok_request by (auto simp: moves_to_def intro: untouched_mono)

lemma commits_moves:
  assumes "tables_ok d" and "commits f body d = (r, d')"
    and "\<And>n. body d 0 = (Inr (), d', n) \<Longrightarrow> moves_to H d d'"
  shows "moves_to H d d'"
  using commits_effect [OF assms(2)] assms(1,3) moves_to_refl by blast

lemma then_commits_moves:
  assumes "tables_ok d" and "then_answer (commits f body d) = (out, d')"
    and "\<And>n. body d 0 = (Inr (), d', n) \<Longrightarrow> moves_to H d d'"
  shows "moves_to H d d' \<and> (\<exists>r. out = Answers r)"
  using commits_moves [OF assms(1) _ assms(3)] assms(2) by (cases "commits f body d") (auto simp: then_answer_def)

lemma statement_Starting:
  assumes ok: "tables_ok d" and run: "wf_statement f e held t (Starting cond actor) d = (out, d')"
  shows "moves_to H d d' \<and> (\<exists>r. out = Answers r)"
proof (rule then_commits_moves [OF ok run [unfolded wf_statement.simps]], goal_cases)
  case (1 n)
  then obtain u d1 n1 v p p' where
    first: "append_transition f t (workflow_id_of e cond) WORKFLOW_TYPE Running ''start'' ''contain''
      (Some actor) p d 0 = (Inr u, d1, n1)"
    and second: "append_transition f t (workflow_id_of e cond) WORKFLOW_TYPE Running ''contain''
      ''investigate'' (Some actor) p' d1 n1 = (Inr v, d', n)"
    by auto
  have mid: "moves_to H d d1" by (rule moves_to_append [OF ok first]) simp_all
  then have "moves_to H d1 d'"
    by (intro moves_to_append [OF _ second]) (simp_all add: moves_to_def)
  with mid show ?case by (rule moves_to_trans)
qed

lemma statement_Requesting:
  assumes ok: "tables_ok d" and run: "wf_statement f e held t (RequestReady w s why) d = (out, d')"
  shows "moves_to H d d' \<and> (\<exists>r. out = Answers r)"
proof (rule then_commits_moves [OF ok run [unfolded wf_statement.simps]], goal_cases)
  case (1 n)
  then have "d' = add_request (pending_row t w s COUNTERMEASURE_APPROVER_ROLE why) d"
    by (auto simp: add_request_def pending_row_def)
  then show ?case using moves_to_request [OF ok] by (simp add: pending_row_def)
qed

lemma statement_DecideTyped:
  assumes ok: "tables_ok d" and held: "call_ok d t (DecideTyped w yes who hits tm step ty)"
    and run: "wf_statement f e held t (DecideTyped w yes who hits tm step ty) d = (out, d')"
  shows "moves_to (set hits) d d' \<and> (\<exists>r. out = Answers r)"
proof (rule then_commits_moves [OF ok run [unfolded wf_statement.simps]], goal_cases)
  case (1 n)
  let ?d = "mark_at hits (if yes then ''approved'' else ''rejected'') who tm d"
  from ok held have mark: "moves_to (set hits) d ?d"
    using tables_ok_mark [of d hits t w] by (simp add: moves_to_def)
  moreover from 1 obtain v n' where
    "append_transition f t w ty (if yes then AwaitingEvidence else Compensated) step
       (if yes then ''countermeasure_approved'' else ''compensated'') who
       (JObj [(''decision'', JStr (if yes then ''approved'' else ''rejected''))]) ?d 0 = (Inr v, d', n')"
    by auto
  then have "moves_to (set hits) ?d d'"
    by (rule moves_to_append [rotated]) (use mark in \<open>auto simp: moves_to_def split: if_splits\<close>)
  ultimately show ?case by (rule moves_to_trans)
qed

lemma statement_VerifyReady:
  assumes ok: "tables_ok d" and seen: "call_ok d t (VerifyReady w v)"
    and run: "wf_statement f e held t (VerifyReady w v) d = (out, d')"
  shows "moves_to H d d' \<and> (\<exists>r. out = Answers r)"
proof (rule then_commits_moves [OF ok run [unfolded wf_statement.simps]], goal_cases)
  case (1 n)
  then obtain es k m m' where app: "append_transition f t w WORKFLOW_TYPE Running ''countermeasure_approved''
        ''verify'' None (JObj [(''status'', JStr ''verified'')]) (add_evidences es d) m = (Inr k, d', m')"
    by (auto dest!: evidence_effect)
  have mid: "moves_to H d (add_evidences es d)" by (rule moves_to_evidences [OF ok])
  then have "moves_to H (add_evidences es d) d'"
    using app seen by (intro moves_to_append [OF _ app]) (auto simp: moves_to_def intro: tables_grow_steps)
  with mid show ?case by (rule moves_to_trans)
qed

lemma guarded_by_cases:
  assumes "guarded_by g k d = (out, d')"
  shows "d' = d \<and> ((\<exists>e. out = Answers e) \<or> (\<exists>x d1 n. g d 0 = (Inr x, d1, n) \<and> out = k x))"
  using assms by (auto simp: guarded_by_def split: prod.splits sum.splits)

lemma at_step_seen:
  assumes "history_ok d" and "map_option ck_step (latest_row d t w) = Some s"
  shows "s \<in> set (steps_of d t w)"
  using assms latest_row_mem [OF assms(1)] by (auto simp: steps_of_def wf_checkpoints_def)

text \<open>
  The statement of a call that has read the truth: it keeps the tables in order, touches only the
  requests the call has locked, and what the call has read then is true as well; new locks are on
  requests that no other call holds.
\<close>

definition goes_well :: "nat list \<Rightarrow> uuid \<Rightarrow> wf_pc \<Rightarrow> wf_db \<Rightarrow> wf_outcome \<Rightarrow> wf_db \<Rightarrow> bool" where
  "goes_well held t p d out d' \<longleftrightarrow> moves_to (set (locks_held p)) d d'
     \<and> (\<forall>p'. out = Goes p' \<longrightarrow> call_ok d' t p'
          \<and> (set (locks_held p') \<subseteq> set (locks_held p) \<or> set (locks_held p') \<inter> set held = {}))"

lemma goes_well_answers: "moves_to (set (locks_held p)) d d' \<and> (\<exists>r. out = Answers r) \<Longrightarrow> goes_well held t p d out d'"
  by (auto simp: goes_well_def)

lemma goes_well_guard:
  assumes "tables_ok d" and "guarded_by g k d = (out, d')"
    and "\<And>x d1 n p'. g d 0 = (Inr x, d1, n) \<Longrightarrow> k x = Goes p' \<Longrightarrow> call_ok d t p' \<and> locks_held p' = []"
  shows "goes_well held t p d out d'"
  using guarded_by_cases [OF assms(2)] assms(1,3) moves_to_refl by (fastforce simp: goes_well_def)

lemma statement_goes_well:
  assumes ok: "tables_ok d" and seen: "call_ok d t p" and run: "wf_statement f e held t p d = (out, d')"
  shows "goes_well held t p d out d'"
proof (cases p)
  case (Starting cond actor)
  with statement_Starting [OF ok run [unfolded Starting]] show ?thesis by (intro goes_well_answers) simp
next
  case (Observing w obs)
  show ?thesis
    by (rule goes_well_answers, rule then_commits_moves [OF ok run [unfolded Observing wf_statement.simps]])
      (auto dest!: evidence_effect intro: moves_to_evidences [OF ok])
next
  case (Proposing w cm why)
  show ?thesis by (rule goes_well_guard [OF ok run [unfolded Proposing wf_statement.simps]]) auto
next
  case (ProposeReady w cm why)
  let ?body = "tx_then (append_transition f t w WORKFLOW_TYPE AwaitingApproval
         (step_str Investigate) (step_str CountermeasureProposed) None
         (JObj [(''countermeasure'', cm)])) (tx_return ())"
  obtain r d1 where c: "commits f ?body d = (r, d1)" by (cases "commits f ?body d")
  then have "moves_to {} d d1"
    by (rule commits_moves [OF ok]) (auto intro: moves_to_append [OF ok])
  with run c show ?thesis unfolding ProposeReady by (cases r) (auto simp: goes_well_def)
next
  case (Requesting w why)
  show ?thesis by (rule goes_well_guard [OF ok run [unfolded Requesting wf_statement.simps]]) (auto split: option.splits)
next
  case (RequestReady w s why)
  with statement_Requesting [OF ok run [unfolded RequestReady]] show ?thesis by (intro goes_well_answers) simp
next
  case (Deciding w yes who az)
  show ?thesis
    by (rule goes_well_guard [OF ok run [unfolded Deciding wf_statement.simps]]) (auto split: option.splits if_splits)
next
  case (DecideReady w yes who)
  with run moves_to_refl [OF ok] show ?thesis
    by (auto simp: goes_well_def Let_def pending_at_def list_ex_iff split: if_splits)
next
  case (Decided w yes who hits tm)
  with run seen moves_to_refl [OF ok] show ?thesis
    by (auto simp: goes_well_def split: option.splits)
next
  case (DecideTyped w yes who hits tm step ty)
  with statement_DecideTyped [OF ok seen [unfolded DecideTyped] run [unfolded DecideTyped]] show ?thesis
    by (intro goes_well_answers) simp
next
  case (Verifying w v)
  show ?thesis
    by (rule goes_well_guard [OF ok run [unfolded Verifying wf_statement.simps]])
      (use ok at_step_seen in \<open>fastforce simp: tables_ok_def\<close>)
next
  case (VerifyReady w v)
  with statement_VerifyReady [OF ok seen [unfolded VerifyReady] run [unfolded VerifyReady]] show ?thesis
    by (intro goes_well_answers) simp
next
  case (Closing w actor)
  show ?thesis
    by (rule goes_well_guard [OF ok run [unfolded Closing wf_statement.simps]])
      (use ok at_step_seen in \<open>fastforce simp: tables_ok_def\<close>)
next
  case (CloseApproval w actor)
  show ?thesis
    by (rule goes_well_guard [OF ok run [unfolded CloseApproval wf_statement.simps]])
      (use seen CloseApproval in \<open>auto split: if_splits\<close>)
next
  case (CloseEvidence w actor)
  show ?thesis
    by (rule goes_well_guard [OF ok run [unfolded CloseEvidence wf_statement.simps]])
      (use seen CloseEvidence in \<open>auto split: if_splits\<close>)
next
  case (CloseReady w actor)
  show ?thesis
    by (rule goes_well_answers, rule then_commits_moves [OF ok run [unfolded CloseReady wf_statement.simps]])
      (use seen CloseReady in \<open>auto intro: moves_to_append [OF ok]\<close>)
qed

section \<open>Every interleaving\<close>

definition world_ok :: "wf_world \<Rightarrow> bool" where
  "world_ok x \<longleftrightarrow> tables_ok (fst x)
     \<and> (\<forall>s t p. in_flight (snd x) s = Some (t, p) \<longrightarrow> call_ok (fst x) t p)
     \<and> (\<forall>s s' t p t' p'. s \<noteq> s' \<longrightarrow> in_flight (snd x) s = Some (t, p)
          \<longrightarrow> in_flight (snd x) s' = Some (t', p') \<longrightarrow> set (locks_held p) \<inter> set (locks_held p') = {})"

lemma in_flight_simps:
  "in_flight (ss[s := v]) s' = (if s' = s \<and> s < length ss then v else in_flight ss s')"
  "in_flight (ss @ [v]) s' = (if s' = length ss then v else in_flight ss s')"
  by (auto simp: in_flight_def nth_append nth_list_update)

lemma held_by_others_iff:
  "n \<in> set (held_by_others ss s) \<longleftrightarrow> (\<exists>i t p. i \<noteq> s \<and> in_flight ss i = Some (t, p) \<and> n \<in> set (locks_held p))"
proof -
  let ?h = "\<lambda>i. case in_flight ss i of Some (t, p) \<Rightarrow> if i = s then [] else locks_held p | None \<Rightarrow> []"
  have "n \<in> set (?h i) \<longleftrightarrow> (\<exists>t p. i \<noteq> s \<and> in_flight ss i = Some (t, p) \<and> n \<in> set (locks_held p))" for i
    by (cases "in_flight ss i") auto
  moreover have "i < length ss" if "in_flight ss i = Some tp" for i tp
    using that by (auto simp: in_flight_def split: if_splits)
  ultimately show ?thesis unfolding held_by_others_def set_concat set_map set_upt by fastforce
qed

lemma entry_point_fresh: "entry_point c = Some p \<Longrightarrow> locks_held p = [] \<and> call_ok d t p"
  by (cases c) auto

lemma world_ok_end: "world_ok (d, ss) \<Longrightarrow> world_ok (d, ss[s := None])"
  unfolding world_ok_def fst_conv snd_conv in_flight_simps by (auto split: if_splits)

lemma world_ok_statement:
  assumes ok: "world_ok (d, ss)" and at_s: "in_flight ss s = Some (t, p)"
    and run: "wf_statement f e (held_by_others ss s) t p d = (out, d')"
  shows "world_ok (d', ss) \<or> out \<noteq> Waits" and "world_ok (d', ss[s := None])"
    and "out = Goes p' \<Longrightarrow> world_ok (d', ss[s := Some (t, p')])"
proof -
  have tab: "tables_ok d" and seen: "call_ok d t p" using ok at_s by (auto simp: world_ok_def)
  have s: "s < length ss" using at_s by (auto simp: in_flight_def split: if_splits)
  have well: "goes_well (held_by_others ss s) t p d out d'" by (rule statement_goes_well [OF tab seen run])
  then have mv: "tables_ok d'" "tables_grow d d'" "untouched (set (locks_held p)) d d'"
    by (auto simp: goes_well_def moves_to_def)
  have others: "call_ok d' t2 p2" if "in_flight ss i = Some (t2, p2)" "i \<noteq> s" for i t2 p2
    by (rule call_ok_stable [OF _ mv(2,3)]) (use ok at_s that in \<open>auto simp: world_ok_def\<close>)
  show drop: "world_ok (d', ss[s := None])"
    using ok mv(1) others s unfolding world_ok_def fst_conv snd_conv in_flight_simps by (auto split: if_splits)
  show "world_ok (d', ss) \<or> out \<noteq> Waits"
  proof (cases "out = Waits")
    case True
    then have "d' = d"
      using run by (cases p) (auto simp: then_answer_def guarded_by_def Let_def
          split: prod.splits sum.splits option.splits if_splits)
    with ok show ?thesis by simp
  qed simp
  show "world_ok (d', ss[s := Some (t, p')])" if "out = Goes p'"
  proof -
    have mine: "call_ok d' t p'"
      and locks: "set (locks_held p') \<subseteq> set (locks_held p) \<or> set (locks_held p') \<inter> set (held_by_others ss s) = {}"
      using well that by (auto simp: goes_well_def)
    have apart: "set (locks_held p') \<inter> set (locks_held p2) = {}" if i: "in_flight ss i = Some (t2, p2)" "i \<noteq> s" for i t2 p2
      using locks
    proof
      assume "set (locks_held p') \<subseteq> set (locks_held p)"
      moreover have "set (locks_held p) \<inter> set (locks_held p2) = {}"
        using ok at_s i unfolding world_ok_def fst_conv snd_conv by blast
      ultimately show ?thesis by blast
    next
      assume "set (locks_held p') \<inter> set (held_by_others ss s) = {}"
      then show ?thesis using i held_by_others_iff by blast
    qed
    have apart': "set (locks_held p2) \<inter> set (locks_held p') = {}" if "in_flight ss i = Some (t2, p2)" "i \<noteq> s" for i t2 p2
      using apart [OF that] by (simp add: Int_commute)
    show ?thesis
      using ok mv(1) others mine apart apart' s unfolding world_ok_def fst_conv snd_conv in_flight_simps
      by (auto split: if_splits)
  qed
qed

lemma world_ok_event: "world_ok x \<Longrightarrow> world_ok (wf_event_step f e ev x)"
proof (cases x)
  case (Pair d ss)
  assume ok: "world_ok x"
  show ?thesis
  proof (cases ev)
    case (Begins t c)
    show ?thesis
    proof (cases "entry_point c")
      case None
      with ok Pair Begins show ?thesis by simp
    next
      case (Some p)
      with ok entry_point_fresh [OF Some] show ?thesis
        unfolding Pair Begins world_ok_def
        by (auto simp: in_flight_simps)
    qed
  next
    case (Lost s)
    with ok Pair show ?thesis by (simp add: world_ok_end)
  next
    case (Turn s)
    show ?thesis
    proof (cases "in_flight ss s")
      case None
      with ok Pair Turn show ?thesis by simp
    next
      case (Some tp)
      obtain t p where tp: "tp = (t, p)" by (cases tp)
      obtain out d' where run: "wf_statement f e (held_by_others ss s) t p d = (out, d')"
        by (cases "wf_statement f e (held_by_others ss s) t p d")
      note keep = world_ok_statement [OF ok [unfolded Pair] Some [unfolded tp] run]
      show ?thesis
        using keep Some tp run unfolding Pair Turn by (cases out) simp_all
    qed
  qed
qed

lemma interleaved_ok: "wf_interleaved x \<Longrightarrow> world_ok x"
proof (induction rule: wf_interleaved.induct)
  case init
  then show ?case
    by (simp add: world_ok_def tables_ok_def history_ok_empty in_flight_def)
      (simp add: wf_empty_def steps_of_def wf_checkpoints_def)
qed (rule world_ok_event)

section \<open>A call that meets no other\<close>

text \<open>The statements of one call, run until it answers; a call has at most five.\<close>

fun solo :: "pg \<Rightarrow> env \<Rightarrow> uuid \<Rightarrow> nat \<Rightarrow> wf_pc \<Rightarrow> wf_db \<Rightarrow> (message option \<times> wf_db) option" where
  "solo f e t 0 p d = None"
| "solo f e t (Suc k) p d =
     (case wf_statement f e [] t p d of
        (Goes p', d') \<Rightarrow> solo f e t k p' d'
      | (Answers r, d') \<Rightarrow> Some (r, d')
      | (Waits, d') \<Rightarrow> None)"

lemma mark_at_pending:
  "mark_at (pending_at t w d) st who (db_now f) d = snd (mark_decided f t w st who d)"
proof -
  have "map (\<lambda>n. if n \<in> set (pending_at t w d)
      then (approvals d ! n)\<lparr>ap_status := st, ap_decided_by := who, ap_decided_at := Some (db_now f)\<rparr>
      else approvals d ! n) [0..<length (approvals d)]
    = map (\<lambda>a. if is_pending t w a
      then a\<lparr>ap_status := st, ap_decided_by := who, ap_decided_at := Some (db_now f)\<rparr> else a) (approvals d)"
    by (rule nth_equalityI) (auto simp: pending_at_def)
  then show ?thesis by (simp add: mark_at_def mark_decided_def)
qed

lemma pending_at_Nil: "pending_at t w d = [] \<longleftrightarrow> filter (is_pending t w) (approvals d) = []"
  unfolding pending_at_def filter_empty_conv all_set_conv_all_nth by auto

lemma commits_quiet:
  "stmt_error f = (\<lambda>_. None) \<Longrightarrow> commits f body d =
     (case body d 0 of (Inl e, _, _) \<Rightarrow> (Some e, d) | (Inr _, d', _) \<Rightarrow> (None, d'))"
  by (auto simp: commits_def tx_then_def tx_bind_def tx_query_def tx_stmt_no_faults split: prod.splits sum.splits)

lemma append_transition_quiet:
  assumes "stmt_error f = (\<lambda>_. None)" and "0 < n"
  shows "append_transition f t w ty st s s' actor p d n =
    (case append_transition f t w ty st s s' actor p d 0 of (r, d', m) \<Rightarrow> (r, d', m + n))"
  using assms(1)
  by (auto simp: append_transition_def insert_checkpoint_def tx_bind_def tx_then_def tx_stmt_no_faults
      tx_return_def split: prod.splits sum.splits)

lemma append_transition_at:
  assumes "stmt_error f = (\<lambda>_. None)" and "append_transition f t w ty st s s' actor p d 0 = (r, d', m)"
  shows "append_transition f t w ty st s s' actor p d n = (r, d', m + n)"
  using append_transition_quiet [OF assms(1), of n t w ty st s s' actor p d] assms(2) by (cases n) simp_all

lemmas quiet_steps = with_tenant_tx_no_faults tx_stmt_no_faults tx_query_def tx_bind_def tx_then_def
  tx_return_def tx_fail_def

lemma solo_decide:
  assumes quiet: "stmt_error f = (\<lambda>_. None)"
  shows "solo f e t 5 (Deciding w yes who az) d = Some (run_call f e t (DecideApproval w yes who az) d)"
proof (cases "limit_1 f (filter (is_pending t w) (approvals d))")
  case None
  then show ?thesis
    by (simp add: ran_def decide_approval_def guarded_by_def quiet quiet_steps numeral_eq_Suc)
next
  case (Some a)
  then have some: "filter (is_pending t w) (approvals d) \<noteq> []" by (auto simp: limit_1_def)
  then have hits: "pending_at t w d \<noteq> []" by (simp add: pending_at_Nil)
  let ?st = "if yes then ''approved'' else ''rejected''"
  let ?d1 = "mark_at (pending_at t w d) ?st who (db_now f) d"
  have marked: "mark_decided f t w ?st who d = (length (filter (is_pending t w) (approvals d)), ?d1)"
    by (simp add: mark_at_pending) (simp add: mark_decided_def)
  have same: "latest_row ?d1 t w = latest_row d t w"
    by (simp add: mark_at_def)
  show ?thesis
  proof (cases "ap_role a \<in> set (az_roles az)")
    case False
    with Some show ?thesis
      by (simp add: ran_def decide_approval_def guarded_by_def quiet quiet_steps numeral_eq_Suc)
  next
    case role: True
    show ?thesis
    proof (cases "latest_row d t w")
      case None
      with Some role some hits show ?thesis
        by (simp add: ran_def decide_approval_def guarded_by_def quiet quiet_steps numeral_eq_Suc marked same
            Let_def list_ex_iff)
    next
      case (Some r)
      let ?append = "append_transition f t w (ck_type r) (if yes then AwaitingEvidence else Compensated)
         (ck_step r) (if yes then ''countermeasure_approved'' else ''compensated'') who
         (JObj [(''decision'', JStr ?st)])"
      obtain r1 d2 n1 where one: "?append ?d1 0 = (r1, d2, n1)" by (cases "?append ?d1 0")
      have "?append ?d1 n = (r1, d2, n1 + n)" for n by (rule append_transition_at [OF quiet one])
      with \<open>limit_1 f _ = Some a\<close> Some role some hits show ?thesis
        by (cases r1) (simp_all add: ran_def decide_approval_def guarded_by_def then_answer_def commits_quiet
            quiet quiet_steps numeral_eq_Suc marked same Let_def list_ex_iff)
    qed
  qed
qed

text \<open>
  On a server that fails nothing, the statements of a call by itself are \<open>run_call\<close>.
\<close>

theorem solo_call:
  assumes quiet: "stmt_error f = (\<lambda>_. None)" and entry: "entry_point c = Some p"
  shows "solo f e t 5 p d = Some (run_call f e t c d)"
proof (cases c)
  case (CloseInvestigation w actor)
  with entry show ?thesis
    by (auto simp: ran_def close_investigation_def guarded_by_def then_answer_def commits_quiet
        quiet quiet_steps append_transition_quiet require_step_def current_step_def
        numeral_eq_Suc
        split: prod.splits sum.splits option.splits)
next
  case (VerifyCountermeasure w v)
  with entry show ?thesis
    by (auto simp: ran_def verify_countermeasure_def guarded_by_def then_answer_def commits_quiet
        quiet quiet_steps append_transition_quiet require_step_def current_step_def
        insert_evidence_in_tx_def numeral_eq_Suc
        split: prod.splits sum.splits option.splits)
next
  case (StartInvestigation cond actor)
  let ?first = "append_transition f t (workflow_id_of e cond) WORKFLOW_TYPE Running ''start'' ''contain''
    (Some actor) (JObj [(''condition_id'', JStr (disp e cond)), (''status'', JStr ''contained'')])"
  let ?second = "append_transition f t (workflow_id_of e cond) WORKFLOW_TYPE Running ''contain'' ''investigate''
    (Some actor) (JObj [(''condition_id'', JStr (disp e cond)), (''status'', JStr ''investigating'')])"
  obtain r1 d1 n1 where one: "?first d 0 = (r1, d1, n1)" by (cases "?first d 0")
  obtain r2 d2 n2 where two: "?second d1 0 = (r2, d2, n2)" by (cases "?second d1 0")
  have "?first d n = (r1, d1, n1 + n)" "?second d1 n = (r2, d2, n2 + n)" for n
    using append_transition_at [OF quiet one] append_transition_at [OF quiet two] by blast+
  with StartInvestigation entry show ?thesis
    by (cases r1; cases r2) (auto simp: ran_def start_investigation_def then_answer_def commits_quiet
        quiet quiet_steps numeral_eq_Suc)
next
  case (RecordObservation w obs)
  with entry show ?thesis
    by (auto simp: ran_def record_observation_def add_evidence_def then_answer_def commits_quiet
        quiet quiet_steps insert_evidence_in_tx_def numeral_eq_Suc
        split: prod.splits sum.splits option.splits)
next
  case (ProposeCountermeasure w cm why)
  let ?append = "append_transition f t w WORKFLOW_TYPE AwaitingApproval ''investigate''
    ''countermeasure_proposed'' None (JObj [(''countermeasure'', cm)])"
  obtain r1 d1 n1 where one: "?append d 0 = (r1, d1, n1)" by (cases "?append d 0")
  have "?append d n = (r1, d1, n1 + n)" for n by (rule append_transition_at [OF quiet one])
  with ProposeCountermeasure entry show ?thesis
    by (cases r1) (auto simp: ran_def propose_countermeasure_def request_approval_def guarded_by_def
        then_answer_def commits_quiet quiet quiet_steps require_step_def current_step_def numeral_eq_Suc
        split: option.splits sum.splits)
next
  case (DecideApproval w yes who az)
  then show ?thesis using entry solo_decide [OF quiet, of e t w yes who az d] by simp
qed (use entry in \<open>simp_all\<close>)

section \<open>Two closes at once\<close>

text \<open>
  An investigation up to verify, and then two calls of \<open>close_investigation\<close> whose guards all
  run before either writes.
\<close>

definition up_to_verify :: "wf_event list" where
  "up_to_verify = [Begins 1 (StartInvestigation 7 9), Turn 0,
     Begins 1 (ProposeCountermeasure demo_wf JNull ''why''), Turn 1, Turn 1, Turn 1, Turn 1,
     Begins 1 (DecideApproval demo_wf True (Some 8) demo_snapshot), Turn 2, Turn 2, Turn 2, Turn 2,
     Begins 1 (VerifyCountermeasure demo_wf JNull), Turn 3, Turn 3]"

definition two_closes :: "wf_event list" where
  "two_closes = [Begins 1 (CloseInvestigation demo_wf 9), Begins 1 (CloseInvestigation demo_wf 8),
     Turn 4, Turn 4, Turn 4, Turn 5, Turn 5, Turn 5, Turn 4, Turn 5]"

definition events_run :: "wf_event list \<Rightarrow> wf_world" where
  "events_run evs = fold (wf_event_step no_faults demo_env) evs (wf_empty, [])"

lemma events_run_interleaved: "wf_interleaved (events_run evs)"
proof -
  have "wf_interleaved x \<Longrightarrow> wf_interleaved (fold (wf_event_step no_faults demo_env) evs x)" for x
  proof (induction evs arbitrary: x)
    case (Cons ev evs)
    from Cons.IH [OF wf_interleaved.event [OF Cons.prems]] show ?case by simp
  qed simp
  then show ?thesis unfolding events_run_def using wf_interleaved.init .
qed

text \<open>
  Both succeed: the comment of \<open>close_investigation\<close> says that its guard cannot race the
  write because they share a transaction, but the history has two closed checkpoints, the second
  one not behind a verify.
\<close>

lemma both_closes_commit:
  "map ck_step (wf_checkpoints (fst (events_run (up_to_verify @ two_closes))) 1 demo_wf) =
     [''contain'', ''investigate'', ''countermeasure_proposed'', ''countermeasure_approved'',
      ''verify'', ''closed'', ''closed'']"
  by code_simp

section \<open>Closed is earned\<close>

text \<open>
  The numbering of the checkpoints survives concurrency: the instance row is locked from the
  \<open>UPSERT\<close> on.
\<close>

lemma interleaved_history: "wf_interleaved (d, ss) \<Longrightarrow> history_ok d"
  using interleaved_ok by (fastforce simp: world_ok_def tables_ok_def)

text \<open>C1.
  Closed is earned, under concurrency. Any number of calls of the corrective-action functions, of
  any tenants, interleave statement by statement, with guards that read before other calls
  commit, statements that fail and calls that are lost. In every state of the tables that is
  reached so, before each checkpoint closed of a workflow stands a checkpoint verify, and before
  that one a checkpoint countermeasure_approved; and an approved countermeasure request for the
  role quality_engineer and verification evidence, both of the same tenant and workflow, are on
  record. (Not claimed: that verify stands directly before closed. Two closes that overlap both
  commit.)
\<close>

theorem closed_is_earned:
  assumes "wf_interleaved (d, ss)" and "steps = map ck_step (wf_checkpoints d t w)"
    and "k < length steps" and "steps ! k = ''closed''"
  shows "(\<exists>i j. i < j \<and> j < k \<and> steps ! i = ''countermeasure_approved'' \<and> steps ! j = ''verify'')
    \<and> (\<exists>a \<in> set (approvals d). ap_tenant a = t \<and> ap_workflow a = w
          \<and> ap_step a = ''countermeasure_proposed'' \<and> ap_status a = ''approved''
          \<and> ap_role a = ''quality_engineer'')
    \<and> (\<exists>r \<in> set (evidences d). er_tenant r = t \<and> er_workflow r = w
          \<and> ev_kind (er_evidence r) = ''verification'')"
proof -
  have ok: "tables_ok d" using interleaved_ok [OF assms(1)] by (simp add: world_ok_def)
  then have order: "in_order steps" using assms(2) by (simp add: tables_ok_def steps_of_def)
  have "''verify'' \<in> set (take k steps)" using order assms(3,4) by (simp add: in_order_def)
  then obtain j where j: "j < k" "steps ! j = ''verify''" by (auto simp: in_set_conv_nth)
  then have "''countermeasure_approved'' \<in> set (take j steps)" using order assms(3) by (simp add: in_order_def)
  then obtain i where i: "i < j" "steps ! i = ''countermeasure_approved''" by (auto simp: in_set_conv_nth)
  let ?r = "wf_checkpoints d t w ! k"
  have "?r \<in> set (wf_checkpoints d t w)" "ck_step ?r = ''closed''" using assms(2-4) by simp_all
  with ok have "countermeasure_approved d t w" "verification_count d t w \<noteq> 0"
    by (auto simp: tables_ok_def backed_def wf_checkpoints_def)
  moreover have "ap_role a = ''quality_engineer''" if "a \<in> set (approvals d)" for a
    using ok that by (simp add: tables_ok_def COUNTERMEASURE_APPROVER_ROLE_def)
  ultimately show ?thesis
    using i j unfolding approval_on_record [symmetric] verification_on_record [symmetric] by blast
qed

lemma closed_is_earned_witness:
  "\<exists>r \<in> set (evidences (fst (events_run (up_to_verify @ two_closes)))). er_tenant r = 1
     \<and> er_workflow r = demo_wf \<and> ev_kind (er_evidence r) = ''verification''"
  using closed_is_earned [of "fst (events_run (up_to_verify @ two_closes))"
      "snd (events_run (up_to_verify @ two_closes))", OF _ both_closes_commit [symmetric], of 6]
    events_run_interleaved by simp

end
