(* ===== verification/Supply_Types.thy ===== *)
theory Supply_Types
  imports Domain_Events
begin

text \<open>
  The data of the supply-chain service (\<open>sensei-services/src/supply_chain/mod.rs\<close>): its
  documents, stock rows and ledger rows field by field, and the tables, counters and bus handle
  of \<open>InMemorySupplyChainService\<close>.
\<close>

text \<open>A \<open>f64\<close> that is only carried is kept as the number it denotes.\<close>

type_synonym f64 = rat

record rfq_item =
  ri_line_item_id :: "uuid option"
  ri_product_id :: uuid
  ri_product_name :: string
  ri_quantity :: int
  ri_unit_of_measure :: string
  ri_target_price :: "decimal option"

record rfq =
  rq_id :: uuid
  rq_tenant_id :: uuid
  rq_rfq_number :: string
  rq_supplier_id :: uuid
  rq_supplier_name :: string
  rq_status :: string
  rq_items :: "rfq_item list"
  rq_notes :: string
  rq_created_by :: uuid
  rq_created_at :: timestamp

record quote_line_item =
  ql_product_id :: uuid
  ql_product_name :: string
  ql_quantity :: int
  ql_unit_price :: decimal
  ql_discount_percentage :: f64
  ql_net_price :: decimal

record quote =
  qt_id :: uuid
  qt_tenant_id :: uuid
  qt_quote_number :: string
  qt_rfq_id :: "uuid option"
  qt_customer_id :: uuid
  qt_customer_name :: string
  qt_status :: string
  qt_line_items :: "quote_line_item list"
  qt_total_amount :: decimal
  qt_currency :: string
  qt_valid_until :: timestamp
  qt_created_by :: uuid
  qt_created_at :: timestamp

record sales_order_item =
  si_product_id :: uuid
  si_product_name :: string
  si_quantity :: int
  si_unit_price :: decimal
  si_delivered_quantity :: int

record sales_order =
  so_id :: uuid
  so_tenant_id :: uuid
  so_order_number :: string
  so_customer_id :: uuid
  so_customer_name :: string
  so_status :: string
  so_line_items :: "sales_order_item list"
  so_total_amount :: decimal
  so_currency :: string
  so_delivery_date :: "timestamp option"
  so_shipping_address :: string
  so_created_by :: uuid
  so_created_at :: timestamp
  so_fulfilling_site_id :: "uuid option"

record po_item =
  pi_product_id :: uuid
  pi_product_name :: string
  pi_quantity_ordered :: int
  pi_quantity_received :: int
  pi_unit_price :: decimal

record purchase_order =
  po_id :: uuid
  po_tenant_id :: uuid
  po_po_number :: string
  po_supplier_id :: uuid
  po_supplier_name :: string
  po_status :: string
  po_line_items :: "po_item list"
  po_total_amount :: decimal
  po_currency :: string
  po_expected_delivery :: "timestamp option"
  po_created_by :: uuid
  po_created_at :: timestamp
  po_receiving_site_id :: "uuid option"

record inventory_item =
  ii_id :: uuid
  ii_tenant_id :: uuid
  ii_product_id :: uuid
  ii_product_name :: string
  ii_quantity_on_hand :: int
  ii_quantity_reserved :: int
  ii_quantity_available :: int
  ii_location :: string
  ii_lot_number :: "string option"
  ii_reorder_point :: int
  ii_reorder_quantity :: int
  ii_updated_at :: timestamp

record stock_move =
  sm_id :: uuid
  sm_tenant_id :: uuid
  sm_product_id :: uuid
  sm_product_name :: string
  sm_quantity :: int
  sm_move_type :: string
  sm_from_location :: "string option"
  sm_to_location :: string
  sm_reference_type :: "string option"
  sm_reference_id :: "uuid option"
  sm_created_by :: uuid
  sm_created_at :: timestamp
  sm_site_id :: "uuid option"
  sm_status :: string
  sm_reversed_by :: "uuid option"
  sm_reversed_at :: "timestamp option"
  sm_reversal_reason :: "string option"
  sm_reversal_of :: "uuid option"
  sm_reversed_by_move :: "uuid option"

record receive_stock_command =
  rs_product_id :: uuid
  rs_location :: "string option"
  rs_quantity :: int
  rs_lot :: "string option"
  rs_reason :: string

text \<open>The service: each \<open>RwLock\<close> guards one table or counter.\<close>

record supply_state =
  rfqs :: "(uuid, rfq) hmap"
  quotes :: "(uuid, quote) hmap"
  sales_orders :: "(uuid, sales_order) hmap"
  purchase_orders :: "(uuid, purchase_order) hmap"
  inventory :: "(string, inventory_item) hmap"
  stock_moves :: "(uuid, stock_move) hmap"
  rfq_counter :: nat
  quote_counter :: nat
  so_counter :: nat
  po_counter :: nat
  supply_bus :: event_log

definition new_supply :: "event_log \<Rightarrow> supply_state" where
  "new_supply bus = \<lparr>rfqs = [], quotes = [], sales_orders = [], purchase_orders = [],
     inventory = [], stock_moves = [], rfq_counter = 0, quote_counter = 0, so_counter = 0,
     po_counter = 0, supply_bus = bus\<rparr>"

definition supply_publish :: "env \<Rightarrow> uuid \<Rightarrow> event_body \<Rightarrow> supply_state \<Rightarrow> supply_state" where
  "supply_publish e tenant b s = s\<lparr>supply_bus := publish_event (supply_bus s) (new_event e tenant b)\<rparr>"

lemma supply_publish_sel [simp]:
  "rfqs (supply_publish e t b s) = rfqs s" "quotes (supply_publish e t b s) = quotes s"
  "sales_orders (supply_publish e t b s) = sales_orders s"
  "purchase_orders (supply_publish e t b s) = purchase_orders s"
  "inventory (supply_publish e t b s) = inventory s"
  "stock_moves (supply_publish e t b s) = stock_moves s"
  "rfq_counter (supply_publish e t b s) = rfq_counter s"
  "quote_counter (supply_publish e t b s) = quote_counter s"
  "so_counter (supply_publish e t b s) = so_counter s"
  "po_counter (supply_publish e t b s) = po_counter s"
  by (simp_all add: supply_publish_def)

definition generate_rfq_number :: "env \<Rightarrow> nat \<Rightarrow> string" where
  "generate_rfq_number e counter = doc_number ''RFQ'' e counter"

definition generate_quote_number :: "env \<Rightarrow> nat \<Rightarrow> string" where
  "generate_quote_number e counter = doc_number ''QTE'' e counter"

definition generate_so_number :: "env \<Rightarrow> nat \<Rightarrow> string" where
  "generate_so_number e counter = doc_number ''SO'' e counter"

definition generate_po_number :: "env \<Rightarrow> nat \<Rightarrow> string" where
  "generate_po_number e counter = doc_number ''PO'' e counter"

text \<open>The error every lookup by id ends in.\<close>

definition not_found :: "string \<Rightarrow> uuid \<Rightarrow> sensei_error" where
  "not_found what i = NotFound [Txt (what @ '' ''), FId i, Txt '' not found'']"

text \<open>Site scope of an order: refused outright without an entitlement.\<close>

definition no_sales_scope :: sensei_error where
  "no_sales_scope = Forbidden [Txt ''no operational scope - no sales order is authorized'']"

definition no_purchase_scope :: sensei_error where
  "no_purchase_scope = Forbidden [Txt ''no operational scope - no purchase order is authorized'']"

end
