(* ===== verification/Supply_Sales.thy ===== *)
theory Supply_Sales
  imports Supply_Types
begin

text \<open>
  Requests for quotation, quotes and sales orders of \<open>InMemorySupplyChainService\<close>
  (\<open>supply_chain/mod.rs\<close>), one definition per trait method.
\<close>

section \<open>Requests for quotation\<close>

definition create_rfq :: "env \<Rightarrow> uuid \<Rightarrow> rfq \<Rightarrow> (supply_state, rfq) action" where
  "create_rfq e tenant r s =
     (let n = u64_wrap (rfq_counter s + 1);
          r' = r\<lparr>rq_id := fresh e 0, rq_tenant_id := tenant,
                 rq_rfq_number := generate_rfq_number e n, rq_status := ''draft'',
                 rq_created_at := clock e 0\<rparr>;
          s' = s\<lparr>rfq_counter := n, rfqs := hm_insert (rq_id r') r' (rfqs s)\<rparr>
      in (Ok r', supply_publish e tenant
            (RFQCreated (rq_id r') (rq_rfq_number r') (rq_supplier_id r') [] []) s'))"

definition get_rfq :: "uuid \<Rightarrow> uuid \<Rightarrow> supply_state \<Rightarrow> rfq res" where
  "get_rfq tenant i s =
     (case hm_get (rfqs s) i of None \<Rightarrow> Err (not_found ''RFQ'' i) | Some r \<Rightarrow> Ok r)"

definition list_rfqs ::
    "env \<Rightarrow> uuid \<Rightarrow> string option \<Rightarrow> nat option \<Rightarrow> nat option \<Rightarrow> supply_state
      \<Rightarrow> rfq paginated res" where
  "list_rfqs e tenant status page per_page s =
     Ok (paginate (filter (\<lambda>r. rq_tenant_id r = tenant
            \<and> is_none_or status (\<lambda>st. rq_status r = st)) (hm_values (rank e) (rfqs s)))
          page per_page)"

definition update_rfq_status :: "env \<Rightarrow> uuid \<Rightarrow> uuid \<Rightarrow> string \<Rightarrow> (supply_state, rfq) action" where
  "update_rfq_status e tenant i status s =
     (case hm_get (rfqs s) i of
        None \<Rightarrow> (Err (not_found ''RFQ'' i), s)
      | Some r \<Rightarrow> (let r' = r\<lparr>rq_status := status\<rparr>
          in (Ok r', supply_publish e tenant (RFQStatusChanged i (rq_status r) status)
                (s\<lparr>rfqs := hm_insert i r' (rfqs s)\<rparr>))))"

definition update_rfq :: "uuid \<Rightarrow> uuid \<Rightarrow> rfq \<Rightarrow> (supply_state, rfq) action" where
  "update_rfq tenant i new s =
     (case hm_get (rfqs s) i of
        None \<Rightarrow> (Err (not_found ''RFQ'' i), s)
      | Some r \<Rightarrow> (let r' = r\<lparr>rq_supplier_id := rq_supplier_id new,
             rq_supplier_name := rq_supplier_name new, rq_status := rq_status new,
             rq_items := rq_items new, rq_notes := rq_notes new\<rparr>
          in (Ok r', s\<lparr>rfqs := hm_insert i r' (rfqs s)\<rparr>)))"

definition delete_rfq :: "uuid \<Rightarrow> uuid \<Rightarrow> (supply_state, unit) action" where
  "delete_rfq tenant i s =
     (case hm_get (rfqs s) i of
        None \<Rightarrow> (Err (not_found ''RFQ'' i), s)
      | Some r \<Rightarrow> (Ok (), s\<lparr>rfqs := hm_remove i (rfqs s)\<rparr>))"

definition submit_rfq :: "uuid \<Rightarrow> uuid \<Rightarrow> (supply_state, rfq) action" where
  "submit_rfq tenant i s =
     (case hm_get (rfqs s) i of
        None \<Rightarrow> (Err (not_found ''RFQ'' i), s)
      | Some r \<Rightarrow>
          if rq_status r = ''sent'' \<or> rq_status r = ''cancelled'' \<or> rq_status r = ''expired''
          then (Err (Validation [Txt ''Cannot submit RFQ with status: '', FStr (rq_status r)]), s)
          else (let r' = r\<lparr>rq_status := ''sent''\<rparr>
                in (Ok r', s\<lparr>rfqs := hm_insert i r' (rfqs s)\<rparr>)))"

definition cancel_rfq :: "uuid \<Rightarrow> uuid \<Rightarrow> (supply_state, rfq) action" where
  "cancel_rfq tenant i s =
     (case hm_get (rfqs s) i of
        None \<Rightarrow> (Err (not_found ''RFQ'' i), s)
      | Some r \<Rightarrow>
          if rq_status r = ''cancelled'' \<or> rq_status r = ''expired''
          then (Err (Validation [Txt ''Cannot cancel RFQ with status: '', FStr (rq_status r)]), s)
          else (let r' = r\<lparr>rq_status := ''cancelled''\<rparr>
                in (Ok r', s\<lparr>rfqs := hm_insert i r' (rfqs s)\<rparr>)))"

section \<open>Quotes\<close>

definition create_quote :: "env \<Rightarrow> uuid \<Rightarrow> quote \<Rightarrow> (supply_state, quote) action" where
  "create_quote e tenant q s =
     (let n = u64_wrap (quote_counter s + 1);
          q' = q\<lparr>qt_id := fresh e 0, qt_tenant_id := tenant,
                 qt_quote_number := generate_quote_number e n, qt_status := ''draft'',
                 qt_created_at := clock e 0\<rparr>;
          s' = s\<lparr>quote_counter := n, quotes := hm_insert (qt_id q') q' (quotes s)\<rparr>
      in (Ok q', supply_publish e tenant
            (QuoteCreated (qt_id q') (qt_quote_number q')
               (case qt_rfq_id q' of None \<Rightarrow> uuid_nil | Some r \<Rightarrow> r)
               (qt_total_amount q') (qt_currency q')) s'))"

definition get_quote :: "uuid \<Rightarrow> uuid \<Rightarrow> supply_state \<Rightarrow> quote res" where
  "get_quote tenant i s =
     (case hm_get (quotes s) i of None \<Rightarrow> Err (not_found ''Quote'' i) | Some q \<Rightarrow> Ok q)"

definition list_quotes ::
    "env \<Rightarrow> uuid \<Rightarrow> string option \<Rightarrow> nat option \<Rightarrow> nat option \<Rightarrow> supply_state
      \<Rightarrow> quote paginated res" where
  "list_quotes e tenant status page per_page s =
     Ok (paginate (filter (\<lambda>q. qt_tenant_id q = tenant
            \<and> is_none_or status (\<lambda>st. qt_status q = st)) (hm_values (rank e) (quotes s)))
          page per_page)"

definition approve_quote :: "env \<Rightarrow> uuid \<Rightarrow> uuid \<Rightarrow> (supply_state, quote) action" where
  "approve_quote e tenant i s =
     (case hm_get (quotes s) i of
        None \<Rightarrow> (Err (not_found ''Quote'' i), s)
      | Some q \<Rightarrow>
          if qt_status q = ''approved'' then (Err (Validation [Txt ''Quote is already approved'']), s)
          else if qt_status q = ''converted''
          then (Err (Validation
                 [Txt ''Cannot approve a quote that has already been converted to an order'']), s)
          else (let q' = q\<lparr>qt_status := ''approved''\<rparr>
                in (Ok q', supply_publish e tenant (QuoteApproved i uuid_nil (qt_total_amount q))
                      (s\<lparr>quotes := hm_insert i q' (quotes s)\<rparr>))))"

text \<open>One line of the order that a quote turns into.\<close>

definition order_line :: "quote_line_item \<Rightarrow> sales_order_item" where
  "order_line li = \<lparr>si_product_id = ql_product_id li, si_product_name = ql_product_name li,
     si_quantity = ql_quantity li, si_unit_price = ql_net_price li, si_delivered_quantity = 0\<rparr>"

definition convert_quote_to_order ::
    "env \<Rightarrow> uuid \<Rightarrow> uuid \<Rightarrow> uuid \<Rightarrow> (supply_state, sales_order) action" where
  "convert_quote_to_order e tenant i actor s =
     (case hm_get (quotes s) i of
        None \<Rightarrow> (Err (not_found ''Quote'' i), s)
      | Some q \<Rightarrow>
          if qt_status q = ''converted''
          then (Err (Validation [Txt ''Quote has already been converted to an order'']), s)
          else
            (let q' = q\<lparr>qt_status := ''converted''\<rparr>;
                 n = u64_wrap (so_counter s + 1);
                 so = \<lparr>so_id = fresh e 0, so_tenant_id = tenant,
                       so_order_number = generate_so_number e n,
                       so_customer_id = qt_customer_id q', so_customer_name = qt_customer_name q',
                       so_status = ''pending'', so_line_items = map order_line (qt_line_items q'),
                       so_total_amount = qt_total_amount q', so_currency = qt_currency q',
                       so_delivery_date = None, so_shipping_address = [],
                       so_created_by = qt_created_by q', so_created_at = clock e 0,
                       so_fulfilling_site_id = None\<rparr>;
                 s' = s\<lparr>quotes := hm_insert i q' (quotes s), so_counter := n,
                        sales_orders := hm_insert (so_id so) so (sales_orders s)\<rparr>
             in (Ok so, supply_publish e tenant (QuoteConverted i (so_id so)) s')))"

definition update_quote :: "uuid \<Rightarrow> uuid \<Rightarrow> quote \<Rightarrow> (supply_state, quote) action" where
  "update_quote tenant i new s =
     (case hm_get (quotes s) i of
        None \<Rightarrow> (Err (not_found ''Quote'' i), s)
      | Some q \<Rightarrow> (let q' = q\<lparr>qt_rfq_id := qt_rfq_id new, qt_customer_id := qt_customer_id new,
             qt_customer_name := qt_customer_name new, qt_status := qt_status new,
             qt_line_items := qt_line_items new, qt_total_amount := qt_total_amount new,
             qt_currency := qt_currency new, qt_valid_until := qt_valid_until new\<rparr>
          in (Ok q', s\<lparr>quotes := hm_insert i q' (quotes s)\<rparr>)))"

definition delete_quote :: "uuid \<Rightarrow> uuid \<Rightarrow> (supply_state, unit) action" where
  "delete_quote tenant i s =
     (case hm_get (quotes s) i of
        None \<Rightarrow> (Err (not_found ''Quote'' i), s)
      | Some q \<Rightarrow> (Ok (), s\<lparr>quotes := hm_remove i (quotes s)\<rparr>))"

definition submit_quote :: "uuid \<Rightarrow> uuid \<Rightarrow> (supply_state, quote) action" where
  "submit_quote tenant i s =
     (case hm_get (quotes s) i of
        None \<Rightarrow> (Err (not_found ''Quote'' i), s)
      | Some q \<Rightarrow>
          if qt_status q \<noteq> ''draft''
          then (Err (Validation [Txt ''Cannot submit quote with status: '', FStr (qt_status q)]), s)
          else (let q' = q\<lparr>qt_status := ''submitted''\<rparr>
                in (Ok q', s\<lparr>quotes := hm_insert i q' (quotes s)\<rparr>)))"

definition accept_quote :: "uuid \<Rightarrow> uuid \<Rightarrow> (supply_state, quote) action" where
  "accept_quote tenant i s =
     (case hm_get (quotes s) i of
        None \<Rightarrow> (Err (not_found ''Quote'' i), s)
      | Some q \<Rightarrow>
          if qt_status q \<noteq> ''submitted''
          then (Err (Validation [Txt ''Cannot accept quote with status: '', FStr (qt_status q)]), s)
          else (let q' = q\<lparr>qt_status := ''approved''\<rparr>
                in (Ok q', s\<lparr>quotes := hm_insert i q' (quotes s)\<rparr>)))"

definition reject_quote :: "uuid \<Rightarrow> uuid \<Rightarrow> (supply_state, quote) action" where
  "reject_quote tenant i s =
     (case hm_get (quotes s) i of
        None \<Rightarrow> (Err (not_found ''Quote'' i), s)
      | Some q \<Rightarrow>
          if qt_status q \<noteq> ''submitted''
          then (Err (Validation [Txt ''Cannot reject quote with status: '', FStr (qt_status q)]), s)
          else (let q' = q\<lparr>qt_status := ''rejected''\<rparr>
                in (Ok q', s\<lparr>quotes := hm_insert i q' (quotes s)\<rparr>)))"


section \<open>Sales orders\<close>

text \<open>\<open>authorized_sites.contains\<close> on the fulfilling site, for a read (\<open>is_none_or\<close>)
  and for a mutation (\<open>is_some_and\<close>).\<close>

definition so_readable :: "uuid \<Rightarrow> uuid list \<Rightarrow> sales_order \<Rightarrow> bool" where
  "so_readable tenant sites so \<longleftrightarrow> so_tenant_id so = tenant
     \<and> is_none_or (so_fulfilling_site_id so) (\<lambda>site. site \<in> set sites)"

definition so_owned :: "uuid list \<Rightarrow> sales_order \<Rightarrow> bool" where
  "so_owned sites so \<longleftrightarrow> is_some_and (so_fulfilling_site_id so) (\<lambda>site. site \<in> set sites)"

definition create_sales_order :: "env \<Rightarrow> uuid \<Rightarrow> sales_order \<Rightarrow> (supply_state, sales_order) action" where
  "create_sales_order e tenant o1 s =
     (let n = u64_wrap (so_counter s + 1);
          o' = o1\<lparr>so_id := fresh e 0, so_tenant_id := tenant,
                 so_order_number := generate_so_number e n, so_status := ''pending'',
                 so_created_at := clock e 0\<rparr>;
          s' = s\<lparr>so_counter := n, sales_orders := hm_insert (so_id o') o' (sales_orders s)\<rparr>
      in (Ok o', supply_publish e tenant
            (SalesOrderCreated (so_id o') (so_order_number o') (so_customer_id o')
               (so_total_amount o') (so_currency o')) s'))"

definition get_sales_order :: "uuid \<Rightarrow> uuid \<Rightarrow> supply_state \<Rightarrow> sales_order res" where
  "get_sales_order tenant i s =
     (case hm_get (sales_orders s) i of
        None \<Rightarrow> Err (not_found ''Sales order'' i) | Some so \<Rightarrow> Ok so)"

definition get_sales_order_scoped ::
    "uuid \<Rightarrow> uuid list \<Rightarrow> uuid \<Rightarrow> supply_state \<Rightarrow> sales_order res" where
  "get_sales_order_scoped tenant sites i s =
     (if sites = [] then Err no_sales_scope
      else case hm_get (sales_orders s) i of
        None \<Rightarrow> Err (not_found ''Sales order'' i)
      | Some so \<Rightarrow> if so_readable tenant sites so then Ok so
                   else Err (not_found ''Sales order'' i))"

definition list_sales_orders ::
    "env \<Rightarrow> uuid \<Rightarrow> string option \<Rightarrow> nat option \<Rightarrow> nat option \<Rightarrow> supply_state
      \<Rightarrow> sales_order paginated res" where
  "list_sales_orders e tenant status page per_page s =
     Ok (paginate (filter (\<lambda>so. so_tenant_id so = tenant
            \<and> is_none_or status (\<lambda>st. so_status so = st)) (hm_values (rank e) (sales_orders s)))
          page per_page)"

definition list_sales_orders_scoped ::
    "env \<Rightarrow> uuid \<Rightarrow> uuid list \<Rightarrow> string option \<Rightarrow> nat option \<Rightarrow> nat option \<Rightarrow> supply_state
      \<Rightarrow> sales_order paginated res" where
  "list_sales_orders_scoped e tenant sites status page per_page s =
     Ok (paginate (filter (\<lambda>so. so_readable tenant sites so
            \<and> is_none_or status (\<lambda>st. so_status so = st)) (hm_values (rank e) (sales_orders s)))
          page per_page)"

definition update_sales_order_status ::
    "uuid \<Rightarrow> uuid list \<Rightarrow> uuid \<Rightarrow> string \<Rightarrow> (supply_state, sales_order) action" where
  "update_sales_order_status tenant sites i status s =
     (if sites = [] then (Err no_sales_scope, s)
      else case hm_get (sales_orders s) i of
        None \<Rightarrow> (Err (not_found ''Sales order'' i), s)
      | Some so \<Rightarrow>
          if \<not> so_owned sites so then (Err (not_found ''Sales order'' i), s)
          else (let so' = so\<lparr>so_status := status\<rparr>
                in (Ok so', s\<lparr>sales_orders := hm_insert i so' (sales_orders s)\<rparr>)))"

definition assign_fulfillment_site ::
    "uuid \<Rightarrow> uuid list \<Rightarrow> uuid \<Rightarrow> uuid \<Rightarrow> (supply_state, sales_order) action" where
  "assign_fulfillment_site tenant sites i site s =
     (if sites = [] then (Err no_sales_scope, s)
      else case hm_get (sales_orders s) i of
        None \<Rightarrow> (Err (not_found ''Sales order'' i), s)
      | Some so \<Rightarrow>
          if so_tenant_id so \<noteq> tenant then (Err (not_found ''Sales order'' i), s)
          else (case so_fulfilling_site_id so of
            Some existing \<Rightarrow>
              if existing \<notin> set sites then (Err (not_found ''Sales order'' i), s)
              else if existing \<noteq> site
              then (Err (Validation [Txt ''sales order '', FId i,
                      Txt '' already names fulfilling site '', FId existing,
                      Txt '' - the fulfilling site is immutable'']), s)
              else (Ok so, s)
          | None \<Rightarrow>
              if site \<notin> set sites then (Err (not_found ''Sales order'' i), s)
              else (let so' = so\<lparr>so_fulfilling_site_id := Some site\<rparr>
                    in (Ok so', s\<lparr>sales_orders := hm_insert i so' (sales_orders s)\<rparr>))))"

definition confirm_sales_order_with_site ::
    "uuid \<Rightarrow> uuid list \<Rightarrow> uuid \<Rightarrow> uuid \<Rightarrow> (supply_state, sales_order) action" where
  "confirm_sales_order_with_site tenant sites i site s =
     (case assign_fulfillment_site tenant sites i site s of
        (Inl err, s') \<Rightarrow> (Err err, s')
      | (Inr so, s') \<Rightarrow> update_sales_order_status tenant sites i ''confirmed'' s')"

definition update_sales_order ::
    "uuid \<Rightarrow> uuid list \<Rightarrow> uuid \<Rightarrow> sales_order \<Rightarrow> (supply_state, sales_order) action" where
  "update_sales_order tenant sites i new s =
     (if sites = [] then (Err no_sales_scope, s)
      else case hm_get (sales_orders s) i of
        None \<Rightarrow> (Err (not_found ''SalesOrder'' i), s)
      | Some so \<Rightarrow>
          if \<not> (so_tenant_id so = tenant \<and> so_owned sites so)
          then (Err (not_found ''SalesOrder'' i), s)
          else (let so' = so\<lparr>so_customer_id := so_customer_id new,
                  so_customer_name := so_customer_name new, so_status := so_status new,
                  so_line_items := so_line_items new, so_total_amount := so_total_amount new,
                  so_currency := so_currency new, so_delivery_date := so_delivery_date new,
                  so_shipping_address := so_shipping_address new\<rparr>
                in (Ok so', s\<lparr>sales_orders := hm_insert i so' (sales_orders s)\<rparr>)))"

definition delete_sales_order :: "uuid \<Rightarrow> uuid list \<Rightarrow> uuid \<Rightarrow> (supply_state, unit) action" where
  "delete_sales_order tenant sites i s =
     (if sites = [] then (Err no_sales_scope, s)
      else if \<not> is_some_and (hm_get (sales_orders s) i)
                  (\<lambda>so. so_tenant_id so = tenant \<and> so_owned sites so)
      then (Err (not_found ''SalesOrder'' i), s)
      else (Ok (), s\<lparr>sales_orders := hm_remove i (sales_orders s)\<rparr>))"

end
