(* ===== verification/Supply_Stock.thy ===== *)
theory Supply_Stock
  imports Supply_Types
begin

text \<open>
  Inventory and the stock ledger of \<open>InMemorySupplyChainService\<close>
  (\<open>supply_chain/mod.rs\<close>): the upsert of a stock row, adjustments, stock moves and their
  reversal, manual receipts, and the site-entitled variants, which fail closed.
\<close>

section \<open>Inventory rows\<close>

definition inventory_key :: "env \<Rightarrow> uuid \<Rightarrow> uuid \<Rightarrow> string \<Rightarrow> string" where
  "inventory_key e tenant product location =
     disp e tenant @ '':'' @ disp e product @ '':'' @ location"

definition location_id :: "env \<Rightarrow> uuid \<Rightarrow> string \<Rightarrow> uuid" where
  "location_id e tenant location = v5_oid e (disp e tenant @ '':'' @ location)"

definition resolve_stock_location :: "env \<Rightarrow> uuid \<Rightarrow> uuid \<Rightarrow> supply_state \<Rightarrow> string" where
  "resolve_stock_location e tenant product s =
     (case filter (\<lambda>i. ii_tenant_id i = tenant \<and> ii_product_id i = product)
             (hm_values (rank e) (inventory s)) of
        [] \<Rightarrow> ''default'' | i # _ \<Rightarrow> ii_location i)"

text \<open>
  The upsert. The index names the call's position among the fresh ids and instants; all
  arithmetic is that of \<open>i64\<close>.
\<close>

definition apply_inventory_delta ::
    "env \<Rightarrow> nat \<Rightarrow> uuid \<Rightarrow> uuid \<Rightarrow> string \<Rightarrow> string \<Rightarrow> int \<Rightarrow> supply_state
      \<Rightarrow> inventory_item \<times> supply_state" where
  "apply_inventory_delta e k tenant product name location delta s =
     (let key = inventory_key e tenant product location
      in case hm_get (inventory s) key of
        Some old \<Rightarrow>
          (let on_hand = max (i64_add (ii_quantity_on_hand old) delta) 0;
               item = old\<lparr>ii_quantity_on_hand := on_hand,
                 ii_quantity_available := max (i64_sub on_hand (ii_quantity_reserved old)) 0,
                 ii_updated_at := clock e k\<rparr>
           in (item, s\<lparr>inventory := hm_insert key item (inventory s)\<rparr>))
      | None \<Rightarrow>
          (let item = \<lparr>ii_id = fresh e k, ii_tenant_id = tenant, ii_product_id = product,
                 ii_product_name = name, ii_quantity_on_hand = max delta 0,
                 ii_quantity_reserved = 0, ii_quantity_available = max delta 0,
                 ii_location = location, ii_lot_number = None, ii_reorder_point = 0,
                 ii_reorder_quantity = 0, ii_updated_at = clock e k\<rparr>
           in (item, s\<lparr>inventory := hm_insert key item (inventory s)\<rparr>)))"

definition add_stock ::
    "env \<Rightarrow> nat \<Rightarrow> uuid \<Rightarrow> uuid \<Rightarrow> string \<Rightarrow> string \<Rightarrow> int \<Rightarrow> supply_state \<Rightarrow> supply_state" where
  "add_stock e k tenant product name location delta s =
     snd (apply_inventory_delta e k tenant product name location delta s)"

definition get_inventory :: "env \<Rightarrow> uuid \<Rightarrow> uuid \<Rightarrow> supply_state \<Rightarrow> inventory_item list res" where
  "get_inventory e tenant product s =
     Ok (filter (\<lambda>i. ii_tenant_id i = tenant \<and> ii_product_id i = product)
          (hm_values (rank e) (inventory s)))"

definition list_inventory ::
    "env \<Rightarrow> uuid \<Rightarrow> string option \<Rightarrow> nat option \<Rightarrow> nat option \<Rightarrow> supply_state
      \<Rightarrow> inventory_item paginated res" where
  "list_inventory e tenant location page per_page s =
     Ok (paginate (filter (\<lambda>i. ii_tenant_id i = tenant
            \<and> is_none_or location (\<lambda>loc. ii_location i = loc)) (hm_values (rank e) (inventory s)))
          page per_page)"

definition inventory_missing :: "uuid \<Rightarrow> string \<Rightarrow> sensei_error" where
  "inventory_missing product location =
     NotFound [Txt ''Inventory for product '', FId product, Txt ('' at location '' @ [CHR 0x27]),
               FStr location, Txt (CHR 0x27 # '' not found'')]"

definition adjust_inventory ::
    "env \<Rightarrow> uuid \<Rightarrow> uuid \<Rightarrow> string \<Rightarrow> int \<Rightarrow> string \<Rightarrow> (supply_state, inventory_item) action"
where
  "adjust_inventory e tenant product location change reason s =
     (let key = inventory_key e tenant product location
      in case hm_get (inventory s) key of
        None \<Rightarrow> (Err (inventory_missing product location), s)
      | Some old \<Rightarrow>
          (let on_hand = max (i64_add (ii_quantity_on_hand old) change) 0;
               item = old\<lparr>ii_quantity_on_hand := on_hand,
                 ii_quantity_available := max (i64_sub on_hand (ii_quantity_reserved old)) 0\<rparr>
           in (Ok item, s\<lparr>inventory := hm_insert key item (inventory s)\<rparr>)))"

text \<open>The two mutations that find a row by its id, in the order of iteration; the key found is in
  the table, so the inner lookup (an \<open>unwrap\<close>) always answers.\<close>

definition inventory_key_of :: "env \<Rightarrow> uuid \<Rightarrow> supply_state \<Rightarrow> string option" where
  "inventory_key_of e i s =
     map_option fst (find (\<lambda>p. ii_id (snd p) = i) (hm_entries (rank e) (inventory s)))"

definition update_inventory ::
    "env \<Rightarrow> uuid \<Rightarrow> uuid \<Rightarrow> inventory_item \<Rightarrow> (supply_state, inventory_item) action" where
  "update_inventory e tenant i new s =
     (case inventory_key_of e i s of
        None \<Rightarrow> (Err (not_found ''InventoryItem'' i), s)
      | Some key \<Rightarrow> (case hm_get (inventory s) key of
            None \<Rightarrow> (Err (not_found ''InventoryItem'' i), s)
          | Some old \<Rightarrow>
              (let item = old\<lparr>ii_quantity_on_hand := ii_quantity_on_hand new,
                     ii_quantity_reserved := ii_quantity_reserved new,
                     ii_quantity_available := ii_quantity_available new,
                     ii_location := ii_location new, ii_lot_number := ii_lot_number new,
                     ii_reorder_point := ii_reorder_point new,
                     ii_reorder_quantity := ii_reorder_quantity new\<rparr>
               in (Ok item, s\<lparr>inventory := hm_insert key item (inventory s)\<rparr>))))"

definition delete_inventory :: "env \<Rightarrow> uuid \<Rightarrow> uuid \<Rightarrow> (supply_state, unit) action" where
  "delete_inventory e tenant i s =
     (case inventory_key_of e i s of
        None \<Rightarrow> (Err (not_found ''InventoryItem'' i), s)
      | Some key \<Rightarrow> (Ok (), s\<lparr>inventory := hm_remove key (inventory s)\<rparr>))"


section \<open>Stock moves\<close>

definition create_stock_move :: "env \<Rightarrow> uuid \<Rightarrow> stock_move \<Rightarrow> (supply_state, stock_move) action" where
  "create_stock_move e tenant m s =
     (let m' = m\<lparr>sm_id := if sm_id m = uuid_nil then fresh e 0 else sm_id m,
            sm_tenant_id := tenant, sm_created_at := clock e 0, sm_site_id := None,
            sm_status := ''posted'', sm_reversed_by := None, sm_reversed_at := None,
            sm_reversal_reason := None, sm_reversal_of := None, sm_reversed_by_move := None\<rparr>;
          product = sm_product_id m'; name = sm_product_name m'; q = sm_quantity m';
          s1 = (if sm_move_type m' = ''receipt''
                then add_stock e 1 tenant product name (sm_to_location m') q s
                else if sm_move_type m' = ''delivery''
                then add_stock e 1 tenant product name
                       (case sm_from_location m' of Some from_loc \<Rightarrow> from_loc
                        | None \<Rightarrow> resolve_stock_location e tenant product s) (i64_neg q) s
                else if sm_move_type m' = ''transfer''
                then add_stock e 2 tenant product name (sm_to_location m') q
                       (case sm_from_location m' of None \<Rightarrow> s
                        | Some from_loc \<Rightarrow>
                            add_stock e 1 tenant product name from_loc (i64_neg q) s)
                else if sm_move_type m' = ''adjustment''
                then add_stock e 1 tenant product name
                       (case sm_from_location m' of Some from_loc \<Rightarrow> from_loc
                        | None \<Rightarrow> sm_to_location m') q s
                else s);
          s2 = s1\<lparr>stock_moves := hm_insert (sm_id m') m' (stock_moves s1)\<rparr>;
          from_id = (case sm_from_location m' of None \<Rightarrow> uuid_nil
                     | Some l \<Rightarrow> location_id e tenant l);
          to_id = (if sm_to_location m' = [] then uuid_nil
                   else location_id e tenant (sm_to_location m'))
      in (Ok m', supply_publish e tenant
            (StockMoveCreated (sm_id m') product (i64_as_f64 q) from_id to_id (sm_move_type m')) s2))"

definition list_stock_moves ::
    "env \<Rightarrow> uuid \<Rightarrow> uuid option \<Rightarrow> nat option \<Rightarrow> nat option \<Rightarrow> supply_state
      \<Rightarrow> stock_move paginated res" where
  "list_stock_moves e tenant product page per_page s =
     Ok (paginate (filter (\<lambda>m. sm_tenant_id m = tenant
            \<and> is_none_or product (\<lambda>p. sm_product_id m = p)) (hm_values (rank e) (stock_moves s)))
          page per_page)"

definition list_stock_moves_scoped ::
    "uuid \<Rightarrow> uuid list \<Rightarrow> uuid option \<Rightarrow> nat option \<Rightarrow> nat option \<Rightarrow> supply_state
      \<Rightarrow> stock_move paginated res" where
  "list_stock_moves_scoped tenant sites product page per_page s = Ok (paginate [] page per_page)"

text \<open>
  The type and the mirror locations of a compensating move, and the inventory effect of a
  reversal. Both match on the original's move type.
\<close>

definition compensation_of :: "stock_move \<Rightarrow> string \<times> string option \<times> string" where
  "compensation_of m =
     (if sm_move_type m = ''receipt'' then (''issue'', Some (sm_to_location m), [])
      else if sm_move_type m = ''issue'' \<or> sm_move_type m = ''delivery''
      then (''receipt'', None, (case sm_from_location m of None \<Rightarrow> [] | Some l \<Rightarrow> l))
      else if sm_move_type m = ''transfer''
      then (''transfer'', Some (sm_to_location m),
            (case sm_from_location m of None \<Rightarrow> [] | Some l \<Rightarrow> l))
      else (''issue'', Some (sm_to_location m), []))"

definition undo_stock :: "env \<Rightarrow> uuid \<Rightarrow> stock_move \<Rightarrow> supply_state \<Rightarrow> supply_state" where
  "undo_stock e tenant m s =
     (let product = sm_product_id m; name = sm_product_name m; q = sm_quantity m
      in if sm_move_type m = ''receipt''
         then add_stock e 1 tenant product name (sm_to_location m) (i64_neg q) s
         else if sm_move_type m = ''issue'' \<or> sm_move_type m = ''delivery''
         then (case sm_from_location m of None \<Rightarrow> s
               | Some from_loc \<Rightarrow> add_stock e 1 tenant product name from_loc q s)
         else if sm_move_type m = ''transfer''
         then add_stock e 2 tenant product name (sm_to_location m) (i64_neg q)
                (case sm_from_location m of None \<Rightarrow> s
                 | Some from_loc \<Rightarrow> add_stock e 1 tenant product name from_loc q s)
         else s)"

text \<open>
  The original row is looked up again after the compensating one is stored; the
  \<open>expect\<close> on it cannot fail, since no row was removed.
\<close>

definition mark_reversed :: "uuid \<Rightarrow> timestamp \<Rightarrow> string \<Rightarrow> uuid \<Rightarrow> stock_move \<Rightarrow> stock_move" where
  "mark_reversed actor now reason cid m =
     m\<lparr>sm_status := ''reversed'', sm_reversed_by := Some actor, sm_reversed_at := Some now,
       sm_reversal_reason := Some reason, sm_reversed_by_move := Some cid\<rparr>"

definition compensating_row :: "env \<Rightarrow> stock_move \<Rightarrow> uuid \<Rightarrow> string \<Rightarrow> stock_move" where
  "compensating_row e m actor reason =
     (case compensation_of m of (ctype, cfrom, cto) \<Rightarrow>
        \<lparr>sm_id = fresh e 3, sm_tenant_id = sm_tenant_id m, sm_product_id = sm_product_id m,
         sm_product_name = sm_product_name m, sm_quantity = sm_quantity m, sm_move_type = ctype,
         sm_from_location = cfrom, sm_to_location = cto, sm_reference_type = Some ''reversal'',
         sm_reference_id = Some (sm_id m), sm_created_by = actor, sm_created_at = clock e 0,
         sm_site_id = None, sm_status = ''posted'', sm_reversed_by = Some actor,
         sm_reversed_at = Some (clock e 0), sm_reversal_reason = Some reason,
         sm_reversal_of = Some (sm_id m), sm_reversed_by_move = None\<rparr>)"

definition reverse_stock_move ::
    "env \<Rightarrow> uuid \<Rightarrow> uuid list \<Rightarrow> uuid \<Rightarrow> uuid \<Rightarrow> string \<Rightarrow> (supply_state, unit) action" where
  "reverse_stock_move e tenant sites i actor reason s =
     (if sites \<noteq> [] then (Err (not_found ''StockMove'' i), s)
      else if trim reason = []
      then (Err (Validation [Txt ''A stock move reversal requires a reason'']), s)
      else case hm_get (stock_moves s) i of
        None \<Rightarrow> (Err (not_found ''StockMove'' i), s)
      | Some m \<Rightarrow>
          if sm_status m = ''reversed'' then (Err (not_found ''StockMove'' i), s)
          else
            (let s1 = undo_stock e tenant m s;
                 row = compensating_row e m actor (trim reason);
                 moves = hm_insert (sm_id row) row (stock_moves s1)
             in (Ok (), s1\<lparr>stock_moves := (case hm_get moves i of None \<Rightarrow> moves
                   | Some m' \<Rightarrow> hm_insert i
                       (mark_reversed actor (clock e 0) (trim reason) (sm_id row) m') moves)\<rparr>)))"

section \<open>Manual receipts\<close>

definition receive_stock ::
    "env \<Rightarrow> uuid \<Rightarrow> uuid list \<Rightarrow> receive_stock_command \<Rightarrow> (supply_state, stock_move) action" where
  "receive_stock e tenant sites req s =
     (if rs_quantity req \<le> 0
      then (Err (Validation [Txt ''Stock move quantity must be positive'']), s)
      else if trim (rs_reason req) = []
      then (Err (Validation [Txt ''A manual stock receipt requires a reason'']), s)
      else
        (let i = fresh e 0;
             resolved = resolve_stock_location e tenant (rs_product_id req) s;
             location = (case rs_location req of None \<Rightarrow> resolved
                | Some l \<Rightarrow> if trim l \<noteq> [] then trim l else resolved);
             name = (case find (\<lambda>r. ii_tenant_id r = tenant \<and> ii_product_id r = rs_product_id req
                            \<and> ii_location r = location) (hm_values (rank e) (inventory s)) of
                       None \<Rightarrow> ''Product'' | Some r \<Rightarrow> ii_product_name r);
             s1 = add_stock e 1 tenant (rs_product_id req) name location (rs_quantity req) s;
             row = \<lparr>sm_id = i, sm_tenant_id = tenant, sm_product_id = rs_product_id req,
                    sm_product_name = name, sm_quantity = rs_quantity req,
                    sm_move_type = ''receipt'', sm_from_location = None,
                    sm_to_location = location, sm_reference_type = Some ''manual_receipt'',
                    sm_reference_id = None, sm_created_by = uuid_nil, sm_created_at = clock e 2,
                    sm_site_id = None, sm_status = ''posted'', sm_reversed_by = None,
                    sm_reversed_at = None, sm_reversal_reason = None, sm_reversal_of = None,
                    sm_reversed_by_move = None\<rparr>
         in (Ok row, supply_publish e tenant
               (StockMoveCreated i (rs_product_id req) (i64_as_f64 (rs_quantity req)) uuid_nil
                  (location_id e tenant location) ''receipt'')
               (s1\<lparr>stock_moves := hm_insert i row (stock_moves s1)\<rparr>))))"

section \<open>Site-entitled variants\<close>

definition get_inventory_scoped ::
    "uuid \<Rightarrow> uuid list \<Rightarrow> uuid \<Rightarrow> supply_state \<Rightarrow> inventory_item list res" where
  "get_inventory_scoped tenant sites product s = Ok []"

definition list_inventory_scoped ::
    "uuid \<Rightarrow> uuid list \<Rightarrow> string option \<Rightarrow> nat option \<Rightarrow> nat option \<Rightarrow> supply_state
      \<Rightarrow> inventory_item paginated res" where
  "list_inventory_scoped tenant sites location page per_page s = Ok (paginate [] page per_page)"

definition adjust_inventory_scoped ::
    "uuid \<Rightarrow> uuid list \<Rightarrow> uuid \<Rightarrow> string \<Rightarrow> int \<Rightarrow> string \<Rightarrow> (supply_state, inventory_item) action"
where
  "adjust_inventory_scoped tenant sites product location change reason s =
     (Err (inventory_missing product location), s)"

definition create_stock_move_scoped ::
    "uuid \<Rightarrow> uuid list \<Rightarrow> stock_move \<Rightarrow> (supply_state, stock_move) action" where
  "create_stock_move_scoped tenant sites m s =
     (Err (NotFound [Txt ''No inventory row of product '', FId (sm_product_id m),
        Txt ('' is inside the caller'' @ CHR 0x27 # ''s site scope'')]), s)"

definition update_inventory_scoped ::
    "uuid \<Rightarrow> uuid list \<Rightarrow> uuid \<Rightarrow> inventory_item \<Rightarrow> (supply_state, inventory_item) action" where
  "update_inventory_scoped tenant sites i new s = (Err (not_found ''InventoryItem'' i), s)"

definition delete_inventory_scoped :: "uuid \<Rightarrow> uuid list \<Rightarrow> uuid \<Rightarrow> (supply_state, unit) action" where
  "delete_inventory_scoped tenant sites i s = (Err (not_found ''InventoryItem'' i), s)"


section \<open>What the stock rows promise\<close>

text \<open>
  The quantity on hand at a place, the quantity on hand of a product over all places, and the
  state of a well-kept table: every row stored under the key of its own tenant, product and
  location, with non-negative quantities and the available quantity derived from the others.
\<close>

definition level :: "env \<Rightarrow> uuid \<Rightarrow> uuid \<Rightarrow> string \<Rightarrow> supply_state \<Rightarrow> int" where
  "level e tenant product location s =
     (case hm_get (inventory s) (inventory_key e tenant product location) of
        None \<Rightarrow> 0 | Some i \<Rightarrow> ii_quantity_on_hand i)"

definition stock_total :: "uuid \<Rightarrow> uuid \<Rightarrow> supply_state \<Rightarrow> int" where
  "stock_total tenant product s =
     hm_sum (\<lambda>i. if ii_tenant_id i = tenant \<and> ii_product_id i = product
                 then ii_quantity_on_hand i else 0) (inventory s)"

definition quantities_ok :: "inventory_item \<Rightarrow> bool" where
  "quantities_ok i \<longleftrightarrow> 0 \<le> ii_quantity_on_hand i \<and> in_i64 (ii_quantity_on_hand i)
     \<and> 0 \<le> ii_quantity_reserved i \<and> in_i64 (ii_quantity_reserved i)
     \<and> ii_quantity_available i = max (ii_quantity_on_hand i - ii_quantity_reserved i) 0"

definition row_key :: "env \<Rightarrow> inventory_item \<Rightarrow> string" where
  "row_key e i = inventory_key e (ii_tenant_id i) (ii_product_id i) (ii_location i)"

definition stock_ok :: "env \<Rightarrow> supply_state \<Rightarrow> bool" where
  "stock_ok e s \<longleftrightarrow> hm_wf (inventory s)
     \<and> (\<forall>k i. hm_get (inventory s) k = Some i \<longrightarrow> k = row_key e i \<and> quantities_ok i)"

lemma inventory_key_inject:
  assumes "plain_disp e"
  shows "inventory_key e t p l = inventory_key e t' p' l' \<longleftrightarrow> t = t' \<and> p = p' \<and> l = l'"
proof
  assume "inventory_key e t p l = inventory_key e t' p' l'"
  then have eq: "disp e t @ '':'' @ (disp e p @ '':'' @ l) = disp e t' @ '':'' @ (disp e p' @ '':'' @ l')"
    by (simp add: inventory_key_def)
  have plain: "CHR '':'' \<notin> set (disp e u)" for u using assms by (simp add: plain_disp_def)
  from split_at_colon [OF plain plain eq]
  have "disp e t = disp e t'" and eq2: "disp e p @ '':'' @ l = disp e p' @ '':'' @ l'" by simp_all
  moreover from split_at_colon [OF plain plain eq2] have "disp e p = disp e p'" "l = l'" by simp_all
  ultimately show "t = t' \<and> p = p' \<and> l = l'"
    using assms by (simp add: plain_disp_def inj_eq)
qed simp

lemma inventory_key_env: "disp e' = disp e \<Longrightarrow> inventory_key e' = inventory_key e"
  by (intro ext) (simp add: inventory_key_def)

lemma add_stock_sel [simp]:
  "rfqs (add_stock e k t p n l d s) = rfqs s" "quotes (add_stock e k t p n l d s) = quotes s"
  "sales_orders (add_stock e k t p n l d s) = sales_orders s"
  "purchase_orders (add_stock e k t p n l d s) = purchase_orders s"
  "stock_moves (add_stock e k t p n l d s) = stock_moves s"
  "rfq_counter (add_stock e k t p n l d s) = rfq_counter s"
  "quote_counter (add_stock e k t p n l d s) = quote_counter s"
  "so_counter (add_stock e k t p n l d s) = so_counter s"
  "po_counter (add_stock e k t p n l d s) = po_counter s"
  "supply_bus (add_stock e k t p n l d s) = supply_bus s"
  by (simp_all add: add_stock_def apply_inventory_delta_def Let_def split: option.split)

text \<open>The row that the upsert writes.\<close>

definition stocked ::
    "env \<Rightarrow> nat \<Rightarrow> uuid \<Rightarrow> uuid \<Rightarrow> string \<Rightarrow> string \<Rightarrow> int \<Rightarrow> supply_state \<Rightarrow> inventory_item" where
  "stocked e k t p n l d s = fst (apply_inventory_delta e k t p n l d s)"

lemma inventory_add_stock:
  "inventory (add_stock e k t p n l d s) =
     hm_insert (inventory_key e t p l) (stocked e k t p n l d s) (inventory s)"
  by (simp add: add_stock_def stocked_def apply_inventory_delta_def Let_def split: option.split)

lemma stocked_on_hand:
  assumes "in_i64 d"
  shows "ii_quantity_on_hand (stocked e k t p n l d s) = max (i64_add (level e t p l s) d) 0"
  using assms
  by (simp add: stocked_def apply_inventory_delta_def Let_def level_def i64_add_exact split: option.split)

lemma stocked_place:
  assumes "stock_ok e s" and "plain_disp e"
  shows "ii_tenant_id (stocked e k t p n l d s) = t \<and> ii_product_id (stocked e k t p n l d s) = p
    \<and> ii_location (stocked e k t p n l d s) = l"
proof (cases "hm_get (inventory s) (inventory_key e t p l)")
  case None
  then show ?thesis by (simp add: stocked_def apply_inventory_delta_def Let_def)
next
  case (Some old)
  with assms have "inventory_key e t p l = row_key e old" by (simp add: stock_ok_def)
  with assms(2) have "ii_tenant_id old = t \<and> ii_product_id old = p \<and> ii_location old = l"
    by (simp add: row_key_def inventory_key_inject)
  with Some show ?thesis by (simp add: stocked_def apply_inventory_delta_def Let_def)
qed

lemma stocked_quantities:
  assumes "stock_ok e s" and "in_i64 d"
  shows "quantities_ok (stocked e k t p n l d s)"
proof (cases "hm_get (inventory s) (inventory_key e t p l)")
  case None
  with assms show ?thesis
    by (simp add: stocked_def apply_inventory_delta_def Let_def quantities_ok_def)
next
  case (Some old)
  with assms(1) have old: "quantities_ok old" by (simp add: stock_ok_def)
  define h where "h = max (i64_add (ii_quantity_on_hand old) d) 0"
  have h: "0 \<le> h" "in_i64 h" by (simp_all add: h_def)
  with old have "i64_sub h (ii_quantity_reserved old) = h - ii_quantity_reserved old"
    by (intro i64_sub_exact) (simp add: in_i64_def quantities_ok_def)
  with Some old h show ?thesis
    by (simp add: stocked_def apply_inventory_delta_def Let_def quantities_ok_def h_def [symmetric])
qed

lemma stock_ok_add:
  "stock_ok e s \<Longrightarrow> plain_disp e \<Longrightarrow> in_i64 d \<Longrightarrow> stock_ok e (add_stock e k t p n l d s)"
  using stocked_place [of e s k t p n l d] stocked_quantities [of e s d k t p n l]
  by (auto simp: stock_ok_def inventory_add_stock row_key_def)

lemma level_add:
  "plain_disp e \<Longrightarrow> in_i64 d \<Longrightarrow> level e t' p' l' (add_stock e k t p n l d s) =
     (if t' = t \<and> p' = p \<and> l' = l then max (i64_add (level e t p l s) d) 0
      else level e t' p' l' s)"
  by (auto simp: level_def [of _ _ _ _ "add_stock _ _ _ _ _ _ _ _"] inventory_add_stock
      inventory_key_inject stocked_on_hand) (auto simp: level_def)

lemma level_range: "stock_ok e s \<Longrightarrow> 0 \<le> level e t p l s \<and> in_i64 (level e t p l s)"
  by (auto simp: level_def stock_ok_def quantities_ok_def split: option.split)

lemma level_le_total:
  assumes "stock_ok e s" and "plain_disp e"
  shows "level e t p l s \<le> stock_total t p s"
proof (cases "hm_get (inventory s) (inventory_key e t p l)")
  case None
  have "0 \<le> stock_total t p s"
    unfolding stock_total_def using assms(1)
    by (intro hm_sum_nonneg) (auto simp: stock_ok_def quantities_ok_def)
  with None show ?thesis by (simp add: level_def)
next
  case (Some i)
  with assms have "inventory_key e t p l = row_key e i" by (simp add: stock_ok_def)
  with assms(2) have i: "ii_tenant_id i = t \<and> ii_product_id i = p"
    by (simp add: row_key_def inventory_key_inject)
  let ?f = "\<lambda>i. if ii_tenant_id i = t \<and> ii_product_id i = p then ii_quantity_on_hand i else 0"
  have "?f i \<le> hm_sum ?f (inventory s)"
    using assms(1) Some by (intro hm_sum_ge) (auto simp: stock_ok_def quantities_ok_def)
  with i Some show ?thesis by (simp add: level_def stock_total_def)
qed

lemma stock_total_add:
  assumes "stock_ok e s" and "plain_disp e" and "0 \<le> d" and "in_i64 (stock_total t p s + d)"
  shows "stock_total t' p' (add_stock e k t p n l d s) =
    stock_total t' p' s + (if t' = t \<and> p' = p then d else 0)"
proof -
  let ?f = "\<lambda>i. if ii_tenant_id i = t' \<and> ii_product_id i = p' then ii_quantity_on_hand i else 0"
  have lvl: "0 \<le> level e t p l s" "level e t p l s \<le> stock_total t p s"
    using level_range [OF assms(1)] level_le_total [OF assms(1,2)] by auto
  then have "in_i64 (level e t p l s + d)" "in_i64 d"
    using assms(3,4) by (auto simp: in_i64_def)
  then have new: "?f (stocked e k t p n l d s) =
      (if t' = t \<and> p' = p then level e t p l s + d else 0)"
    using stocked_place [OF assms(1,2)] lvl assms(3)
    by (auto simp: stocked_on_hand i64_add_exact)
  have old: "(case hm_get (inventory s) (inventory_key e t p l) of None \<Rightarrow> 0 | Some w \<Rightarrow> ?f w) =
      (if t' = t \<and> p' = p then level e t p l s else 0)"
  proof (cases "hm_get (inventory s) (inventory_key e t p l)")
    case (Some i)
    with assms have "inventory_key e t p l = row_key e i" by (simp add: stock_ok_def)
    with assms(2) Some show ?thesis by (auto simp: row_key_def inventory_key_inject level_def)
  qed (simp add: level_def)
  have wf: "hm_wf (inventory s)" using assms(1) by (simp add: stock_ok_def)
  show ?thesis
    unfolding stock_total_def inventory_add_stock hm_sum_insert [OF wf] new old by simp
qed


section \<open>The stock interface of the receipts\<close>

text \<open>
  What a client that books goods in relies on: an addition keeps the rows well kept and moves
  the total of its product by exactly what was added. From it, a run of additions line by
  line moves every product's total by the sum of its lines.
\<close>

definition lines_total :: "uuid \<Rightarrow> (uuid \<times> string \<times> int) list \<Rightarrow> int" where
  "lines_total product ls = sum_list (map (\<lambda>(p, n, q). if p = product then q else 0) ls)"

lemma lines_total_simps [simp]:
  "lines_total product [] = 0"
  "lines_total product ((p, n, q) # ls) = (if p = product then q else 0) + lines_total product ls"
  by (simp_all add: lines_total_def)

lemma lines_total_nonneg: "\<forall>l \<in> set ls. 0 \<le> snd (snd l) \<Longrightarrow> 0 \<le> lines_total product ls"
  by (induction ls) auto

locale stock_book =
  fixes add :: "nat \<Rightarrow> uuid \<Rightarrow> uuid \<Rightarrow> string \<Rightarrow> string \<Rightarrow> int \<Rightarrow> 's \<Rightarrow> 's"
    and place :: "uuid \<Rightarrow> uuid \<Rightarrow> 's \<Rightarrow> string"
    and total :: "uuid \<Rightarrow> uuid \<Rightarrow> 's \<Rightarrow> int"
    and ok :: "'s \<Rightarrow> bool"
  assumes ok_add: "ok s \<Longrightarrow> in_i64 d \<Longrightarrow> ok (add k t p n l d s)"
    and total_add: "ok s \<Longrightarrow> 0 \<le> d \<Longrightarrow> in_i64 (total t p s + d) \<Longrightarrow>
      total t' p' (add k t p n l d s) = total t' p' s + (if t' = t \<and> p' = p then d else 0)"
    and total_nonneg: "ok s \<Longrightarrow> 0 \<le> total t p s"
begin

lemma total_receipt:
  assumes "ok s" and "0 \<le> d" and "in_i64 (total t p s + d)"
  shows "ok (add k t p n (place t p s) d s)
    \<and> total t' p' (add k t p n (place t p s) d s) = total t' p' s + (if t' = t \<and> p' = p then d else 0)"
proof -
  have "in_i64 d" using assms total_nonneg [OF assms(1), of t p] by (auto simp: in_i64_def)
  with assms show ?thesis by (simp add: ok_add total_add)
qed

lemma total_lines:
  assumes "\<And>k s. f k [] s = s"
    and step: "\<And>k p n q r s. f k ((p, n, q) # r) s = f (k + 1) r (add k t p n (place t p s) q s)"
    and "ok s" and "\<forall>l \<in> set ls. 0 \<le> snd (snd l)"
    and "\<And>p. in_i64 (total t p s + lines_total p ls)"
  shows "ok (f k ls s)
    \<and> total t' p' (f k ls s) = total t' p' s + (if t' = t then lines_total p' ls else 0)"
  using assms(3-5)
proof (induction ls arbitrary: k s)
  case Nil
  then show ?case by (simp add: assms(1))
next
  case (Cons l ls)
  obtain p n q where l: "l = (p, n, q)" by (cases l)
  let ?s = "add k t p n (place t p s) q s"
  have q: "0 \<le> q" and ls: "\<forall>l \<in> set ls. 0 \<le> snd (snd l)" using Cons.prems(2) l by auto
  have "0 \<le> lines_total p ls" using ls by (rule lines_total_nonneg)
  then have room: "in_i64 (total t p s + q)"
    using Cons.prems(3) [of p] q total_nonneg [OF Cons.prems(1), of t p]
    by (simp add: l in_i64_def)
  note one = total_receipt [OF Cons.prems(1) q room]
  have "in_i64 (total t p' ?s + lines_total p' ls)" for p'
    using Cons.prems(3) [of p'] one [of k n t p'] by (auto simp: l algebra_simps)
  from Cons.IH [OF _ ls this, of "k + 1"] one [of k n]
  show ?case by (auto simp: l step)
qed

end

interpretation stock: stock_book "add_stock e" "resolve_stock_location e" stock_total
    "\<lambda>s. stock_ok e s \<and> plain_disp e" for e
proof (unfold_locales, goal_cases)
  case (3 s t p)
  then show ?case using level_range [of e s t p "[]"] level_le_total [of e s t p "[]"] by auto
qed (auto intro: stock_ok_add simp: stock_total_add)


section \<open>Properties of the ledger\<close>

lemma stock_moves_level [simp]:
  "level e t p l (s\<lparr>stock_moves := ms\<rparr>) = level e t p l s"
  "level e t p l (supply_publish e' t' b s) = level e t p l s"
  by (simp_all add: level_def)

lemma level_env: "disp e' = disp e \<Longrightarrow> level e' = level e"
  using inventory_key_env [of e' e] by (intro ext) (simp add: level_def)

lemma plain_env: "disp e' = disp e \<Longrightarrow> plain_disp e' = plain_disp e"
  by (simp add: plain_disp_def)

lemma stock_ok_env: "disp e' = disp e \<Longrightarrow> stock_ok e' s = stock_ok e s"
  unfolding stock_ok_def row_key_def using inventory_key_env [of e' e] by simp

lemma level_add_env:
  "plain_disp e \<Longrightarrow> disp e' = disp e \<Longrightarrow> in_i64 d \<Longrightarrow>
     level e t' p' l' (add_stock e' k t p n l d s) =
     (if t' = t \<and> p' = p \<and> l' = l then max (i64_add (level e t p l s) d) 0
      else level e t' p' l' s)"
  using level_add [of e' d t' p' l' k t p n l s] plain_env [of e' e] level_env [of e' e] by simp

lemma i64_neg_q: "0 \<le> q \<Longrightarrow> in_i64 q \<Longrightarrow> i64_neg q = - q \<and> in_i64 (- q)"
  by (simp add: i64_neg_exact in_i64_def)

lemma reverse_Ok:
  assumes "reverse_stock_move e t sites i actor reason s = (Inr u, s')"
  shows "sites = [] \<and> trim reason \<noteq> [] \<and> (\<exists>m. hm_get (stock_moves s) i = Some m
    \<and> sm_status m \<noteq> ''reversed'' \<and> inventory s' = inventory (undo_stock e t m s))"
  using assms
  by (auto simp: reverse_stock_move_def Let_def split: option.splits if_splits)

text \<open>Reversal undoes a move on the balance. A receipt, or a delivery or transfer from a named
  location that holds at least the quantity, followed by its reversal leaves the quantity on
  hand of every product at every location as it was before the move, as long as the quantity
  is not negative and the destination's level stays within an \<open>i64\<close>.
\<close>

theorem reversal_restores_stock:
  assumes ok: "stock_ok e s" "plain_disp e" "disp e' = disp e"
    and q: "0 \<le> sm_quantity m" "in_i64 (sm_quantity m)"
    and room: "in_i64 (level e t (sm_product_id m) (sm_to_location m) s + sm_quantity m)"
    and kind: "sm_move_type m = ''receipt'' \<or>
      (\<exists>from_loc. sm_from_location m = Some from_loc
         \<and> sm_quantity m \<le> level e t (sm_product_id m) from_loc s
         \<and> (sm_move_type m = ''delivery'' \<or> sm_move_type m = ''transfer''))"
    and create: "create_stock_move e t m s = (Ok m', s1)"
    and reverse: "reverse_stock_move e' t [] (sm_id m') actor reason s1 = (Ok (), s2)"
  shows "level e t' p' l' s2 = level e t' p' l' s"
proof -
  let ?p = "sm_product_id m" and ?q = "sm_quantity m" and ?to = "sm_to_location m"
  note neg = i64_neg_q [OF q]
  have pre: "0 \<le> level e t ?p l s" "in_i64 (level e t ?p l s)" for l
    using level_range [OF ok(1)] by auto
  have m': "sm_product_id m' = ?p" "sm_quantity m' = ?q" "sm_to_location m' = ?to"
      "sm_from_location m' = sm_from_location m" "sm_move_type m' = sm_move_type m"
      and stored: "hm_get (stock_moves s1) (sm_id m') = Some m'"
    using create by (auto simp: create_stock_move_def Let_def)
  have s2: "inventory s2 = inventory (undo_stock e' t m' s1)"
    using reverse_Ok [OF reverse] stored by simp
  then have l2: "level e t' p' l' s2 = level e t' p' l' (undo_stock e' t m' s1)"
    by (simp add: level_def)
  have same: "disp e' = disp e" "plain_disp e" using ok by auto
  have add': "level e u v w (add_stock e2 k t ?p n l d x) =
      (if u = t \<and> v = ?p \<and> w = l then max (i64_add (level e t ?p l x) d) 0 else level e u v w x)"
    if "d = ?q \<or> d = - ?q" "e2 = e \<or> e2 = e'" for u v w e2 k n l d x
    using that same neg q level_add_env [of e e2 d u v w k t ?p n l x] by auto
  have undo_take: "max (i64_add (max (i64_add x (- ?q)) 0) ?q) 0 = x"
    if "?q \<le> x" "in_i64 x" for x
    using that q by (simp add: i64_add_exact in_i64_def)
  have undo_put: "max (i64_add (max (i64_add x ?q) 0) (- ?q)) 0 = x"
    if "0 \<le> x" "in_i64 (x + ?q)" for x
    using that q by (simp add: i64_add_exact in_i64_def)
  show ?thesis
  proof (cases "sm_move_type m = ''receipt''")
    case True
    then have "inventory s1 = inventory (add_stock e 1 t ?p (sm_product_name m) ?to ?q s)"
      using create by (auto simp: create_stock_move_def Let_def)
    then have l1: "level e u v w s1 = level e u v w (add_stock e 1 t ?p (sm_product_name m) ?to ?q s)"
      for u v w by (simp add: level_def)
    show ?thesis
      using True m' neg undo_put pre [of ?to] room
      by (simp add: l2 undo_stock_def Let_def add' l1)
  next
    case False
    with kind obtain from_loc where src: "sm_from_location m = Some from_loc"
        "?q \<le> level e t ?p from_loc s" and ty: "sm_move_type m = ''delivery'' \<or> sm_move_type m = ''transfer''"
      by auto
    show ?thesis
    proof (cases "sm_move_type m = ''delivery''")
      case True
      with src have "inventory s1 = inventory (add_stock e 1 t ?p (sm_product_name m) from_loc (- ?q) s)"
        using create neg by (auto simp: create_stock_move_def Let_def)
      then have l1: "level e u v w s1 = level e u v w (add_stock e 1 t ?p (sm_product_name m) from_loc (- ?q) s)"
        for u v w by (simp add: level_def)
      show ?thesis
        using True m' src undo_take pre [of from_loc] by (simp add: l2 undo_stock_def Let_def add' l1)
    next
      case False
      with ty have ty: "sm_move_type m = ''transfer''" by simp
      with src have "inventory s1 = inventory (add_stock e 2 t ?p (sm_product_name m) ?to ?q
          (add_stock e 1 t ?p (sm_product_name m) from_loc (- ?q) s))"
        using create neg by (auto simp: create_stock_move_def Let_def)
      then have l1: "level e u v w s1 = level e u v w (add_stock e 2 t ?p (sm_product_name m) ?to ?q
          (add_stock e 1 t ?p (sm_product_name m) from_loc (- ?q) s))"
        for u v w by (simp add: level_def)
      show ?thesis
        using ty m' src neg undo_take undo_put pre [of from_loc] pre [of ?to] room
        by (cases "from_loc = ?to") (simp_all add: l2 undo_stock_def Let_def add' l1)
    qed
  qed
qed


text \<open>A table with one row: ten units of product 3 at location A.\<close>

definition demo_stock :: supply_state where
  "demo_stock = add_stock (demo_at 0) 0 1 3 ''bolt'' ''A'' 10 (new_supply (Some []))"

definition demo_move :: "string \<Rightarrow> stock_move" where
  "demo_move kind = \<lparr>sm_id = 0, sm_tenant_id = 0, sm_product_id = 3, sm_product_name = ''bolt'',
     sm_quantity = 4, sm_move_type = kind, sm_from_location = Some ''A'', sm_to_location = ''B'',
     sm_reference_type = None, sm_reference_id = None, sm_created_by = 0, sm_created_at = 0,
     sm_site_id = None, sm_status = [], sm_reversed_by = None, sm_reversed_at = None,
     sm_reversal_reason = None, sm_reversal_of = None, sm_reversed_by_move = None\<rparr>"

lemma new_supply_stock_ok: "stock_ok e (new_supply bus)"
  by (simp add: stock_ok_def new_supply_def)

lemma demo_stock_ok: "stock_ok (demo_at k) demo_stock"
proof -
  have "stock_ok (demo_at 0) demo_stock"
    unfolding demo_stock_def
    by (intro stock_ok_add new_supply_stock_ok plain_demo_at) (simp add: in_i64_def)
  then show ?thesis using stock_ok_env [of "demo_at k" "demo_at 0"] by simp
qed

lemma reversal_restores_stock_witness:
  "level (demo_at 1) 1 3 ''A''
     (snd (reverse_stock_move (demo_at 2) 1 [] 10 7 ''typo''
       (snd (create_stock_move (demo_at 1) 1 (demo_move ''transfer'') demo_stock)))) = 10"
proof -
  let ?m = "demo_move ''transfer''"
  let ?c = "create_stock_move (demo_at 1) 1 ?m demo_stock"
  let ?r = "reverse_stock_move (demo_at 2) 1 [] 10 7 ''typo'' (snd ?c)"
  have c: "?c = (Ok (projr (fst ?c)), snd ?c)" "sm_id (projr (fst ?c)) = 10"
    by (simp_all add: create_stock_move_def demo_move_def Let_def uuid_nil_def)
  have "fst ?r = Ok ()" by code_simp
  then have r: "?r = (Ok (), snd ?r)" by (metis prod.collapse)
  have "level (demo_at 1) 1 3 ''A'' demo_stock = 10" "level (demo_at 1) 1 3 ''B'' demo_stock = 0"
    by code_simp+
  note lvl = this
  have "level (demo_at 1) 1 3 ''A'' (snd ?r) = level (demo_at 1) 1 3 ''A'' demo_stock"
  proof (rule reversal_restores_stock [OF demo_stock_ok plain_demo_at _ _ _ _ _ c(1)])
    show "disp (demo_at 2) = disp (demo_at 1)" by simp
    show "0 \<le> sm_quantity ?m" "in_i64 (sm_quantity ?m)" by (simp_all add: demo_move_def in_i64_def)
    show "in_i64 (level (demo_at 1) 1 (sm_product_id ?m) (sm_to_location ?m) demo_stock + sm_quantity ?m)"
      using lvl by (simp only: demo_move_def stock_move.simps) (simp add: in_i64_def)
    show "sm_move_type ?m = ''receipt'' \<or> (\<exists>from_loc. sm_from_location ?m = Some from_loc
        \<and> sm_quantity ?m \<le> level (demo_at 1) 1 (sm_product_id ?m) from_loc demo_stock
        \<and> (sm_move_type ?m = ''delivery'' \<or> sm_move_type ?m = ''transfer''))"
      using lvl by (simp only: demo_move_def stock_move.simps) simp
    show "reverse_stock_move (demo_at 2) 1 [] (sm_id (projr (fst ?c))) 7 ''typo'' (snd ?c) = (Ok (), snd ?r)"
      using r by (simp only: c(2))
  qed
  with lvl show ?thesis by simp
qed

text \<open>
  The ledger keeps what it recorded. A reversal that succeeds found a move that was not yet
  reversed; that row keeps everything it said and is marked reversed with the actor, the
  instant, the trimmed reason and the id of a new row; the new row is posted, of the same
  product and quantity and of the opposite direction, and names the original; every other row
  is as it was. From then on the move cannot be reversed again: every further attempt fails
  with the error of an unknown move and changes nothing.
\<close>

lemma reversal_is_recorded:
  assumes "reverse_stock_move e t sites i actor reason s = (Ok (), s')"
    and "hm_get (stock_moves s) (fresh e 3) = None"
  shows "\<exists>m row. hm_get (stock_moves s) i = Some m \<and> sm_status m \<noteq> ''reversed''
    \<and> hm_get (stock_moves s') i = Some (m\<lparr>sm_status := ''reversed'', sm_reversed_by := Some actor,
        sm_reversed_at := Some (clock e 0), sm_reversal_reason := Some (trim reason),
        sm_reversed_by_move := Some (fresh e 3)\<rparr>)
    \<and> hm_get (stock_moves s') (fresh e 3) = Some row
    \<and> sm_status row = ''posted'' \<and> sm_reversal_of row = Some (sm_id m)
    \<and> sm_product_id row = sm_product_id m \<and> sm_quantity row = sm_quantity m
    \<and> (sm_move_type m = ''receipt'' \<longrightarrow> sm_move_type row = ''issue''
         \<and> sm_from_location row = Some (sm_to_location m))
    \<and> (sm_move_type m \<in> {''issue'', ''delivery''} \<longrightarrow> sm_move_type row = ''receipt'')
    \<and> (\<forall>j. j \<noteq> i \<longrightarrow> j \<noteq> fresh e 3 \<longrightarrow> hm_get (stock_moves s') j = hm_get (stock_moves s) j)
    \<and> (\<forall>e2 t2 sites2 actor2 reason2 s2. trim reason2 \<noteq> [] \<longrightarrow> stock_moves s2 = stock_moves s' \<longrightarrow>
         reverse_stock_move e2 t2 sites2 i actor2 reason2 s2 = (Err (not_found ''StockMove'' i), s2))"
proof -
  from reverse_Ok [OF assms(1)] obtain m where
      m: "hm_get (stock_moves s) i = Some m" "sm_status m \<noteq> ''reversed''" by blast
  have undo: "stock_moves (undo_stock e t m s) = stock_moves s"
    by (simp add: undo_stock_def Let_def split: option.split)
  let ?row = "compensating_row e m actor (trim reason)"
  have i: "i \<noteq> fresh e 3" using m(1) assms(2) by auto
  have row: "sm_id ?row = fresh e 3" "sm_status ?row = ''posted''" "sm_reversal_of ?row = Some (sm_id m)"
      "sm_product_id ?row = sm_product_id m" "sm_quantity ?row = sm_quantity m"
    by (simp_all add: compensating_row_def split: prod.split)
  have moves: "stock_moves s' = hm_insert i (mark_reversed actor (clock e 0) (trim reason) (fresh e 3) m)
      (hm_insert (fresh e 3) ?row (stock_moves s))"
    using assms(1) m i row(1) undo
    by (auto simp: reverse_stock_move_def Let_def split: if_splits)
  then have "hm_get (stock_moves s') i = Some (mark_reversed actor (clock e 0) (trim reason) (fresh e 3) m)"
    by simp
  then have "\<forall>e2 t2 sites2 actor2 reason2 s2. trim reason2 \<noteq> [] \<longrightarrow> stock_moves s2 = stock_moves s' \<longrightarrow>
         reverse_stock_move e2 t2 sites2 i actor2 reason2 s2 = (Err (not_found ''StockMove'' i), s2)"
    by (simp add: reverse_stock_move_def mark_reversed_def)
  moreover have "sm_move_type m = ''receipt'' \<longrightarrow> sm_move_type ?row = ''issue''
         \<and> sm_from_location ?row = Some (sm_to_location m)"
    "sm_move_type m \<in> {''issue'', ''delivery''} \<longrightarrow> sm_move_type ?row = ''receipt''"
    by (auto simp: compensating_row_def compensation_of_def)
  ultimately show ?thesis
    using m i row moves by (intro exI [of _ m] exI [of _ ?row]) (simp add: mark_reversed_def)
qed

lemma reversal_is_recorded_witness:
  "\<exists>row. hm_get (stock_moves (snd (reverse_stock_move (demo_at 2) 1 [] 10 7 ''typo''
     (snd (create_stock_move (demo_at 1) 1 (demo_move ''receipt'') demo_stock))))) 23 = Some row
     \<and> sm_move_type row = ''issue'' \<and> sm_reversal_of row = Some 10"
proof -
  let ?s = "snd (create_stock_move (demo_at 1) 1 (demo_move ''receipt'') demo_stock)"
  let ?r = "reverse_stock_move (demo_at 2) 1 [] 10 7 ''typo'' ?s"
  have "fst ?r = Ok ()" by code_simp
  then have r: "?r = (Ok (), snd ?r)" by (metis prod.collapse)
  have "hm_get (stock_moves ?s) (fresh (demo_at 2) 3) = None" by code_simp
  from reversal_is_recorded [OF r this] show ?thesis
    by (auto simp: create_stock_move_def Let_def demo_move_def uuid_nil_def)
qed

text \<open>
  The comment on the compensation of an adjustment says that its reversal withdraws what was
  deposited. The inventory effect of the reversal has no such branch.
\<close>

lemma adjustment_not_undone:
  "sm_move_type m = ''adjustment'' \<Longrightarrow> undo_stock e t m s = s"
  by (simp add: undo_stock_def Let_def)

text \<open>
  The trait promises a refusal when the stock is gone. Here the balance is clamped: receiving
  4 on top of 10, delivering all 14 and reversing the receipt leaves 0, not -4.
\<close>

lemma reversal_clamps:
  "let s1 = snd (create_stock_move (demo_at 1) 1 ((demo_move ''receipt'')\<lparr>sm_to_location := ''A''\<rparr>) demo_stock);
       s2 = snd (create_stock_move (demo_at 2) 1 ((demo_move ''delivery'')\<lparr>sm_quantity := 14\<rparr>) s1);
       r = reverse_stock_move (demo_at 3) 1 [] 10 7 ''typo'' s2
   in fst r = Ok () \<and> level (demo_at 0) 1 3 ''A'' s2 = 0 \<and> level (demo_at 0) 1 3 ''A'' (snd r) = 0"
  by code_simp

end
