(* ===== verification/Supply_Purchasing.thy ===== *)
theory Supply_Purchasing
  imports Supply_Stock
begin

text \<open>
  Purchase orders and goods receipts of \<open>InMemorySupplyChainService\<close>
  (\<open>supply_chain/mod.rs\<close>): a receipt books order lines and then stock.
\<close>

section \<open>Orders\<close>

definition po_readable :: "uuid \<Rightarrow> uuid list \<Rightarrow> purchase_order \<Rightarrow> bool" where
  "po_readable tenant sites po \<longleftrightarrow> po_tenant_id po = tenant
     \<and> is_none_or (po_receiving_site_id po) (\<lambda>site. site \<in> set sites)"

definition po_owned :: "uuid \<Rightarrow> uuid list \<Rightarrow> purchase_order \<Rightarrow> bool" where
  "po_owned tenant sites po \<longleftrightarrow> po_tenant_id po = tenant
     \<and> is_some_and (po_receiving_site_id po) (\<lambda>site. site \<in> set sites)"

definition create_purchase_order ::
    "env \<Rightarrow> uuid \<Rightarrow> purchase_order \<Rightarrow> (supply_state, purchase_order) action" where
  "create_purchase_order e tenant po s =
     (let n = u64_wrap (po_counter s + 1);
          po' = po\<lparr>po_id := fresh e 0, po_tenant_id := tenant,
                 po_po_number := generate_po_number e n, po_status := ''draft'',
                 po_created_at := clock e 0\<rparr>;
          s' = s\<lparr>po_counter := n, purchase_orders := hm_insert (po_id po') po' (purchase_orders s)\<rparr>
      in (Ok po', supply_publish e tenant
            (PurchaseOrderCreated (po_id po') (po_po_number po') (po_supplier_id po')
               (po_total_amount po') (po_currency po')) s'))"

definition get_purchase_order :: "uuid \<Rightarrow> uuid \<Rightarrow> supply_state \<Rightarrow> purchase_order res" where
  "get_purchase_order tenant i s =
     (case hm_get (purchase_orders s) i of
        None \<Rightarrow> Err (not_found ''Purchase order'' i) | Some po \<Rightarrow> Ok po)"

definition get_purchase_order_scoped ::
    "uuid \<Rightarrow> uuid list \<Rightarrow> uuid \<Rightarrow> supply_state \<Rightarrow> purchase_order res" where
  "get_purchase_order_scoped tenant sites i s =
     (if sites = [] then Err no_purchase_scope
      else case hm_get (purchase_orders s) i of
        None \<Rightarrow> Err (not_found ''Purchase order'' i)
      | Some po \<Rightarrow> if po_readable tenant sites po then Ok po
                   else Err (not_found ''Purchase order'' i))"

definition list_purchase_orders ::
    "env \<Rightarrow> uuid \<Rightarrow> string option \<Rightarrow> nat option \<Rightarrow> nat option \<Rightarrow> supply_state
      \<Rightarrow> purchase_order paginated res" where
  "list_purchase_orders e tenant status page per_page s =
     Ok (paginate (filter (\<lambda>po. po_tenant_id po = tenant
            \<and> is_none_or status (\<lambda>st. po_status po = st)) (hm_values (rank e) (purchase_orders s)))
          page per_page)"

definition list_purchase_orders_scoped ::
    "env \<Rightarrow> uuid \<Rightarrow> uuid list \<Rightarrow> string option \<Rightarrow> nat option \<Rightarrow> nat option \<Rightarrow> supply_state
      \<Rightarrow> purchase_order paginated res" where
  "list_purchase_orders_scoped e tenant sites status page per_page s =
     Ok (paginate (filter (\<lambda>po. po_readable tenant sites po
            \<and> is_none_or status (\<lambda>st. po_status po = st)) (hm_values (rank e) (purchase_orders s)))
          page per_page)"

definition assign_receiving_site ::
    "uuid \<Rightarrow> uuid list \<Rightarrow> uuid \<Rightarrow> uuid \<Rightarrow> (supply_state, purchase_order) action" where
  "assign_receiving_site tenant sites i site s =
     (if sites = [] then (Err no_purchase_scope, s)
      else case hm_get (purchase_orders s) i of
        None \<Rightarrow> (Err (not_found ''Purchase order'' i), s)
      | Some po \<Rightarrow>
          if po_tenant_id po \<noteq> tenant then (Err (not_found ''Purchase order'' i), s)
          else (case po_receiving_site_id po of
            Some existing \<Rightarrow>
              if existing \<notin> set sites then (Err (not_found ''Purchase order'' i), s)
              else if existing \<noteq> site
              then (Err (Validation [Txt ''purchase order '', FId i,
                      Txt '' already names receiving site '', FId existing,
                      Txt '' - the receiving site is immutable'']), s)
              else (Ok po, s)
          | None \<Rightarrow>
              if site \<notin> set sites then (Err (not_found ''Purchase order'' i), s)
              else (let po' = po\<lparr>po_receiving_site_id := Some site\<rparr>
                    in (Ok po', s\<lparr>purchase_orders := hm_insert i po' (purchase_orders s)\<rparr>))))"

definition update_purchase_order ::
    "uuid \<Rightarrow> uuid list \<Rightarrow> uuid \<Rightarrow> purchase_order \<Rightarrow> (supply_state, purchase_order) action" where
  "update_purchase_order tenant sites i new s =
     (if sites = [] then (Err no_purchase_scope, s)
      else case hm_get (purchase_orders s) i of
        None \<Rightarrow> (Err (not_found ''PurchaseOrder'' i), s)
      | Some po \<Rightarrow>
          if \<not> po_owned tenant sites po then (Err (not_found ''PurchaseOrder'' i), s)
          else (let po' = po\<lparr>po_supplier_id := po_supplier_id new,
                  po_supplier_name := po_supplier_name new, po_status := po_status new,
                  po_line_items := po_line_items new, po_total_amount := po_total_amount new,
                  po_currency := po_currency new,
                  po_expected_delivery := po_expected_delivery new\<rparr>
                in (Ok po', s\<lparr>purchase_orders := hm_insert i po' (purchase_orders s)\<rparr>)))"

definition delete_purchase_order :: "uuid \<Rightarrow> uuid list \<Rightarrow> uuid \<Rightarrow> (supply_state, unit) action" where
  "delete_purchase_order tenant sites i s =
     (if sites = [] then (Err no_purchase_scope, s)
      else if \<not> is_some_and (hm_get (purchase_orders s) i) (po_owned tenant sites)
      then (Err (not_found ''PurchaseOrder'' i), s)
      else (Ok (), s\<lparr>purchase_orders := hm_remove i (purchase_orders s)\<rparr>))"

section \<open>Receipts\<close>

text \<open>
  The loop over the lines stops at the first line of the product. Its result: a refusal, or
  the name found (empty when no line matched) with the lines as the loop leaves them.
\<close>

fun book_line ::
    "uuid \<Rightarrow> uuid \<Rightarrow> int \<Rightarrow> po_item list \<Rightarrow> (string \<times> po_item list) res" where
  "book_line po product q [] = Ok ([], [])"
| "book_line po product q (item # items) =
     (if pi_product_id item = product
      then (let remaining = i64_sub (pi_quantity_ordered item) (pi_quantity_received item)
            in if remaining < q
               then Err (Validation [Txt ''Receiving '', FNum q, Txt '' units of product '',
                      FId product, Txt '' exceeds the remaining '', FNum remaining,
                      Txt '' units on PO '', FId po])
               else Ok (pi_product_name item,
                      item\<lparr>pi_quantity_received := i64_add (pi_quantity_received item) q\<rparr> # items))
      else (case book_line po product q items of
              Inl err \<Rightarrow> Err err | Inr (name, items') \<Rightarrow> Ok (name, item # items')))"

definition all_received :: "po_item list \<Rightarrow> bool" where
  "all_received items = list_all (\<lambda>item. pi_quantity_ordered item \<le> pi_quantity_received item) items"

definition any_received :: "po_item list \<Rightarrow> bool" where
  "any_received items = list_ex (\<lambda>item. 0 < pi_quantity_received item) items"

definition receive_po_line ::
    "env \<Rightarrow> uuid \<Rightarrow> uuid list \<Rightarrow> uuid \<Rightarrow> uuid \<Rightarrow> int \<Rightarrow> (supply_state, purchase_order) action" where
  "receive_po_line e tenant sites i product q s =
     (if sites = [] then (Err no_purchase_scope, s)
      else if q \<le> 0 then (Err (Validation [Txt ''Received quantity must be positive'']), s)
      else case hm_get (purchase_orders s) i of
        None \<Rightarrow> (Err (not_found ''Purchase order'' i), s)
      | Some po \<Rightarrow>
          if \<not> po_owned tenant sites po then (Err (not_found ''Purchase order'' i), s)
          else (case book_line i product q (po_line_items po) of
            Inl err \<Rightarrow> (Err err, s)
          | Inr (name, items) \<Rightarrow>
              (let po1 = po\<lparr>po_line_items := items\<rparr>
               in if name = []
                  then (Err (NotFound [Txt ''Product '', FId product,
                          Txt '' not found in purchase order '', FId i]),
                        s\<lparr>purchase_orders := hm_insert i po1 (purchase_orders s)\<rparr>)
                  else
                    (let po2 = po1\<lparr>po_status := if all_received items then ''received''
                            else if any_received items then ''partially_received''
                            else po_status po1\<rparr>;
                         s1 = s\<lparr>purchase_orders := hm_insert i po2 (purchase_orders s)\<rparr>;
                         location = resolve_stock_location e tenant product s1;
                         s2 = add_stock e 0 tenant product name location q s1;
                         s3 = supply_publish e tenant
                                (GoodsReceiptCreated (fresh e 1) i (i64_as_f64 q)) s2
                     in (case hm_get (purchase_orders s3) i of
                           None \<Rightarrow> Err (not_found ''Purchase order'' i) | Some r \<Rightarrow> Ok r, s3)))))"

text \<open>What is open on a line, and the lines after a full receipt.\<close>

definition open_quantity :: "po_item \<Rightarrow> int" where
  "open_quantity item = i64_sub (pi_quantity_ordered item) (pi_quantity_received item)"

definition open_lines :: "po_item list \<Rightarrow> (uuid \<times> string \<times> int) list" where
  "open_lines items = map (\<lambda>item. (pi_product_id item, pi_product_name item, open_quantity item))
     (filter (\<lambda>item. 0 < open_quantity item) items)"

definition fill_line :: "po_item \<Rightarrow> po_item" where
  "fill_line item = (if 0 < open_quantity item
     then item\<lparr>pi_quantity_received := i64_add (pi_quantity_received item) (open_quantity item)\<rparr>
     else item)"

text \<open>The stock loop: line by line, each at the location resolved at its turn.\<close>

fun stock_lines ::
    "env \<Rightarrow> nat \<Rightarrow> uuid \<Rightarrow> (uuid \<times> string \<times> int) list \<Rightarrow> supply_state \<Rightarrow> supply_state" where
  "stock_lines e k tenant [] s = s"
| "stock_lines e k tenant ((product, name, q) # rest) s =
     stock_lines e (k + 1) tenant rest
       (add_stock e k tenant product name (resolve_stock_location e tenant product s) q s)"

definition receive_full_po ::
    "env \<Rightarrow> uuid \<Rightarrow> uuid list \<Rightarrow> uuid \<Rightarrow> (supply_state, purchase_order) action" where
  "receive_full_po e tenant sites i s =
     (if sites = [] then (Err no_purchase_scope, s)
      else case hm_get (purchase_orders s) i of
        None \<Rightarrow> (Err (not_found ''PurchaseOrder'' i), s)
      | Some po \<Rightarrow>
          if \<not> po_owned tenant sites po then (Err (not_found ''PurchaseOrder'' i), s)
          else if po_status po = ''received'' \<or> po_status po = ''cancelled''
          then (Err (Validation [Txt ''Cannot receive PO with status: '', FStr (po_status po)]), s)
          else
            (let po' = po\<lparr>po_line_items := map fill_line (po_line_items po),
                          po_status := ''received''\<rparr>;
                 s1 = s\<lparr>purchase_orders := hm_insert i po' (purchase_orders s)\<rparr>;
                 s2 = stock_lines e 0 tenant (open_lines (po_line_items po)) s1
             in (case hm_get (purchase_orders s2) i of
                   None \<Rightarrow> Err (not_found ''PurchaseOrder'' i) | Some r \<Rightarrow> Ok r, s2)))"


section \<open>What a receipt books\<close>

text \<open>Lines whose quantities are proper, so that what is open on them does not overflow.\<close>

definition line_ok :: "po_item \<Rightarrow> bool" where
  "line_ok item \<longleftrightarrow> 0 \<le> pi_quantity_received item \<and> in_i64 (pi_quantity_received item)
     \<and> 0 \<le> pi_quantity_ordered item \<and> in_i64 (pi_quantity_ordered item)"

lemma open_quantity_exact:
  "line_ok item \<Longrightarrow> open_quantity item = pi_quantity_ordered item - pi_quantity_received item"
  by (simp add: open_quantity_def i64_sub_exact line_ok_def in_i64_def)

lemma book_line_Ok:
  assumes "book_line po product q items = Inr (name, items')" and "\<forall>item \<in> set items. line_ok item"
    and "0 < q"
  shows "(\<forall>item \<in> set items. pi_product_id item \<noteq> product) \<and> name = [] \<and> items' = items
    \<or> (\<exists>pre item post. items = pre @ item # post \<and> (\<forall>x \<in> set pre. pi_product_id x \<noteq> product)
        \<and> pi_product_id item = product \<and> name = pi_product_name item
        \<and> pi_quantity_received item + q \<le> pi_quantity_ordered item
        \<and> items' = pre @ item\<lparr>pi_quantity_received := pi_quantity_received item + q\<rparr> # post)"
  using assms
proof (induction items arbitrary: items')
  case Nil
  then show ?case by simp
next
  case (Cons x items)
  show ?case
  proof (cases "pi_product_id x = product")
    case True
    have ok: "line_ok x" using Cons.prems(2) by simp
    with True Cons.prems(1) have fits: "pi_quantity_received x + q \<le> pi_quantity_ordered x"
      using open_quantity_exact [OF ok] by (auto simp: Let_def open_quantity_def split: if_splits)
    with ok \<open>0 < q\<close> have "i64_add (pi_quantity_received x) q = pi_quantity_received x + q"
      by (intro i64_add_exact) (simp add: line_ok_def in_i64_def)
    with True fits Cons.prems(1) show ?thesis
      by (intro disjI2 exI [of _ "[]"] exI [of _ x] exI [of _ items])
        (auto simp: Let_def split: if_splits)
  next
    case False
    with Cons.prems(1) obtain rest where rest: "book_line po product q items = Inr (name, rest)"
        "items' = x # rest" by (auto split: sum.splits)
    from Cons.IH [OF rest(1)] Cons.prems(2,3) consider
        "(\<forall>item \<in> set items. pi_product_id item \<noteq> product) \<and> name = [] \<and> rest = items"
      | pre item post where "items = pre @ item # post" "\<forall>x \<in> set pre. pi_product_id x \<noteq> product"
          "pi_product_id item = product" "name = pi_product_name item"
          "pi_quantity_received item + q \<le> pi_quantity_ordered item"
          "rest = pre @ item\<lparr>pi_quantity_received := pi_quantity_received item + q\<rparr> # post"
      by auto
    then show ?thesis
    proof cases
      case 1
      with False rest show ?thesis by simp
    next
      case 2
      with False rest show ?thesis
        by (intro disjI2 exI [of _ "x # pre"] exI [of _ item] exI [of _ post]) simp
    qed
  qed
qed

lemma stock_ok_orders [simp]:
  "stock_ok e (s\<lparr>purchase_orders := pos\<rparr>) = stock_ok e s"
  "stock_ok e (supply_publish e' t b s) = stock_ok e s"
  "stock_total t p (s\<lparr>purchase_orders := pos\<rparr>) = stock_total t p s"
  "stock_total t p (supply_publish e' t' b s) = stock_total t p s"
  by (simp_all add: stock_ok_def stock_total_def)

text \<open>Receiving against a line. If \<open>receive_po_line\<close> succeeds, the order belongs to the tenant
  and to an authorized site, the quantity is positive and fits what is open on the first line
  of the product; that line's received quantity grows by exactly it and no other line changes;
  the order's status says whether everything or something has arrived; no other order changes;
  and the stock on hand of that product, over all locations of the tenant, grows by exactly
  the quantity received, that of every other product not at all.
\<close>

theorem receive_line_books:
  assumes "stock_ok e s" and "plain_disp e"
    and "hm_get (purchase_orders s) i = Some po" and "\<forall>item \<in> set (po_line_items po). line_ok item"
    and "in_i64 (stock_total t product s + q)"
    and "receive_po_line e t sites i product q s = (Ok r, s')"
  shows "po_owned t sites po \<and> 0 < q \<and> stock_ok e s'
    \<and> (\<exists>pre item post. po_line_items po = pre @ item # post
        \<and> (\<forall>x \<in> set pre. pi_product_id x \<noteq> product) \<and> pi_product_id item = product
        \<and> pi_quantity_received item + q \<le> pi_quantity_ordered item
        \<and> po_line_items r = pre @ item\<lparr>pi_quantity_received := pi_quantity_received item + q\<rparr> # post)
    \<and> po_status r = (if \<forall>x \<in> set (po_line_items r). pi_quantity_ordered x \<le> pi_quantity_received x
        then ''received'' else ''partially_received'')
    \<and> hm_get (purchase_orders s') i = Some r
    \<and> (\<forall>j. j \<noteq> i \<longrightarrow> hm_get (purchase_orders s') j = hm_get (purchase_orders s) j)
    \<and> (\<forall>t' p. stock_total t' p s' = stock_total t' p s + (if t' = t \<and> p = product then q else 0))"
proof -
  from assms(3,6) obtain name items where
      owned: "po_owned t sites po" and q: "0 < q" and name: "name \<noteq> []"
      and book: "book_line i product q (po_line_items po) = Inr (name, items)"
    by (auto simp: receive_po_line_def Let_def split: if_splits sum.splits prod.splits)
  let ?po = "po\<lparr>po_line_items := items, po_status := if all_received items then ''received''
      else if any_received items then ''partially_received'' else po_status po\<rparr>"
  let ?s1 = "s\<lparr>purchase_orders := hm_insert i ?po (purchase_orders s)\<rparr>"
  from assms(3,6) owned q name book have r: "r = ?po"
      and s': "s' = supply_publish e t (GoodsReceiptCreated (fresh e 1) i (i64_as_f64 q))
        (add_stock e 0 t product name (resolve_stock_location e t product ?s1) q ?s1)"
    by (auto simp: receive_po_line_def Let_def split: if_splits)
  from book_line_Ok [OF book assms(4) q] name obtain pre item post where
      line: "po_line_items po = pre @ item # post" "\<forall>x \<in> set pre. pi_product_id x \<noteq> product"
        "pi_product_id item = product" "pi_quantity_received item + q \<le> pi_quantity_ordered item"
        "items = pre @ item\<lparr>pi_quantity_received := pi_quantity_received item + q\<rparr> # post" by auto
  have "line_ok item" using assms(4) line(1) by simp
  then have any: "any_received items" using line(5) q by (simp add: any_received_def line_ok_def)
  have "stock_ok e ?s1 \<and> plain_disp e" using assms(1,2) by simp
  from stock.total_receipt [OF this, of q t product 0 name] assms(5) q
  have "stock_ok e s'" "\<forall>t' p. stock_total t' p s' =
      stock_total t' p s + (if t' = t \<and> p = product then q else 0)"
    by (auto simp: s')
  then show ?thesis
    using owned q line any by (auto simp: r s' all_received_def list_all_iff)
qed


text \<open>An order with two lines, received at site 5, on top of the stock of the ledger's run.\<close>

definition demo_line :: "uuid \<Rightarrow> string \<Rightarrow> int \<Rightarrow> po_item" where
  "demo_line product name q = \<lparr>pi_product_id = product, pi_product_name = name,
     pi_quantity_ordered = q, pi_quantity_received = 0, pi_unit_price = 1\<rparr>"

definition demo_po :: "po_item list \<Rightarrow> purchase_order" where
  "demo_po items = \<lparr>po_id = 0, po_tenant_id = 0, po_po_number = [], po_supplier_id = 6,
     po_supplier_name = ''acme'', po_status = [], po_line_items = items, po_total_amount = 16,
     po_currency = ''EUR'', po_expected_delivery = None, po_created_by = 8, po_created_at = 0,
     po_receiving_site_id = Some 5\<rparr>"

definition demo_orders :: "po_item list \<Rightarrow> supply_state" where
  "demo_orders items = snd (create_purchase_order (demo_at 1) 1 (demo_po items) demo_stock)"

definition demo_lines :: "po_item list" where
  "demo_lines = [demo_line 3 ''bolt'' 10, demo_line 4 ''nut'' 6]"

lemma demo_orders_sel:
  "hm_get (purchase_orders (demo_orders items)) 10 = Some ((demo_po items)\<lparr>po_id := 10,
     po_tenant_id := 1, po_po_number := generate_po_number (demo_at 1) (u64_wrap (po_counter demo_stock + 1)),
     po_status := ''draft'', po_created_at := clock (demo_at 1) 0\<rparr>)"
  "inventory (demo_orders items) = inventory demo_stock"
  by (simp_all add: demo_orders_def create_purchase_order_def Let_def)

lemma demo_orders_stock: "stock_ok (demo_at k) (demo_orders items)"
    "stock_total t p (demo_orders items) = stock_total t p demo_stock"
  using demo_stock_ok [of k] by (simp_all add: stock_ok_def stock_total_def demo_orders_sel)

lemma demo_totals: "stock_total 1 p demo_stock = (if p = 3 then 10 else 0)"
proof -
  have "inventory demo_stock = [(''1:3:A'', \<lparr>ii_id = 0, ii_tenant_id = 1, ii_product_id = 3,
      ii_product_name = ''bolt'', ii_quantity_on_hand = 10, ii_quantity_reserved = 0,
      ii_quantity_available = 10, ii_location = ''A'', ii_lot_number = None,
      ii_reorder_point = 0, ii_reorder_quantity = 0, ii_updated_at = 50\<rparr>)]" by code_simp
  then show ?thesis by (simp add: stock_total_def hm_sum_def)
qed

lemma receive_line_books_witness:
  "let s' = snd (receive_po_line (demo_at 2) 1 [5] 10 3 4 (demo_orders demo_lines))
   in stock_total 1 3 s' = 14 \<and> stock_total 1 4 s' = 0"
proof -
  let ?r = "receive_po_line (demo_at 2) 1 [5] 10 3 4 (demo_orders demo_lines)"
  have "isl (fst ?r) = False" by code_simp
  then have r: "?r = (Ok (projr (fst ?r)), snd ?r)" by (cases "fst ?r") (auto simp: prod_eq_iff)
  have "\<forall>item \<in> set demo_lines. line_ok item"
    by (simp add: demo_lines_def demo_line_def line_ok_def in_i64_def)
  with receive_line_books [OF demo_orders_stock(1) plain_demo_at demo_orders_sel(1) _ _ r]
  show ?thesis
    by (simp add: demo_orders_stock demo_totals demo_po_def in_i64_def Let_def del: One_nat_def)
qed

text \<open>The quantity of a product that an order's lines have received.\<close>

definition received_total :: "uuid \<Rightarrow> po_item list \<Rightarrow> int" where
  "received_total product items =
     sum_list (map (\<lambda>x. if pi_product_id x = product then pi_quantity_received x else 0) items)"

lemma fill_line_exact:
  assumes "line_ok item"
  shows "fill_line item = item\<lparr>pi_quantity_received :=
    max (pi_quantity_ordered item) (pi_quantity_received item)\<rparr>"
proof -
  have "i64_add (pi_quantity_received item) (pi_quantity_ordered item - pi_quantity_received item)
      = pi_quantity_ordered item"
    using assms by (simp add: i64_add_exact line_ok_def)
  with open_quantity_exact [OF assms] show ?thesis by (cases item) (auto simp: fill_line_def)
qed

lemma open_lines_total:
  "\<forall>item \<in> set items. line_ok item \<Longrightarrow> lines_total p (open_lines items) =
     received_total p (map fill_line items) - received_total p items"
  by (induction items)
    (auto simp: open_lines_def received_total_def open_quantity_exact fill_line_exact)

lemma stock_lines_orders [simp]: "purchase_orders (stock_lines e k t ls s) = purchase_orders s"
  by (induction e k t ls s rule: stock_lines.induct) auto

text \<open>
  Receiving a whole order. If \<open>receive_full_po\<close> succeeds, the order was in scope and neither
  received nor cancelled; afterwards every line has received at least what it ordered and never
  less than before, the status is received, no other order changed, and for every product the
  stock on hand of the tenant grew by exactly what the order's lines of that product gained.
  A second receipt of the order fails and changes nothing.
\<close>

theorem receive_full_books:
  assumes "stock_ok e s" and "plain_disp e"
    and "hm_get (purchase_orders s) i = Some po" and "\<forall>item \<in> set (po_line_items po). line_ok item"
    and "\<And>p. in_i64 (stock_total t p s + lines_total p (open_lines (po_line_items po)))"
    and "receive_full_po e t sites i s = (Ok r, s')"
  shows "po_owned t sites po \<and> po_status po \<notin> {''received'', ''cancelled''} \<and> stock_ok e s'
    \<and> po_line_items r = map (\<lambda>x. x\<lparr>pi_quantity_received :=
        max (pi_quantity_ordered x) (pi_quantity_received x)\<rparr>) (po_line_items po)
    \<and> po_status r = ''received'' \<and> hm_get (purchase_orders s') i = Some r
    \<and> (\<forall>j. j \<noteq> i \<longrightarrow> hm_get (purchase_orders s') j = hm_get (purchase_orders s) j)
    \<and> (\<forall>t' p. stock_total t' p s' = stock_total t' p s
        + (if t' = t then received_total p (po_line_items r) - received_total p (po_line_items po) else 0))
    \<and> (\<forall>e2 t2 sites2 s2. purchase_orders s2 = purchase_orders s' \<longrightarrow>
        (\<exists>err. receive_full_po e2 t2 sites2 i s2 = (Err err, s2)))"
proof -
  from assms(3,6) have owned: "po_owned t sites po" "po_status po \<notin> {''received'', ''cancelled''}"
    by (auto simp: receive_full_po_def Let_def split: if_splits)
  let ?po = "po\<lparr>po_line_items := map fill_line (po_line_items po), po_status := ''received''\<rparr>"
  let ?s1 = "s\<lparr>purchase_orders := hm_insert i ?po (purchase_orders s)\<rparr>"
  let ?ls = "open_lines (po_line_items po)"
  from assms(3,6) owned have r: "r = ?po" and s': "s' = stock_lines e 0 t ?ls ?s1"
    by (auto simp: receive_full_po_def Let_def split: if_splits)
  have "\<forall>l \<in> set ?ls. 0 \<le> snd (snd l)" by (auto simp: open_lines_def)
  moreover have "stock_ok e ?s1 \<and> plain_disp e" using assms(1,2) by simp
  ultimately have books: "stock_ok e s' \<and> (\<forall>t' p. stock_total t' p s' = stock_total t' p s
      + (if t' = t then lines_total p ?ls else 0))"
    using stock.total_lines [of "\<lambda>k ls s. stock_lines e k t ls s" e t ?s1 ?ls 0] assms(5)
    by (auto simp: s')
  have fill: "map fill_line (po_line_items po) = map (\<lambda>x. x\<lparr>pi_quantity_received :=
        max (pi_quantity_ordered x) (pi_quantity_received x)\<rparr>) (po_line_items po)"
    using assms(4) by (auto simp: fill_line_exact)
  have again: "\<exists>err. receive_full_po e2 t2 sites2 i s2 = (Err err, s2)"
    if "purchase_orders s2 = purchase_orders s'" for e2 t2 sites2 s2
    using that by (auto simp: receive_full_po_def s')
  have table: "purchase_orders s' = hm_insert i r (purchase_orders s)" "po_status r = ''received''"
    by (simp_all add: s' r)
  have lines: "po_line_items r = map fill_line (po_line_items po)" by (simp add: r)
  have "\<forall>t' p. stock_total t' p s' = stock_total t' p s
      + (if t' = t then received_total p (po_line_items r) - received_total p (po_line_items po) else 0)"
    using books by (simp add: lines open_lines_total [OF assms(4)])
  then show ?thesis
    using owned books again table lines by (simp add: fill [symmetric])
qed

lemma receive_full_books_witness:
  "let s' = snd (receive_full_po (demo_at 2) 1 [5] 10 (demo_orders demo_lines))
   in stock_total 1 3 s' = 20 \<and> stock_total 1 4 s' = 6"
proof -
  let ?r = "receive_full_po (demo_at 2) 1 [5] 10 (demo_orders demo_lines)"
  have "isl (fst ?r) = False" by code_simp
  then have r: "?r = (Ok (projr (fst ?r)), snd ?r)" by (cases "fst ?r") (auto simp: prod_eq_iff)
  have ok: "\<forall>item \<in> set demo_lines. line_ok item"
    by (simp add: demo_lines_def demo_line_def line_ok_def in_i64_def)
  have ls: "open_lines demo_lines = [(3, ''bolt'', 10), (4, ''nut'', 6)]" by code_simp
  have "stock_total t' p (snd ?r) = stock_total t' p (demo_orders demo_lines) + (if t' = 1
      then received_total p (po_line_items (projr (fst ?r))) - received_total p demo_lines else 0)"
    and "po_line_items (projr (fst ?r)) = map (\<lambda>x. x\<lparr>pi_quantity_received :=
        max (pi_quantity_ordered x) (pi_quantity_received x)\<rparr>) demo_lines" for t' p
    using receive_full_books [OF demo_orders_stock(1) plain_demo_at demo_orders_sel(1) _ _ r] ok
    by (simp_all add: demo_orders_stock demo_totals demo_po_def in_i64_def ls del: One_nat_def)
  then show ?thesis
    by (simp add: demo_orders_stock demo_totals received_total_def demo_lines_def demo_line_def Let_def
        del: One_nat_def)
qed


text \<open>
  A refused receipt books nothing. Whenever \<open>receive_po_line\<close> (on an order whose lines all
  carry a product name) or \<open>receive_full_po\<close> returns an error, orders, stock and events are
  as they were before the call.
\<close>

lemma refused_receipt_books_nothing:
  assumes "hm_get (purchase_orders s) i = Some po"
    and "\<forall>item \<in> set (po_line_items po). pi_product_name item \<noteq> []"
    and "receive_po_line e t sites i product q s = (Err err, s')
      \<or> receive_full_po e t sites i s = (Err err, s')"
  shows "s' = s"
proof -
  have unmatched: "items = items1" if "book_line i product q items1 = Inr ([], items)"
      "\<forall>item \<in> set items1. pi_product_name item \<noteq> []" for items items1
    using that
    by (induction items1 arbitrary: items) (auto simp: Let_def split: if_splits sum.splits)
  have "hm_insert i po (purchase_orders s) = purchase_orders s" using assms(1) by simp
  with assms show ?thesis
    by (auto simp: receive_po_line_def receive_full_po_def Let_def dest!: unmatched
        split: if_splits sum.splits prod.splits option.splits)
qed

lemma refused_receipt_books_nothing_witness:
  "snd (receive_po_line (demo_at 2) 1 [5] 10 3 11 (demo_orders demo_lines)) = demo_orders demo_lines"
proof -
  let ?r = "receive_po_line (demo_at 2) 1 [5] 10 3 11 (demo_orders demo_lines)"
  have "isl (fst ?r)" by code_simp
  then have "?r = (Err (projl (fst ?r)), snd ?r)" by (cases "fst ?r") (auto simp: prod_eq_iff)
  then show ?thesis
    by (intro refused_receipt_books_nothing [OF demo_orders_sel(1), where e = "demo_at 2" and t = 1
        and sites = "[5]" and product = 3 and q = 11 and err = "projl (fst ?r)"])
      (auto simp: demo_po_def demo_lines_def demo_line_def)
qed

section \<open>Site scope\<close>

text \<open>
  The operations on one purchase order that take the caller's sites, as results on an order
  table: the state a mutation leaves and the error or order it returns.
\<close>

datatype po_call =
    GetScoped
  | AssignSite uuid
  | UpdateOrder purchase_order
  | DeleteOrder
  | ReceiveLine uuid int
  | ReceiveFull

fun po_run :: "env \<Rightarrow> uuid \<Rightarrow> uuid list \<Rightarrow> uuid \<Rightarrow> po_call \<Rightarrow> supply_state \<Rightarrow> sensei_error option \<times> supply_state"
where
  "po_run e t sites i GetScoped s =
     (case get_purchase_order_scoped t sites i s of Inl err \<Rightarrow> Some err | Inr _ \<Rightarrow> None, s)"
| "po_run e t sites i (AssignSite site) s =
     map_prod (\<lambda>r. case r of Inl err \<Rightarrow> Some err | Inr _ \<Rightarrow> None) id (assign_receiving_site t sites i site s)"
| "po_run e t sites i (UpdateOrder new) s =
     map_prod (\<lambda>r. case r of Inl err \<Rightarrow> Some err | Inr _ \<Rightarrow> None) id (update_purchase_order t sites i new s)"
| "po_run e t sites i DeleteOrder s =
     map_prod (\<lambda>r. case r of Inl err \<Rightarrow> Some err | Inr _ \<Rightarrow> None) id (delete_purchase_order t sites i s)"
| "po_run e t sites i (ReceiveLine product q) s =
     map_prod (\<lambda>r. case r of Inl err \<Rightarrow> Some err | Inr _ \<Rightarrow> None) id (receive_po_line e t sites i product q s)"
| "po_run e t sites i ReceiveFull s =
     map_prod (\<lambda>r. case r of Inl err \<Rightarrow> Some err | Inr _ \<Rightarrow> None) id (receive_full_po e t sites i s)"

text \<open>
  Foreign is nonexistent. For an order of another tenant, or received at a site outside the
  caller's, every site-scoped operation fails with exactly the error it gives when there is no
  order with that id, and changes nothing: a caller cannot tell the two apart.
\<close>

theorem foreign_order_is_nonexistent:
  assumes "hm_get (purchase_orders s) i = Some po"
    and "po_tenant_id po \<noteq> t \<or> (\<exists>site. po_receiving_site_id po = Some site \<and> site \<notin> set sites)"
    and "hm_get (purchase_orders other) i = None"
  shows "\<exists>err. po_run e t sites i c s = (Some err, s) \<and> po_run e t sites i c other = (Some err, other)"
  using assms
  by (cases c)
    (auto simp: get_purchase_order_scoped_def assign_receiving_site_def update_purchase_order_def
      delete_purchase_order_def receive_po_line_def receive_full_po_def po_owned_def po_readable_def
      split: option.splits)

lemma foreign_order_is_nonexistent_witness:
  "\<exists>err. po_run (demo_at 2) 1 [6] 10 ReceiveFull (demo_orders demo_lines) = (Some err, demo_orders demo_lines)"
  using foreign_order_is_nonexistent [OF demo_orders_sel(1), where t = 1 and sites = "[6]"
      and other = "new_supply None" and e = "demo_at 2" and c = ReceiveFull]
  by (auto simp: demo_po_def new_supply_def)

section \<open>Where the code departs from its comments\<close>

text \<open>
  A line without a product name: the receipt is refused as if the product were not on the
  order, but the line has been booked, and no stock with it.
\<close>

lemma nameless_line_booked:
  "let s = demo_orders [demo_line 3 [] 10]; r = receive_po_line (demo_at 2) 1 [5] 10 3 4 s
   in isl (fst r) \<and> map_option (map pi_quantity_received \<circ> po_line_items)
        (hm_get (purchase_orders (snd r)) 10) = Some [4] \<and> stock_total 1 3 (snd r) = 10"
  by code_simp

text \<open>
  A cancelled order: a full receipt refuses it, a receipt by line books it and gives it a new
  status.
\<close>

lemma cancelled_order_received:
  "let s = snd (update_purchase_order 1 [5] 10 ((demo_po demo_lines)\<lparr>po_status := ''cancelled''\<rparr>)
             (demo_orders demo_lines));
       r = receive_po_line (demo_at 2) 1 [5] 10 3 4 s
   in isl (fst (receive_full_po (demo_at 2) 1 [5] 10 s))
      \<and> map_option po_status (hm_get (purchase_orders (snd r)) 10) = Some ''partially_received''"
  by code_simp

end
