(* ===== verification/Supply_Service.thy ===== *)
theory Supply_Service
  imports Supply_Sales Supply_Purchasing
begin

text \<open>
  The supply-chain service as a whole: every mutating method of the trait as a call, the states
  that sequences of calls reach, and the invariants that hold in all of them.
\<close>

section \<open>Calls\<close>

datatype supply_call =
    CreateRfq rfq
  | UpdateRfqStatus uuid string
  | UpdateRfq uuid rfq
  | DeleteRfq uuid
  | SubmitRfq uuid
  | CancelRfq uuid
  | CreateQuote quote
  | ApproveQuote uuid
  | ConvertQuote uuid uuid
  | UpdateQuote uuid quote
  | DeleteQuote uuid
  | SubmitQuote uuid
  | AcceptQuote uuid
  | RejectQuote uuid
  | CreateSalesOrder sales_order
  | UpdateSalesOrderStatus "uuid list" uuid string
  | AssignFulfillmentSite "uuid list" uuid uuid
  | ConfirmSalesOrder "uuid list" uuid uuid
  | UpdateSalesOrder "uuid list" uuid sales_order
  | DeleteSalesOrder "uuid list" uuid
  | CreatePurchaseOrder purchase_order
  | AssignReceivingSite "uuid list" uuid uuid
  | UpdatePurchaseOrder "uuid list" uuid purchase_order
  | DeletePurchaseOrder "uuid list" uuid
  | ReceivePoLine "uuid list" uuid uuid int
  | ReceiveFullPo "uuid list" uuid
  | AdjustInventory uuid string int string
  | UpdateInventory uuid inventory_item
  | DeleteInventory uuid
  | CreateStockMove stock_move
  | ReverseStockMove "uuid list" uuid uuid string
  | ReceiveStock "uuid list" receive_stock_command

fun supply_next :: "env \<Rightarrow> uuid \<Rightarrow> supply_call \<Rightarrow> supply_state \<Rightarrow> supply_state" where
  "supply_next e t (CreateRfq r) s = snd (create_rfq e t r s)"
| "supply_next e t (UpdateRfqStatus i st) s = snd (update_rfq_status e t i st s)"
| "supply_next e t (UpdateRfq i r) s = snd (update_rfq t i r s)"
| "supply_next e t (DeleteRfq i) s = snd (delete_rfq t i s)"
| "supply_next e t (SubmitRfq i) s = snd (submit_rfq t i s)"
| "supply_next e t (CancelRfq i) s = snd (cancel_rfq t i s)"
| "supply_next e t (CreateQuote q) s = snd (create_quote e t q s)"
| "supply_next e t (ApproveQuote i) s = snd (approve_quote e t i s)"
| "supply_next e t (ConvertQuote i actor) s = snd (convert_quote_to_order e t i actor s)"
| "supply_next e t (UpdateQuote i q) s = snd (update_quote t i q s)"
| "supply_next e t (DeleteQuote i) s = snd (delete_quote t i s)"
| "supply_next e t (SubmitQuote i) s = snd (submit_quote t i s)"
| "supply_next e t (AcceptQuote i) s = snd (accept_quote t i s)"
| "supply_next e t (RejectQuote i) s = snd (reject_quote t i s)"
| "supply_next e t (CreateSalesOrder so) s = snd (create_sales_order e t so s)"
| "supply_next e t (UpdateSalesOrderStatus sites i st) s = snd (update_sales_order_status t sites i st s)"
| "supply_next e t (AssignFulfillmentSite sites i site) s = snd (assign_fulfillment_site t sites i site s)"
| "supply_next e t (ConfirmSalesOrder sites i site) s = snd (confirm_sales_order_with_site t sites i site s)"
| "supply_next e t (UpdateSalesOrder sites i so) s = snd (update_sales_order t sites i so s)"
| "supply_next e t (DeleteSalesOrder sites i) s = snd (delete_sales_order t sites i s)"
| "supply_next e t (CreatePurchaseOrder po) s = snd (create_purchase_order e t po s)"
| "supply_next e t (AssignReceivingSite sites i site) s = snd (assign_receiving_site t sites i site s)"
| "supply_next e t (UpdatePurchaseOrder sites i po) s = snd (update_purchase_order t sites i po s)"
| "supply_next e t (DeletePurchaseOrder sites i) s = snd (delete_purchase_order t sites i s)"
| "supply_next e t (ReceivePoLine sites i p q) s = snd (receive_po_line e t sites i p q s)"
| "supply_next e t (ReceiveFullPo sites i) s = snd (receive_full_po e t sites i s)"
| "supply_next e t (AdjustInventory p l q why) s = snd (adjust_inventory e t p l q why s)"
| "supply_next e t (UpdateInventory i item) s = snd (update_inventory e t i item s)"
| "supply_next e t (DeleteInventory i) s = snd (delete_inventory e t i s)"
| "supply_next e t (CreateStockMove m) s = snd (create_stock_move e t m s)"
| "supply_next e t (ReverseStockMove sites i actor why) s = snd (reverse_stock_move e t sites i actor why s)"
| "supply_next e t (ReceiveStock sites req) s = snd (receive_stock e t sites req s)"

text \<open>The quantities of a call are \<open>i64\<close> values.\<close>

fun well_typed :: "supply_call \<Rightarrow> bool" where
  "well_typed (ReceivePoLine sites i p q) = in_i64 q"
| "well_typed (AdjustInventory p l q why) = in_i64 q"
| "well_typed (CreateStockMove m) = in_i64 (sm_quantity m)"
| "well_typed (ReverseStockMove sites i actor why) = True"
| "well_typed (ReceiveStock sites req) = in_i64 (rs_quantity req)"
| "well_typed _ = True"

text \<open>
  The states after \<open>k\<close> calls of any tenants, in the order in which their locks are taken.
  \<open>dsp\<close> is the display of UUIDs, the same at every call; the date text has eight characters.
\<close>

inductive supply_reachable ::
    "(uuid \<Rightarrow> string) \<Rightarrow> (supply_call \<Rightarrow> bool) \<Rightarrow> nat \<Rightarrow> supply_state \<Rightarrow> bool"
  for dsp P where
  init: "supply_reachable dsp P 0 (new_supply bus)"
| call: "supply_reachable dsp P k s \<Longrightarrow> disp e = dsp \<Longrightarrow> length (today e) = 8 \<Longrightarrow> well_typed c
    \<Longrightarrow> P c \<Longrightarrow> supply_reachable dsp P (Suc k) (supply_next e t c s)"

text \<open>What the operations of one component leave alone in the tables of the others.\<close>

lemmas sales_ops = create_rfq_def update_rfq_status_def update_rfq_def delete_rfq_def
  submit_rfq_def cancel_rfq_def create_quote_def approve_quote_def convert_quote_to_order_def
  update_quote_def delete_quote_def submit_quote_def accept_quote_def reject_quote_def
  create_sales_order_def update_sales_order_status_def assign_fulfillment_site_def
  confirm_sales_order_with_site_def update_sales_order_def delete_sales_order_def

lemmas purchase_ops = create_purchase_order_def assign_receiving_site_def
  update_purchase_order_def delete_purchase_order_def receive_po_line_def receive_full_po_def

lemmas stock_ops = adjust_inventory_def update_inventory_def delete_inventory_def
  create_stock_move_def reverse_stock_move_def receive_stock_def undo_stock_def

lemma stock_lines_sel [simp]:
  "rfqs (stock_lines e k t ls s) = rfqs s" "quotes (stock_lines e k t ls s) = quotes s"
  "sales_orders (stock_lines e k t ls s) = sales_orders s"
  "stock_moves (stock_lines e k t ls s) = stock_moves s"
  "so_counter (stock_lines e k t ls s) = so_counter s"
  "po_counter (stock_lines e k t ls s) = po_counter s"
  "quote_counter (stock_lines e k t ls s) = quote_counter s"
  "rfq_counter (stock_lines e k t ls s) = rfq_counter s"
  by (induction e k t ls s rule: stock_lines.induct; simp)+

definition quote_call :: "supply_call \<Rightarrow> bool" where
  "quote_call c = (case c of CreateQuote _ \<Rightarrow> True | ApproveQuote _ \<Rightarrow> True | ConvertQuote _ _ \<Rightarrow> True
     | UpdateQuote _ _ \<Rightarrow> True | DeleteQuote _ \<Rightarrow> True | SubmitQuote _ \<Rightarrow> True
     | AcceptQuote _ \<Rightarrow> True | RejectQuote _ \<Rightarrow> True | _ \<Rightarrow> False)"

lemma quotes_frame: "\<not> quote_call c \<Longrightarrow> quotes (supply_next e t c s) = quotes s"
  by (cases c)
    (auto simp: quote_call_def sales_ops purchase_ops stock_ops Let_def
      split: option.split if_splits sum.splits prod.splits)


section \<open>The stock invariant\<close>

definition moves_ok :: "(uuid, stock_move) hmap \<Rightarrow> bool" where
  "moves_ok ms \<longleftrightarrow> (\<forall>j m. hm_get ms j = Some m \<longrightarrow> in_i64 (sm_quantity m))"

lemma moves_ok_insert: "moves_ok ms \<Longrightarrow> in_i64 (sm_quantity m) \<Longrightarrow> moves_ok (hm_insert j m ms)"
  by (auto simp: moves_ok_def)

definition stock_inv :: "env \<Rightarrow> supply_state \<Rightarrow> bool" where
  "stock_inv e s \<longleftrightarrow> stock_ok e s \<and> moves_ok (stock_moves s)"

lemma stock_ok_moves [simp]: "stock_ok e (s\<lparr>stock_moves := ms\<rparr>) = stock_ok e s"
  by (simp add: stock_ok_def)

lemma stock_inv_cong:
  "inventory s' = inventory s \<Longrightarrow> stock_moves s' = stock_moves s \<Longrightarrow> stock_inv e s' = stock_inv e s"
  by (simp add: stock_inv_def stock_ok_def)

lemma stock_inv_add:
  "stock_inv e s \<Longrightarrow> plain_disp e \<Longrightarrow> in_i64 d \<Longrightarrow> stock_inv e (add_stock e k t p n l d s)"
  by (simp add: stock_inv_def stock_ok_add)

lemma stock_inv_move:
  "stock_inv e s \<Longrightarrow> moves_ok ms \<Longrightarrow> in_i64 (sm_quantity m) \<Longrightarrow>
     stock_inv e (s\<lparr>stock_moves := hm_insert j m ms\<rparr>)"
  by (simp add: stock_inv_def moves_ok_insert)

lemma stock_inv_movesD: "stock_inv e s \<Longrightarrow> moves_ok (stock_moves s)"
  by (simp add: stock_inv_def)

lemma stock_inv_publish [simp]: "stock_inv e (supply_publish e' t b s) = stock_inv e s"
  by (rule stock_inv_cong) simp_all

lemma stock_inv_orders [simp]: "stock_inv e (s\<lparr>purchase_orders := pos\<rparr>) = stock_inv e s"
  by (rule stock_inv_cong) simp_all

lemma in_i64_neg [simp]: "in_i64 (i64_neg q)"
  by (simp add: i64_neg_def)

lemma stock_inv_create_move:
  assumes "stock_inv e s" and "plain_disp e" and "in_i64 (sm_quantity m)"
  shows "stock_inv e (snd (create_stock_move e t m s))"
  unfolding create_stock_move_def Let_def
  using assms by (auto intro!: stock_inv_move stock_inv_add intro: stock_inv_movesD split: option.split)

lemma stock_inv_undo:
  assumes "stock_inv e s" and "plain_disp e" and "in_i64 (sm_quantity m)"
  shows "stock_inv e (undo_stock e t m s)"
  unfolding undo_stock_def Let_def
  using assms by (auto intro!: stock_inv_add split: option.split)

lemma stock_inv_reverse:
  assumes "stock_inv e s" and "plain_disp e"
  shows "stock_inv e (snd (reverse_stock_move e t sites i actor why s))"
proof (cases "hm_get (stock_moves s) i")
  case (Some m)
  let ?row = "compensating_row e m actor (trim why)"
  let ?s1 = "undo_stock e t m s"
  have q: "in_i64 (sm_quantity m)" "moves_ok (stock_moves s)"
    using assms(1) Some by (auto simp: stock_inv_def moves_ok_def)
  have undo: "stock_inv e ?s1" using assms q by (intro stock_inv_undo)
  have undo_moves: "stock_moves ?s1 = stock_moves s"
    by (simp add: undo_stock_def Let_def split: option.split)
  have row: "in_i64 (sm_quantity ?row)" using q by (simp add: compensating_row_def split: prod.split)
  let ?moves = "hm_insert (sm_id ?row) ?row (stock_moves s)"
  have moves: "moves_ok ?moves" using q row by (intro moves_ok_insert)
  then have "in_i64 (sm_quantity (mark_reversed actor now reason j m'))"
    if "hm_get ?moves i = Some m'" for m' now reason j
    using that unfolding moves_ok_def mark_reversed_def by auto
  then show ?thesis
    using Some assms(1) undo undo_moves moves
    by (auto simp: reverse_stock_move_def Let_def stock_inv_def intro: moves_ok_insert split: option.split)
next
  case None
  with assms(1) show ?thesis by (simp add: reverse_stock_move_def)
qed

lemma stock_inv_receive_stock:
  "stock_inv e s \<Longrightarrow> plain_disp e \<Longrightarrow> in_i64 (rs_quantity req) \<Longrightarrow>
     stock_inv e (snd (receive_stock e t sites req s))"
  unfolding receive_stock_def Let_def
  by (auto intro!: stock_inv_move stock_inv_add intro: stock_inv_movesD)

lemma stock_inv_adjust:
  assumes "stock_inv e s" and "in_i64 q"
  shows "stock_inv e (snd (adjust_inventory e t p l q why s))"
proof (cases "hm_get (inventory s) (inventory_key e t p l)")
  case None
  with assms(1) show ?thesis by (simp add: adjust_inventory_def Let_def)
next
  case (Some old)
  with assms(1) have old: "quantities_ok old" "inventory_key e t p l = row_key e old"
    by (simp_all add: stock_inv_def stock_ok_def)
  define h where "h = max (i64_add (ii_quantity_on_hand old) q) 0"
  have h: "0 \<le> h" "in_i64 h" by (simp_all add: h_def)
  with old have "i64_sub h (ii_quantity_reserved old) = h - ii_quantity_reserved old"
    by (intro i64_sub_exact) (simp add: in_i64_def quantities_ok_def)
  note exact = this
  let ?item = "old\<lparr>ii_quantity_on_hand := h,
      ii_quantity_available := max (i64_sub h (ii_quantity_reserved old)) 0\<rparr>"
  from exact have item: "quantities_ok ?item" "inventory_key e t p l = row_key e ?item"
    using old h by (simp_all add: quantities_ok_def row_key_def)
  have "snd (adjust_inventory e t p l q why s) =
      s\<lparr>inventory := hm_insert (inventory_key e t p l) ?item (inventory s)\<rparr>"
    using Some by (simp add: adjust_inventory_def Let_def h_def)
  with item assms(1) show ?thesis by (auto simp: stock_inv_def stock_ok_def)
qed

lemma stock_inv_delete: "stock_inv e s \<Longrightarrow> stock_inv e (snd (delete_inventory e' t i s))"
  by (auto simp: delete_inventory_def stock_inv_def stock_ok_def split: option.split)

lemma stock_inv_lines:
  "stock_inv e s \<Longrightarrow> plain_disp e \<Longrightarrow> \<forall>l \<in> set ls. in_i64 (snd (snd l)) \<Longrightarrow>
     stock_inv e (stock_lines e k t ls s)"
  by (induction e k t ls s rule: stock_lines.induct) (auto intro: stock_inv_add)

lemma stock_inv_receive_line:
  "stock_inv e s \<Longrightarrow> plain_disp e \<Longrightarrow> in_i64 q \<Longrightarrow> stock_inv e (snd (receive_po_line e t sites i p q s))"
  by (auto simp: receive_po_line_def Let_def split: option.split sum.split intro!: stock_inv_add)

lemma stock_inv_receive_full:
  "stock_inv e s \<Longrightarrow> plain_disp e \<Longrightarrow> stock_inv e (snd (receive_full_po e t sites i s))"
  by (auto simp: receive_full_po_def Let_def open_lines_def open_quantity_def
      split: option.split intro!: stock_inv_lines)

text \<open>Every call but the free-form update of a row keeps it.\<close>

fun keeps_stock :: "supply_call \<Rightarrow> bool" where
  "keeps_stock (UpdateInventory i item) = False"
| "keeps_stock _ = True"

definition stock_call :: "supply_call \<Rightarrow> bool" where
  "stock_call c = (case c of ReceivePoLine _ _ _ _ \<Rightarrow> True | ReceiveFullPo _ _ \<Rightarrow> True
     | AdjustInventory _ _ _ _ \<Rightarrow> True | UpdateInventory _ _ \<Rightarrow> True | DeleteInventory _ \<Rightarrow> True
     | CreateStockMove _ \<Rightarrow> True | ReverseStockMove _ _ _ _ \<Rightarrow> True | ReceiveStock _ _ \<Rightarrow> True
     | _ \<Rightarrow> False)"

lemma stock_frame:
  "\<not> stock_call c \<Longrightarrow> inventory (supply_next e t c s) = inventory s
     \<and> stock_moves (supply_next e t c s) = stock_moves s"
  by (cases c)
    (auto simp: stock_call_def sales_ops create_purchase_order_def assign_receiving_site_def
      update_purchase_order_def delete_purchase_order_def Let_def
      split: option.split if_splits sum.splits prod.splits)

lemma stock_inv_next:
  assumes "stock_inv e s" and "plain_disp e" and "well_typed c" and "keeps_stock c"
  shows "stock_inv e (supply_next e t c s)"
proof (cases "stock_call c")
  case False
  with stock_frame [of c e t s] assms(1) show ?thesis by (simp add: stock_inv_def stock_ok_def)
next
  case True
  with assms show ?thesis
    by (cases c) (auto simp: stock_call_def intro: stock_inv_create_move stock_inv_reverse
        stock_inv_receive_stock stock_inv_adjust stock_inv_delete stock_inv_receive_line
        stock_inv_receive_full)
qed

lemma stock_inv_env: "disp e' = disp e \<Longrightarrow> stock_inv e' s = stock_inv e s"
  using stock_ok_env [of e' e s] by (simp add: stock_inv_def)

lemma stock_inv_reachable:
  assumes "supply_reachable dsp keeps_stock k s" and "disp e = dsp" and "plain_disp e"
  shows "stock_inv e s"
  using assms
proof (induction rule: supply_reachable.induct)
  case (init bus)
  then show ?case
    by (simp add: stock_inv_def new_supply_stock_ok moves_ok_def) (simp add: new_supply_def)
next
  case (call k s e' c t)
  then have "disp e' = disp e" "plain_disp e'" by (auto simp: plain_env [of e' e])
  then show ?case
    using stock_inv_next [of e' s c t] stock_inv_env [of e' e] call by simp
qed

text \<open>C33.
  Stock never goes wrong. After any sequence of calls of the service other than the free-form
  update of an inventory row, whatever their arguments, each stock row is stored under the key
  of its own tenant, product and location, there is at most one row per such place, its
  quantity on hand is not negative, and its available quantity is what is on hand less what is
  reserved, cut off at zero.
\<close>

theorem stock_rows_consistent:
  assumes "supply_reachable (disp e) keeps_stock k s" and "plain_disp e"
    and "(key, i) \<in> set (inventory s)"
  shows "key = inventory_key e (ii_tenant_id i) (ii_product_id i) (ii_location i)
    \<and> (\<forall>key' j. (key', j) \<in> set (inventory s) \<longrightarrow> ii_tenant_id j = ii_tenant_id i \<longrightarrow>
        ii_product_id j = ii_product_id i \<longrightarrow> ii_location j = ii_location i \<longrightarrow> key' = key \<and> j = i)
    \<and> 0 \<le> ii_quantity_on_hand i
    \<and> ii_quantity_available i = max (ii_quantity_on_hand i - ii_quantity_reserved i) 0"
proof -
  have ok: "stock_ok e s"
    using stock_inv_reachable [OF assms(1) refl assms(2)] by (simp add: stock_inv_def)
  then have wf: "hm_wf (inventory s)" by (simp add: stock_ok_def)
  have row: "key = row_key e i \<and> quantities_ok i" if "(key, i) \<in> set (inventory s)" for key i
    using ok that by (auto simp: stock_ok_def ht.entries_get)
  have "key' = key \<and> j = i" if "(key', j) \<in> set (inventory s)" "ii_tenant_id j = ii_tenant_id i"
      "ii_product_id j = ii_product_id i" "ii_location j = ii_location i" for key' j
  proof -
    have "key' = key" using row [OF that(1)] row [OF assms(3)] that by (simp add: row_key_def)
    with that(1) assms(3) show ?thesis using ht.entry_unique [OF wf] by blast
  qed
  with row [OF assms(3)] show ?thesis by (auto simp: row_key_def quantities_ok_def)
qed

lemma stock_rows_consistent_witness:
  "let s = supply_next (demo_at 1) 1 (ReceiveStock [] \<lparr>rs_product_id = 3, rs_location = Some ''A'',
       rs_quantity = 7, rs_lot = None, rs_reason = ''count''\<rparr>) (new_supply None)
   in \<forall>(key, i) \<in> set (inventory s). key = inventory_key (demo_at 1) 1 3 ''A''"
proof -
  let ?c = "ReceiveStock [] \<lparr>rs_product_id = 3, rs_location = Some ''A'',
       rs_quantity = 7, rs_lot = None, rs_reason = ''count''\<rparr>"
  let ?s = "supply_next (demo_at 1) 1 ?c (new_supply None)"
  have "supply_reachable (disp (demo_at 1)) keeps_stock 1 ?s"
    unfolding One_nat_def
    by (rule supply_reachable.call [OF supply_reachable.init]) (simp_all add: in_i64_def)
  moreover have "map (\<lambda>p. (ii_tenant_id (snd p), ii_product_id (snd p), ii_location (snd p)))
      (inventory ?s) = [(1, 3, ''A'')]" by code_simp
  ultimately show ?thesis
    using stock_rows_consistent [of "demo_at 1" 1 ?s, OF _ plain_demo_at]
    by (auto simp del: supply_next.simps One_nat_def simp: Let_def)
qed


section \<open>Orders keep their identity and their site\<close>

definition sales_call :: "supply_call \<Rightarrow> bool" where
  "sales_call c = (case c of ConvertQuote _ _ \<Rightarrow> True | CreateSalesOrder _ \<Rightarrow> True
     | UpdateSalesOrderStatus _ _ _ \<Rightarrow> True | AssignFulfillmentSite _ _ _ \<Rightarrow> True
     | ConfirmSalesOrder _ _ _ \<Rightarrow> True | UpdateSalesOrder _ _ _ \<Rightarrow> True
     | DeleteSalesOrder _ _ \<Rightarrow> True | _ \<Rightarrow> False)"

lemma sales_frame:
  "\<not> sales_call c \<Longrightarrow> sales_orders (supply_next e t c s) = sales_orders s
     \<and> so_counter (supply_next e t c s) = so_counter s"
  by (cases c)
    (auto simp: sales_call_def sales_ops purchase_ops stock_ops Let_def
      split: option.split if_splits sum.splits prod.splits)

definition purchase_call :: "supply_call \<Rightarrow> bool" where
  "purchase_call c = (case c of CreatePurchaseOrder _ \<Rightarrow> True | AssignReceivingSite _ _ _ \<Rightarrow> True
     | UpdatePurchaseOrder _ _ _ \<Rightarrow> True | DeletePurchaseOrder _ _ \<Rightarrow> True
     | ReceivePoLine _ _ _ _ \<Rightarrow> True | ReceiveFullPo _ _ \<Rightarrow> True | _ \<Rightarrow> False)"

lemma purchase_frame:
  "\<not> purchase_call c \<Longrightarrow> purchase_orders (supply_next e t c s) = purchase_orders s
     \<and> po_counter (supply_next e t c s) = po_counter s"
  by (cases c)
    (auto simp: purchase_call_def sales_ops purchase_ops stock_ops Let_def
      split: option.split if_splits sum.splits prod.splits)

text \<open>What a mutation may not touch on an order that stays on file.\<close>

definition same_sales_order :: "sales_order \<Rightarrow> sales_order \<Rightarrow> bool" where
  "same_sales_order a b \<longleftrightarrow> so_id b = so_id a \<and> so_tenant_id b = so_tenant_id a
     \<and> so_order_number b = so_order_number a \<and> so_created_by b = so_created_by a
     \<and> so_created_at b = so_created_at a
     \<and> (so_fulfilling_site_id a \<noteq> None \<longrightarrow> so_fulfilling_site_id b = so_fulfilling_site_id a)"

definition same_purchase_order :: "purchase_order \<Rightarrow> purchase_order \<Rightarrow> bool" where
  "same_purchase_order a b \<longleftrightarrow> po_id b = po_id a \<and> po_tenant_id b = po_tenant_id a
     \<and> po_po_number b = po_po_number a \<and> po_created_by b = po_created_by a
     \<and> po_created_at b = po_created_at a
     \<and> (po_receiving_site_id a \<noteq> None \<longrightarrow> po_receiving_site_id b = po_receiving_site_id a)"

text \<open>
  The site of an order is immutable, and so is its identity. Whatever call is made on the
  service, a sales or purchase order on file keeps its id, tenant, number, author and instant of
  creation, and its fulfilling or receiving site once one is named, unless the call deletes it;
  and a call that is not the deletion of that order by a caller of its tenant and site does not
  take it off file.
\<close>

theorem order_identity_immutable:
  assumes "fresh e 0 \<noteq> i"
  shows "(case hm_get (sales_orders s) i of None \<Rightarrow> True
      | Some so \<Rightarrow> (case hm_get (sales_orders (supply_next e t c s)) i of
            None \<Rightarrow> (\<exists>sites. c = DeleteSalesOrder sites i \<and> so_tenant_id so = t \<and> so_owned sites so)
          | Some so' \<Rightarrow> same_sales_order so so'))
    \<and> (case hm_get (purchase_orders s) i of None \<Rightarrow> True
      | Some po \<Rightarrow> (case hm_get (purchase_orders (supply_next e t c s)) i of
            None \<Rightarrow> (\<exists>sites. c = DeletePurchaseOrder sites i \<and> po_owned t sites po)
          | Some po' \<Rightarrow> same_purchase_order po po'))"
proof -
  have "case hm_get (sales_orders s) i of None \<Rightarrow> True
      | Some so \<Rightarrow> (case hm_get (sales_orders (supply_next e t c s)) i of
            None \<Rightarrow> (\<exists>sites. c = DeleteSalesOrder sites i \<and> so_tenant_id so = t \<and> so_owned sites so)
          | Some so' \<Rightarrow> same_sales_order so so')"
  proof (cases "sales_call c")
    case False
    then show ?thesis
      using sales_frame [of c e t s] by (simp add: same_sales_order_def split: option.split)
  next
    case True
    with assms show ?thesis
      by (cases c)
        (auto simp: sales_call_def same_sales_order_def convert_quote_to_order_def
          create_sales_order_def update_sales_order_status_def assign_fulfillment_site_def
          confirm_sales_order_with_site_def update_sales_order_def delete_sales_order_def
          is_some_and_def Let_def split: option.splits if_splits)
  qed
  moreover have "case hm_get (purchase_orders s) i of None \<Rightarrow> True
      | Some po \<Rightarrow> (case hm_get (purchase_orders (supply_next e t c s)) i of
            None \<Rightarrow> (\<exists>sites. c = DeletePurchaseOrder sites i \<and> po_owned t sites po)
          | Some po' \<Rightarrow> same_purchase_order po po')"
  proof (cases "purchase_call c")
    case False
    then show ?thesis
      using purchase_frame [of c e t s] by (simp add: same_purchase_order_def split: option.split)
  next
    case True
    with assms show ?thesis
      by (cases c)
        (auto simp: purchase_call_def same_purchase_order_def purchase_ops
          is_some_and_def Let_def split: option.splits if_splits sum.splits prod.splits)
  qed
  ultimately show ?thesis by blast
qed


definition demo_so :: sales_order where
  "demo_so = \<lparr>so_id = 0, so_tenant_id = 0, so_order_number = [], so_customer_id = 6,
     so_customer_name = ''acme'', so_status = [], so_line_items = [], so_total_amount = 16,
     so_currency = ''EUR'', so_delivery_date = None, so_shipping_address = [], so_created_by = 8,
     so_created_at = 0, so_fulfilling_site_id = Some 5\<rparr>"

definition demo_sales :: supply_state where
  "demo_sales = snd (create_sales_order (demo_at 1) 1 demo_so (new_supply (Some [])))"

lemma demo_sales_sel:
  "hm_get (sales_orders demo_sales) 10 = Some (demo_so\<lparr>so_id := 10, so_tenant_id := 1,
     so_order_number := generate_so_number (demo_at 1) (u64_wrap 1), so_status := ''pending'',
     so_created_at := clock (demo_at 1) 0\<rparr>)"
  by (simp add: demo_sales_def create_sales_order_def Let_def new_supply_def)

lemma order_identity_immutable_witness:
  "\<exists>so'. hm_get (sales_orders (supply_next (demo_at 2) 1 (AssignFulfillmentSite [5, 6] 10 6) demo_sales)) 10
     = Some so' \<and> so_fulfilling_site_id so' = Some 5"
proof -
  have "fresh (demo_at 2) 0 \<noteq> 10" by simp
  from order_identity_immutable [OF this, where s = demo_sales and t = 1
      and c = "AssignFulfillmentSite [5, 6] 10 6"]
  show ?thesis
    by (auto simp: demo_sales_sel same_sales_order_def demo_so_def simp del: supply_next.simps
        split: option.splits)
qed

section \<open>A quote becomes at most one order\<close>

fun supply_run :: "(env \<times> uuid \<times> supply_call) list \<Rightarrow> supply_state \<Rightarrow> supply_state" where
  "supply_run [] s = s"
| "supply_run ((e, t, c) # cs) s = supply_run cs (supply_next e t c s)"

definition no_open_quote :: "uuid \<Rightarrow> supply_state \<Rightarrow> bool" where
  "no_open_quote i s \<longleftrightarrow> is_none_or (hm_get (quotes s) i) (\<lambda>q. qt_status q = ''converted'')"

lemma no_open_quote_next:
  assumes "no_open_quote i s" and "fresh e 0 \<noteq> i" and "\<And>new. c \<noteq> UpdateQuote i new"
  shows "no_open_quote i (supply_next e t c s)"
proof (cases "quote_call c")
  case False
  with quotes_frame [of c e t s] assms(1) show ?thesis by (simp add: no_open_quote_def)
next
  case True
  with assms show ?thesis
    by (cases c)
      (auto simp: quote_call_def no_open_quote_def is_none_or_def create_quote_def approve_quote_def
        convert_quote_to_order_def update_quote_def delete_quote_def submit_quote_def
        accept_quote_def reject_quote_def Let_def split: option.splits if_splits)
qed

lemma no_open_quote_run:
  "no_open_quote i s \<Longrightarrow> \<forall>(e, t, c) \<in> set cs. fresh e 0 \<noteq> i \<and> (\<forall>new. c \<noteq> UpdateQuote i new) \<Longrightarrow>
     no_open_quote i (supply_run cs s)"
  by (induction cs s rule: supply_run.induct) (auto intro: no_open_quote_next)

text \<open>A quote is converted at most once. A conversion that succeeds files one new pending order
  of the caller's tenant with the quote's customer, currency and total and one line per quote
  line at its net price, nothing delivered and no site named, and marks the quote converted;
  and after it no sequence of calls, short of a free-form update of that quote, makes it
  convertible again: every further conversion fails.
\<close>

theorem quote_converted_once:
  assumes "convert_quote_to_order e t i actor s = (Ok so, s1)"
    and "\<forall>(e', t', c) \<in> set cs. fresh e' 0 \<noteq> i \<and> (\<forall>new. c \<noteq> UpdateQuote i new)"
  shows "\<exists>q. hm_get (quotes s) i = Some q \<and> qt_status q \<noteq> ''converted''
    \<and> hm_get (quotes s1) i = Some (q\<lparr>qt_status := ''converted''\<rparr>)
    \<and> sales_orders s1 = hm_insert (fresh e 0) so (sales_orders s) \<and> so_tenant_id so = t
    \<and> so_customer_id so = qt_customer_id q \<and> so_currency so = qt_currency q
    \<and> so_total_amount so = qt_total_amount q \<and> so_status so = ''pending''
    \<and> so_fulfilling_site_id so = None
    \<and> list_all2 (\<lambda>li si. si_product_id si = ql_product_id li \<and> si_product_name si = ql_product_name li
        \<and> si_quantity si = ql_quantity li \<and> si_unit_price si = ql_net_price li
        \<and> si_delivered_quantity si = 0) (qt_line_items q) (so_line_items so)
    \<and> (\<forall>e2 t2 actor2. \<exists>err. convert_quote_to_order e2 t2 i actor2 (supply_run cs s1)
        = (Err err, supply_run cs s1))"
proof -
  from assms(1) obtain q where q: "hm_get (quotes s) i = Some q" "qt_status q \<noteq> ''converted''"
    by (auto simp: convert_quote_to_order_def split: option.splits if_splits)
  with assms(1) have s1: "hm_get (quotes s1) i = Some (q\<lparr>qt_status := ''converted''\<rparr>)"
    by (auto simp: convert_quote_to_order_def Let_def)
  then have "no_open_quote i s1" by (simp add: no_open_quote_def)
  then have "no_open_quote i (supply_run cs s1)" using assms(2) by (rule no_open_quote_run)
  then have "\<exists>err. convert_quote_to_order e2 t2 i actor2 (supply_run cs s1) = (Err err, supply_run cs s1)"
    for e2 t2 actor2
    by (auto simp: convert_quote_to_order_def no_open_quote_def is_none_or_def split: option.splits)
  with assms(1) q s1 show ?thesis
    by (auto simp: convert_quote_to_order_def Let_def list_all2_map2 order_line_def
        intro: list.rel_refl)
qed

definition demo_quote :: quote where
  "demo_quote = \<lparr>qt_id = 0, qt_tenant_id = 0, qt_quote_number = [], qt_rfq_id = None,
     qt_customer_id = 6, qt_customer_name = ''acme'', qt_status = [],
     qt_line_items = [\<lparr>ql_product_id = 3, ql_product_name = ''bolt'', ql_quantity = 2,
       ql_unit_price = 9, ql_discount_percentage = 0, ql_net_price = 8\<rparr>],
     qt_total_amount = 16, qt_currency = ''EUR'', qt_valid_until = 0, qt_created_by = 8,
     qt_created_at = 0\<rparr>"

definition demo_quotes :: supply_state where
  "demo_quotes = snd (create_quote (demo_at 1) 1 demo_quote (new_supply (Some [])))"

lemma quote_converted_once_witness:
  "\<exists>err. fst (convert_quote_to_order (demo_at 4) 1 10 8
     (supply_run [(demo_at 3, 1, ApproveQuote 10)]
       (snd (convert_quote_to_order (demo_at 2) 1 10 8 demo_quotes)))) = Err err"
proof -
  let ?r = "convert_quote_to_order (demo_at 2) 1 10 8 demo_quotes"
  have "\<not> isl (fst ?r)" by code_simp
  then have "?r = (Ok (projr (fst ?r)), snd ?r)" by (cases "fst ?r") (auto simp: prod_eq_iff)
  from quote_converted_once [OF this, of "[(demo_at 3, 1, ApproveQuote 10)]"]
  have "\<exists>err. convert_quote_to_order (demo_at 4) 1 10 8 (supply_run [(demo_at 3, 1, ApproveQuote 10)] (snd ?r))
      = (Err err, supply_run [(demo_at 3, 1, ApproveQuote 10)] (snd ?r))"
    by (simp del: supply_run.simps) blast
  then show ?thesis by (auto simp del: supply_run.simps)
qed

text \<open>
  The update resets the status, so that a converted quote converts again; and a draft that
  nobody approved converts as well.
\<close>

lemma quote_converted_twice:
  "let s1 = snd (convert_quote_to_order (demo_at 2) 1 10 8 demo_quotes);
       s2 = snd (update_quote 1 10 (demo_quote\<lparr>qt_status := ''draft''\<rparr>) s1);
       r = convert_quote_to_order (demo_at 3) 1 10 8 s2
   in \<not> isl (fst r) \<and> length (sales_orders (snd r)) = 2"
  by code_simp


section \<open>Document numbers\<close>

text \<open>
  The contract that the four numbered tables share: a call either files one document under the
  next value of the table's counter, or leaves the counter and every number as they are.
\<close>

locale numbered_documents =
  fixes table :: "supply_state \<Rightarrow> (uuid, 'd) hmap"
    and counter :: "supply_state \<Rightarrow> nat"
    and num :: "'d \<Rightarrow> string"
    and pre :: string
  assumes new_table: "table (new_supply bus) = []"
    and new_counter: "counter (new_supply bus) = 0"
    and filed: "(counter (supply_next e t c s) = counter s
        \<and> (\<forall>j d'. hm_get (table (supply_next e t c s)) j = Some d' \<longrightarrow>
            (\<exists>d. hm_get (table s) j = Some d \<and> num d' = num d)))
      \<or> (counter (supply_next e t c s) = u64_wrap (counter s + 1)
        \<and> (\<exists>j d. table (supply_next e t c s) = hm_insert j d (table s)
            \<and> num d = doc_number pre e (u64_wrap (counter s + 1))))"
begin

definition numbered :: "supply_state \<Rightarrow> bool" where
  "numbered s \<longleftrightarrow> (\<forall>j d. hm_get (table s) j = Some d \<longrightarrow>
      (\<exists>e n. n \<le> counter s \<and> length (today e) = 8 \<and> num d = doc_number pre e n))
    \<and> (\<forall>i j a b. hm_get (table s) i = Some a \<longrightarrow> hm_get (table s) j = Some b \<longrightarrow> i \<noteq> j \<longrightarrow> num a \<noteq> num b)"

lemma numbered_next:
  assumes "numbered s" and "counter s + 1 < 2 ^ 64" and "length (today e) = 8"
  shows "numbered (supply_next e t c s) \<and> counter (supply_next e t c s) \<le> counter s + 1"
  using filed [of e t c s]
proof
  assume keep: "counter (supply_next e t c s) = counter s
        \<and> (\<forall>j d'. hm_get (table (supply_next e t c s)) j = Some d' \<longrightarrow>
            (\<exists>d. hm_get (table s) j = Some d \<and> num d' = num d))"
  then show ?thesis using assms(1) unfolding numbered_def by (metis le_add1)
next
  assume "counter (supply_next e t c s) = u64_wrap (counter s + 1)
        \<and> (\<exists>j d. table (supply_next e t c s) = hm_insert j d (table s)
            \<and> num d = doc_number pre e (u64_wrap (counter s + 1)))"
  moreover have "u64_wrap (counter s + 1) = counter s + 1" using assms(2) by (simp add: u64_wrap_def)
  ultimately obtain j d where cnt: "counter (supply_next e t c s) = counter s + 1"
      and tbl: "table (supply_next e t c s) = hm_insert j d (table s)"
      and num: "num d = doc_number pre e (counter s + 1)" by auto
  have new: "num a \<noteq> num d" if "hm_get (table s) i = Some a" for i a
  proof
    assume eq: "num a = num d"
    from assms(1) that obtain e' n where n: "n \<le> counter s" "length (today e') = 8"
        "num a = doc_number pre e' n" unfolding numbered_def by blast
    with eq num have "doc_number pre e (counter s + 1) = doc_number pre e' n" by simp
    from doc_number_inject [OF _ this] n(2) assms(3) have "counter s + 1 = n" by simp
    with n(1) show False by simp
  qed
  have "(\<exists>e n. n \<le> counter s + 1 \<and> length (today e) = 8 \<and> num a = doc_number pre e n)"
    if "hm_get (hm_insert j d (table s)) i = Some a" for i a
  proof (cases "i = j")
    case True
    with that num assms(3) show ?thesis by auto
  next
    case False
    with that have "hm_get (table s) i = Some a" by simp
    with assms(1) obtain e' n where "n \<le> counter s" "length (today e') = 8"
        "num a = doc_number pre e' n" unfolding numbered_def by blast
    then show ?thesis by (intro exI [of _ e'] exI [of _ n]) simp
  qed
  moreover have "num a \<noteq> num b" if "hm_get (hm_insert j d (table s)) i = Some a"
      "hm_get (hm_insert j d (table s)) i' = Some b" "i \<noteq> i'" for i i' a b
    using that new new [symmetric] assms(1) unfolding numbered_def by (auto split: if_splits)
  ultimately show ?thesis unfolding numbered_def by (simp add: tbl cnt)
qed

lemma numbered_reachable:
  "supply_reachable dsp P k s \<Longrightarrow> k < 2 ^ 64 \<Longrightarrow> numbered s \<and> counter s \<le> k"
proof (induction rule: supply_reachable.induct)
  case (init bus)
  then show ?case by (simp add: numbered_def new_table new_counter)
next
  case (call k s e c t)
  then show ?case using numbered_next [of s e t c] by fastforce
qed

lemma distinct_numbers:
  "supply_reachable dsp P k s \<Longrightarrow> k < 2 ^ 64 \<Longrightarrow> hm_get (table s) i = Some a \<Longrightarrow>
     hm_get (table s) j = Some b \<Longrightarrow> num a = num b \<Longrightarrow> i = j"
  using numbered_reachable [of dsp P k s] unfolding numbered_def by blast

end

interpretation so_numbers: numbered_documents sales_orders so_counter so_order_number "''SO''"
proof (unfold_locales, goal_cases)
  case (3 e t c s)
  consider (other) "\<not> sales_call c" | (create) so where "c = CreateSalesOrder so"
    | (convert) i actor where "c = ConvertQuote i actor"
    | (edit) "sales_call c" "\<And>so. c \<noteq> CreateSalesOrder so" "\<And>i actor. c \<noteq> ConvertQuote i actor"
    by (cases c) (auto simp: sales_call_def)
  then show ?case
  proof cases
    case other
    then show ?thesis using sales_frame [of c e t s] by simp
  next
    case create
    obtain d where d: "fst (create_sales_order e t so s) = Inr d"
      by (simp add: create_sales_order_def Let_def)
    then have "sales_orders (supply_next e t c s) = hm_insert (fresh e 0) d (sales_orders s)"
        "so_order_number d = doc_number ''SO'' e (u64_wrap (so_counter s + 1))"
        "so_counter (supply_next e t c s) = u64_wrap (so_counter s + 1)"
      by (auto simp: create create_sales_order_def generate_so_number_def Let_def)
    then show ?thesis by blast
  next
    case convert
    show ?thesis
    proof (cases "fst (convert_quote_to_order e t i actor s)")
      case (Inl err)
      then have "snd (convert_quote_to_order e t i actor s) = s"
        by (auto simp: convert_quote_to_order_def Let_def split: option.splits if_splits)
      with convert show ?thesis by simp
    next
      case (Inr so)
      then have "sales_orders (supply_next e t c s) = hm_insert (fresh e 0) so (sales_orders s)"
          "so_order_number so = doc_number ''SO'' e (u64_wrap (so_counter s + 1))"
          "so_counter (supply_next e t c s) = u64_wrap (so_counter s + 1)"
        by (auto simp: convert convert_quote_to_order_def generate_so_number_def Let_def
            split: option.splits if_splits)
      then show ?thesis by blast
    qed
  next
    case edit
    then show ?thesis
      by (cases c) (auto simp: sales_call_def sales_ops Let_def split: option.split)
  qed
qed (simp_all add: new_supply_def)

interpretation po_numbers: numbered_documents purchase_orders po_counter po_po_number "''PO''"
proof (unfold_locales, goal_cases)
  case (3 e t c s)
  consider (other) "\<not> purchase_call c" | (create) po where "c = CreatePurchaseOrder po"
    | (edit) "purchase_call c" "\<And>po. c \<noteq> CreatePurchaseOrder po"
    by (cases c) (auto simp: purchase_call_def)
  then show ?case
  proof cases
    case other
    then show ?thesis using purchase_frame [of c e t s] by simp
  next
    case create
    obtain d where d: "fst (create_purchase_order e t po s) = Inr d"
      by (simp add: create_purchase_order_def Let_def)
    then have "purchase_orders (supply_next e t c s) = hm_insert (fresh e 0) d (purchase_orders s)"
        "po_po_number d = doc_number ''PO'' e (u64_wrap (po_counter s + 1))"
        "po_counter (supply_next e t c s) = u64_wrap (po_counter s + 1)"
      by (auto simp: create create_purchase_order_def generate_po_number_def Let_def)
    then show ?thesis by blast
  next
    case edit
    then show ?thesis
      by (cases c) (auto simp: purchase_call_def purchase_ops Let_def
          split: option.split sum.split prod.split)
  qed
qed (simp_all add: new_supply_def)


text \<open>
  Document numbers are unique. In every state that fewer than \<open>2 ^ 64\<close> calls reach, over all
  tenants and across days, two sales orders with the same number are the same order, and two
  purchase orders with the same number are the same order; this holds past the four digits the
  counter is padded to, and after deletions and conversions.
\<close>

theorem order_numbers_unique:
  assumes "supply_reachable dsp P k s" and "k < 2 ^ 64"
  shows "(hm_get (sales_orders s) i = Some a \<longrightarrow> hm_get (sales_orders s) j = Some b \<longrightarrow>
      so_order_number a = so_order_number b \<longrightarrow> i = j)
    \<and> (hm_get (purchase_orders s) i' = Some a' \<longrightarrow> hm_get (purchase_orders s) j' = Some b' \<longrightarrow>
      po_po_number a' = po_po_number b' \<longrightarrow> i' = j')"
  using so_numbers.distinct_numbers [OF assms] po_numbers.distinct_numbers [OF assms] by blast

lemma order_numbers_unique_witness:
  "let s = supply_next (demo_at 2) 1 (CreateSalesOrder demo_so) demo_sales
   in so_order_number (the (hm_get (sales_orders s) 10)) \<noteq> so_order_number (the (hm_get (sales_orders s) 20))"
proof -
  let ?s = "supply_next (demo_at 2) 1 (CreateSalesOrder demo_so) demo_sales"
  have "supply_reachable show_nat (\<lambda>_. True) (Suc 0) demo_sales"
    unfolding demo_sales_def
    using supply_reachable.call [OF supply_reachable.init, of "demo_at 1" show_nat "CreateSalesOrder demo_so"]
    by simp
  then have "supply_reachable show_nat (\<lambda>_. True) (Suc (Suc 0)) ?s"
    by (rule supply_reachable.call) simp_all
  moreover have "map fst (sales_orders ?s) = [10, 20]" by code_simp
  then have "hm_get (sales_orders ?s) 10 \<noteq> None" "hm_get (sales_orders ?s) 20 \<noteq> None"
    by (auto simp: hm_get_def map_of_eq_None_iff simp del: supply_next.simps)
  ultimately show ?thesis
    using order_numbers_unique [of show_nat "\<lambda>_. True" "Suc (Suc 0)" ?s 10 _ 20]
    by (fastforce simp: Let_def simp del: supply_next.simps)
qed

section \<open>Site scope of sales orders\<close>

datatype so_op =
    GetSalesOrder
  | SetStatus string
  | AnchorAt uuid
  | ConfirmAt uuid
  | EditOrder sales_order
  | RemoveOrder

definition failed :: "'a res \<times> supply_state \<Rightarrow> sensei_error option \<times> supply_state" where
  "failed r = (case fst r of Inl err \<Rightarrow> Some err | Inr _ \<Rightarrow> None, snd r)"

fun so_run :: "uuid \<Rightarrow> uuid list \<Rightarrow> uuid \<Rightarrow> so_op \<Rightarrow> supply_state \<Rightarrow> sensei_error option \<times> supply_state" where
  "so_run t sites i GetSalesOrder s = failed (get_sales_order_scoped t sites i s, s)"
| "so_run t sites i (SetStatus st) s = failed (update_sales_order_status t sites i st s)"
| "so_run t sites i (AnchorAt site) s = failed (assign_fulfillment_site t sites i site s)"
| "so_run t sites i (ConfirmAt site) s = failed (confirm_sales_order_with_site t sites i site s)"
| "so_run t sites i (EditOrder new) s = failed (update_sales_order t sites i new s)"
| "so_run t sites i RemoveOrder s = failed (delete_sales_order t sites i s)"

text \<open>
  A sales order fulfilled at a site outside the caller's sites is nonexistent to every
  site-scoped operation: it fails with exactly the error it gives for an unknown id and changes
  nothing. The same holds for an order of another tenant, except that setting the status does
  not look at the tenant.
\<close>

lemma foreign_sales_order_is_nonexistent:
  assumes "hm_get (sales_orders s) i = Some so"
    and "(\<exists>site. so_fulfilling_site_id so = Some site \<and> site \<notin> set sites)
      \<or> so_tenant_id so \<noteq> t \<and> (\<forall>st. c \<noteq> SetStatus st)"
    and "hm_get (sales_orders other) i = None"
  shows "\<exists>err. so_run t sites i c s = (Some err, s) \<and> so_run t sites i c other = (Some err, other)"
  using assms
  by (cases c)
    (auto simp: failed_def get_sales_order_scoped_def update_sales_order_status_def
      assign_fulfillment_site_def confirm_sales_order_with_site_def update_sales_order_def
      delete_sales_order_def so_owned_def so_readable_def split: option.splits)

lemma foreign_sales_order_is_nonexistent_witness:
  "\<exists>err. so_run 1 [6] 10 (ConfirmAt 6) demo_sales = (Some err, demo_sales)"
  using foreign_sales_order_is_nonexistent [OF demo_sales_sel, where t = 1 and sites = "[6]"
      and other = "new_supply None" and c = "ConfirmAt 6"]
  by (auto simp: demo_so_def new_supply_def)

section \<open>Where the tenant is not looked at\<close>

text \<open>The status of an order of tenant 1, set by a caller of tenant 2.\<close>

lemma status_set_across_tenants:
  "map_option so_status (hm_get (sales_orders (snd (update_sales_order_status 2 [5] 10 ''cancelled''
     demo_sales))) 10) = Some ''cancelled'' \<and> map_option so_tenant_id (hm_get (sales_orders demo_sales) 10) = Some 1"
  by code_simp

text \<open>The unscoped reads and the mutations of requests and quotes ignore the tenant.\<close>

lemma tenant_ignored:
  "get_rfq t i s = get_rfq t' i s" "get_quote t i s = get_quote t' i s"
  "get_sales_order t i s = get_sales_order t' i s" "get_purchase_order t i s = get_purchase_order t' i s"
  "delete_rfq t i s = delete_rfq t' i s" "delete_quote t i s = delete_quote t' i s"
  "update_quote t i q s = update_quote t' i q s" "update_rfq t i r s = update_rfq t' i r s"
  by (simp_all add: get_rfq_def get_quote_def get_sales_order_def get_purchase_order_def
      delete_rfq_def delete_quote_def update_quote_def update_rfq_def)

end
