(* ===== verification/Access_Scope.thy ===== *)
theory Access_Scope
  imports Sql_Model
begin

text \<open>
  The authorization core of \<open>sensei-core\<close>: the typed operational scope
  (\<open>domain/scope.rs\<close>) and the server-created request context
  (\<open>domain/request_context.rs\<close>). The topology and assignment tables the two read are
  lists of rows; row-level security shows a transaction the rows of its tenant only. What
  PostgreSQL does on its own account (a statement that fails, the text of its errors) is a
  parameter of the functions that query it.
\<close>

section \<open>Scopes and resources\<close>

datatype work_center_scope = WorkCenterScope (wcs_site: uuid) (wcs_work_center: uuid)

datatype resource_scope =
    Tenant
  | Site uuid
  | WorkCenter uuid uuid
  | Unresolved

datatype authorized_scope =
    NoOperationalScope
  | TenantWide
  | Operational "uuid set" "work_center_scope set"

definition tenant_wide :: authorized_scope where
  "tenant_wide = TenantWide"

fun allows_site :: "authorized_scope \<Rightarrow> uuid \<Rightarrow> bool" where
  "allows_site NoOperationalScope _ = False"
| "allows_site TenantWide _ = True"
| "allows_site (Operational sites _) site = (site \<in> sites)"

fun allows_work_center :: "authorized_scope \<Rightarrow> uuid \<Rightarrow> uuid \<Rightarrow> bool" where
  "allows_work_center NoOperationalScope _ _ = False"
| "allows_work_center TenantWide _ _ = True"
| "allows_work_center (Operational sites wcs) site wc =
     (site \<in> sites \<or> (\<exists>w \<in> wcs. wcs_site w = site \<and> wcs_work_center w = wc))"

fun enforce_resource :: "authorized_scope \<Rightarrow> resource_scope \<Rightarrow> unit res" where
  "enforce_resource _ Unresolved =
     Err (Forbidden [Txt ''resource scope is unresolved - no data is authorized''])"
| "enforce_resource sc Tenant =
     (case sc of TenantWide \<Rightarrow> Ok ()
      | _ \<Rightarrow> Err (Forbidden
          [Txt ''a tenant-level resource is outside the caller's authorized scope'']))"
| "enforce_resource sc (Site site) =
     (if allows_site sc site then Ok ()
      else Err (Forbidden [Txt ''resource site is outside the caller's authorized scope'']))"
| "enforce_resource sc (WorkCenter site wc) =
     (if allows_work_center sc site wc then Ok ()
      else Err (Forbidden
          [Txt ''resource work center is outside the caller's authorized scope'']))"

text \<open>The deprecated pair form, mapped to an explicit resource.\<close>

fun legacy_resource :: "uuid option \<Rightarrow> uuid option \<Rightarrow> resource_scope" where
  "legacy_resource None None = Tenant"
| "legacy_resource (Some site) None = Site site"
| "legacy_resource (Some site) (Some wc) = WorkCenter site wc"
| "legacy_resource None (Some _) = Unresolved"

definition enforce :: "authorized_scope \<Rightarrow> uuid option \<Rightarrow> uuid option \<Rightarrow> unit res" where
  "enforce sc site wc = enforce_resource sc (legacy_resource site wc)"

section \<open>Resolution from the role-slot tables\<close>

record role_slot =
  rs_id :: uuid
  rs_tenant :: uuid
  rs_scope_kind :: string
  rs_scope_site_id :: "uuid option"
  rs_scope_work_center_id :: "uuid option"

record principal_assignment =
  pa_tenant :: uuid
  pa_principal_id :: uuid
  pa_slot_id :: uuid
  pa_ended_at :: "timestamp option"

type_synonym slot_row = "string \<times> uuid option \<times> uuid option"

text \<open>
  \<open>SELECT ... FROM principal_assignments pa JOIN role_slots rs ON rs.id = pa.slot_id
  WHERE pa.principal_id = $1 AND pa.ended_at IS NULL\<close>, both tables under row-level security.
\<close>

definition active_slots ::
    "principal_assignment list \<Rightarrow> role_slot list \<Rightarrow> uuid \<Rightarrow> uuid \<Rightarrow> slot_row list" where
  "active_slots pas slots tenant prin =
     concat (map (\<lambda>pa.
         map (\<lambda>rs. (rs_scope_kind rs, rs_scope_site_id rs, rs_scope_work_center_id rs))
           (filter (\<lambda>rs. rs_tenant rs = tenant \<and> rs_id rs = pa_slot_id pa) slots))
       (filter (\<lambda>pa. pa_tenant pa = tenant \<and> pa_principal_id pa = prin
                     \<and> pa_ended_at pa = None) pas))"

text \<open>The loop that collects the grants of the slots.\<close>

fun collect_grants ::
    "slot_row list \<Rightarrow> uuid set \<Rightarrow> work_center_scope set \<Rightarrow> uuid set \<times> work_center_scope set" where
  "collect_grants [] sites wcs = (sites, wcs)"
| "collect_grants ((kind, site, wc) # rows) sites wcs =
     (if kind = ''site'' then
        (case site of Some s \<Rightarrow> collect_grants rows (insert s sites) wcs
         | None \<Rightarrow> collect_grants rows sites wcs)
      else if kind = ''work_center'' then
        (case (site, wc) of
           (Some s, Some w) \<Rightarrow> collect_grants rows sites (insert (WorkCenterScope s w) wcs)
         | _ \<Rightarrow> collect_grants rows sites wcs)
      else collect_grants rows sites wcs)"

definition resolve_slots :: "slot_row list \<Rightarrow> authorized_scope" where
  "resolve_slots slots =
     (if slots = [] then NoOperationalScope
      else if list_ex (\<lambda>(kind, _, _). kind = ''tenant'') slots then TenantWide
      else (case collect_grants slots {} {} of
              (sites, wcs) \<Rightarrow>
                if sites = {} \<and> wcs = {} then NoOperationalScope else Operational sites wcs))"

section \<open>The request context\<close>

record operational_focus =
  of_site :: "uuid option"
  of_value_stream :: "uuid option"
  of_work_center :: "uuid option"
  of_shift :: "uuid option"

definition focus_is_empty :: "operational_focus \<Rightarrow> bool" where
  "focus_is_empty f \<longleftrightarrow> of_site f = None \<and> of_value_stream f = None
     \<and> of_work_center f = None \<and> of_shift f = None"

record request_context =
  rc_tenant :: uuid
  rc_principal :: uuid
  rc_scope :: authorized_scope
  rc_focus :: operational_focus
  rc_locale :: "string option"
  rc_timezone :: "string option"
  rc_currency :: "string option"
  rc_country_policy_revision :: "nat option"
  rc_trace_id :: string

definition no_site_error :: "string \<Rightarrow> uuid \<Rightarrow> sensei_error" where
  "no_site_error label i = Validation [Txt ''active '', FStr label, Txt '' '', FId i,
     Txt '' requires an active site context - a '', FStr label,
     Txt '' without a site is unrepresentable'']"

definition site_authorized :: "authorized_scope \<Rightarrow> uuid \<Rightarrow> uuid option \<Rightarrow> bool" where
  "site_authorized sc site focus_wc =
     (case sc of TenantWide \<Rightarrow> True
      | Operational sites wcs \<Rightarrow> site \<in> sites
          \<or> is_some_and focus_wc (\<lambda>w. \<exists>x \<in> wcs. wcs_site x = site \<and> wcs_work_center x = w)
      | NoOperationalScope \<Rightarrow> False)"

definition validate_operating_scope :: "request_context \<Rightarrow> unit res" where
  "validate_operating_scope c =
     (if rc_scope c = NoOperationalScope then
        (if focus_is_empty (rc_focus c) then Ok ()
         else Err (Validation [Txt ''principal has no operational scope - no operating focus may be set (no entitlement -> no operating context)'']))
      else (case of_site (rc_focus c) of
        Some site \<Rightarrow>
          if site_authorized (rc_scope c) site (of_work_center (rc_focus c)) then Ok ()
          else Err (Validation [Txt ''operating site '', FId site, Txt '' is not among the principal's authorized sites - the operating context is unauthorized''])
      | None \<Rightarrow>
          (case of_work_center (rc_focus c) of Some i \<Rightarrow> Err (no_site_error ''work center'' i)
           | None \<Rightarrow>
          (case of_shift (rc_focus c) of Some i \<Rightarrow> Err (no_site_error ''shift'' i)
           | None \<Rightarrow>
          (case of_value_stream (rc_focus c) of Some i \<Rightarrow> Err (no_site_error ''value stream'' i)
           | None \<Rightarrow> Ok ())))))"

definition has_entitlement :: "request_context \<Rightarrow> bool" where
  "has_entitlement c =
     (case rc_scope c of NoOperationalScope \<Rightarrow> False | TenantWide \<Rightarrow> True
      | Operational sites wcs \<Rightarrow> sites \<noteq> {} \<or> wcs \<noteq> {})"

definition authorized_sites :: "request_context \<Rightarrow> uuid list" where
  "authorized_sites c =
     (case rc_scope c of NoOperationalScope \<Rightarrow> [] | TenantWide \<Rightarrow> []
      | Operational sites _ \<Rightarrow> sorted_list_of_set sites)"

definition active_site :: "request_context \<Rightarrow> uuid option" where
  "active_site c = of_site (rc_focus c)"

section \<open>Building a context from the database\<close>

text \<open>
  The rows the builder reads. \<open>work_centers.site_id\<close> and \<open>shifts.site_id\<close> are nullable
  columns, \<open>value_streams.site_id\<close> is not.
\<close>

record anchored_row =
  ar_id :: uuid
  ar_tenant :: uuid
  ar_site_id :: "uuid option"

record site_row =
  si_id :: uuid
  si_tenant :: uuid
  si_country :: "string option"

record policy_row =
  cp_tenant :: uuid
  cp_country :: string
  cp_language :: string
  cp_timezone :: string
  cp_currency :: string

record policy_version_row =
  cv_tenant :: uuid
  cv_country :: string
  cv_revision :: int
  cv_valid_from :: timestamp
  cv_valid_until :: "timestamp option"

record scope_db =
  db_assignments :: "principal_assignment list"
  db_slots :: "role_slot list"
  db_work_centers :: "anchored_row list"
  db_shifts :: "anchored_row list"
  db_value_streams :: "anchored_row list"
  db_sites :: "site_row list"
  db_policies :: "policy_row list"
  db_policy_versions :: "policy_version_row list"

definition sql_stmt :: "pg \<Rightarrow> nat \<Rightarrow> string \<Rightarrow> 'a \<Rightarrow> 'a res" where
  "sql_stmt f n label x =
     (case stmt_error f n of Some e \<Rightarrow> Err (Database [Txt label, FStr e]) | None \<Rightarrow> Ok x)"

text \<open>\<open>SELECT site_id FROM <table> WHERE id = $1\<close>, read as an optional UUID.\<close>

definition select_site ::
    "pg \<Rightarrow> nat \<Rightarrow> string \<Rightarrow> anchored_row list \<Rightarrow> uuid \<Rightarrow> uuid \<Rightarrow> uuid option res" where
  "select_site f n label rows tenant i =
     (case sql_stmt f n label (find (\<lambda>r. ar_tenant r = tenant \<and> ar_id r = i) rows) of
        Inl e \<Rightarrow> Inl e
      | Inr None \<Rightarrow> Ok None
      | Inr (Some r) \<Rightarrow>
          (case ar_site_id r of Some s \<Rightarrow> Ok (Some s)
           | None \<Rightarrow> Err (Database [Txt label, FStr (null_error f)])))"

definition resolve :: "pg \<Rightarrow> scope_db \<Rightarrow> uuid \<Rightarrow> uuid \<Rightarrow> authorized_scope res" where
  "resolve f db tenant prin =
     (case sql_stmt f 2 ''scope: resolve principal: ''
             (active_slots (db_assignments db) (db_slots db) tenant prin) of
        Inl e \<Rightarrow> Inl e
      | Inr slots \<Rightarrow> Ok (resolve_slots slots))"

text \<open>
  The consistency check of one active sub-scope (work center, shift or value stream): its row
  must exist in the tenant and its site must equal the active site.
\<close>

definition check_anchor ::
    "string \<Rightarrow> uuid option \<Rightarrow> uuid option \<Rightarrow> (uuid \<Rightarrow> uuid option res) \<Rightarrow> unit res" where
  "check_anchor label act_site item query =
     (case item of None \<Rightarrow> Ok ()
      | Some i \<Rightarrow>
        (case query i of
           Inl e \<Rightarrow> Inl e
         | Inr None \<Rightarrow> Err (Validation [Txt ''active '', FStr label, Txt '' '', FId i,
                              Txt '' does not exist in this tenant''])
         | Inr (Some actual) \<Rightarrow>
             (if act_site = Some actual then Ok ()
              else Err (Validation (case act_site of
                 Some site \<Rightarrow> [Txt ''active '', FStr label, Txt '' '', FId i,
                   Txt '' belongs to site '', FId actual, Txt '', not '', FId site,
                   Txt '' - the operating context is inconsistent'']
               | None \<Rightarrow> [Txt ''active '', FStr label, Txt '' '', FId i,
                   Txt '' belongs to site '', FId actual, Txt '' but no active site is set - a '',
                   FStr label, Txt '' without a site context is unrepresentable''])))))"

text \<open>The effective policy version: the lateral subquery, latest first.\<close>

definition version_before :: "policy_version_row \<Rightarrow> policy_version_row \<Rightarrow> bool" where
  "version_before a b \<longleftrightarrow> cv_valid_from b < cv_valid_from a
     \<or> (cv_valid_from a = cv_valid_from b \<and> cv_revision b < cv_revision a)"

fun pick_version :: "policy_version_row list \<Rightarrow> policy_version_row option" where
  "pick_version [] = None"
| "pick_version (v # vs) =
     (case pick_version vs of None \<Rightarrow> Some v
      | Some w \<Rightarrow> if version_before w v then Some w else Some v)"

definition effective_revision :: "pg \<Rightarrow> scope_db \<Rightarrow> uuid \<Rightarrow> string \<Rightarrow> int option" where
  "effective_revision f db tenant country =
     map_option cv_revision (pick_version (filter (\<lambda>v.
        cv_tenant v = tenant \<and> cv_country v = country \<and> cv_valid_from v \<le> db_now f
        \<and> is_none_or (cv_valid_until v) (\<lambda>u. db_now f < u)) (db_policy_versions db)))"

definition policy_of_site ::
    "pg \<Rightarrow> scope_db \<Rightarrow> uuid \<Rightarrow> uuid \<Rightarrow> (string \<times> string \<times> string \<times> int option) option"
where
  "policy_of_site f db tenant site =
     (case find (\<lambda>s. si_tenant s = tenant \<and> si_id s = site) (db_sites db) of
        None \<Rightarrow> None
      | Some s \<Rightarrow>
        (case si_country s of None \<Rightarrow> None
         | Some c \<Rightarrow>
           (case find (\<lambda>p. cp_tenant p = tenant \<and> cp_country p = c) (db_policies db) of
              None \<Rightarrow> None
            | Some p \<Rightarrow> Some (cp_language p, cp_timezone p, cp_currency p,
                               effective_revision f db tenant c))))"

definition i64_as_u64 :: "int \<Rightarrow> nat" where
  "i64_as_u64 i = nat (i mod 2 ^ 64)"

definition build ::
    "pg \<Rightarrow> scope_db \<Rightarrow> uuid \<Rightarrow> uuid \<Rightarrow> uuid option \<Rightarrow> uuid option \<Rightarrow> uuid option
      \<Rightarrow> uuid option \<Rightarrow> string \<Rightarrow> request_context res" where
  "build f db tenant prin act_site act_vs act_wc act_shift trace =
     (case sql_stmt f 0 ''request-context: begin tx: '' () of Inl e \<Rightarrow> Inl e | Inr _ \<Rightarrow>
     (case sql_stmt f 1 ''request-context: begin tx: '' () of Inl e \<Rightarrow> Inl e | Inr _ \<Rightarrow>
     (case resolve f db tenant prin of Inl e \<Rightarrow> Inl e | Inr sc \<Rightarrow>
     (case check_anchor ''work center'' act_site act_wc
             (select_site f 3 ''request-context: wc site: '' (db_work_centers db) tenant) of
        Inl e \<Rightarrow> Inl e | Inr _ \<Rightarrow>
     (case check_anchor ''shift'' act_site act_shift
             (select_site f 4 ''request-context: shift site: '' (db_shifts db) tenant) of
        Inl e \<Rightarrow> Inl e | Inr _ \<Rightarrow>
     (case check_anchor ''value stream'' act_site act_vs
             (select_site f 5 ''request-context: value stream site: ''
                (db_value_streams db) tenant) of
        Inl e \<Rightarrow> Inl e | Inr _ \<Rightarrow>
     (case (case act_site of None \<Rightarrow> Ok None
            | Some site \<Rightarrow> sql_stmt f 6 ''request-context: country policy: ''
                             (policy_of_site f db tenant site)) of
        Inl e \<Rightarrow> Inl e | Inr policy \<Rightarrow>
     (case sql_stmt f 7 ''request-context: rollback: '' () of Inl e \<Rightarrow> Inl e | Inr _ \<Rightarrow>
       (let c = \<lparr>rc_tenant = tenant, rc_principal = prin, rc_scope = sc,
                 rc_focus = \<lparr>of_site = act_site, of_value_stream = act_vs,
                             of_work_center = act_wc, of_shift = act_shift\<rparr>,
                 rc_locale = map_option fst policy,
                 rc_timezone = map_option (fst \<circ> snd) policy,
                 rc_currency = map_option (fst \<circ> snd \<circ> snd) policy,
                 rc_country_policy_revision =
                   Option.bind policy (map_option i64_as_u64 \<circ> snd \<circ> snd \<circ> snd),
                 rc_trace_id = trace\<rparr>
        in (case validate_operating_scope c of Inl e \<Rightarrow> Inl e | Inr _ \<Rightarrow> Ok c))))))))))"


section \<open>What the resolution grants\<close>

lemma collect_grants_eq:
  "collect_grants rows sites wcs =
     (sites \<union> {s. \<exists>wc. (''site'', Some s, wc) \<in> set rows},
      wcs \<union> {WorkCenterScope s w | s w. (''work_center'', Some s, Some w) \<in> set rows})"
  by (induction rows sites wcs rule: collect_grants.induct) (auto split: option.splits)

lemma list_ex_tenant:
  "list_ex (\<lambda>(kind, _, _). kind = ''tenant'') rows \<longleftrightarrow> (\<exists>a b. (''tenant'', a, b) \<in> set rows)"
  by (auto simp: list_ex_iff)

lemma resolve_slots_TenantWide:
  "resolve_slots rows = TenantWide \<longleftrightarrow> (\<exists>a b. (''tenant'', a, b) \<in> set rows)"
  by (auto simp: resolve_slots_def list_ex_tenant collect_grants_eq)

text \<open>A slot row covers a resource: the abstract meaning of a grant.\<close>

fun row_covers :: "slot_row \<Rightarrow> resource_scope \<Rightarrow> bool" where
  "row_covers (kind, site, wc) Unresolved = False"
| "row_covers (kind, site, wc) Tenant = (kind = ''tenant'')"
| "row_covers (kind, site, wc) (Site s) =
     (kind = ''tenant'' \<or> (kind = ''site'' \<and> site = Some s))"
| "row_covers (kind, site, wc) (WorkCenter s w) =
     (kind = ''tenant'' \<or> (kind = ''site'' \<and> site = Some s)
      \<or> (kind = ''work_center'' \<and> site = Some s \<and> wc = Some w))"

lemma enforce_TenantWide: "enforce_resource TenantWide r = Ok () \<longleftrightarrow> r \<noteq> Unresolved"
  by (cases r) auto

lemma enforce_site: "enforce_resource sc (Site s) = Ok () \<longleftrightarrow> allows_site sc s"
  by simp

lemma enforce_NoScope: "enforce_resource NoOperationalScope r \<noteq> Ok ()"
  by (cases r) auto

lemma resolve_slots_Operational:
  assumes "\<not> (\<exists>a b. (''tenant'', a, b) \<in> set rows)"
  shows "enforce_resource (resolve_slots rows) r = Ok () \<longleftrightarrow>
    enforce_resource (Operational {s. \<exists>wc. (''site'', Some s, wc) \<in> set rows}
      {WorkCenterScope s w | s w. (''work_center'', Some s, Some w) \<in> set rows}) r = Ok ()"
  using assms
  by (cases r)
    (auto simp: resolve_slots_def list_ex_tenant collect_grants_eq)

lemma enforce_resolve_slots:
  "enforce_resource (resolve_slots rows) r = Ok () \<longleftrightarrow> (\<exists>row \<in> set rows. row_covers row r)"
proof (cases "\<exists>a b. (''tenant'', a, b) \<in> set rows")
  case True
  then have "resolve_slots rows = TenantWide" by (simp add: resolve_slots_TenantWide)
  moreover have "r \<noteq> Unresolved \<longleftrightarrow> (\<exists>row \<in> set rows. row_covers row r)"
    using True by (cases r) (auto, force+)
  ultimately show ?thesis by (simp add: enforce_TenantWide)
next
  case False
  then show ?thesis
    unfolding resolve_slots_Operational [OF False] by (cases r) (auto, force+)
qed

lemma set_active_slots:
  "row \<in> set (active_slots pas slots tenant prn) \<longleftrightarrow>
     (\<exists>pa \<in> set pas. \<exists>rs \<in> set slots.
        pa_tenant pa = tenant \<and> pa_principal_id pa = prn \<and> pa_ended_at pa = None
        \<and> rs_tenant rs = tenant \<and> rs_id rs = pa_slot_id pa
        \<and> row = (rs_scope_kind rs, rs_scope_site_id rs, rs_scope_work_center_id rs))"
  by (auto simp: active_slots_def)

lemma resolve_OkD:
  "resolve f db tenant prn = Ok sc \<Longrightarrow>
     sc = resolve_slots (active_slots (db_assignments db) (db_slots db) tenant prn)"
  by (auto simp: resolve_def sql_stmt_def split: option.splits)

section \<open>What a built context guarantees\<close>

lemma select_site_OkD:
  "select_site f n label rows tenant i = Ok (Some s) \<Longrightarrow>
     \<exists>r \<in> set rows. ar_tenant r = tenant \<and> ar_id r = i \<and> ar_site_id r = Some s"
  by (auto simp: select_site_def sql_stmt_def find_Some_iff split: option.splits sum.splits)

lemma check_anchor_OkD:
  assumes "check_anchor label act_site (Some i) q = Ok ()"
  shows "\<exists>s. q i = Ok (Some s) \<and> act_site = Some s"
  using assms by (auto simp: check_anchor_def split: sum.splits option.splits if_splits)

definition anchored :: "anchored_row list \<Rightarrow> uuid \<Rightarrow> uuid option \<Rightarrow> uuid option \<Rightarrow> bool" where
  "anchored rows tenant site item \<longleftrightarrow>
     is_none_or item (\<lambda>i. \<exists>r \<in> set rows. ar_tenant r = tenant \<and> ar_id r = i
       \<and> site \<noteq> None \<and> ar_site_id r = site)"

lemma check_anchor_anchored:
  assumes "check_anchor label site item (select_site f n l rows tenant) = Ok ()"
  shows "anchored rows tenant site item"
proof (cases item)
  case None
  then show ?thesis by (simp add: anchored_def)
next
  case (Some i)
  with assms obtain s where "select_site f n l rows tenant i = Ok (Some s)" and "site = Some s"
    using check_anchor_OkD by metis
  then show ?thesis using Some by (auto simp: anchored_def dest: select_site_OkD)
qed

lemma build_OkD:
  assumes "build f db tenant prn site vs wc shift trace = Ok c"
  shows "resolve f db tenant prn = Ok (rc_scope c)"
    and "validate_operating_scope c = Ok ()"
    and "anchored (db_work_centers db) tenant site wc"
    and "anchored (db_shifts db) tenant site shift"
    and "anchored (db_value_streams db) tenant site vs"
    and "rc_tenant c = tenant" and "rc_principal c = prn"
    and "rc_focus c = \<lparr>of_site = site, of_value_stream = vs, of_work_center = wc, of_shift = shift\<rparr>"
  using assms unfolding build_def
  by (auto simp: Let_def split: sum.splits intro: check_anchor_anchored)

lemma validate_OkD:
  assumes "validate_operating_scope c = Ok ()"
  shows "rc_scope c = NoOperationalScope \<Longrightarrow> focus_is_empty (rc_focus c)"
    and "of_site (rc_focus c) = Some s \<Longrightarrow>
           site_authorized (rc_scope c) s (of_work_center (rc_focus c))"
    and "of_site (rc_focus c) = None \<Longrightarrow> focus_is_empty (rc_focus c)"
  using assms
  by (auto simp: validate_operating_scope_def focus_is_empty_def
      split: if_splits option.splits)

lemma site_authorized_work_center:
  "site_authorized sc s (Some w) \<Longrightarrow> enforce_resource sc (WorkCenter s w) = Ok ()"
  by (cases sc) (auto simp: site_authorized_def)


section \<open>Properties\<close>

lemma enforced_by_slots:
  assumes "resolve f db tenant prn = Ok sc"
  shows "enforce_resource sc r = Ok () \<longleftrightarrow>
    (\<exists>pa \<in> set (db_assignments db). \<exists>rs \<in> set (db_slots db).
       pa_tenant pa = tenant \<and> pa_principal_id pa = prn \<and> pa_ended_at pa = None
       \<and> rs_tenant rs = tenant \<and> rs_id rs = pa_slot_id pa
       \<and> (case r of
            Unresolved \<Rightarrow> False
          | Tenant \<Rightarrow> rs_scope_kind rs = ''tenant''
          | Site s \<Rightarrow> rs_scope_kind rs = ''tenant''
              \<or> rs_scope_kind rs = ''site'' \<and> rs_scope_site_id rs = Some s
          | WorkCenter s w \<Rightarrow> rs_scope_kind rs = ''tenant''
              \<or> rs_scope_kind rs = ''site'' \<and> rs_scope_site_id rs = Some s
              \<or> rs_scope_kind rs = ''work_center'' \<and> rs_scope_site_id rs = Some s
                \<and> rs_scope_work_center_id rs = Some w))"
proof -
  have covers: "(case r of Unresolved \<Rightarrow> False
          | Tenant \<Rightarrow> rs_scope_kind rs = ''tenant''
          | Site s \<Rightarrow> rs_scope_kind rs = ''tenant''
              \<or> rs_scope_kind rs = ''site'' \<and> rs_scope_site_id rs = Some s
          | WorkCenter s w \<Rightarrow> rs_scope_kind rs = ''tenant''
              \<or> rs_scope_kind rs = ''site'' \<and> rs_scope_site_id rs = Some s
              \<or> rs_scope_kind rs = ''work_center'' \<and> rs_scope_site_id rs = Some s
                \<and> rs_scope_work_center_id rs = Some w)
      \<longleftrightarrow> row_covers (rs_scope_kind rs, rs_scope_site_id rs, rs_scope_work_center_id rs) r"
    for rs :: role_slot
    by (cases r) simp_all
  show ?thesis
    unfolding resolve_OkD [OF assms] enforce_resolve_slots covers Bex_def set_active_slots
    by blast
qed

text \<open>C3.
  Enforcement is exact. The scope that \<open>resolve\<close> reads for a principal authorizes a
  resource if and only if the principal has an assignment in that tenant that has not ended, to
  a role slot of that tenant whose scope covers the resource: a tenant slot every resolved one,
  a site slot that site and its work centers, a work-center slot only that work center at that
  site. An unresolved resource is never authorized, and without an assignment nothing is.
\<close>

theorem enforcement_exact:
  assumes "resolve f db tenant prn = Ok sc"
  shows "enforce_resource sc r = Ok () \<longleftrightarrow>
    (\<exists>pa \<in> set (db_assignments db). \<exists>rs \<in> set (db_slots db).
       pa_tenant pa = tenant \<and> pa_principal_id pa = prn \<and> pa_ended_at pa = None
       \<and> rs_tenant rs = tenant \<and> rs_id rs = pa_slot_id pa
       \<and> (case r of
            Unresolved \<Rightarrow> False
          | Tenant \<Rightarrow> rs_scope_kind rs = ''tenant''
          | Site s \<Rightarrow> rs_scope_kind rs = ''tenant''
              \<or> rs_scope_kind rs = ''site'' \<and> rs_scope_site_id rs = Some s
          | WorkCenter s w \<Rightarrow> rs_scope_kind rs = ''tenant''
              \<or> rs_scope_kind rs = ''site'' \<and> rs_scope_site_id rs = Some s
              \<or> rs_scope_kind rs = ''work_center'' \<and> rs_scope_site_id rs = Some s
                \<and> rs_scope_work_center_id rs = Some w))"
  by (rule enforced_by_slots [OF assms])

text \<open>
  Two principals of tenant 1: one with a slot on work center 4 of site 2, one whose
  assignment to the tenant slot has ended.
\<close>

definition demo_scope_db :: scope_db where
  "demo_scope_db = \<lparr>db_assignments =
       [\<lparr>pa_tenant = 1, pa_principal_id = 7, pa_slot_id = 20, pa_ended_at = None\<rparr>,
        \<lparr>pa_tenant = 1, pa_principal_id = 8, pa_slot_id = 21, pa_ended_at = Some 5\<rparr>],
     db_slots =
       [\<lparr>rs_id = 20, rs_tenant = 1, rs_scope_kind = ''work_center'', rs_scope_site_id = Some 2,
         rs_scope_work_center_id = Some 4\<rparr>,
        \<lparr>rs_id = 21, rs_tenant = 1, rs_scope_kind = ''tenant'', rs_scope_site_id = None,
         rs_scope_work_center_id = None\<rparr>],
     db_work_centers = [\<lparr>ar_id = 4, ar_tenant = 1, ar_site_id = Some 2\<rparr>],
     db_shifts = [], db_value_streams = [],
     db_sites = [\<lparr>si_id = 2, si_tenant = 1, si_country = None\<rparr>],
     db_policies = [], db_policy_versions = []\<rparr>"

lemma demo_resolve:
  "resolve no_faults demo_scope_db 1 7 = Ok (Operational {} {WorkCenterScope 2 4})"
  by (simp add: resolve_def sql_stmt_def demo_scope_db_def active_slots_def resolve_slots_def)

lemma demo_scope_sel:
  "db_work_centers demo_scope_db = [\<lparr>ar_id = 4, ar_tenant = 1, ar_site_id = Some 2\<rparr>]"
  "db_sites demo_scope_db = [\<lparr>si_id = 2, si_tenant = 1, si_country = None\<rparr>]"
  by (simp_all add: demo_scope_db_def)

lemma enforcement_exact_witness:
  "enforce_resource (Operational {} {WorkCenterScope 2 4}) (WorkCenter 2 4) = Ok ()
   \<and> enforce_resource (Operational {} {WorkCenterScope 2 4}) (WorkCenter 2 5) \<noteq> Ok ()
   \<and> enforce_resource (Operational {} {WorkCenterScope 2 4}) (Site 2) \<noteq> Ok ()"
  using enforcement_exact [OF demo_resolve, of "WorkCenter 2 4"]
    enforcement_exact [OF demo_resolve, of "WorkCenter 2 5"]
    enforcement_exact [OF demo_resolve, of "Site 2"]
  by (simp add: demo_scope_db_def)

text \<open>C7.
  A context that is built is consistent and authorized. It carries the tenant, the principal
  and the focus it was asked for, and its scope is the one that \<open>resolve\<close> reads for that
  principal; each work center, shift and value stream of the focus exists in the tenant and
  belongs to the focus site; a focus site is covered by an assignment of the principal in the
  tenant that has not ended, to a slot of the tenant, of that site, or of the very work center of
  the focus; without a focus site the focus is empty, and so it is for a principal whom nothing is
  authorized; and the sites handed to the repositories are, for any scope but the tenant-wide
  one, exactly the sites the scope authorizes, each once.
\<close>

theorem context_is_authorized:
  assumes "build f db tenant prn site vs wc shift trace = Ok c"
  shows "rc_tenant c = tenant \<and> rc_principal c = prn
    \<and> rc_focus c = \<lparr>of_site = site, of_value_stream = vs, of_work_center = wc, of_shift = shift\<rparr>
    \<and> anchored (db_work_centers db) tenant site wc \<and> anchored (db_shifts db) tenant site shift
    \<and> anchored (db_value_streams db) tenant site vs
    \<and> (\<forall>s. site = Some s \<longrightarrow> enforce_resource (rc_scope c) (Site s) = Ok ()
         \<or> (\<exists>w. wc = Some w \<and> enforce_resource (rc_scope c) (WorkCenter s w) = Ok ()))
    \<and> resolve f db tenant prn = Ok (rc_scope c)
    \<and> (\<forall>s. site = Some s \<longrightarrow> (\<exists>pa \<in> set (db_assignments db). \<exists>rs \<in> set (db_slots db).
         pa_tenant pa = tenant \<and> pa_principal_id pa = prn \<and> pa_ended_at pa = None
         \<and> rs_tenant rs = tenant \<and> rs_id rs = pa_slot_id pa
         \<and> (rs_scope_kind rs = ''tenant''
            \<or> rs_scope_kind rs = ''site'' \<and> rs_scope_site_id rs = Some s
            \<or> rs_scope_kind rs = ''work_center'' \<and> rs_scope_site_id rs = Some s
              \<and> wc \<noteq> None \<and> rs_scope_work_center_id rs = wc)))
    \<and> (site = None \<longrightarrow> vs = None \<and> wc = None \<and> shift = None)
    \<and> ((\<forall>r. enforce_resource (rc_scope c) r \<noteq> Ok ()) \<longrightarrow> focus_is_empty (rc_focus c))
    \<and> (rc_scope c \<noteq> TenantWide \<longrightarrow> distinct (authorized_sites c)
         \<and> (\<forall>s. s \<in> set (authorized_sites c) \<longleftrightarrow> enforce_resource (rc_scope c) (Site s) = Ok ()))"
proof -
  note b = build_OkD [OF assms]
  have fin: "finite sites" if "rc_scope c = Operational sites wcs" for sites wcs
  proof -
    let ?rows = "active_slots (db_assignments db) (db_slots db) tenant prn"
    have "resolve_slots ?rows = Operational sites wcs" using resolve_OkD [OF b(1)] that by simp
    then have "sites = {s. \<exists>wc. (''site'', Some s, wc) \<in> set ?rows}"
      by (auto simp: resolve_slots_def collect_grants_eq split: if_splits)
    also have "\<dots> \<subseteq> (\<lambda>(k, s, w). the s) ` set ?rows" by force
    finally show ?thesis by (rule finite_subset) simp
  qed
  have focus: "enforce_resource (rc_scope c) (Site s) = Ok ()
      \<or> (\<exists>w. wc = Some w \<and> enforce_resource (rc_scope c) (WorkCenter s w) = Ok ())"
    if "site = Some s" for s
    using validate_OkD(2) [OF b(2), of s] that
    by (auto simp: b(8) site_authorized_def is_some_and_def split: authorized_scope.splits option.splits)
  have none: "vs = None \<and> wc = None \<and> shift = None" if "site = None"
    using validate_OkD(3) [OF b(2)] that by (simp add: b(8) focus_is_empty_def)
  have empty: "focus_is_empty (rc_focus c)" if "\<forall>r. enforce_resource (rc_scope c) r \<noteq> Ok ()"
  proof (cases site)
    case None
    with none show ?thesis by (simp add: b(8) focus_is_empty_def)
  next
    case (Some a)
    have "enforce_resource (rc_scope c) (Site a) \<noteq> Ok ()"
      "enforce_resource (rc_scope c) (WorkCenter a w) \<noteq> Ok ()" for w
      using that by (rule spec)+
    with focus [OF Some] show ?thesis by (simp del: enforce_resource.simps)
  qed
  have sites: "distinct (authorized_sites c)
      \<and> (\<forall>s. s \<in> set (authorized_sites c) \<longleftrightarrow> enforce_resource (rc_scope c) (Site s) = Ok ())"
    if "rc_scope c \<noteq> TenantWide"
  proof (cases "rc_scope c")
    case (Operational sites wcs)
    with fin [OF this] show ?thesis
      by (simp add: authorized_sites_def enforce_site del: enforce_resource.simps)
  qed (use that in \<open>simp_all add: authorized_sites_def enforce_site del: enforce_resource.simps\<close>)
  have focus': "\<forall>s. site = Some s \<longrightarrow> enforce_resource (rc_scope c) (Site s) = Ok ()
      \<or> (\<exists>w. wc = Some w \<and> enforce_resource (rc_scope c) (WorkCenter s w) = Ok ())"
    using focus by (intro allI impI)
  have slots: "\<forall>s. site = Some s \<longrightarrow> (\<exists>pa \<in> set (db_assignments db). \<exists>rs \<in> set (db_slots db).
         pa_tenant pa = tenant \<and> pa_principal_id pa = prn \<and> pa_ended_at pa = None
         \<and> rs_tenant rs = tenant \<and> rs_id rs = pa_slot_id pa
         \<and> (rs_scope_kind rs = ''tenant''
            \<or> rs_scope_kind rs = ''site'' \<and> rs_scope_site_id rs = Some s
            \<or> rs_scope_kind rs = ''work_center'' \<and> rs_scope_site_id rs = Some s
              \<and> wc \<noteq> None \<and> rs_scope_work_center_id rs = wc))"
  proof (intro allI impI)
    fix s assume "site = Some s"
    then have "enforce_resource (rc_scope c) (Site s) = Ok ()
        \<or> (\<exists>w. wc = Some w \<and> enforce_resource (rc_scope c) (WorkCenter s w) = Ok ())" by (rule focus)
    then show "\<exists>pa \<in> set (db_assignments db). \<exists>rs \<in> set (db_slots db).
         pa_tenant pa = tenant \<and> pa_principal_id pa = prn \<and> pa_ended_at pa = None
         \<and> rs_tenant rs = tenant \<and> rs_id rs = pa_slot_id pa
         \<and> (rs_scope_kind rs = ''tenant''
            \<or> rs_scope_kind rs = ''site'' \<and> rs_scope_site_id rs = Some s
            \<or> rs_scope_kind rs = ''work_center'' \<and> rs_scope_site_id rs = Some s
              \<and> wc \<noteq> None \<and> rs_scope_work_center_id rs = wc)"
      unfolding enforced_by_slots [OF b(1)] by (elim disjE exE conjE; simp; blast)
  qed
  note parts = b(6) b(7) b(8) b(3) b(4) b(5) focus' b(1) slots
  have none': "site = None \<longrightarrow> vs = None \<and> wc = None \<and> shift = None"
    by (rule impI) (rule none)
  have empty': "(\<forall>r. enforce_resource (rc_scope c) r \<noteq> Ok ()) \<longrightarrow> focus_is_empty (rc_focus c)"
    by (rule impI) (rule empty)
  have sites': "rc_scope c \<noteq> TenantWide \<longrightarrow> distinct (authorized_sites c)
      \<and> (\<forall>s. s \<in> set (authorized_sites c) \<longleftrightarrow> enforce_resource (rc_scope c) (Site s) = Ok ())"
    by (rule impI) (rule sites)
  show ?thesis by (rule conjI parts none' empty' sites')+
qed

lemma context_is_authorized_witness:
  "\<exists>c. build no_faults demo_scope_db 1 7 (Some 2) None (Some 4) None [] = Ok c \<and> authorized_sites c = []
     \<and> (\<exists>rs \<in> set (db_slots demo_scope_db). rs_tenant rs = 1 \<and> rs_id rs = 20)"
proof -
  obtain c where c: "build no_faults demo_scope_db 1 7 (Some 2) None (Some 4) None [] = Ok c"
      "rc_scope c = Operational {} {WorkCenterScope 2 4}"
    by (simp add: build_def demo_resolve sql_stmt_def check_anchor_def select_site_def
        policy_of_site_def demo_scope_sel Let_def validate_operating_scope_def
        site_authorized_def del: One_nat_def)
  have "\<forall>s. Some 2 = Some s \<longrightarrow> (\<exists>pa \<in> set (db_assignments demo_scope_db). \<exists>rs \<in> set (db_slots demo_scope_db).
         pa_tenant pa = 1 \<and> pa_principal_id pa = 7 \<and> pa_ended_at pa = None
         \<and> rs_tenant rs = 1 \<and> rs_id rs = pa_slot_id pa
         \<and> (rs_scope_kind rs = ''tenant''
            \<or> rs_scope_kind rs = ''site'' \<and> rs_scope_site_id rs = Some s
            \<or> rs_scope_kind rs = ''work_center'' \<and> rs_scope_site_id rs = Some s
              \<and> Some 4 \<noteq> None \<and> rs_scope_work_center_id rs = Some 4))"
    using context_is_authorized [OF c(1)] by blast
  then have "\<exists>rs \<in> set (db_slots demo_scope_db). rs_tenant rs = 1 \<and> rs_id rs = 20"
    by (simp add: demo_scope_db_def)
  moreover have "authorized_sites c = []" by (simp add: authorized_sites_def c(2))
  ultimately show ?thesis using c(1) by blast
qed

end
