(* ===== verification/Production.thy ===== *)
theory Production
  imports Access_Scope Domain_Events
begin

text \<open>
  The production service (\<open>sensei-services/src/production/mod.rs\<close>), in its in-memory
  implementation: work orders with their operations, production orders, bills of materials and
  requirements planning, every method under the request context of \<open>Access_Scope\<close>.
\<close>

section \<open>Data\<close>

record work_order =
  wo_id :: uuid
  wo_tenant_id :: uuid
  wo_wo_number :: string
  wo_product_id :: uuid
  wo_product_name :: string
  wo_quantity :: int
  wo_quantity_completed :: int
  wo_status :: string
  wo_work_center_id :: "uuid option"
  wo_priority :: string
  wo_scheduled_start :: "timestamp option"
  wo_scheduled_end :: "timestamp option"
  wo_actual_start :: "timestamp option"
  wo_actual_end :: "timestamp option"
  wo_quantity_scrapped :: int
  wo_short_close_qty :: int
  wo_short_close_reason :: "string option"
  wo_short_close_approved_by :: "uuid option"
  wo_short_close_at :: "timestamp option"
  wo_assigned_to :: "uuid list"
  wo_notes :: string
  wo_created_at :: timestamp
  wo_updated_at :: timestamp
  wo_source_sales_order_id :: "uuid option"
  wo_standard_work_id :: "uuid option"
  wo_product_revision_id :: "uuid option"
  wo_bom_revision_id :: "uuid option"
  wo_routing_revision_id :: "uuid option"
  wo_control_plan_revision_id :: "uuid option"
  wo_ctq_characteristic_set :: "uuid list"
  wo_tooling_revision :: "string option"
  wo_source_sales_order_line_id :: "uuid option"
  wo_customer_requirement_revision :: "string option"

record production_order =
  pr_id :: uuid
  pr_tenant_id :: uuid
  pr_order_number :: string
  pr_product_id :: uuid
  pr_quantity_planned :: int
  pr_quantity_produced :: int
  pr_quantity_scrapped :: int
  pr_status :: string
  pr_work_center_id :: "uuid option"
  pr_planned_start :: timestamp
  pr_planned_end :: timestamp
  pr_actual_start :: "timestamp option"
  pr_actual_end :: "timestamp option"
  pr_short_close_qty :: int
  pr_short_close_reason :: "string option"
  pr_short_close_approved_by :: "uuid option"
  pr_short_close_at :: "timestamp option"
  pr_created_at :: timestamp

record bom_item =
  bi_id :: uuid
  bi_tenant_id :: uuid
  bi_parent_product_id :: uuid
  bi_component_product_id :: uuid
  bi_component_name :: string
  bi_quantity :: decimal
  bi_unit_of_measure :: string
  bi_scrap_percent :: decimal

record mrp_record =
  mr_id :: uuid
  mr_tenant_id :: uuid
  mr_product_id :: uuid
  mr_gross_requirement :: decimal
  mr_scheduled_receipts :: decimal
  mr_projected_on_hand :: decimal
  mr_net_requirement :: decimal
  mr_planned_order_release :: decimal
  mr_time_phase_start :: timestamp
  mr_time_phase_end :: timestamp
  mr_unit_of_measure :: string

record wo_operation =
  op_id :: uuid
  op_work_order_id :: uuid
  op_operation_number :: int
  op_description :: string
  op_work_center_id :: "uuid option"
  op_setup_time_minutes :: "int option"
  op_run_time_minutes :: "int option"
  op_status :: string
  op_started_at :: "timestamp option"
  op_completed_at :: "timestamp option"
  op_created_at :: timestamp

record routing_step =
  st_work_center_id :: "uuid option"
  st_description :: string
  st_setup_time_minutes :: int
  st_run_time_minutes :: int

record work_order_list_filter =
  lf_status :: "string option"
  lf_work_center_id :: "uuid option"
  lf_page :: "nat option"
  lf_per_page :: "nat option"

record production_state =
  work_orders :: "(uuid, work_order) hmap"
  production_orders :: "(uuid, production_order) hmap"
  bom_items :: "(uuid, bom_item) hmap"
  mrp_records :: "(uuid, mrp_record) hmap"
  wo_operations :: "(uuid, wo_operation) hmap"
  routings :: "(uuid, routing_step list) hmap"
  inventory_on_hand :: "(uuid, int) hmap"
  wo_counter :: nat
  pr_counter :: nat
  production_bus :: event_log

definition new_production :: "event_log \<Rightarrow> production_state" where
  "new_production bus = \<lparr>work_orders = [], production_orders = [], bom_items = [],
     mrp_records = [], wo_operations = [], routings = [], inventory_on_hand = [],
     wo_counter = 0, pr_counter = 0, production_bus = bus\<rparr>"

definition seed_routing :: "uuid \<Rightarrow> routing_step list \<Rightarrow> production_state \<Rightarrow> production_state" where
  "seed_routing product steps s = s\<lparr>routings := hm_insert product steps (routings s)\<rparr>"

definition seed_inventory_on_hand :: "uuid \<Rightarrow> int \<Rightarrow> production_state \<Rightarrow> production_state" where
  "seed_inventory_on_hand product q s =
     s\<lparr>inventory_on_hand := hm_insert product q (inventory_on_hand s)\<rparr>"

definition production_publish ::
    "env \<Rightarrow> uuid \<Rightarrow> event_body \<Rightarrow> production_state \<Rightarrow> production_state" where
  "production_publish e tenant b s =
     s\<lparr>production_bus := publish_event (production_bus s) (new_event e tenant b)\<rparr>"

lemma production_publish_sel [simp]:
  "work_orders (production_publish e t b s) = work_orders s"
  "production_orders (production_publish e t b s) = production_orders s"
  "bom_items (production_publish e t b s) = bom_items s"
  "mrp_records (production_publish e t b s) = mrp_records s"
  "wo_operations (production_publish e t b s) = wo_operations s"
  "routings (production_publish e t b s) = routings s"
  "inventory_on_hand (production_publish e t b s) = inventory_on_hand s"
  "wo_counter (production_publish e t b s) = wo_counter s"
  "pr_counter (production_publish e t b s) = pr_counter s"
  by (simp_all add: production_publish_def)

section \<open>Scope\<close>

text \<open>The rows carry a work center and no site: what the scope says of a work center.\<close>

definition destination_granted :: "authorized_scope \<Rightarrow> uuid \<Rightarrow> bool" where
  "destination_granted sc dest =
     (case sc of NoOperationalScope \<Rightarrow> False | TenantWide \<Rightarrow> True
      | Operational sites wcs \<Rightarrow> sites \<noteq> {} \<or> (\<exists>wc \<in> wcs. wcs_work_center wc = dest))"

definition wo_in_scope :: "request_context \<Rightarrow> work_order \<Rightarrow> bool" where
  "wo_in_scope ctx wo \<longleftrightarrow> wo_tenant_id wo = rc_tenant ctx
     \<and> (case rc_scope ctx of NoOperationalScope \<Rightarrow> False | TenantWide \<Rightarrow> True
        | Operational sites wcs \<Rightarrow>
            (case wo_work_center_id wo of None \<Rightarrow> False
             | Some i \<Rightarrow> sites \<noteq> {} \<or> (\<exists>wc \<in> wcs. wcs_work_center wc = i)))"

definition po_in_scope :: "request_context \<Rightarrow> production_order \<Rightarrow> bool" where
  "po_in_scope ctx po \<longleftrightarrow> pr_tenant_id po = rc_tenant ctx
     \<and> (case rc_scope ctx of NoOperationalScope \<Rightarrow> False | TenantWide \<Rightarrow> True
        | Operational sites wcs \<Rightarrow>
            (case pr_work_center_id po of None \<Rightarrow> False
             | Some i \<Rightarrow> sites \<noteq> {} \<or> (\<exists>wc \<in> wcs. wcs_work_center wc = i)))"

definition tenant_entitled :: "request_context \<Rightarrow> bool" where
  "tenant_entitled ctx \<longleftrightarrow> rc_scope ctx \<noteq> NoOperationalScope"

text \<open>The destination check of the two create methods.\<close>

definition create_guard :: "string \<Rightarrow> string \<Rightarrow> request_context \<Rightarrow> uuid option \<Rightarrow> unit res" where
  "create_guard a what ctx dest =
     (if \<not> tenant_entitled ctx
      then Err (Forbidden [Txt ''principal has no operational scope - cannot create '', Txt what])
      else case dest of
        None \<Rightarrow> if rc_scope ctx = TenantWide then Ok ()
                else Err (Forbidden [Txt ''an unanchored '', Txt a, Txt '' requires the tenant-wide grant - anchor the order to a work center inside your scope''])
      | Some d \<Rightarrow> if destination_granted (rc_scope ctx) d then Ok ()
                  else Err (Forbidden [Txt ''the destination work center is outside the caller'',
                    Txt (CHR 0x27 # ''s authorized scope'')]))"

definition wo_missing :: "uuid \<Rightarrow> sensei_error" where
  "wo_missing i = NotFound [Txt ''Work order '', FId i, Txt '' not found'']"

definition po_missing :: "uuid \<Rightarrow> sensei_error" where
  "po_missing i = NotFound [Txt ''Production order '', FId i, Txt '' not found'']"

section \<open>Work orders\<close>

definition generate_wo_number :: "env \<Rightarrow> nat \<Rightarrow> string" where
  "generate_wo_number e n = doc_number ''WO'' e n"

definition generate_pr_number :: "env \<Rightarrow> nat \<Rightarrow> string" where
  "generate_pr_number e n = doc_number ''PO'' e n"

definition i32_wrap :: "int \<Rightarrow> int" where
  "i32_wrap x = (x + 2 ^ 31) mod 2 ^ 32 - 2 ^ 31"

definition operation_of :: "env \<Rightarrow> uuid \<Rightarrow> nat \<Rightarrow> routing_step \<Rightarrow> wo_operation" where
  "operation_of e wo k step = \<lparr>op_id = fresh e (200 + k), op_work_order_id = wo,
     op_operation_number = i32_wrap (int (k + 1)), op_description = st_description step,
     op_work_center_id = st_work_center_id step,
     op_setup_time_minutes = Some (st_setup_time_minutes step),
     op_run_time_minutes = Some (st_run_time_minutes step), op_status = ''pending'',
     op_started_at = None, op_completed_at = None, op_created_at = clock e 2\<rparr>"

fun insert_operations ::
    "env \<Rightarrow> uuid \<Rightarrow> nat \<Rightarrow> routing_step list \<Rightarrow> (uuid, wo_operation) hmap \<Rightarrow> (uuid, wo_operation) hmap"
where
  "insert_operations e wo k [] ops = ops"
| "insert_operations e wo k (step # steps) ops =
     insert_operations e wo (k + 1) steps
       (hm_insert (op_id (operation_of e wo k step)) (operation_of e wo k step) ops)"

definition generate_operations :: "env \<Rightarrow> work_order \<Rightarrow> production_state \<Rightarrow> production_state" where
  "generate_operations e wo s =
     (case hm_get (routings s) (wo_product_id wo) of
        None \<Rightarrow> s
      | Some steps \<Rightarrow>
          s\<lparr>wo_operations := insert_operations e (wo_id wo) 0 steps (wo_operations s)\<rparr>)"

definition wc_text :: "env \<Rightarrow> uuid option \<Rightarrow> string" where
  "wc_text e wc = (case wc of None \<Rightarrow> [] | Some i \<Rightarrow> disp e i)"

definition create_work_order ::
    "env \<Rightarrow> request_context \<Rightarrow> work_order \<Rightarrow> (production_state, work_order) action" where
  "create_work_order e ctx wo s =
     (case create_guard ''work order'' ''a work order'' ctx (wo_work_center_id wo) of
        Inl err \<Rightarrow> (Err err, s)
      | Inr _ \<Rightarrow>
        (let n = u64_wrap (wo_counter s + 1);
             wo' = wo\<lparr>wo_id := fresh e 0, wo_tenant_id := rc_tenant ctx,
                      wo_wo_number := generate_wo_number e n, wo_status := ''created'',
                      wo_quantity_completed := 0, wo_created_at := clock e 0,
                      wo_updated_at := clock e 1\<rparr>;
             s1 = s\<lparr>wo_counter := n, work_orders := hm_insert (wo_id wo') wo' (work_orders s)\<rparr>;
             s2 = generate_operations e wo' s1
         in (Ok wo', production_publish e (rc_tenant ctx)
               (WorkOrderCreated (wo_id wo') (wo_product_id wo') (wo_priority wo')
                  (wc_text e (wo_work_center_id wo'))) s2)))"

definition get_work_order :: "request_context \<Rightarrow> uuid \<Rightarrow> production_state \<Rightarrow> work_order res" where
  "get_work_order ctx i s =
     (case hm_get (work_orders s) i of
        None \<Rightarrow> Err (wo_missing i)
      | Some wo \<Rightarrow> if \<not> wo_in_scope ctx wo then Err (wo_missing i) else Ok wo)"

definition list_work_orders ::
    "env \<Rightarrow> request_context \<Rightarrow> work_order_list_filter \<Rightarrow> production_state \<Rightarrow> work_order paginated res"
where
  "list_work_orders e ctx f s =
     Ok (paginate (filter (\<lambda>wo. wo_in_scope ctx wo
            \<and> is_none_or (lf_status f) (\<lambda>st. wo_status wo = st)
            \<and> is_none_or (lf_work_center_id f) (\<lambda>wc. wo_work_center_id wo = Some wc))
          (hm_values (rank e) (work_orders s))) (lf_page f) (lf_per_page f))"

definition update_work_order_status ::
    "env \<Rightarrow> request_context \<Rightarrow> uuid \<Rightarrow> string \<Rightarrow> (production_state, work_order) action" where
  "update_work_order_status e ctx i status s =
     (case hm_get (work_orders s) i of
        None \<Rightarrow> (Err (wo_missing i), s)
      | Some wo \<Rightarrow>
          if \<not> wo_in_scope ctx wo then (Err (wo_missing i), s)
          else
            (let now = clock e 0;
                 wo1 = (if status = ''in_progress'' \<and> wo_actual_start wo = None
                        then wo\<lparr>wo_actual_start := Some now\<rparr> else wo);
                 wo2 = (if status = ''completed'' \<and> wo_actual_end wo1 = None
                        then wo1\<lparr>wo_actual_end := Some now\<rparr> else wo1);
                 wo3 = wo2\<lparr>wo_status := status, wo_updated_at := now\<rparr>
             in (Ok wo3, production_publish e (rc_tenant ctx)
                   (WorkOrderStatusChanged i (wo_wo_number wo3) (wo_status wo2) status uuid_nil)
                   (s\<lparr>work_orders := hm_insert i wo3 (work_orders s)\<rparr>))))"

definition update_work_order ::
    "env \<Rightarrow> request_context \<Rightarrow> uuid \<Rightarrow> work_order \<Rightarrow> (production_state, work_order) action" where
  "update_work_order e ctx i new s =
     (case hm_get (work_orders s) i of
        None \<Rightarrow> (Err (wo_missing i), s)
      | Some old \<Rightarrow>
          if \<not> wo_in_scope ctx old then (Err (wo_missing i), s)
          else
            (let wo = new\<lparr>wo_id := wo_id old, wo_tenant_id := wo_tenant_id old,
                        wo_wo_number := wo_wo_number old, wo_created_at := wo_created_at old,
                        wo_updated_at := clock e 0, wo_work_center_id := wo_work_center_id old\<rparr>;
                 wo' = (if wo_quantity_completed wo = 0 \<and> 0 < wo_quantity_completed old
                        then wo\<lparr>wo_quantity_completed := wo_quantity_completed old\<rparr> else wo)
             in (Ok wo', production_publish e (rc_tenant ctx)
                   (WorkOrderStatusChanged i (wo_wo_number wo') (wo_status old) (wo_status wo')
                      uuid_nil)
                   (s\<lparr>work_orders := hm_insert i wo' (work_orders s)\<rparr>))))"

definition reassign_work_order ::
    "env \<Rightarrow> request_context \<Rightarrow> uuid \<Rightarrow> uuid \<Rightarrow> (production_state, work_order) action" where
  "reassign_work_order e ctx i dest s =
     (case hm_get (work_orders s) i of
        None \<Rightarrow> (Err (wo_missing i), s)
      | Some wo \<Rightarrow>
          if \<not> wo_in_scope ctx wo then (Err (wo_missing i), s)
          else if (case rc_scope ctx of Operational _ _ \<Rightarrow> \<not> destination_granted (rc_scope ctx) dest
                   | _ \<Rightarrow> False)
          then (Err (wo_missing i), s)
          else (let wo' = wo\<lparr>wo_work_center_id := Some dest, wo_updated_at := clock e 0\<rparr>
                in (Ok wo', s\<lparr>work_orders := hm_insert i wo' (work_orders s)\<rparr>)))"

definition report_production ::
    "env \<Rightarrow> request_context \<Rightarrow> uuid \<Rightarrow> int \<Rightarrow> int \<Rightarrow> uuid \<Rightarrow> (production_state, work_order) action"
where
  "report_production e ctx i completed scrapped actor s =
     (case hm_get (work_orders s) i of
        None \<Rightarrow> (Err (wo_missing i), s)
      | Some wo \<Rightarrow>
          if \<not> wo_in_scope ctx wo then (Err (wo_missing i), s)
          else
            (let wo1 = wo\<lparr>wo_quantity_completed := i64_add (wo_quantity_completed wo) completed,
                          wo_updated_at := clock e 0\<rparr>;
                 wo2 = (if wo_quantity wo1 \<le> wo_quantity_completed wo1 \<and> wo_status wo1 \<noteq> ''completed''
                        then wo1\<lparr>wo_status := ''completed'', wo_actual_end := Some (clock e 1)\<rparr>
                        else wo1);
                 s1 = s\<lparr>work_orders := hm_insert i wo2 (work_orders s)\<rparr>
             in (Ok wo2, if 0 < scrapped
                   then production_publish e (rc_tenant ctx)
                     (DowntimeRecorded
                        (case wo_work_center_id wo2 of None \<Rightarrow> uuid_nil | Some wc \<Rightarrow> wc)
                        (i64_as_f64 scrapped) ''production_scrap''
                        [FNum completed, Txt '' completed, '', FNum scrapped, Txt '' scrapped'']) s1
                   else s1)))"

definition list_work_order_operations ::
    "env \<Rightarrow> request_context \<Rightarrow> uuid \<Rightarrow> production_state \<Rightarrow> wo_operation list res" where
  "list_work_order_operations e ctx i s =
     (if \<not> is_some_and (hm_get (work_orders s) i) (wo_in_scope ctx) then Err (wo_missing i)
      else Ok (sort_key op_operation_number
                (filter (\<lambda>op. op_work_order_id op = i) (hm_values (rank e) (wo_operations s)))))"

section \<open>Production orders\<close>

definition create_production_order ::
    "env \<Rightarrow> request_context \<Rightarrow> production_order \<Rightarrow> (production_state, production_order) action" where
  "create_production_order e ctx po s =
     (case create_guard ''production order'' ''a production order'' ctx (pr_work_center_id po) of
        Inl err \<Rightarrow> (Err err, s)
      | Inr _ \<Rightarrow>
        (let n = u64_wrap (pr_counter s + 1);
             po' = po\<lparr>pr_id := fresh e 0, pr_tenant_id := rc_tenant ctx,
                      pr_order_number := generate_pr_number e n, pr_status := ''planned'',
                      pr_quantity_produced := 0, pr_quantity_scrapped := 0,
                      pr_created_at := clock e 0\<rparr>;
             s1 = s\<lparr>pr_counter := n,
                    production_orders := hm_insert (pr_id po') po' (production_orders s)\<rparr>
         in (Ok po', production_publish e (rc_tenant ctx)
               (ProductionOrderStarted (pr_id po') (pr_product_id po') (pr_quantity_planned po')
                  (wc_text e (pr_work_center_id po'))) s1)))"

definition get_production_order ::
    "request_context \<Rightarrow> uuid \<Rightarrow> production_state \<Rightarrow> production_order res" where
  "get_production_order ctx i s =
     (case hm_get (production_orders s) i of
        None \<Rightarrow> Err (po_missing i)
      | Some po \<Rightarrow> if \<not> po_in_scope ctx po then Err (po_missing i) else Ok po)"

definition list_production_orders ::
    "env \<Rightarrow> request_context \<Rightarrow> string option \<Rightarrow> nat option \<Rightarrow> nat option \<Rightarrow> production_state
      \<Rightarrow> production_order paginated res" where
  "list_production_orders e ctx status page per_page s =
     Ok (paginate (filter (\<lambda>po. po_in_scope ctx po
            \<and> is_none_or status (\<lambda>st. pr_status po = st))
          (hm_values (rank e) (production_orders s))) page per_page)"

definition complete_production_order ::
    "env \<Rightarrow> request_context \<Rightarrow> uuid \<Rightarrow> int \<Rightarrow> string option \<Rightarrow> uuid
      \<Rightarrow> (production_state, production_order) action" where
  "complete_production_order e ctx i short reason approver s =
     (case hm_get (production_orders s) i of
        None \<Rightarrow> (Err (po_missing i), s)
      | Some po \<Rightarrow>
          if \<not> po_in_scope ctx po then (Err (po_missing i), s)
          else if pr_status po = ''completed''
          then (Err (Validation [Txt ''Production order is already completed'']), s)
          else
            (let accounted = i64_add (i64_add (pr_quantity_produced po) (pr_quantity_scrapped po)) short
             in if accounted \<noteq> pr_quantity_planned po
                then (Err (Validation [Txt ''Cannot complete: '', FNum accounted, Txt '' of '',
                       FNum (pr_quantity_planned po), Txt '' units accounted for (produced '',
                       FNum (pr_quantity_produced po), Txt '' + scrap '',
                       FNum (pr_quantity_scrapped po), Txt '' + short close '', FNum short,
                       Txt '').'']), s)
                else if short < 0
                then (Err (Validation [Txt ''Short close quantity cannot be negative'']), s)
                else if 0 < short \<and> is_none_or reason (\<lambda>r. trim r = [])
                then (Err (Validation [Txt ''A short close requires a reason'']), s)
                else
                  (let po' = po\<lparr>pr_status := ''completed'', pr_actual_end := Some (clock e 0),
                         pr_short_close_qty := i64_as_f64 short, pr_short_close_reason := reason,
                         pr_short_close_approved_by := Some approver,
                         pr_short_close_at := if 0 < short then Some (clock e 0) else None\<rparr>
                   in (Ok po', production_publish e (rc_tenant ctx)
                         (ProductionOrderCompleted i (pr_product_id po') (pr_quantity_produced po')
                            (pr_quantity_scrapped po'))
                         (s\<lparr>production_orders := hm_insert i po' (production_orders s)\<rparr>)))))"

section \<open>Bills of materials and requirements planning\<close>

definition add_bom_item ::
    "env \<Rightarrow> request_context \<Rightarrow> bom_item \<Rightarrow> (production_state, bom_item) action" where
  "add_bom_item e ctx item s =
     (if \<not> tenant_entitled ctx
      then (Err (Forbidden [Txt ''principal has no operational scope - cannot add a BOM item'']), s)
      else (let item' = item\<lparr>bi_id := fresh e 0, bi_tenant_id := rc_tenant ctx\<rparr>
            in (Ok item', s\<lparr>bom_items := hm_insert (bi_id item') item' (bom_items s)\<rparr>)))"

definition get_bom :: "env \<Rightarrow> request_context \<Rightarrow> uuid \<Rightarrow> production_state \<Rightarrow> bom_item list res" where
  "get_bom e ctx product s =
     Ok (filter (\<lambda>item. bi_tenant_id item = rc_tenant ctx \<and> rc_scope ctx \<noteq> NoOperationalScope
            \<and> bi_parent_product_id item = product) (hm_values (rank e) (bom_items s)))"

text \<open>The demand and the supply that planning counts: the open orders of the tenant.\<close>

definition open_work :: "env \<Rightarrow> request_context \<Rightarrow> uuid \<Rightarrow> production_state \<Rightarrow> work_order list" where
  "open_work e ctx product s =
     filter (\<lambda>wo. wo_product_id wo = product \<and> wo_tenant_id wo = rc_tenant ctx
         \<and> wo_status wo \<noteq> ''completed'' \<and> wo_status wo \<noteq> ''cancelled'')
       (hm_values (rank e) (work_orders s))"

definition open_supply ::
    "env \<Rightarrow> request_context \<Rightarrow> uuid \<Rightarrow> production_state \<Rightarrow> production_order list" where
  "open_supply e ctx product s =
     filter (\<lambda>po. pr_product_id po = product \<and> pr_tenant_id po = rc_tenant ctx
         \<and> pr_status po \<noteq> ''completed'' \<and> pr_status po \<noteq> ''cancelled'')
       (hm_values (rank e) (production_orders s))"

text \<open>\<open>trunc().to_string().parse::<i64>().unwrap_or(0)\<close> of a non-negative quantity.\<close>

definition count_i64 :: "decimal \<Rightarrow> int" where
  "count_i64 q = (if in_i64 (floor q) then floor q else 0)"

definition run_mrp ::
    "env \<Rightarrow> request_context \<Rightarrow> uuid \<Rightarrow> (production_state, mrp_record list) action" where
  "run_mrp e ctx product s =
     (if \<not> tenant_entitled ctx
      then (Err (Forbidden [Txt ''principal has no operational scope - cannot run MRP'']), s)
      else
        (let now = clock e 0;
             gross = sum_list (map (\<lambda>wo. of_int (i64_sub (wo_quantity wo) (wo_quantity_completed wo)))
                       (open_work e ctx product s)) :: decimal;
             receipts = sum_list (map (\<lambda>po. of_int (i64_sub (pr_quantity_planned po) (pr_quantity_produced po)))
                          (open_supply e ctx product s)) :: decimal;
             on_hand = of_int (case hm_get (inventory_on_hand s) product of None \<Rightarrow> 0 | Some q \<Rightarrow> q);
             projected = max (on_hand + receipts - gross) 0;
             net = max (gross - receipts - on_hand) 0;
             rec = \<lparr>mr_id = fresh e 0, mr_tenant_id = rc_tenant ctx, mr_product_id = product,
                    mr_gross_requirement = gross, mr_scheduled_receipts = receipts,
                    mr_projected_on_hand = projected, mr_net_requirement = net,
                    mr_planned_order_release = net, mr_time_phase_start = now,
                    mr_time_phase_end = now + 30 * 86400 * 1000000000,
                    mr_unit_of_measure = ''pcs''\<rparr>;
             s1 = production_publish e (rc_tenant ctx)
                    (MRPRunCompleted (mr_id rec) (count_i64 net) (count_i64 net)) s
         in (Ok [rec], s1\<lparr>mrp_records := hm_insert (mr_id rec) rec (mrp_records s1)\<rparr>)))"


section \<open>Calls\<close>

datatype production_call =
    CreateWorkOrder work_order
  | UpdateWorkOrderStatus uuid string
  | UpdateWorkOrder uuid work_order
  | ReassignWorkOrder uuid uuid
  | ReportProduction uuid int int uuid
  | CreateProductionOrder production_order
  | CompleteProductionOrder uuid int "string option" uuid
  | AddBomItem bom_item
  | RunMrp uuid

definition outcome :: "'a res \<times> production_state \<Rightarrow> sensei_error option \<times> production_state" where
  "outcome r = (case fst r of Inl err \<Rightarrow> Some err | Inr _ \<Rightarrow> None, snd r)"

fun production_run ::
    "env \<Rightarrow> request_context \<Rightarrow> production_call \<Rightarrow> production_state
      \<Rightarrow> sensei_error option \<times> production_state" where
  "production_run e ctx (CreateWorkOrder wo) s = outcome (create_work_order e ctx wo s)"
| "production_run e ctx (UpdateWorkOrderStatus i st) s = outcome (update_work_order_status e ctx i st s)"
| "production_run e ctx (UpdateWorkOrder i wo) s = outcome (update_work_order e ctx i wo s)"
| "production_run e ctx (ReassignWorkOrder i dest) s = outcome (reassign_work_order e ctx i dest s)"
| "production_run e ctx (ReportProduction i c d actor) s = outcome (report_production e ctx i c d actor s)"
| "production_run e ctx (CreateProductionOrder po) s = outcome (create_production_order e ctx po s)"
| "production_run e ctx (CompleteProductionOrder i q r a) s =
     outcome (complete_production_order e ctx i q r a s)"
| "production_run e ctx (AddBomItem item) s = outcome (add_bom_item e ctx item s)"
| "production_run e ctx (RunMrp p) s = outcome (run_mrp e ctx p s)"

lemmas production_ops = create_work_order_def update_work_order_status_def update_work_order_def
  reassign_work_order_def report_production_def create_production_order_def
  complete_production_order_def add_bom_item_def run_mrp_def outcome_def

lemma generate_operations_sel [simp]:
  "work_orders (generate_operations e wo s) = work_orders s"
  "production_orders (generate_operations e wo s) = production_orders s"
  "wo_counter (generate_operations e wo s) = wo_counter s"
  by (simp_all add: generate_operations_def split: option.split)

lemma create_guard_wo:
  "create_guard a b ctx (wo_work_center_id wo) = Ok u \<Longrightarrow> wo_tenant_id wo = rc_tenant ctx \<Longrightarrow>
     wo_in_scope ctx wo"
  by (auto simp: create_guard_def wo_in_scope_def destination_granted_def tenant_entitled_def
      split: option.splits authorized_scope.splits if_splits)

lemma create_guard_po:
  "create_guard a b ctx (pr_work_center_id po) = Ok u \<Longrightarrow> pr_tenant_id po = rc_tenant ctx \<Longrightarrow>
     po_in_scope ctx po"
  by (auto simp: create_guard_def po_in_scope_def destination_granted_def tenant_entitled_def
      split: option.splits authorized_scope.splits if_splits)

text \<open>The scope of a row depends on its tenant and its work center only.\<close>

definition wc_claim :: "request_context \<Rightarrow> uuid \<Rightarrow> uuid option \<Rightarrow> bool" where
  "wc_claim ctx tenant wc \<longleftrightarrow> tenant = rc_tenant ctx
     \<and> (case rc_scope ctx of NoOperationalScope \<Rightarrow> False | TenantWide \<Rightarrow> True
        | Operational sites wcs \<Rightarrow>
            (case wc of None \<Rightarrow> False
             | Some i \<Rightarrow> sites \<noteq> {} \<or> (\<exists>wc \<in> wcs. wcs_work_center wc = i)))"

lemma wo_in_scope_eq: "wo_in_scope ctx wo = wc_claim ctx (wo_tenant_id wo) (wo_work_center_id wo)"
  by (simp add: wo_in_scope_def wc_claim_def)

lemma po_in_scope_eq: "po_in_scope ctx po = wc_claim ctx (pr_tenant_id po) (pr_work_center_id po)"
  by (simp add: po_in_scope_def wc_claim_def)

text \<open>The row of a work order after a call: new and in scope, as before, or an edit in scope.\<close>

lemma work_order_after:
  assumes "hm_get (work_orders s) (fresh e 0) = None"
  shows "case hm_get (work_orders (snd (production_run e ctx c s))) i of
      None \<Rightarrow> hm_get (work_orders s) i = None
    | Some wo' \<Rightarrow> (case hm_get (work_orders s) i of
          None \<Rightarrow> (\<exists>wo. c = CreateWorkOrder wo \<and> i = fresh e 0) \<and> wo_in_scope ctx wo'
        | Some wo \<Rightarrow> wo' = wo \<or> wo_in_scope ctx wo \<and> wo_in_scope ctx wo'
            \<and> wo_id wo' = wo_id wo \<and> wo_tenant_id wo' = wo_tenant_id wo
            \<and> wo_wo_number wo' = wo_wo_number wo \<and> wo_created_at wo' = wo_created_at wo
            \<and> (wo_work_center_id wo' = wo_work_center_id wo
                \<or> (\<exists>dest. c = ReassignWorkOrder i dest \<and> wo_work_center_id wo' = Some dest)))"
proof (cases c)
  case (CreateWorkOrder wo)
  with assms show ?thesis
    by (auto simp: outcome_def create_work_order_def Let_def intro: create_guard_wo
        split: option.split sum.split)
next
  case (ReassignWorkOrder j dest)
  with assms show ?thesis
    by (auto simp: outcome_def reassign_work_order_def Let_def wo_in_scope_def
        destination_granted_def split: option.splits authorized_scope.splits)
qed (use assms in \<open>auto simp: production_ops Let_def wo_in_scope_eq split: option.split sum.split\<close>)


lemma production_order_after:
  assumes "hm_get (production_orders s) (fresh e 0) = None"
  shows "case hm_get (production_orders (snd (production_run e ctx c s))) i of
      None \<Rightarrow> hm_get (production_orders s) i = None
    | Some po' \<Rightarrow> (case hm_get (production_orders s) i of
          None \<Rightarrow> (\<exists>po. c = CreateProductionOrder po \<and> i = fresh e 0) \<and> po_in_scope ctx po'
        | Some po \<Rightarrow> po' = po \<or> po_in_scope ctx po \<and> po_in_scope ctx po'
            \<and> pr_id po' = pr_id po \<and> pr_tenant_id po' = pr_tenant_id po
            \<and> pr_order_number po' = pr_order_number po
            \<and> pr_work_center_id po' = pr_work_center_id po)"
proof (cases c)
  case (CreateProductionOrder po)
  with assms show ?thesis
    by (auto simp: outcome_def create_production_order_def Let_def intro: create_guard_po
        split: option.split sum.split)
qed (use assms in \<open>auto simp: production_ops Let_def po_in_scope_eq split: option.split sum.split\<close>)

section \<open>Properties\<close>

definition demo_ctx :: "authorized_scope \<Rightarrow> request_context" where
  "demo_ctx sc = \<lparr>rc_tenant = 1, rc_principal = 7, rc_scope = sc,
     rc_focus = \<lparr>of_site = None, of_value_stream = None, of_work_center = None, of_shift = None\<rparr>,
     rc_locale = None, rc_timezone = None, rc_currency = None,
     rc_country_policy_revision = None, rc_trace_id = []\<rparr>"

definition demo_wo :: "uuid option \<Rightarrow> int \<Rightarrow> work_order" where
  "demo_wo wc q = \<lparr>wo_id = 0, wo_tenant_id = 0, wo_wo_number = [], wo_product_id = 3,
     wo_product_name = ''bolt'', wo_quantity = q, wo_quantity_completed = 0, wo_status = [],
     wo_work_center_id = wc, wo_priority = ''normal'', wo_scheduled_start = None,
     wo_scheduled_end = None, wo_actual_start = None, wo_actual_end = None,
     wo_quantity_scrapped = 0, wo_short_close_qty = 0, wo_short_close_reason = None,
     wo_short_close_approved_by = None, wo_short_close_at = None, wo_assigned_to = [],
     wo_notes = [], wo_created_at = 0, wo_updated_at = 0, wo_source_sales_order_id = None,
     wo_standard_work_id = None, wo_product_revision_id = None, wo_bom_revision_id = None,
     wo_routing_revision_id = None, wo_control_plan_revision_id = None,
     wo_ctq_characteristic_set = [], wo_tooling_revision = None,
     wo_source_sales_order_line_id = None, wo_customer_requirement_revision = None\<rparr>"

definition wc_ctx :: "uuid \<Rightarrow> request_context" where
  "wc_ctx wc = demo_ctx (Operational {} {WorkCenterScope 2 wc})"

definition demo_shop :: production_state where
  "demo_shop = snd (create_work_order (demo_at 1) (wc_ctx 4) (demo_wo (Some 4) 10)
     (seed_routing 3 [\<lparr>st_work_center_id = Some 4, st_description = ''cut'',
          st_setup_time_minutes = 5, st_run_time_minutes = 30\<rparr>,
        \<lparr>st_work_center_id = Some 4, st_description = ''drill'',
          st_setup_time_minutes = 2, st_run_time_minutes = 10\<rparr>] (new_production (Some []))))"

text \<open>C2.
  A call stays inside its caller's scope. Whatever call a caller makes, every work order and
  production order whose row changes was in the caller's scope before, if it existed, and is in
  it afterwards; no order is removed; and an order that appears is the one the call created. For
  a caller with work-center grants only, each changed order lies on one of exactly those work
  centers, before and after.
\<close>

theorem calls_stay_in_scope:
  assumes "hm_get (work_orders s) (fresh e 0) = None" and "hm_get (production_orders s) (fresh e 0) = None"
    and "s' = snd (production_run e ctx c s)"
  shows "(hm_get (work_orders s') i \<noteq> hm_get (work_orders s) i \<longrightarrow>
      (\<exists>wo'. hm_get (work_orders s') i = Some wo' \<and> wo_in_scope ctx wo'
        \<and> (\<forall>wcs. rc_scope ctx = Operational {} wcs \<longrightarrow>
              (\<exists>wc \<in> wcs. wo_work_center_id wo' = Some (wcs_work_center wc))))
      \<and> (case hm_get (work_orders s) i of
            None \<Rightarrow> \<exists>wo. c = CreateWorkOrder wo
          | Some wo \<Rightarrow> wo_in_scope ctx wo \<and> (\<forall>wcs. rc_scope ctx = Operational {} wcs \<longrightarrow>
              (\<exists>wc \<in> wcs. wo_work_center_id wo = Some (wcs_work_center wc)))))
    \<and> (hm_get (production_orders s') i \<noteq> hm_get (production_orders s) i \<longrightarrow>
      (\<exists>po'. hm_get (production_orders s') i = Some po' \<and> po_in_scope ctx po')
      \<and> (case hm_get (production_orders s) i of
            None \<Rightarrow> \<exists>po. c = CreateProductionOrder po | Some po \<Rightarrow> po_in_scope ctx po))"
proof -
  have wcs: "\<exists>wc \<in> wcs. wo_work_center_id wo = Some (wcs_work_center wc)"
    if "wo_in_scope ctx wo" "rc_scope ctx = Operational {} wcs" for wo wcs
    using that by (auto simp: wo_in_scope_def split: option.splits)
  show ?thesis
    using work_order_after [OF assms(1), where ctx = ctx and c = c and i = i]
      production_order_after [OF assms(2), where ctx = ctx and c = c and i = i] wcs
    unfolding assms(3) by (fastforce split: option.splits)
qed

lemma demo_shop_order:
  "map_option (\<lambda>wo. (wo_tenant_id wo, wo_work_center_id wo)) (hm_get (work_orders demo_shop) 10) =
     Some (1, Some 4)"
  by (simp add: demo_shop_def create_work_order_def create_guard_def tenant_entitled_def
      destination_granted_def wc_ctx_def demo_ctx_def demo_wo_def Let_def)

lemma demo_shop_fresh:
  "hm_get (work_orders demo_shop) (fresh (demo_at 2) 0) = None"
  "hm_get (production_orders demo_shop) (fresh (demo_at 2) 0) = None"
  by (simp_all add: demo_shop_def create_work_order_def create_guard_def tenant_entitled_def
      destination_granted_def wc_ctx_def demo_ctx_def demo_wo_def Let_def new_production_def
      seed_routing_def)

lemma calls_stay_in_scope_witness:
  "hm_get (work_orders (snd (production_run (demo_at 2) (wc_ctx 5) (ReassignWorkOrder 10 5) demo_shop))) 10
     = hm_get (work_orders demo_shop) 10"
proof (rule ccontr)
  assume "hm_get (work_orders (snd (production_run (demo_at 2) (wc_ctx 5) (ReassignWorkOrder 10 5) demo_shop))) 10
     \<noteq> hm_get (work_orders demo_shop) 10"
  with calls_stay_in_scope [OF demo_shop_fresh refl,
      where ctx = "wc_ctx 5" and c = "ReassignWorkOrder 10 5" and i = 10]
  have "case hm_get (work_orders demo_shop) 10 of None \<Rightarrow> \<exists>wo. ReassignWorkOrder 10 5 = CreateWorkOrder wo
      | Some wo \<Rightarrow> wo_in_scope (wc_ctx 5) wo \<and> (\<forall>wcs. rc_scope (wc_ctx 5) = Operational {} wcs \<longrightarrow>
          (\<exists>wc \<in> wcs. wo_work_center_id wo = Some (wcs_work_center wc)))" by blast
  then show False
    using demo_shop_order by (auto simp: wc_ctx_def demo_ctx_def split: option.splits)
qed

text \<open>
  A work order keeps its identity and its work center. No call changes the id, tenant, number
  or creation instant of a work order, or takes it off file, and only a reassignment changes its
  work center, to the destination it names; a production order keeps its id, tenant, number and
  work center under every call.
\<close>

lemma work_center_immutable:
  assumes "hm_get (work_orders s) (fresh e 0) = None" and "hm_get (production_orders s) (fresh e 0) = None"
    and "s' = snd (production_run e ctx c s)"
  shows "(\<forall>wo. hm_get (work_orders s) i = Some wo \<longrightarrow> (\<exists>wo'. hm_get (work_orders s') i = Some wo'
      \<and> wo_id wo' = wo_id wo \<and> wo_tenant_id wo' = wo_tenant_id wo
      \<and> wo_wo_number wo' = wo_wo_number wo \<and> wo_created_at wo' = wo_created_at wo
      \<and> (wo_work_center_id wo' = wo_work_center_id wo
          \<or> (\<exists>dest. c = ReassignWorkOrder i dest \<and> wo_work_center_id wo' = Some dest))))
    \<and> (\<forall>po. hm_get (production_orders s) i = Some po \<longrightarrow>
      (\<exists>po'. hm_get (production_orders s') i = Some po' \<and> pr_id po' = pr_id po
        \<and> pr_tenant_id po' = pr_tenant_id po \<and> pr_order_number po' = pr_order_number po
        \<and> pr_work_center_id po' = pr_work_center_id po))"
  using work_order_after [OF assms(1), where ctx = ctx and c = c and i = i]
      production_order_after [OF assms(2), where ctx = ctx and c = c and i = i]
  unfolding assms(3) by (fastforce split: option.splits)

lemma work_center_immutable_witness:
  "map_option wo_work_center_id (hm_get (work_orders (snd (production_run (demo_at 2) (wc_ctx 4)
     (UpdateWorkOrder 10 (demo_wo (Some 9) 10)) demo_shop))) 10) = Some (Some 4)"
proof -
  obtain wo where wo: "hm_get (work_orders demo_shop) 10 = Some wo" "wo_work_center_id wo = Some 4"
    using demo_shop_order by (cases "hm_get (work_orders demo_shop) 10") auto
  from work_center_immutable [OF demo_shop_fresh refl,
      where ctx = "wc_ctx 4" and c = "UpdateWorkOrder 10 (demo_wo (Some 9) 10)" and i = 10]
  obtain wo' where "hm_get (work_orders (snd (production_run (demo_at 2) (wc_ctx 4)
      (UpdateWorkOrder 10 (demo_wo (Some 9) 10)) demo_shop))) 10 = Some wo'" "wo_work_center_id wo' = wo_work_center_id wo"
    using wo by (auto simp del: production_run.simps)
  with wo show ?thesis by (simp del: production_run.simps)
qed

end
