(* ===== verification/Production_Planning.thy ===== *)
theory Production_Planning
  imports Production
begin

text \<open>
  What the operations of the production service promise beyond scope: the operations of a work
  order follow the product's routing, a production order is completed only when every planned
  unit is accounted for, requirements planning balances, and an order out of scope looks like
  one that does not exist.
\<close>

section \<open>Operations and routing\<close>

lemma insert_operations_append:
  assumes "inj_on (fresh e) {200 + k ..< 200 + k + length steps}"
    and "\<And>j. j < length steps \<Longrightarrow> hm_get ops (fresh e (200 + k + j)) = None"
  shows "insert_operations e wo k steps ops =
    ops @ map (\<lambda>(j, st). (fresh e (200 + j), operation_of e wo j st)) (enumerate k steps)"
  using assms
proof (induction steps arbitrary: k ops)
  case Nil
  then show ?case by simp
next
  case (Cons st steps)
  let ?op = "operation_of e wo k st"
  have head: "hm_get ops (fresh e (200 + k)) = None" using Cons.prems(2) [of 0] by simp
  have "hm_get (ops @ [(fresh e (200 + k), ?op)]) (fresh e (200 + (k + 1) + j)) = None"
    if "j < length steps" for j
  proof -
    have "fresh e (200 + (k + 1) + j) \<noteq> fresh e (200 + k)"
      using Cons.prems(1) that by (auto dest!: inj_onD)
    moreover have "hm_get ops (fresh e (200 + (k + 1) + j)) = None"
      using Cons.prems(2) [of "Suc j"] that by (simp add: add.assoc)
    ultimately show ?thesis by (simp add: hm_get_def map_add_def)
  qed
  moreover have "inj_on (fresh e) {200 + (k + 1) ..< 200 + (k + 1) + length steps}"
    by (rule inj_on_subset [OF Cons.prems(1)]) auto
  ultimately show ?case
    using Cons.IH [of "k + 1" "ops @ [(fresh e (200 + k), ?op)]"] head
    by (simp add: hm_insert_new operation_of_def)
qed

text \<open>A listing sorted by distinct keys is determined by its rows alone.\<close>

lemma sort_key_unique:
  assumes "mset xs = mset ys" and "sorted (map f ys)" and "distinct (map f ys)"
  shows "sort_key f xs = ys"
proof (rule map_inj_on)
  have "mset (map f (sort_key f xs)) = mset (map f ys)" using assms(1) by simp
  moreover have "sorted (map f (sort_key f xs))" by simp
  ultimately show "map f (sort_key f xs) = map f ys"
    using assms(2) by (metis properties_for_sort sorted_sort_id)
  have "set (sort_key f xs) = set ys" using assms(1) by (metis mset_eq_setD set_sort)
  then show "inj_on f (set (sort_key f xs) \<union> set ys)" using assms(3) by (simp add: distinct_map)
qed

lemma operation_of_sel [simp]:
  "op_work_order_id (operation_of e wo k st) = wo"
  "op_operation_number (operation_of e wo k st) = i32_wrap (int k + 1)"
  by (simp_all add: operation_of_def algebra_simps)

lemma i32_wrap_id: "0 \<le> x \<Longrightarrow> x < 2 ^ 31 \<Longrightarrow> i32_wrap x = x"
  by (simp add: i32_wrap_def)

lemma listed_operations:
  assumes "hm_wf ops" and "\<And>j op. hm_get ops j = Some op \<Longrightarrow> op_work_order_id op \<noteq> wo"
    and "length steps < 2 ^ 31"
  shows "sort_key op_operation_number (filter (\<lambda>op. op_work_order_id op = wo)
      (hm_values r (ops @ map (\<lambda>(j, st). (fresh e (200 + j), operation_of e wo j st)) (enumerate 0 steps))))
    = map (\<lambda>(j, st). operation_of e wo j st) (enumerate 0 steps)" (is "sort_key _ (filter ?P (hm_values r ?m)) = ?new")
proof (rule sort_key_unique)
  have "\<And>op. op \<in> set (map snd ops) \<Longrightarrow> \<not> ?P op"
    using assms(1,2) by (fastforce simp: ht.entries_get)
  then have old: "filter ?P (map snd ops) = []" by (simp add: filter_empty_conv)
  have "mset (filter ?P (hm_values r ?m)) = mset (filter ?P (map snd ?m))"
    by (simp only: mset_filter mset_hm_values)
  also have "map snd ?m = map snd ops @ ?new" by (auto simp: split_beta)
  also have "filter ?P (map snd ops @ ?new) = ?new"
    unfolding filter_append old by (auto simp: filter_id_conv)
  finally show "mset (filter ?P (hm_values r ?m)) = mset ?new" .
  have "map op_operation_number ?new = map (\<lambda>j. int j + 1) [0..<length steps]"
    using assms(3) by (auto intro!: nth_equalityI simp: nth_enumerate_eq i32_wrap_id)
  then show "sorted (map op_operation_number ?new)" "distinct (map op_operation_number ?new)"
    by (simp_all add: sorted_map sorted_wrt_iff_nth_less distinct_map inj_on_def)
qed

text \<open>
  A work order gets the operations of its product's routing. When a work order is created for a
  product with a routing, listing its operations afterwards, in any iteration order of the
  table, gives one pending operation per routing step, in the order of the routing, numbered
  from 1 and with the step's description, work center and times; and no operation of any other
  work order.
\<close>

lemma operations_follow_routing:
  assumes "create_work_order e ctx wo s = (Ok wo', s')"
    and "hm_get (routings s) (wo_product_id wo) = Some steps" and "length steps < 2 ^ 31"
    and "inj_on (fresh e) {200 ..< 200 + length steps}"
    and "\<forall>j < length steps. hm_get (wo_operations s) (fresh e (200 + j)) = None"
    and "hm_wf (wo_operations s)"
    and "\<forall>j op. hm_get (wo_operations s) j = Some op \<longrightarrow> op_work_order_id op \<noteq> fresh e 0"
  shows "\<exists>ops. list_work_order_operations e2 ctx (wo_id wo') s' = Ok ops \<and> length ops = length steps
    \<and> (\<forall>k < length steps. op_work_order_id (ops ! k) = wo_id wo'
        \<and> op_operation_number (ops ! k) = int k + 1 \<and> op_status (ops ! k) = ''pending''
        \<and> op_description (ops ! k) = st_description (steps ! k)
        \<and> op_work_center_id (ops ! k) = st_work_center_id (steps ! k)
        \<and> op_setup_time_minutes (ops ! k) = Some (st_setup_time_minutes (steps ! k))
        \<and> op_run_time_minutes (ops ! k) = Some (st_run_time_minutes (steps ! k)))"
proof -
  let ?new = "map (\<lambda>(j, st). operation_of e (fresh e 0) j st) (enumerate 0 steps)"
  have guard: "create_guard ''work order'' ''a work order'' ctx (wo_work_center_id wo) = Ok ()"
    and wo': "wo_id wo' = fresh e 0" "wo_tenant_id wo' = rc_tenant ctx"
      "wo_work_center_id wo' = wo_work_center_id wo" "hm_get (work_orders s') (fresh e 0) = Some wo'"
    and ops: "wo_operations s' = insert_operations e (fresh e 0) 0 steps (wo_operations s)"
    using assms(1,2)
    by (auto simp: create_work_order_def generate_operations_def Let_def split: sum.splits)
  have "wo_in_scope ctx wo'" using create_guard_wo [of _ _ ctx wo'] guard wo' by simp
  moreover have "wo_operations s' = wo_operations s @
      map (\<lambda>(j, st). (fresh e (200 + j), operation_of e (fresh e 0) j st)) (enumerate 0 steps)"
    unfolding ops using assms(4,5) by (intro insert_operations_append) simp_all
  ultimately have "list_work_order_operations e2 ctx (wo_id wo') s' = Ok ?new"
    using wo' listed_operations [OF assms(6) assms(7) [rule_format] assms(3), where r = "rank e2" and e = e]
    by (simp add: list_work_order_operations_def is_some_and_def)
  then show ?thesis
    using assms(3) wo'(1)
    by (intro exI [of _ ?new]) (auto simp: nth_enumerate_eq i32_wrap_id operation_of_def)
qed

text \<open>A second order for the product of the demonstration shop, which routes over two steps.\<close>

definition demo_routing :: "routing_step list" where
  "demo_routing = [\<lparr>st_work_center_id = Some 4, st_description = ''cut'',
          st_setup_time_minutes = 5, st_run_time_minutes = 30\<rparr>,
        \<lparr>st_work_center_id = Some 4, st_description = ''drill'',
          st_setup_time_minutes = 2, st_run_time_minutes = 10\<rparr>]"

lemma demo_shop_operations:
  "map (\<lambda>(j, op). (j, op_work_order_id op)) (wo_operations demo_shop) = [(210, 10), (211, 10)]"
  "hm_get (routings demo_shop) 3 = Some demo_routing"
  by (code_simp, code_simp)

lemma operations_follow_routing_witness:
  "\<exists>wo' s' ops. create_work_order (demo_at 30) (wc_ctx 4) (demo_wo (Some 4) 5) demo_shop = (Ok wo', s')
    \<and> list_work_order_operations (demo_at 40) (wc_ctx 4) (wo_id wo') s' = Ok ops
    \<and> op_description (ops ! 1) = ''drill'' \<and> op_operation_number (ops ! 1) = 2"
proof -
  have "\<not> isl (fst (create_work_order (demo_at 30) (wc_ctx 4) (demo_wo (Some 4) 5) demo_shop))"
    by code_simp
  then obtain wo' s' where run: "create_work_order (demo_at 30) (wc_ctx 4) (demo_wo (Some 4) 5) demo_shop = (Ok wo', s')"
    by (cases "create_work_order (demo_at 30) (wc_ctx 4) (demo_wo (Some 4) 5) demo_shop";
        cases "fst (create_work_order (demo_at 30) (wc_ctx 4) (demo_wo (Some 4) 5) demo_shop)") auto
  have shape: "\<exists>a b. wo_operations demo_shop = [(210, a), (211, b)]
      \<and> op_work_order_id a = 10 \<and> op_work_order_id b = 10"
    using demo_shop_operations(1) by (auto simp: map_eq_Cons_conv)
  have steps: "hm_get (routings demo_shop) (wo_product_id (demo_wo (Some 4) 5)) = Some demo_routing"
    using demo_shop_operations(2) by (simp add: demo_wo_def)
  have fresh: "inj_on (fresh (demo_at 30)) {200..<200 + length demo_routing}" "hm_wf (wo_operations demo_shop)"
    "\<forall>j < length demo_routing. hm_get (wo_operations demo_shop) (fresh (demo_at 30) (200 + j)) = None"
    "\<forall>j op. hm_get (wo_operations demo_shop) j = Some op \<longrightarrow> op_work_order_id op \<noteq> fresh (demo_at 30) 0"
    using shape by (auto simp: inj_on_def hm_wf_def demo_routing_def split: if_splits)
  have "length demo_routing < 2 ^ 31" by (simp add: demo_routing_def)
  note listed = operations_follow_routing [OF run steps this fresh(1,3,2,4), where ?e2.0 = "demo_at 40"]
  then obtain ops where ops: "list_work_order_operations (demo_at 40) (wc_ctx 4) (wo_id wo') s' = Ok ops"
    and "\<forall>k < length demo_routing. op_operation_number (ops ! k) = int k + 1
      \<and> op_description (ops ! k) = st_description (demo_routing ! k)"
    by blast
  then have "op_operation_number (ops ! 1) = int 1 + 1"
      "op_description (ops ! 1) = st_description (demo_routing ! 1)"
    by (auto simp: demo_routing_def)
  with ops run show ?thesis by (simp add: demo_routing_def)
qed

section \<open>Completing a production order\<close>

text \<open>The guards of a completion as one condition on the row and the arguments.\<close>

definition accounted_for :: "production_order \<Rightarrow> int \<Rightarrow> string option \<Rightarrow> bool" where
  "accounted_for po short reason \<longleftrightarrow>
     pr_quantity_produced po + pr_quantity_scrapped po + short = pr_quantity_planned po
     \<and> 0 \<le> short \<and> (0 < short \<longrightarrow> (\<exists>r. reason = Some r \<and> trim r \<noteq> []))"

lemma accounted_sum:
  assumes "in_i64 (a + b)" and "in_i64 (a + b + c)"
  shows "i64_add (i64_add a b) c = a + b + c"
  using assms by (simp add: i64_add_exact)

definition completed_row ::
    "env \<Rightarrow> production_order \<Rightarrow> int \<Rightarrow> string option \<Rightarrow> uuid \<Rightarrow> production_order" where
  "completed_row e po short reason approver =
     po\<lparr>pr_status := ''completed'', pr_actual_end := Some (clock e 0),
        pr_short_close_qty := i64_as_f64 short, pr_short_close_reason := reason,
        pr_short_close_approved_by := Some approver,
        pr_short_close_at := if 0 < short then Some (clock e 0) else None\<rparr>"

lemma completed_row_sel [simp]: "pr_status (completed_row e po short reason approver) = ''completed''"
  by (simp add: completed_row_def)

lemma completion_Ok:
  assumes "hm_get (production_orders s) i = Some po"
    and "in_i64 (pr_quantity_produced po + pr_quantity_scrapped po)"
    and "in_i64 (pr_quantity_produced po + pr_quantity_scrapped po + short)"
    and "po_in_scope ctx po" and "pr_status po \<noteq> ''completed''" and "accounted_for po short reason"
  shows "fst (complete_production_order e ctx i short reason approver s)
      = Ok (completed_row e po short reason approver)"
    and "production_orders (snd (complete_production_order e ctx i short reason approver s))
      = hm_insert i (completed_row e po short reason approver) (production_orders s)"
    and "work_orders (snd (complete_production_order e ctx i short reason approver s)) = work_orders s"
  using assms(1,4-6) accounted_sum [OF assms(2,3)]
  by (auto simp: complete_production_order_def accounted_for_def is_none_or_def Let_def completed_row_def)

lemma completion_Err:
  assumes "hm_get (production_orders s) i = Some po"
    and "in_i64 (pr_quantity_produced po + pr_quantity_scrapped po)"
    and "in_i64 (pr_quantity_produced po + pr_quantity_scrapped po + short)"
    and "\<not> (po_in_scope ctx po \<and> pr_status po \<noteq> ''completed'' \<and> accounted_for po short reason)"
  shows "\<exists>err. complete_production_order e ctx i short reason approver s = (Err err, s)"
  using assms(1,4) accounted_sum [OF assms(2,3)]
  by (auto simp: complete_production_order_def accounted_for_def is_none_or_def Let_def
      split: option.splits)

text \<open>A completed order stays completed, whatever is called.\<close>

lemma production_orders_others:
  "(\<forall>po. c \<noteq> CreateProductionOrder po) \<Longrightarrow> (\<forall>i q r a. c \<noteq> CompleteProductionOrder i q r a) \<Longrightarrow>
     production_orders (snd (production_run e ctx c s)) = production_orders s"
  by (cases c) (simp_all add: production_ops Let_def split: option.split sum.split)

lemma completed_refused:
  "hm_get (production_orders s) i = Some po \<Longrightarrow> pr_status po = ''completed'' \<Longrightarrow>
     \<exists>err. complete_production_order e ctx i short reason approver s = (Err err, s)"
  by (simp add: complete_production_order_def)

lemma complete_other:
  assumes "hm_get (production_orders s) i = Some po" and "pr_status po = ''completed''"
  shows "hm_get (production_orders (snd (complete_production_order e ctx j short reason approver s))) i
    = Some po"
proof (cases "j = i")
  case True
  then show ?thesis using completed_refused [OF assms] assms(1) by (metis snd_conv)
next
  case False
  then show ?thesis
    using assms(1) by (simp add: complete_production_order_def Let_def split: option.split)
qed

lemma completed_stays:
  assumes "hm_get (production_orders s) i = Some po" and "pr_status po = ''completed''"
    and "hm_get (production_orders s) (fresh e 0) = None"
  shows "hm_get (production_orders (snd (production_run e ctx c s))) i = Some po"
proof (cases c)
  case (CreateProductionOrder po)
  with assms show ?thesis
    by (auto simp: outcome_def create_production_order_def Let_def split: sum.split)
next
  case (CompleteProductionOrder j q r a)
  with assms show ?thesis by (simp add: outcome_def complete_other)
qed (use assms production_orders_others [of c e ctx s] in auto)

text \<open>
  A production order is completed exactly when every planned unit is accounted for. As long as
  the sums stay within an i64, completing an order succeeds if and only if the order is in the
  caller's scope and not yet completed, the produced, scrapped and short-closed units add up to
  the planned quantity, the short close is not negative, and a positive one carries a reason
  that is not blank. On failure nothing changes; on success only the status, the end and the
  short-close fields of that order do, and no later completion of it succeeds, whichever call
  is made in between.
\<close>

theorem completion_exact:
  assumes row: "hm_get (production_orders s) i = Some po"
    and "in_i64 (pr_quantity_produced po + pr_quantity_scrapped po)"
    and "in_i64 (pr_quantity_produced po + pr_quantity_scrapped po + short)"
    and r: "complete_production_order e ctx i short reason approver s = (r, s')"
    and new: "hm_get (production_orders s) (fresh e2 0) = None"
  shows "if po_in_scope ctx po \<and> pr_status po \<noteq> ''completed'' \<and> accounted_for po short reason
      then r = Ok (completed_row e po short reason approver)
        \<and> hm_get (production_orders s') i = Some (completed_row e po short reason approver)
        \<and> (\<forall>j. j \<noteq> i \<longrightarrow> hm_get (production_orders s') j = hm_get (production_orders s) j)
        \<and> work_orders s' = work_orders s
        \<and> isl (fst (complete_production_order e3 ctx3 i short3 reason3 approver3
               (snd (production_run e2 ctx2 c s'))))
      else isl r \<and> s' = s"
proof (cases "po_in_scope ctx po \<and> pr_status po \<noteq> ''completed'' \<and> accounted_for po short reason")
  case True
  let ?row = "completed_row e po short reason approver"
  have s': "r = Ok ?row" "production_orders s' = hm_insert i ?row (production_orders s)"
    "work_orders s' = work_orders s"
    using completion_Ok [OF assms(1-3), where ctx = ctx and reason = reason and e = e
        and approver = approver] True r by simp_all
  have "fresh e2 0 \<noteq> i" using new row by auto
  then have "hm_get (production_orders (snd (production_run e2 ctx2 c s'))) i = Some ?row"
    using s' new by (intro completed_stays) auto
  then show ?thesis
    using True s' completed_refused [of "snd (production_run e2 ctx2 c s')" i ?row]
    by (metis completed_row_sel fst_conv ht.get_ins isl_def)
next
  case False
  then show ?thesis
    using completion_Err [OF assms(1-3) False, of e approver] r by (auto split: if_splits)
qed

text \<open>Ten units planned, six made, one scrapped.\<close>

definition demo_order :: production_order where
  "demo_order = \<lparr>pr_id = 10, pr_tenant_id = 1, pr_order_number = ''PO-1'', pr_product_id = 3,
     pr_quantity_planned = 10, pr_quantity_produced = 6, pr_quantity_scrapped = 1,
     pr_status = ''planned'', pr_work_center_id = Some 4, pr_planned_start = 0, pr_planned_end = 9,
     pr_actual_start = None, pr_actual_end = None, pr_short_close_qty = 0,
     pr_short_close_reason = None, pr_short_close_approved_by = None, pr_short_close_at = None,
     pr_created_at = 0\<rparr>"

definition demo_plan :: production_state where
  "demo_plan = demo_shop\<lparr>production_orders := [(10, demo_order)]\<rparr>"

lemma completion_exact_witness:
  "isl (fst (complete_production_order (demo_at 2) (wc_ctx 4) 10 4 (Some ''x'') 7 demo_plan))
   \<and> isl (fst (complete_production_order (demo_at 2) (wc_ctx 4) 10 3 None 7 demo_plan))
   \<and> \<not> isl (fst (complete_production_order (demo_at 2) (wc_ctx 4) 10 3 (Some ''x'') 7 demo_plan))"
proof -
  have scope: "po_in_scope (wc_ctx 4) demo_order"
    by (simp add: po_in_scope_def wc_ctx_def demo_ctx_def demo_order_def)
  have row: "hm_get (production_orders demo_plan) 10 = Some demo_order"
    by (simp add: demo_plan_def)
  have new: "hm_get (production_orders demo_plan) (fresh (demo_at 3) 0) = None"
    by (simp add: demo_plan_def)
  have fits: "in_i64 (pr_quantity_produced demo_order + pr_quantity_scrapped demo_order)"
    "in_i64 (pr_quantity_produced demo_order + pr_quantity_scrapped demo_order + 4)"
    "in_i64 (pr_quantity_produced demo_order + pr_quantity_scrapped demo_order + 3)"
    by (simp_all add: demo_order_def in_i64_def)
  note run = completion_exact [OF row fits(1) _ prod.collapse [symmetric] new, where ctx = "wc_ctx 4"]
  have "accounted_for demo_order 3 (Some ''x'')" "\<not> accounted_for demo_order 4 (Some ''x'')"
    "\<not> accounted_for demo_order 3 None" "pr_status demo_order \<noteq> ''completed''"
    by (auto simp: accounted_for_def demo_order_def trim_def is_ws_def)
  then show ?thesis
    using run [OF fits(2), where reason = "Some ''x''" and e = "demo_at 2" and approver = 7]
      run [OF fits(3), where reason = None and e = "demo_at 2" and approver = 7]
      run [OF fits(3), where reason = "Some ''x''" and e = "demo_at 2" and approver = 7] scope
    by simp
qed

section \<open>Requirements planning\<close>

text \<open>What one order contributes to the demand and to the supply of a product.\<close>

definition open_demand :: "request_context \<Rightarrow> uuid \<Rightarrow> work_order \<Rightarrow> int" where
  "open_demand ctx product wo =
     (if wo_product_id wo = product \<and> wo_tenant_id wo = rc_tenant ctx
         \<and> wo_status wo \<noteq> ''completed'' \<and> wo_status wo \<noteq> ''cancelled''
      then i64_sub (wo_quantity wo) (wo_quantity_completed wo) else 0)"

definition open_receipt :: "request_context \<Rightarrow> uuid \<Rightarrow> production_order \<Rightarrow> int" where
  "open_receipt ctx product po =
     (if pr_product_id po = product \<and> pr_tenant_id po = rc_tenant ctx
         \<and> pr_status po \<noteq> ''completed'' \<and> pr_status po \<noteq> ''cancelled''
      then i64_sub (pr_quantity_planned po) (pr_quantity_produced po) else 0)"

lemma sum_filtered_values:
  "(\<Sum>v \<leftarrow> filter P (hm_values r m). of_int (f v)) = (of_int (hm_sum (\<lambda>v. if P v then f v else 0) m) :: rat)"
proof -
  let ?g = "\<lambda>v. if P v then f v else 0"
  have "(\<Sum>v \<leftarrow> filter P (hm_values r m). of_int (f v)) = (\<Sum>v \<leftarrow> hm_values r m. of_int (?g v) :: rat)"
    by (simp add: sum_list_map_filter' if_distrib [where f = of_int] cong: if_cong)
  also have "\<dots> = (\<Sum>v \<leftarrow> map snd m. of_int (?g v))"
  proof -
    have "mset (map (\<lambda>v. of_int (?g v) :: rat) (hm_values r m)) = mset (map (\<lambda>v. of_int (?g v)) (map snd m))"
      by (simp only: mset_map mset_hm_values)
    then show ?thesis by (metis (no_types) sum_mset_sum_list)
  qed
  also have "\<dots> = of_int (hm_sum ?g m)"
    unfolding hm_sum_def by (induction m) simp_all
  finally show ?thesis .
qed

lemma gross_eq:
  "(\<Sum>wo \<leftarrow> open_work e ctx product s. of_int (i64_sub (wo_quantity wo) (wo_quantity_completed wo)))
     = (of_int (hm_sum (open_demand ctx product) (work_orders s)) :: rat)"
  unfolding open_work_def sum_filtered_values open_demand_def ..

lemma receipts_eq:
  "(\<Sum>po \<leftarrow> open_supply e ctx product s. of_int (i64_sub (pr_quantity_planned po) (pr_quantity_produced po)))
     = (of_int (hm_sum (open_receipt ctx product) (production_orders s)) :: rat)"
  unfolding open_supply_def sum_filtered_values open_receipt_def ..

text \<open>
  Planning balances. A planning run that succeeds produces one record whose gross requirement
  is the open quantity of the tenant's open work orders for the product and whose receipts are
  those of its open production orders; projected stock less net requirement is stock on hand
  plus receipts less gross requirement, neither is negative and one of them is zero; what is
  missing is what is released. The record is filed, no order changes, and the run does not
  depend on the iteration order of the tables.
\<close>

theorem mrp_balance:
  assumes "run_mrp e ctx product s = (Ok recs, s')"
  shows "\<exists>r. recs = [r] \<and> hm_get (mrp_records s') (mr_id r) = Some r
    \<and> mr_tenant_id r = rc_tenant ctx \<and> mr_product_id r = product
    \<and> mr_gross_requirement r = of_int (hm_sum (open_demand ctx product) (work_orders s))
    \<and> mr_scheduled_receipts r = of_int (hm_sum (open_receipt ctx product) (production_orders s))
    \<and> mr_projected_on_hand r - mr_net_requirement r =
        of_int (case hm_get (inventory_on_hand s) product of None \<Rightarrow> 0 | Some q \<Rightarrow> q)
        + mr_scheduled_receipts r - mr_gross_requirement r
    \<and> 0 \<le> mr_projected_on_hand r \<and> 0 \<le> mr_net_requirement r
    \<and> (mr_projected_on_hand r = 0 \<or> mr_net_requirement r = 0)
    \<and> mr_planned_order_release r = mr_net_requirement r
    \<and> work_orders s' = work_orders s \<and> production_orders s' = production_orders s
    \<and> run_mrp (e\<lparr>rank := g\<rparr>) ctx product s = (Ok recs, s')"
proof -
  have "run_mrp (e\<lparr>rank := g\<rparr>) ctx product s = run_mrp e ctx product s"
    unfolding run_mrp_def gross_eq receipts_eq
    by (simp add: production_publish_def new_event_def)
  with assms show ?thesis
    unfolding run_mrp_def gross_eq receipts_eq
    by (auto simp: Let_def split: if_splits)
qed

lemma mrp_balance_witness:
  "\<exists>r s'. run_mrp (demo_at 2) (wc_ctx 4) 3 demo_plan = (Ok [r], s')
    \<and> mr_gross_requirement r = 10 \<and> mr_scheduled_receipts r = 4 \<and> mr_net_requirement r = 6"
proof -
  have "\<not> isl (fst (run_mrp (demo_at 2) (wc_ctx 4) 3 demo_plan))"
    by (simp add: run_mrp_def tenant_entitled_def wc_ctx_def demo_ctx_def Let_def)
  then obtain recs s' where run: "run_mrp (demo_at 2) (wc_ctx 4) 3 demo_plan = (Ok recs, s')"
    by (cases "run_mrp (demo_at 2) (wc_ctx 4) 3 demo_plan"; cases "fst (run_mrp (demo_at 2) (wc_ctx 4) 3 demo_plan)") auto
  have sums: "hm_sum (open_demand (wc_ctx 4) 3) (work_orders demo_plan) = 10"
    "hm_sum (open_receipt (wc_ctx 4) 3) (production_orders demo_plan) = 4"
    "hm_get (inventory_on_hand demo_plan) 3 = None"
    by code_simp+
  from mrp_balance [OF run, where g = id] show ?thesis
    unfolding run sums by auto
qed

section \<open>Orders out of scope\<close>

fun work_target :: "production_call \<Rightarrow> uuid option" where
  "work_target (UpdateWorkOrderStatus i _) = Some i"
| "work_target (UpdateWorkOrder i _) = Some i"
| "work_target (ReassignWorkOrder i _) = Some i"
| "work_target (ReportProduction i _ _ _) = Some i"
| "work_target _ = None"

lemma set_paginate_data: "set (pr_data (paginate xs page per_page)) \<subseteq> set xs"
  by (auto simp: paginate_def Let_def dest: in_set_takeD in_set_dropD)

text \<open>
  Out of scope is nonexistent. For a work order outside the caller's scope, every read and every
  mutation that names it fails with exactly the error it gives when there is no order with that
  id, and changes nothing; the same holds for a production order; and no listing shows a row
  that is out of scope.
\<close>

lemma foreign_work_is_nonexistent:
  assumes "hm_get (work_orders s) i = Some wo" and "\<not> wo_in_scope ctx wo"
    and "hm_get (work_orders other) i = None"
    and "hm_get (production_orders s) k = Some po" and "\<not> po_in_scope ctx po"
    and "hm_get (production_orders other) k = None"
  shows "(work_target c = Some i \<longrightarrow> (\<exists>err. production_run e ctx c s = (Some err, s)
        \<and> production_run e ctx c other = (Some err, other)))
    \<and> get_work_order ctx i s = get_work_order ctx i other
    \<and> list_work_order_operations e ctx i s = list_work_order_operations e ctx i other
    \<and> (\<exists>err. complete_production_order e ctx k q reason approver s = (Err err, s)
        \<and> complete_production_order e ctx k q reason approver other = (Err err, other))
    \<and> get_production_order ctx k s = get_production_order ctx k other
    \<and> (\<forall>p. list_work_orders e ctx f s = Ok p \<longrightarrow> (\<forall>w \<in> set (pr_data p). wo_in_scope ctx w))
    \<and> (\<forall>p. list_production_orders e ctx st pg ps s = Ok p \<longrightarrow> (\<forall>w \<in> set (pr_data p). po_in_scope ctx w))"
proof -
  have "work_target c = Some i \<longrightarrow> (\<exists>err. production_run e ctx c s = (Some err, s)
        \<and> production_run e ctx c other = (Some err, other))"
    using assms(1-3)
    by (cases c) (simp_all add: outcome_def update_work_order_status_def update_work_order_def
        reassign_work_order_def report_production_def)
  moreover have "\<forall>w \<in> set (pr_data (paginate (filter P xs) a b)). P w" for P a b and xs :: "'v list"
    using set_paginate_data [of "filter P xs" a b] by auto
  then have "list_work_orders e ctx f s = Ok p \<Longrightarrow> \<forall>w \<in> set (pr_data p). wo_in_scope ctx w"
    "list_production_orders e ctx st pg ps s = Ok p2 \<Longrightarrow> \<forall>w \<in> set (pr_data p2). po_in_scope ctx w" for p p2
    unfolding list_work_orders_def list_production_orders_def by fastforce+
  ultimately show ?thesis
    using assms
    by (simp add: get_work_order_def list_work_order_operations_def is_some_and_def
        complete_production_order_def get_production_order_def)
qed

lemma foreign_work_is_nonexistent_witness:
  "\<exists>err. production_run (demo_at 2) (wc_ctx 5) (ReportProduction 10 1 0 7) demo_plan = (Some err, demo_plan)"
proof -
  obtain wo where wo: "hm_get (work_orders demo_plan) 10 = Some wo" "wo_work_center_id wo = Some 4"
    using demo_shop_order by (cases "hm_get (work_orders demo_shop) 10") (auto simp: demo_plan_def)
  have out: "\<not> wo_in_scope (wc_ctx 5) wo" "\<not> po_in_scope (wc_ctx 5) demo_order"
    using wo(2) by (simp_all add: wo_in_scope_def po_in_scope_def wc_ctx_def demo_ctx_def demo_order_def)
  have none: "hm_get (work_orders (new_production None)) 10 = None"
    "hm_get (production_orders (new_production None)) 10 = None"
    "hm_get (production_orders demo_plan) 10 = Some demo_order"
    by (simp_all add: new_production_def demo_plan_def)
  show ?thesis
    using foreign_work_is_nonexistent [OF wo(1) out(1) none(1) none(3) out(2) none(2),
        where c = "ReportProduction 10 1 0 7" and e = "demo_at 2" and q = 0 and reason = None
          and approver = 7 and st = None and pg = None and ps = None
          and f = "\<lparr>lf_status = None, lf_work_center_id = None, lf_page = None, lf_per_page = None\<rparr>"]
    by (auto simp del: production_run.simps)
qed

section \<open>Where the code departs from a production ledger\<close>

text \<open>
  A report adds the good quantity to the order and drops the scrap: only an event tells of it.
  The quantity may be negative, and a cancelled order can be reported to completion.
\<close>

lemma scrap_not_recorded:
  assumes "hm_get (work_orders s) i = Some wo" and "wo_in_scope ctx wo"
  shows "\<exists>wo'. fst (report_production e ctx i completed scrapped actor s) = Ok wo'
    \<and> wo_quantity_scrapped wo' = wo_quantity_scrapped wo"
  using assms by (simp add: report_production_def Let_def)

lemma negative_report_accepted:
  "map_option wo_quantity_completed (hm_get (work_orders (snd (report_production (demo_at 2) (wc_ctx 4)
     10 (- 3) 0 7 demo_shop))) 10) = Some (- 3)"
  by code_simp

lemma cancelled_order_reported:
  "let s = snd (update_work_order_status (demo_at 2) (wc_ctx 4) 10 ''cancelled'' demo_shop);
       s' = snd (report_production (demo_at 3) (wc_ctx 4) 10 10 0 7 s)
   in map_option wo_status (hm_get (work_orders s) 10) = Some ''cancelled''
      \<and> map_option wo_status (hm_get (work_orders s') 10) = Some ''completed''"
  by code_simp

end
