(* ===== verification/Refresh_Tokens.thy ===== *)
theory Refresh_Tokens
  imports Sql_Model
begin

text \<open>
  The refresh-token store (\<open>sensei-auth/src/refresh_tokens.rs\<close>): hashes of refresh tokens
  with their family, rotation with reuse detection, and revocation, in both of its backends, the
  \<open>refresh_tokens\<close> table and the in-memory map. The SHA-256 hash of a token is a parameter,
  and so is the user row that the database function \<open>auth_user_by_id\<close> returns.
\<close>

section \<open>Data\<close>

datatype token_error = TkInvalid | TkReuse | TkDatabase message

record token_record =
  tr_family :: uuid
  tr_user :: uuid
  tr_version :: nat
  tr_expires :: timestamp
  tr_rotated :: "string option"

record token_row =
  rf_family :: uuid
  rf_user :: uuid
  rf_hash :: string
  rf_version :: int
  rf_expires :: timestamp
  rf_revoked :: "timestamp option"
  rf_rotated :: "string option"

record token_store =
  tk_memory :: "(string, token_record) hmap"
  tk_rows :: "token_row list"

text \<open>Active flag and credential version of a user.\<close>

type_synonym auth_users = "uuid \<Rightarrow> (bool \<times> int) option"

definition db_error :: "string \<Rightarrow> token_error" where
  "db_error e = TkDatabase [FStr e]"

section \<open>Operations\<close>

text \<open>A pool given: the table, one statement that may fail. None: the map.\<close>

definition store_token ::
    "(string \<Rightarrow> string) \<Rightarrow> pg option \<Rightarrow> string \<Rightarrow> uuid \<Rightarrow> uuid \<Rightarrow> nat \<Rightarrow> timestamp \<Rightarrow> token_store
      \<Rightarrow> (token_error + unit) \<times> token_store" where
  "store_token hash pool token family user version expires s =
     (case pool of
        Some f \<Rightarrow> (case stmt_error f 0 of Some e \<Rightarrow> (Inl (db_error e), s)
          | None \<Rightarrow> (Inr (), if list_ex (\<lambda>r. rf_hash r = hash token) (tk_rows s) then s
              else s\<lparr>tk_rows := tk_rows s @
                [\<lparr>rf_family = family, rf_user = user, rf_hash = hash token,
                  rf_version = i64_wrap (int version), rf_expires = expires,
                  rf_revoked = None, rf_rotated = None\<rparr>]\<rparr>))
      | None \<Rightarrow> (Inr (), s\<lparr>tk_memory := hm_insert (hash token)
              \<lparr>tr_family = family, tr_user = user, tr_version = version, tr_expires = expires,
               tr_rotated = None\<rparr> (tk_memory s)\<rparr>))"

text \<open>\<open>UPDATE refresh_tokens SET revoked_at = NOW() WHERE family_id = $1 AND revoked_at IS NULL\<close>\<close>

definition kill_family :: "timestamp \<Rightarrow> uuid \<Rightarrow> token_row list \<Rightarrow> token_row list" where
  "kill_family now family rows =
     map (\<lambda>r. if rf_family r = family \<and> rf_revoked r = None then r\<lparr>rf_revoked := Some now\<rparr> else r) rows"

text \<open>
  The transaction of a rotation, statement by statement, with the rows as the transaction sees
  them: begin, the token row, the user row, then the kill of the family or the update, the
  insert (refused by the UNIQUE hash) and the commit.
\<close>

definition rotate_tx ::
    "pg \<Rightarrow> auth_users \<Rightarrow> timestamp \<Rightarrow> string \<Rightarrow> string \<Rightarrow> nat \<Rightarrow> timestamp \<Rightarrow> token_row list
      \<Rightarrow> (token_error + uuid \<times> uuid) \<times> token_row list" where
  "rotate_tx f users now h new_h version new_expires rows =
     (case stmt_error f 0 of Some e \<Rightarrow> (Inl (db_error e), rows) | None \<Rightarrow>
     (case stmt_error f 1 of Some e \<Rightarrow> (Inl (db_error e), rows) | None \<Rightarrow>
     (case find (\<lambda>r. rf_hash r = h) rows of None \<Rightarrow> (Inl TkInvalid, rows) | Some r \<Rightarrow>
     (case stmt_error f 2 of Some e \<Rightarrow> (Inl (db_error e), rows) | None \<Rightarrow>
     (case users (rf_user r) of
        None \<Rightarrow>
          (case stmt_error f 3 of Some e \<Rightarrow> (Inl (db_error e), rows)
           | None \<Rightarrow> (Inl TkInvalid, kill_family (db_now f) (rf_family r) rows))
      | Some (active, user_version) \<Rightarrow>
          if rf_rotated r \<noteq> None then (Inl TkReuse, rows)
          else if rf_revoked r \<noteq> None \<or> rf_expires r \<le> now \<or> \<not> active
                  \<or> nat (rf_version r mod 2 ^ 64) \<noteq> nat (user_version mod 2 ^ 64)
                  \<or> version \<noteq> nat (user_version mod 2 ^ 64)
          then (case stmt_error f 3 of Some e \<Rightarrow> (Inl (db_error e), rows)
                | None \<Rightarrow> (Inl TkInvalid, kill_family (db_now f) (rf_family r) rows))
          else
            (case stmt_error f 3 of Some e \<Rightarrow> (Inl (db_error e), rows) | None \<Rightarrow>
             let rows1 = map (\<lambda>q. if rf_hash q = h then q\<lparr>rf_rotated := Some new_h\<rparr> else q) rows in
             (case stmt_error f 4 of Some e \<Rightarrow> (Inl (db_error e), rows1) | None \<Rightarrow>
              if list_ex (\<lambda>q. rf_hash q = new_h) rows1
              then (Inl (db_error (unique_error f)), rows1)
              else
                let rows2 = rows1 @ [\<lparr>rf_family = rf_family r, rf_user = rf_user r, rf_hash = new_h,
                       rf_version = i64_wrap (int version), rf_expires = new_expires,
                       rf_revoked = None, rf_rotated = None\<rparr>] in
                (case stmt_error f 5 of Some e \<Rightarrow> (Inl (db_error e), rows2)
                 | None \<Rightarrow> (Inr (rf_family r, rf_user r), rows2)))))))))"

text \<open>An early return drops the transaction, and with it everything it wrote.\<close>

definition rotate_db ::
    "pg \<Rightarrow> auth_users \<Rightarrow> timestamp \<Rightarrow> string \<Rightarrow> string \<Rightarrow> nat \<Rightarrow> timestamp \<Rightarrow> token_row list
      \<Rightarrow> (token_error + uuid \<times> uuid) \<times> token_row list" where
  "rotate_db f users now h new_h version new_expires rows =
     (case rotate_tx f users now h new_h version new_expires rows of
        (Inl e, _) \<Rightarrow> (Inl e, rows) | (Inr x, rows') \<Rightarrow> (Inr x, rows'))"

definition rotate_memory ::
    "string \<Rightarrow> string \<Rightarrow> nat \<Rightarrow> timestamp \<Rightarrow> (string, token_record) hmap
      \<Rightarrow> (token_error + uuid \<times> uuid) \<times> (string, token_record) hmap" where
  "rotate_memory h new_h version new_expires m =
     (case hm_get m h of
        None \<Rightarrow> (Inl TkInvalid, m)
      | Some r \<Rightarrow>
          if tr_rotated r \<noteq> None then (Inl TkReuse, m)
          else if tr_version r \<noteq> version then (Inl TkInvalid, m)
          else
            (let m1 = hm_insert new_h \<lparr>tr_family = tr_family r, tr_user = tr_user r,
                   tr_version = version, tr_expires = new_expires, tr_rotated = None\<rparr> m;
                 m2 = (case hm_get m1 h of None \<Rightarrow> m1
                       | Some q \<Rightarrow> hm_insert h (q\<lparr>tr_rotated := Some new_h\<rparr>) m1)
             in (Inr (tr_family r, tr_user r), m2)))"

definition validate_and_rotate ::
    "(string \<Rightarrow> string) \<Rightarrow> pg option \<Rightarrow> auth_users \<Rightarrow> timestamp \<Rightarrow> string \<Rightarrow> string \<Rightarrow> nat
      \<Rightarrow> timestamp \<Rightarrow> token_store \<Rightarrow> (token_error + uuid \<times> uuid) \<times> token_store" where
  "validate_and_rotate hash pool users now token new_token version new_expires s =
     (case pool of
        Some f \<Rightarrow>
          (case rotate_db f users now (hash token) (hash new_token) version new_expires (tk_rows s) of
             (r, rows) \<Rightarrow> (r, s\<lparr>tk_rows := rows\<rparr>))
      | None \<Rightarrow>
          (case rotate_memory (hash token) (hash new_token) version new_expires (tk_memory s) of
             (r, m) \<Rightarrow> (r, s\<lparr>tk_memory := m\<rparr>)))"

definition hm_retain :: "('k \<Rightarrow> 'v \<Rightarrow> bool) \<Rightarrow> ('k, 'v) hmap \<Rightarrow> ('k, 'v) hmap" where
  "hm_retain P m = filter (\<lambda>(k, v). P k v) m"

definition revoke_user_sessions ::
    "pg option \<Rightarrow> uuid \<Rightarrow> token_store \<Rightarrow> (token_error + unit) \<times> token_store" where
  "revoke_user_sessions pool user s =
     (case pool of
        Some f \<Rightarrow> (case stmt_error f 0 of Some e \<Rightarrow> (Inl (db_error e), s)
          | None \<Rightarrow> (Inr (), s\<lparr>tk_rows := map (\<lambda>r. if rf_user r = user \<and> rf_revoked r = None
                then r\<lparr>rf_revoked := Some (db_now f)\<rparr> else r) (tk_rows s)\<rparr>))
      | None \<Rightarrow> (Inr (), s\<lparr>tk_memory := hm_retain (\<lambda>_ r. tr_user r \<noteq> user) (tk_memory s)\<rparr>))"

definition revoke_family ::
    "pg option \<Rightarrow> uuid \<Rightarrow> token_store \<Rightarrow> (token_error + unit) \<times> token_store" where
  "revoke_family pool family s =
     (case pool of
        Some f \<Rightarrow> (case stmt_error f 0 of Some e \<Rightarrow> (Inl (db_error e), s)
          | None \<Rightarrow> (Inr (), s\<lparr>tk_rows := filter (\<lambda>r. rf_family r \<noteq> family) (tk_rows s)\<rparr>))
      | None \<Rightarrow> (Inr (), s\<lparr>tk_memory := hm_retain (\<lambda>_ r. tr_family r \<noteq> family) (tk_memory s)\<rparr>))"

definition revoke_token ::
    "(string \<Rightarrow> string) \<Rightarrow> pg option \<Rightarrow> string \<Rightarrow> token_store \<Rightarrow> (token_error + unit) \<times> token_store"
where
  "revoke_token hash pool token s =
     (case pool of
        Some f \<Rightarrow> (case stmt_error f 0 of Some e \<Rightarrow> (Inl (db_error e), s)
          | None \<Rightarrow> (Inr (), s\<lparr>tk_rows := filter (\<lambda>r. rf_hash r \<noteq> hash token) (tk_rows s)\<rparr>))
      | None \<Rightarrow> (Inr (), s\<lparr>tk_memory := hm_remove (hash token) (tk_memory s)\<rparr>))"

text \<open>One tick of the cleanup task, which runs for the in-memory store only.\<close>

definition cleanup_tick :: "timestamp \<Rightarrow> token_store \<Rightarrow> token_store" where
  "cleanup_tick now s = s\<lparr>tk_memory := hm_retain (\<lambda>_ r. now < tr_expires r) (tk_memory s)\<rparr>"

section \<open>Runs of calls\<close>

datatype token_call =
    StoreToken string uuid uuid nat timestamp
  | RotateToken string string nat timestamp
  | RevokeUser uuid
  | RevokeFamily uuid
  | RevokeToken string
  | Cleanup

text \<open>What a call meets: the server's behaviour, the users of the moment and the clock.\<close>

type_synonym token_step = "pg \<times> auth_users \<times> timestamp \<times> token_call"

definition pool_of :: "bool \<Rightarrow> pg \<Rightarrow> pg option" where
  "pool_of db f = (if db then Some f else None)"

fun token_next :: "(string \<Rightarrow> string) \<Rightarrow> bool \<Rightarrow> token_step \<Rightarrow> token_store \<Rightarrow> token_store" where
  "token_next hash db (f, users, now, StoreToken t fam u v e) s =
     snd (store_token hash (pool_of db f) t fam u v e s)"
| "token_next hash db (f, users, now, RotateToken t t' v e) s =
     snd (validate_and_rotate hash (pool_of db f) users now t t' v e s)"
| "token_next hash db (f, users, now, RevokeUser u) s = snd (revoke_user_sessions (pool_of db f) u s)"
| "token_next hash db (f, users, now, RevokeFamily fam) s = snd (revoke_family (pool_of db f) fam s)"
| "token_next hash db (f, users, now, RevokeToken t) s = snd (revoke_token hash (pool_of db f) t s)"
| "token_next hash db (f, users, now, Cleanup) s = (if db then s else cleanup_tick now s)"

definition token_runs :: "(string \<Rightarrow> string) \<Rightarrow> bool \<Rightarrow> token_step list \<Rightarrow> token_store \<Rightarrow> token_store" where
  "token_runs hash db steps s = fold (token_next hash db) steps s"

lemma token_runs_induct:
  assumes "P s" and "\<And>step s. step \<in> set steps \<Longrightarrow> P s \<Longrightarrow> P (token_next hash db step s)"
  shows "P (token_runs hash db steps s)"
  using assms unfolding token_runs_def by (induction steps arbitrary: s) auto

lemma hm_get_retain: "hm_wf m \<Longrightarrow> hm_get (hm_retain P m) k =
    (case hm_get m k of None \<Rightarrow> None | Some v \<Rightarrow> if P k v then Some v else None)"
  by (induction m) (auto simp: hm_retain_def hm_get_def hm_wf_def map_of_eq_None_iff split: option.splits)

lemma hm_wf_retain: "hm_wf m \<Longrightarrow> hm_wf (hm_retain P m)"
  unfolding hm_wf_def hm_retain_def by (rule distinct_map_filter)

section \<open>What a rotation requires and does\<close>

text \<open>The row of the presented token may be exchanged for a new one.\<close>

definition exchangeable :: "auth_users \<Rightarrow> timestamp \<Rightarrow> nat \<Rightarrow> token_row \<Rightarrow> bool" where
  "exchangeable users now version r \<longleftrightarrow>
     (case users (rf_user r) of None \<Rightarrow> False
      | Some (active, current) \<Rightarrow>
          rf_rotated r = None \<and> rf_revoked r = None \<and> now < rf_expires r \<and> active
          \<and> nat (rf_version r mod 2 ^ 64) = version \<and> nat (current mod 2 ^ 64) = version)"

definition rotated_rows ::
    "string \<Rightarrow> string \<Rightarrow> nat \<Rightarrow> timestamp \<Rightarrow> token_row \<Rightarrow> token_row list \<Rightarrow> token_row list" where
  "rotated_rows h new_h version new_expires r rows =
     map (\<lambda>q. if rf_hash q = h then q\<lparr>rf_rotated := Some new_h\<rparr> else q) rows
     @ [\<lparr>rf_family = rf_family r, rf_user = rf_user r, rf_hash = new_h,
         rf_version = i64_wrap (int version), rf_expires = new_expires,
         rf_revoked = None, rf_rotated = None\<rparr>]"

lemma ex_hash_mark [simp]:
  "list_ex (\<lambda>q. rf_hash q = k) (map (\<lambda>q. if rf_hash q = h then q\<lparr>rf_rotated := x\<rparr> else q) rows)
     \<longleftrightarrow> list_ex (\<lambda>q. rf_hash q = k) rows"
  by (induction rows) auto

lemma rotate_db_Ok:
  "rotate_db f users now h new_h version new_expires rows = (Inr x, rows') \<longleftrightarrow>
     (\<forall>i < 6. stmt_error f i = None)
     \<and> (\<exists>r. find (\<lambda>r. rf_hash r = h) rows = Some r \<and> exchangeable users now version r
          \<and> \<not> list_ex (\<lambda>q. rf_hash q = new_h) rows \<and> x = (rf_family r, rf_user r)
          \<and> rows' = rotated_rows h new_h version new_expires r rows)"
proof -
  have six: "(\<forall>i < 6. P i) \<longleftrightarrow> P 0 \<and> P 1 \<and> P 2 \<and> P 3 \<and> P 4 \<and> P (5 :: nat)" for P
    by (simp add: eval_nat_numeral less_Suc_eq all_conj_distrib conj_ac)
  show ?thesis
    unfolding rotate_db_def rotate_tx_def Let_def six exchangeable_def rotated_rows_def
    by (auto split: option.splits prod.splits if_splits)
qed

lemma rotate_db_Err:
  "rotate_db f users now h new_h version new_expires rows = (Inl e, rows') \<Longrightarrow> rows' = rows"
  by (auto simp: rotate_db_def split: prod.splits sum.splits)

lemma rotate_memory_Ok:
  "rotate_memory h new_h version new_expires m = (Inr x, m') \<longleftrightarrow>
     (\<exists>r. hm_get m h = Some r \<and> tr_rotated r = None \<and> tr_version r = version
        \<and> x = (tr_family r, tr_user r)
        \<and> m' = (let m1 = hm_insert new_h (r\<lparr>tr_expires := new_expires\<rparr>) m
                in hm_insert h ((the (hm_get m1 h))\<lparr>tr_rotated := Some new_h\<rparr>) m1))"
proof -
  have row: "\<lparr>tr_family = tr_family r, tr_user = tr_user r, tr_version = tr_version r,
      tr_expires = e, tr_rotated = None\<rparr> = r\<lparr>tr_expires := e\<rparr>"
    if "tr_rotated r = None" for r :: token_record and e
    using that by (cases r) simp
  have spent: "\<lparr>tr_family = tr_family r, tr_user = tr_user r, tr_version = tr_version r,
      tr_expires = e, tr_rotated = Some y\<rparr> = r\<lparr>tr_expires := e, tr_rotated := Some y\<rparr>"
    for r :: token_record and e y
    by (cases r) simp
  show ?thesis
    unfolding rotate_memory_def Let_def by (auto simp: row spent split: option.splits)
qed

lemma rotate_memory_Err:
  "rotate_memory h new_h version new_expires m = (Inl e, m') \<Longrightarrow> m' = m"
  unfolding rotate_memory_def Let_def by (auto split: option.splits if_splits)

text \<open>
  When a refresh token is exchanged (PostgreSQL backend). Rotation succeeds exactly if no
  statement fails, the hash of the token is stored and neither rotated, revoked nor expired, its
  user still exists and is active, the version stored with the token and the version presented
  are both the user's current one, and the hash of the new token is not stored yet. It then
  marks the token as spent and adds the new one, in the same family and for the same user. On
  every error, the failing statement included, the table is left exactly as it was; so the
  kill of the family that precedes an invalid-token answer is rolled back.
\<close>

theorem rotation_exact:
  "case validate_and_rotate hash (Some f) users now token new_token version new_expires s of
     (Inr x, s') \<Rightarrow>
       (\<forall>i < 6. stmt_error f i = None) \<and> \<not> list_ex (\<lambda>q. rf_hash q = hash new_token) (tk_rows s)
       \<and> (\<exists>r. find (\<lambda>r. rf_hash r = hash token) (tk_rows s) = Some r
            \<and> exchangeable users now version r \<and> x = (rf_family r, rf_user r)
            \<and> s' = s\<lparr>tk_rows := rotated_rows (hash token) (hash new_token) version new_expires r
                       (tk_rows s)\<rparr>)
   | (Inl e, s') \<Rightarrow> s' = s
       \<and> ((\<exists>i < 6. stmt_error f i \<noteq> None) \<or> list_ex (\<lambda>q. rf_hash q = hash new_token) (tk_rows s)
          \<or> (case find (\<lambda>r. rf_hash r = hash token) (tk_rows s) of
               None \<Rightarrow> True | Some r \<Rightarrow> \<not> exchangeable users now version r))"
proof (cases "rotate_db f users now (hash token) (hash new_token) version new_expires (tk_rows s)")
  case (Pair res rows)
  show ?thesis
  proof (cases res)
    case (Inl e)
    with Pair have err: "rotate_db f users now (hash token) (hash new_token) version new_expires
        (tk_rows s) = (Inl e, rows)" by simp
    then have "rows = tk_rows s" by (rule rotate_db_Err)
    moreover have "\<not> ((\<forall>i < 6. stmt_error f i = None)
       \<and> (\<exists>r. find (\<lambda>r. rf_hash r = hash token) (tk_rows s) = Some r
            \<and> exchangeable users now version r
            \<and> \<not> list_ex (\<lambda>q. rf_hash q = hash new_token) (tk_rows s)))"
      using err rotate_db_Ok [of f users now "hash token" "hash new_token" version new_expires
          "tk_rows s"] by auto
    ultimately show ?thesis using err
      by (auto simp: validate_and_rotate_def split: option.splits)
  next
    case (Inr x)
    with Pair have ok: "rotate_db f users now (hash token) (hash new_token) version new_expires
        (tk_rows s) = (Inr x, rows)" by simp
    from ok [unfolded rotate_db_Ok] show ?thesis
      by (auto simp: validate_and_rotate_def ok)
  qed
qed

text \<open>User 7, active at version 1, with the token \<open>''a''\<close> of family 5 on file.\<close>

definition demo_users :: auth_users where
  "demo_users u = (if u = 7 then Some (True, 1) else None)"

definition demo_tokens :: token_store where
  "demo_tokens = \<lparr>tk_memory = [],
     tk_rows = [\<lparr>rf_family = 5, rf_user = 7, rf_hash = ''a'', rf_version = 1, rf_expires = 100,
                 rf_revoked = None, rf_rotated = None\<rparr>]\<rparr>"

lemma demo_rotation:
  "fst (validate_and_rotate (\<lambda>t. t) (pool_of True no_faults) demo_users 0 ''a'' ''b'' 1 100 demo_tokens)
     = Inr (5, 7)"
  by (simp add: validate_and_rotate_def pool_of_def rotate_db_def rotate_tx_def demo_tokens_def
      demo_users_def)

lemma rotation_exact_witness:
  "snd (validate_and_rotate (\<lambda>t. t) (Some no_faults) demo_users 0 ''a'' ''b'' 1 100 demo_tokens)
     = demo_tokens\<lparr>tk_rows := rotated_rows ''a'' ''b'' 1 100 (hd (tk_rows demo_tokens)) (tk_rows demo_tokens)\<rparr>
   \<and> snd (validate_and_rotate (\<lambda>t. t) (Some no_faults) demo_users 0 ''x'' ''b'' 1 100 demo_tokens)
     = demo_tokens"
proof -
  have unknown: "fst (validate_and_rotate (\<lambda>t. t) (Some no_faults) demo_users 0 ''x'' ''b'' 1 100 demo_tokens)
     = Inl TkInvalid"
    by (simp add: validate_and_rotate_def rotate_db_def rotate_tx_def demo_tokens_def)
  show ?thesis
    using rotation_exact [where hash = "\<lambda>t. t" and f = no_faults and users = demo_users and now = 0
        and token = "''a''" and new_token = "''b''" and version = 1 and new_expires = 100
        and s = demo_tokens]
      rotation_exact [where hash = "\<lambda>t. t" and f = no_faults and users = demo_users and now = 0
        and token = "''x''" and new_token = "''b''" and version = 1 and new_expires = 100
        and s = demo_tokens]
      demo_rotation unknown
    by (auto simp: pool_of_def demo_tokens_def split: prod.splits sum.splits)
qed

section \<open>A spent token stays spent\<close>

text \<open>The hashes under which a call may store a token.\<close>

fun mints :: "(string \<Rightarrow> string) \<Rightarrow> token_call \<Rightarrow> string set" where
  "mints hash (StoreToken t fam u v e) = {hash t}"
| "mints hash (RotateToken t t' v e) = {hash t'}"
| "mints hash _ = {}"

definition spent :: "bool \<Rightarrow> string \<Rightarrow> token_store \<Rightarrow> bool" where
  "spent db h s =
     (if db then \<forall>r \<in> set (tk_rows s). rf_hash r = h \<longrightarrow> rf_rotated r \<noteq> None
      else hm_wf (tk_memory s) \<and> (\<forall>r. hm_get (tk_memory s) h = Some r \<longrightarrow> tr_rotated r \<noteq> None))"

lemma find_hash: "find (\<lambda>r. rf_hash r = h) rows = Some r \<Longrightarrow> r \<in> set rows \<and> rf_hash r = h"
  by (auto simp: find_Some_iff)

lemma set_rotated_rows:
  "q \<in> set (rotated_rows h new_h version e r rows) \<Longrightarrow>
     (\<exists>p \<in> set rows. q = (if rf_hash p = h then p\<lparr>rf_rotated := Some new_h\<rparr> else p))
     \<or> (rf_hash q = new_h \<and> rf_family q = rf_family r \<and> rf_user q = rf_user r
        \<and> rf_revoked q = None \<and> rf_rotated q = None)"
  by (auto simp: rotated_rows_def)

lemma spent_refused:
  assumes "spent db (hash t) s"
  shows "\<exists>e. validate_and_rotate hash (pool_of db f) users now t u v x s = (Inl e, s)"
proof (cases db)
  case True
  then have "\<not> exchangeable users now v r"
    if "find (\<lambda>r. rf_hash r = hash t) (tk_rows s) = Some r" for r
    using assms find_hash [OF that] by (auto simp: spent_def exchangeable_def split: option.splits)
  with True show ?thesis
    by (cases "rotate_db f users now (hash t) (hash u) v x (tk_rows s)";
        cases "fst (rotate_db f users now (hash t) (hash u) v x (tk_rows s))")
      (auto simp: pool_of_def validate_and_rotate_def rotate_db_Ok dest: rotate_db_Err)
next
  case False
  with assms show ?thesis
    by (auto simp: spent_def pool_of_def validate_and_rotate_def rotate_memory_def split: option.splits)
qed

text \<open>The effect of a rotation on either store, without the conditions.\<close>

lemma rotate_cases:
  obtains (error) e where
      "validate_and_rotate hash (pool_of db f) users now t u v x s = (Inl e, s)"
  | (table) r where "db" "r \<in> set (tk_rows s)" "rf_hash r = hash t" "exchangeable users now v r"
      "\<not> list_ex (\<lambda>q. rf_hash q = hash u) (tk_rows s)"
      "fst (validate_and_rotate hash (pool_of db f) users now t u v x s)
         = Inr (rf_family r, rf_user r)"
      "snd (validate_and_rotate hash (pool_of db f) users now t u v x s)
         = s\<lparr>tk_rows := rotated_rows (hash t) (hash u) v x r (tk_rows s)\<rparr>"
  | (memory) r q where "\<not> db" "hm_get (tk_memory s) (hash t) = Some r" "tr_rotated r = None"
      "fst (validate_and_rotate hash (pool_of db f) users now t u v x s)
         = Inr (tr_family r, tr_user r)"
      "snd (validate_and_rotate hash (pool_of db f) users now t u v x s)
         = s\<lparr>tk_memory := hm_insert (hash t) (q\<lparr>tr_rotated := Some (hash u)\<rparr>)
               (hm_insert (hash u) (r\<lparr>tr_expires := x\<rparr>) (tk_memory s))\<rparr>"
      "tr_family q = tr_family r" "tr_user q = tr_user r"
proof (cases db)
  case True
  show ?thesis
  proof (cases "rotate_db f users now (hash t) (hash u) v x (tk_rows s)")
    case (Pair res rows)
    show ?thesis
    proof (cases res)
      case (Inl e)
      with Pair have "rows = tk_rows s" by (auto dest: rotate_db_Err)
      with Inl Pair True show ?thesis by (intro error [of e]) (simp add: validate_and_rotate_def pool_of_def)
    next
      case (Inr y)
      with Pair obtain r where r: "find (\<lambda>r. rf_hash r = hash t) (tk_rows s) = Some r"
          "exchangeable users now v r" "y = (rf_family r, rf_user r)"
          "rows = rotated_rows (hash t) (hash u) v x r (tk_rows s)"
          "\<not> list_ex (\<lambda>q. rf_hash q = hash u) (tk_rows s)"
        by (auto simp: rotate_db_Ok)
      with Pair Inr True find_hash [OF r(1)] show ?thesis
        by (intro table [of r]) (simp_all add: validate_and_rotate_def pool_of_def)
    qed
  qed
next
  case False
  show ?thesis
  proof (cases "rotate_memory (hash t) (hash u) v x (tk_memory s)")
    case (Pair res m)
    show ?thesis
    proof (cases res)
      case (Inl e)
      with Pair have "m = tk_memory s" by (auto dest: rotate_memory_Err)
      with Inl Pair False show ?thesis by (intro error [of e]) (simp add: validate_and_rotate_def pool_of_def)
    next
      case (Inr y)
      with Pair obtain r where r: "hm_get (tk_memory s) (hash t) = Some r" "tr_rotated r = None"
          "y = (tr_family r, tr_user r)"
          "m = hm_insert (hash t) ((if hash t = hash u then r\<lparr>tr_expires := x\<rparr> else r)
                 \<lparr>tr_rotated := Some (hash u)\<rparr>) (hm_insert (hash u) (r\<lparr>tr_expires := x\<rparr>) (tk_memory s))"
        by (auto simp: rotate_memory_Ok Let_def split: if_splits)
      with Pair Inr False show ?thesis
        by (intro memory [of r "if hash t = hash u then r\<lparr>tr_expires := x\<rparr> else r"])
          (simp_all add: validate_and_rotate_def pool_of_def)
    qed
  qed
qed

lemma spent_after_rotation:
  assumes "fst (validate_and_rotate hash (pool_of db f) users now t u v x s) = Inr y"
    and "hm_wf (tk_memory s)"
  shows "spent db (hash t) (snd (validate_and_rotate hash (pool_of db f) users now t u v x s))"
  using assms
  by (cases rule: rotate_cases [of hash db f users now t u v x s])
    (auto simp: spent_def rotated_rows_def list_ex_iff)

lemma wf_token_next:
  "hm_wf (tk_memory s) \<Longrightarrow> hm_wf (tk_memory (token_next hash db step s))"
proof (induction hash db step s rule: token_next.induct)
  case (2 hash db f users now t t' v e s)
  then show ?case
    by (cases rule: rotate_cases [of hash db f users now t t' v e s]) auto
qed (auto simp: store_token_def revoke_user_sessions_def revoke_family_def revoke_token_def
    cleanup_tick_def pool_of_def hm_wf_retain split: option.splits)

lemma spent_next:
  "spent db h s \<Longrightarrow> h \<notin> mints hash (snd (snd (snd step))) \<Longrightarrow> spent db h (token_next hash db step s)"
proof (induction hash db step s rule: token_next.induct)
  case (2 hash db f users now t t' v e s)
  then show ?case
    by (cases rule: rotate_cases [of hash db f users now t t' v e s])
      (auto simp: spent_def dest!: set_rotated_rows split: if_splits)
qed (auto simp: spent_def store_token_def revoke_user_sessions_def revoke_family_def revoke_token_def
    cleanup_tick_def pool_of_def hm_wf_retain hm_get_retain split: option.splits if_splits)

text \<open>C6.
  A refresh token is exchanged at most once. After a successful rotation, whatever calls
  follow, in any number and order and with any server faults, among them revocations and the
  cleanup, another rotation of the same token is refused and changes nothing, as long as no
  call stores that very hash again. It holds in both backends.
\<close>

theorem token_single_use:
  assumes "hm_wf (tk_memory s)"
    and "fst (validate_and_rotate hash (pool_of db f) users now t u v x s) = Inr y"
    and "\<forall>step \<in> set steps. hash t \<notin> mints hash (snd (snd (snd step)))"
    and "s' = token_runs hash db steps
               (snd (validate_and_rotate hash (pool_of db f) users now t u v x s))"
  shows "\<exists>e. validate_and_rotate hash (pool_of db g) users' now' t u' v' x' s' = (Inl e, s')"
proof -
  have "spent db (hash t) s'" unfolding assms(4)
    using spent_after_rotation [OF assms(2,1)] assms(3)
    by (intro token_runs_induct [where P = "spent db (hash t)"]) (auto intro: spent_next)
  then show ?thesis by (rule spent_refused)
qed

lemma token_single_use_witness:
  "\<exists>e. fst (validate_and_rotate (\<lambda>t. t) (pool_of True no_faults) demo_users 1 ''a'' ''c'' 1 100
      (token_runs (\<lambda>t. t) True [(no_faults, demo_users, 1, RotateToken ''b'' ''c'' 1 100)]
        (snd (validate_and_rotate (\<lambda>t. t) (pool_of True no_faults) demo_users 0 ''a'' ''b'' 1 100
           demo_tokens)))) = Inl e"
proof -
  have "hm_wf (tk_memory demo_tokens)" by (simp add: demo_tokens_def)
  moreover have "\<forall>step \<in> set [(no_faults, demo_users, 1, RotateToken ''b'' ''c'' 1 100)].
      ''a'' \<notin> mints (\<lambda>t. t) (snd (snd (snd step)))" by simp
  ultimately show ?thesis
    using token_single_use [OF _ demo_rotation _ refl, where steps =
        "[(no_faults, demo_users, 1, RotateToken ''b'' ''c'' 1 100)]" and g = no_faults
        and users' = demo_users and now' = 1 and u' = "''c''" and v' = 1 and x' = 100] by fastforce
qed

section \<open>Replay is detected\<close>

text \<open>The spent token is still on file, of the user \<open>u\<close>.\<close>

definition on_file :: "bool \<Rightarrow> string \<Rightarrow> uuid \<Rightarrow> token_store \<Rightarrow> bool" where
  "on_file db h u s =
     (if db then list_ex (\<lambda>r. rf_hash r = h) (tk_rows s)
           \<and> (\<forall>r \<in> set (tk_rows s). rf_hash r = h \<longrightarrow> rf_user r = u \<and> rf_rotated r \<noteq> None)
      else \<exists>r. hm_get (tk_memory s) h = Some r \<and> tr_rotated r \<noteq> None)"

text \<open>The calls of a client: storing the tokens of a login and exchanging tokens.\<close>

fun issues :: "token_call \<Rightarrow> bool" where
  "issues (StoreToken t fam u v e) = True"
| "issues (RotateToken t t' v e) = True"
| "issues _ = False"

lemma on_file_next:
  "on_file db h u s \<Longrightarrow> h \<notin> mints hash (snd (snd (snd step))) \<Longrightarrow> issues (snd (snd (snd step)))
     \<Longrightarrow> on_file db h u (token_next hash db step s)"
proof (induction hash db step s rule: token_next.induct)
  case (2 hash db f users now t t' v e s)
  then show ?case
    by (cases rule: rotate_cases [of hash db f users now t t' v e s])
      (auto simp: on_file_def rotated_rows_def)
qed (auto simp: on_file_def store_token_def pool_of_def split: option.splits)

lemma on_file_after_rotation:
  assumes "fst (validate_and_rotate hash (pool_of db f) users now t u v x s) = Inr y"
    and "db \<longrightarrow> distinct (map rf_hash (tk_rows s))"
  shows "on_file db (hash t) (snd y) (snd (validate_and_rotate hash (pool_of db f) users now t u v x s))"
proof (cases rule: rotate_cases [of hash db f users now t u v x s])
  case (table r)
  then have y: "snd y = rf_user r" using assms(1) by auto
  have "\<forall>q \<in> set (tk_rows s). rf_hash q = hash t \<longrightarrow> rf_user q = snd y"
    using table(1,2,3) assms(2) y by (metis (no_types, lifting) distinct_map inj_onD)
  moreover have "hash u \<noteq> hash t" using table(2,3,5) by (auto simp: list_ex_iff)
  moreover have "list_ex (\<lambda>q. rf_hash q = hash t) (tk_rows s)" using table(2,3) by (auto simp: list_ex_iff)
  moreover note table(1)
  ultimately show ?thesis unfolding table(7) on_file_def rotated_rows_def by auto
qed (use assms in \<open>auto simp: on_file_def\<close>)

text \<open>
  Replay is reported as reuse. After a successful rotation and any later logins and rotations
  that do not store the same hash, presenting the old token again is answered with the
  reuse error, in the in-memory store always, in the database whenever the first three
  statements run and the user's row still exists.
\<close>

lemma replay_detected:
  assumes "fst (validate_and_rotate hash (pool_of db f) users now t u v x s) = Inr y"
    and "db \<longrightarrow> distinct (map rf_hash (tk_rows s))"
    and "\<forall>step \<in> set steps. hash t \<notin> mints hash (snd (snd (snd step))) \<and> issues (snd (snd (snd step)))"
    and "db \<longrightarrow> (\<forall>i < 3. stmt_error g i = None) \<and> users' (snd y) \<noteq> None"
  shows "fst (validate_and_rotate hash (pool_of db g) users' now' t u' v' x' (token_runs hash db steps
             (snd (validate_and_rotate hash (pool_of db f) users now t u v x s)))) = Inl TkReuse"
proof -
  define s' where "s' = token_runs hash db steps
      (snd (validate_and_rotate hash (pool_of db f) users now t u v x s))"
  have on: "on_file db (hash t) (snd y) s'" unfolding s'_def
    using on_file_after_rotation [OF assms(1,2)] assms(3)
    by (intro token_runs_induct [where P = "on_file db (hash t) (snd y)"]) (auto intro: on_file_next)
  show ?thesis unfolding s'_def [symmetric]
  proof (cases db)
    case True
    with on obtain r where r: "find (\<lambda>r. rf_hash r = hash t) (tk_rows s') = Some r"
      by (cases "find (\<lambda>r. rf_hash r = hash t) (tk_rows s')")
        (auto simp: on_file_def list_ex_iff find_None_iff)
    with on True find_hash [OF r] have "rf_user r = snd y" "rf_rotated r \<noteq> None"
      by (auto simp: on_file_def)
    moreover have "stmt_error g 0 = None" "stmt_error g 1 = None" "stmt_error g 2 = None"
      using assms(4) True by simp_all
    ultimately show "fst (validate_and_rotate hash (pool_of db g) users' now' t u' v' x' s') = Inl TkReuse"
      using True r assms(4)
      by (auto simp: validate_and_rotate_def pool_of_def rotate_db_def rotate_tx_def)
  next
    case False
    with on show "fst (validate_and_rotate hash (pool_of db g) users' now' t u' v' x' s') = Inl TkReuse"
      by (auto simp: on_file_def validate_and_rotate_def pool_of_def rotate_memory_def)
  qed
qed

lemma replay_detected_witness:
  "fst (validate_and_rotate (\<lambda>t. t) (pool_of True no_faults) demo_users 1 ''a'' ''c'' 1 100
      (token_runs (\<lambda>t. t) True [(no_faults, demo_users, 1, RotateToken ''b'' ''c'' 1 100)]
        (snd (validate_and_rotate (\<lambda>t. t) (pool_of True no_faults) demo_users 0 ''a'' ''b'' 1 100
           demo_tokens)))) = Inl TkReuse"
  by (rule replay_detected [OF demo_rotation]) (simp_all add: demo_tokens_def demo_users_def)

section \<open>Revocation is final\<close>

text \<open>No stored token of a user can be exchanged; no token of a family is stored.\<close>

definition cut_user :: "bool \<Rightarrow> uuid \<Rightarrow> token_store \<Rightarrow> bool" where
  "cut_user db u s =
     (if db then \<forall>r \<in> set (tk_rows s). rf_user r = u \<longrightarrow> rf_revoked r \<noteq> None
      else hm_wf (tk_memory s) \<and> (\<forall>k r. hm_get (tk_memory s) k = Some r \<longrightarrow> tr_user r \<noteq> u))"

definition cut_family :: "bool \<Rightarrow> uuid \<Rightarrow> token_store \<Rightarrow> bool" where
  "cut_family db fam s =
     (if db then \<forall>r \<in> set (tk_rows s). rf_family r \<noteq> fam
      else hm_wf (tk_memory s) \<and> (\<forall>k r. hm_get (tk_memory s) k = Some r \<longrightarrow> tr_family r \<noteq> fam))"

text \<open>A login of the user, a login under the family.\<close>

fun logs_in :: "(uuid \<Rightarrow> uuid \<Rightarrow> bool) \<Rightarrow> token_call \<Rightarrow> bool" where
  "logs_in P (StoreToken t fam u v e) = P fam u"
| "logs_in P _ = False"

lemma exchangeable_live: "exchangeable users now v r \<Longrightarrow> rf_revoked r = None"
  by (auto simp: exchangeable_def split: option.splits)

lemma cut_user_revoked:
  "hm_wf (tk_memory s) \<Longrightarrow> fst (revoke_user_sessions (pool_of db f) u s) = Inr ()
     \<Longrightarrow> cut_user db u (snd (revoke_user_sessions (pool_of db f) u s))"
proof (cases db)
  case True
  have "\<forall>r \<in> set (map (\<lambda>r. if rf_user r = u \<and> rf_revoked r = None
      then r\<lparr>rf_revoked := Some (db_now f)\<rparr> else r) rows). rf_user r = u \<longrightarrow> rf_revoked r \<noteq> None" for rows
    by (simp only: list_all_iff [symmetric] list.pred_map comp_def) (simp add: list_all_iff)
  moreover have sel: "tk_rows (s\<lparr>tk_rows := rows\<rparr>) = rows" for rows by simp
  moreover assume "fst (revoke_user_sessions (pool_of db f) u s) = Inr ()"
  then have "stmt_error f 0 = None" using True
    by (simp add: revoke_user_sessions_def pool_of_def split: option.splits)
  ultimately show "cut_user db u (snd (revoke_user_sessions (pool_of db f) u s))" using True
    by (simp only: revoke_user_sessions_def cut_user_def pool_of_def option.case if_True
        sel snd_conv)
qed (simp add: revoke_user_sessions_def cut_user_def pool_of_def hm_wf_retain hm_get_retain
    split: option.split)

lemma cut_user_next:
  "cut_user db u s \<Longrightarrow> \<not> logs_in (\<lambda>_ u'. u' = u) (snd (snd (snd step)))
     \<Longrightarrow> cut_user db u (token_next hash db step s)"
proof (induction hash db step s rule: token_next.induct)
  case (2 hash db f users now t t' v e s)
  then show ?case
    by (cases rule: rotate_cases [of hash db f users now t t' v e s])
      (auto simp: cut_user_def dest!: set_rotated_rows exchangeable_live split: if_splits)
qed (auto simp: cut_user_def store_token_def revoke_user_sessions_def revoke_family_def
    revoke_token_def cleanup_tick_def pool_of_def hm_wf_retain hm_get_retain
    split: option.splits if_splits)

lemma cut_family_revoked:
  "hm_wf (tk_memory s) \<Longrightarrow> fst (revoke_family (pool_of db f) fam s) = Inr ()
     \<Longrightarrow> cut_family db fam (snd (revoke_family (pool_of db f) fam s))"
  by (cases db; cases "stmt_error f 0")
    (simp_all add: revoke_family_def cut_family_def pool_of_def hm_wf_retain hm_get_retain split: option.split)

lemma cut_family_next:
  "cut_family db fam s \<Longrightarrow> \<not> logs_in (\<lambda>fam' _. fam' = fam) (snd (snd (snd step)))
     \<Longrightarrow> cut_family db fam (token_next hash db step s)"
proof (induction hash db step s rule: token_next.induct)
  case (2 hash db f users now t t' v e s)
  then show ?case
    by (cases rule: rotate_cases [of hash db f users now t t' v e s])
      (auto simp: cut_family_def dest!: set_rotated_rows split: if_splits)
qed (auto simp: cut_family_def store_token_def revoke_user_sessions_def revoke_family_def
    revoke_token_def cleanup_tick_def pool_of_def hm_wf_retain hm_get_retain
    split: option.splits if_splits)

lemma cut_user_refuses:
  "cut_user db u s \<Longrightarrow>
     fst (validate_and_rotate hash (pool_of db f) users now t t' v e s) \<noteq> Inr (fam, u)"
  by (cases rule: rotate_cases [of hash db f users now t t' v e s])
    (auto simp: cut_user_def dest!: exchangeable_live)

lemma cut_family_refuses:
  "cut_family db fam s \<Longrightarrow>
     fst (validate_and_rotate hash (pool_of db f) users now t t' v e s) \<noteq> Inr (fam, u)"
  by (cases rule: rotate_cases [of hash db f users now t t' v e s])
    (auto simp: cut_family_def)

text \<open>Revocation is final. After the sessions of a user are revoked (a password change, a
  log-out everywhere) or a token family is, no sequence of later calls makes a rotation
  succeed for that user or in that family, until a login stores a new token for the user
  or under the family. It holds in both backends.
\<close>

theorem revocation_is_final:
  assumes "hm_wf (tk_memory s)"
  shows "(fst (revoke_user_sessions (pool_of db f) u s) = Inr ()
          \<and> (\<forall>step \<in> set steps. \<not> logs_in (\<lambda>_ u'. u' = u) (snd (snd (snd step))))
          \<longrightarrow> fst (validate_and_rotate hash (pool_of db g) users now t t' v e
                 (token_runs hash db steps (snd (revoke_user_sessions (pool_of db f) u s))))
              \<noteq> Inr (fam', u))
    \<and> (fst (revoke_family (pool_of db f) fam s) = Inr ()
          \<and> (\<forall>step \<in> set steps. \<not> logs_in (\<lambda>fam' _. fam' = fam) (snd (snd (snd step))))
          \<longrightarrow> fst (validate_and_rotate hash (pool_of db g) users now t t' v e
                 (token_runs hash db steps (snd (revoke_family (pool_of db f) fam s))))
              \<noteq> Inr (fam, u'))"
proof (intro conjI impI; elim conjE)
  assume ok: "fst (revoke_user_sessions (pool_of db f) u s) = Inr ()"
    and steps: "\<forall>step \<in> set steps. \<not> logs_in (\<lambda>_ u'. u' = u) (snd (snd (snd step)))"
  note cut_user_revoked [OF assms ok]
  with steps have "cut_user db u
      (token_runs hash db steps (snd (revoke_user_sessions (pool_of db f) u s)))"
    by (intro token_runs_induct [where P = "cut_user db u"]) (auto intro: cut_user_next)
  then show "fst (validate_and_rotate hash (pool_of db g) users now t t' v e
      (token_runs hash db steps (snd (revoke_user_sessions (pool_of db f) u s)))) \<noteq> Inr (fam', u)"
    by (rule cut_user_refuses)
next
  assume ok: "fst (revoke_family (pool_of db f) fam s) = Inr ()"
    and steps: "\<forall>step \<in> set steps. \<not> logs_in (\<lambda>fam' _. fam' = fam) (snd (snd (snd step)))"
  note cut_family_revoked [OF assms ok]
  with steps have "cut_family db fam
      (token_runs hash db steps (snd (revoke_family (pool_of db f) fam s)))"
    by (intro token_runs_induct [where P = "cut_family db fam"]) (auto intro: cut_family_next)
  then show "fst (validate_and_rotate hash (pool_of db g) users now t t' v e
      (token_runs hash db steps (snd (revoke_family (pool_of db f) fam s)))) \<noteq> Inr (fam, u')"
    by (rule cut_family_refuses)
qed

lemma revocation_is_final_witness:
  "fst (validate_and_rotate (\<lambda>t. t) (pool_of True no_faults) demo_users 2 ''b'' ''c'' 1 100
      (token_runs (\<lambda>t. t) True [(no_faults, demo_users, 1, RotateToken ''a'' ''b'' 1 100)]
        (snd (revoke_user_sessions (pool_of True no_faults) 7 demo_tokens)))) \<noteq> Inr (5, 7)
   \<and> fst (validate_and_rotate (\<lambda>t. t) (pool_of True no_faults) demo_users 2 ''b'' ''c'' 1 100
      (token_runs (\<lambda>t. t) True [(no_faults, demo_users, 1, RotateToken ''a'' ''b'' 1 100)]
        (snd (revoke_family (pool_of True no_faults) 5 demo_tokens)))) \<noteq> Inr (5, 7)"
proof -
  have "hm_wf (tk_memory demo_tokens)"
    and "fst (revoke_user_sessions (pool_of True no_faults) 7 demo_tokens) = Inr ()"
    and "fst (revoke_family (pool_of True no_faults) 5 demo_tokens) = Inr ()"
    by (simp_all add: demo_tokens_def revoke_user_sessions_def revoke_family_def pool_of_def)
  then show ?thesis
    using revocation_is_final [where db = True and f = no_faults and u = 7 and u' = 7 and fam = 5 and fam' = 5
        and s = demo_tokens and steps = "[(no_faults, demo_users, 1, RotateToken ''a'' ''b'' 1 100)]"]
    by simp
qed

text \<open>
  The in-memory rotation looks neither at the clock nor at the user: until the hourly cleanup
  has run, an expired token is exchanged.
\<close>

lemma memory_rotates_expired:
  "fst (validate_and_rotate (\<lambda>t. t) None users 500 ''a'' ''b'' 1 900
     \<lparr>tk_memory = [(''a'', \<lparr>tr_family = 5, tr_user = 7, tr_version = 1, tr_expires = 100,
        tr_rotated = None\<rparr>)], tk_rows = []\<rparr>) = Inr (5, 7)"
  by (simp add: validate_and_rotate_def rotate_memory_def Let_def)

text \<open>
  A token of a deactivated user is refused, but the revocation of its family, written just
  before, is rolled back with the transaction: its row is still unrevoked.
\<close>

lemma family_kill_rolled_back:
  "let s' = snd (validate_and_rotate (\<lambda>t. t) (Some no_faults) (\<lambda>_. Some (False, 1)) 0 ''a'' ''b'' 1 900 demo_tokens)
   in fst (rotate_tx no_faults (\<lambda>_. Some (False, 1)) 0 ''a'' ''b'' 1 900 (tk_rows demo_tokens)) = Inl TkInvalid
      \<and> map rf_revoked (snd (rotate_tx no_faults (\<lambda>_. Some (False, 1)) 0 ''a'' ''b'' 1 900 (tk_rows demo_tokens)))
          = [Some 0]
      \<and> map rf_revoked (tk_rows s') = [None]"
  by (simp add: validate_and_rotate_def rotate_db_def rotate_tx_def kill_family_def demo_tokens_def)

end
