(* ===== verification/Auth_Stores.thy ===== *)
theory Auth_Stores
  imports Sql_Model
begin

text \<open>
  The authentication state that API replicas share
  (\<open>sensei-api/src/middleware/shared_auth_stores.rs\<close>): the blacklist of revoked access
  tokens and the one-time tokens of password resets and e-mail verifications, each with its
  table and its in-memory fallback. Parameters: the SHA-256 hash, \<open>Uuid::parse_str\<close>,
  \<open>DateTime::from_timestamp\<close>, and whether the row-level security of the connection
  refuses a tenant's rows.
\<close>

section \<open>The blacklist of access tokens\<close>

record black_row =
  bk_jti :: uuid
  bk_expires :: timestamp

record blacklist =
  bl_memory :: "string set"
  bl_rows :: "black_row list"

text \<open>What the code takes from the UUID and time libraries.\<close>

type_synonym uuid_parser = "string \<Rightarrow> string + uuid"
type_synonym unix_time = "int \<Rightarrow> timestamp option"

text \<open>The sweep is the \<open>n\<close>-th statement of its call; its errors are dropped.\<close>

definition blacklist_sweep :: "pg option \<Rightarrow> nat \<Rightarrow> blacklist \<Rightarrow> blacklist" where
  "blacklist_sweep pool n s =
     (case pool of None \<Rightarrow> s
      | Some f \<Rightarrow> (case stmt_error f n of Some _ \<Rightarrow> s
          | None \<Rightarrow> s\<lparr>bl_rows := filter (\<lambda>r. \<not> bk_expires r \<le> db_now f) (bl_rows s)\<rparr>))"

definition blacklist_insert ::
    "uuid_parser \<Rightarrow> unix_time \<Rightarrow> pg option \<Rightarrow> timestamp \<Rightarrow> string \<Rightarrow> blacklist
      \<Rightarrow> (message + unit) \<times> blacklist" where
  "blacklist_insert parse_uuid from_unix pool now entry s =
     (let (jti, expi) = (case split_once (CHR '':'') entry of
            Some (j, e) \<Rightarrow> (j, case parse_i64 e of None \<Rightarrow> 0 | Some n \<Rightarrow> n)
          | None \<Rightarrow> (entry, 0))
      in case pool of
           Some f \<Rightarrow>
             (case parse_uuid jti of Inl e \<Rightarrow> (Inl [Txt ''Invalid jti: '', FStr e], s)
              | Inr u \<Rightarrow>
                (let expires = (case from_unix expi of None \<Rightarrow> now | Some t \<Rightarrow> t)
                 in case stmt_error f 0 of Some e \<Rightarrow> (Inl [Txt ''Blacklist insert failed: '', FStr e], s)
                    | None \<Rightarrow> (Inr (), blacklist_sweep pool 1
                        (if list_ex (\<lambda>r. bk_jti r = u) (bl_rows s) then s
                         else s\<lparr>bl_rows := bl_rows s @ [\<lparr>bk_jti = u, bk_expires = expires\<rparr>]\<rparr>))))
         | None \<Rightarrow> (Inr (), s\<lparr>bl_memory := insert entry (bl_memory s)\<rparr>))"

definition blacklist_contains ::
    "uuid_parser \<Rightarrow> pg option \<Rightarrow> string \<Rightarrow> blacklist \<Rightarrow> message + bool" where
  "blacklist_contains parse_uuid pool jti s =
     (case pool of
        Some f \<Rightarrow>
          (case parse_uuid jti of Inl e \<Rightarrow> Inl [Txt ''Invalid jti: '', FStr e]
           | Inr u \<Rightarrow> (case stmt_error f 0 of Some e \<Rightarrow> Inl [Txt ''Blacklist lookup failed: '', FStr e]
               | None \<Rightarrow> Inr (list_ex (\<lambda>r. bk_jti r = u \<and> db_now f < bk_expires r) (bl_rows s))))
      | None \<Rightarrow> Inr (\<exists>e \<in> bl_memory s. starts_with jti e))"

definition blacklist_len :: "pg option \<Rightarrow> blacklist \<Rightarrow> nat \<times> blacklist" where
  "blacklist_len pool s =
     (case pool of
        Some f \<Rightarrow> (let s' = blacklist_sweep pool 0 s
          in (case stmt_error f 1 of Some _ \<Rightarrow> 0 | None \<Rightarrow> length (bl_rows s'), s'))
      | None \<Rightarrow> (card (bl_memory s), s))"

definition blacklist_is_empty :: "pg option \<Rightarrow> blacklist \<Rightarrow> bool \<times> blacklist" where
  "blacklist_is_empty pool s = (let (n, s') = blacklist_len pool s in (n = 0, s'))"

text \<open>The entry that a logout of a token with this \<open>jti\<close> and \<open>exp\<close> records.\<close>

definition logout_entry :: "(uuid \<Rightarrow> string) \<Rightarrow> uuid \<Rightarrow> nat \<Rightarrow> string" where
  "logout_entry show_uuid jti expi = show_uuid jti @ '':'' @ show_nat expi"

section \<open>A revoked token stays revoked until it expires\<close>

datatype blacklist_call =
    BlInsert string
  | BlSweep
  | BlLen

text \<open>A call with the behaviour of the server and the clock it meets.\<close>

type_synonym blacklist_step = "pg \<times> timestamp \<times> blacklist_call"

definition bl_pool :: "bool \<Rightarrow> pg \<Rightarrow> pg option" where
  "bl_pool db f = (if db then Some f else None)"

fun blacklist_next ::
    "uuid_parser \<Rightarrow> unix_time \<Rightarrow> bool \<Rightarrow> blacklist_step \<Rightarrow> blacklist \<Rightarrow> blacklist" where
  "blacklist_next parse_uuid from_unix db (f, now, BlInsert entry) s =
     snd (blacklist_insert parse_uuid from_unix (bl_pool db f) now entry s)"
| "blacklist_next parse_uuid from_unix db (f, now, BlSweep) s = blacklist_sweep (bl_pool db f) 0 s"
| "blacklist_next parse_uuid from_unix db (f, now, BlLen) s = snd (blacklist_len (bl_pool db f) s)"

definition blacklist_runs ::
    "uuid_parser \<Rightarrow> unix_time \<Rightarrow> bool \<Rightarrow> blacklist_step list \<Rightarrow> blacklist \<Rightarrow> blacklist" where
  "blacklist_runs parse_uuid from_unix db steps s = fold (blacklist_next parse_uuid from_unix db) steps s"

definition listed :: "bool \<Rightarrow> uuid \<Rightarrow> timestamp \<Rightarrow> string \<Rightarrow> blacklist \<Rightarrow> bool" where
  "listed db jti expires entry s =
     (if db then \<exists>r \<in> set (bl_rows s). bk_jti r = jti \<and> expires \<le> bk_expires r
      else entry \<in> bl_memory s)"

lemma listed_sweep:
  "listed db jti expires entry s \<Longrightarrow> db_now f < expires
     \<Longrightarrow> listed db jti expires entry (blacklist_sweep (bl_pool db f) n s)"
  by (fastforce simp: listed_def blacklist_sweep_def bl_pool_def split: option.splits)

lemma listed_insert:
  "listed db jti expires entry s \<Longrightarrow> db_now f < expires
     \<Longrightarrow> listed db jti expires entry (snd (blacklist_insert pu fu (bl_pool db f) now entry' s))"
proof -
  assume a: "listed db jti expires entry s" "db_now f < expires"
  have "listed db jti expires entry (s\<lparr>bl_rows := bl_rows s @ rs\<rparr>)" for rs
    using a(1) by (auto simp: listed_def)
  from this a show ?thesis
    by (cases db) (auto simp: blacklist_insert_def Let_def bl_pool_def listed_sweep [where db = True,
          unfolded bl_pool_def if_True] split: option.splits sum.splits prod.splits,
        auto simp: listed_def)
qed

lemma listed_next:
  "listed db jti expires entry s \<Longrightarrow> db_now (fst step) < expires
     \<Longrightarrow> listed db jti expires entry (blacklist_next pu fu db step s)"
proof (induction pu fu db step s rule: blacklist_next.induct)
  case (3 pu fu db f now s)
  then show ?case using listed_sweep [of db jti expires entry s f 0]
    by (cases db) (auto simp: blacklist_len_def bl_pool_def Let_def)
qed (auto intro: listed_sweep listed_insert)

lemma listed_runs:
  "listed db jti expires entry s \<Longrightarrow> \<forall>step \<in> set steps. db_now (fst step) < expires
     \<Longrightarrow> listed db jti expires entry (blacklist_runs pu fu db steps s)"
  unfolding blacklist_runs_def by (induction steps arbitrary: s) (auto intro: listed_next)

text \<open>What a successful logout leaves.\<close>

lemma listed_after_insert:
  assumes ok: "fst (blacklist_insert pu fu (bl_pool db f) now (logout_entry show_uuid jti expi) s) = Inr ()"
    and "CHR '':'' \<notin> set (show_uuid jti)" and "pu (show_uuid jti) = Inr jti" and "expi < 2 ^ 63"
    and "fu (int expi) = Some expires" and "db_now f < expires"
    and "\<forall>r \<in> set (bl_rows s). bk_jti r = jti \<longrightarrow> expires \<le> bk_expires r"
  shows "listed db jti expires (logout_entry show_uuid jti expi)
     (snd (blacklist_insert pu fu (bl_pool db f) now (logout_entry show_uuid jti expi) s))"
proof -
  have split: "split_once (CHR '':'') (logout_entry show_uuid jti expi) = Some (show_uuid jti, show_nat expi)"
    using split_once_append [OF assms(2), of "show_nat expi"] by (simp add: logout_entry_def)
  show ?thesis
  proof (cases db)
    case True
    have "listed True jti expires (logout_entry show_uuid jti expi)
       (if list_ex (\<lambda>r. bk_jti r = jti) (bl_rows s) then s
        else s\<lparr>bl_rows := bl_rows s @ [\<lparr>bk_jti = jti, bk_expires = expires\<rparr>]\<rparr>)" (is "listed _ _ _ _ ?s")
      using assms(7) by (auto simp: listed_def list_ex_iff)
    from listed_sweep [OF this assms(6), of 1]
    show ?thesis using ok True assms(3-5)
      by (auto simp: blacklist_insert_def bl_pool_def split parse_show_nat split: option.splits)
  next
    case False
    then show ?thesis by (simp add: blacklist_insert_def bl_pool_def listed_def split)
  qed
qed

lemma listed_contains:
  assumes "listed db jti expires (logout_entry show_uuid jti expi) s"
    and "pu (show_uuid jti) = Inr jti" and "db_now f < expires"
  shows "blacklist_contains pu (bl_pool db f) (show_uuid jti) s \<noteq> Inr False"
  using assms
  by (cases db) (fastforce simp: listed_def blacklist_contains_def bl_pool_def list_ex_iff
      logout_entry_def starts_with_def split: option.splits)+

section \<open>One-time tokens\<close>

datatype token_kind = PasswordReset | EmailVerification

fun token_table :: "token_kind \<Rightarrow> string" where
  "token_table PasswordReset = ''password_reset_tokens''"
| "token_table EmailVerification = ''email_verification_tokens''"

record onetime_record =
  or_user :: uuid
  or_tenant :: uuid
  or_expires :: timestamp

record onetime_row =
  oq_hash :: string
  oq_user :: uuid
  oq_tenant :: uuid
  oq_expires :: timestamp
  oq_consumed :: "timestamp option"

text \<open>A store of one kind: its map and the rows of its table.\<close>

record onetime_store =
  os_kind :: token_kind
  os_memory :: "(string, onetime_record) hmap"
  os_rows :: "onetime_row list"

text \<open>
  Row-level security: the error text with which the connection's role refuses to write a row of a
  tenant, None for a tenant it admits. Rows of the other tenants are invisible to it.
\<close>

type_synonym rls = "uuid \<Rightarrow> string option"

definition onetime_insert ::
    "(string \<Rightarrow> string) \<Rightarrow> rls \<Rightarrow> pg option \<Rightarrow> string \<Rightarrow> uuid \<Rightarrow> uuid \<Rightarrow> timestamp \<Rightarrow> onetime_store
      \<Rightarrow> (message + unit) \<times> onetime_store" where
  "onetime_insert hash refuses pool token user tenant expires s =
     (case pool of
        Some f \<Rightarrow> (case (case stmt_error f 0 of Some e \<Rightarrow> Some e | None \<Rightarrow> refuses tenant) of
            Some e \<Rightarrow> (Inl [Txt ''Token insert failed: '', FStr e], s)
          | None \<Rightarrow> (Inr (), if list_ex (\<lambda>r. oq_hash r = hash token) (os_rows s) then s
              else s\<lparr>os_rows := os_rows s @ [\<lparr>oq_hash = hash token, oq_user = user,
                oq_tenant = tenant, oq_expires = expires, oq_consumed = None\<rparr>]\<rparr>))
      | None \<Rightarrow> (Inr (), s\<lparr>os_memory := hm_insert (hash token)
              \<lparr>or_user = user, or_tenant = tenant, or_expires = expires\<rparr> (os_memory s)\<rparr>))"

definition onetime_consume ::
    "(string \<Rightarrow> string) \<Rightarrow> rls \<Rightarrow> pg option \<Rightarrow> timestamp \<Rightarrow> string \<Rightarrow> onetime_store
      \<Rightarrow> (message + onetime_record option) \<times> onetime_store" where
  "onetime_consume hash refuses pool now token s =
     (case pool of
        Some f \<Rightarrow> (case stmt_error f 0 of
            Some e \<Rightarrow> (Inl [Txt ''Token consume failed: '', FStr e], s)
          | None \<Rightarrow>
             (let hit = (\<lambda>r. oq_hash r = hash token \<and> oq_consumed r = None
                    \<and> db_now f < oq_expires r \<and> refuses (oq_tenant r) = None)
              in (Inr (map_option (\<lambda>r. \<lparr>or_user = oq_user r, or_tenant = oq_tenant r,
                        or_expires = oq_expires r\<rparr>) (find hit (os_rows s))),
                  s\<lparr>os_rows := filter (\<lambda>r. \<not> hit r) (os_rows s)\<rparr>)))
      | None \<Rightarrow> (Inr (case hm_get (os_memory s) (hash token) of None \<Rightarrow> None
                   | Some r \<Rightarrow> if now < or_expires r then Some r else None),
                 s\<lparr>os_memory := hm_remove (hash token) (os_memory s)\<rparr>))"

datatype onetime_call =
    IssueOnce string uuid uuid timestamp
  | ConsumeOnce string

type_synonym onetime_step = "pg \<times> rls \<times> timestamp \<times> onetime_call"

fun onetime_next ::
    "(string \<Rightarrow> string) \<Rightarrow> bool \<Rightarrow> onetime_step \<Rightarrow> onetime_store \<Rightarrow> onetime_store" where
  "onetime_next hash db (f, refuses, now, IssueOnce t u tenant e) s =
     snd (onetime_insert hash refuses (bl_pool db f) t u tenant e s)"
| "onetime_next hash db (f, refuses, now, ConsumeOnce t) s =
     snd (onetime_consume hash refuses (bl_pool db f) now t s)"

definition onetime_runs ::
    "(string \<Rightarrow> string) \<Rightarrow> bool \<Rightarrow> onetime_step list \<Rightarrow> onetime_store \<Rightarrow> onetime_store" where
  "onetime_runs hash db steps s = fold (onetime_next hash db) steps s"

text \<open>No token with this hash is stored.\<close>

definition unknown_token :: "bool \<Rightarrow> string \<Rightarrow> onetime_store \<Rightarrow> bool" where
  "unknown_token db h s =
     (if db then \<forall>r \<in> set (os_rows s). oq_hash r \<noteq> h else hm_get (os_memory s) h = None)"

fun issues_hash :: "(string \<Rightarrow> string) \<Rightarrow> string \<Rightarrow> onetime_call \<Rightarrow> bool" where
  "issues_hash hash h (IssueOnce t u tenant e) = (hash t = h)"
| "issues_hash hash h (ConsumeOnce t) = False"

lemma unknown_token_next:
  "unknown_token db h s \<Longrightarrow> \<not> issues_hash hash h (snd (snd (snd step)))
     \<Longrightarrow> unknown_token db h (onetime_next hash db step s)"
  by (induction hash db step s rule: onetime_next.induct)
    (auto simp: unknown_token_def onetime_insert_def onetime_consume_def bl_pool_def Let_def
      split: option.splits if_splits)

lemma unknown_token_runs:
  "unknown_token db h s \<Longrightarrow> \<forall>step \<in> set steps. \<not> issues_hash hash h (snd (snd (snd step)))
     \<Longrightarrow> unknown_token db h (onetime_runs hash db steps s)"
  unfolding onetime_runs_def by (induction steps arbitrary: s) (auto intro: unknown_token_next)

lemma unknown_token_consume:
  "unknown_token db (hash t) s
     \<Longrightarrow> fst (onetime_consume hash refuses (bl_pool db f) now t s) \<noteq> Inr (Some r)"
  by (auto simp: unknown_token_def onetime_consume_def bl_pool_def Let_def find_None_iff find_Some_iff
      split: option.splits if_splits)

lemma unknown_after_consume:
  assumes "fst (onetime_consume hash refuses (bl_pool db f) now t s) = Inr (Some r)"
    and "db \<longrightarrow> distinct (map oq_hash (os_rows s))"
  shows "unknown_token db (hash t) (snd (onetime_consume hash refuses (bl_pool db f) now t s))"
proof (cases db)
  case True
  let ?hit = "\<lambda>r. oq_hash r = hash t \<and> oq_consumed r = None \<and> db_now f < oq_expires r
      \<and> refuses (oq_tenant r) = None"
  have ok: "stmt_error f 0 = None" and "find ?hit (os_rows s) \<noteq> None"
    using assms(1) True by (auto simp: onetime_consume_def bl_pool_def Let_def split: option.splits)
  then obtain q where q: "q \<in> set (os_rows s)" "?hit q"
    by (auto simp: find_Some_iff) (metis nth_mem)
  have "?hit r" if "r \<in> set (os_rows s)" "oq_hash r = hash t" for r
  proof -
    have inj: "inj_on oq_hash (set (os_rows s))" using True assms(2) by (simp add: distinct_map)
    have "r = q" using that q by (intro inj_onD [OF inj]) simp_all
    with q show ?thesis by simp
  qed
  then show ?thesis using True ok
    by (auto simp: unknown_token_def onetime_consume_def bl_pool_def Let_def)
qed (simp add: unknown_token_def onetime_consume_def bl_pool_def)

text \<open>
  A password-reset or e-mail-verification token works once. After it has been consumed, no
  sequence of other calls, with any server faults, clock and row-level security, lets it be
  consumed again, unless a token with the same hash is issued. It holds in both backends.
\<close>

theorem one_time_token:
  assumes "fst (onetime_consume hash refuses (bl_pool db f) now t s) = Inr (Some r)"
    and "db \<longrightarrow> distinct (map oq_hash (os_rows s))"
    and "\<forall>step \<in> set steps. \<not> issues_hash hash (hash t) (snd (snd (snd step)))"
  shows "fst (onetime_consume hash refuses' (bl_pool db g) now' t (onetime_runs hash db steps
           (snd (onetime_consume hash refuses (bl_pool db f) now t s)))) \<noteq> Inr (Some r')"
  using unknown_token_runs [OF unknown_after_consume [OF assms(1,2)] assms(3)]
  by (rule unknown_token_consume)

lemma one_time_token_witness:
  "fst (onetime_consume (\<lambda>t. t) (\<lambda>_. None) (bl_pool True no_faults) 1 ''a''
      (onetime_runs (\<lambda>t. t) True [(no_faults, \<lambda>_. None, 1, IssueOnce ''b'' 7 1 100)]
        (snd (onetime_consume (\<lambda>t. t) (\<lambda>_. None) (bl_pool True no_faults) 1 ''a''
          \<lparr>os_kind = PasswordReset, os_memory = [],
           os_rows = [\<lparr>oq_hash = ''a'', oq_user = 7, oq_tenant = 1, oq_expires = 100,
             oq_consumed = None\<rparr>]\<rparr>)))) \<noteq> Inr (Some \<lparr>or_user = 7, or_tenant = 1, or_expires = 100\<rparr>)"
  by (rule one_time_token [where r = "\<lparr>or_user = 7, or_tenant = 1, or_expires = 100\<rparr>"])
    (simp_all add: onetime_consume_def bl_pool_def)

text \<open>
  Both tables carry a tenant column, so migration 175 puts them under forced, fail-closed
  row-level security, while the store reaches them over the bare pool, without a tenant
  context: a role that is subject to the policy can neither issue nor consume a token.
\<close>

lemma onetime_without_context:
  assumes "\<forall>tenant. refuses tenant = Some denied" and "stmt_error f 0 = None"
  shows "onetime_insert hash refuses (Some f) t u tenant e s
           = (Inl [Txt ''Token insert failed: '', FStr denied], s)"
    and "onetime_consume hash refuses (Some f) now t s = (Inr None, s)"
  using assms by (simp_all add: onetime_insert_def onetime_consume_def Let_def find_None_iff)

text \<open>In memory, where entries hold their expiry as text, nothing is ever swept.\<close>

lemma memory_never_swept: "blacklist_sweep None n s = s"
  by (simp add: blacklist_sweep_def)

end
