(* ===== verification/Rbac.thy ===== *)
theory Rbac
  imports Rust_Prelude "HOL-Library.List_Lexorder" "HOL-Library.Char_ord"
begin

text \<open>
  Role-based access control (\<open>sensei-auth/src/rbac.rs\<close>): permission strings and their
  wildcard matching, the compiled role table, the role hierarchy with its breadth-first
  ancestor search, the tenant-scoped custom roles, and the decisions taken on them.
\<close>

section \<open>Permissions\<close>

text \<open>\<open>Permission\<close> of \<open>sensei-core/src/domain/entities.rs\<close>.\<close>

datatype permission = Permission (permission_str: string)

definition parse_permission :: "permission \<Rightarrow> (string \<times> string) option" where
  "parse_permission p = split_once (CHR '':'') (permission_str p)"

definition permission_resource :: "permission \<Rightarrow> string option" where
  "permission_resource p = map_option fst (parse_permission p)"

definition permission_action :: "permission \<Rightarrow> string option" where
  "permission_action p = map_option snd (parse_permission p)"

definition permission_matches :: "string \<Rightarrow> string \<Rightarrow> string \<Rightarrow> bool" where
  "permission_matches perm resource action =
     (if perm = ''*:*'' then True
      else (case split_once (CHR '':'') perm of
              None \<Rightarrow> False
            | Some (r, a) \<Rightarrow> (r = ''*'' \<or> r = resource) \<and> (a = ''*'' \<or> a = action)))"

section \<open>The service\<close>

text \<open>A \<open>HashSet<String>\<close> is held as the list of its elements, each once.\<close>

record rbac_service =
  rb_roles :: "(string, string list) hmap"
  rb_tenant_roles :: "(uuid \<times> string, string list) hmap"
  rb_hierarchy :: "(string, string list) hmap"

definition rbac_empty :: rbac_service where
  "rbac_empty = \<lparr>rb_roles = [], rb_tenant_roles = [], rb_hierarchy = []\<rparr>"

definition add_role :: "string \<Rightarrow> string list \<Rightarrow> rbac_service \<Rightarrow> rbac_service" where
  "add_role name perms svc = svc\<lparr>rb_roles := hm_insert name (remdups perms) (rb_roles svc)\<rparr>"

section \<open>The compiled role table\<close>

text \<open>System and tenant administration.\<close>

definition system_roles :: "(string \<times> string list) list" where
  "system_roles = [
    (''platform_superadmin'', [
      ''*:*'']),
    (''platform_admin'', [
      ''tenants:*'', ''users:*'', ''system:*'']),
    (''tenant_admin'', [
      ''users:list'', ''users:update'', ''users:roles'', ''users:deactivate'',
      ''users:activate''])]"

text \<open>Finance.\<close>

definition finance_roles :: "(string \<times> string list) list" where
  "finance_roles = [
    (''finance_manager'', [
      ''finance:invoice:read'', ''finance:invoice:create'', ''finance:invoice:update'',
      ''finance:invoice:void'', ''finance:invoice:approve'', ''finance:payment:read'',
      ''finance:payment:record'', ''finance:payment:reverse'', ''finance:payment:void'',
      ''finance:journal:read'', ''finance:journal:post'', ''finance:journal:reverse'',
      ''finance:budget:read'', ''finance:budget:create'', ''finance:budget:allocate'',
      ''finance:budget:approve'', ''finance:rollup:run'', ''finance:match:three-way'']),
    (''accountant'', [
      ''finance:invoice:read'', ''finance:invoice:create'', ''finance:payment:read'',
      ''finance:payment:record'', ''finance:journal:read'', ''finance:journal:post'',
      ''finance:budget:read'']),
    (''ap_specialist'', [
      ''finance:invoice:read'', ''finance:invoice:approve'', ''finance:payment:record'',
      ''finance:match:three-way'']),
    (''ar_specialist'', [
      ''finance:invoice:read'', ''finance:invoice:create'', ''finance:payment:record''])]"

text \<open>People.\<close>

definition hr_roles :: "(string \<times> string list) list" where
  "hr_roles = [
    (''hr_manager'', [
      ''hr:employee:read'', ''hr:employee:manage'', ''hr:leave:self'', ''hr:leave:approve'',
      ''hr:review:manage'', ''hr:timecard:self'', ''hr:timecard:manage'',
      ''hr:training:manage'', ''hr:manage'', ''training:manage'']),
    (''hr_specialist'', [
      ''hr:employee:read'', ''hr:employee:manage'', ''hr:training:manage'',
      ''hr:timecard:manage'']),
    (''supervisor'', [
      ''hr:employee:read'', ''hr:leave:self'', ''hr:leave:approve'', ''hr:timecard:self'',
      ''hr:timecard:manage''])]"

text \<open>Purchasing.\<close>

definition purchasing_roles :: "(string \<times> string list) list" where
  "purchasing_roles = [
    (''purchasing_manager'', [
      ''purchasing:po:create'', ''purchasing:po:approve'', ''purchasing:po:read'',
      ''purchasing:rfq:manage'', ''purchasing:supplier:manage'', ''purchasing:rfq:create'',
      ''purchasing:rfq:update'', ''purchasing:rfq:submit'', ''purchasing:rfq:cancel'',
      ''purchasing:rfq:delete'', ''purchasing:quote:create'', ''purchasing:quote:update'',
      ''purchasing:quote:approve'', ''sales:order:create'', ''sales:order:update'',
      ''sales:order:status'', ''sales:order:delete'']),
    (''buyer'', [
      ''purchasing:po:create'', ''purchasing:rfq:create'', ''purchasing:rfq:update'',
      ''purchasing:rfq:submit'', ''purchasing:rfq:cancel'']),
    (''receiving_operator'', [
      ''purchasing:po:create'', ''purchasing:po:approve'', ''inventory:move'',
      ''inventory:adjust''])]"

text \<open>Warehouse and sales.\<close>

definition warehouse_sales_roles :: "(string \<times> string list) list" where
  "warehouse_sales_roles = [
    (''inventory_manager'', [
      ''inventory:adjust'', ''inventory:move'', ''inventory:warehouse:manage'']),
    (''warehouse_operator'', [
      ''inventory:move'', ''inventory:adjust'']),
    (''sales_manager'', [
      ''sales:order:create'', ''sales:order:update'', ''sales:order:status'',
      ''purchasing:quote:create'', ''purchasing:quote:update'', ''purchasing:quote:approve'',
      ''sales:account:manage'', ''sales:opportunity:manage'', ''ai:retrain'']),
    (''sales_rep'', [
      ''sales:order:create'', ''sales:order:update'', ''purchasing:quote:create'',
      ''purchasing:quote:update''])]"

text \<open>Quality.\<close>

definition quality_roles :: "(string \<times> string list) list" where
  "quality_roles = [
    (''quality_manager'', [
      ''quality:ncr:create'', ''quality:ncr:read'', ''quality:ncr:update'',
      ''quality:ncr:delete'', ''quality:ncr:approve'', ''quality:capa:create'',
      ''quality:capa:read'', ''quality:capa:update'', ''quality:capa:close'',
      ''quality:audit:read'', ''quality:audit:create'', ''quality:audit:update'',
      ''quality:audit:delete'', ''quality:inspection:read'', ''quality:inspection:create'',
      ''quality:inspection:update'', ''quality:inspection:delete'',
      ''quality:inspection:self'', ''quality:scar:read'', ''quality:scar:create'',
      ''quality:scar:update'', ''quality:scar:delete'', ''quality:complaint:read'',
      ''quality:complaint:create'', ''quality:8d:read'', ''quality:8d:create'',
      ''quality:supplier:read'', ''quality:supplier:manage'', ''quality:msa:read'',
      ''quality:msa:create'', ''quality:spc:read'', ''quality:spc:create'',
      ''quality:control-plan:read'', ''quality:control-plan:create'',
      ''quality:control-plan:update'', ''quality:pfmea:read'', ''quality:pfmea:create'',
      ''quality:gauge:read'', ''quality:gauge:create'', ''quality:gauge:update'',
      ''quality:fai:read'', ''quality:fai:create'', ''quality:document:read'',
      ''quality:document:create'', ''quality:review:read'', ''quality:review:create'',
      ''quality:stage-gate:read'', ''quality:stage-gate:manage'', ''quality:npi:read'',
      ''quality:npi:manage'']),
    (''quality_engineer'', [
      ''quality:ncr:create'', ''quality:ncr:read'', ''quality:ncr:update'',
      ''quality:capa:read'', ''quality:capa:update'', ''quality:audit:read'',
      ''quality:audit:create'', ''quality:inspection:read'', ''quality:inspection:create'',
      ''quality:scar:read'', ''quality:msa:read'', ''quality:spc:read'',
      ''quality:control-plan:read'', ''quality:pfmea:read'', ''quality:document:read'',
      ''quality:fai:read'']),
    (''quality_technician'', [
      ''quality:ncr:create'', ''quality:ncr:read'', ''quality:ncr:update'',
      ''quality:capa:read'', ''quality:inspection:read'', ''quality:inspection:create'',
      ''quality:inspection:self'', ''quality:gauge:read'', ''quality:msa:read''])]"

text \<open>Production.\<close>

definition production_roles :: "(string \<times> string list) list" where
  "production_roles = [
    (''production_manager'', [
      ''production:work-order:create'', ''production:work-order:read'',
      ''production:work-order:update'', ''production:work-order:delete'',
      ''production:schedule:read'', ''production:schedule:update'', ''production:report'',
      ''production:release'', ''production:start'', ''production:complete'',
      ''production:short-close'', ''tps:read'', ''tps:andon:raise'', ''tps:andon:ack'',
      ''tps:andon:contain'', ''tps:andon:manage'', ''tps:andon:resolve'',
      ''tps:andon:restart'', ''tps:a3:read'', ''tps:a3:create'', ''tps:a3:edit'',
      ''tps:a3:verify'', ''tps:a3:close'', ''tps:standard-work:read'',
      ''tps:standard-work:draft'', ''tps:standard-work:review'', ''tps:standard-work:approve'',
      ''tps:standard-work:publish'', ''tps:lsw:execute'', ''tps:lsw:manage'',
      ''tps:obeya:read'', ''tps:obeya:manage'', ''tps:kpi:read'', ''tps:kpi:manage'',
      ''tps:ctq:read'', ''tps:ctq:manage'', ''tps:work-center:read'',
      ''tps:work-center:manage'', ''tps:cell:read'', ''tps:cell:manage'', ''tps:mrp:run'',
      ''tps:kanban:read'', ''tps:kanban:manage'', ''tps:training-matrix:read'',
      ''tps:training-matrix:manage'', ''tps:escalation:read'', ''tps:escalation:manage'',
      ''tps:notification-triggers:manage'', ''maintenance:request'', ''maintenance:assign'',
      ''maintenance:execute'', ''maintenance:return-to-service'', ''knowledge:manage'',
      ''learning:manage'', ''training:manage'', ''tasks:manage'', ''ai:retrain'',
      ''master-data:products:manage'', ''system:state-machines:manage'', ''attachments:manage'']),
    (''production_supervisor'', [
      ''production:work-order:read'', ''production:work-order:update'',
      ''production:work-order:update-status'', ''production:schedule:read'']),
    (''operator'', [
      ''production:work-order:read'', ''production:work-order:update-status'',
      ''production:work-order:report'', ''production:report'', ''production:start'',
      ''tps:andon:raise'', ''tps:andon:ack'', ''tps:a3:read'', ''tps:a3:create'',
      ''tps:standard-work:read'', ''tps:lsw:execute'', ''tps:obeya:read'', ''tps:kpi:read'',
      ''tps:ctq:read'', ''tps:work-center:read'', ''tps:kanban:read'', ''maintenance:request''])]"

text \<open>The baseline user.\<close>

definition baseline_roles :: "(string \<times> string list) list" where
  "baseline_roles = [
    (''user'', [
      ''users:read:self'', ''users:update:self'', ''notifications:read'', ''dashboard:read'',
      ''knowledge:read'', ''learning:read'', ''training:read'', ''tasks:read'',
      ''ai:inference'', ''sales:account:read'', ''sales:opportunity:read'',
      ''master-data:products:read'', ''system:state-machines:read'', ''attachments:read'',
      ''system:country-policy:read'', ''inventory:read''])]"

text \<open>Generic organizational roles.\<close>

definition organization_roles :: "(string \<times> string list) list" where
  "organization_roles = [
    (''manager'', [
      ''production:work-order:create'', ''production:work-order:update'',
      ''production:schedule:read'', ''production:schedule:update'', ''production:release'',
      ''production:short-close'', ''tps:andon:manage'', ''tps:standard-work:review'',
      ''tasks:manage'', ''training:manage'']),
    (''team_lead'', []),
    (''quality'', [
      ''quality:ncr:read'', ''quality:capa:read'', ''quality:audit:read'',
      ''quality:inspection:read'', ''quality:inspection:self'', ''quality:scar:read'',
      ''quality:msa:read'', ''quality:spc:read'', ''quality:control-plan:read'',
      ''quality:pfmea:read'', ''quality:gauge:read'', ''quality:document:read'',
      ''quality:fai:read'', ''quality:complaint:read'', ''quality:8d:read'',
      ''quality:supplier:read'', ''quality:review:read'', ''quality:stage-gate:read'',
      ''quality:npi:read'']),
    (''maintenance'', [
      ''maintenance:request'', ''maintenance:assign'', ''maintenance:execute'',
      ''maintenance:return-to-service'']),
    (''finance'', [
      ''finance:invoice:read'', ''finance:invoice:create'', ''finance:invoice:update'',
      ''finance:invoice:void'', ''finance:invoice:approve'', ''finance:payment:read'',
      ''finance:payment:record'', ''finance:payment:reverse'', ''finance:payment:void'',
      ''finance:journal:read'', ''finance:journal:post'', ''finance:journal:reverse'',
      ''finance:budget:read'', ''finance:budget:create'', ''finance:budget:allocate'',
      ''finance:budget:approve'', ''finance:rollup:run'', ''finance:match:three-way'']),
    (''hr'', [
      ''hr:employee:read'', ''hr:leave:self'', ''hr:leave:approve'', ''hr:review:manage'',
      ''hr:timecard:self'', ''hr:timecard:manage'', ''hr:training:manage'']),
    (''site_manager'', [
      ''inventory:adjust'', ''inventory:warehouse:manage'', ''master-data:products:manage'',
      ''system:state-machines:manage'', ''attachments:manage'', ''knowledge:manage'',
      ''learning:manage'', ''users:list'', ''users:update'', ''tps:read'']),
    (''admin'', [
      ''users:list'', ''users:update'', ''users:roles'', ''users:deactivate'',
      ''users:activate''])]"

text \<open>Dedicated principals.\<close>

definition dedicated_roles :: "(string \<times> string list) list" where
  "dedicated_roles = [
    (''integration_bridge'', [
      ''integration:import:starz-erp'', ''integration:import:crm'',
      ''integration:status:read'', ''integration:bridge:write'']),
    (''federation_gateway'', [
      ''federation:replication:publish'', ''federation:replication:consume'',
      ''federation:lesson:offer'', ''federation:lesson:accept'']),
    (''compliance_officer'', [
      ''system:country-policy:manage'']),
    (''compliance_auditor'', [
      ''system:audit:read'', ''quality:audit:read'', ''quality:audit:create''])]"

definition default_role_table :: "(string \<times> string list) list" where
  "default_role_table = system_roles @ finance_roles @ hr_roles @ purchasing_roles
     @ warehouse_sales_roles @ quality_roles @ production_roles @ baseline_roles
     @ organization_roles @ dedicated_roles"

definition load_default_roles :: "rbac_service \<Rightarrow> rbac_service" where
  "load_default_roles svc = fold (\<lambda>(name, perms). add_role name perms) default_role_table svc"

definition load_default_hierarchy :: "rbac_service \<Rightarrow> rbac_service" where
  "load_default_hierarchy svc = svc\<lparr>rb_hierarchy := [
     (''manager'', [''operator'', ''user'']),
     (''team_lead'', [''operator'', ''user'']),
     (''supervisor'', [''team_lead'']),
     (''quality'', [''user'']),
     (''maintenance'', [''user'']),
     (''site_manager'', [''manager'', ''quality'', ''maintenance'']),
     (''admin'', [''site_manager''])]\<rparr>"

definition rbac_new :: rbac_service where
  "rbac_new = load_default_hierarchy (load_default_roles rbac_empty)"

text \<open>\<open>from_db\<close>: the rows of \<open>roles\<close> (tenant, name, permissions) over the defaults.\<close>

definition from_db :: "(uuid \<times> string \<times> string list) list res \<Rightarrow> rbac_service res" where
  "from_db rows =
     (case rows of Inl e \<Rightarrow> Err e
      | Inr rs \<Rightarrow> Ok (fold (\<lambda>(tenant, name, perms) svc.
          svc\<lparr>rb_tenant_roles := hm_insert (tenant, name) (remdups perms) (rb_tenant_roles svc)\<rparr>)
          rs rbac_new))"

section \<open>Ancestors\<close>

definition parents_of :: "(string, string list) hmap \<Rightarrow> string \<Rightarrow> string list" where
  "parents_of h r = (case hm_get h r of None \<Rightarrow> [] | Some ps \<Rightarrow> ps)"

text \<open>
  The queue loop. The hierarchy is any map, cycles included: a name enters the result once, so
  the loop ends when the names in reach are used up.
\<close>

function ancestor_loop ::
    "(string, string list) hmap \<Rightarrow> string list \<Rightarrow> string set \<Rightarrow> string list \<Rightarrow> string list" where
  "ancestor_loop h [] seen ancestors = ancestors"
| "ancestor_loop h (p # queue) seen ancestors =
     (if p \<notin> seen
      then ancestor_loop h (queue @ parents_of h p) (insert p seen) (ancestors @ [p])
      else ancestor_loop h queue seen ancestors)"
  by pat_completeness auto

definition hierarchy_names :: "(string, string list) hmap \<Rightarrow> string set" where
  "hierarchy_names h = \<Union> (set ` snd ` set h)"

lemma parents_of_names: "set (parents_of h r) \<subseteq> hierarchy_names h"
proof (cases "hm_get h r")
  case None
  then show ?thesis by (simp add: parents_of_def)
next
  case (Some ps)
  then have "(r, ps) \<in> set h" by (simp add: hm_get_def map_of_SomeD)
  with Some show ?thesis by (force simp: parents_of_def hierarchy_names_def)
qed

lemma finite_hierarchy_names [simp]: "finite (hierarchy_names h)"
  by (simp add: hierarchy_names_def)

termination ancestor_loop
proof (relation "measures [\<lambda>(h, q, seen, _). card (hierarchy_names h \<union> set q - seen), \<lambda>(_, q, _). length q]",
    goal_cases)
  case 1
  then show ?case by simp
next
  case (2 h p queue seen ancestors)
  let ?U = "hierarchy_names h \<union> set (p # queue) - seen"
  have "hierarchy_names h \<union> set (queue @ parents_of h p) - insert p seen \<subseteq> ?U - {p}"
    using parents_of_names by auto
  moreover have "p \<in> ?U" using 2 by simp
  ultimately have "card (hierarchy_names h \<union> set (queue @ parents_of h p) - insert p seen) < card ?U"
    by (meson card_Diff1_less card_mono finite_Diff finite_UnI finite_hierarchy_names finite_set
        le_less_trans)
  then show ?case by simp
next
  case (3 h p queue seen ancestors)
  then have "hierarchy_names h \<union> set (p # queue) - seen = hierarchy_names h \<union> set queue - seen"
    by auto
  then show ?case by simp
qed

definition role_ancestors :: "rbac_service \<Rightarrow> string \<Rightarrow> string list" where
  "role_ancestors svc role =
     ancestor_loop (rb_hierarchy svc) (parents_of (rb_hierarchy svc) role) {} []"

section \<open>Decisions\<close>

definition role_perms :: "rbac_service \<Rightarrow> string \<Rightarrow> string set" where
  "role_perms svc role = set (case hm_get (rb_roles svc) role of None \<Rightarrow> [] | Some ps \<Rightarrow> ps)"

definition expand_static :: "rbac_service \<Rightarrow> string list \<Rightarrow> string set" where
  "expand_static svc roles =
     \<Union> (set (map (\<lambda>role. role_perms svc role
              \<union> \<Union> (set (map (role_perms svc) (role_ancestors svc role)))) roles))"

definition any_matches :: "string set \<Rightarrow> string \<Rightarrow> string \<Rightarrow> bool" where
  "any_matches perms resource action \<longleftrightarrow> (\<exists>perm \<in> perms. permission_matches perm resource action)"

definition role_grants :: "rbac_service \<Rightarrow> uuid option \<Rightarrow> string \<Rightarrow> string \<Rightarrow> string \<Rightarrow> bool" where
  "role_grants svc tenant resource action role \<longleftrightarrow>
     any_matches (role_perms svc role) resource action
     \<or> list_ex (\<lambda>a. any_matches (role_perms svc a) resource action) (role_ancestors svc role)
     \<or> (case tenant of None \<Rightarrow> False
        | Some t \<Rightarrow> (case hm_get (rb_tenant_roles svc) (t, role) of None \<Rightarrow> False
                     | Some ps \<Rightarrow> any_matches (set ps) resource action))"

definition has_permission_for_tenant ::
    "rbac_service \<Rightarrow> string list \<Rightarrow> uuid option \<Rightarrow> permission \<Rightarrow> bool" where
  "has_permission_for_tenant svc user_roles tenant required =
     (case parse_permission required of
        None \<Rightarrow> False
      | Some (resource, action) \<Rightarrow> list_ex (role_grants svc tenant resource action) user_roles)"

definition has_permission :: "rbac_service \<Rightarrow> string list \<Rightarrow> permission \<Rightarrow> bool" where
  "has_permission svc user_roles required = has_permission_for_tenant svc user_roles None required"

definition get_permissions :: "rbac_service \<Rightarrow> string list \<Rightarrow> string set" where
  "get_permissions svc roles = \<Union> (set (map (role_perms svc) roles))"

definition role_exists :: "rbac_service \<Rightarrow> string \<Rightarrow> bool" where
  "role_exists svc role \<longleftrightarrow> hm_get (rb_roles svc) role \<noteq> None"

definition list_roles :: "env \<Rightarrow> rbac_service \<Rightarrow> string list" where
  "list_roles e svc = map fst (hm_entries (rank e) (rb_roles svc))"

definition permissions_for_role :: "rbac_service \<Rightarrow> string \<Rightarrow> string list" where
  "permissions_for_role svc role =
     sorted_list_of_set (role_perms svc role
       \<union> \<Union> (set (map (role_perms svc) (role_ancestors svc role))))"

definition permissions_for_role_in_tenant :: "rbac_service \<Rightarrow> uuid \<Rightarrow> string \<Rightarrow> string list" where
  "permissions_for_role_in_tenant svc tenant role =
     sorted_list_of_set (set (permissions_for_role svc role)
       \<union> (case hm_get (rb_tenant_roles svc) (tenant, role) of None \<Rightarrow> {} | Some ps \<Rightarrow> set ps))"


section \<open>The ancestor search is the closure of the hierarchy\<close>

definition parent_rel :: "(string, string list) hmap \<Rightarrow> (string \<times> string) set" where
  "parent_rel h = {(r, p). p \<in> set (parents_of h r)}"

text \<open>
  The invariant of the loop: what is found or queued lies above the start, everything found has
  its parents found or queued, and the names found are the names seen, each once.
\<close>

definition search_ok ::
    "(string, string list) hmap \<Rightarrow> string \<Rightarrow> string list \<Rightarrow> string set \<Rightarrow> string list \<Rightarrow> bool" where
  "search_ok h r queue seen anc \<longleftrightarrow> seen = set anc \<and> distinct anc
     \<and> set anc \<union> set queue \<subseteq> {a. (r, a) \<in> (parent_rel h)\<^sup>+}
     \<and> (\<forall>x \<in> insert r (set anc). set (parents_of h x) \<subseteq> set anc \<union> set queue)"

lemma search_ok_start: "search_ok h r (parents_of h r) {} []"
  by (auto simp: search_ok_def parent_rel_def)

lemma search_ok_visit:
  "search_ok h r (p # queue) seen anc \<Longrightarrow> p \<notin> seen \<Longrightarrow>
     search_ok h r (queue @ parents_of h p) (insert p seen) (anc @ [p])"
  by (auto simp: search_ok_def parent_rel_def intro: trancl_into_trancl)

lemma search_ok_skip:
  "search_ok h r (p # queue) seen anc \<Longrightarrow> p \<in> seen \<Longrightarrow> search_ok h r queue seen anc"
  by (auto simp: search_ok_def)

lemma search_ok_end:
  assumes "search_ok h r [] seen anc"
  shows "set anc = {a. (r, a) \<in> (parent_rel h)\<^sup>+}"
proof -
  have "a \<in> set anc" if "(r, a) \<in> (parent_rel h)\<^sup>+" for a
    using that
  proof (induction rule: trancl_induct)
    case (base y)
    then show ?case using assms by (auto simp: search_ok_def parent_rel_def)
  next
    case (step y z)
    then show ?case using assms by (auto simp: search_ok_def parent_rel_def)
  qed
  then show ?thesis using assms by (auto simp: search_ok_def)
qed

lemma ancestor_loop_ok:
  "search_ok h r queue seen anc \<Longrightarrow> distinct (ancestor_loop h queue seen anc)
     \<and> set (ancestor_loop h queue seen anc) = {a. (r, a) \<in> (parent_rel h)\<^sup>+}"
proof (induction h queue seen anc rule: ancestor_loop.induct)
  case (1 h seen anc)
  then show ?case using search_ok_end [OF 1] by (simp add: search_ok_def)
next
  case (2 h p queue seen anc)
  then show ?case using search_ok_visit [OF 2(3)] search_ok_skip [OF 2(3)] by (cases "p \<in> seen") auto
qed

text \<open>What is already found stays in front.\<close>

lemma ancestor_loop_prefix:
  "\<exists>rest. ancestor_loop h queue seen anc = anc @ rest"
proof (induction h queue seen anc rule: ancestor_loop.induct)
  case (2 h p queue seen anc)
  then show ?case by (cases "p \<in> seen") auto
qed simp

lemma ancestor_loop_direct:
  "seen = set anc \<Longrightarrow> set anc \<subseteq> D \<Longrightarrow> set q \<subseteq> D \<Longrightarrow>
     \<exists>front rest. ancestor_loop h (q @ q2) seen anc = front @ rest
       \<and> set front = set anc \<union> set q"
proof (induction q arbitrary: seen anc q2)
  case Nil
  then show ?case using ancestor_loop_prefix [of h q2 seen anc] by auto
next
  case (Cons p q)
  show ?case
  proof (cases "p \<in> seen")
    case True
    with Cons.IH [of seen anc q2] Cons.prems show ?thesis by (auto simp: insert_absorb)
  next
    case False
    with Cons.IH [of "insert p seen" "anc @ [p]" "q2 @ parents_of h p"] Cons.prems
    show ?thesis by auto
  qed
qed

text \<open>C39.
  The role hierarchy is searched completely, and the search ends. For every hierarchy, also one
  with cycles or with parents that are not roles, \<open>role_ancestors\<close> returns each role above
  the given one exactly once and nothing else: the transitive closure of the parent relation,
  the direct parents first.
\<close>

theorem ancestors_closure:
  shows "distinct (role_ancestors svc r)
    \<and> set (role_ancestors svc r) = {a. (r, a) \<in> (parent_rel (rb_hierarchy svc))\<^sup>+}
    \<and> (\<exists>front rest. role_ancestors svc r = front @ rest
        \<and> set front = set (parents_of (rb_hierarchy svc) r))"
  using ancestor_loop_ok [OF search_ok_start]
    ancestor_loop_direct [of "{}" "[]" UNIV "parents_of (rb_hierarchy svc) r" "rb_hierarchy svc" "[]"]
  by (simp add: role_ancestors_def)


section \<open>Decisions in terms of the closure\<close>

lemma set_ancestors: "set (role_ancestors svc r) = {a. (r, a) \<in> (parent_rel (rb_hierarchy svc))\<^sup>+}"
  using ancestor_loop_ok [OF search_ok_start] by (simp add: role_ancestors_def)

text \<open>What a role grants through itself and all its ancestors.\<close>

definition inherited :: "rbac_service \<Rightarrow> string \<Rightarrow> string set" where
  "inherited svc role = (\<Union>r \<in> {r. (role, r) \<in> (parent_rel (rb_hierarchy svc))\<^sup>*}. role_perms svc r)"

definition custom_perms :: "rbac_service \<Rightarrow> uuid \<Rightarrow> string \<Rightarrow> string set" where
  "custom_perms svc tenant role =
     (case hm_get (rb_tenant_roles svc) (tenant, role) of None \<Rightarrow> {} | Some ps \<Rightarrow> set ps)"

lemma inherited_eq:
  "inherited svc role = role_perms svc role \<union> \<Union> (role_perms svc ` set (role_ancestors svc role))"
  by (auto simp: inherited_def set_ancestors rtrancl_eq_or_trancl)

lemma finite_role_perms [simp]: "finite (role_perms svc role)"
  unfolding role_perms_def by (rule finite_set)

lemma expand_static_eq: "expand_static svc roles = \<Union> (inherited svc ` set roles)"
  by (auto simp: expand_static_def inherited_eq)

lemma set_permissions_for_role: "set (permissions_for_role svc role) = inherited svc role"
  by (simp add: permissions_for_role_def inherited_eq)

lemma set_permissions_in_tenant:
  "set (permissions_for_role_in_tenant svc t role) = inherited svc role \<union> custom_perms svc t role"
proof -
  have "finite (custom_perms svc t role)" by (simp add: custom_perms_def split: option.split)
  then show ?thesis
    by (simp add: permissions_for_role_in_tenant_def set_permissions_for_role custom_perms_def [symmetric]
        flip: set_permissions_for_role)
qed

lemma role_grants_eq:
  "role_grants svc tenant resource action role \<longleftrightarrow>
     any_matches (inherited svc role
       \<union> (case tenant of None \<Rightarrow> {} | Some t \<Rightarrow> custom_perms svc t role)) resource action"
  by (auto simp: role_grants_def inherited_eq any_matches_def list_ex_iff custom_perms_def
      split: option.splits)


text \<open>C5.
  The permission decisions of the role service are exact. \<open>has_permission_for_tenant\<close> grants a
  permission if and only if it has the form resource:action and some role of the caller, a role it
  inherits from over any number of steps, or the custom role of that name in the caller's own
  tenant holds a grant that matches it; in a tenant this is the same as a matching entry in
  \<open>permissions_for_role_in_tenant\<close> for one of the roles. Custom roles of other tenants and
  the order of the tables play no part.
\<close>

theorem permission_decision_exact:
  "(has_permission_for_tenant svc roles tenant (Permission p) \<longleftrightarrow>
      (\<exists>res act role. split_once (CHR '':'') p = Some (res, act) \<and> role \<in> set roles
        \<and> ((\<exists>r perm. (role, r) \<in> (parent_rel (rb_hierarchy svc))\<^sup>* \<and> perm \<in> role_perms svc r
              \<and> permission_matches perm res act)
          \<or> (\<exists>t perms perm. tenant = Some t \<and> hm_get (rb_tenant_roles svc) (t, role) = Some perms
              \<and> perm \<in> set perms \<and> permission_matches perm res act))))
   \<and> (has_permission_for_tenant svc roles (Some t) (Permission p) \<longleftrightarrow>
      (\<exists>res act role perm. split_once (CHR '':'') p = Some (res, act) \<and> role \<in> set roles
        \<and> perm \<in> set (permissions_for_role_in_tenant svc t role)
        \<and> permission_matches perm res act))"
proof -
  have grants: "has_permission_for_tenant svc roles tenant (Permission p) \<longleftrightarrow>
      (\<exists>res act role perm. split_once (CHR '':'') p = Some (res, act) \<and> role \<in> set roles
        \<and> perm \<in> inherited svc role \<union> (case tenant of None \<Rightarrow> {} | Some t \<Rightarrow> custom_perms svc t role)
        \<and> permission_matches perm res act)" for tenant
    by (auto simp: has_permission_for_tenant_def parse_permission_def role_grants_eq any_matches_def
        list_ex_iff split: option.splits)
  show ?thesis
    unfolding grants set_permissions_in_tenant
    by (cases tenant) (fastforce simp: inherited_def custom_perms_def split: option.splits)+
qed

section \<open>What the compiled table grants\<close>

lemma has_permission_any: "has_permission svc roles p \<longleftrightarrow> (\<exists>r \<in> set roles. has_permission svc [r] p)"
  by (auto simp: has_permission_def has_permission_for_tenant_def list_ex_iff split: option.splits)

text \<open>The roles of the table that hold a matching grant of their own.\<close>

definition direct_holders :: "string \<Rightarrow> string \<Rightarrow> string list" where
  "direct_holders res act = map fst (filter (\<lambda>(name, perms).
     list_ex (\<lambda>perm. permission_matches perm res act) perms) default_role_table)"

lemma table_names_distinct: "distinct (map fst default_role_table)"
  by code_simp

lemma fold_add_role:
  "distinct (map fst t) \<Longrightarrow> (\<forall>n \<in> set (map fst t). hm_get (rb_roles svc) n = None) \<Longrightarrow>
     rb_roles (fold (\<lambda>(name, perms). add_role name perms) t svc)
       = rb_roles svc @ map (\<lambda>(n, ps). (n, remdups ps)) t"
proof (induction t arbitrary: svc)
  case Nil
  then show ?case by simp
next
  case (Cons x t)
  obtain n ps where x: "x = (n, ps)" by (cases x)
  have "hm_get (rb_roles (add_role n ps svc)) k = None" if "k \<in> set (map fst t)" for k
    using Cons.prems that by (auto simp: x add_role_def)
  then show ?case
    using Cons.IH [of "add_role n ps svc"] Cons.prems by (simp add: x add_role_def hm_insert_new)
qed

lemma rbac_new_roles: "rb_roles rbac_new = map (\<lambda>(n, ps). (n, remdups ps)) default_role_table"
  using fold_add_role [OF table_names_distinct, of rbac_empty]
  by (simp add: rbac_new_def load_default_hierarchy_def load_default_roles_def rbac_empty_def)

lemma map_of_remdups: "map_of (map (\<lambda>(n, ps). (n, remdups ps)) t) r = map_option remdups (map_of t r)"
  by (induction t) auto

lemma role_perms_iff:
  "perm \<in> role_perms svc r \<longleftrightarrow> (\<exists>ps. hm_get (rb_roles svc) r = Some ps \<and> perm \<in> set ps)"
  by (cases "hm_get (rb_roles svc) r") (simp_all add: role_perms_def)

lemma role_perms_new: "role_perms rbac_new r = {perm. \<exists>ps. (r, ps) \<in> set default_role_table \<and> perm \<in> set ps}"
proof -
  have row: "map_of default_role_table r = Some ps \<longleftrightarrow> (r, ps) \<in> set default_role_table" for ps
    by (rule map_of_eq_Some_iff [OF table_names_distinct])
  have "hm_get (rb_roles rbac_new) r = map_option remdups (map_of default_role_table r)"
    unfolding rbac_new_roles hm_get_def by (rule map_of_remdups)
  then have "perm \<in> role_perms rbac_new r \<longleftrightarrow>
      (\<exists>ps. map_of default_role_table r = Some ps \<and> perm \<in> set ps)" for perm
    unfolding role_perms_iff by (cases "map_of default_role_table r") simp_all
  then show ?thesis unfolding row by (rule set_eqI [where B = "Collect _", unfolded mem_Collect_eq])
qed

lemma direct_holders_iff:
  "r \<in> set (direct_holders res act) \<longleftrightarrow> any_matches (role_perms rbac_new r) res act"
  by (force simp: direct_holders_def role_perms_new any_matches_def list_ex_iff)

lemma hierarchy_new:
  "hierarchy_names (rb_hierarchy rbac_new) =
     {''operator'', ''user'', ''team_lead'', ''manager'', ''quality'', ''maintenance'', ''site_manager''}"
  by (auto simp: hierarchy_names_def rbac_new_def load_default_hierarchy_def)

text \<open>A grant that no parent role holds is held by the roles that name it, and no others.\<close>

lemma exclusive_grant:
  assumes "split_once (CHR '':'') p = Some (res, act)" and "direct_holders res act = rs"
    and "\<forall>r \<in> set rs. r \<notin> hierarchy_names (rb_hierarchy rbac_new)"
  shows "has_permission rbac_new roles (Permission p) \<longleftrightarrow> (\<exists>r \<in> set roles. r \<in> set rs)"
proof -
  let ?m = "\<lambda>r. any_matches (role_perms rbac_new r) res act"
  have direct: "?m r \<longleftrightarrow> r \<in> set rs" for r using direct_holders_iff assms(2) by blast
  have "r \<in> hierarchy_names (rb_hierarchy rbac_new)" if "r \<in> set (role_ancestors rbac_new role)" for r role
  proof -
    from that obtain c where "r \<in> set (parents_of (rb_hierarchy rbac_new) c)"
      unfolding set_ancestors parent_rel_def by (auto elim: tranclE)
    then show ?thesis using parents_of_names by blast
  qed
  then have "\<not> ?m r" if "r \<in> set (role_ancestors rbac_new role)" for r role
    using that direct assms(3) by blast
  moreover have "any_matches (inherited rbac_new role) res act \<longleftrightarrow>
      ?m role \<or> (\<exists>r \<in> set (role_ancestors rbac_new role). ?m r)" for role
    unfolding inherited_eq any_matches_def by blast
  ultimately have "any_matches (inherited rbac_new role) res act \<longleftrightarrow> role \<in> set rs" for role
    using direct by blast
  then show ?thesis
    using assms(1)
    by (simp add: has_permission_def has_permission_for_tenant_def parse_permission_def list_ex_iff role_grants_eq)
qed

lemma direct_import: "direct_holders ''integration'' ''import:crm'' = [''platform_superadmin'', ''integration_bridge'']"
  by code_simp

lemma direct_publish: "direct_holders ''federation'' ''replication:publish'' = [''platform_superadmin'', ''federation_gateway'']"
  by code_simp

lemma direct_accept: "direct_holders ''federation'' ''lesson:accept'' = [''platform_superadmin'', ''federation_gateway'']"
  by code_simp

lemma direct_tenants: "direct_holders ''tenants'' ''create'' = [''platform_superadmin'', ''platform_admin'']"
  by code_simp

lemma direct_roles: "direct_holders ''users'' ''roles'' = [''platform_superadmin'', ''platform_admin'', ''tenant_admin'', ''admin'']"
  by code_simp

lemma direct_audit: "direct_holders ''system'' ''audit:read'' = [''platform_superadmin'', ''platform_admin'', ''compliance_auditor'']"
  by code_simp

lemma direct_policy: "direct_holders ''system'' ''country-policy:manage'' =
     [''platform_superadmin'', ''platform_admin'', ''compliance_officer'']"
  by code_simp

text \<open>
  Least privilege of the compiled table. Whatever roles a caller holds, the break-glass
  superuser apart: importing integration data needs the bridge role, publishing and accepting
  over the federation its gateway role, creating tenants the platform administrator, assigning
  roles one of the three administrator roles; no human role inherits any of these. Reading the
  audit log and managing country policies is held by their dedicated roles and, through its
  system wildcard, by the platform administrator.
\<close>

theorem default_privileges:
  "(has_permission rbac_new roles (Permission ''integration:import:crm'') \<longleftrightarrow>
     (\<exists>r \<in> set roles. r \<in> {''platform_superadmin'', ''integration_bridge''})) \<and>
   (has_permission rbac_new roles (Permission ''federation:replication:publish'') \<longleftrightarrow>
     (\<exists>r \<in> set roles. r \<in> {''platform_superadmin'', ''federation_gateway''})) \<and>
   (has_permission rbac_new roles (Permission ''federation:lesson:accept'') \<longleftrightarrow>
     (\<exists>r \<in> set roles. r \<in> {''platform_superadmin'', ''federation_gateway''})) \<and>
   (has_permission rbac_new roles (Permission ''tenants:create'') \<longleftrightarrow>
     (\<exists>r \<in> set roles. r \<in> {''platform_superadmin'', ''platform_admin''})) \<and>
   (has_permission rbac_new roles (Permission ''users:roles'') \<longleftrightarrow>
     (\<exists>r \<in> set roles. r \<in> {''platform_superadmin'', ''platform_admin'', ''tenant_admin'', ''admin''})) \<and>
   (has_permission rbac_new roles (Permission ''system:audit:read'') \<longleftrightarrow>
     (\<exists>r \<in> set roles. r \<in> {''platform_superadmin'', ''platform_admin'', ''compliance_auditor''})) \<and>
   (has_permission rbac_new roles (Permission ''system:country-policy:manage'') \<longleftrightarrow>
     (\<exists>r \<in> set roles. r \<in> {''platform_superadmin'', ''platform_admin'', ''compliance_officer''}))"
proof -
  note exclusive = exclusive_grant [unfolded hierarchy_new, where roles = roles]
  have split: "split_once (CHR '':'') ''integration:import:crm'' = Some (''integration'', ''import:crm'')"
    "split_once (CHR '':'') ''federation:replication:publish'' = Some (''federation'', ''replication:publish'')"
    "split_once (CHR '':'') ''federation:lesson:accept'' = Some (''federation'', ''lesson:accept'')"
    "split_once (CHR '':'') ''tenants:create'' = Some (''tenants'', ''create'')"
    "split_once (CHR '':'') ''users:roles'' = Some (''users'', ''roles'')"
    "split_once (CHR '':'') ''system:audit:read'' = Some (''system'', ''audit:read'')"
    "split_once (CHR '':'') ''system:country-policy:manage'' = Some (''system'', ''country-policy:manage'')"
    by simp_all
  show ?thesis
    using exclusive [OF split(1) direct_import] exclusive [OF split(2) direct_publish]
      exclusive [OF split(3) direct_accept] exclusive [OF split(4) direct_tenants]
      exclusive [OF split(5) direct_roles] exclusive [OF split(6) direct_audit]
      exclusive [OF split(7) direct_policy]
    by simp
qed

end
