(* ===== verification/Live_Authorization.thy ===== *)
theory Live_Authorization
  imports Auth_Stores Access_Scope Rbac
begin

text \<open>
  From the bearer token of a request to the user that the handler sees: the validation of access
  tokens with signing-key rotation (\<open>sensei-auth/src/jwt.rs\<close>), the revocation check of
  \<open>auth_layer\<close> (\<open>sensei-api/src/middleware/auth.rs\<close>) and the live reload of the
  user's state by \<open>auth_middleware\<close> (\<open>sensei-auth/src/middleware.rs\<close>,
  \<open>resolver.rs\<close>). The signature library is a parameter: \<open>decode key issuer audience
  token\<close> and \<open>encode key\<close>.
\<close>

section \<open>Access and refresh tokens\<close>

record access_claims =
  ac_sub :: uuid
  ac_tenant :: uuid
  ac_jti :: uuid
  ac_sid :: uuid
  ac_iss :: string
  ac_aud :: string
  ac_exp :: nat
  ac_iat :: nat
  ac_nbf :: nat
  ac_roles :: "string list"
  ac_type :: string

record refresh_claims =
  rc_sub :: uuid
  rc_tenant_id :: uuid
  rc_jti :: uuid
  rc_iss :: string
  rc_aud :: string
  rc_exp :: nat
  rc_iat :: nat
  rc_type :: string
  rc_family :: uuid
  rc_version :: nat
  rc_sid :: uuid

text \<open>The error kinds of the signature library that the code tells apart, with their text.\<close>

datatype jwt_error = ExpiredSignature string | OtherJwtError string

fun jwt_error_text :: "jwt_error \<Rightarrow> string" where
  "jwt_error_text (ExpiredSignature t) = t"
| "jwt_error_text (OtherJwtError t) = t"

record 'key jwt_service =
  js_encoding :: 'key
  js_previous :: "'key option"
  js_decoding :: 'key
  js_issuer :: string
  js_audience :: string
  js_access_minutes :: int
  js_refresh_days :: int

type_synonym ('key, 'claims) jwt_decoder =
  "'key \<Rightarrow> string \<Rightarrow> string \<Rightarrow> string \<Rightarrow> jwt_error + 'claims"

text \<open>One secret makes the encoding and the decoding key; the algorithm is HMAC.\<close>

definition with_previous_key ::
    "'key \<Rightarrow> 'key option \<Rightarrow> string \<Rightarrow> string \<Rightarrow> int \<Rightarrow> int \<Rightarrow> 'key jwt_service" where
  "with_previous_key current previous issuer audience minutes days =
     \<lparr>js_encoding = current, js_previous = previous, js_decoding = current,
      js_issuer = issuer, js_audience = audience, js_access_minutes = minutes,
      js_refresh_days = days\<rparr>"

definition jwt_new :: "'key \<Rightarrow> string \<Rightarrow> string \<Rightarrow> int \<Rightarrow> int \<Rightarrow> 'key jwt_service" where
  "jwt_new secret issuer audience minutes days =
     with_previous_key secret None issuer audience minutes days"

text \<open>
  \<open>i64 as usize\<close>. The clock is read in Unix seconds and once per call; a lifetime that the
  time library cannot represent would panic and is not configured.
\<close>

definition i64_as_usize :: "int \<Rightarrow> nat" where
  "i64_as_usize x = nat (x mod 2 ^ 64)"

definition access_claims_for ::
    "'key jwt_service \<Rightarrow> int \<Rightarrow> uuid \<Rightarrow> uuid \<Rightarrow> uuid \<Rightarrow> uuid \<Rightarrow> string list \<Rightarrow> access_claims" where
  "access_claims_for svc now_secs fresh_jti user tenant sid roles =
     \<lparr>ac_sub = user, ac_tenant = tenant, ac_jti = fresh_jti, ac_sid = sid,
      ac_iss = js_issuer svc, ac_aud = js_audience svc,
      ac_exp = i64_as_usize (now_secs + 60 * js_access_minutes svc),
      ac_iat = i64_as_usize now_secs, ac_nbf = i64_as_usize now_secs,
      ac_roles = roles, ac_type = ''access''\<rparr>"

definition issue_access_token ::
    "('key \<Rightarrow> access_claims \<Rightarrow> string + string) \<Rightarrow> 'key jwt_service \<Rightarrow> int \<Rightarrow> uuid \<Rightarrow> uuid \<Rightarrow> uuid
      \<Rightarrow> uuid \<Rightarrow> string list \<Rightarrow> string res" where
  "issue_access_token encode svc now_secs fresh_jti user tenant sid roles =
     (case encode (js_encoding svc) (access_claims_for svc now_secs fresh_jti user tenant sid roles) of
        Inl e \<Rightarrow> Err (TokenError [Txt ''Failed to encode JWT: '', FStr e])
      | Inr token \<Rightarrow> Ok token)"

definition issue_refresh_token ::
    "('key \<Rightarrow> refresh_claims \<Rightarrow> string + string) \<Rightarrow> 'key jwt_service \<Rightarrow> int \<Rightarrow> uuid \<Rightarrow> uuid \<Rightarrow> uuid
      \<Rightarrow> uuid \<Rightarrow> nat \<Rightarrow> uuid \<Rightarrow> string res" where
  "issue_refresh_token encode svc now_secs fresh_jti user tenant family version sid =
     (case encode (js_encoding svc)
        \<lparr>rc_sub = user, rc_tenant_id = tenant, rc_jti = fresh_jti,
         rc_iss = js_issuer svc, rc_aud = js_audience svc,
         rc_exp = i64_as_usize (now_secs + 86400 * js_refresh_days svc),
         rc_iat = i64_as_usize now_secs, rc_type = ''refresh'', rc_family = family,
         rc_version = version, rc_sid = sid\<rparr> of
        Inl e \<Rightarrow> Err (TokenError [Txt ''Failed to encode refresh token: '', FStr e])
      | Inr token \<Rightarrow> Ok token)"

definition decode_with_key_rotation ::
    "('key, 'claims) jwt_decoder \<Rightarrow> 'key jwt_service \<Rightarrow> string \<Rightarrow> jwt_error + 'claims" where
  "decode_with_key_rotation decode svc token =
     (case decode (js_decoding svc) (js_issuer svc) (js_audience svc) token of
        Inr c \<Rightarrow> Inr c
      | Inl e \<Rightarrow>
          (case js_previous svc of
             Some k \<Rightarrow>
               (case decode k (js_issuer svc) (js_audience svc) token of
                  Inr c \<Rightarrow> Inr c | Inl _ \<Rightarrow> Inl e)
           | None \<Rightarrow> Inl e))"

definition map_decode_error :: "jwt_error \<Rightarrow> string \<Rightarrow> sensei_error" where
  "map_decode_error err context =
     (case err of ExpiredSignature _ \<Rightarrow> TokenExpired
      | OtherJwtError _ \<Rightarrow> TokenError [Txt context, Txt '': '', FStr (jwt_error_text err)])"

definition validate_access_token ::
    "('key, access_claims) jwt_decoder \<Rightarrow> 'key jwt_service \<Rightarrow> string \<Rightarrow> access_claims res" where
  "validate_access_token decode svc token =
     (case decode_with_key_rotation decode svc token of
        Inl e \<Rightarrow> Err (map_decode_error e ''Invalid token'')
      | Inr c \<Rightarrow> if ac_type c \<noteq> ''access'' then Err (TokenError [Txt ''Invalid token type'']) else Ok c)"

definition validate_refresh_token ::
    "('key, refresh_claims) jwt_decoder \<Rightarrow> 'key jwt_service \<Rightarrow> string \<Rightarrow> refresh_claims res" where
  "validate_refresh_token decode svc token =
     (case decode_with_key_rotation decode svc token of
        Inl e \<Rightarrow> Err (map_decode_error e ''Invalid refresh token'')
      | Inr c \<Rightarrow> if rc_type c \<noteq> ''refresh'' then Err (TokenError [Txt ''Invalid token type'']) else Ok c)"

section \<open>Issued tokens validate, also across a key rotation\<close>

text \<open>
  What the signature library documents: a token decodes to its claims under the key it was
  encoded with, for its own issuer and audience and until it expires, and under no other key.
\<close>

definition signs ::
    "('key \<Rightarrow> access_claims \<Rightarrow> string + string) \<Rightarrow> ('key, access_claims) jwt_decoder \<Rightarrow> nat \<Rightarrow> bool" where
  "signs encode decode now_secs \<longleftrightarrow>
     (\<forall>key c token. encode key c = Inr token \<longrightarrow>
        (now_secs \<le> ac_exp c \<longrightarrow> decode key (ac_iss c) (ac_aud c) token = Inr c)
        \<and> (\<forall>key' issuer audience. key' \<noteq> key \<longrightarrow> (\<exists>e. decode key' issuer audience token = Inl e)))"

lemma issued:
  "issue_access_token encode svc now_secs jti user tenant sid roles = Ok token \<Longrightarrow>
     encode (js_encoding svc) (access_claims_for svc now_secs jti user tenant sid roles) = Inr token"
  by (auto simp: issue_access_token_def split: sum.splits)

text \<open>C37.
  An issued access token comes back as issued, and key rotation does not log anybody out. A
  token issued by one service is accepted by a service of the same issuer and audience
  until it expires, with the very claims of its issue, if and only if its signing key is that
  service's current key or its previous one.
\<close>

theorem access_token_roundtrip:
  assumes "signs encode decode now_secs'"
    and "issue_access_token encode svc now_secs jti user tenant sid roles = Ok token"
    and "js_issuer svc' = js_issuer svc" and "js_audience svc' = js_audience svc"
    and "now_secs' \<le> i64_as_usize (now_secs + 60 * js_access_minutes svc)"
  shows "(js_decoding svc' = js_encoding svc \<or> js_previous svc' = Some (js_encoding svc))
      = (validate_access_token decode svc' token
           = Ok (access_claims_for svc now_secs jti user tenant sid roles))"
proof -
  let ?c = "access_claims_for svc now_secs jti user tenant sid roles"
  have enc: "encode (js_encoding svc) ?c = Inr token" using assms(2) by (rule issued)
  have c: "ac_iss ?c = js_issuer svc" "ac_aud ?c = js_audience svc" "ac_type ?c = ''access''"
    "now_secs' \<le> ac_exp ?c"
    using assms(5) by (simp_all add: access_claims_for_def)
  have own: "decode (js_encoding svc) (js_issuer svc') (js_audience svc') token = Inr ?c"
    using assms(1) enc c assms(3,4) unfolding signs_def by metis
  have other: "\<exists>e. decode key (js_issuer svc') (js_audience svc') token = Inl e"
    if "key \<noteq> js_encoding svc" for key
    using assms(1) enc that unfolding signs_def by blast
  show ?thesis
  proof (cases "js_decoding svc' = js_encoding svc")
    case True
    with own c(3) show ?thesis by (simp add: validate_access_token_def decode_with_key_rotation_def)
  next
    case False
    then obtain e where current: "decode (js_decoding svc') (js_issuer svc') (js_audience svc') token = Inl e"
      using other by blast
    show ?thesis
    proof (cases "js_previous svc' = Some (js_encoding svc)")
      case True
      with False own c(3) current show ?thesis
        by (simp add: validate_access_token_def decode_with_key_rotation_def)
    next
      case previous: False
      then have "decode_with_key_rotation decode svc' token = Inl e"
        using current other by (fastforce simp: decode_with_key_rotation_def split: option.splits)
      with False previous show ?thesis by (simp add: validate_access_token_def)
    qed
  qed
qed

lemma access_token_roundtrip_witness:
  "\<exists>encode decode. validate_access_token decode (with_previous_key ''new'' (Some ''old'') ''s'' ''a'' 15 7) ''t''
      = Ok (access_claims_for (jwt_new ''old'' ''s'' ''a'' 15 7) 0 33 7 1 44 [''buyer''])
    \<and> validate_access_token decode (jwt_new ''new'' ''s'' ''a'' 15 7) ''t''
      \<noteq> Ok (access_claims_for (jwt_new ''old'' ''s'' ''a'' 15 7) 0 33 7 1 44 [''buyer''])
    \<and> issue_access_token encode (jwt_new ''old'' ''s'' ''a'' 15 7) 0 33 7 1 44 [''buyer''] = Ok ''t''"
proof -
  let ?old = "jwt_new ''old'' ''s'' ''a'' 15 7"
  let ?c = "access_claims_for ?old 0 33 7 1 44 [''buyer'']"
  let ?encode = "\<lambda>key c. if key = ''old'' \<and> c = ?c then Inr ''t'' else Inl ''cannot encode''"
  let ?decode = "\<lambda>key iss aud t. if key = ''old'' \<and> t = ''t'' \<and> iss = ''s'' \<and> aud = ''a''
      then Inr ?c else Inl (OtherJwtError ''InvalidSignature'')"
  have c: "ac_iss ?c = ''s''" "ac_aud ?c = ''a''" and exp: "i64_as_usize (0 + 60 * js_access_minutes ?old) = 900"
    by (simp_all add: access_claims_for_def jwt_new_def with_previous_key_def i64_as_usize_def)
  have law: "signs ?encode ?decode 60" unfolding signs_def using c by auto
  have issue: "issue_access_token ?encode ?old 0 33 7 1 44 [''buyer''] = Ok ''t''"
    by (simp add: issue_access_token_def jwt_new_def with_previous_key_def)
  have "validate_access_token ?decode (with_previous_key ''new'' (Some ''old'') ''s'' ''a'' 15 7) ''t'' = Ok ?c"
    by (rule access_token_roundtrip [OF law issue, THEN iffD1])
      (simp_all add: jwt_new_def with_previous_key_def i64_as_usize_def)
  moreover have "validate_access_token ?decode (jwt_new ''new'' ''s'' ''a'' 15 7) ''t'' \<noteq> Ok ?c"
    by (subst access_token_roundtrip [OF law issue, symmetric])
      (simp_all add: jwt_new_def with_previous_key_def i64_as_usize_def)
  ultimately show ?thesis using issue by blast
qed

section \<open>The authenticated user\<close>

record authenticated_user =
  au_user :: uuid
  au_tenant :: uuid
  au_roles :: "string list"
  au_sid :: "uuid option"
  au_permissions :: "string set"

definition grant_matches :: "string \<Rightarrow> string \<Rightarrow> string \<Rightarrow> bool" where
  "grant_matches granted required_resource required_action =
     (if granted = ''*:*'' then True
      else (case split_once (CHR '':'') granted of
              None \<Rightarrow> False
            | Some (r, a) \<Rightarrow> (r = ''*'' \<or> r = required_resource) \<and> (a = ''*'' \<or> a = required_action)))"

definition permission_set_grants :: "string set \<Rightarrow> string \<Rightarrow> bool" where
  "permission_set_grants perms required =
     (case split_once (CHR '':'') required of
        None \<Rightarrow> False | Some (r, a) \<Rightarrow> \<exists>granted \<in> perms. grant_matches granted r a)"

definition require_permission :: "authenticated_user \<Rightarrow> string \<Rightarrow> unit res" where
  "require_permission user permission =
     (if permission_set_grants (au_permissions user) permission then Ok ()
      else Err (Forbidden [Txt ''You do not have permission to perform this action (required: '',
                           FStr permission, Txt '')'']))"

definition has_role :: "authenticated_user \<Rightarrow> string \<Rightarrow> bool" where
  "has_role user role \<longleftrightarrow> role \<in> set (au_roles user)"

definition has_any_role :: "authenticated_user \<Rightarrow> string list \<Rightarrow> bool" where
  "has_any_role user roles \<longleftrightarrow> list_ex (has_role user) roles"

section \<open>The live reload\<close>

record user_row =
  ur_id :: uuid
  ur_tenant :: uuid
  ur_roles :: "string list"
  ur_active :: bool

text \<open>The tables of a reload; the rows of \<open>roles\<close> are tenant, name and permissions.\<close>

record auth_db =
  ad_users :: "user_row list"
  ad_roles :: "(uuid \<times> string \<times> string list) list"
  ad_scope :: scope_db

text \<open>The server as the statements after the first \<open>k\<close> of a transaction meet it.\<close>

definition pg_after :: "nat \<Rightarrow> pg \<Rightarrow> pg" where
  "pg_after k f = f\<lparr>stmt_error := (\<lambda>n. stmt_error f (n + k))\<rparr>"

text \<open>
  \<open>TenantTx::begin\<close>: begin and the tenant context; from here on row-level security admits
  the rows of that tenant only, which the queries also ask for.
\<close>

definition tenant_tx_begin :: "pg \<Rightarrow> string + unit" where
  "tenant_tx_begin f =
     (case stmt_error f 0 of Some e \<Rightarrow> Inl e
      | None \<Rightarrow> (case stmt_error f 1 of Some e \<Rightarrow> Inl e | None \<Rightarrow> Inr ()))"

definition resolve_effective_permissions ::
    "pg \<Rightarrow> nat \<Rightarrow> (uuid \<times> string \<times> string list) list \<Rightarrow> uuid \<Rightarrow> string list \<Rightarrow> string set res" where
  "resolve_effective_permissions f n role_rows tenant roles =
     (case sql_stmt f n ''Failed to resolve tenant custom role permissions: ''
         (filter (\<lambda>(t, name, _). t = tenant \<and> name \<in> set roles) role_rows) of
        Inl e \<Rightarrow> Inl e
      | Inr rows \<Rightarrow> Ok (fold (\<lambda>(_, _, perms) acc. acc \<union> set perms) rows (expand_static rbac_new roles)))"

text \<open>The text of the one kind of error that the nested calls return.\<close>

definition database_text :: "sensei_error \<Rightarrow> message" where
  "database_text e = (case e of Database m \<Rightarrow> Txt ''Database error: '' # m | _ \<Rightarrow> [])"

definition reload_live_user ::
    "pg \<Rightarrow> access_claims \<Rightarrow> auth_db \<Rightarrow> message + authenticated_user option" where
  "reload_live_user f claims db =
     (case tenant_tx_begin f of
        Inl e \<Rightarrow> Inl [Txt ''Failed to begin tenant-scoped auth reload: '', FStr e]
      | Inr _ \<Rightarrow>
     (case stmt_error f 2 of
        Some e \<Rightarrow> Inl [Txt ''Failed to reload the current user: '', FStr e]
      | None \<Rightarrow>
     (case find (\<lambda>u. ur_id u = ac_sub claims \<and> ur_tenant u = ac_tenant claims) (ad_users db) of
        None \<Rightarrow> Inr None
      | Some u \<Rightarrow>
          if \<not> ur_active u then Inr None
          else
     (case resolve_effective_permissions f 3 (ad_roles db) (ac_tenant claims) (ur_roles u) of
        Inl e \<Rightarrow> Inl (Txt ''Failed to resolve effective permissions: '' # database_text e)
      | Inr perms \<Rightarrow>
     (case resolve (pg_after 2 f) (ad_scope db) (ac_tenant claims) (ur_id u) of
        Inl e \<Rightarrow> Inl (Txt ''Failed to resolve the principal's authorized scope: '' # database_text e)
      | Inr _ \<Rightarrow>
     (case stmt_error f 5 of
        Some e \<Rightarrow> Inl [Txt ''Failed to read the authorization revision snapshot: '', FStr e]
      | None \<Rightarrow> Inr (Some \<lparr>au_user = ur_id u, au_tenant = ac_tenant claims, au_roles = ur_roles u,
                   au_sid = Some (ac_sid claims), au_permissions = perms\<rparr>)))))))"

section \<open>The middleware\<close>

text \<open>Status, error code and message of a refusal.\<close>

datatype auth_reject = AuthReject nat string string

definition bearer_token :: "string option \<Rightarrow> string option" where
  "bearer_token header = (case header of None \<Rightarrow> None | Some h \<Rightarrow> strip_prefix ''Bearer '' h)"

text \<open>
  The request that goes on to its handler carries the user (\<open>Inr\<close>). The header is the
  \<open>Authorization\<close> value, None if it is absent or not text; no pool is the development mode.
\<close>

definition auth_middleware ::
    "('key, access_claims) jwt_decoder \<Rightarrow> 'key jwt_service option \<Rightarrow> pg option \<Rightarrow> auth_db \<Rightarrow> string option
      \<Rightarrow> auth_reject + authenticated_user" where
  "auth_middleware decode jwt pool db header =
     (case jwt of
        None \<Rightarrow> Inl (AuthReject 500 ''configuration_error'' ''JWT service not configured'')
      | Some svc \<Rightarrow>
     (case bearer_token header of
        None \<Rightarrow> Inl (AuthReject 401 ''missing_token'' ''Missing or invalid Authorization header'')
      | Some token \<Rightarrow>
     (case validate_access_token decode svc token of
        Inl e \<Rightarrow> Inl (AuthReject 401 ''invalid_token''
                   (if e = TokenExpired then ''Token has expired'' else ''Invalid token''))
      | Inr claims \<Rightarrow>
          (case pool of
             Some f \<Rightarrow>
               (case reload_live_user f claims db of
                  Inr (Some user) \<Rightarrow> Inr user
                | Inr None \<Rightarrow> Inl (AuthReject 401 ''account_unavailable''
                    ''Your account no longer exists or is inactive; please log in again'')
                | Inl _ \<Rightarrow> Inl (AuthReject 503 ''authorization_unavailable''
                    ''Live authorization state could not be verified; please retry''))
           | None \<Rightarrow> Inr \<lparr>au_user = ac_sub claims, au_tenant = ac_tenant claims,
               au_roles = ac_roles claims, au_sid = Some (ac_sid claims),
               au_permissions = expand_static rbac_new (ac_roles claims)\<rparr>))))"

definition SWEEP_INTERVAL :: nat where
  "SWEEP_INTERVAL = 100"

text \<open>What the layer keeps between requests: the blacklist and the sweep counter.\<close>

record layer_state =
  ls_blacklist :: blacklist
  ls_counter :: nat

text \<open>
  \<open>is_blacklisted\<close> runs on the server as \<open>g\<close> meets it, the sweep as \<open>g'\<close>
  does and the live reload as \<open>f\<close> does; \<open>db\<close> tells whether a pool is configured.
\<close>

definition is_blacklisted ::
    "uuid_parser \<Rightarrow> (uuid \<Rightarrow> string) \<Rightarrow> pg option \<Rightarrow> access_claims \<Rightarrow> blacklist \<Rightarrow> message + bool" where
  "is_blacklisted parse_uuid show_uuid pool claims s =
     blacklist_contains parse_uuid pool (show_uuid (ac_jti claims)) s"

definition auth_layer ::
    "('key, access_claims) jwt_decoder \<Rightarrow> 'key jwt_service \<Rightarrow> uuid_parser \<Rightarrow> (uuid \<Rightarrow> string) \<Rightarrow> bool
      \<Rightarrow> pg \<Rightarrow> pg \<Rightarrow> pg \<Rightarrow> auth_db \<Rightarrow> string option \<Rightarrow> layer_state
      \<Rightarrow> (auth_reject + authenticated_user) \<times> layer_state" where
  "auth_layer decode svc parse_uuid show_uuid db g g' f tables header s =
     (let revoked = (case bearer_token header of None \<Rightarrow> False
            | Some token \<Rightarrow>
               (case validate_access_token decode svc token of Inl _ \<Rightarrow> False
                | Inr claims \<Rightarrow>
                   (case is_blacklisted parse_uuid show_uuid (bl_pool db g) claims (ls_blacklist s) of
                      Inr v \<Rightarrow> v | Inl _ \<Rightarrow> True)))
      in if revoked
         then (Inl (AuthReject 401 ''token_blacklisted'' ''Token has been invalidated by logout''), s)
         else
           (let count = ls_counter s;
                s1 = s\<lparr>ls_counter := u64_wrap (count + 1)\<rparr>;
                s2 = (if count mod SWEEP_INTERVAL = SWEEP_INTERVAL - 1
                      then s1\<lparr>ls_blacklist := blacklist_sweep (bl_pool db g') 0 (ls_blacklist s1)\<rparr>
                      else s1)
            in (auth_middleware decode (Some svc) (bl_pool db f) tables header, s2)))"

section \<open>What an admitted request carries\<close>

lemma fold_union: "fold (\<lambda>(_, _, perms) acc. acc \<union> set perms) rows acc =
    acc \<union> (\<Union>(_, _, perms) \<in> set rows. set perms)"
  by (induction rows arbitrary: acc) auto

text \<open>The permissions of a set of roles in a tenant, from the tables.\<close>

definition live_permissions ::
    "(uuid \<times> string \<times> string list) list \<Rightarrow> uuid \<Rightarrow> string list \<Rightarrow> string set" where
  "live_permissions role_rows tenant roles =
     expand_static rbac_new roles
     \<union> {p. \<exists>name perms. (tenant, name, perms) \<in> set role_rows \<and> name \<in> set roles \<and> p \<in> set perms}"

lemma resolve_permissions_eq:
  "resolve_effective_permissions f n role_rows tenant roles =
     (case stmt_error f n of
        Some e \<Rightarrow> Err (Database [Txt ''Failed to resolve tenant custom role permissions: '', FStr e])
      | None \<Rightarrow> Ok (live_permissions role_rows tenant roles))"
  by (auto simp: resolve_effective_permissions_def sql_stmt_def fold_union live_permissions_def
      split: option.splits)

lemma reload_Some:
  "reload_live_user f claims db = Inr (Some user) \<longleftrightarrow>
     (\<forall>i < 6. stmt_error f i = None)
     \<and> (\<exists>u. find (\<lambda>u. ur_id u = ac_sub claims \<and> ur_tenant u = ac_tenant claims) (ad_users db) = Some u
          \<and> ur_active u
          \<and> user = \<lparr>au_user = ur_id u, au_tenant = ac_tenant claims, au_roles = ur_roles u,
               au_sid = Some (ac_sid claims),
               au_permissions = live_permissions (ad_roles db) (ac_tenant claims) (ur_roles u)\<rparr>)"
proof -
  have six: "(\<forall>i < 6. P i) \<longleftrightarrow> P 0 \<and> P 1 \<and> P 2 \<and> P 3 \<and> P 4 \<and> P (5 :: nat)" for P
    by (simp add: eval_nat_numeral less_Suc_eq all_conj_distrib conj_ac)
  show ?thesis
    unfolding reload_live_user_def six tenant_tx_begin_def resolve_permissions_eq
    by (auto simp: resolve_def sql_stmt_def pg_after_def split: option.splits)
qed

lemma layer_admits:
  "fst (auth_layer decode svc parse_uuid show_uuid True g g' f tables header s) = Inr user \<longleftrightarrow>
     (\<exists>token claims. bearer_token header = Some token
        \<and> validate_access_token decode svc token = Ok claims
        \<and> blacklist_contains parse_uuid (Some g) (show_uuid (ac_jti claims)) (ls_blacklist s) = Inr False
        \<and> reload_live_user f claims tables = Inr (Some user))"
proof -
  have "auth_middleware decode (Some svc) (bl_pool True f) tables header = Inr user \<longleftrightarrow>
     (\<exists>token claims. bearer_token header = Some token
        \<and> validate_access_token decode svc token = Ok claims
        \<and> reload_live_user f claims tables = Inr (Some user))"
    by (auto simp: auth_middleware_def bl_pool_def split: option.splits sum.splits)
  then show ?thesis
    unfolding auth_layer_def is_blacklisted_def Let_def
    by (auto simp: bl_pool_def split: option.splits sum.splits)
qed

lemma admitted_permissions:
  "fst (auth_layer decode svc parse_uuid show_uuid True g g' f tables header s) = Inr user \<Longrightarrow>
     au_permissions user = live_permissions (ad_roles tables) (au_tenant user) (au_roles user)"
  unfolding layer_admits reload_Some by auto

section \<open>A concrete request\<close>

definition demo_claims :: access_claims where
  "demo_claims = \<lparr>ac_sub = 7, ac_tenant = 1, ac_jti = 33, ac_sid = 44, ac_iss = ''s'', ac_aud = ''a'',
     ac_exp = 900, ac_iat = 0, ac_nbf = 0, ac_roles = [''admin''], ac_type = ''access''\<rparr>"

definition demo_decode :: "(unit, access_claims) jwt_decoder" where
  "demo_decode key issuer audience token =
     (if token = ''t'' then Inr demo_claims else Inl (OtherJwtError ''InvalidToken''))"

definition demo_jwt :: "unit jwt_service" where
  "demo_jwt = jwt_new () ''s'' ''a'' 15 7"

definition demo_parse_uuid :: uuid_parser where
  "demo_parse_uuid s = Inr (read_nat s)"

definition demo_auth_db :: auth_db where
  "demo_auth_db = \<lparr>ad_users = [\<lparr>ur_id = 7, ur_tenant = 1, ur_roles = [''buyer''], ur_active = True\<rparr>],
     ad_roles = [(1, ''buyer'', [''plant:visit''])], ad_scope = demo_scope_db\<rparr>"

definition demo_layer :: layer_state where
  "demo_layer = \<lparr>ls_blacklist = \<lparr>bl_memory = {}, bl_rows = []\<rparr>, ls_counter = 0\<rparr>"

lemma demo_valid: "validate_access_token demo_decode demo_jwt ''t'' = Ok demo_claims"
  by (simp add: validate_access_token_def decode_with_key_rotation_def demo_decode_def demo_claims_def)

lemma demo_bearer: "bearer_token (Some ''Bearer t'') = Some ''t''"
  by (simp add: bearer_token_def strip_prefix_def starts_with_def)

lemma demo_reload:
  "reload_live_user no_faults demo_claims demo_auth_db = Inr (Some \<lparr>au_user = 7, au_tenant = 1,
     au_roles = [''buyer''], au_sid = Some 44,
     au_permissions = live_permissions (ad_roles demo_auth_db) 1 [''buyer'']\<rparr>)"
  unfolding reload_Some by (simp add: demo_claims_def demo_auth_db_def)

lemma demo_admitted:
  "fst (auth_layer demo_decode demo_jwt demo_parse_uuid show_nat True no_faults no_faults no_faults
     demo_auth_db (Some ''Bearer t'') demo_layer) = Inr \<lparr>au_user = 7, au_tenant = 1,
     au_roles = [''buyer''], au_sid = Some 44,
     au_permissions = live_permissions (ad_roles demo_auth_db) 1 [''buyer'']\<rparr>"
  unfolding layer_admits
  using demo_valid demo_bearer demo_reload
  by (simp add: blacklist_contains_def demo_parse_uuid_def demo_layer_def)

section \<open>Admission and revocation\<close>

text \<open>C4.
  What a request must show to be admitted in production, and what it then carries. The layer
  lets a request through exactly if it has a bearer token that validates, the revocation
  store answered that the token is not revoked, every statement of the live reload ran, and
  the token's user is still a user of the token's tenant and is active. The user that the handler
  sees then has the roles of the user's row and exactly the permissions that the
  compiled role table gives them and the tenant's own rows of these roles add; the roles inside
  the token play no part.
\<close>

theorem live_request_exact:
  "fst (auth_layer decode svc parse_uuid show_uuid True g g' f tables header s) = Inr user \<longleftrightarrow>
     (\<exists>token claims u. bearer_token header = Some token
        \<and> validate_access_token decode svc token = Ok claims
        \<and> blacklist_contains parse_uuid (Some g) (show_uuid (ac_jti claims)) (ls_blacklist s) = Inr False
        \<and> (\<forall>i < 6. stmt_error f i = None)
        \<and> find (\<lambda>u. ur_id u = ac_sub claims \<and> ur_tenant u = ac_tenant claims) (ad_users tables) = Some u
        \<and> ur_active u
        \<and> user = \<lparr>au_user = ac_sub claims, au_tenant = ac_tenant claims, au_roles = ur_roles u,
             au_sid = Some (ac_sid claims),
             au_permissions = live_permissions (ad_roles tables) (ac_tenant claims) (ur_roles u)\<rparr>)"
proof -
  have row: "ur_id u = ac_sub claims"
    if "find (\<lambda>u. ur_id u = ac_sub claims \<and> ur_tenant u = ac_tenant claims) (ad_users tables) = Some u"
    for claims u
    using that by (auto simp: find_Some_iff)
  show ?thesis unfolding layer_admits reload_Some by (auto intro: row row [symmetric])
qed

lemma live_request_exact_witness:
  "fst (auth_layer demo_decode demo_jwt demo_parse_uuid show_nat True no_faults no_faults no_faults
     demo_auth_db (Some ''Bearer t'') demo_layer) = Inr \<lparr>au_user = 7, au_tenant = 1,
     au_roles = [''buyer''], au_sid = Some 44,
     au_permissions = live_permissions (ad_roles demo_auth_db) 1 [''buyer'']\<rparr>
   \<and> ac_roles demo_claims = [''admin'']"
proof
  show "ac_roles demo_claims = [''admin'']" by (simp add: demo_claims_def)
  show "fst (auth_layer demo_decode demo_jwt demo_parse_uuid show_nat True no_faults no_faults no_faults
     demo_auth_db (Some ''Bearer t'') demo_layer) = Inr \<lparr>au_user = 7, au_tenant = 1,
     au_roles = [''buyer''], au_sid = Some 44,
     au_permissions = live_permissions (ad_roles demo_auth_db) 1 [''buyer'']\<rparr>"
    unfolding live_request_exact
    by (intro exI [of _ "''t''"] exI [of _ demo_claims]
          exI [of _ "\<lparr>ur_id = 7, ur_tenant = 1, ur_roles = [''buyer''], ur_active = True\<rparr>"])
      (use demo_valid demo_bearer in \<open>simp add: blacklist_contains_def demo_parse_uuid_def
        demo_layer_def demo_claims_def demo_auth_db_def\<close>)
qed

text \<open>C35.
  A revoked access token is refused until it expires. Once a log-out has recorded the token, no
  sequence of inserts, sweeps and counts on the blacklist, with any server faults,
  makes the layer admit a request with that token while the clock of the database stands before
  the expiry; also not when the revocation store cannot be reached or the live tables say
  anything else. It holds in both backends.
\<close>

theorem revoked_token_refused:
  assumes "fst (blacklist_insert parse_uuid from_unix (bl_pool db h) now
             (logout_entry show_uuid (ac_jti claims) (ac_exp claims)) b) = Inr ()"
    and "CHR '':'' \<notin> set (show_uuid (ac_jti claims))"
    and "parse_uuid (show_uuid (ac_jti claims)) = Inr (ac_jti claims)"
    and "ac_exp claims < 2 ^ 63" and "from_unix (int (ac_exp claims)) = Some expires"
    and "\<forall>r \<in> set (bl_rows b). bk_jti r = ac_jti claims \<longrightarrow> expires \<le> bk_expires r"
    and "db_now h < expires" and "\<forall>step \<in> set steps. db_now (fst step) < expires"
    and "db_now g < expires"
    and "ls_blacklist s = blacklist_runs parse_uuid from_unix db steps
           (snd (blacklist_insert parse_uuid from_unix (bl_pool db h) now
              (logout_entry show_uuid (ac_jti claims) (ac_exp claims)) b))"
    and "bearer_token header = Some token" and "validate_access_token decode svc token = Ok claims"
  shows "auth_layer decode svc parse_uuid show_uuid db g g' f tables header s
    = (Inl (AuthReject 401 ''token_blacklisted'' ''Token has been invalidated by logout''), s)"
proof -
  have "listed db (ac_jti claims) expires (logout_entry show_uuid (ac_jti claims) (ac_exp claims))
      (ls_blacklist s)"
    unfolding assms(10)
    by (rule listed_runs [OF listed_after_insert [OF assms(1-5,7,6)] assms(8)])
  then have "blacklist_contains parse_uuid (bl_pool db g) (show_uuid (ac_jti claims)) (ls_blacklist s)
      \<noteq> Inr False"
    using assms(3,9) by (rule listed_contains)
  then show ?thesis
    unfolding auth_layer_def is_blacklisted_def assms(11,12)
    by (auto simp: assms(12) split: sum.splits)
qed

lemma revoked_token_refused_witness:
  "auth_layer demo_decode demo_jwt demo_parse_uuid show_nat True no_faults no_faults no_faults
     demo_auth_db (Some ''Bearer t'')
     \<lparr>ls_blacklist = blacklist_runs demo_parse_uuid Some True [(no_faults, 5, BlSweep)]
        (snd (blacklist_insert demo_parse_uuid Some (bl_pool True no_faults) 0
          (logout_entry show_nat (ac_jti demo_claims) (ac_exp demo_claims)) (ls_blacklist demo_layer))),
      ls_counter = 0\<rparr>
   = (Inl (AuthReject 401 ''token_blacklisted'' ''Token has been invalidated by logout''),
      \<lparr>ls_blacklist = blacklist_runs demo_parse_uuid Some True [(no_faults, 5, BlSweep)]
        (snd (blacklist_insert demo_parse_uuid Some (bl_pool True no_faults) 0
          (logout_entry show_nat (ac_jti demo_claims) (ac_exp demo_claims)) (ls_blacklist demo_layer))),
      ls_counter = 0\<rparr>)"
proof (rule revoked_token_refused [where claims = demo_claims and expires = 900 and token = "''t''"])
  have plain: "CHR '':'' \<notin> set (show_nat u)" for u
    using plain_demo by (simp add: plain_disp_def)
  then show "CHR '':'' \<notin> set (show_nat (ac_jti demo_claims))" .
  have "split_once (CHR '':'') (logout_entry show_nat j e) = Some (show_nat j, show_nat e)" for j e
    using split_once_append [OF plain] by (simp add: logout_entry_def)
  then show "fst (blacklist_insert demo_parse_uuid Some (bl_pool True no_faults) 0
      (logout_entry show_nat (ac_jti demo_claims) (ac_exp demo_claims)) (ls_blacklist demo_layer)) = Inr ()"
    by (simp add: blacklist_insert_def bl_pool_def demo_parse_uuid_def Let_def)
qed (simp_all add: demo_parse_uuid_def read_show_nat demo_claims_def demo_layer_def
    demo_bearer demo_valid [unfolded demo_claims_def])

section \<open>The request-local check agrees with the role service\<close>

lemma grant_matches_eq: "grant_matches = permission_matches"
  by (intro ext) (simp add: grant_matches_def permission_matches_def)

lemma rbac_new_tenant_roles: "rb_tenant_roles rbac_new = []"
proof -
  have "rb_tenant_roles (fold (\<lambda>(name, perms). add_role name perms) table svc) = rb_tenant_roles svc"
    for table svc
    by (induction table arbitrary: svc) (auto simp: add_role_def)
  then show ?thesis
    unfolding rbac_new_def load_default_roles_def load_default_hierarchy_def
    by (simp add: rbac_empty_def)
qed

definition load_row :: "uuid \<times> string \<times> string list \<Rightarrow> rbac_service \<Rightarrow> rbac_service" where
  "load_row = (\<lambda>(tenant, name, perms) svc.
     svc\<lparr>rb_tenant_roles := hm_insert (tenant, name) (remdups perms) (rb_tenant_roles svc)\<rparr>)"

lemma load_rows_defaults [simp]:
  "rb_roles (fold load_row rows svc) = rb_roles svc"
  "rb_hierarchy (fold load_row rows svc) = rb_hierarchy svc"
  by (induction rows arbitrary: svc) (auto simp: load_row_def)

lemma load_rows_custom:
  "distinct (map (\<lambda>(t, n, _). (t, n)) rows) \<Longrightarrow>
     hm_get (rb_tenant_roles (fold load_row rows svc)) key =
       (case map_of (map (\<lambda>(t, n, ps). ((t, n), ps)) rows) key of
          Some ps \<Rightarrow> Some (remdups ps) | None \<Rightarrow> hm_get (rb_tenant_roles svc) key)"
proof (induction rows arbitrary: svc)
  case (Cons row rows)
  obtain t n ps where row: "row = (t, n, ps)" by (cases row)
  have "map_of (map (\<lambda>(t, n, ps). ((t, n), ps)) rows) (t, n) = None"
    using Cons.prems by (force simp: row map_of_eq_None_iff)
  moreover have "distinct (map (\<lambda>(t, n, _). (t, n)) rows)" using Cons.prems by simp
  ultimately show ?case using Cons.IH [of "load_row row svc"]
    by (auto simp: row load_row_def split: option.splits)
qed simp

lemma custom_of_rows:
  assumes "distinct (map (\<lambda>(t, n, _). (t, n)) rows)" and "from_db (Inr rows) = Ok svc"
  shows "custom_perms svc tenant role = {p. \<exists>perms. (tenant, role, perms) \<in> set rows \<and> p \<in> set perms}"
    and "inherited svc role = inherited rbac_new role"
proof -
  have svc: "svc = fold load_row rows rbac_new"
    using assms(2) by (simp add: from_db_def load_row_def)
  let ?kv = "map (\<lambda>(t, n, ps). ((t, n), ps)) rows"
  have keys: "map fst ?kv = map (\<lambda>(t, n, _). (t, n)) rows" by (simp add: comp_def split_def)
  have "distinct (map fst ?kv)" unfolding keys by (rule assms(1))
  then have get: "map_of ?kv (tenant, role) = Some ps \<longleftrightarrow> (tenant, role, ps) \<in> set rows" for ps
    by (force simp: map_of_eq_Some_iff)
  have uniq: "ps = qs" if "(tenant, role, ps) \<in> set rows" "(tenant, role, qs) \<in> set rows" for ps qs
    using that get [of ps] get [of qs] by simp
  show "custom_perms svc tenant role = {p. \<exists>perms. (tenant, role, perms) \<in> set rows \<and> p \<in> set perms}"
    unfolding custom_perms_def svc load_rows_custom [OF assms(1)] rbac_new_tenant_roles
    using get by (auto split: option.splits dest: uniq)
  show "inherited svc role = inherited rbac_new role"
    unfolding inherited_def role_perms_def svc by simp
qed

lemma live_permissions_eq:
  assumes "distinct (map (\<lambda>(t, n, _). (t, n)) rows)" and "from_db (Inr rows) = Ok svc"
  shows "live_permissions rows tenant roles = (\<Union>role \<in> set roles. inherited svc role \<union> custom_perms svc tenant role)"
  unfolding live_permissions_def expand_static_eq custom_of_rows [OF assms] by auto

text \<open>
  The two implementations of authorization agree. For an admitted user, the check that the
  handlers run against the permissions resolved with the request succeeds exactly if the role
  service loaded from the same role rows grants the permission to the user's roles in the
  user's tenant.
\<close>

theorem live_check_matches_rbac:
  assumes "fst (auth_layer decode svc parse_uuid show_uuid True g g' f tables header s) = Inr user"
    and "distinct (map (\<lambda>(t, n, _). (t, n)) (ad_roles tables))"
    and "from_db (Inr (ad_roles tables)) = Ok snapshot"
  shows "require_permission user p = Ok () \<longleftrightarrow>
    has_permission_for_tenant snapshot (au_roles user) (Some (au_tenant user)) (Permission p)"
proof -
  have "au_permissions user = live_permissions (ad_roles tables) (au_tenant user) (au_roles user)"
    using assms(1) admitted_permissions by blast
  then show ?thesis
    unfolding require_permission_def permission_set_grants_def has_permission_for_tenant_def
      parse_permission_def live_permissions_eq [OF assms(2,3)] role_grants_eq grant_matches_eq
    by (auto simp: any_matches_def list_ex_iff split: option.splits)
qed

lemma live_check_matches_rbac_witness:
  "\<exists>snapshot. from_db (Inr (ad_roles demo_auth_db)) = Ok snapshot
    \<and> require_permission \<lparr>au_user = 7, au_tenant = 1, au_roles = [''buyer''], au_sid = Some 44,
        au_permissions = live_permissions (ad_roles demo_auth_db) 1 [''buyer'']\<rparr> ''plant:visit'' = Ok ()
    \<and> has_permission_for_tenant snapshot [''buyer''] (Some 1) (Permission ''plant:visit'')"
proof -
  have perm: "''plant:visit'' \<in> live_permissions (ad_roles demo_auth_db) 1 [''buyer'']"
    unfolding live_permissions_def by (simp add: demo_auth_db_def)
  have "grant_matches ''plant:visit'' ''plant'' ''visit''" by (simp add: grant_matches_def)
  with perm have ok: "require_permission \<lparr>au_user = 7, au_tenant = 1, au_roles = [''buyer''], au_sid = Some 44,
      au_permissions = live_permissions (ad_roles demo_auth_db) 1 [''buyer'']\<rparr> ''plant:visit'' = Ok ()"
    unfolding require_permission_def permission_set_grants_def by auto
  obtain snapshot where db: "from_db (Inr (ad_roles demo_auth_db)) = Ok snapshot"
    unfolding from_db_def sum.case by blast
  have "distinct (map (\<lambda>(t, n, _). (t, n)) (ad_roles demo_auth_db))"
    by (simp add: demo_auth_db_def)
  from live_check_matches_rbac [OF demo_admitted this db] ok db show ?thesis by auto
qed

end
