(* ===== verification/Rate_Limiter.thy ===== *)
theory Rate_Limiter
  imports Sql_Model
begin

text \<open>
  The rate limiter (\<open>sensei-api/src/middleware/rate_limiter.rs\<close>): the sliding-window log per
  client with its background cleanup, the counter shared by the replicas, and the middleware;
  with the client address of \<open>middleware/session.rs\<close>. Monotonic instants and durations
  are in nanoseconds; \<open>lo\<close> is the earliest instant that the platform can represent.
\<close>

section \<open>The client address\<close>

text \<open>
  The loop over the forwarded addresses, from the right: blank ones are skipped, trusted
  proxies passed over. \<open>trusted\<close> parses an address and looks it up in the networks.
\<close>

fun pick_candidate :: "(string \<Rightarrow> bool) \<Rightarrow> string list \<Rightarrow> string option" where
  "pick_candidate trusted [] = None"
| "pick_candidate trusted (c # cs) =
     (let candidate = trim c
      in if candidate = [] then pick_candidate trusted cs
         else if \<not> trusted candidate then Some candidate
         else pick_candidate trusted cs)"

definition resolve_client_ip ::
    "('ip \<Rightarrow> string) \<Rightarrow> ('ip \<Rightarrow> bool) \<Rightarrow> (string \<Rightarrow> 'ip option) \<Rightarrow> 'ip option \<Rightarrow> string option \<Rightarrow> string"
where
  "resolve_client_ip show_ip in_networks parse_ip peer forwarded =
     (let peer_text = (case peer of Some ip \<Rightarrow> show_ip ip | None \<Rightarrow> ''unknown'')
      in if (case peer of None \<Rightarrow> False | Some ip \<Rightarrow> in_networks ip)
         then (case forwarded of
                 None \<Rightarrow> peer_text
               | Some value \<Rightarrow>
                  (case pick_candidate (\<lambda>c. case parse_ip c of None \<Rightarrow> False | Some ip \<Rightarrow> in_networks ip)
                      (rev (split_on (CHR '','') value)) of
                     Some candidate \<Rightarrow> candidate
                   | None \<Rightarrow> peer_text))
         else peer_text)"

section \<open>The limiter\<close>

type_synonym instant = int

record rate_row =
  rr_key :: string
  rr_start :: timestamp
  rr_count :: int
  rr_expires :: timestamp

record rate_limiter =
  rl_enabled :: bool
  rl_max :: nat
  rl_window :: nat
  rl_buckets :: "(string, instant list) hmap"

definition second :: nat where
  "second = 1000000000"

text \<open>\<open>new\<close>, the chain of constructors with its defaults, and \<open>disabled\<close>.\<close>

definition limiter_with_window :: "nat \<Rightarrow> nat \<Rightarrow> rate_limiter" where
  "limiter_with_window max_requests window =
     \<lparr>rl_enabled = True, rl_max = max_requests, rl_window = window, rl_buckets = []\<rparr>"

definition limiter_new :: "nat \<Rightarrow> nat \<Rightarrow> rate_limiter" where
  "limiter_new max_requests window_secs = limiter_with_window max_requests (window_secs * second)"

definition limiter_disabled :: "rate_limiter \<Rightarrow> rate_limiter" where
  "limiter_disabled rl = rl\<lparr>rl_enabled := False\<rparr>"

text \<open>\<open>now.checked_sub(d).unwrap_or(now)\<close>\<close>

definition cutoff_of :: "instant \<Rightarrow> instant \<Rightarrow> nat \<Rightarrow> instant" where
  "cutoff_of lo now d = (if lo \<le> now - int d then now - int d else now)"

definition bucket_of :: "rate_limiter \<Rightarrow> string \<Rightarrow> instant list" where
  "bucket_of rl key = (case hm_get (rl_buckets rl) key of None \<Rightarrow> [] | Some ts \<Rightarrow> ts)"

definition prune :: "instant \<Rightarrow> instant \<Rightarrow> nat \<Rightarrow> instant list \<Rightarrow> instant list" where
  "prune lo now window ts =
     (if window = 0 then [] else dropWhile (\<lambda>t. t < cutoff_of lo now window) ts)"

definition check :: "instant \<Rightarrow> instant \<Rightarrow> string \<Rightarrow> rate_limiter \<Rightarrow> bool \<times> rate_limiter" where
  "check lo now key rl =
     (let ts = prune lo now (rl_window rl) (bucket_of rl key)
      in if rl_max rl \<le> length ts
         then (False, rl\<lparr>rl_buckets := hm_insert key ts (rl_buckets rl)\<rparr>)
         else (True, rl\<lparr>rl_buckets := hm_insert key (ts @ [now]) (rl_buckets rl)\<rparr>))"

definition tracked_keys :: "rate_limiter \<Rightarrow> nat" where
  "tracked_keys rl = length (rl_buckets rl)"

text \<open>One tick of the cleanup task.\<close>

definition evict_stale :: "instant \<Rightarrow> instant \<Rightarrow> rate_limiter \<Rightarrow> rate_limiter" where
  "evict_stale lo now rl =
     (let cutoff = cutoff_of lo now (max (rl_window rl) second)
      in rl\<lparr>rl_buckets := filter (\<lambda>(_, ts). ts \<noteq> [] \<and> cutoff \<le> last ts) (rl_buckets rl)\<rparr>)"

section \<open>The shared counter\<close>

text \<open>
  \<open>INSERT ... ON CONFLICT (key) DO UPDATE ... RETURNING count\<close> with the transaction time of
  the server; database times are in nanoseconds too, \<open>secs\<close> is the window in seconds.
\<close>

definition bump_counter ::
    "timestamp \<Rightarrow> string \<Rightarrow> int \<Rightarrow> rate_row list \<Rightarrow> int \<times> rate_row list" where
  "bump_counter now key secs rows =
     (let expires = now + secs * 5 * int second
      in case find (\<lambda>r. rr_key r = key) rows of
           None \<Rightarrow> (1, rows @ [\<lparr>rr_key = key, rr_start = now, rr_count = 1, rr_expires = expires\<rparr>])
         | Some r \<Rightarrow>
             (let over = rr_start r \<le> now - secs * int second;
                  n = (if over then 1 else rr_count r + 1)
              in (n, map (\<lambda>q. if rr_key q = key
                   then q\<lparr>rr_count := n, rr_start := (if over then now else rr_start r),
                          rr_expires := expires\<rparr> else q) rows)))"

definition check_shared ::
    "pg option \<Rightarrow> instant \<Rightarrow> instant \<Rightarrow> string \<Rightarrow> rate_limiter \<times> rate_row list
      \<Rightarrow> bool \<times> rate_limiter \<times> rate_row list" where
  "check_shared pool lo now key s =
     (case s of (rl, rows) \<Rightarrow>
       (case pool of
          Some f \<Rightarrow>
            (case stmt_error f 0 of Some _ \<Rightarrow> (False, rl, rows)
             | None \<Rightarrow>
                (case bump_counter (db_now f) key (int (max (rl_window rl div second) 1)) rows of
                   (n, rows') \<Rightarrow>
                     (\<not> rl_max rl < nat (n mod 2 ^ 32), rl, rows')))
        | None \<Rightarrow> (case check lo now key rl of (ok, rl') \<Rightarrow> (ok, rl', rows))))"

text \<open>The middleware: pass on, or refuse with the seconds to wait.\<close>

datatype rate_answer = PassOn | TooMany nat

definition rate_limit_middleware ::
    "pg option \<Rightarrow> instant \<Rightarrow> instant \<Rightarrow> string \<Rightarrow> rate_limiter option \<Rightarrow> rate_row list
      \<Rightarrow> rate_answer \<times> rate_limiter option \<times> rate_row list" where
  "rate_limit_middleware pool lo now client limiter rows =
     (case limiter of
        None \<Rightarrow> (PassOn, None, rows)
      | Some rl \<Rightarrow>
          if \<not> rl_enabled rl then (PassOn, Some rl, rows)
          else (case check_shared pool lo now client (rl, rows) of
                  (True, rl', rows') \<Rightarrow> (PassOn, Some rl', rows')
                | (False, rl', rows') \<Rightarrow> (TooMany (max (rl_window rl div second) 1), Some rl', rows')))"

section \<open>The log and the admitted requests\<close>

datatype limiter_step = Check instant string | Evict instant

fun step_time :: "limiter_step \<Rightarrow> instant" where
  "step_time (Check t key) = t"
| "step_time (Evict t) = t"

text \<open>A run, with the instants of the admitted requests of one client.\<close>

fun limiter_next :: "instant \<Rightarrow> string \<Rightarrow> limiter_step \<Rightarrow> rate_limiter \<times> instant list
    \<Rightarrow> rate_limiter \<times> instant list" where
  "limiter_next lo client (Check now key) (rl, admitted) =
     (case check lo now key rl of
        (ok, rl') \<Rightarrow> (rl', if ok \<and> key = client then admitted @ [now] else admitted))"
| "limiter_next lo client (Evict now) (rl, admitted) = (evict_stale lo now rl, admitted)"

definition limiter_run :: "instant \<Rightarrow> string \<Rightarrow> limiter_step list \<Rightarrow> rate_limiter \<Rightarrow> rate_limiter \<times> instant list"
where
  "limiter_run lo client steps rl = fold (limiter_next lo client) steps (rl, [])"

text \<open>
  The invariant at the time \<open>now\<close>: the client's log is sorted, its recent part is exactly the
  recent part of the admissions, and no interval of the window's length holds too many.
\<close>

definition recent :: "instant \<Rightarrow> instant list \<Rightarrow> instant list" where
  "recent c ts = filter (\<lambda>t. c \<le> t) ts"

definition in_span :: "instant \<Rightarrow> nat \<Rightarrow> instant list \<Rightarrow> instant list" where
  "in_span a window ts = filter (\<lambda>t. a \<le> t \<and> t \<le> a + int window) ts"

definition log_ok :: "instant \<Rightarrow> string \<Rightarrow> rate_limiter \<Rightarrow> instant list \<Rightarrow> bool" where
  "log_ok now client rl admitted \<longleftrightarrow> hm_wf (rl_buckets rl)
     \<and> sorted (bucket_of rl client) \<and> (\<forall>t \<in> set (bucket_of rl client) \<union> set admitted. t \<le> now)
     \<and> recent (now - int (rl_window rl)) (bucket_of rl client)
         = recent (now - int (rl_window rl)) admitted
     \<and> (\<forall>a. length (in_span a (rl_window rl) admitted) \<le> rl_max rl)"

lemma recent_later: "c \<le> c' \<Longrightarrow> recent c xs = recent c ys \<Longrightarrow> recent c' xs = recent c' ys"
proof -
  assume "c \<le> c'" and eq: "recent c xs = recent c ys"
  then have "recent c' zs = recent c' (recent c zs)" for zs
    by (induction zs) (auto simp: recent_def)
  with eq show ?thesis by metis
qed

lemma prune_recent:
  assumes "sorted ts" and "0 < window" and "lo \<le> now - int window"
  shows "prune lo now window ts = recent (now - int window) ts"
proof -
  have "dropWhile (\<lambda>t. t < c) ts = recent c ts" for c
    using assms(1) by (induction ts) (auto simp: recent_def not_less intro!: filter_True [symmetric])
  with assms(2,3) show ?thesis by (simp add: prune_def cutoff_of_def)
qed

lemma bucket_of_insert:
  "bucket_of (rl\<lparr>rl_buckets := hm_insert key ts (rl_buckets rl)\<rparr>) client
     = (if client = key then ts else bucket_of rl client)"
  by (simp add: bucket_of_def)

lemma log_ok_later: "log_ok now client rl adm \<Longrightarrow> now \<le> now' \<Longrightarrow> log_ok now' client rl adm"
  using recent_later [of "now - int (rl_window rl)" "now' - int (rl_window rl)" "bucket_of rl client" adm]
  by (auto simp: log_ok_def intro: order_trans)

lemma span_recent:
  "a \<le> now \<Longrightarrow> now \<le> a + int window \<Longrightarrow> length (in_span a window ts) \<le> length (recent (now - int window) ts)"
  unfolding in_span_def recent_def by (induction ts) auto

lemma log_ok_check:
  assumes ok: "log_ok now client rl adm" and "0 < rl_window rl" and "lo \<le> now - int (rl_window rl)"
    and c: "check lo now key rl = (admit, rl')"
  shows "log_ok now client rl' (if admit \<and> key = client then adm @ [now] else adm)
    \<and> rl_window rl' = rl_window rl \<and> rl_max rl' = rl_max rl"
proof (cases "key = client")
  case False
  with ok c show ?thesis
    by (auto simp: check_def Let_def log_ok_def bucket_of_insert split: if_splits)
next
  case True
  let ?ts = "recent (now - int (rl_window rl)) (bucket_of rl client)"
  have sorted: "sorted (bucket_of rl client)" using ok by (simp add: log_ok_def)
  have ts: "prune lo now (rl_window rl) (bucket_of rl client) = ?ts"
    using prune_recent [OF sorted assms(2,3)] .
  have le: "\<forall>t \<in> set (bucket_of rl client). t \<le> now" "\<forall>t \<in> set adm. t \<le> now"
    and eq: "?ts = recent (now - int (rl_window rl)) adm"
    and few: "\<And>a. length (in_span a (rl_window rl) adm) \<le> rl_max rl"
    using ok by (auto simp: log_ok_def)
  have idem: "recent (now - int (rl_window rl)) ?ts = ?ts" by (simp add: recent_def)
  have sorted': "sorted ?ts" "sorted (?ts @ [now])"
    using sorted le(1) by (auto simp: recent_def sorted_append sorted_wrt_filter)
  have le': "\<forall>t \<in> set ?ts. t \<le> now" using le(1) by (simp add: recent_def)
  show ?thesis
  proof (cases "rl_max rl \<le> length ?ts")
    case True
    with c \<open>key = client\<close> ts have "\<not> admit"
      and rl': "rl' = rl\<lparr>rl_buckets := hm_insert client ?ts (rl_buckets rl)\<rparr>"
      by (auto simp: check_def Let_def)
    moreover have "log_ok now client rl' adm"
      using ok sorted'(1) le le' idem eq few unfolding rl' log_ok_def bucket_of_insert
      by auto
    ultimately show ?thesis by simp
  next
    case False
    with c \<open>key = client\<close> ts have admit
      and rl': "rl' = rl\<lparr>rl_buckets := hm_insert client (?ts @ [now]) (rl_buckets rl)\<rparr>"
      by (auto simp: check_def Let_def)
    have "length (in_span a (rl_window rl) (adm @ [now])) \<le> rl_max rl" for a
    proof (cases "a \<le> now \<and> now \<le> a + int (rl_window rl)")
      case True
      then have "length (in_span a (rl_window rl) adm) \<le> length ?ts"
        using span_recent [of a now "rl_window rl" adm] eq by simp
      with False show ?thesis by (simp add: in_span_def)
    next
      case False
      then show ?thesis using few [of a] by (auto simp: in_span_def)
    qed
    moreover have "recent (now - int (rl_window rl)) (?ts @ [now])
        = recent (now - int (rl_window rl)) (adm @ [now])"
      using idem eq by (simp add: recent_def)
    ultimately have "log_ok now client rl' (adm @ [now])"
      using ok sorted'(2) le le' unfolding rl' log_ok_def bucket_of_insert by auto
    with \<open>admit\<close> \<open>key = client\<close> rl' show ?thesis by simp
  qed
qed

lemma sorted_le_last: "t \<in> set ts \<Longrightarrow> sorted ts \<Longrightarrow> t \<le> last ts"
  for ts :: "instant list"
  by (induction ts) (auto split: if_splits)

lemma bucket_of_evict:
  "hm_wf (rl_buckets rl) \<Longrightarrow> bucket_of (evict_stale lo now rl) client =
     (let ts = bucket_of rl client
      in if ts \<noteq> [] \<and> cutoff_of lo now (max (rl_window rl) second) \<le> last ts then ts else [])"
proof -
  have "hm_get (filter (\<lambda>(_, ts). P ts) m) client =
      (case hm_get m client of None \<Rightarrow> None | Some ts \<Rightarrow> if P ts then Some ts else None)"
    if "hm_wf m" for P and m :: "(string, instant list) hmap"
    using that by (induction m) (auto simp: hm_get_def hm_wf_def map_of_eq_None_iff split: option.splits)
  then show "hm_wf (rl_buckets rl) \<Longrightarrow> ?thesis"
    by (simp add: bucket_of_def evict_stale_def Let_def split: option.split)
qed

lemma log_ok_evict:
  assumes ok: "log_ok now client rl adm" and lo: "lo \<le> now - int (max (rl_window rl) second)"
  shows "log_ok now client (evict_stale lo now rl) adm \<and> rl_window (evict_stale lo now rl) = rl_window rl
    \<and> rl_max (evict_stale lo now rl) = rl_max rl"
proof -
  have wf: "hm_wf (rl_buckets rl)" and sorted: "sorted (bucket_of rl client)"
    using ok by (auto simp: log_ok_def)
  have rest: "rl_window (evict_stale lo now rl) = rl_window rl" "rl_max (evict_stale lo now rl) = rl_max rl"
    "hm_wf (rl_buckets (evict_stale lo now rl))"
    using wf by (simp_all add: evict_stale_def Let_def hm_wf_def distinct_map_filter)
  let ?ts = "bucket_of rl client"
  show ?thesis
  proof (cases "bucket_of (evict_stale lo now rl) client = ?ts")
    case True
    with ok rest show ?thesis by (simp add: log_ok_def)
  next
    case False
    then have empty: "bucket_of (evict_stale lo now rl) client = []"
      and old: "?ts \<noteq> []" "last ?ts < cutoff_of lo now (max (rl_window rl) second)"
      using bucket_of_evict [OF wf, of lo now client] by (auto simp: Let_def split: if_splits)
    have "last ?ts < now - int (rl_window rl)" using old(2) lo by (simp add: cutoff_of_def)
    moreover have "t \<le> last ?ts" if "t \<in> set ?ts" for t
      using that sorted by (rule sorted_le_last)
    ultimately have "recent (now - int (rl_window rl)) ?ts = []"
      by (fastforce simp: recent_def filter_empty_conv)
    with ok have "recent (now - int (rl_window rl)) adm = []" by (simp add: log_ok_def)
    with ok rest empty show ?thesis by (auto simp: log_ok_def recent_def)
  qed
qed

lemma log_ok_run:
  assumes "sorted (map step_time steps)" and "\<forall>st \<in> set steps. now \<le> step_time st
      \<and> lo \<le> step_time st - int (max (rl_window rl) second)"
    and "log_ok now client rl adm" and "0 < rl_window rl"
    and "fold (limiter_next lo client) steps (rl, adm) = (rl', adm')"
  shows "\<exists>now'. log_ok now' client rl' adm' \<and> rl_window rl' = rl_window rl \<and> rl_max rl' = rl_max rl"
  using assms
proof (induction steps arbitrary: now rl adm)
  case Nil
  then show ?case by auto
next
  case (Cons st steps)
  obtain rl1 adm1 where one: "limiter_next lo client st (rl, adm) = (rl1, adm1)"
    by (cases "limiter_next lo client st (rl, adm)")
  have log: "log_ok (step_time st) client rl adm" using Cons.prems(2,3) by (auto intro: log_ok_later)
  have lo: "lo \<le> step_time st - int (max (rl_window rl) second)" using Cons.prems(2) by simp
  have "log_ok (step_time st) client rl1 adm1 \<and> rl_window rl1 = rl_window rl \<and> rl_max rl1 = rl_max rl"
  proof (cases st)
    case (Check t key)
    with one obtain admit where "check lo t key rl = (admit, rl1)"
        "adm1 = (if admit \<and> key = client then adm @ [t] else adm)"
      by (auto split: prod.splits)
    with Check log lo Cons.prems(4) show ?thesis
      using log_ok_check [of t client rl adm lo key admit rl1] by simp
  next
    case (Evict t)
    with one log lo show ?thesis using log_ok_evict [of t client rl adm lo] by simp
  qed
  moreover have "sorted (map step_time steps)" "\<forall>s \<in> set steps. step_time st \<le> step_time s"
    using Cons.prems(1) by auto
  moreover have "fold (limiter_next lo client) steps (rl1, adm1) = (rl', adm')"
    using Cons.prems(5) one by simp
  ultimately show ?case
    using Cons.IH [of "step_time st" rl1 adm1] Cons.prems(2,4) by auto
qed

text \<open>C36.
  The sliding window of one process holds. With a window longer than zero, for every sequence of
  requests of any clients and cleanups whose instants do not go back and each lie a full window
  (and a full second) above the earliest instant that the clock can represent, a client that starts
  with an empty log is admitted by the in-process log at most \<open>max_requests\<close> times in every closed
  interval as long as the window, wherever it begins. (Not claimed: a bound for a window of zero,
  which admits everything; for the first window after the earliest instant, where the cutoff falls
  back to now; or for the counter shared through the database, which admits a burst across a
  boundary.)
\<close>

theorem sliding_window_bound:
  assumes "0 < window" and "sorted (map step_time steps)"
    and "\<forall>st \<in> set steps. lo \<le> step_time st - int (max window second)"
  shows "length (filter (\<lambda>t. a \<le> t \<and> t \<le> a + int window)
      (snd (limiter_run lo client steps (limiter_with_window max_requests window)))) \<le> max_requests"
proof (cases steps)
  case Nil
  then show ?thesis by (simp add: limiter_run_def)
next
  case (Cons st rest)
  let ?rl = "limiter_with_window max_requests window"
  obtain rl' adm' where run: "fold (limiter_next lo client) steps (?rl, []) = (rl', adm')"
    by (cases "fold (limiter_next lo client) steps (?rl, [])")
  have "log_ok (step_time st) client ?rl []"
    by (simp add: log_ok_def bucket_of_def limiter_with_window_def recent_def in_span_def)
  moreover have "\<forall>s \<in> set steps. step_time st \<le> step_time s
      \<and> lo \<le> step_time s - int (max (rl_window ?rl) second)"
    using assms(2,3) Cons by (auto simp: limiter_with_window_def)
  ultimately obtain now' where "log_ok now' client rl' adm'" "rl_window rl' = window" "rl_max rl' = max_requests"
    using log_ok_run [OF assms(2) _ _ _ run, of "step_time st"] assms(1)
    by (auto simp: limiter_with_window_def)
  then show ?thesis by (simp add: log_ok_def in_span_def limiter_run_def run)
qed

lemma sliding_window_bound_witness:
  "length (filter (\<lambda>t. 5 \<le> t \<and> t \<le> 5 + int 10)
      (snd (limiter_run (- 1000000000) ''10.0.0.1'' [Check 1 ''10.0.0.1'', Check 6 ''10.0.0.1'', Check 8 ''10.0.0.1'',
         Evict 9, Check 12 ''10.0.0.1''] (limiter_with_window 2 10)))) \<le> 2"
  by (rule sliding_window_bound) (simp_all add: second_def)

section \<open>Where the shared counter differs\<close>

text \<open>
  With a pool the log is replaced by a counter per fixed window, so the burst across the
  boundary that the module rules out is admitted: two requests just before the boundary and two
  just after it, where two are allowed in any ten seconds.
\<close>

definition shared_at :: "timestamp \<Rightarrow> rate_limiter \<times> rate_row list \<Rightarrow> bool \<times> rate_limiter \<times> rate_row list" where
  "shared_at t s = check_shared (Some (no_faults\<lparr>db_now := t * int second\<rparr>)) 0 0 ''10.0.0.1'' s"

lemma shared_double_burst:
  "let s0 = (limiter_new 2 10, [\<lparr>rr_key = ''10.0.0.1'', rr_start = 0, rr_count = 0, rr_expires = 50000000000\<rparr>]);
       (a, s1) = shared_at 9 s0; (b, s2) = shared_at 9 s1; (c, s3) = shared_at 10 s2; (d, s4) = shared_at 10 s3
   in a \<and> b \<and> c \<and> d"
  by (simp add: shared_at_def check_shared_def bump_counter_def limiter_new_def limiter_with_window_def second_def
      no_faults_def Let_def)

text \<open>A failing counter refuses every client, which the comment on it rules out.\<close>

lemma failing_counter_blocks:
  assumes "stmt_error f 0 = Some e" and "rl_enabled rl"
  shows "rate_limit_middleware (Some f) lo now client (Some rl) rows
    = (TooMany (max (rl_window rl div second) 1), Some rl, rows)"
  using assms by (simp add: rate_limit_middleware_def check_shared_def)

text \<open>A peer that is not a trusted proxy cannot choose its client address.\<close>

lemma untrusted_peer_is_itself:
  assumes "case peer of None \<Rightarrow> True | Some ip \<Rightarrow> \<not> in_networks ip"
  shows "resolve_client_ip show_ip in_networks parse_ip peer forwarded
    = (case peer of None \<Rightarrow> ''unknown'' | Some ip \<Rightarrow> show_ip ip)"
  using assms by (auto simp: resolve_client_ip_def Let_def split: option.splits)

end
