(* ===== verification/Tenant_Db.thy ===== *)
theory Tenant_Db
  imports Sql_Model
begin

text \<open>
  What the database-backed services share: the transaction of a tenant
  (\<open>sensei-core/src/db/tenant_tx.rs\<close>) whose failures become \<open>SenseiError::Database\<close>,
  the statements that insert, update, delete, order and page rows, and \<open>NUMERIC(19,4)\<close>
  columns. A step is a step of \<open>Sql_Model\<close> with service errors.
\<close>

section \<open>Statements\<close>

definition sql :: "pg \<Rightarrow> string \<Rightarrow> ('d \<Rightarrow> string + 'a \<times> 'd) \<Rightarrow> ('d, sensei_error, 'a) step" where
  "sql f what stmt d n =
     (case stmt_error f n of
        Some e \<Rightarrow> (Inl (Database [Txt what, FStr e]), d, n + 1)
      | None \<Rightarrow> (case stmt d of Inl e \<Rightarrow> (Inl (Database [Txt what, FStr e]), d, n + 1)
                 | Inr (x, d') \<Rightarrow> (Inr x, d', n + 1)))"

text \<open>A query; \<open>sql_fetch\<close> also decodes the rows, which may fail.\<close>

definition sql_read :: "pg \<Rightarrow> string \<Rightarrow> ('d \<Rightarrow> 'a) \<Rightarrow> ('d, sensei_error, 'a) step" where
  "sql_read f what q = sql f what (\<lambda>d. Inr (q d, d))"

definition sql_fetch :: "pg \<Rightarrow> string \<Rightarrow> ('d \<Rightarrow> string + 'a) \<Rightarrow> ('d, sensei_error, 'a) step" where
  "sql_fetch f what q = sql f what (\<lambda>d. case q d of Inl e \<Rightarrow> Inl e | Inr x \<Rightarrow> Inr (x, d))"

text \<open>An early return with an error.\<close>

definition refuse_if :: "bool \<Rightarrow> sensei_error \<Rightarrow> ('d, sensei_error, unit) step" where
  "refuse_if c e = (if c then tx_fail e else tx_return ())"

definition some_or :: "sensei_error \<Rightarrow> 'a option \<Rightarrow> ('d, sensei_error, 'a) step" where
  "some_or e x = (case x of None \<Rightarrow> tx_fail e | Some a \<Rightarrow> tx_return a)"

text \<open>
  \<open>TenantTx::begin\<close>, the body, \<open>commit\<close>. Every error drops the transaction, which
  rolls it back; a commit that fails counts as not committed.
\<close>

definition in_tenant_tx ::
    "pg \<Rightarrow> string \<Rightarrow> string \<Rightarrow> ('d, sensei_error, 'a) step \<Rightarrow> 'd \<Rightarrow> 'a res \<times> 'd" where
  "in_tenant_tx f opening closing body d =
     (case tx_then (sql_read f opening (\<lambda>_. ()))
           (tx_then (sql_read f opening (\<lambda>_. ()))
           (tx_bind body (\<lambda>x. tx_then (sql_read f closing (\<lambda>_. ())) (tx_return x)))) d 0 of
        (Inl e, _, _) \<Rightarrow> (Err e, d)
      | (Inr x, d', _) \<Rightarrow> (Ok x, d'))"

section \<open>Rows\<close>

text \<open>\<open>INSERT\<close> under the PRIMARY KEY and UNIQUE constraints that \<open>clash\<close> states.\<close>

definition insert_row :: "pg \<Rightarrow> ('r \<Rightarrow> bool) \<Rightarrow> 'r \<Rightarrow> 'r list \<Rightarrow> string + 'r list" where
  "insert_row f clash r rows = (if list_ex clash rows then Inl (unique_error f) else Inr (rows @ [r]))"

text \<open>\<open>UPDATE ... WHERE ... RETURNING\<close>, fetched with \<open>fetch_optional\<close>.\<close>

definition update_rows :: "('r \<Rightarrow> bool) \<Rightarrow> ('r \<Rightarrow> 'r) \<Rightarrow> 'r list \<Rightarrow> 'r option \<times> 'r list" where
  "update_rows hit g rows = (map_option g (find hit rows), map (\<lambda>r. if hit r then g r else r) rows)"

definition delete_rows :: "('r \<Rightarrow> bool) \<Rightarrow> 'r list \<Rightarrow> nat \<times> 'r list" where
  "delete_rows hit rows = (length (filter hit rows), filter (\<lambda>r. \<not> hit r) rows)"

text \<open>\<open>ORDER BY key\<close>; the server breaks ties.\<close>

definition order_by :: "pg \<Rightarrow> ('r \<Rightarrow> 'k :: linorder) \<Rightarrow> 'r list \<Rightarrow> 'r list" where
  "order_by f key rows = sort_key key (map snd (sort_key (\<lambda>p. tie f (fst p)) (enumerate 0 rows)))"

fun collect :: "('r \<Rightarrow> 'e + 'a) \<Rightarrow> 'r list \<Rightarrow> 'e + 'a list" where
  "collect dec [] = Inr []"
| "collect dec (r # rs) =
     (case dec r of Inl e \<Rightarrow> Inl e
      | Inr x \<Rightarrow> (case collect dec rs of Inl e \<Rightarrow> Inl e | Inr xs \<Rightarrow> Inr (x # xs)))"

section \<open>Pages\<close>

text \<open>
  \<open>LIMIT\<close> and \<open>OFFSET\<close>: the offset wraps in \<open>usize\<close> and is cast to \<open>i64\<close>; the
  server refuses a negative one.
\<close>

definition page_of :: "nat option \<Rightarrow> nat" where
  "page_of page = max (case page of None \<Rightarrow> 1 | Some p \<Rightarrow> p) 1"

definition per_page_of :: "nat option \<Rightarrow> nat" where
  "per_page_of per_page = max 1 (min 100 (case per_page of None \<Rightarrow> 20 | Some p \<Rightarrow> p))"

definition limit_offset :: "pg \<Rightarrow> nat option \<Rightarrow> nat option \<Rightarrow> 'r list \<Rightarrow> string + 'r list" where
  "limit_offset f page per_page rows =
     (let offset = i64_wrap (int (u64_wrap ((page_of page - 1) * per_page_of per_page)))
      in if offset < 0 then Inl (range_error f)
         else Inr (take (per_page_of per_page) (drop (nat offset) rows)))"

definition page_result :: "nat option \<Rightarrow> nat option \<Rightarrow> 'a list \<Rightarrow> nat \<Rightarrow> 'a paginated" where
  "page_result page per_page items n =
     \<lparr>pr_data = items, pr_total = n, pr_page = page_of page, pr_per_page = per_page_of per_page,
      pr_total_pages = div_ceil (max n 1) (per_page_of per_page)\<rparr>"

text \<open>
  A listing: one page of the selected rows, decoded, and the count of all of them, in one
  transaction. The texts are those of begin, page, count and commit.
\<close>

definition db_list ::
    "pg \<Rightarrow> string \<times> string \<times> string \<times> string \<Rightarrow> ('d \<Rightarrow> 'r list) \<Rightarrow> ('r list \<Rightarrow> 'r list)
      \<Rightarrow> ('r \<Rightarrow> string + 'a) \<Rightarrow> nat option \<Rightarrow> nat option \<Rightarrow> 'd \<Rightarrow> 'a paginated res \<times> 'd" where
  "db_list f texts select order dec page per_page =
     (case texts of (opening, reading, counting, closing) \<Rightarrow>
       in_tenant_tx f opening closing
         (tx_bind (sql_fetch f reading (\<lambda>d.
             case limit_offset f page per_page (order (select d)) of
               Inl e \<Rightarrow> Inl e | Inr rows \<Rightarrow> collect dec rows))
          (\<lambda>items. tx_bind (sql_read f counting (\<lambda>d. length (select d)))
            (\<lambda>count. tx_return (page_result page per_page items count)))))"

section \<open>Decimal columns\<close>

text \<open>\<open>NUMERIC(19,4)\<close>: rounded half away from zero to four places, at most 15 digits before.\<close>

definition round4 :: "decimal \<Rightarrow> decimal" where
  "round4 x = (if 0 \<le> x then rat_of_int \<lfloor>x * 10000 + 1 / 2\<rfloor> / 10000
               else - (rat_of_int \<lfloor>- x * 10000 + 1 / 2\<rfloor> / 10000))"

definition fits_numeric :: "decimal list \<Rightarrow> bool" where
  "fits_numeric xs \<longleftrightarrow> (\<forall>x \<in> set xs. \<bar>round4 x\<bar> < 10 ^ 15)"

lemma round4_error: "\<bar>round4 x - x\<bar> \<le> 1 / 20000"
proof -
  have "\<bar>rat_of_int \<lfloor>y * 10000 + 1 / 2\<rfloor> / 10000 - y\<bar> \<le> 1 / 20000" for y :: rat
    using floor_correct [of "y * 10000 + 1 / 2"] unfolding abs_le_iff by linarith
  from this [of x] this [of "- x"] show ?thesis unfolding round4_def abs_le_iff by auto
qed

lemma round4_nonneg: "0 \<le> x \<Longrightarrow> 0 \<le> round4 x"
  by (simp add: round4_def)

text \<open>The values with at most four places are kept.\<close>

definition four_places :: "decimal \<Rightarrow> bool" where
  "four_places x \<longleftrightarrow> (\<exists>k. x = rat_of_int k / 10000)"

lemma four_places_round4 [simp]: "four_places (round4 x)"
proof -
  have "- (rat_of_int k / 10000) = rat_of_int (- k) / 10000" for k by simp
  then show ?thesis unfolding four_places_def round4_def by metis
qed

lemma four_places_simps [simp]:
  "four_places 0" "four_places x \<Longrightarrow> four_places y \<Longrightarrow> four_places (x + y)"
  "four_places x \<Longrightarrow> four_places y \<Longrightarrow> four_places (x - y)"
proof -
  show "four_places 0" by (auto simp: four_places_def intro: exI [of _ 0])
  show "four_places (x + y)" if "four_places x" "four_places y"
    using that by (auto simp: four_places_def) (metis add_divide_distrib of_int_add)
  show "four_places (x - y)" if "four_places x" "four_places y"
    using that by (auto simp: four_places_def) (metis diff_divide_distrib of_int_diff)
qed

lemma round4_exact [simp]:
  assumes "four_places x" shows "round4 x = x"
proof -
  obtain k where k: "x = rat_of_int k / 10000" using assms by (auto simp: four_places_def)
  have half: "\<lfloor>rat_of_int j + 1 / 2\<rfloor> = j" for j by linarith
  show ?thesis using half [of k] half [of "- k"] by (simp add: round4_def k)
qed

section \<open>Reading off a call\<close>

lemma sql_Ok [simp]:
  "sql f what stmt d n = (Inr y, d', n') \<longleftrightarrow> stmt_error f n = None \<and> stmt d = Inr (y, d') \<and> n' = n + 1"
  by (auto simp: sql_def split: option.splits sum.splits prod.splits)

lemma sql_read_Ok [simp]:
  "sql_read f what q d n = (Inr y, d', n') \<longleftrightarrow>
     stmt_error f n = None \<and> y = q d \<and> d' = d \<and> n' = n + 1"
  by (auto simp: sql_read_def)

lemma sql_fetch_Ok [simp]:
  "sql_fetch f what q d n = (Inr y, d', n') \<longleftrightarrow>
     stmt_error f n = None \<and> q d = Inr y \<and> d' = d \<and> n' = n + 1"
  by (auto simp: sql_fetch_def split: sum.splits)

lemma refuse_if_Ok [simp]:
  "refuse_if c e d n = (Inr y, d', n') \<longleftrightarrow> \<not> c \<and> d' = d \<and> n' = n"
  by (auto simp: refuse_if_def)

lemma some_or_Ok [simp]:
  "some_or e x d n = (Inr y, d', n') \<longleftrightarrow> x = Some y \<and> d' = d \<and> n' = n"
  by (auto simp: some_or_def split: option.splits)

text \<open>A committed call: its body succeeded on the tables.\<close>

lemma in_tenant_tx_Ok:
  "in_tenant_tx f opening closing body d = (Ok x, d') \<Longrightarrow> \<exists>n. body d 2 = (Inr x, d', n)"
  by (auto simp: in_tenant_tx_def tx_then_def tx_bind_def sql_read_def sql_def tx_return_def
      numeral_2_eq_2 split: prod.splits sum.splits option.splits)

lemma in_tenant_tx_Err: "in_tenant_tx f opening closing body d = (Err e, d') \<Longrightarrow> d' = d"
  by (auto simp: in_tenant_tx_def split: prod.splits sum.splits)

text \<open>What holds of the tables after a call: it holds of those found and after the body.\<close>

lemma in_tenant_tx_post:
  assumes "P d" and "\<And>x d' n. body d 2 = (Inr x, d', n) \<Longrightarrow> P d'"
  shows "P (snd (in_tenant_tx f opening closing body d))"
proof (cases "in_tenant_tx f opening closing body d")
  case (Pair r d')
  with assms show ?thesis
    by (cases r) (auto dest!: in_tenant_tx_Err in_tenant_tx_Ok)
qed

lemma in_tenant_tx_no_faults:
  assumes "stmt_error f = (\<lambda>_. None)"
  shows "in_tenant_tx f opening closing body d =
    (case body d 2 of (Inl e, d', n) \<Rightarrow> (Err e, d) | (Inr x, d', n) \<Rightarrow> (Ok x, d'))"
  using assms
  by (auto simp: in_tenant_tx_def tx_then_def tx_bind_def sql_read_def sql_def tx_return_def
      numeral_2_eq_2 split: prod.splits sum.splits)

text \<open>With a server that fails nothing, the steps compute.\<close>

lemma sql_no_faults:
  "stmt_error f = (\<lambda>_. None) \<Longrightarrow> sql f what stmt d n =
     (case stmt d of Inl e \<Rightarrow> (Inl (Database [Txt what, FStr e]), d, n + 1)
      | Inr (x, d') \<Rightarrow> (Inr x, d', n + 1))"
  by (simp add: sql_def)

lemma db_list_keeps: "snd (db_list f texts select order dec page per_page d) = d"
proof (cases "db_list f texts select order dec page per_page d")
  case (Pair r d')
  then show ?thesis
    by (cases r) (auto simp: db_list_def dest!: in_tenant_tx_Err in_tenant_tx_Ok split: prod.splits)
qed

lemma insert_row_Inr:
  "insert_row f clash r rows = Inr rows' \<longleftrightarrow> (\<forall>q \<in> set rows. \<not> clash q) \<and> rows' = rows @ [r]"
  by (auto simp: insert_row_def list_ex_iff)

lemma mset_order_by [simp]: "mset (order_by f key rows) = mset rows"
  for rows :: "'r list"
proof -
  have "mset (map snd (sort_key g ps)) = mset (map snd ps)" for g :: "nat \<times> 'r \<Rightarrow> nat" and ps
    by simp
  then show ?thesis unfolding order_by_def mset_sort by (simp only: map_snd_enumerate)
qed

lemma set_order_by [simp]: "set (order_by f key rows) = set rows"
  by (rule mset_eq_setD) simp

lemma sorted_order_by: "sorted (map key (order_by f key rows))"
  by (simp add: order_by_def)

lemma update_rows_fst:
  "fst (update_rows hit g rows) = Some r \<longleftrightarrow> (\<exists>q. find hit rows = Some q \<and> r = g q)"
  by (auto simp: update_rows_def)

lemma collect_Inr: "collect dec rs = Inr xs \<Longrightarrow> list_all2 (\<lambda>r x. dec r = Inr x) rs xs"
  by (induction rs arbitrary: xs) (auto split: sum.splits)

end
