(* ===== verification/Idempotency.thy ===== *)
theory Idempotency
  imports Sql_Model
begin

text \<open>
  The idempotency middleware (\<open>sensei-api/src/middleware/idempotency.rs\<close>): the cache key,
  the in-memory store, and the PostgreSQL protocol that several replicas run at once on the
  \<open>idempotency_records\<close> table. Every SQL statement is one atomic step, and the statements of
  different requests interleave freely; the mutex inside one process only removes some of these
  interleavings. The SHA-256 digest is a parameter.
\<close>

section \<open>The cache key\<close>

definition compute_cache_key ::
    "(string \<Rightarrow> string) \<Rightarrow> string \<Rightarrow> string \<Rightarrow> string \<Rightarrow> string \<Rightarrow> string \<Rightarrow> string" where
  "compute_cache_key sha tenant user method path key =
     sha (tenant @ ''|'' @ user @ ''|'' @ method @ ''|'' @ path @ ''|'' @ key)"

definition normalize_path :: "string \<Rightarrow> string" where
  "normalize_path path =
     (let trimmed = rev (dropWhile (\<lambda>c. c = CHR ''/'') (rev path))
      in if trimmed = [] then ''/'' else trimmed)"

definition MAX_CACHED_BODY_BYTES :: nat where
  "MAX_CACHED_BODY_BYTES = 1024 * 1024"

text \<open>
  What the middleware does with a request: run its handler unprotected, with the body or, if it
  could not be captured, with an empty one; or enter the protocol with a key and a body hash.
\<close>

datatype idem_entry = PassThrough | PassEmpty | Enter string string

definition idem_enter ::
    "(string \<Rightarrow> string) \<Rightarrow> string \<Rightarrow> string option \<Rightarrow> bool \<Rightarrow> (string \<times> string) option \<Rightarrow> string
      \<Rightarrow> string option \<Rightarrow> idem_entry" where
  "idem_enter sha method header has_store user path body =
     (if method \<notin> {''POST'', ''PUT'', ''PATCH''} then PassThrough
      else (case map_option trim header of
              None \<Rightarrow> PassThrough
            | Some key \<Rightarrow>
                if key = [] \<or> \<not> has_store then PassThrough
                else (let (u, t) = (case user of None \<Rightarrow> (''anonymous'', ''anonymous'') | Some x \<Rightarrow> x)
                      in case body of
                           None \<Rightarrow> PassEmpty
                         | Some bytes \<Rightarrow>
                             if MAX_CACHED_BODY_BYTES < length bytes then PassThrough
                             else Enter (compute_cache_key sha t u method (normalize_path path) key)
                                        (sha bytes))))"

section \<open>Records and answers\<close>

record stored_response =
  sr_status :: nat
  sr_headers :: "(string \<times> string) list"
  sr_body :: string
  sr_created :: int
  sr_hash :: string
  sr_in_progress :: bool

datatype claim =
    NewClaim
  | Replay stored_response
  | ReuseConflict
  | InProgress

record idem_row =
  ir_key :: string
  ir_hash :: string
  ir_state :: string
  ir_status :: "int option"
  ir_body :: "string option"
  ir_expires :: timestamp

text \<open>The handler's response; None if its body could not be read.\<close>

record http_response =
  hr_status :: nat
  hr_headers :: "(string \<times> string) list"
  hr_body :: "string option"

text \<open>The answer of the middleware: the handler's, a replay, or one of its refusals.\<close>

datatype idem_answer =
    Handled http_response
  | Replayed nat "(string \<times> string) list" string
  | KeyReuse
  | StillRunning
  | StoreUnavailable

section \<open>The in-memory store\<close>

type_synonym idem_store = "(string, stored_response) hmap"

definition idem_get :: "nat \<Rightarrow> int \<Rightarrow> string \<Rightarrow> idem_store \<Rightarrow> stored_response option" where
  "idem_get ttl now key m =
     (case hm_get m key of None \<Rightarrow> None
      | Some r \<Rightarrow> if sr_in_progress r \<or> int ttl \<le> now - sr_created r then None else Some r)"

definition memory_claim :: "int \<Rightarrow> string \<Rightarrow> string \<Rightarrow> idem_store \<Rightarrow> claim \<times> idem_store" where
  "memory_claim now key h m =
     (case hm_get m key of
        Some r \<Rightarrow> (if sr_in_progress r then InProgress
                 else if sr_hash r \<noteq> h then ReuseConflict else Replay r, m)
      | None \<Rightarrow> (NewClaim, hm_insert key \<lparr>sr_status = 0, sr_headers = [], sr_body = [], sr_created = now,
                   sr_hash = h, sr_in_progress = True\<rparr> m))"

definition memory_complete :: "string \<Rightarrow> stored_response \<Rightarrow> idem_store \<Rightarrow> idem_store" where
  "memory_complete key r m = hm_insert key r m"

definition memory_abort :: "string \<Rightarrow> idem_store \<Rightarrow> idem_store" where
  "memory_abort key m = hm_remove key m"

definition memory_evict :: "nat \<Rightarrow> int \<Rightarrow> idem_store \<Rightarrow> idem_store" where
  "memory_evict ttl now m = filter (\<lambda>(_, r). now - sr_created r < int ttl) m"

text \<open>The fate of a claim once the handler has answered.\<close>

datatype handler_outcome = Keep http_response | Abort http_response | Complete http_response stored_response

definition after_handler :: "int \<Rightarrow> string \<Rightarrow> http_response \<Rightarrow> handler_outcome" where
  "after_handler now h resp =
     (if 500 \<le> hr_status resp \<and> hr_status resp < 600 then Abort resp
      else (case hr_body resp of
              None \<Rightarrow> Keep (resp\<lparr>hr_body := Some []\<rparr>)
            | Some bytes \<Rightarrow>
                if MAX_CACHED_BODY_BYTES < length bytes then Keep resp
                else Complete resp \<lparr>sr_status = hr_status resp, sr_headers = hr_headers resp,
                       sr_body = bytes, sr_created = now, sr_hash = h, sr_in_progress = False\<rparr>))"

text \<open>
  A request in the development mode, with the instants at which it arrives and its handler ends;
  \<open>run\<close> is the handler on the state of the application.
\<close>

definition memory_request ::
    "nat \<Rightarrow> int \<Rightarrow> int \<Rightarrow> string \<Rightarrow> string \<Rightarrow> ('s \<Rightarrow> http_response \<times> 's) \<Rightarrow> idem_store \<times> 's
      \<Rightarrow> idem_answer \<times> idem_store \<times> 's" where
  "memory_request ttl now later key h run s =
     (case s of (m, app) \<Rightarrow>
       let protected = (case memory_claim now key h m of
             (Replay r, m1) \<Rightarrow> (Replayed (sr_status r) (sr_headers r) (sr_body r), m1, app)
           | (ReuseConflict, m1) \<Rightarrow> (KeyReuse, m1, app)
           | (InProgress, m1) \<Rightarrow> (StillRunning, m1, app)
           | (NewClaim, m1) \<Rightarrow>
               (case run app of (resp, app') \<Rightarrow>
                 (case after_handler later h resp of
                    Abort a \<Rightarrow> (Handled a, memory_abort key m1, app')
                  | Keep a \<Rightarrow> (Handled a, m1, app')
                  | Complete a r \<Rightarrow> (Handled a, memory_complete key r m1, app'))))
       in case idem_get ttl now key m of
            Some r \<Rightarrow> if sr_hash r = h then (Replayed (sr_status r) (sr_headers r) (sr_body r), m, app)
                     else protected
          | None \<Rightarrow> protected)"

section \<open>The statements on \<open>idempotency_records\<close>\<close>

definition has_key :: "string \<Rightarrow> idem_row list \<Rightarrow> bool" where
  "has_key key rows \<longleftrightarrow> list_ex (\<lambda>r. ir_key r = key) rows"

text \<open>\<open>INSERT ... ON CONFLICT (key) DO NOTHING\<close> where no row has the key.\<close>

definition claim_insert :: "string \<Rightarrow> string \<Rightarrow> timestamp \<Rightarrow> idem_row list \<Rightarrow> idem_row list" where
  "claim_insert key h expires rows =
     rows @ [\<lparr>ir_key = key, ir_hash = h, ir_state = ''in_progress'', ir_status = None, ir_body = None,
              ir_expires = expires\<rparr>]"

text \<open>\<open>SELECT ... WHERE key = $1 AND expires_at > NOW()\<close>\<close>

definition claim_select :: "timestamp \<Rightarrow> string \<Rightarrow> idem_row list \<Rightarrow> idem_row option" where
  "claim_select now key rows = find (\<lambda>r. ir_key r = key \<and> now < ir_expires r) rows"

text \<open>\<open>UPDATE ... WHERE key = $1 AND expires_at <= NOW()\<close>\<close>

definition reclaimable :: "timestamp \<Rightarrow> string \<Rightarrow> idem_row list \<Rightarrow> bool" where
  "reclaimable now key rows \<longleftrightarrow> list_ex (\<lambda>r. ir_key r = key \<and> ir_expires r \<le> now) rows"

definition claim_reclaim ::
    "timestamp \<Rightarrow> string \<Rightarrow> string \<Rightarrow> timestamp \<Rightarrow> idem_row list \<Rightarrow> idem_row list" where
  "claim_reclaim now key h expires rows =
     map (\<lambda>r. if ir_key r = key \<and> ir_expires r \<le> now
          then r\<lparr>ir_hash := h, ir_state := ''in_progress'', ir_status := None, ir_body := None,
                 ir_expires := expires\<rparr> else r) rows"

definition complete_row :: "string \<Rightarrow> stored_response \<Rightarrow> idem_row list \<Rightarrow> idem_row list" where
  "complete_row key r rows =
     map (\<lambda>q. if ir_key q = key
          then q\<lparr>ir_state := ''completed'', ir_status := Some (int (sr_status r)),
                 ir_body := Some (sr_body r)\<rparr> else q) rows"

definition abort_row :: "string \<Rightarrow> idem_row list \<Rightarrow> idem_row list" where
  "abort_row key rows = filter (\<lambda>r. ir_key r \<noteq> key) rows"

definition sweep_rows :: "timestamp \<Rightarrow> idem_row list \<Rightarrow> idem_row list" where
  "sweep_rows now rows = filter (\<lambda>r. \<not> ir_expires r < now) rows"

text \<open>
  The finance services (\<open>sensei-services/src/finance/database.rs\<close>) receive the key and
  touch the record inside their own transaction: they refuse when it is already completed, and
  complete it together with the business mutation, with status 200 and no body.
\<close>

definition reject_if_idempotency_completed :: "string option \<Rightarrow> idem_row list \<Rightarrow> unit res"
where
  "reject_if_idempotency_completed key rows =
     (case key of
        None \<Rightarrow> Ok ()
      | Some k \<Rightarrow>
          if map_option ir_state (find (\<lambda>r. ir_key r = k) rows) = Some ''completed''
          then Err (Conflict [Txt ''This request was already processed (idempotency key)''])
          else Ok ())"

definition complete_if_idempotent :: "string option \<Rightarrow> idem_row list \<Rightarrow> idem_row list" where
  "complete_if_idempotent key rows =
     (case key of
        None \<Rightarrow> rows
      | Some k \<Rightarrow> map (\<lambda>r. if ir_key r = k then r\<lparr>ir_state := ''completed'', ir_status := Some 200\<rparr> else r)
          rows)"

section \<open>Requests as processes\<close>

text \<open>
  Where a request stands: before one of the three statements of its claim, in its handler, or
  before the statement that ends the claim. Key, body hash and the expiry it wrote go along.
\<close>

datatype request_phase =
    Outside
  | Claiming string string timestamp
  | Looking string string timestamp
  | Reclaiming string string timestamp
  | Running string string timestamp
  | Completing string string timestamp http_response stored_response
  | Aborting string string timestamp http_response
  | Answered idem_answer

text \<open>
  What happens to a statement: it runs, or the server fails it, or it takes effect and the
  connection is lost before the answer.
\<close>

datatype fate = Ran | Failed | Unanswered

definition row_answer :: "string \<Rightarrow> idem_row \<Rightarrow> idem_answer" where
  "row_answer h r =
     (if ir_state r = ''completed'' then
        (if ir_hash r \<noteq> h then KeyReuse
         else Replayed (nat ((case ir_status r of None \<Rightarrow> 200 | Some c \<Rightarrow> c) mod 2 ^ 16)) []
                (case ir_body r of None \<Rightarrow> [] | Some b \<Rightarrow> b))
      else StillRunning)"

text \<open>The next statement of a request; the errors of the last statement are only logged.\<close>

fun next_statement ::
    "timestamp \<Rightarrow> fate \<Rightarrow> request_phase \<Rightarrow> idem_row list \<Rightarrow> request_phase \<times> idem_row list" where
  "next_statement now fate (Claiming key h e) rows =
     (if fate = Failed then (Answered StoreUnavailable, rows)
      else if has_key key rows
      then (if fate = Ran then Looking key h e else Answered StoreUnavailable, rows)
      else (if fate = Ran then Running key h e else Answered StoreUnavailable,
            claim_insert key h e rows))"
| "next_statement now fate (Looking key h e) rows =
     (if fate \<noteq> Ran then (Answered StoreUnavailable, rows)
      else (case claim_select now key rows of
              Some r \<Rightarrow> (Answered (row_answer h r), rows)
            | None \<Rightarrow> (Reclaiming key h e, rows)))"
| "next_statement now fate (Reclaiming key h e) rows =
     (if fate = Failed then (Answered StoreUnavailable, rows)
      else if reclaimable now key rows
      then (if fate = Ran then Running key h e else Answered StoreUnavailable,
            claim_reclaim now key h e rows)
      else (if fate = Ran then Answered StillRunning else Answered StoreUnavailable, rows))"
| "next_statement now fate (Completing key h e resp r) rows =
     (Answered (Handled resp), if fate = Failed then rows else complete_row key r rows)"
| "next_statement now fate (Aborting key h e resp) rows =
     (Answered (Handled resp), if fate = Failed then rows else abort_row key rows)"
| "next_statement now fate p rows = (p, rows)"

fun handler_done :: "int \<Rightarrow> http_response \<Rightarrow> request_phase \<Rightarrow> request_phase" where
  "handler_done instant resp (Running key h e) =
     (case after_handler instant h resp of
        Abort a \<Rightarrow> Aborting key h e a
      | Keep a \<Rightarrow> Answered (Handled a)
      | Complete a r \<Rightarrow> Completing key h e a r)"
| "handler_done instant resp p = p"

text \<open>The database time, the table, and the requests of all replicas.\<close>

record idem_system =
  is_now :: timestamp
  is_rows :: "idem_row list"
  is_requests :: "nat \<Rightarrow> request_phase"

text \<open>
  One step of the system. A request enters with an expiry from its replica's clock, which need
  not agree with the database's. While its handler runs, the transaction of a service may commit
  the record as completed (\<open>in_tx\<close>).
\<close>

inductive idem_step :: "idem_system \<Rightarrow> idem_system \<Rightarrow> bool" where
  tick: "is_now s \<le> t \<Longrightarrow> idem_step s (s\<lparr>is_now := t\<rparr>)"
| enter: "is_requests s w = Outside \<Longrightarrow>
    idem_step s (s\<lparr>is_requests := (is_requests s)(w := Claiming key h e)\<rparr>)"
| statement: "next_statement (is_now s) fate (is_requests s w) (is_rows s) = (p, rows) \<Longrightarrow>
    idem_step s (s\<lparr>is_rows := rows, is_requests := (is_requests s)(w := p)\<rparr>)"
| handler: "idem_step s (s\<lparr>is_requests :=
      (is_requests s)(w := handler_done instant resp (is_requests s w))\<rparr>)"
| in_tx: "is_requests s w = Running key h e \<Longrightarrow>
    idem_step s (s\<lparr>is_rows := complete_if_idempotent (Some key) (is_rows s)\<rparr>)"
| sweep: "idem_step s (s\<lparr>is_rows := sweep_rows (is_now s) (is_rows s)\<rparr>)"

inductive_cases idem_stepE: "idem_step s s'"

definition idem_start :: "timestamp \<Rightarrow> idem_system" where
  "idem_start now = \<lparr>is_now = now, is_rows = [], is_requests = (\<lambda>_. Outside)\<rparr>"

text \<open>The claim that a request holds: its handler runs or its record is still to be closed.\<close>

fun holding :: "request_phase \<Rightarrow> (string \<times> string \<times> timestamp) option" where
  "holding (Running key h e) = Some (key, h, e)"
| "holding (Completing key h e resp r) = Some (key, h, e)"
| "holding (Aborting key h e resp) = Some (key, h, e)"
| "holding p = None"

definition holds :: "idem_system \<Rightarrow> nat \<Rightarrow> string \<Rightarrow> bool" where
  "holds s w key \<longleftrightarrow> (\<exists>h e. holding (is_requests s w) = Some (key, h, e))"

text \<open>Every held claim is still ahead of its expiry: no handler outlives the TTL.\<close>

definition timely :: "idem_system \<Rightarrow> bool" where
  "timely s \<longleftrightarrow> (\<forall>w key h e. holding (is_requests s w) = Some (key, h, e) \<longrightarrow> is_now s < e)"

inductive timely_reachable :: "timestamp \<Rightarrow> idem_system \<Rightarrow> bool" for now where
  init: "timely_reachable now (idem_start now)"
| step: "timely_reachable now s \<Longrightarrow> idem_step s s' \<Longrightarrow> timely s' \<Longrightarrow> timely_reachable now s'"

section \<open>One holder per key\<close>

definition claim_row :: "idem_row list \<Rightarrow> string \<times> string \<times> timestamp \<Rightarrow> bool" where
  "claim_row rows c \<longleftrightarrow> (case c of (key, h, e) \<Rightarrow>
     \<exists>r \<in> set rows. ir_key r = key \<and> ir_hash r = h \<and> ir_expires r = e)"

definition claims_ok :: "idem_system \<Rightarrow> bool" where
  "claims_ok s \<longleftrightarrow> distinct (map ir_key (is_rows s))
     \<and> (\<forall>w c. holding (is_requests s w) = Some c \<longrightarrow> claim_row (is_rows s) c)
     \<and> (\<forall>w w' c c'. holding (is_requests s w) = Some c \<and> holding (is_requests s w') = Some c'
          \<and> fst c = fst c' \<longrightarrow> w = w')"

lemma claims_okI:
  assumes "distinct (map ir_key (is_rows s))"
    and "\<And>w c. holding (is_requests s w) = Some c \<Longrightarrow> claim_row (is_rows s) c"
    and "\<And>w w' c c'. holding (is_requests s w) = Some c \<Longrightarrow> holding (is_requests s w') = Some c'
          \<Longrightarrow> fst c = fst c' \<Longrightarrow> w = w'"
  shows "claims_ok s"
  unfolding claims_ok_def using assms by blast

lemma claims_okD:
  assumes "claims_ok s"
  shows "distinct (map ir_key (is_rows s))"
    and "\<And>w c. holding (is_requests s w) = Some c \<Longrightarrow> claim_row (is_rows s) c"
    and "\<And>w w' c c'. holding (is_requests s w) = Some c \<Longrightarrow> holding (is_requests s w') = Some c'
          \<Longrightarrow> fst c = fst c' \<Longrightarrow> w = w'"
  using assms unfolding claims_ok_def by blast+

lemma timelyD: "timely s \<Longrightarrow> holding (is_requests s w) = Some c \<Longrightarrow> is_now s < snd (snd c)"
  by (cases c) (auto simp: timely_def)

lemma has_key_iff: "has_key key rows \<longleftrightarrow> key \<in> ir_key ` set rows"
  by (auto simp: has_key_def list_ex_iff)

lemma keys_reclaim [simp]: "map ir_key (claim_reclaim now key h e rows) = map ir_key rows"
  by (induction rows) (auto simp: claim_reclaim_def)

lemma keys_complete [simp]: "map ir_key (complete_row key r rows) = map ir_key rows"
  by (induction rows) (auto simp: complete_row_def)

lemma complete_if_idempotent_keeps:
  "q \<in> set rows \<Longrightarrow> \<exists>q' \<in> set (complete_if_idempotent key rows). ir_key q' = ir_key q
     \<and> ir_hash q' = ir_hash q \<and> ir_expires q' = ir_expires q"
  by (induction rows) (auto simp: complete_if_idempotent_def split: option.splits)

lemma keys_in_tx [simp]: "map ir_key (complete_if_idempotent key rows) = map ir_key rows"
  by (induction rows) (auto simp: complete_if_idempotent_def split: option.splits)

lemma claim_row_in_tx: "claim_row rows c \<Longrightarrow> claim_row (complete_if_idempotent key rows) c"
  unfolding claim_row_def using complete_if_idempotent_keeps [of _ rows key]
  by (fastforce split: prod.splits)

text \<open>
  A step of request \<open>w\<close> keeps the invariant if it keeps the rows of the others' claims, and the
  claim that it newly holds has its row and no other holder.
\<close>

lemma claims_ok_change:
  assumes "claims_ok s" and "distinct (map ir_key rows)"
    and "\<And>w' c. w' \<noteq> w \<Longrightarrow> holding (is_requests s w') = Some c \<Longrightarrow> claim_row rows c"
    and "\<And>c. holding p = Some c \<Longrightarrow> claim_row rows c
           \<and> (\<forall>w' c'. w' \<noteq> w \<and> holding (is_requests s w') = Some c' \<longrightarrow> fst c' \<noteq> fst c)"
  shows "claims_ok (s\<lparr>is_rows := rows, is_requests := (is_requests s)(w := p)\<rparr>)"
proof (rule claims_okI)
  let ?s = "s\<lparr>is_rows := rows, is_requests := (is_requests s)(w := p)\<rparr>"
  show "distinct (map ir_key (is_rows ?s))" using assms(2) by simp
  show "claim_row (is_rows ?s) c" if "holding (is_requests ?s w1) = Some c" for w1 c
    using that assms(3) [of w1 c] assms(4) [of c] by (cases "w1 = w") simp_all
  show "w1 = w2" if "holding (is_requests ?s w1) = Some c" "holding (is_requests ?s w2) = Some c'"
      "fst c = fst c'" for w1 w2 c c'
  proof (cases "w1 = w"; cases "w2 = w")
    assume "w1 = w" "w2 \<noteq> w"
    with that have "holding p = Some c" "holding (is_requests s w2) = Some c'" by simp_all
    with assms(4) [of c] \<open>w2 \<noteq> w\<close> that(3) show ?thesis by metis
  next
    assume "w1 \<noteq> w" "w2 = w"
    with that have "holding (is_requests s w1) = Some c" "holding p = Some c'" by simp_all
    with assms(4) [of c'] \<open>w1 \<noteq> w\<close> that(3) show ?thesis by metis
  next
    assume "w1 \<noteq> w" "w2 \<noteq> w"
    with that claims_okD(3) [OF assms(1), of w1 c w2 c'] show ?thesis by simp
  qed simp
qed

lemma claim_row_mono: "claim_row rows c \<Longrightarrow> set rows \<subseteq> set rows' \<Longrightarrow> claim_row rows' c"
  by (auto simp: claim_row_def split: prod.splits)

lemma claim_row_other:
  assumes "claim_row rows c" and "\<And>r. r \<in> set rows \<Longrightarrow> ir_key r = fst c \<Longrightarrow> ir_expires r = snd (snd c) \<Longrightarrow> r \<in> set rows'"
  shows "claim_row rows' c"
  using assms by (fastforce simp: claim_row_def split: prod.splits)

lemma claim_row_reclaim:
  "q \<in> set rows \<Longrightarrow> ir_key q = key \<Longrightarrow> ir_expires q \<le> now
     \<Longrightarrow> claim_row (claim_reclaim now key h e rows) (key, h, e)"
  by (induction rows) (auto simp: claim_row_def claim_reclaim_def)

lemma claims_ok_statement:
  assumes ok: "claims_ok s" and timely: "timely s"
    and nx: "next_statement (is_now s) fate (is_requests s w) (is_rows s) = (p, rows)"
  shows "claims_ok (s\<lparr>is_rows := rows, is_requests := (is_requests s)(w := p)\<rparr>)"
proof -
  note dist = claims_okD(1) [OF ok] and row = claims_okD(2) [OF ok] and unique = claims_okD(3) [OF ok]
    and later = timelyD [OF timely]
  show ?thesis
  proof (rule claims_ok_change [OF ok])
    show "distinct (map ir_key rows)"
      using nx dist
      by (cases "is_requests s w")
        (auto simp: claim_insert_def has_key_iff abort_row_def distinct_map_filter
          split: if_splits option.splits)
  next
    fix w' c assume w': "w' \<noteq> w" and c: "holding (is_requests s w') = Some c"
    show "claim_row rows c"
    proof (rule claim_row_other [OF row [OF c]])
      fix r assume r: "r \<in> set (is_rows s)" "ir_key r = fst c" "ir_expires r = snd (snd c)"
      have "\<not> ir_expires r \<le> is_now s" using later [OF c] r(3) by simp
      moreover have "ir_key r \<noteq> key" if "holding (is_requests s w) = Some (key, h, e)" for key h e
        using unique [OF c that] w' r(2) by auto
      ultimately show "r \<in> set rows"
        using nx r(1)
        by (cases "is_requests s w")
          (auto simp: claim_insert_def claim_reclaim_def complete_row_def abort_row_def
            split: if_splits option.splits)
    qed
  next
    fix c assume c: "holding p = Some c"
    then obtain key h e where p: "p = Running key h e" "c = (key, h, e)"
      "is_requests s w = Claiming key h e \<and> \<not> has_key key (is_rows s) \<and> rows = claim_insert key h e (is_rows s)
       \<or> is_requests s w = Reclaiming key h e \<and> reclaimable (is_now s) key (is_rows s)
           \<and> rows = claim_reclaim (is_now s) key h e (is_rows s)
       \<or> (is_requests s w = p \<and> rows = is_rows s)"
      using nx by (cases "is_requests s w")
        (auto simp: eq_commute [of _ "is_requests s w"] split: if_splits option.splits)
    from p(3) show "claim_row rows c
       \<and> (\<forall>w' c'. w' \<noteq> w \<and> holding (is_requests s w') = Some c' \<longrightarrow> fst c' \<noteq> fst c)"
    proof (elim disjE conjE)
      assume "\<not> has_key key (is_rows s)" and rows: "rows = claim_insert key h e (is_rows s)"
      then have none: "fst c' \<noteq> key" if "holding (is_requests s w') = Some c'" for w' c'
        using row [OF that] by (auto simp: has_key_iff claim_row_def)
      have "claim_row rows c" using rows p(2) by (simp add: claim_row_def claim_insert_def)
      with none p(2) show ?thesis by (metis fst_conv)
    next
      assume re: "reclaimable (is_now s) key (is_rows s)"
        and rows: "rows = claim_reclaim (is_now s) key h e (is_rows s)"
      then obtain q where q: "q \<in> set (is_rows s)" "ir_key q = key" "ir_expires q \<le> is_now s"
        by (auto simp: reclaimable_def list_ex_iff)
      have inj: "inj_on ir_key (set (is_rows s))" using dist by (simp add: distinct_map)
      have none: "fst c' \<noteq> key" if "holding (is_requests s w') = Some c'" for w' c'
      proof
        assume "fst c' = key"
        with row [OF that] obtain r where r: "r \<in> set (is_rows s)" "ir_key r = key"
            "ir_expires r = snd (snd c')"
          by (auto simp: claim_row_def)
        have "r = q" using r q by (intro inj_onD [OF inj]) simp_all
        with r(3) q(3) later [OF that] show False by simp
      qed
      have "claim_row rows c"
        using claim_row_reclaim [OF q] rows p(2) by simp
      with none p(2) show ?thesis by (metis fst_conv)
    next
      assume "is_requests s w = p" and "rows = is_rows s"
      with c row unique show ?thesis by metis
    qed
  qed
qed

lemma holding_done:
  "holding (handler_done instant resp q) = Some c \<Longrightarrow> holding q = Some c"
  by (cases q) (auto split: handler_outcome.splits)

lemma claims_ok_step:
  assumes ok: "claims_ok s" and timely: "timely s" and "idem_step s s'"
  shows "claims_ok s'"
  using assms(3)
proof (cases rule: idem_step.cases)
  case (tick t)
  with ok show ?thesis by (simp add: claims_ok_def del: split_paired_All)
next
  case (enter w key h e)
  have "claims_ok (s\<lparr>is_rows := is_rows s, is_requests := (is_requests s)(w := Claiming key h e)\<rparr>)"
    using claims_okD(1,2) [OF ok] by (intro claims_ok_change [OF ok]) simp_all
  with enter show ?thesis by simp
next
  case (statement fate w p rows)
  with claims_ok_statement [OF ok timely] show ?thesis by simp
next
  case (handler w instant resp)
  have "claims_ok (s\<lparr>is_rows := is_rows s,
      is_requests := (is_requests s)(w := handler_done instant resp (is_requests s w))\<rparr>)"
  proof (rule claims_ok_change [OF ok claims_okD(1,2) [OF ok]])
    fix c assume "holding (handler_done instant resp (is_requests s w)) = Some c"
    then have c: "holding (is_requests s w) = Some c" by (rule holding_done)
    then show "claim_row (is_rows s) c
       \<and> (\<forall>w' c'. w' \<noteq> w \<and> holding (is_requests s w') = Some c' \<longrightarrow> fst c' \<noteq> fst c)"
      using claims_okD(2,3) [OF ok] by metis
  qed
  with handler show ?thesis by simp
next
  case (in_tx w key h e)
  show ?thesis unfolding in_tx
    using claims_okD [OF ok] by (intro claims_okI) (auto intro: claim_row_in_tx simp del: split_paired_All)
next
  case sweep
  show ?thesis unfolding sweep
  proof (rule claims_okI)
    let ?s = "s\<lparr>is_rows := sweep_rows (is_now s) (is_rows s)\<rparr>"
    show "distinct (map ir_key (is_rows ?s))"
      using claims_okD(1) [OF ok] by (simp add: sweep_rows_def distinct_map_filter)
    show "w = w'" if "holding (is_requests ?s w) = Some c" "holding (is_requests ?s w') = Some c'"
        "fst c = fst c'" for w w' c c'
      using that claims_okD(3) [OF ok, of w c w' c'] by simp
    fix w c assume "holding (is_requests ?s w) = Some c"
    then have c: "holding (is_requests s w) = Some c" by simp
    show "claim_row (is_rows ?s) c"
    proof (rule claim_row_other [OF claims_okD(2) [OF ok c]])
      fix r assume "r \<in> set (is_rows s)" "ir_expires r = snd (snd c)"
      with timelyD [OF timely c] show "r \<in> set (is_rows ?s)" by (simp add: sweep_rows_def)
    qed
  qed
qed

lemma timely_reachable_ok: "timely_reachable now s \<Longrightarrow> claims_ok s \<and> timely s"
proof (induction rule: timely_reachable.induct)
  case init
  show ?case by (simp add: idem_start_def claims_ok_def timely_def)
next
  case (step s s')
  with claims_ok_step show ?case by blast
qed

section \<open>Scripts of steps\<close>

datatype idem_event =
    Tick timestamp
  | Enters nat string string timestamp
  | Statement nat fate
  | HandlerDone nat int http_response
  | InTx nat
  | Sweep

fun idem_apply :: "idem_event \<Rightarrow> idem_system \<Rightarrow> idem_system" where
  "idem_apply (Tick t) s = (if is_now s \<le> t then s\<lparr>is_now := t\<rparr> else s)"
| "idem_apply (Enters w key h e) s =
     (if is_requests s w = Outside
      then s\<lparr>is_requests := (is_requests s)(w := Claiming key h e)\<rparr> else s)"
| "idem_apply (Statement w fate) s =
     (case next_statement (is_now s) fate (is_requests s w) (is_rows s) of
        (p, rows) \<Rightarrow> s\<lparr>is_rows := rows, is_requests := (is_requests s)(w := p)\<rparr>)"
| "idem_apply (HandlerDone w instant resp) s =
     s\<lparr>is_requests := (is_requests s)(w := handler_done instant resp (is_requests s w))\<rparr>"
| "idem_apply (InTx w) s =
     (case is_requests s w of
        Running key h e \<Rightarrow> s\<lparr>is_rows := complete_if_idempotent (Some key) (is_rows s)\<rparr>
      | _ \<Rightarrow> s)"
| "idem_apply Sweep s = s\<lparr>is_rows := sweep_rows (is_now s) (is_rows s)\<rparr>"

lemma idem_apply_step: "idem_apply ev s = s \<or> idem_step s (idem_apply ev s)"
  by (cases ev) (auto intro: idem_step.intros split: prod.split request_phase.split)

lemma idem_script_steps: "idem_step\<^sup>*\<^sup>* s (fold idem_apply evs s)"
proof (induction evs arbitrary: s)
  case (Cons ev evs)
  with idem_apply_step [of ev s] show ?case
    by (metis converse_rtranclp_into_rtranclp fold_simps(2))
qed simp

text \<open>A script whose states are all timely reaches its end in time.\<close>

fun timely_script :: "idem_event list \<Rightarrow> idem_system \<Rightarrow> bool" where
  "timely_script [] s = True"
| "timely_script (ev # evs) s = (timely (idem_apply ev s) \<and> timely_script evs (idem_apply ev s))"

lemma timely_script_reachable:
  "timely_reachable now s \<Longrightarrow> timely_script evs s \<Longrightarrow> timely_reachable now (fold idem_apply evs s)"
proof (induction evs arbitrary: s)
  case (Cons ev evs)
  then have "timely_reachable now (idem_apply ev s)"
    using idem_apply_step [of ev s] by (auto intro: timely_reachable.step)
  with Cons show ?case by simp
qed simp

definition demo_response :: http_response where
  "demo_response = \<lparr>hr_status = 201, hr_headers = [], hr_body = Some ''ok''\<rparr>"

text \<open>Two replicas receive the same request; the first one runs it.\<close>

definition demo_events :: "idem_event list" where
  "demo_events = [Enters 0 ''k'' ''h'' 10, Enters 1 ''k'' ''h'' 12, Statement 0 Ran, Statement 1 Ran]"

definition demo_race :: idem_system where
  "demo_race = fold idem_apply demo_events (idem_start 0)"

lemma demo_race_sel:
  "is_now demo_race = 0" "is_requests demo_race 0 = Running ''k'' ''h'' 10"
  "is_requests demo_race 1 = Looking ''k'' ''h'' 12"
  "is_rows demo_race = claim_insert ''k'' ''h'' 10 []"
  by (simp_all add: demo_race_def demo_events_def idem_start_def has_key_def claim_insert_def)

lemma demo_race_reachable: "timely_reachable 0 demo_race"
  unfolding demo_race_def
  by (rule timely_script_reachable [OF timely_reachable.init])
    (auto simp: demo_events_def idem_start_def timely_def has_key_def claim_insert_def split: if_splits)

text \<open>C8.
  A request with an idempotency key is executed by one replica at a time. In every state that the
  replicas reach by interleaving their statements in any order, with statements that fail or
  lose their answer, clocks that disagree, handlers that fail or complete the record inside
  their own transaction, and sweeps, at most one request holds the claim on a key, provided that
  no claim is held past its expiry; the record of the key then carries its hash and expiry.
\<close>

theorem one_holder_per_key:
  assumes "timely_reachable now s"
  shows "(\<forall>w w'. holds s w key \<and> holds s w' key \<longrightarrow> w = w')
    \<and> (\<forall>w h e. holding (is_requests s w) = Some (key, h, e) \<longrightarrow>
         (\<exists>r \<in> set (is_rows s). ir_key r = key \<and> ir_hash r = h \<and> ir_expires r = e))"
proof -
  have ok: "claims_ok s" using timely_reachable_ok [OF assms] by simp
  have "w = w'" if "holding (is_requests s w) = Some (key, h, e)"
      "holding (is_requests s w') = Some (key, h', e')" for w w' h h' e e'
    using claims_okD(3) [OF ok that] by simp
  moreover have "claim_row (is_rows s) (key, h, e)" if "holding (is_requests s w) = Some (key, h, e)"
    for w h e
    using claims_okD(2) [OF ok that] .
  ultimately show ?thesis unfolding holds_def claim_row_def by (simp del: ex_simps) blast
qed

lemma one_holder_per_key_witness:
  "holds demo_race 0 ''k'' \<and> \<not> holds demo_race 1 ''k''"
proof -
  have "holds demo_race 0 ''k''" by (simp add: holds_def demo_race_sel)
  with one_holder_per_key [OF demo_race_reachable, of "''k''"] show ?thesis
    by (metis zero_neq_one)
qed

section \<open>A completed request is replayed\<close>

text \<open>The key has its completed record, and nobody holds a claim on it.\<close>

definition completed_row :: "string \<Rightarrow> string \<Rightarrow> timestamp \<Rightarrow> stored_response \<Rightarrow> idem_row \<Rightarrow> bool" where
  "completed_row key h e r q \<longleftrightarrow> ir_key q = key \<and> ir_hash q = h \<and> ir_expires q = e
     \<and> ir_state q = ''completed'' \<and> ir_status q = Some (int (sr_status r)) \<and> ir_body q = Some (sr_body r)"

definition settled :: "string \<Rightarrow> string \<Rightarrow> timestamp \<Rightarrow> stored_response \<Rightarrow> idem_system \<Rightarrow> bool" where
  "settled key h e r s \<longleftrightarrow> distinct (map ir_key (is_rows s))
     \<and> (\<exists>q \<in> set (is_rows s). completed_row key h e r q)
     \<and> (\<forall>w. \<not> holds s w key)"

lemma settled_unique:
  "settled key h e r s \<Longrightarrow> q \<in> set (is_rows s) \<Longrightarrow> ir_key q = key \<Longrightarrow> completed_row key h e r q"
  unfolding settled_def by (metis (no_types, lifting) completed_row_def distinct_map inj_onD)

lemma settledI:
  assumes "distinct (map ir_key (is_rows s))" and "q \<in> set (is_rows s)" and "completed_row key h e r q"
    and "\<And>w c. holding (is_requests s w) = Some c \<Longrightarrow> fst c \<noteq> key"
  shows "settled key h e r s"
  unfolding settled_def holds_def using assms by (metis fst_conv)

lemma settled_not_holding:
  "settled key h e r s \<Longrightarrow> holding (is_requests s w) = Some c \<Longrightarrow> fst c \<noteq> key"
  unfolding settled_def holds_def by (metis prod.collapse)

lemma settled_statement:
  assumes st: "settled key h e r s" and "is_now s < e"
    and nx: "next_statement (is_now s) fate (is_requests s w) (is_rows s) = (p, rows)"
  shows "settled key h e r (s\<lparr>is_rows := rows, is_requests := (is_requests s)(w := p)\<rparr>)"
proof -
  obtain q where q: "q \<in> set (is_rows s)" "completed_row key h e r q"
    and dist: "distinct (map ir_key (is_rows s))"
    using st by (auto simp: settled_def)
  have key: "ir_key q = key" "\<not> ir_expires q \<le> is_now s" using q(2) assms(2) by (auto simp: completed_row_def)
  have present: "has_key key (is_rows s)" using q(1) key(1) by (auto simp: has_key_iff)
  have fixed: "\<not> reclaimable (is_now s) key (is_rows s)"
    using settled_unique [OF st] assms(2) by (fastforce simp: reclaimable_def list_ex_iff completed_row_def)
  have others: "k \<noteq> key" if "holding (is_requests s w) = Some (k, h', e')" for k h' e'
    using settled_not_holding [OF st that] by simp
  show ?thesis
  proof (rule settledI)
    show "distinct (map ir_key (is_rows (s\<lparr>is_rows := rows, is_requests := (is_requests s)(w := p)\<rparr>)))"
      using nx dist
      by (cases "is_requests s w")
        (auto simp: claim_insert_def has_key_iff abort_row_def distinct_map_filter
          split: if_splits option.splits)
    show "q \<in> set (is_rows (s\<lparr>is_rows := rows, is_requests := (is_requests s)(w := p)\<rparr>))"
      using nx q(1) key others
      by (cases "is_requests s w")
        (auto simp: claim_insert_def claim_reclaim_def complete_row_def abort_row_def
          split: if_splits option.splits)
    show "completed_row key h e r q" by (rule q(2))
    show "fst c \<noteq> key"
      if "holding (is_requests (s\<lparr>is_rows := rows, is_requests := (is_requests s)(w := p)\<rparr>) w') = Some c" for w' c
    proof (cases "w' = w")
      case True
      with that nx present fixed settled_not_holding [OF st, of w c] show ?thesis
        by (cases "is_requests s w") (auto split: if_splits option.splits)
    next
      case False
      with that settled_not_holding [OF st] show ?thesis by simp
    qed
  qed
qed

lemma settled_step:
  assumes st: "settled key h e r s" and "idem_step s s'" and "is_now s' < e"
  shows "settled key h e r s'"
  using assms(2)
proof (cases rule: idem_step.cases)
  case (tick t)
  with st show ?thesis by (simp add: settled_def holds_def)
next
  case (enter w k h' e')
  with st show ?thesis by (simp add: settled_def holds_def)
next
  case (statement fate w p rows)
  with settled_statement [OF st _ statement(2)] assms(3) show ?thesis by simp
next
  case (handler w instant resp)
  then show ?thesis using st holding_done [of instant resp "is_requests s w"]
    by (auto simp: settled_def holds_def)
next
  case (in_tx w k h' e')
  then have "k \<noteq> key" using settled_not_holding [OF st, of w "(k, h', e')"] by simp
  moreover obtain q where "q \<in> set (is_rows s)" "completed_row key h e r q" using st by (auto simp: settled_def)
  ultimately have "q \<in> set (complete_if_idempotent (Some k) (is_rows s))" "completed_row key h e r q"
    by (force simp: complete_if_idempotent_def completed_row_def)+
  then show ?thesis using st unfolding in_tx settled_def holds_def by auto
next
  case sweep
  obtain q where "q \<in> set (is_rows s)" "completed_row key h e r q" using st by (auto simp: settled_def)
  moreover from this assms(3) have "q \<in> set (sweep_rows (is_now s) (is_rows s))"
    unfolding sweep by (simp add: sweep_rows_def completed_row_def)
  ultimately show ?thesis using st unfolding sweep settled_def holds_def
    by (auto simp: sweep_rows_def distinct_map_filter)
qed

lemma time_forward: "idem_step s s' \<Longrightarrow> is_now s \<le> is_now s'"
  by (cases rule: idem_step.cases) auto

lemma settled_steps:
  assumes "idem_step\<^sup>*\<^sup>* s s'" and "settled key h e r s" and "is_now s' < e"
  shows "settled key h e r s'"
proof -
  have "is_now s' < e \<longrightarrow> settled key h e r s'" using assms(1)
  proof (induction rule: rtranclp_induct)
    case base
    with assms(2) show ?case by simp
  next
    case (step s1 s2)
    then show ?case using time_forward [OF step(2)] settled_step [OF _ step(2)] by fastforce
  qed
  with assms(3) show ?thesis by simp
qed

lemma settled_answer:
  assumes "settled key h e r s" and "is_now s < e"
  shows "next_statement (is_now s) Ran (Claiming key h' e') (is_rows s) = (Looking key h' e', is_rows s)"
    and "next_statement (is_now s) Ran (Looking key h' e') (is_rows s)
      = (Answered (if h' = h then Replayed (sr_status r mod 2 ^ 16) [] (sr_body r) else KeyReuse), is_rows s)"
proof -
  obtain q where q: "q \<in> set (is_rows s)" "completed_row key h e r q"
    using assms(1) by (auto simp: settled_def)
  then show "next_statement (is_now s) Ran (Claiming key h' e') (is_rows s) = (Looking key h' e', is_rows s)"
    by (auto simp: has_key_iff completed_row_def)
  have "claim_select (is_now s) key (is_rows s) \<noteq> None"
    using q assms(2) by (auto simp: claim_select_def find_None_iff completed_row_def)
  then obtain q' where sel: "claim_select (is_now s) key (is_rows s) = Some q'" by blast
  then have "q' \<in> set (is_rows s)" "ir_key q' = key" by (auto simp: claim_select_def find_Some_iff)
  then have "completed_row key h e r q'" using settled_unique [OF assms(1)] by blast
  moreover have "nat (int n mod 65536) = n mod 65536" for n :: nat
    by (simp add: nat_mod_as_int)
  ultimately show "next_statement (is_now s) Ran (Looking key h' e') (is_rows s)
      = (Answered (if h' = h then Replayed (sr_status r mod 2 ^ 16) [] (sr_body r) else KeyReuse), is_rows s)"
    using sel by (auto simp: row_answer_def completed_row_def)
qed

lemma complete_row_marks:
  "q \<in> set rows \<Longrightarrow> ir_key q = key
     \<Longrightarrow> \<exists>q' \<in> set (complete_row key r rows). completed_row key (ir_hash q) (ir_expires q) r q'"
  by (induction rows) (auto simp: complete_row_def completed_row_def)

lemma settled_after_completion:
  assumes "claims_ok s" and w: "is_requests s w = Completing key h e resp r"
  shows "settled key h e r (s\<lparr>is_rows := complete_row key r (is_rows s),
     is_requests := (is_requests s)(w := Answered (Handled resp))\<rparr>)"
proof -
  have c: "holding (is_requests s w) = Some (key, h, e)" using w by simp
  obtain q where q: "q \<in> set (is_rows s)" "ir_key q = key" "ir_hash q = h" "ir_expires q = e"
    using claims_okD(2) [OF assms(1) c] by (auto simp: claim_row_def)
  have closed: "\<exists>q' \<in> set (complete_row key r (is_rows s)). completed_row key h e r q'"
    using complete_row_marks [OF q(1,2)] q(3,4) by simp
  then obtain q' where "q' \<in> set (complete_row key r (is_rows s))" "completed_row key h e r q'" by blast
  then show ?thesis
  proof (intro settledI)
    show "distinct (map ir_key (is_rows (s\<lparr>is_rows := complete_row key r (is_rows s),
        is_requests := (is_requests s)(w := Answered (Handled resp))\<rparr>)))"
      using claims_okD(1) [OF assms(1)] by simp
    fix w' c' assume "holding (is_requests (s\<lparr>is_rows := complete_row key r (is_rows s),
        is_requests := (is_requests s)(w := Answered (Handled resp))\<rparr>) w') = Some c'"
    then have "w' \<noteq> w" "holding (is_requests s w') = Some c'" by (auto split: if_splits)
    with claims_okD(3) [OF assms(1) this(2) c] show "fst c' \<noteq> key" by auto
  qed auto
qed

text \<open>C9.
  A request that the middleware has completed is not executed again. Once the middleware's own
  UPDATE has stored the response of the request that holds the claim on a key (\<open>Completing\<close>), in a state
  that the replicas reach in time, then, whatever they do afterwards and until the record expires,
  no request holds the claim on the key, and each further request with the key whose statements
  run is answered from the record: with the stored status and body if its body has the same hash,
  with the key-reuse refusal if not. (Not claimed of a record that only a service has completed in its
  transaction: the request that did so still holds the claim, and if it then fails the record is
  deleted.)
\<close>

theorem completed_is_replayed:
  assumes "timely_reachable now s" and "is_requests s w = Completing key h e resp r"
    and "next_statement (is_now s) Ran (is_requests s w) (is_rows s) = (p, rows)"
    and "idem_step\<^sup>*\<^sup>* (s\<lparr>is_rows := rows, is_requests := (is_requests s)(w := p)\<rparr>) s'"
    and "is_now s' < e"
  shows "(\<forall>w'. \<not> holds s' w' key)
    \<and> next_statement (is_now s') Ran (Claiming key h' e') (is_rows s') = (Looking key h' e', is_rows s')
    \<and> next_statement (is_now s') Ran (Looking key h' e') (is_rows s')
        = (Answered (if h' = h then Replayed (sr_status r mod 2 ^ 16) [] (sr_body r) else KeyReuse),
           is_rows s')"
proof -
  have "claims_ok s" using timely_reachable_ok [OF assms(1)] by simp
  then have "settled key h e r (s\<lparr>is_rows := rows, is_requests := (is_requests s)(w := p)\<rparr>)"
    using settled_after_completion [OF _ assms(2)] assms(2,3) by simp
  then have "settled key h e r s'" using settled_steps [OF assms(4) _ assms(5)] by blast
  from settled_answer [OF this assms(5)] this show ?thesis unfolding settled_def by blast
qed

text \<open>The first replica completes; the second one, which was looking, gets the replay.\<close>

definition demo_stored :: stored_response where
  "demo_stored = \<lparr>sr_status = 201, sr_headers = [], sr_body = ''ok'', sr_created = 5, sr_hash = ''h'',
     sr_in_progress = False\<rparr>"

definition demo_completing :: idem_system where
  "demo_completing = fold idem_apply (demo_events @ [HandlerDone 0 5 demo_response]) (idem_start 0)"

lemma demo_completing_sel:
  "is_now demo_completing = 0"
  "is_requests demo_completing 0 = Completing ''k'' ''h'' 10 demo_response demo_stored"
  "is_rows demo_completing = claim_insert ''k'' ''h'' 10 []"
  by (simp_all add: demo_completing_def demo_events_def idem_start_def has_key_def claim_insert_def
      after_handler_def demo_response_def demo_stored_def MAX_CACHED_BODY_BYTES_def)

lemma demo_completing_reachable: "timely_reachable 0 demo_completing"
  unfolding demo_completing_def
  by (rule timely_script_reachable [OF timely_reachable.init])
    (auto simp: demo_events_def idem_start_def timely_def has_key_def claim_insert_def after_handler_def
      demo_response_def MAX_CACHED_BODY_BYTES_def split: if_splits)

lemma completed_is_replayed_witness:
  "next_statement 7 Ran (Looking ''k'' ''h'' 12) (complete_row ''k'' demo_stored (claim_insert ''k'' ''h'' 10 []))
     = (Answered (Replayed 201 [] ''ok''), complete_row ''k'' demo_stored (claim_insert ''k'' ''h'' 10 []))"
proof -
  let ?s1 = "demo_completing\<lparr>is_rows := complete_row ''k'' demo_stored (is_rows demo_completing),
      is_requests := (is_requests demo_completing)(0 := Answered (Handled demo_response))\<rparr>"
  have "idem_step ?s1 (?s1\<lparr>is_now := 7\<rparr>)" by (rule idem_step.tick) (simp add: demo_completing_sel)
  then have "idem_step\<^sup>*\<^sup>* ?s1 (?s1\<lparr>is_now := 7\<rparr>)" by blast
  from completed_is_replayed [OF demo_completing_reachable demo_completing_sel(2) _ this,
      where h' = "''h''" and e' = 12]
  show ?thesis by (simp add: demo_completing_sel demo_stored_def)
qed

section \<open>What happens when a handler outlives its claim\<close>

text \<open>
  The statements that end a claim name the key only, not the claim. A request whose claim has
  expired and was taken over still deletes the record when its handler fails: the second holder
  loses its protection, and a third request executes beside it.
\<close>

definition failed_response :: http_response where
  "failed_response = \<lparr>hr_status = 500, hr_headers = [], hr_body = Some []\<rparr>"

lemma late_abort_unprotects:
  "\<exists>s. idem_step\<^sup>*\<^sup>* (idem_start 0) s \<and> is_now s = 20
    \<and> is_requests s 1 = Running ''k'' ''h'' 30 \<and> is_requests s 2 = Running ''k'' ''h'' 40"
proof (intro exI conjI)
  let ?evs = "[Enters 0 ''k'' ''h'' 10, Statement 0 Ran, Tick 20, Enters 1 ''k'' ''h'' 30, Statement 1 Ran,
    Statement 1 Ran, Statement 1 Ran, HandlerDone 0 5 failed_response, Statement 0 Ran,
    Enters 2 ''k'' ''h'' 40, Statement 2 Ran]"
  show "idem_step\<^sup>*\<^sup>* (idem_start 0) (fold idem_apply ?evs (idem_start 0))"
    by (rule idem_script_steps)
  show "is_now (fold idem_apply ?evs (idem_start 0)) = 20"
    "is_requests (fold idem_apply ?evs (idem_start 0)) 1 = Running ''k'' ''h'' 30"
    "is_requests (fold idem_apply ?evs (idem_start 0)) 2 = Running ''k'' ''h'' 40"
    by (simp_all add: idem_start_def has_key_def claim_insert_def claim_select_def reclaimable_def
        claim_reclaim_def abort_row_def after_handler_def failed_response_def)
qed

text \<open>
  A service that completes the record in its transaction does so without the response: a retry
  that arrives before the middleware has stored it gets status 200 and an empty body, whatever
  the handler answers (here 201).
\<close>

lemma retry_before_response:
  "\<exists>s. idem_step\<^sup>*\<^sup>* (idem_start 0) s \<and> is_requests s 0 = Completing ''k'' ''h'' 10 demo_response demo_stored
    \<and> is_requests s 1 = Answered (Replayed 200 [] [])"
proof (intro exI conjI)
  let ?evs = "demo_events @ [InTx 0, Statement 1 Ran, HandlerDone 0 5 demo_response]"
  show "idem_step\<^sup>*\<^sup>* (idem_start 0) (fold idem_apply ?evs (idem_start 0))"
    by (rule idem_script_steps)
  show "is_requests (fold idem_apply ?evs (idem_start 0)) 0 = Completing ''k'' ''h'' 10 demo_response demo_stored"
    "is_requests (fold idem_apply ?evs (idem_start 0)) 1 = Answered (Replayed 200 [] [])"
    by (simp_all add: demo_events_def idem_start_def has_key_def claim_insert_def claim_select_def
        complete_if_idempotent_def row_answer_def after_handler_def demo_response_def demo_stored_def
        MAX_CACHED_BODY_BYTES_def)
qed

text \<open>
  And if that handler then answers with an error of the server, the middleware deletes the
  completed record, although the transaction that completed it has committed: the next request
  with the key executes again.
\<close>

lemma completed_in_tx_deleted:
  "\<exists>s. idem_step\<^sup>*\<^sup>* (idem_start 0) s \<and> map ir_state (is_rows s) = [''in_progress'']
    \<and> is_requests s 0 = Answered (Handled failed_response) \<and> is_requests s 2 = Running ''k'' ''h'' 20"
proof (intro exI conjI)
  let ?evs = "demo_events @ [InTx 0, HandlerDone 0 5 failed_response, Statement 0 Ran,
    Enters 2 ''k'' ''h'' 20, Statement 2 Ran]"
  show "idem_step\<^sup>*\<^sup>* (idem_start 0) (fold idem_apply ?evs (idem_start 0))"
    by (rule idem_script_steps)
  show "map ir_state (is_rows (fold idem_apply ?evs (idem_start 0))) = [''in_progress'']"
    "is_requests (fold idem_apply ?evs (idem_start 0)) 0 = Answered (Handled failed_response)"
    "is_requests (fold idem_apply ?evs (idem_start 0)) 2 = Running ''k'' ''h'' 20"
    by (simp_all add: demo_events_def idem_start_def has_key_def claim_insert_def
        complete_if_idempotent_def abort_row_def after_handler_def failed_response_def)
qed

text \<open>
  A response that is too large to be cached leaves its claim in progress: until the record
  expires every retry is refused as still running.
\<close>

lemma oversized_response_blocks:
  assumes "hr_status resp < 500" and "hr_body resp = Some b" and "MAX_CACHED_BODY_BYTES < length b"
  shows "handler_done instant resp (Running key h e) = Answered (Handled resp)"
  using assms by (simp add: after_handler_def)

text \<open>Neither part of the cache key is escaped: a bar moves between the path and the key.\<close>

lemma cache_key_ambiguous:
  "compute_cache_key sha t u m ''/a|b'' ''c'' = compute_cache_key sha t u m ''/a'' ''b|c''"
  by (simp add: compute_cache_key_def)

section \<open>The development mode replays too\<close>

lemma memory_replays:
  assumes "hm_get m key = None" and "run app = (resp, app1)"
    and "after_handler later h resp = Complete resp r"
    and "memory_request ttl now later key h run (m, app) = (ans, m', app')"
    and "now' - later < int ttl"
  shows "ans = Handled resp \<and> app' = app1
    \<and> memory_request ttl now' later' key h run' (m', app')
        = (Replayed (sr_status r) (sr_headers r) (sr_body r), m', app')"
proof -
  have r: "sr_created r = later" "sr_hash r = h" "\<not> sr_in_progress r"
    using assms(3) by (auto simp: after_handler_def split: if_splits option.splits)
  have "memory_request ttl now later key h run (m, app)
      = (Handled resp, hm_insert key r (snd (memory_claim now key h m)), app1)"
    using assms(1-3) by (simp add: memory_request_def Let_def idem_get_def memory_claim_def memory_complete_def)
  with assms(4) have *: "ans = Handled resp" "app' = app1" "hm_get m' key = Some r" by auto
  then show ?thesis using r assms(5) by (simp add: memory_request_def Let_def idem_get_def)
qed

end
