(* ===== verification/Finance_Db.thy ===== *)
theory Finance_Db
  imports Tenant_Db Idempotency
begin

text \<open>
  The database-backed finance service (\<open>sensei-services/src/finance/database.rs\<close>) on the
  tables of migrations 002, 059, 064, 067 and 069, with the request and response types of
  \<open>sensei-contracts/src/finance.rs\<close>. Money is exact until a \<open>NUMERIC(19,4)\<close> column
  rounds it.
\<close>

section \<open>Requests, documents, tables\<close>

record create_invoice_line_item =
  cl_description :: string
  cl_quantity :: int
  cl_unit_price :: decimal
  cl_product :: "uuid option"

record create_invoice_request =
  cr_customer :: uuid
  cr_customer_name :: string
  cr_items :: "create_invoice_line_item list"
  cr_tax_percentage :: decimal
  cr_currency :: string
  cr_due :: timestamp
  cr_notes :: string

record record_payment_request =
  rp_invoice :: uuid
  rp_amount :: decimal
  rp_currency :: string
  rp_method :: string
  rp_reference :: string

record invoice_line_item =
  il_description :: string
  il_quantity :: int
  il_unit_price :: decimal
  il_total :: decimal
  il_product :: "uuid option"

text \<open>
  The JSON column of a row holds what reading it back gives: the items or an error text; the
  document holds the items.
\<close>

record 'items invoice_of =
  iv_id :: uuid
  iv_tenant :: uuid
  iv_number :: string
  iv_customer :: uuid
  iv_customer_name :: string
  iv_status :: string
  iv_items :: 'items
  iv_subtotal :: decimal
  iv_tax_percentage :: decimal
  iv_tax_amount :: decimal
  iv_total :: decimal
  iv_currency :: string
  iv_due :: timestamp
  iv_paid_at :: "timestamp option"
  iv_notes :: string
  iv_created_by :: uuid
  iv_created_at :: timestamp

type_synonym invoice = "invoice_line_item list invoice_of"
type_synonym invoice_row = "(string + invoice_line_item list) invoice_of"

text \<open>The invoice of a payment row is NULL once the invoice was deleted under it.\<close>

record 'inv payment_of =
  py_id :: uuid
  py_tenant :: uuid
  py_number :: string
  py_invoice :: 'inv
  py_amount :: decimal
  py_currency :: string
  py_method :: string
  py_reference :: string
  py_received_at :: timestamp
  py_created_by :: uuid

type_synonym payment = "uuid payment_of"
type_synonym payment_row = "uuid option payment_of"

record budget =
  bg_id :: uuid
  bg_tenant :: uuid
  bg_fiscal_year :: int
  bg_department :: string
  bg_category :: string
  bg_allocated :: decimal
  bg_spent :: decimal
  bg_remaining :: decimal

record journal_entry =
  je_id :: uuid
  je_tenant :: uuid
  je_number :: string
  je_description :: string
  je_debit :: string
  je_credit :: string
  je_amount :: decimal
  je_currency :: string
  je_date :: timestamp
  je_posted_by :: uuid

record journal_row = journal_entry +
  jr_status :: string
  jr_posted_at :: "timestamp option"
  jr_reversal_of :: "uuid option"

record cost_rollup =
  cu_id :: uuid
  cu_tenant :: uuid
  cu_product :: uuid
  cu_product_name :: string
  cu_material :: decimal
  cu_labor :: decimal
  cu_overhead :: decimal
  cu_total :: decimal
  cu_date :: timestamp

record audit_row =
  au_id :: uuid
  au_tenant :: uuid
  au_actor :: uuid
  au_action :: string
  au_entity_type :: string
  au_entity :: uuid
  au_metadata :: json

record outbox_row =
  ob_id :: uuid
  ob_tenant :: uuid
  ob_aggregate_type :: string
  ob_aggregate :: uuid
  ob_event_type :: string
  ob_payload :: json

text \<open>The tables that are only read: products, bills of material, routings, purchasing.\<close>

record product_row =
  pd_id :: uuid
  pd_tenant :: uuid
  pd_name :: string
  pd_standard_cost :: "decimal option"

record bom_row =
  bo_tenant :: uuid
  bo_parent :: uuid
  bo_component :: uuid
  bo_quantity :: decimal
  bo_active :: bool

record routing_row =
  ro_tenant :: uuid
  ro_product :: uuid
  ro_work_center :: uuid
  ro_standard_time :: decimal
  ro_active :: bool

record po_line_row =
  pl_tenant :: uuid
  pl_po :: uuid
  pl_product :: uuid
  pl_quantity :: decimal
  pl_received :: decimal

record receipt_row =
  gr_id :: uuid
  gr_tenant :: uuid
  gr_po :: uuid

record finance_db =
  fd_invoices :: "invoice_row list"
  fd_payments :: "payment_row list"
  fd_budgets :: "budget list"
  fd_journal :: "journal_row list"
  fd_rollups :: "cost_rollup list"
  fd_audit :: "audit_row list"
  fd_outbox :: "outbox_row list"
  fd_idempotency :: "idem_row list"
  fd_products :: "product_row list"
  fd_bom :: "bom_row list"
  fd_routings :: "routing_row list"
  fd_work_centers :: "uuid list"
  fd_purchase_orders :: "(uuid \<times> uuid) list"
  fd_po_lines :: "po_line_row list"
  fd_receipts :: "receipt_row list"

text \<open>
  What code outside the service decides: what reading the JSON of line items back gives
  (serde, through \<open>f64\<close> numbers), the two-digit text of a decimal, the sum of products in
  double precision, the overhead percentage of the environment, the rate column of the work
  centers if the schema has one, the collation of departments, and which of the two foreign
  keys on a deleted row acts first.
\<close>

record fin_server =
  read_back :: "invoice_line_item list \<Rightarrow> string + invoice_line_item list"
  two_digits :: "decimal \<Rightarrow> string"
  float_sum :: "(decimal \<times> decimal) list \<Rightarrow> decimal"
  overhead_pct :: decimal
  rate_column :: "(uuid \<Rightarrow> decimal option) option"
  collate :: "string \<Rightarrow> nat"
  cascade_first :: bool
  undefined_column :: string

section \<open>Mapping helpers\<close>

definition invoice_row_to_domain :: "invoice_row \<Rightarrow> invoice res" where
  "invoice_row_to_domain r =
     (case iv_items r of
        Inl e \<Rightarrow> Err (Database [Txt ''Invoice '', FId (iv_id r), Txt '' has corrupt line items: '', FStr e])
      | Inr items \<Rightarrow> Ok \<lparr>iv_id = iv_id r, iv_tenant = iv_tenant r, iv_number = iv_number r,
          iv_customer = iv_customer r, iv_customer_name = iv_customer_name r, iv_status = iv_status r,
          iv_items = items, iv_subtotal = iv_subtotal r, iv_tax_percentage = iv_tax_percentage r,
          iv_tax_amount = iv_tax_amount r, iv_total = iv_total r, iv_currency = iv_currency r,
          iv_due = iv_due r, iv_paid_at = iv_paid_at r, iv_notes = iv_notes r,
          iv_created_by = iv_created_by r, iv_created_at = iv_created_at r\<rparr>)"

text \<open>A payment row decodes only if its invoice is not NULL.\<close>

definition payment_row_to_domain :: "pg \<Rightarrow> payment_row \<Rightarrow> string + payment" where
  "payment_row_to_domain f r =
     (case py_invoice r of
        None \<Rightarrow> Inl (null_error f)
      | Some i \<Rightarrow> Inr \<lparr>py_id = py_id r, py_tenant = py_tenant r, py_number = py_number r,
          py_invoice = i, py_amount = py_amount r, py_currency = py_currency r,
          py_method = py_method r, py_reference = py_reference r,
          py_received_at = py_received_at r, py_created_by = py_created_by r\<rparr>)"

definition journal_row_to_domain :: "journal_row \<Rightarrow> journal_entry" where
  "journal_row_to_domain r = journal_entry.truncate r"

text \<open>The result of a committed transaction, mapped to the document it returns.\<close>

definition then_map :: "('a \<Rightarrow> 'b res) \<Rightarrow> 'a res \<times> 'd \<Rightarrow> 'b res \<times> 'd" where
  "then_map g r = (case r of (Inl e, d) \<Rightarrow> (Err e, d) | (Inr x, d) \<Rightarrow> (g x, d))"

lemma snd_then_map [simp]: "snd (then_map g r) = snd r"
  by (auto simp: then_map_def split: prod.splits sum.splits)

section \<open>Audit, outbox and idempotency inside the transaction\<close>

definition audit_entry :: "env \<Rightarrow> nat \<Rightarrow> uuid \<Rightarrow> uuid \<Rightarrow> string \<Rightarrow> string \<Rightarrow> uuid \<Rightarrow> json \<Rightarrow> audit_row" where
  "audit_entry e k t actor action kind entity meta =
     \<lparr>au_id = fresh e k, au_tenant = t, au_actor = actor, au_action = action,
      au_entity_type = kind, au_entity = entity, au_metadata = meta\<rparr>"

definition outbox_entry :: "env \<Rightarrow> nat \<Rightarrow> uuid \<Rightarrow> uuid \<Rightarrow> string \<Rightarrow> string \<Rightarrow> uuid \<Rightarrow> json \<Rightarrow> outbox_row" where
  "outbox_entry e k t actor action kind entity meta =
     \<lparr>ob_id = fresh e (k + 1), ob_tenant = t, ob_aggregate_type = kind, ob_aggregate = entity,
      ob_event_type = ''sensei.'' @ kind @ ''.'' @ action,
      ob_payload = JObj [(''actor_id'', JStr (disp e actor)), (''action'', JStr action),
        (''details'', meta)]\<rparr>"

definition write_business_audit ::
    "pg \<Rightarrow> env \<Rightarrow> nat \<Rightarrow> uuid \<Rightarrow> uuid \<Rightarrow> string \<Rightarrow> string \<Rightarrow> uuid \<Rightarrow> json
      \<Rightarrow> (finance_db, sensei_error, unit) step" where
  "write_business_audit f e k t actor action kind entity meta =
     tx_then (sql f ''Failed to write business audit row: '' (\<lambda>d.
         case insert_row f (\<lambda>r. au_id r = fresh e k)
                (audit_entry e k t actor action kind entity meta) (fd_audit d)
         of Inl err \<Rightarrow> Inl err | Inr rows \<Rightarrow> Inr ((), d\<lparr>fd_audit := rows\<rparr>)))
       (sql f ''Failed to write outbox event: '' (\<lambda>d.
         case insert_row f (\<lambda>r. ob_id r = fresh e (k + 1))
                (outbox_entry e k t actor action kind entity meta) (fd_outbox d)
         of Inl err \<Rightarrow> Inl err | Inr rows \<Rightarrow> Inr ((), d\<lparr>fd_outbox := rows\<rparr>)))"

definition reject_completed :: "pg \<Rightarrow> string option \<Rightarrow> (finance_db, sensei_error, unit) step" where
  "reject_completed f key =
     (if key = None then tx_return ()
      else tx_bind (sql_read f ''Failed to read idempotency record: ''
               (\<lambda>d. reject_if_idempotency_completed key (fd_idempotency d)))
             (\<lambda>r. case r of Inl err \<Rightarrow> tx_fail err | Inr u \<Rightarrow> tx_return u))"

definition complete_key :: "pg \<Rightarrow> string option \<Rightarrow> (finance_db, sensei_error, unit) step" where
  "complete_key f key =
     (if key = None then tx_return ()
      else sql f ''Failed to complete idempotency record: ''
             (\<lambda>d. Inr ((), d\<lparr>fd_idempotency := complete_if_idempotent key (fd_idempotency d)\<rparr>)))"

definition finance_number :: "string \<Rightarrow> env \<Rightarrow> uuid \<Rightarrow> string" where
  "finance_number prefix e i = prefix @ ''-'' @ today e @ ''-'' @ take 8 (disp e i)"


section \<open>Reading off the shared steps\<close>

lemma write_business_audit_Ok:
  "write_business_audit f e k t actor action kind entity meta d n = (Inr u, d', n') \<Longrightarrow>
     d' = d\<lparr>fd_audit := fd_audit d @ [audit_entry e k t actor action kind entity meta],
            fd_outbox := fd_outbox d @ [outbox_entry e k t actor action kind entity meta]\<rparr>"
  by (auto simp: write_business_audit_def insert_row_Inr split: sum.splits)

lemma reject_completed_Ok:
  "reject_completed f key d n = (Inr u, d', n') \<Longrightarrow>
     d' = d \<and> (key = None \<or> reject_if_idempotency_completed key (fd_idempotency d) = Ok ())"
  by (auto simp: reject_completed_def split: if_splits sum.splits)

lemma complete_key_Ok:
  "complete_key f key d n = (Inr u, d', n') \<Longrightarrow>
     d' = d\<lparr>fd_idempotency := complete_if_idempotent key (fd_idempotency d)\<rparr>"
  by (cases key) (auto simp: complete_key_def complete_if_idempotent_def split: if_splits)

end
