(* ===== verification/Finance_Invoices.thy ===== *)
theory Finance_Invoices
  imports Finance_Db
begin

text \<open>
  Invoices and payments of the database-backed finance service
  (\<open>sensei-services/src/finance/database.rs\<close>): creation with derived totals, settlement,
  and the mutations that leave a settled invoice alone.
\<close>

section \<open>Invoices\<close>

definition invoice_at :: "uuid \<Rightarrow> uuid \<Rightarrow> finance_db \<Rightarrow> invoice_row option" where
  "invoice_at t i d = find (\<lambda>r. iv_id r = i \<and> iv_tenant r = t) (fd_invoices d)"

definition line_of :: "create_invoice_line_item \<Rightarrow> invoice_line_item" where
  "line_of li = \<lparr>il_description = cl_description li, il_quantity = cl_quantity li,
     il_unit_price = cl_unit_price li, il_total = rat_of_int (cl_quantity li) * cl_unit_price li,
     il_product = cl_product li\<rparr>"

text \<open>Subtotal, tax and grand total of the lines.\<close>

definition derive_totals :: "invoice_line_item list \<Rightarrow> decimal \<Rightarrow> decimal \<times> decimal \<times> decimal" where
  "derive_totals items pct =
     (let subtotal = sum_list (map (\<lambda>li. rat_of_int (il_quantity li) * il_unit_price li) items);
          tax = subtotal * pct / 100
      in (subtotal, tax, subtotal + tax))"

definition invoice_columns :: "invoice_row \<Rightarrow> decimal list" where
  "invoice_columns r = [iv_subtotal r, iv_tax_percentage r, iv_tax_amount r, iv_total r]"

definition store_invoice :: "invoice_row \<Rightarrow> invoice_row" where
  "store_invoice r = r\<lparr>iv_subtotal := round4 (iv_subtotal r),
     iv_tax_percentage := round4 (iv_tax_percentage r), iv_tax_amount := round4 (iv_tax_amount r),
     iv_total := round4 (iv_total r)\<rparr>"

definition insert_invoice :: "pg \<Rightarrow> invoice_row \<Rightarrow> finance_db \<Rightarrow> string + invoice_row \<times> finance_db" where
  "insert_invoice f r d =
     (if \<not> fits_numeric (invoice_columns r) then Inl (range_error f)
      else (case insert_row f (\<lambda>q. iv_id q = iv_id r
                 \<or> iv_tenant q = iv_tenant r \<and> iv_number q = iv_number r)
               (store_invoice r) (fd_invoices d) of
              Inl err \<Rightarrow> Inl err
            | Inr rows \<Rightarrow> Inr (store_invoice r, d\<lparr>fd_invoices := rows\<rparr>)))"

definition new_invoice ::
    "fin_server \<Rightarrow> env \<Rightarrow> uuid \<Rightarrow> create_invoice_request \<Rightarrow> uuid \<Rightarrow> invoice_row" where
  "new_invoice v e t req actor =
     (let items = map line_of (cr_items req);
          totals = derive_totals items (cr_tax_percentage req)
      in \<lparr>iv_id = fresh e 0, iv_tenant = t, iv_number = finance_number ''INV'' e (fresh e 0),
          iv_customer = cr_customer req, iv_customer_name = cr_customer_name req,
          iv_status = ''draft'', iv_items = read_back v items, iv_subtotal = fst totals,
          iv_tax_percentage = cr_tax_percentage req, iv_tax_amount = fst (snd totals),
          iv_total = snd (snd totals), iv_currency = cr_currency req, iv_due = cr_due req,
          iv_paid_at = None, iv_notes = cr_notes req, iv_created_by = actor,
          iv_created_at = clock e 0\<rparr>)"

definition create_invoice ::
    "fin_server \<Rightarrow> pg \<Rightarrow> env \<Rightarrow> uuid \<Rightarrow> create_invoice_request \<Rightarrow> uuid \<Rightarrow> string option
      \<Rightarrow> finance_db \<Rightarrow> invoice res \<times> finance_db" where
  "create_invoice v f e t req actor key d =
     then_map invoice_row_to_domain
       (in_tenant_tx f ''Failed to begin invoice tx: '' ''Failed to commit invoice tx: ''
         (tx_then (reject_completed f key)
         (tx_bind (sql f ''Failed to create invoice: '' (insert_invoice f (new_invoice v e t req actor)))
          (\<lambda>stored.
          tx_then (write_business_audit f e 1 t actor ''invoice.created'' ''invoice'' (fresh e 0)
                    (JObj [(''invoice_number'', JStr (finance_number ''INV'' e (fresh e 0)))]))
         (tx_then (complete_key f key) (tx_return stored))))) d)"

definition invoice_missing :: "uuid \<Rightarrow> sensei_error" where
  "invoice_missing i = NotFound [Txt ''Invoice '', FId i, Txt '' not found'']"

definition get_invoice :: "pg \<Rightarrow> uuid \<Rightarrow> uuid \<Rightarrow> finance_db \<Rightarrow> invoice res \<times> finance_db" where
  "get_invoice f t i d =
     then_map (\<lambda>row. case row of None \<Rightarrow> Err (invoice_missing i) | Some r \<Rightarrow> invoice_row_to_domain r)
       (in_tenant_tx f ''Failed to begin invoice read: '' ''Failed to close invoice read: ''
          (sql_read f ''Failed to get invoice: '' (invoice_at t i)) d)"

definition list_invoices ::
    "pg \<Rightarrow> uuid \<Rightarrow> string option \<Rightarrow> nat option \<Rightarrow> nat option \<Rightarrow> finance_db
      \<Rightarrow> invoice paginated res \<times> finance_db" where
  "list_invoices f t st page per_page d =
     then_map (\<lambda>p. case collect invoice_row_to_domain (pr_data p) of
          Inl err \<Rightarrow> Err err
        | Inr items \<Rightarrow> Ok (page_result page per_page items (pr_total p)))
       (db_list f (''Failed to begin invoice list: '', ''Failed to list invoices: '',
             ''Failed to count invoices: '', ''Failed to close invoice list: '')
          (\<lambda>d. filter (\<lambda>r. iv_tenant r = t \<and> is_none_or st (\<lambda>s. iv_status r = s)) (fd_invoices d))
          (order_by f (\<lambda>r. - iv_created_at r)) Inr page per_page d)"

section \<open>Settlement\<close>

definition payments_of :: "uuid \<Rightarrow> uuid \<Rightarrow> finance_db \<Rightarrow> payment_row list" where
  "payments_of t i d = filter (\<lambda>p. py_invoice p = Some i \<and> py_tenant p = t) (fd_payments d)"

definition paid_sum :: "uuid \<Rightarrow> uuid \<Rightarrow> finance_db \<Rightarrow> decimal" where
  "paid_sum t i d = sum_list (map py_amount (payments_of t i d))"

definition set_paid :: "timestamp \<Rightarrow> uuid \<Rightarrow> uuid \<Rightarrow> finance_db \<Rightarrow> invoice_row option \<times> finance_db" where
  "set_paid now t i d =
     (case update_rows (\<lambda>r. iv_id r = i \<and> iv_tenant r = t \<and> iv_status r \<noteq> ''paid''
                          \<and> iv_status r \<noteq> ''cancelled'')
             (\<lambda>r. r\<lparr>iv_status := ''paid'', iv_paid_at := Some now\<rparr>) (fd_invoices d) of
        (row, rows) \<Rightarrow> (row, d\<lparr>fd_invoices := rows\<rparr>))"

definition mark_invoice_paid ::
    "fin_server \<Rightarrow> pg \<Rightarrow> env \<Rightarrow> uuid \<Rightarrow> uuid \<Rightarrow> uuid \<Rightarrow> finance_db \<Rightarrow> invoice res \<times> finance_db" where
  "mark_invoice_paid v f e t i pay d =
     then_map invoice_row_to_domain
       (in_tenant_tx f ''Failed to begin mark-paid tx: '' ''Failed to commit mark-paid: ''
         (tx_bind (sql_read f ''Failed to validate payment: ''
              (\<lambda>d. list_ex (\<lambda>p. py_id p = pay \<and> py_invoice p = Some i \<and> py_tenant p = t) (fd_payments d)))
          (\<lambda>ok. tx_then (refuse_if (\<not> ok) (Validation
              [Txt ''Payment '', FId pay, Txt '' does not belong to invoice '', FId i]))
         (tx_bind (sql_read f ''Failed to get invoice: '' (invoice_at t i))
          (\<lambda>found. tx_bind (some_or (invoice_missing i) found)
          (\<lambda>row. tx_then (refuse_if (iv_status row = ''paid'') (Validation [Txt ''Invoice is already paid'']))
         (tx_then (refuse_if (iv_status row = ''cancelled'')
              (Validation [Txt ''Cannot mark a cancelled invoice as paid'']))
         (tx_bind (sql_read f ''Failed to sum payments: '' (paid_sum t i))
          (\<lambda>cumulative. tx_then (refuse_if (cumulative + 1 / 100 < iv_total row) (Validation
              [Txt ''Cumulative payments ('', FStr (two_digits v cumulative),
               Txt '') do not cover invoice total ('', FStr (two_digits v (iv_total row)), Txt '')'']))
         (tx_bind (sql f ''Failed to mark invoice paid: '' (\<lambda>d. Inr (set_paid (clock e 0) t i d)))
          (some_or (NotFound [Txt ''Invoice '', FId i, Txt '' not found or cannot be marked paid'']))))))))))) d)"

section \<open>Changes to an invoice\<close>

definition invoice_frozen :: "uuid \<Rightarrow> uuid \<Rightarrow> finance_db \<Rightarrow> bool" where
  "invoice_frozen t i d \<longleftrightarrow> map_option iv_status (invoice_at t i d) \<in> {Some ''paid'', Some ''cancelled''}"

definition changed_invoice :: "fin_server \<Rightarrow> invoice \<Rightarrow> invoice_row \<Rightarrow> invoice_row" where
  "changed_invoice v new r =
     (let totals = derive_totals (iv_items new) (iv_tax_percentage new)
      in r\<lparr>iv_customer := iv_customer new, iv_customer_name := iv_customer_name new,
            iv_items := read_back v (iv_items new), iv_subtotal := fst totals,
            iv_tax_percentage := iv_tax_percentage new, iv_tax_amount := fst (snd totals),
            iv_total := snd (snd totals), iv_currency := iv_currency new, iv_due := iv_due new,
            iv_notes := iv_notes new\<rparr>)"

definition write_invoice ::
    "pg \<Rightarrow> fin_server \<Rightarrow> uuid \<Rightarrow> uuid \<Rightarrow> invoice \<Rightarrow> finance_db \<Rightarrow> string + invoice_row option \<times> finance_db"
where
  "write_invoice f v t i new d =
     (let hit = (\<lambda>r. iv_id r = i \<and> iv_tenant r = t)
      in if list_ex (\<lambda>r. hit r \<and> \<not> fits_numeric (invoice_columns (changed_invoice v new r)))
              (fd_invoices d)
         then Inl (range_error f)
         else (case update_rows hit (\<lambda>r. store_invoice (changed_invoice v new r)) (fd_invoices d) of
                 (row, rows) \<Rightarrow> Inr (row, d\<lparr>fd_invoices := rows\<rparr>)))"

definition update_invoice ::
    "fin_server \<Rightarrow> pg \<Rightarrow> uuid \<Rightarrow> uuid \<Rightarrow> invoice \<Rightarrow> finance_db \<Rightarrow> invoice res \<times> finance_db" where
  "update_invoice v f t i new d =
     then_map invoice_row_to_domain
       (in_tenant_tx f ''Failed to begin invoice update: '' ''Failed to commit invoice update: ''
         (tx_bind (sql_read f ''Failed to read invoice: '' (invoice_frozen t i))
          (\<lambda>frozen. tx_then (refuse_if frozen (Conflict
              [Txt ''Paid or cancelled invoices are immutable - void the payment instead'']))
         (tx_bind (sql f ''Failed to update invoice: '' (write_invoice f v t i new))
          (some_or (invoice_missing i))))) d)"

text \<open>
  Deleting an invoice under its payments: one foreign key sets their invoice to NULL, the other
  one deletes them.
\<close>

definition drop_payments :: "fin_server \<Rightarrow> uuid \<Rightarrow> uuid \<Rightarrow> payment_row list \<Rightarrow> payment_row list" where
  "drop_payments v t i ps =
     (if cascade_first v then filter (\<lambda>p. \<not> (py_invoice p = Some i \<and> py_tenant p = t)) ps
      else map (\<lambda>p. if py_invoice p = Some i then p\<lparr>py_invoice := None\<rparr> else p) ps)"

definition delete_invoice ::
    "fin_server \<Rightarrow> pg \<Rightarrow> uuid \<Rightarrow> uuid \<Rightarrow> finance_db \<Rightarrow> unit res \<times> finance_db" where
  "delete_invoice v f t i d =
     in_tenant_tx f ''Failed to begin invoice delete: '' ''Failed to commit invoice delete: ''
       (tx_bind (sql_read f ''Failed to read invoice: '' (invoice_frozen t i))
        (\<lambda>frozen. tx_then (refuse_if frozen (Conflict [Txt ''Paid or cancelled invoices are immutable'']))
       (tx_bind (sql f ''Failed to delete invoice: '' (\<lambda>d.
            case delete_rows (\<lambda>r. iv_id r = i \<and> iv_tenant r = t) (fd_invoices d) of
              (n, rows) \<Rightarrow> Inr (n, d\<lparr>fd_invoices := rows,
                 fd_payments := (if n = 0 then fd_payments d else drop_payments v t i (fd_payments d))\<rparr>)))
        (\<lambda>n. refuse_if (n = 0) (invoice_missing i))))) d"

section \<open>Payments\<close>

definition payment_methods :: "string set" where
  "payment_methods = {''bank_transfer'', ''check'', ''cash'', ''credit_card'', ''wire''}"

definition insert_payment :: "pg \<Rightarrow> payment_row \<Rightarrow> finance_db \<Rightarrow> string + payment \<times> finance_db" where
  "insert_payment f p d =
     (if \<not> fits_numeric [py_amount p] then Inl (range_error f)
      else if py_method p \<notin> payment_methods then Inl (check_error f)
      else if \<not> list_ex (\<lambda>r. py_invoice p = Some (iv_id r) \<and> iv_tenant r = py_tenant p) (fd_invoices d)
      then Inl (reference_error f)
      else (let stored = p\<lparr>py_amount := round4 (py_amount p)\<rparr>
            in case insert_row f (\<lambda>q. py_id q = py_id p
                    \<or> py_tenant q = py_tenant p \<and> py_number q = py_number p) stored (fd_payments d) of
                 Inl err \<Rightarrow> Inl err
               | Inr rows \<Rightarrow> (case payment_row_to_domain f stored of
                    Inl err \<Rightarrow> Inl err | Inr doc \<Rightarrow> Inr (doc, d\<lparr>fd_payments := rows\<rparr>))))"

definition new_payment :: "env \<Rightarrow> uuid \<Rightarrow> record_payment_request \<Rightarrow> uuid \<Rightarrow> payment_row" where
  "new_payment e t req actor =
     \<lparr>py_id = fresh e 0, py_tenant = t, py_number = finance_number ''PAY'' e (fresh e 0),
      py_invoice = Some (rp_invoice req), py_amount = rp_amount req, py_currency = rp_currency req,
      py_method = rp_method req, py_reference = rp_reference req, py_received_at = clock e 0,
      py_created_by = actor\<rparr>"

definition record_payment ::
    "pg \<Rightarrow> env \<Rightarrow> uuid \<Rightarrow> record_payment_request \<Rightarrow> uuid \<Rightarrow> string option
      \<Rightarrow> finance_db \<Rightarrow> payment res \<times> finance_db" where
  "record_payment f e t req actor key d =
     in_tenant_tx f ''Failed to begin payment tx: '' ''Failed to commit payment tx: ''
       (tx_then (reject_completed f key)
       (tx_bind (sql f ''Failed to record payment: '' (insert_payment f (new_payment e t req actor)))
        (\<lambda>stored.
        tx_then (write_business_audit f e 1 t actor ''payment.recorded'' ''payment'' (fresh e 0)
            (JObj [(''payment_number'', JStr (finance_number ''PAY'' e (fresh e 0))),
              (''invoice_id'', JStr (disp e (rp_invoice req)))]))
       (tx_then (complete_key f key) (tx_return stored))))) d"

definition list_payments ::
    "pg \<Rightarrow> uuid \<Rightarrow> uuid option \<Rightarrow> nat option \<Rightarrow> nat option \<Rightarrow> finance_db
      \<Rightarrow> payment paginated res \<times> finance_db" where
  "list_payments f t invoice_id page per_page d =
     db_list f (''Failed to begin payment list: '', ''Failed to list payments: '',
         ''Failed to count payments: '', ''Failed to close payment list: '')
       (\<lambda>d. filter (\<lambda>p. py_tenant p = t \<and> is_none_or invoice_id (\<lambda>i. py_invoice p = Some i)) (fd_payments d))
       (order_by f (\<lambda>p. - py_received_at p)) (payment_row_to_domain f) page per_page d"

text \<open>The status of the invoice that a payment is joined with.\<close>

definition payment_settled :: "uuid \<Rightarrow> uuid \<Rightarrow> finance_db \<Rightarrow> bool" where
  "payment_settled t i d \<longleftrightarrow>
     (case find (\<lambda>p. py_id p = i \<and> py_tenant p = t) (fd_payments d) of
        None \<Rightarrow> False
      | Some p \<Rightarrow> map_option iv_status (find (\<lambda>r. py_invoice p = Some (iv_id r)) (fd_invoices d))
                  = Some ''paid'')"

definition payment_missing :: "uuid \<Rightarrow> sensei_error" where
  "payment_missing i = NotFound [Txt ''Payment '', FId i, Txt '' not found'']"

definition write_payment ::
    "pg \<Rightarrow> uuid \<Rightarrow> uuid \<Rightarrow> payment \<Rightarrow> finance_db \<Rightarrow> string + payment option \<times> finance_db" where
  "write_payment f t i new d =
     (let hit = (\<lambda>p. py_id p = i \<and> py_tenant p = t)
      in if list_ex hit (fd_payments d) \<and> \<not> fits_numeric [py_amount new] then Inl (range_error f)
         else if list_ex hit (fd_payments d) \<and> py_method new \<notin> payment_methods then Inl (check_error f)
         else (case update_rows hit (\<lambda>p. p\<lparr>py_amount := round4 (py_amount new),
                   py_currency := py_currency new, py_method := py_method new,
                   py_reference := py_reference new\<rparr>) (fd_payments d) of
                 (None, rows) \<Rightarrow> Inr (None, d\<lparr>fd_payments := rows\<rparr>)
               | (Some p, rows) \<Rightarrow> (case payment_row_to_domain f p of
                    Inl err \<Rightarrow> Inl err | Inr doc \<Rightarrow> Inr (Some doc, d\<lparr>fd_payments := rows\<rparr>))))"

definition update_payment ::
    "pg \<Rightarrow> uuid \<Rightarrow> uuid \<Rightarrow> payment \<Rightarrow> finance_db \<Rightarrow> payment res \<times> finance_db" where
  "update_payment f t i new d =
     in_tenant_tx f ''Failed to begin payment update: '' ''Failed to commit payment update: ''
       (tx_bind (sql_read f ''Failed to read payment: '' (payment_settled t i))
        (\<lambda>settled. tx_then (refuse_if settled (Conflict
            [Txt ''Completed payments are immutable - reverse them instead of editing'']))
       (tx_bind (sql f ''Failed to update payment: '' (write_payment f t i new))
        (some_or (payment_missing i))))) d"

definition delete_payment :: "pg \<Rightarrow> uuid \<Rightarrow> uuid \<Rightarrow> finance_db \<Rightarrow> unit res \<times> finance_db" where
  "delete_payment f t i d =
     in_tenant_tx f ''Failed to begin payment delete: '' ''Failed to commit payment delete: ''
       (tx_bind (sql_read f ''Failed to read payment: '' (payment_settled t i))
        (\<lambda>settled. tx_then (refuse_if settled (Conflict
            [Txt ''Completed payments are immutable - reverse them instead of deleting'']))
       (tx_bind (sql f ''Failed to delete payment: '' (\<lambda>d.
            case delete_rows (\<lambda>p. py_id p = i \<and> py_tenant p = t) (fd_payments d) of
              (n, rows) \<Rightarrow> Inr (n, d\<lparr>fd_payments := rows\<rparr>)))
        (\<lambda>n. refuse_if (n = 0) (payment_missing i))))) d"

section \<open>What a committed call did\<close>

text \<open>The tables after the insertion of a document, audited and completed under a key.\<close>

definition audited ::
    "env \<Rightarrow> uuid \<Rightarrow> uuid \<Rightarrow> string \<Rightarrow> string \<Rightarrow> uuid \<Rightarrow> json \<Rightarrow> string option \<Rightarrow> finance_db \<Rightarrow> finance_db"
where
  "audited e t actor action kind i meta key d =
     d\<lparr>fd_audit := fd_audit d @ [audit_entry e 1 t actor action kind i meta],
       fd_outbox := fd_outbox d @ [outbox_entry e 1 t actor action kind i meta],
       fd_idempotency := complete_if_idempotent key (fd_idempotency d)\<rparr>"

lemma create_invoice_effect:
  "snd (create_invoice v f e t req actor key d) = d
   \<or> fresh e 0 \<notin> iv_id ` set (fd_invoices d)
     \<and> (key = None \<or> reject_if_idempotency_completed key (fd_idempotency d) = Ok ())
     \<and> snd (create_invoice v f e t req actor key d)
        = audited e t actor ''invoice.created'' ''invoice'' (fresh e 0)
            (JObj [(''invoice_number'', JStr (finance_number ''INV'' e (fresh e 0)))]) key
            (d\<lparr>fd_invoices := fd_invoices d @ [store_invoice (new_invoice v e t req actor)]\<rparr>)"
  unfolding create_invoice_def snd_then_map
  by (rule in_tenant_tx_post)
    (auto simp: insert_invoice_def insert_row_Inr audited_def new_invoice_def Let_def
      dest!: reject_completed_Ok complete_key_Ok write_business_audit_Ok split: if_splits sum.splits)

lemma mark_invoice_paid_effect:
  "snd (mark_invoice_paid v f e t i pay d) = d
   \<or> (\<exists>row. invoice_at t i d = Some row \<and> iv_status row \<noteq> ''paid'' \<and> iv_status row \<noteq> ''cancelled''
       \<and> iv_total row \<le> paid_sum t i d + 1 / 100
       \<and> snd (mark_invoice_paid v f e t i pay d) = snd (set_paid (clock e 0) t i d))"
  unfolding mark_invoice_paid_def snd_then_map
  by (rule in_tenant_tx_post) auto

lemma update_invoice_effect:
  "snd (update_invoice v f t i new d) = d
   \<or> \<not> invoice_frozen t i d
     \<and> (\<exists>row. write_invoice f v t i new d = Inr (row, snd (update_invoice v f t i new d)))"
  unfolding update_invoice_def snd_then_map
  by (rule in_tenant_tx_post) auto

lemma delete_invoice_effect:
  "snd (delete_invoice v f t i d) = d
   \<or> \<not> invoice_frozen t i d \<and> (\<exists>q \<in> set (fd_invoices d). iv_id q = i \<and> iv_tenant q = t)
     \<and> snd (delete_invoice v f t i d) = d\<lparr>fd_invoices := filter (\<lambda>r. \<not> (iv_id r = i \<and> iv_tenant r = t)) (fd_invoices d),
         fd_payments := drop_payments v t i (fd_payments d)\<rparr>"
  unfolding delete_invoice_def
  by (rule in_tenant_tx_post) (auto simp: delete_rows_def filter_empty_conv split: if_splits)

lemma record_payment_effect:
  "snd (record_payment f e t req actor key d) = d
   \<or> fresh e 0 \<notin> py_id ` set (fd_payments d)
     \<and> (key = None \<or> reject_if_idempotency_completed key (fd_idempotency d) = Ok ())
     \<and> snd (record_payment f e t req actor key d)
        = audited e t actor ''payment.recorded'' ''payment'' (fresh e 0)
            (JObj [(''payment_number'', JStr (finance_number ''PAY'' e (fresh e 0))),
              (''invoice_id'', JStr (disp e (rp_invoice req)))]) key
            (d\<lparr>fd_payments := fd_payments d
               @ [(new_payment e t req actor)\<lparr>py_amount := round4 (rp_amount req)\<rparr>]\<rparr>)"
  unfolding record_payment_def
  by (rule in_tenant_tx_post)
    (auto simp: insert_payment_def insert_row_Inr audited_def new_payment_def Let_def
      dest!: reject_completed_Ok complete_key_Ok write_business_audit_Ok split: if_splits sum.splits)

lemma update_payment_effect:
  "snd (update_payment f t i new d) = d
   \<or> \<not> payment_settled t i d
     \<and> (\<exists>row. write_payment f t i new d = Inr (row, snd (update_payment f t i new d)))"
  unfolding update_payment_def
  by (rule in_tenant_tx_post) auto

lemma delete_payment_effect:
  "snd (delete_payment f t i d) = d
   \<or> \<not> payment_settled t i d
     \<and> snd (delete_payment f t i d)
        = d\<lparr>fd_payments := filter (\<lambda>p. \<not> (py_id p = i \<and> py_tenant p = t)) (fd_payments d)\<rparr>"
  unfolding delete_payment_def
  by (rule in_tenant_tx_post) (auto simp: delete_rows_def split: if_splits)

section \<open>Settled invoices stay covered\<close>

text \<open>
  The invariant of the tables of invoices and payments: primary keys, and every paid invoice is
  covered by the payments that name it, up to one cent.
\<close>

definition pays_for :: "invoice_row \<Rightarrow> payment_row \<Rightarrow> bool" where
  "pays_for r p \<longleftrightarrow> py_invoice p = Some (iv_id r) \<and> py_tenant p = iv_tenant r"

definition covers :: "payment_row list \<Rightarrow> invoice_row \<Rightarrow> bool" where
  "covers ps r \<longleftrightarrow> iv_total r \<le> sum_list (map py_amount (filter (pays_for r) ps)) + 1 / 100"

definition settlement_ok :: "invoice_row list \<Rightarrow> payment_row list \<Rightarrow> bool" where
  "settlement_ok ivs ps \<longleftrightarrow> distinct (map iv_id ivs) \<and> distinct (map py_id ps)
     \<and> (\<forall>r \<in> set ivs. iv_status r = ''paid'' \<longrightarrow> covers ps r)"

text \<open>What a call does to them: the invariant holds, and the paid rows are still there.\<close>

definition settles :: "finance_db \<Rightarrow> finance_db \<Rightarrow> bool" where
  "settles d d' \<longleftrightarrow> settlement_ok (fd_invoices d') (fd_payments d')
     \<and> (\<forall>r \<in> set (fd_invoices d). iv_status r = ''paid'' \<longrightarrow> r \<in> set (fd_invoices d'))"

lemma settles_refl: "settlement_ok (fd_invoices d) (fd_payments d) \<Longrightarrow> settles d d"
  by (simp add: settles_def)

lemma settles_audited [simp]: "settles d0 (audited e t actor action kind i meta key d) = settles d0 d"
  by (simp add: settles_def audited_def)

text \<open>The row that a key selects is the only one with the key.\<close>

lemma find_key:
  assumes "distinct (map key xs)" and "x \<in> set xs" and "P x" and "\<And>y. P y \<Longrightarrow> key y = key x"
  shows "find P xs = Some x"
proof -
  obtain y where y: "find P xs = Some y" using assms(2,3) by (cases "find P xs") (auto simp: find_None_iff)
  then have "y \<in> set xs" "key y = key x" using find_Some_set [OF y] assms(4) by auto
  with assms(1,2) have "y = x" by (metis distinct_map inj_onD)
  with y show ?thesis by simp
qed

lemma invoice_at_unique:
  assumes "distinct (map iv_id (fd_invoices d))" and "r \<in> set (fd_invoices d)"
  shows "invoice_at (iv_tenant r) (iv_id r) d = Some r"
  unfolding invoice_at_def by (rule find_key [where key = iv_id]) (use assms in auto)

lemma frozen_paid:
  assumes "settlement_ok (fd_invoices d) (fd_payments d)" and "\<not> invoice_frozen t i d"
    and "r \<in> set (fd_invoices d)" and "iv_status r = ''paid''"
  shows "\<not> (iv_id r = i \<and> iv_tenant r = t)"
  using assms invoice_at_unique [of d r]
  by (auto simp: settlement_ok_def invoice_frozen_def)

text \<open>How the two tables change: some rows replaced, dropped or added.\<close>

lemma settlement_map:
  assumes "settlement_ok ivs ps" and "\<And>r. iv_id (g r) = iv_id r"
    and "\<And>r. r \<in> set ivs \<Longrightarrow> iv_status (g r) = ''paid'' \<Longrightarrow> covers ps (g r)"
  shows "settlement_ok (map g ivs) ps"
  using assms by (auto simp: settlement_ok_def comp_def)

lemma settlement_payments:
  assumes "settlement_ok ivs ps" and "distinct (map py_id ps')"
    and "\<And>r. r \<in> set ivs \<Longrightarrow> iv_status r = ''paid'' \<Longrightarrow> covers ps r \<Longrightarrow> covers ps' r"
  shows "settlement_ok ivs ps'"
  using assms by (auto simp: settlement_ok_def)

lemma settlement_subset:
  assumes "settlement_ok ivs ps" and "set ivs' \<subseteq> set ivs" and "distinct (map iv_id ivs')"
  shows "settlement_ok ivs' ps"
  using assms by (auto simp: settlement_ok_def)

lemma covers_filter:
  "(\<And>p. p \<in> set ps \<Longrightarrow> pays_for r p \<Longrightarrow> Q p) \<Longrightarrow> covers (filter Q ps) r = covers ps r"
  unfolding covers_def by (auto simp: conj_commute intro!: arg_cong [where f = "\<lambda>xs. iv_total r \<le> sum_list (map py_amount xs) + 1 / 100"] filter_cong)

lemma covers_map:
  assumes "\<And>p. p \<in> set ps \<Longrightarrow> g p = p \<or> \<not> pays_for r p \<and> \<not> pays_for r (g p)"
  shows "covers (map g ps) r = covers ps r"
proof -
  have "filter (pays_for r) (map g ps) = filter (pays_for r) ps"
    using assms by (induction ps) fastforce+
  then show ?thesis by (simp add: covers_def)
qed

lemma covers_append: "0 \<le> py_amount p \<Longrightarrow> covers ps r \<Longrightarrow> covers (ps @ [p]) r"
  by (auto simp: covers_def)

lemma settled_create_invoice:
  assumes "settlement_ok (fd_invoices d) (fd_payments d)"
  shows "settles d (snd (create_invoice v f e t req actor key d))"
proof -
  have "iv_id (store_invoice (new_invoice v e t req actor)) = fresh e 0"
    "iv_status (store_invoice (new_invoice v e t req actor)) = ''draft''"
    by (simp_all add: store_invoice_def new_invoice_def Let_def)
  with create_invoice_effect [of v f e t req actor key d] assms show ?thesis
    by (elim disjE conjE) (simp_all add: settles_refl, auto simp: settles_def settlement_ok_def)
qed

lemma settled_mark_paid:
  assumes ok: "settlement_ok (fd_invoices d) (fd_payments d)"
  shows "settles d (snd (mark_invoice_paid v f e t i pay d))"
  using mark_invoice_paid_effect [of v f e t i pay d]
proof (elim disjE exE conjE)
  fix row assume row: "invoice_at t i d = Some row" and cover: "iv_total row \<le> paid_sum t i d + 1 / 100"
    and eq: "snd (mark_invoice_paid v f e t i pay d) = snd (set_paid (clock e 0) t i d)"
  have r: "row \<in> set (fd_invoices d)" "iv_id row = i" "iv_tenant row = t"
    using find_Some_set [OF row [unfolded invoice_at_def]] by simp_all
  have "inj_on iv_id (set (fd_invoices d))" using ok by (simp add: settlement_ok_def distinct_map)
  then have same: "q = row" if "q \<in> set (fd_invoices d)" "iv_id q = i" for q
    using that r(1,2) by (simp add: inj_on_def)
  have "covers (fd_payments d) row"
    using cover r by (simp add: covers_def paid_sum_def payments_of_def pays_for_def [abs_def])
  then have "covers (fd_payments d) (row\<lparr>iv_status := s, iv_paid_at := a\<rparr>)" for s a
    by (simp add: covers_def pays_for_def [abs_def])
  moreover have "fd_invoices (snd (set_paid (clock e 0) t i d)) = map (\<lambda>r.
      if iv_id r = i \<and> iv_tenant r = t \<and> iv_status r \<noteq> ''paid'' \<and> iv_status r \<noteq> ''cancelled''
      then r\<lparr>iv_status := ''paid'', iv_paid_at := Some (clock e 0)\<rparr> else r) (fd_invoices d)"
    by (simp add: set_paid_def update_rows_def)
  ultimately have "settlement_ok (fd_invoices (snd (set_paid (clock e 0) t i d))) (fd_payments d)"
    using ok same by (simp only:) (rule settlement_map, auto simp: settlement_ok_def)
  then show ?thesis
    unfolding eq settles_def by (auto simp: set_paid_def update_rows_def)
qed (simp add: settles_refl ok)

lemma settled_update_invoice:
  assumes ok: "settlement_ok (fd_invoices d) (fd_payments d)"
  shows "settles d (snd (update_invoice v f t i new d))"
  using update_invoice_effect [of v f t i new d]
proof (elim disjE exE conjE)
  fix row assume live: "\<not> invoice_frozen t i d"
    and w: "write_invoice f v t i new d = Inr (row, snd (update_invoice v f t i new d))"
  let ?g = "\<lambda>r. if iv_id r = i \<and> iv_tenant r = t then store_invoice (changed_invoice v new r) else r"
  have keep: "iv_id (?g r) = iv_id r" "iv_status (?g r) = iv_status r" for r
    by (simp_all add: store_invoice_def changed_invoice_def Let_def)
  have eq: "snd (update_invoice v f t i new d) = d\<lparr>fd_invoices := map ?g (fd_invoices d)\<rparr>"
    using w by (auto simp: write_invoice_def update_rows_def Let_def split: if_splits)
  have paid: "?g r = r" if "r \<in> set (fd_invoices d)" "iv_status r = ''paid''" for r
    using frozen_paid [OF ok live that] by auto
  have "settlement_ok (map ?g (fd_invoices d)) (fd_payments d)"
    using ok by (rule settlement_map) (use ok paid keep in \<open>auto simp: settlement_ok_def\<close>)
  with paid show ?thesis unfolding eq settles_def by force
qed (simp add: settles_refl ok)

lemma settled_delete_invoice:
  assumes ok: "settlement_ok (fd_invoices d) (fd_payments d)"
  shows "settles d (snd (delete_invoice v f t i d))"
  using delete_invoice_effect [of v f t i d]
proof (elim disjE conjE)
  let ?ivs = "filter (\<lambda>r. \<not> (iv_id r = i \<and> iv_tenant r = t)) (fd_invoices d)"
  assume live: "\<not> invoice_frozen t i d" and here: "\<exists>q \<in> set (fd_invoices d). iv_id q = i \<and> iv_tenant q = t"
    and eq: "snd (delete_invoice v f t i d)
      = d\<lparr>fd_invoices := ?ivs, fd_payments := drop_payments v t i (fd_payments d)\<rparr>"
  note paid = frozen_paid [OF ok live]
  have "inj_on iv_id (set (fd_invoices d))" using ok by (simp add: settlement_ok_def distinct_map)
  with here have owner: "iv_tenant r = t" if "r \<in> set (fd_invoices d)" "iv_id r = i" for r
    using that by (metis inj_onD)
  have "settlement_ok (fd_invoices d) (drop_payments v t i (fd_payments d))"
  proof (rule settlement_payments [OF ok])
    show "distinct (map py_id (drop_payments v t i (fd_payments d)))"
      using ok by (auto simp: settlement_ok_def drop_payments_def distinct_map_filter comp_def if_distrib cong: if_cong)
    show "covers (drop_payments v t i (fd_payments d)) r"
      if "r \<in> set (fd_invoices d)" "iv_status r = ''paid''" "covers (fd_payments d) r" for r
      using that paid [OF that(1,2)] owner [OF that(1)]
      unfolding drop_payments_def
      by (cases "cascade_first v")
        (simp, subst covers_filter, auto simp: pays_for_def, subst covers_map, auto simp: pays_for_def)
  qed
  then have "settlement_ok ?ivs (drop_payments v t i (fd_payments d))"
    by (rule settlement_subset) (use ok in \<open>auto simp: settlement_ok_def distinct_map_filter\<close>)
  with paid show ?thesis unfolding eq settles_def by simp
qed (simp add: settles_refl ok)

lemma settled_record_payment:
  assumes ok: "settlement_ok (fd_invoices d) (fd_payments d)" and "0 \<le> rp_amount req"
  shows "settles d (snd (record_payment f e t req actor key d))"
proof -
  let ?p = "(new_payment e t req actor)\<lparr>py_amount := round4 (rp_amount req)\<rparr>"
  have "0 \<le> py_amount ?p" "py_id ?p = fresh e 0" using assms(2) by (simp_all add: round4_nonneg new_payment_def)
  then have "settlement_ok (fd_invoices d) (fd_payments d @ [?p])" if "fresh e 0 \<notin> py_id ` set (fd_payments d)"
    using ok that by (intro settlement_payments [OF ok]) (auto simp: settlement_ok_def covers_append)
  with record_payment_effect [of f e t req actor key d] ok show ?thesis
    by (elim disjE conjE) (simp_all add: settles_refl, simp_all add: settles_def)
qed

text \<open>A payment that is not settled pays for no paid invoice.\<close>

lemma unsettled_pays:
  assumes ok: "settlement_ok (fd_invoices d) (fd_payments d)" and "\<not> payment_settled t i d"
    and "p \<in> set (fd_payments d)" "py_id p = i" "py_tenant p = t"
    and "r \<in> set (fd_invoices d)" "iv_status r = ''paid''"
  shows "\<not> pays_for r p"
proof
  assume pays: "pays_for r p"
  have "find (\<lambda>q. py_id q = i \<and> py_tenant q = t) (fd_payments d) = Some p"
    by (rule find_key [where key = py_id]) (use ok assms in \<open>auto simp: settlement_ok_def\<close>)
  moreover have "find (\<lambda>q. py_invoice p = Some (iv_id q)) (fd_invoices d) = Some r"
    by (rule find_key [where key = iv_id]) (use ok assms pays in \<open>auto simp: settlement_ok_def pays_for_def\<close>)
  ultimately show False using assms by (simp add: payment_settled_def)
qed

lemma settled_update_payment:
  assumes ok: "settlement_ok (fd_invoices d) (fd_payments d)"
  shows "settles d (snd (update_payment f t i new d))"
  using update_payment_effect [of f t i new d]
proof (elim disjE exE conjE)
  fix row assume open_: "\<not> payment_settled t i d"
    and w: "write_payment f t i new d = Inr (row, snd (update_payment f t i new d))"
  let ?g = "\<lambda>p. if py_id p = i \<and> py_tenant p = t then p\<lparr>py_amount := round4 (py_amount new),
       py_currency := py_currency new, py_method := py_method new, py_reference := py_reference new\<rparr> else p"
  have eq: "snd (update_payment f t i new d) = d\<lparr>fd_payments := map ?g (fd_payments d)\<rparr>"
    using w by (auto simp: write_payment_def update_rows_def Let_def split: if_splits option.splits prod.splits sum.splits)
  have "settlement_ok (fd_invoices d) (map ?g (fd_payments d))"
  proof (rule settlement_payments [OF ok])
    show "distinct (map py_id (map ?g (fd_payments d)))"
    proof -
      have "map py_id (map ?g ps) = map py_id ps" for ps :: "payment_row list" by (induction ps) auto
      then show ?thesis using ok by (simp add: settlement_ok_def del: map_map)
    qed
    show "covers (map ?g (fd_payments d)) r"
      if "r \<in> set (fd_invoices d)" "iv_status r = ''paid''" "covers (fd_payments d) r" for r
      using that unsettled_pays [OF ok open_ _ _ _ that(1,2)] by (subst covers_map) (auto simp: pays_for_def)
  qed
  then show ?thesis unfolding eq settles_def by simp
qed (simp add: settles_refl ok)

lemma settled_delete_payment:
  assumes ok: "settlement_ok (fd_invoices d) (fd_payments d)"
  shows "settles d (snd (delete_payment f t i d))"
  using delete_payment_effect [of f t i d]
proof (elim disjE conjE)
  assume open_: "\<not> payment_settled t i d" and eq: "snd (delete_payment f t i d)
      = d\<lparr>fd_payments := filter (\<lambda>p. \<not> (py_id p = i \<and> py_tenant p = t)) (fd_payments d)\<rparr>"
  have "settlement_ok (fd_invoices d) (filter (\<lambda>p. \<not> (py_id p = i \<and> py_tenant p = t)) (fd_payments d))"
  proof (rule settlement_payments [OF ok])
    show "distinct (map py_id (filter (\<lambda>p. \<not> (py_id p = i \<and> py_tenant p = t)) (fd_payments d)))"
      using ok by (simp add: settlement_ok_def distinct_map_filter)
    show "covers (filter (\<lambda>p. \<not> (py_id p = i \<and> py_tenant p = t)) (fd_payments d)) r"
      if "r \<in> set (fd_invoices d)" "iv_status r = ''paid''" "covers (fd_payments d) r" for r
      using that unsettled_pays [OF ok open_ _ _ _ that(1,2)] by (subst covers_filter) auto
  qed
  then show ?thesis unfolding eq settles_def by simp
qed (simp add: settles_refl ok)

end
