(* ===== verification/Finance_Journal.thy ===== *)
theory Finance_Journal
  imports Finance_Invoices
begin

text \<open>
  Journal entries and budgets of the database-backed finance service
  (\<open>sensei-services/src/finance/database.rs\<close>). Corrections of posted entries are
  reversals; the tables, with their primary keys and unique entry numbers, are those of
  migrations 002, 059 and 067.
\<close>

section \<open>Journal entries\<close>

text \<open>
  The status of an entry that the \<open>INSERT\<close> does not name: the default of migration 002.
  Migration 059 writes \<open>ADD COLUMN IF NOT EXISTS status ... DEFAULT 'posted'\<close>, which does
  nothing because the column exists.
\<close>

definition journal_default_status :: string where
  "journal_default_status = ''draft''"

definition journal_at :: "uuid \<Rightarrow> uuid \<Rightarrow> finance_db \<Rightarrow> journal_row option" where
  "journal_at t i d = find (\<lambda>r. je_id r = i \<and> je_tenant r = t) (fd_journal d)"

definition insert_journal :: "pg \<Rightarrow> journal_row \<Rightarrow> finance_db \<Rightarrow> string + journal_entry \<times> finance_db" where
  "insert_journal f r d =
     (let stored = r\<lparr>je_amount := round4 (je_amount r)\<rparr>
      in if \<not> fits_numeric [je_amount r] then Inl (range_error f)
         else (case insert_row f (\<lambda>q. je_id q = je_id r
                   \<or> je_tenant q = je_tenant r \<and> je_number q = je_number r) stored (fd_journal d) of
                 Inl err \<Rightarrow> Inl err
               | Inr rows \<Rightarrow> Inr (journal_row_to_domain stored, d\<lparr>fd_journal := rows\<rparr>)))"

definition new_entry :: "env \<Rightarrow> uuid \<Rightarrow> journal_entry \<Rightarrow> journal_row" where
  "new_entry e t entry =
     \<lparr>je_id = fresh e 0, je_tenant = t, je_number = finance_number ''JE'' e (fresh e 0),
      je_description = je_description entry, je_debit = je_debit entry, je_credit = je_credit entry,
      je_amount = je_amount entry, je_currency = je_currency entry, je_date = je_date entry,
      je_posted_by = je_posted_by entry, jr_status = journal_default_status, jr_posted_at = None,
      jr_reversal_of = None\<rparr>"

definition post_journal_entry ::
    "pg \<Rightarrow> env \<Rightarrow> uuid \<Rightarrow> journal_entry \<Rightarrow> string option \<Rightarrow> finance_db \<Rightarrow> journal_entry res \<times> finance_db"
where
  "post_journal_entry f e t entry key d =
     in_tenant_tx f ''Failed to begin journal tx: '' ''Failed to commit journal tx: ''
       (tx_then (reject_completed f key)
       (tx_bind (sql f ''Failed to post journal entry: '' (insert_journal f (new_entry e t entry)))
        (\<lambda>stored.
        tx_then (write_business_audit f e 1 t (je_posted_by entry) ''journal.posted'' ''journal_entry''
            (fresh e 0) (JObj [(''entry_number'', JStr (finance_number ''JE'' e (fresh e 0)))]))
       (tx_then (complete_key f key) (tx_return stored))))) d"

definition entry_missing :: "uuid \<Rightarrow> sensei_error" where
  "entry_missing i = NotFound [Txt ''Journal entry '', FId i, Txt '' not found'']"

definition get_journal_entry :: "pg \<Rightarrow> uuid \<Rightarrow> uuid \<Rightarrow> finance_db \<Rightarrow> journal_entry res \<times> finance_db" where
  "get_journal_entry f t i d =
     then_map (\<lambda>row. case row of None \<Rightarrow> Err (entry_missing i) | Some r \<Rightarrow> Ok (journal_row_to_domain r))
       (in_tenant_tx f ''Failed to begin journal read: '' ''Failed to close journal read: ''
          (sql_read f ''Failed to get journal entry: '' (journal_at t i)) d)"

definition list_journal_entries ::
    "pg \<Rightarrow> uuid \<Rightarrow> string option \<Rightarrow> nat option \<Rightarrow> nat option \<Rightarrow> finance_db
      \<Rightarrow> journal_entry paginated res \<times> finance_db" where
  "list_journal_entries f t account page per_page d =
     db_list f (''Failed to begin journal list: '', ''Failed to list journal entries: '',
         ''Failed to count journal entries: '', ''Failed to close journal list: '')
       (\<lambda>d. filter (\<lambda>r. je_tenant r = t \<and> is_none_or account (\<lambda>a. je_debit r = a \<or> je_credit r = a))
              (fd_journal d))
       (order_by f (\<lambda>r. - je_date r)) (\<lambda>r. Inr (journal_row_to_domain r)) page per_page d"

section \<open>Changes to an entry\<close>

definition entry_frozen :: "uuid \<Rightarrow> uuid \<Rightarrow> finance_db \<Rightarrow> bool" where
  "entry_frozen t i d \<longleftrightarrow> map_option jr_status (journal_at t i d) \<in> {Some ''posted'', Some ''reversed''}"

definition changed_entry :: "journal_entry \<Rightarrow> journal_row \<Rightarrow> journal_row" where
  "changed_entry new r = r\<lparr>je_description := je_description new, je_debit := je_debit new,
     je_credit := je_credit new, je_amount := round4 (je_amount new), je_currency := je_currency new,
     je_date := je_date new\<rparr>"

definition update_journal_entry ::
    "pg \<Rightarrow> uuid \<Rightarrow> uuid \<Rightarrow> journal_entry \<Rightarrow> finance_db \<Rightarrow> journal_entry res \<times> finance_db" where
  "update_journal_entry f t i new d =
     in_tenant_tx f ''Failed to begin journal update: '' ''Failed to commit journal update: ''
       (tx_bind (sql_read f ''Failed to read journal entry: '' (entry_frozen t i))
        (\<lambda>frozen. tx_then (refuse_if frozen (Conflict
            [Txt ''Posted accounting entries are immutable - reverse them instead of editing'']))
       (tx_bind (sql f ''Failed to update journal entry: '' (\<lambda>d.
            if journal_at t i d \<noteq> None \<and> \<not> fits_numeric [je_amount new] then Inl (range_error f)
            else (case update_rows (\<lambda>r. je_id r = i \<and> je_tenant r = t) (changed_entry new) (fd_journal d) of
                    (row, rows) \<Rightarrow> Inr (row, d\<lparr>fd_journal := rows\<rparr>))))
        (\<lambda>row. some_or (entry_missing i) (map_option journal_row_to_domain row))))) d"

text \<open>
  The rows that name a deleted entry as the one they reverse: one foreign key clears the name,
  the other deletes them, and then the rows that name those. By the invariant below a call by
  itself never meets such rows.
\<close>

function cascade_reversals :: "uuid \<Rightarrow> uuid list \<Rightarrow> journal_row list \<Rightarrow> journal_row list" where
  "cascade_reversals t dead rows =
     (let hit = (\<lambda>r. je_tenant r = t \<and> jr_reversal_of r \<in> Some ` set dead)
      in if filter hit rows = [] then rows
         else cascade_reversals t (map je_id (filter hit rows)) (filter (\<lambda>r. \<not> hit r) rows))"
  by pat_completeness auto
termination
proof (relation "measure (\<lambda>(t, dead, rows). length rows)", goal_cases)
  case (2 t dead rows hit)
  then show ?case using sum_length_filter_compl [of hit rows] by (cases "filter hit rows") auto
qed simp

declare cascade_reversals.simps [simp del]

definition drop_reversals :: "fin_server \<Rightarrow> uuid \<Rightarrow> uuid \<Rightarrow> journal_row list \<Rightarrow> journal_row list" where
  "drop_reversals v t i rows =
     (if cascade_first v then cascade_reversals t [i] rows
      else map (\<lambda>r. if jr_reversal_of r = Some i then r\<lparr>jr_reversal_of := None\<rparr> else r) rows)"

definition delete_journal_entry ::
    "fin_server \<Rightarrow> pg \<Rightarrow> uuid \<Rightarrow> uuid \<Rightarrow> finance_db \<Rightarrow> unit res \<times> finance_db" where
  "delete_journal_entry v f t i d =
     in_tenant_tx f ''Failed to begin journal delete: '' ''Failed to commit journal delete: ''
       (tx_bind (sql_read f ''Failed to read journal entry: '' (entry_frozen t i))
        (\<lambda>frozen. tx_then (refuse_if frozen (Conflict
            [Txt ''Posted accounting entries are immutable - reverse them instead of deleting'']))
       (tx_bind (sql f ''Failed to delete journal entry: '' (\<lambda>d.
            case delete_rows (\<lambda>r. je_id r = i \<and> je_tenant r = t) (fd_journal d) of
              (n, rows) \<Rightarrow> Inr (n, d\<lparr>fd_journal := (if n = 0 then rows else drop_reversals v t i rows)\<rparr>)))
        (\<lambda>n. refuse_if (n = 0) (entry_missing i))))) d"

section \<open>Reversal\<close>

definition mirror_entry :: "pg \<Rightarrow> env \<Rightarrow> uuid \<Rightarrow> uuid \<Rightarrow> journal_row \<Rightarrow> journal_row" where
  "mirror_entry f e t actor r =
     \<lparr>je_id = fresh e 0, je_tenant = t, je_number = ''REV-'' @ je_number r,
      je_description = ''Reversal of '' @ je_description r, je_debit = je_credit r,
      je_credit = je_debit r, je_amount = je_amount r, je_currency = je_currency r,
      je_date = clock e 0, je_posted_by = actor, jr_status = ''posted'',
      jr_posted_at = Some (db_now f), jr_reversal_of = Some (je_id r)\<rparr>"

definition mark_entry_reversed :: "uuid \<Rightarrow> uuid \<Rightarrow> finance_db \<Rightarrow> finance_db" where
  "mark_entry_reversed t i d = d\<lparr>fd_journal := map (\<lambda>r. if je_id r = i \<and> je_tenant r = t
     then r\<lparr>jr_status := ''reversed''\<rparr> else r) (fd_journal d)\<rparr>"

definition reverse_journal_entry ::
    "pg \<Rightarrow> env \<Rightarrow> uuid \<Rightarrow> uuid \<Rightarrow> uuid \<Rightarrow> string option \<Rightarrow> finance_db \<Rightarrow> journal_entry res \<times> finance_db" where
  "reverse_journal_entry f e t i actor key d =
     in_tenant_tx f ''Failed to begin reversal: '' ''Failed to commit reversal: ''
       (tx_bind (sql_read f ''Failed to read journal entry: '' (journal_at t i))
        (\<lambda>found. tx_bind (some_or (entry_missing i) found)
        (\<lambda>orig. tx_then (refuse_if (je_posted_by orig = uuid_nil)
            (Conflict [Txt ''Only posted entries can be reversed'']))
       (tx_bind (sql f ''Failed to create reversal: '' (insert_journal f (mirror_entry f e t actor orig)))
        (\<lambda>reversal.
        tx_then (sql f ''Failed to mark entry reversed: '' (\<lambda>d. Inr ((), mark_entry_reversed t i d)))
       (tx_then (write_business_audit f e 1 t actor ''journal.reversed'' ''journal_entry'' i
            (JObj [(''reversal_id'', JStr (disp e (fresh e 0)))]))
       (tx_then (complete_key f key) (tx_return reversal)))))))) d"

section \<open>Budgets\<close>

definition budget_at :: "uuid \<Rightarrow> uuid \<Rightarrow> finance_db \<Rightarrow> budget option" where
  "budget_at t i d = find (\<lambda>b. bg_id b = i \<and> bg_tenant b = t) (fd_budgets d)"

definition budget_missing :: "uuid \<Rightarrow> sensei_error" where
  "budget_missing i = NotFound [Txt ''Budget '', FId i, Txt '' not found'']"

definition create_budget :: "pg \<Rightarrow> env \<Rightarrow> uuid \<Rightarrow> budget \<Rightarrow> finance_db \<Rightarrow> budget res \<times> finance_db" where
  "create_budget f e t b d =
     in_tenant_tx f ''Failed to begin budget tx: '' ''Failed to commit budget: ''
       (sql f ''Failed to create budget: '' (\<lambda>d.
          if \<not> fits_numeric [bg_allocated b] then Inl (range_error f)
          else (let row = \<lparr>bg_id = fresh e 0, bg_tenant = t, bg_fiscal_year = bg_fiscal_year b,
                  bg_department = bg_department b, bg_category = bg_category b,
                  bg_allocated = round4 (bg_allocated b), bg_spent = 0,
                  bg_remaining = round4 (bg_allocated b)\<rparr>
                in case insert_row f (\<lambda>q. bg_id q = fresh e 0) row (fd_budgets d) of
                     Inl err \<Rightarrow> Inl err | Inr rows \<Rightarrow> Inr (row, d\<lparr>fd_budgets := rows\<rparr>)))) d"

definition get_budget :: "pg \<Rightarrow> uuid \<Rightarrow> uuid \<Rightarrow> finance_db \<Rightarrow> budget res \<times> finance_db" where
  "get_budget f t i d =
     then_map (\<lambda>row. case row of None \<Rightarrow> Err (budget_missing i) | Some b \<Rightarrow> Ok b)
       (in_tenant_tx f ''Failed to begin budget read: '' ''Failed to close budget read: ''
          (sql_read f ''Failed to get budget: '' (budget_at t i)) d)"

definition list_budgets ::
    "fin_server \<Rightarrow> pg \<Rightarrow> uuid \<Rightarrow> int option \<Rightarrow> string option \<Rightarrow> nat option \<Rightarrow> nat option \<Rightarrow> finance_db
      \<Rightarrow> budget paginated res \<times> finance_db" where
  "list_budgets v f t year department page per_page d =
     db_list f (''Failed to begin budget list: '', ''Failed to list budgets: '',
         ''Failed to count budgets: '', ''Failed to close budget list: '')
       (\<lambda>d. filter (\<lambda>b. bg_tenant b = t \<and> is_none_or year (\<lambda>y. bg_fiscal_year b = y)
              \<and> is_none_or department (\<lambda>x. bg_department b = x)) (fd_budgets d))
       (\<lambda>rows. sort_key (\<lambda>b. - bg_fiscal_year b) (order_by f (\<lambda>b. collate v (bg_department b)) rows))
       Inr page per_page d"

text \<open>An \<open>UPDATE\<close> of a budget whose amounts have to fit their columns.\<close>

definition write_budget ::
    "pg \<Rightarrow> uuid \<Rightarrow> uuid \<Rightarrow> (budget \<Rightarrow> budget) \<Rightarrow> finance_db \<Rightarrow> string + budget option \<times> finance_db" where
  "write_budget f t i g d =
     (let hit = (\<lambda>b. bg_id b = i \<and> bg_tenant b = t);
          store = (\<lambda>b. b\<lparr>bg_allocated := round4 (bg_allocated b), bg_remaining := round4 (bg_remaining b)\<rparr>)
      in if list_ex (\<lambda>b. hit b \<and> \<not> fits_numeric [bg_allocated (g b), bg_remaining (g b)]) (fd_budgets d)
         then Inl (range_error f)
         else (case update_rows hit (\<lambda>b. store (g b)) (fd_budgets d) of
                 (row, rows) \<Rightarrow> Inr (row, d\<lparr>fd_budgets := rows\<rparr>)))"

definition allocate_budget :: "pg \<Rightarrow> uuid \<Rightarrow> uuid \<Rightarrow> decimal \<Rightarrow> finance_db \<Rightarrow> budget res \<times> finance_db" where
  "allocate_budget f t i amount d =
     then_map (\<lambda>row. case row of None \<Rightarrow> Err (budget_missing i) | Some b \<Rightarrow> Ok b)
       (in_tenant_tx f ''Failed to begin allocation: '' ''Failed to commit allocation: ''
          (sql f ''Failed to allocate budget: '' (write_budget f t i (\<lambda>b.
             b\<lparr>bg_allocated := bg_allocated b + amount, bg_remaining := bg_remaining b + amount\<rparr>))) d)"

definition update_budget :: "pg \<Rightarrow> uuid \<Rightarrow> uuid \<Rightarrow> budget \<Rightarrow> finance_db \<Rightarrow> budget res \<times> finance_db" where
  "update_budget f t i new d =
     in_tenant_tx f ''Failed to begin budget update: '' ''Failed to commit budget update: ''
       (tx_bind (sql f ''Failed to update budget: '' (write_budget f t i (\<lambda>b.
             b\<lparr>bg_fiscal_year := bg_fiscal_year new, bg_department := bg_department new,
               bg_category := bg_category new, bg_allocated := bg_allocated new,
               bg_remaining := bg_allocated new - bg_spent b\<rparr>)))
        (some_or (budget_missing i))) d"

definition delete_budget :: "pg \<Rightarrow> uuid \<Rightarrow> uuid \<Rightarrow> finance_db \<Rightarrow> unit res \<times> finance_db" where
  "delete_budget f t i d =
     in_tenant_tx f ''Failed to begin budget delete: '' ''Failed to commit budget delete: ''
       (tx_bind (sql f ''Failed to delete budget: '' (\<lambda>d.
            case delete_rows (\<lambda>b. bg_id b = i \<and> bg_tenant b = t) (fd_budgets d) of
              (n, rows) \<Rightarrow> Inr (n, d\<lparr>fd_budgets := rows\<rparr>)))
        (\<lambda>n. refuse_if (n = 0) (budget_missing i))) d"

section \<open>What a committed call did\<close>

lemma post_journal_entry_effect:
  "snd (post_journal_entry f e t entry key d) = d
   \<or> fresh e 0 \<notin> je_id ` set (fd_journal d)
     \<and> (\<forall>q \<in> set (fd_journal d). (je_tenant q, je_number q) \<noteq> (t, je_number (new_entry e t entry)))
     \<and> (key = None \<or> reject_if_idempotency_completed key (fd_idempotency d) = Ok ())
     \<and> snd (post_journal_entry f e t entry key d)
        = audited e t (je_posted_by entry) ''journal.posted'' ''journal_entry'' (fresh e 0)
            (JObj [(''entry_number'', JStr (finance_number ''JE'' e (fresh e 0)))]) key
            (d\<lparr>fd_journal := fd_journal d
               @ [(new_entry e t entry)\<lparr>je_amount := round4 (je_amount entry)\<rparr>]\<rparr>)"
  unfolding post_journal_entry_def
  by (rule in_tenant_tx_post)
    (auto simp: insert_journal_def insert_row_Inr audited_def new_entry_def Let_def
      dest!: reject_completed_Ok complete_key_Ok write_business_audit_Ok split: if_splits sum.splits)

lemma update_journal_entry_effect:
  "snd (update_journal_entry f t i new d) = d
   \<or> \<not> entry_frozen t i d \<and> journal_at t i d \<noteq> None
     \<and> snd (update_journal_entry f t i new d) = d\<lparr>fd_journal := map (\<lambda>r.
         if je_id r = i \<and> je_tenant r = t then changed_entry new r else r) (fd_journal d)\<rparr>"
  unfolding update_journal_entry_def
  by (rule in_tenant_tx_post) (auto simp: update_rows_def journal_at_def split: if_splits)

lemma delete_journal_entry_effect:
  "snd (delete_journal_entry v f t i d) = d
   \<or> \<not> entry_frozen t i d \<and> (\<exists>q \<in> set (fd_journal d). je_id q = i \<and> je_tenant q = t)
     \<and> snd (delete_journal_entry v f t i d) = d\<lparr>fd_journal := drop_reversals v t i
         (filter (\<lambda>r. \<not> (je_id r = i \<and> je_tenant r = t)) (fd_journal d))\<rparr>"
  unfolding delete_journal_entry_def
  by (rule in_tenant_tx_post) (auto simp: delete_rows_def filter_empty_conv split: if_splits)

lemma reverse_journal_entry_effect:
  "snd (reverse_journal_entry f e t i actor key d) = d
   \<or> (\<exists>orig. journal_at t i d = Some orig \<and> je_posted_by orig \<noteq> uuid_nil
        \<and> fresh e 0 \<notin> je_id ` set (fd_journal d)
        \<and> (\<forall>q \<in> set (fd_journal d). (je_tenant q, je_number q) \<noteq> (t, ''REV-'' @ je_number orig))
        \<and> snd (reverse_journal_entry f e t i actor key d)
           = audited e t actor ''journal.reversed'' ''journal_entry'' i
               (JObj [(''reversal_id'', JStr (disp e (fresh e 0)))]) key
               (mark_entry_reversed t i (d\<lparr>fd_journal := fd_journal d
                  @ [(mirror_entry f e t actor orig)\<lparr>je_amount := round4 (je_amount orig)\<rparr>]\<rparr>)))"
  unfolding reverse_journal_entry_def
  by (rule in_tenant_tx_post)
    (auto simp: insert_journal_def insert_row_Inr audited_def mirror_entry_def mark_entry_reversed_def Let_def
      dest!: complete_key_Ok write_business_audit_Ok split: if_splits sum.splits)

section \<open>The ledger\<close>

text \<open>What an entry moves on an account, and the balance of an account of a tenant.\<close>

definition moves :: "string \<Rightarrow> journal_row \<Rightarrow> decimal" where
  "moves a r = (if je_debit r = a then je_amount r else 0) - (if je_credit r = a then je_amount r else 0)"

definition balance_of :: "uuid \<Rightarrow> string \<Rightarrow> finance_db \<Rightarrow> decimal" where
  "balance_of t a d = sum_list (map (moves a) (filter (\<lambda>r. je_tenant r = t) (fd_journal d)))"

text \<open>
  The invariant of the journal: primary keys, unique numbers, known statuses, amounts that the
  column can hold, and each reversal the mirror of an entry that is marked reversed.
\<close>

definition mirrors :: "journal_row \<Rightarrow> journal_row \<Rightarrow> bool" where
  "mirrors r q \<longleftrightarrow> jr_reversal_of r = Some (je_id q) \<and> je_tenant r = je_tenant q
     \<and> je_number r = ''REV-'' @ je_number q \<and> je_debit r = je_credit q \<and> je_credit r = je_debit q
     \<and> je_amount r = je_amount q \<and> je_currency r = je_currency q"

definition journal_ok :: "journal_row list \<Rightarrow> bool" where
  "journal_ok rows \<longleftrightarrow> distinct (map je_id rows) \<and> distinct (map (\<lambda>r. (je_tenant r, je_number r)) rows)
     \<and> (\<forall>r \<in> set rows. jr_status r \<in> {''draft'', ''posted'', ''reversed''} \<and> four_places (je_amount r))
     \<and> (\<forall>r \<in> set rows. jr_reversal_of r \<noteq> None \<longrightarrow> jr_status r \<noteq> ''draft''
          \<and> (\<exists>q \<in> set rows. mirrors r q \<and> jr_status q = ''reversed''))"

lemma journal_at_unique:
  assumes "journal_ok (fd_journal d)" and "r \<in> set (fd_journal d)"
  shows "journal_at (je_tenant r) (je_id r) d = Some r"
  unfolding journal_at_def by (rule find_key [where key = je_id]) (use assms in \<open>auto simp: journal_ok_def\<close>)

lemma unfrozen_draft:
  assumes "journal_ok (fd_journal d)" and "\<not> entry_frozen t i d" and "r \<in> set (fd_journal d)"
    and "je_id r = i" "je_tenant r = t"
  shows "jr_status r = ''draft''"
  using assms journal_at_unique [OF assms(1,3)] by (auto simp: entry_frozen_def journal_ok_def)

lemma reversal_of_row:
  assumes "journal_ok rows" and "r \<in> set rows" and "jr_reversal_of r \<noteq> None"
  obtains q where "q \<in> set rows" "mirrors r q" "jr_status q = ''reversed''" "jr_status r \<noteq> ''draft''"
  using assms unfolding journal_ok_def by blast

text \<open>What a call does to the journal: entries that are no drafts keep their content.\<close>

definition same_content :: "journal_row \<Rightarrow> journal_row \<Rightarrow> bool" where
  "same_content r r' \<longleftrightarrow> r' = r \<or> r' = r\<lparr>jr_status := ''reversed''\<rparr>"

definition keeps_books :: "finance_db \<Rightarrow> finance_db \<Rightarrow> bool" where
  "keeps_books d d' \<longleftrightarrow> journal_ok (fd_journal d')
     \<and> (\<forall>r \<in> set (fd_journal d). jr_status r \<noteq> ''draft'' \<longrightarrow> (\<exists>r' \<in> set (fd_journal d'). same_content r r'))"

lemma keeps_books_refl: "journal_ok (fd_journal d) \<Longrightarrow> keeps_books d d"
  by (auto simp: keeps_books_def same_content_def)

lemma keeps_books_audited [simp]:
  "keeps_books d0 (audited e t actor action kind i meta key d) = keeps_books d0 d"
  by (simp add: keeps_books_def audited_def)

lemma journal_ok_append:
  assumes "journal_ok rows" and "je_id r \<notin> je_id ` set rows"
    and "\<forall>q \<in> set rows. (je_tenant q, je_number q) \<noteq> (je_tenant r, je_number r)"
    and "jr_status r \<in> {''draft'', ''posted''}" "four_places (je_amount r)" "jr_reversal_of r = None"
  shows "journal_ok (rows @ [r])"
  using assms by (auto simp: journal_ok_def)

lemma keeps_post_entry:
  assumes "journal_ok (fd_journal d)"
  shows "keeps_books d (snd (post_journal_entry f e t entry key d))"
proof -
  let ?r = "(new_entry e t entry)\<lparr>je_amount := round4 (je_amount entry)\<rparr>"
  have "journal_ok (fd_journal d @ [?r])" if "fresh e 0 \<notin> je_id ` set (fd_journal d)"
    "\<forall>q \<in> set (fd_journal d). (je_tenant q, je_number q) \<noteq> (t, je_number (new_entry e t entry))"
    using assms that by (intro journal_ok_append) (auto simp: new_entry_def journal_default_status_def)
  then have "keeps_books d (d\<lparr>fd_journal := fd_journal d @ [?r]\<rparr>)"
    if "fresh e 0 \<notin> je_id ` set (fd_journal d)"
    "\<forall>q \<in> set (fd_journal d). (je_tenant q, je_number q) \<noteq> (t, je_number (new_entry e t entry))"
    using that by (auto simp: keeps_books_def same_content_def)
  with post_journal_entry_effect [of f e t entry key d] keeps_books_refl [OF assms] show ?thesis
    by (elim disjE conjE) simp_all
qed

lemma keeps_update_entry:
  assumes ok: "journal_ok (fd_journal d)"
  shows "keeps_books d (snd (update_journal_entry f t i new d))"
  using update_journal_entry_effect [of f t i new d]
proof (elim disjE conjE)
  let ?g = "\<lambda>r. if je_id r = i \<and> je_tenant r = t then changed_entry new r else r"
  assume open_: "\<not> entry_frozen t i d"
    and eq: "snd (update_journal_entry f t i new d) = d\<lparr>fd_journal := map ?g (fd_journal d)\<rparr>"
  have draft: "jr_status r = ''draft''" if "r \<in> set (fd_journal d)" "?g r \<noteq> r" for r
    using unfrozen_draft [OF ok open_ that(1)] that(2) by (auto split: if_splits)
  have keys: "map je_id (map ?g rows) = map je_id rows"
    "map (\<lambda>r. (je_tenant r, je_number r)) (map ?g rows) = map (\<lambda>r. (je_tenant r, je_number r)) rows"
    for rows :: "journal_row list"
    by (induction rows) (auto simp: changed_entry_def)
  have fields: "jr_status (?g r) = jr_status r" "jr_reversal_of (?g r) = jr_reversal_of r"
    "four_places (je_amount r) \<Longrightarrow> four_places (je_amount (?g r))" for r
    by (simp_all add: changed_entry_def)
  have "journal_ok (map ?g (fd_journal d))"
    unfolding journal_ok_def
  proof (intro conjI ballI impI)
    fix r' assume "r' \<in> set (map ?g (fd_journal d))" "jr_reversal_of r' \<noteq> None"
    then obtain r where "r \<in> set (fd_journal d)" "r' = ?g r" unfolding set_map by blast
    with \<open>jr_reversal_of r' \<noteq> None\<close> have r: "r \<in> set (fd_journal d)" "r' = ?g r" "jr_reversal_of r \<noteq> None"
      using fields(2) by metis+
    obtain q where q: "q \<in> set (fd_journal d)" "mirrors r q" "jr_status q = ''reversed''"
        "jr_status r \<noteq> ''draft''"
      using reversal_of_row [OF ok r(1,3)] .
    have "?g r = r" by (rule ccontr) (use draft [OF r(1)] q(4) in blast)
    moreover have not_draft: "jr_status q \<noteq> ''draft''" using q(3) by simp
    moreover have gq: "?g q = q" by (rule ccontr) (use draft [OF q(1)] not_draft in blast)
    moreover have "q \<in> set (map ?g (fd_journal d))"
      unfolding set_map by (rule image_eqI [where f = ?g, OF gq [symmetric] q(1)])
    moreover have "r' = r" using r(2) \<open>?g r = r\<close> by simp
    ultimately show "jr_status r' \<noteq> ''draft''" "\<exists>q \<in> set (map ?g (fd_journal d)). mirrors r' q \<and> jr_status q = ''reversed''"
      using q(2-4) by blast+
  qed (use ok in \<open>auto simp: journal_ok_def keys changed_entry_def simp del: map_map\<close>)
  moreover have "\<exists>r' \<in> set (map ?g (fd_journal d)). same_content r r'"
    if "r \<in> set (fd_journal d)" "jr_status r \<noteq> ''draft''" for r
    using that draft by (force simp: same_content_def)
  ultimately show ?thesis unfolding eq keeps_books_def by simp
qed (simp add: keeps_books_refl ok)

text \<open>No row reverses a draft.\<close>

lemma no_reversal_of_draft:
  assumes "journal_ok rows" and "q \<in> set rows" and "jr_status q = ''draft''" and "r \<in> set rows"
  shows "jr_reversal_of r \<noteq> Some (je_id q)"
proof
  assume "jr_reversal_of r = Some (je_id q)"
  then obtain q' where q': "q' \<in> set rows" "mirrors r q'" "jr_status q' = ''reversed''"
    using reversal_of_row [OF assms(1,4)] by auto
  with \<open>jr_reversal_of r = Some (je_id q)\<close> have "je_id q' = je_id q" by (simp add: mirrors_def)
  with assms(1,2) q' have "q' = q" by (auto simp: journal_ok_def distinct_map inj_on_def)
  with q'(3) assms(3) show False by simp
qed

lemma drop_reversals_idle:
  assumes ok: "journal_ok (fd_journal d)" and "\<not> entry_frozen t i d"
    and "\<exists>q \<in> set (fd_journal d). je_id q = i \<and> je_tenant q = t"
  shows "drop_reversals v t i (filter P (fd_journal d)) = filter P (fd_journal d)"
proof -
  obtain q where q: "q \<in> set (fd_journal d)" "je_id q = i" "je_tenant q = t" using assms(3) by blast
  have "jr_reversal_of r \<noteq> Some i" if "r \<in> set (fd_journal d)" for r
    using no_reversal_of_draft [OF ok q(1) unfrozen_draft [OF ok assms(2) q] that] q(2) by simp
  then show ?thesis
    by (auto simp: drop_reversals_def cascade_reversals.simps [of t "[i]"] Let_def filter_empty_conv
        intro!: map_idI)
qed

lemma keeps_delete_entry:
  assumes ok: "journal_ok (fd_journal d)"
  shows "keeps_books d (snd (delete_journal_entry v f t i d))"
  using delete_journal_entry_effect [of v f t i d]
proof (elim disjE conjE)
  let ?rows = "filter (\<lambda>r. \<not> (je_id r = i \<and> je_tenant r = t)) (fd_journal d)"
  assume open_: "\<not> entry_frozen t i d" and here: "\<exists>q \<in> set (fd_journal d). je_id q = i \<and> je_tenant q = t"
    and eq: "snd (delete_journal_entry v f t i d) = d\<lparr>fd_journal := drop_reversals v t i ?rows\<rparr>"
  have draft: "jr_status r = ''draft''" if "r \<in> set (fd_journal d)" "je_id r = i" "je_tenant r = t" for r
    using unfrozen_draft [OF ok open_ that] .
  note same = drop_reversals_idle [OF ok open_ here]
  have "journal_ok ?rows"
    unfolding journal_ok_def
  proof (intro conjI ballI impI)
    fix r assume r: "r \<in> set ?rows" "jr_reversal_of r \<noteq> None"
    then have "r \<in> set (fd_journal d)" by simp
    then obtain q where q: "q \<in> set (fd_journal d)" "mirrors r q" "jr_status q = ''reversed''"
        "jr_status r \<noteq> ''draft''"
      using reversal_of_row [OF ok _ r(2)] by blast
    with draft have "q \<in> set ?rows" by force
    with q show "jr_status r \<noteq> ''draft''" "\<exists>q \<in> set ?rows. mirrors r q \<and> jr_status q = ''reversed''" by blast+
  qed (use ok in \<open>auto simp: journal_ok_def distinct_map_filter\<close>)
  moreover have "\<exists>r' \<in> set ?rows. same_content r r'"
    if "r \<in> set (fd_journal d)" "jr_status r \<noteq> ''draft''" for r
    using that draft by (force simp: same_content_def)
  ultimately show ?thesis unfolding eq same keeps_books_def by simp
qed (simp add: keeps_books_refl ok)

text \<open>A reversal: the mirror of an entry is added and the entry marked.\<close>

definition reversed_rows :: "uuid \<Rightarrow> uuid \<Rightarrow> journal_row \<Rightarrow> journal_row list \<Rightarrow> journal_row list" where
  "reversed_rows t i m rows = map (\<lambda>r. if je_id r = i \<and> je_tenant r = t
     then r\<lparr>jr_status := ''reversed''\<rparr> else r) (rows @ [m])"

lemma mirrors_status [simp]:
  "mirrors (r\<lparr>jr_status := s\<rparr>) q = mirrors r q" "mirrors r (q\<lparr>jr_status := s\<rparr>) = mirrors r q"
  by (simp_all add: mirrors_def)

lemma journal_ok_reversed:
  assumes ok: "journal_ok rows" and orig: "orig \<in> set rows" "je_id orig = i" "je_tenant orig = t"
    and new: "je_id m \<notin> je_id ` set rows" "\<forall>q \<in> set rows. (je_tenant q, je_number q) \<noteq> (t, je_number m)"
    and m: "mirrors m orig" "jr_status m = ''posted''"
  shows "journal_ok (reversed_rows t i m rows)"
proof -
  let ?g = "\<lambda>r. if je_id r = i \<and> je_tenant r = t then r\<lparr>jr_status := ''reversed''\<rparr> else r"
  have keys: "map je_id (map ?g xs) = map je_id xs"
    "map (\<lambda>r. (je_tenant r, je_number r)) (map ?g xs) = map (\<lambda>r. (je_tenant r, je_number r)) xs"
    for xs :: "journal_row list"
    by (induction xs) auto
  have g: "je_amount (?g r) = je_amount r" "jr_reversal_of (?g r) = jr_reversal_of r"
    "mirrors (?g r) q = mirrors r q" "mirrors q (?g r) = mirrors q r" for r q
    by simp_all
  have status: "jr_status r = ''reversed'' \<Longrightarrow> jr_status (?g r) = ''reversed''"
    "jr_status r \<noteq> ''draft'' \<Longrightarrow> jr_status (?g r) \<noteq> ''draft''" for r
    by simp_all
  have tenant: "je_tenant m = t" using m(1) orig(3) by (simp add: mirrors_def)
  have amount: "four_places (je_amount m)" using m(1) orig(1) ok by (auto simp: mirrors_def journal_ok_def)
  have mirrored: "\<exists>q \<in> set (rows @ [m]). mirrors r q \<and> jr_status (?g q) = ''reversed'' \<and> jr_status r \<noteq> ''draft''"
    if "r \<in> set (rows @ [m])" "jr_reversal_of r \<noteq> None" for r
  proof (cases "r = m")
    case True
    with m orig show ?thesis by (intro bexI [of _ orig]) auto
  next
    case False
    with that have "r \<in> set rows" by simp
    note nz = that(2)
    from \<open>r \<in> set rows\<close> obtain q where "q \<in> set rows" "mirrors r q" "jr_status q = ''reversed''" "jr_status r \<noteq> ''draft''"
      using reversal_of_row [OF ok _ nz] by blast
    then show ?thesis by (intro bexI [of _ q]) auto
  qed
  show ?thesis
    unfolding journal_ok_def reversed_rows_def keys
  proof (intro conjI ballI impI)
    fix r' assume r': "r' \<in> set (map ?g (rows @ [m]))" "jr_reversal_of r' \<noteq> None"
    then obtain r where r: "r \<in> set (rows @ [m])" "r' = ?g r" unfolding set_map by blast
    then have "jr_reversal_of r \<noteq> None" using r'(2) g(2) [of r] by argo
    with mirrored [OF r(1)] obtain q where q: "q \<in> set (rows @ [m])" "mirrors r q"
        "jr_status (?g q) = ''reversed''" "jr_status r \<noteq> ''draft''" by blast
    show "jr_status r' \<noteq> ''draft''" unfolding r(2) by (rule status(2) [OF q(4)])
    have "?g q \<in> set (map ?g (rows @ [m]))" using q(1) unfolding set_map by (rule imageI)
    moreover have "mirrors r' (?g q)" unfolding r(2) g using q(2) .
    ultimately show "\<exists>q \<in> set (map ?g (rows @ [m])). mirrors r' q \<and> jr_status q = ''reversed''"
      using q(3) by blast
  qed (use ok new m tenant amount in \<open>auto simp: journal_ok_def simp del: map_map\<close>)
qed

lemma keeps_reverse_entry:
  assumes ok: "journal_ok (fd_journal d)"
  shows "keeps_books d (snd (reverse_journal_entry f e t i actor key d))"
  using reverse_journal_entry_effect [of f e t i actor key d]
proof (elim disjE exE conjE)
  fix orig
  let ?m = "(mirror_entry f e t actor orig)\<lparr>je_amount := round4 (je_amount orig)\<rparr>"
  let ?d = "mark_entry_reversed t i (d\<lparr>fd_journal := fd_journal d @ [?m]\<rparr>)"
  assume at: "journal_at t i d = Some orig" and new: "fresh e 0 \<notin> je_id ` set (fd_journal d)"
    "\<forall>q \<in> set (fd_journal d). (je_tenant q, je_number q) \<noteq> (t, ''REV-'' @ je_number orig)"
    and eq: "snd (reverse_journal_entry f e t i actor key d) = audited e t actor ''journal.reversed''
       ''journal_entry'' i (JObj [(''reversal_id'', JStr (disp e (fresh e 0)))]) key ?d"
  have orig: "orig \<in> set (fd_journal d)" "je_id orig = i" "je_tenant orig = t"
    using find_Some_set [OF at [unfolded journal_at_def]] by simp_all
  have "mirrors ?m orig" using orig ok by (auto simp: mirrors_def mirror_entry_def journal_ok_def)
  then have "journal_ok (reversed_rows t i ?m (fd_journal d))"
    using new by (intro journal_ok_reversed [OF ok orig]) (simp_all add: mirror_entry_def)
  moreover have rows: "fd_journal ?d = reversed_rows t i ?m (fd_journal d)"
    by (simp add: mark_entry_reversed_def reversed_rows_def)
  moreover have "\<exists>r' \<in> set (reversed_rows t i ?m (fd_journal d)). same_content r r'"
    if "r \<in> set (fd_journal d)" for r
    using that by (auto simp: reversed_rows_def same_content_def)
  ultimately have "keeps_books d ?d"
    unfolding keeps_books_def rows by blast
  then show ?thesis unfolding eq by simp
qed (simp add: keeps_books_refl ok)

text \<open>An entry has at most one reversal: the number of its mirror is taken.\<close>

lemma one_reversal:
  assumes "journal_ok rows" and "r \<in> set rows" "r' \<in> set rows"
    and "jr_reversal_of r = Some i" "jr_reversal_of r' = Some i"
  shows "r = r'"
proof -
  obtain q q' where q: "q \<in> set rows" "mirrors r q" "q' \<in> set rows" "mirrors r' q'"
    using reversal_of_row [OF assms(1,2)] reversal_of_row [OF assms(1,3)] assms(4,5) by (metis option.simps(3))
  then have "je_id q = je_id q'" using assms(4,5) by (simp add: mirrors_def)
  with q assms(1) have "q = q'" by (auto simp: journal_ok_def distinct_map inj_on_def)
  with q have "(je_tenant r, je_number r) = (je_tenant r', je_number r')" by (simp add: mirrors_def)
  with assms(1-3) show ?thesis by (auto simp: journal_ok_def distinct_map inj_on_def)
qed

end
