(* ===== verification/Finance_Costing.thy ===== *)
theory Finance_Costing
  imports Finance_Db "HOL-Library.Log_Nat"
begin

text \<open>
  Cost rollups and the three-way match of the database-backed finance service
  (\<open>sensei-services/src/finance/database.rs\<close>). Quantities in double-precision columns are
  the rationals they denote, and \<open>f64_add\<close> is the addition of the service, rounded to a double;
  infinities and NaN are left out. The sum of products that PostgreSQL computes is
  \<open>float_sum\<close>.
\<close>

section \<open>Cost rollup\<close>

text \<open>\<open>Decimal::round\<close>: to the nearest integer, ties to even.\<close>

definition round_even :: "decimal \<Rightarrow> decimal" where
  "round_even x =
     (let n = \<lfloor>x\<rfloor>; r = x - rat_of_int n
      in if r < 1 / 2 \<or> (r = 1 / 2 \<and> even n) then rat_of_int n else rat_of_int (n + 1))"

definition material_cost :: "fin_server \<Rightarrow> uuid \<Rightarrow> uuid \<Rightarrow> finance_db \<Rightarrow> decimal" where
  "material_cost v t product d =
     round4 (float_sum v (concat (map (\<lambda>b.
        map (\<lambda>p. (bo_quantity b, case pd_standard_cost p of None \<Rightarrow> 0 | Some c \<Rightarrow> c))
          (filter (\<lambda>p. pd_id p = bo_component b) (fd_products d)))
       (filter (\<lambda>b. bo_parent b = product \<and> bo_tenant b = t \<and> bo_active b) (fd_bom d)))))"

text \<open>The labor query names the rate column; without the column the server refuses it.\<close>

definition labor_cost :: "fin_server \<Rightarrow> uuid \<Rightarrow> uuid \<Rightarrow> finance_db \<Rightarrow> string + decimal" where
  "labor_cost v t product d =
     (case rate_column v of
        None \<Rightarrow> Inl (undefined_column v)
      | Some rate \<Rightarrow> Inr (round4 (float_sum v (concat (map (\<lambda>r.
          map (\<lambda>w. (ro_standard_time r, case rate w of None \<Rightarrow> 0 | Some c \<Rightarrow> c))
            (filter (\<lambda>w. w = ro_work_center r) (fd_work_centers d)))
         (filter (\<lambda>r. ro_product r = product \<and> ro_tenant r = t \<and> ro_active r) (fd_routings d)))))))"

text \<open>Material, labor, overhead and total in currency units, from whole cents.\<close>

definition rollup_costs :: "fin_server \<Rightarrow> decimal \<Rightarrow> decimal \<Rightarrow> decimal \<times> decimal \<times> decimal \<times> decimal" where
  "rollup_costs v material labor =
     (let material_cents = round_even (material * 100);
          labor_cents = round_even (labor * 100);
          overhead_cents = round_even ((material_cents + labor_cents) * overhead_pct v / 100);
          m = material_cents / 100; l = labor_cents / 100; ov = overhead_cents / 100
      in (m, l, ov, m + l + ov))"

definition new_rollup ::
    "env \<Rightarrow> uuid \<Rightarrow> uuid \<Rightarrow> string \<Rightarrow> decimal \<times> decimal \<times> decimal \<times> decimal \<Rightarrow> cost_rollup" where
  "new_rollup e t product name costs =
     (case costs of (m, l, ov, tot) \<Rightarrow>
       \<lparr>cu_id = fresh e 0, cu_tenant = t, cu_product = product, cu_product_name = name,
        cu_material = round4 m, cu_labor = round4 l, cu_overhead = round4 ov, cu_total = round4 tot,
        cu_date = clock e 0\<rparr>)"

definition run_cost_rollup ::
    "fin_server \<Rightarrow> pg \<Rightarrow> env \<Rightarrow> uuid \<Rightarrow> uuid \<Rightarrow> finance_db \<Rightarrow> cost_rollup res \<times> finance_db" where
  "run_cost_rollup v f e t product d =
     in_tenant_tx f ''Failed to begin cost rollup: '' ''Failed to commit cost rollup: ''
       (tx_bind (sql_read f ''Failed to compute material cost: '' (material_cost v t product))
        (\<lambda>material.
        tx_bind (sql_fetch f ''Failed to compute labor cost: '' (labor_cost v t product))
        (\<lambda>labor.
        tx_bind (sql_read f ''Failed to get product name: ''
            (\<lambda>d. case find (\<lambda>p. pd_id p = product \<and> pd_tenant p = t) (fd_products d) of
                   None \<Rightarrow> ''Unknown Product'' | Some p \<Rightarrow> pd_name p))
        (\<lambda>name.
        sql f ''Failed to create cost rollup: '' (\<lambda>d.
          let costs = rollup_costs v material labor; row = new_rollup e t product name costs
          in if \<not> fits_numeric [fst costs, fst (snd costs), fst (snd (snd costs)), snd (snd (snd costs))]
             then Inl (range_error f)
             else if \<not> list_ex (\<lambda>p. pd_id p = product) (fd_products d) then Inl (reference_error f)
             else (case insert_row f (\<lambda>q. cu_id q = fresh e 0) row (fd_rollups d) of
                     Inl err \<Rightarrow> Inl err | Inr rows \<Rightarrow> Inr (row, d\<lparr>fd_rollups := rows\<rparr>))))))) d"

definition get_cost_rollup ::
    "pg \<Rightarrow> uuid \<Rightarrow> uuid \<Rightarrow> finance_db \<Rightarrow> cost_rollup res \<times> finance_db" where
  "get_cost_rollup f t product d =
     then_map (\<lambda>rows. case rows of
          [] \<Rightarrow> Err (NotFound [Txt ''Cost rollup for product '', FId product, Txt '' not found''])
        | r # _ \<Rightarrow> Ok r)
       (in_tenant_tx f ''Failed to begin rollup read: '' ''Failed to close rollup read: ''
          (sql_read f ''Failed to get cost rollup: '' (\<lambda>d. take 1 (order_by f (\<lambda>r. - cu_date r)
             (filter (\<lambda>r. cu_product r = product \<and> cu_tenant r = t) (fd_rollups d))))) d)"

section \<open>Double precision\<close>

text \<open>
  A rational rounded to the nearest \<open>f64\<close>, ties to even: the exponent of the last of the 53
  bits, no less than that of the subnormal numbers, and the multiple of it.
\<close>

definition f64_exponent :: "decimal \<Rightarrow> int" where
  "f64_exponent q =
     (case quotient_of \<bar>q\<bar> of (a, b) \<Rightarrow>
        let k = bitlen a - bitlen b;
            reached = (if 0 \<le> k then b * 2 ^ nat k \<le> a else b \<le> a * 2 ^ nat (- k))
        in max (- 1074) ((if reached then k else k - 1) - 52))"

definition f64_of :: "decimal \<Rightarrow> decimal" where
  "f64_of q =
     (let e = f64_exponent q
      in if 0 \<le> e then round_even (q / 2 ^ nat e) * 2 ^ nat e
         else round_even (q * 2 ^ nat (- e)) / 2 ^ nat (- e))"

definition f64_add :: "decimal \<Rightarrow> decimal \<Rightarrow> decimal" where
  "f64_add x y = f64_of (x + y)"

section \<open>Three-way match\<close>

datatype three_way_line_status = Matched | UnderDelivered | OverDelivered | Unmatched

datatype three_way_verdict = VMatched | VMismatch

record three_way_line_result =
  tl_product :: uuid
  tl_po :: decimal
  tl_received :: decimal
  tl_invoiced :: decimal
  tl_status :: three_way_line_status

record three_way_match_result =
  tm_po :: uuid
  tm_invoice :: uuid
  tm_lines :: "three_way_line_result list"
  tm_verdict :: three_way_verdict

text \<open>The sums per product: \<open>entry(product).or_default() += quantity\<close>.\<close>

fun add_up :: "(uuid \<times> decimal) list \<Rightarrow> (uuid, decimal) hmap \<Rightarrow> (uuid, decimal) hmap" where
  "add_up [] m = m"
| "add_up ((p, q) # rest) m =
     add_up rest (hm_insert p (f64_add (case hm_get m p of None \<Rightarrow> 0 | Some x \<Rightarrow> x) q) m)"

definition quantity_at :: "(uuid, decimal) hmap \<Rightarrow> uuid \<Rightarrow> decimal" where
  "quantity_at m p = (case hm_get m p of None \<Rightarrow> 0 | Some x \<Rightarrow> x)"

text \<open>The double nearest to \<open>1e-9\<close>.\<close>

definition tolerance :: decimal where
  "tolerance = 4835703278458517 / 4835703278458516698824704"

definition line_status :: "decimal \<Rightarrow> decimal \<Rightarrow> decimal \<Rightarrow> three_way_line_status" where
  "line_status po received invoiced =
     (if f64_add received tolerance < invoiced then UnderDelivered
      else if f64_add po tolerance < received \<or> f64_add invoiced tolerance < received then OverDelivered
      else Matched)"

definition invoiced_pairs :: "invoice_line_item list \<Rightarrow> (uuid \<times> decimal) list" where
  "invoiced_pairs items = concat (map (\<lambda>li. case il_product li of None \<Rightarrow> []
     | Some p \<Rightarrow> [(p, rat_of_int (i64_as_f64 (il_quantity li)))]) items)"

definition unmatched_lines :: "invoice_line_item list \<Rightarrow> nat" where
  "unmatched_lines items = length (filter (\<lambda>li. il_product li = None) items)"

definition match_lines :: "po_line_row list \<Rightarrow> invoice_line_item list \<Rightarrow> three_way_line_result list" where
  "match_lines po_lines items =
     (let po = add_up (map (\<lambda>l. (pl_product l, pl_quantity l)) po_lines) [];
          received = add_up (map (\<lambda>l. (pl_product l, pl_received l)) po_lines) [];
          invoiced = add_up (invoiced_pairs items) [];
          products = sort (remdups (map fst po @ map fst invoiced));
          unmatched = unmatched_lines items
      in map (\<lambda>p. \<lparr>tl_product = p, tl_po = quantity_at po p, tl_received = quantity_at received p,
               tl_invoiced = quantity_at invoiced p,
               tl_status = line_status (quantity_at po p) (quantity_at received p) (quantity_at invoiced p)\<rparr>)
           products
         @ (if unmatched = 0 then []
            else [\<lparr>tl_product = uuid_nil, tl_po = 0, tl_received = 0, tl_invoiced = rat_of_nat unmatched,
                   tl_status = Unmatched\<rparr>]))"

definition match_verdict :: "three_way_line_result list \<Rightarrow> three_way_verdict" where
  "match_verdict lines =
     (if lines = [] \<or> list_ex (\<lambda>l. tl_status l \<noteq> Matched) lines then VMismatch else VMatched)"

definition match_three_way ::
    "pg \<Rightarrow> uuid \<Rightarrow> uuid \<Rightarrow> uuid list \<Rightarrow> uuid \<Rightarrow> finance_db \<Rightarrow> three_way_match_result res \<times> finance_db"
where
  "match_three_way f t po receipts invoice d =
     in_tenant_tx f ''Failed to begin 3-way match: '' ''Failed to commit 3-way match: ''
       (tx_bind (sql_read f ''Failed to look up PO: '' (\<lambda>d. (po, t) \<in> set (fd_purchase_orders d)))
        (\<lambda>exists. tx_then (refuse_if (\<not> exists)
            (NotFound [Txt ''Purchase order '', FId po, Txt '' not found'']))
       (tx_bind (sql_read f ''Failed to validate receipts: '' (\<lambda>d. length (filter
            (\<lambda>r. gr_tenant r = t \<and> gr_po r = po \<and> gr_id r \<in> set receipts) (fd_receipts d))))
        (\<lambda>count. tx_then (refuse_if (count \<noteq> length receipts) (Validation
            [Txt ''One or more receipts do not belong to purchase order '', FId po]))
       (tx_bind (sql_read f ''Failed to load PO lines: ''
            (\<lambda>d. filter (\<lambda>l. pl_po l = po \<and> pl_tenant l = t) (fd_po_lines d)))
        (\<lambda>po_lines.
        tx_bind (sql_read f ''Failed to get invoice: ''
            (\<lambda>d. find (\<lambda>r. iv_id r = invoice \<and> iv_tenant r = t) (fd_invoices d)))
        (\<lambda>found.
        tx_bind (some_or (NotFound [Txt ''Invoice '', FId invoice, Txt '' not found'']) found)
        (\<lambda>row. case invoice_row_to_domain row of
             Inl err \<Rightarrow> tx_fail err
           | Inr doc \<Rightarrow> (let lines = match_lines po_lines (iv_items doc)
               in tx_return \<lparr>tm_po = po, tm_invoice = invoice, tm_lines = lines,
                    tm_verdict = match_verdict lines\<rparr>))))))))) d"

section \<open>Rollups in whole cents\<close>

lemma round_even_error: "\<bar>round_even x - x\<bar> \<le> 1 / 2"
  using floor_correct [of x] by (auto simp: round_even_def Let_def abs_le_iff)

lemma round_even_int: "\<exists>k. round_even x = rat_of_int k"
  by (auto simp: round_even_def Let_def intro: exI [of _ "\<lfloor>x\<rfloor>"] exI [of _ "\<lfloor>x\<rfloor> + 1"])

lemma four_places_cents [simp]: "four_places (round_even x / 100)"
proof -
  obtain k where "round_even x = rat_of_int k" using round_even_int by blast
  then have "round_even x / 100 = rat_of_int (100 * k) / 10000" by simp
  then show ?thesis unfolding four_places_def by blast
qed

lemma cents_error: "\<bar>round_even (x * 100) / 100 - x\<bar> \<le> 1 / 200"
  using round_even_error [of "x * 100"] by (simp add: abs_le_iff field_simps)

text \<open>With the schema that the migrations build, no rollup is ever written.\<close>

lemma rollup_needs_rate_column:
  assumes "rate_column v = None"
  shows "\<exists>err. run_cost_rollup v f e t product d = (Err err, d)"
proof -
  have "fst (run_cost_rollup v f e t product d) \<noteq> Inr r" for r
  proof
    assume "fst (run_cost_rollup v f e t product d) = Inr r"
    then obtain d' where "run_cost_rollup v f e t product d = (Ok r, d')"
      by (cases "run_cost_rollup v f e t product d") auto
    from in_tenant_tx_Ok [OF this [unfolded run_cost_rollup_def]] assms
    show False by (auto simp: labor_cost_def)
  qed
  then obtain err d' where "run_cost_rollup v f e t product d = (Err err, d')"
    by (cases "run_cost_rollup v f e t product d"; cases "fst (run_cost_rollup v f e t product d)") auto
  with in_tenant_tx_Err [OF this [unfolded run_cost_rollup_def]] show ?thesis by blast
qed

text \<open>
  A rollup is exact in cents. A rollup that the service returns is the row it has appended; its
  total is the sum of its three parts, material and labor are within half a cent of the costs
  that the database sums up, and the overhead is within half a cent of its percentage of them.
\<close>

theorem rollup_exact:
  assumes "run_cost_rollup v f e t product d = (Ok r, d')"
  shows "fd_rollups d' = fd_rollups d @ [r] \<and> cu_total r = cu_material r + cu_labor r + cu_overhead r
    \<and> \<bar>cu_material r - material_cost v t product d\<bar> \<le> 1 / 200
    \<and> (\<exists>labor. labor_cost v t product d = Inr labor \<and> \<bar>cu_labor r - labor\<bar> \<le> 1 / 200)
    \<and> \<bar>cu_overhead r - (cu_material r + cu_labor r) * overhead_pct v / 100\<bar> \<le> 1 / 200"
proof -
  obtain n name labor where r: "r = new_rollup e t product name (rollup_costs v (material_cost v t product d) labor)"
    and labor: "labor_cost v t product d = Inr labor" and d': "d' = d\<lparr>fd_rollups := fd_rollups d @ [r]\<rparr>"
    using in_tenant_tx_Ok [OF assms [unfolded run_cost_rollup_def]]
    by (auto simp: insert_row_Inr Let_def split: if_splits sum.splits)
  have "\<bar>round_even ((m + l) * pct / 100) / 100 - (m / 100 + l / 100) * pct / 100\<bar> \<le> 1 / 200"
    for m l pct :: decimal
    using round_even_error [of "(m + l) * pct / 100"] by (simp add: abs_le_iff field_simps)
  then show ?thesis
    using cents_error labor by (simp add: r d' new_rollup_def rollup_costs_def Let_def)
qed

text \<open>A product with one component and one operation, in a schema that has a rate column.\<close>

definition demo_server :: fin_server where
  "demo_server = \<lparr>read_back = Inr, two_digits = (\<lambda>_. []), float_sum = (\<lambda>xs. sum_list (map (\<lambda>(a, b). a * b) xs)),
     overhead_pct = 15, rate_column = Some (\<lambda>_. Some 30), collate = length, cascade_first = True,
     undefined_column = []\<rparr>"

definition empty_finance :: finance_db where
  "empty_finance = \<lparr>fd_invoices = [], fd_payments = [], fd_budgets = [], fd_journal = [], fd_rollups = [],
     fd_audit = [], fd_outbox = [], fd_idempotency = [], fd_products = [], fd_bom = [], fd_routings = [],
     fd_work_centers = [], fd_purchase_orders = [], fd_po_lines = [], fd_receipts = []\<rparr>"

definition demo_costing :: finance_db where
  "demo_costing = empty_finance\<lparr>
     fd_products := [\<lparr>pd_id = 1, pd_tenant = 9, pd_name = ''pump'', pd_standard_cost = None\<rparr>,
       \<lparr>pd_id = 2, pd_tenant = 9, pd_name = ''seal'', pd_standard_cost = Some (5 / 4)\<rparr>],
     fd_bom := [\<lparr>bo_tenant = 9, bo_parent = 1, bo_component = 2, bo_quantity = 3, bo_active = True\<rparr>],
     fd_routings := [\<lparr>ro_tenant = 9, ro_product = 1, ro_work_center = 7, ro_standard_time = 1 / 2, ro_active = True\<rparr>],
     fd_work_centers := [7]\<rparr>"

lemma rollup_exact_witness:
  "\<exists>r d'. run_cost_rollup demo_server no_faults demo_env 9 1 demo_costing = (Ok r, d')
     \<and> fd_rollups d' = [r] \<and> cu_total r = cu_material r + cu_labor r + cu_overhead r"
proof -
  let ?run = "run_cost_rollup demo_server no_faults demo_env 9 1 demo_costing"
  have "isl (fst ?run) = False" by code_simp
  then obtain r d' where run: "?run = (Ok r, d')" by (cases ?run; cases "fst ?run") auto
  from rollup_exact [OF run] run show ?thesis by (auto simp: demo_costing_def empty_finance_def)
qed

section \<open>What a match says\<close>

lemma add_up_at:
  "quantity_at (add_up ps m) p = foldl f64_add (quantity_at m p) (map snd (filter (\<lambda>x. fst x = p) ps))"
  by (induction ps m rule: add_up.induct) (auto simp: quantity_at_def)

lemma keys_hm_insert: "set (map fst (hm_insert k v m)) = insert k (set (map fst m))"
  by (induction m) (auto simp: hm_insert_def)

lemma add_up_keys: "set (map fst (add_up ps m)) = set (map fst m) \<union> set (map fst ps)"
  by (induction ps m rule: add_up.induct) (auto simp: keys_hm_insert simp del: set_map)

text \<open>
  The quantities of a product over the lines of the order and of the invoice, added up in double
  precision from 0 in the order of the lines.
\<close>

definition f64_sum :: "decimal list \<Rightarrow> decimal" where
  "f64_sum qs = foldl f64_add 0 qs"

definition line_sum :: "('r \<Rightarrow> uuid) \<Rightarrow> ('r \<Rightarrow> decimal) \<Rightarrow> uuid \<Rightarrow> 'r list \<Rightarrow> decimal" where
  "line_sum key amount p rows = f64_sum (map amount (filter (\<lambda>r. key r = p) rows))"

definition invoiced_sum :: "uuid \<Rightarrow> invoice_line_item list \<Rightarrow> decimal" where
  "invoiced_sum p items =
     f64_sum (map (\<lambda>li. rat_of_int (i64_as_f64 (il_quantity li))) (filter (\<lambda>li. il_product li = Some p) items))"

lemma add_up_lines:
  "quantity_at (add_up (map (\<lambda>l. (key l, amount l)) rows) []) p = line_sum key amount p rows"
proof -
  have "map snd (filter (\<lambda>x. fst x = p) (map (\<lambda>l. (key l, amount l)) rows))
      = map amount (filter (\<lambda>r. key r = p) rows)"
    by (induction rows) auto
  then show ?thesis by (simp add: add_up_at line_sum_def f64_sum_def) (simp add: quantity_at_def)
qed

lemma add_up_invoiced: "quantity_at (add_up (invoiced_pairs items) []) p = invoiced_sum p items"
proof -
  have "map snd (filter (\<lambda>x. fst x = p) (invoiced_pairs items))
      = map (\<lambda>li. rat_of_int (i64_as_f64 (il_quantity li))) (filter (\<lambda>li. il_product li = Some p) items)"
    unfolding invoiced_pairs_def by (induction items) (auto split: option.splits)
  then show ?thesis by (simp add: add_up_at invoiced_sum_def f64_sum_def) (simp add: quantity_at_def)
qed

lemma invoiced_keys: "fst ` set (invoiced_pairs items) = {p. \<exists>li \<in> set items. il_product li = Some p}"
  unfolding invoiced_pairs_def by (force split: option.splits)

text \<open>Within the tolerance: all that was invoiced was received, no more than that, nor than was ordered.\<close>

definition quantities_agree :: "decimal \<Rightarrow> decimal \<Rightarrow> decimal \<Rightarrow> bool" where
  "quantities_agree ordered received invoiced \<longleftrightarrow>
     invoiced \<le> f64_add received tolerance \<and> received \<le> f64_add invoiced tolerance
     \<and> received \<le> f64_add ordered tolerance"

lemma line_status_Matched: "line_status po received invoiced = Matched \<longleftrightarrow> quantities_agree po received invoiced"
  by (auto simp: line_status_def quantities_agree_def)

lemma match_verdict_lines:
  "match_verdict (match_lines rows items) = VMatched \<longleftrightarrow>
     (rows \<noteq> [] \<or> items \<noteq> []) \<and> (\<forall>li \<in> set items. il_product li \<noteq> None)
     \<and> (\<forall>p. quantities_agree (line_sum pl_product pl_quantity p rows) (line_sum pl_product pl_received p rows)
             (invoiced_sum p items)
          \<or> p \<notin> pl_product ` set rows \<and> p \<notin> {p. \<exists>li \<in> set items. il_product li = Some p})"
proof -
  have none: "unmatched_lines items = 0 \<longleftrightarrow> (\<forall>li \<in> set items. il_product li \<noteq> None)"
    by (auto simp: unmatched_lines_def filter_empty_conv)
  have keys: "set (map fst (add_up (map (\<lambda>l. (pl_product l, pl_quantity l)) rows) [])
      @ map fst (add_up (invoiced_pairs items) []))
      = pl_product ` set rows \<union> {p. \<exists>li \<in> set items. il_product li = Some p}"
    unfolding set_append add_up_keys by (simp add: image_image invoiced_keys)
  let ?products = "sort (remdups (map fst (add_up (map (\<lambda>l. (pl_product l, pl_quantity l)) rows) [])
      @ map fst (add_up (invoiced_pairs items) [])))"
  let ?agree = "\<lambda>p. quantities_agree (line_sum pl_product pl_quantity p rows)
      (line_sum pl_product pl_received p rows) (invoiced_sum p items)"
  have products: "set ?products = pl_product ` set rows \<union> {p. \<exists>li \<in> set items. il_product li = Some p}"
    using keys by simp
  have verdict: "match_verdict (match_lines rows items) = VMatched \<longleftrightarrow>
      unmatched_lines items = 0 \<and> ?products \<noteq> [] \<and> (\<forall>p \<in> set ?products. ?agree p)"
    by (simp add: match_verdict_def match_lines_def Let_def list_ex_iff add_up_lines add_up_invoiced
        line_status_Matched del: set_sort set_remdups)
  have empty: "?products = [] \<longleftrightarrow> rows = [] \<and> items = []" if "\<forall>li \<in> set items. il_product li \<noteq> None"
    using that products by (cases items) fastforce+
  show ?thesis unfolding verdict none products using empty by blast
qed

text \<open>
  The count of the receipts that are found, against the ids asked for: as many as ids only if
  the ids are distinct and each is found.
\<close>

lemma all_found:
  assumes "distinct (map key rows)" and "length (filter (\<lambda>r. P r \<and> key r \<in> set ids) rows) = length ids"
  shows "distinct ids \<and> (\<forall>i \<in> set ids. \<exists>r \<in> set rows. P r \<and> key r = i)"
proof -
  let ?hits = "map key (filter (\<lambda>r. P r \<and> key r \<in> set ids) rows)"
  have "distinct ?hits" using assms(1) by (simp add: distinct_map_filter)
  then have card: "card (set ?hits) = length ids" 
    using assms(2) distinct_card [of ?hits] by (simp only: length_map)
  moreover have sub: "set ?hits \<subseteq> set ids" by auto
  ultimately have "length ids \<le> card (set ids)" by (metis List.finite_set card_mono)
  then have "card (set ids) = length ids" using card_length [of ids] by simp
  moreover from this card sub have "set ?hits = set ids" by (intro card_subset_eq) simp_all
  then have "i \<in> set ?hits" if "i \<in> set ids" for i using that by (simp only:)
  then have "\<exists>r \<in> set rows. P r \<and> key r = i" if "i \<in> set ids" for i using that by fastforce
  ultimately show ?thesis using card_distinct by blast
qed

text \<open>C34.
  A purchase invoice is passed exactly when the quantities agree. A match that the service answers
  on tables that nobody changes during the call (the ids of receipts being a key of their table)
  changes nothing, is about an order of the
  tenant, about receipts that are pairwise distinct, exist and belong to that order and tenant,
  and about an invoice of the tenant; its verdict is positive exactly when there is a line, every
  invoice line names a product, and for each product of the order or the invoice the received
  quantity is neither below the invoiced one nor above it nor above the ordered one, by more than
  1e-9. Quantities are added up and compared in double precision, as the service does.
\<close>

theorem three_way_exact:
  assumes "match_three_way f t po receipts invoice d = (Ok r, d')" and "distinct (map gr_id (fd_receipts d))"
  shows "d' = d \<and> (po, t) \<in> set (fd_purchase_orders d)
    \<and> distinct receipts \<and> (\<forall>i \<in> set receipts. \<exists>g \<in> set (fd_receipts d). gr_id g = i \<and> gr_tenant g = t \<and> gr_po g = po)
    \<and> (\<exists>row items. find (\<lambda>r. iv_id r = invoice \<and> iv_tenant r = t) (fd_invoices d) = Some row
         \<and> iv_items row = Inr items
         \<and> (let rows = filter (\<lambda>l. pl_po l = po \<and> pl_tenant l = t) (fd_po_lines d)
            in tm_verdict r = VMatched \<longleftrightarrow>
              (rows \<noteq> [] \<or> items \<noteq> []) \<and> (\<forall>li \<in> set items. il_product li \<noteq> None)
              \<and> (\<forall>p. quantities_agree (line_sum pl_product pl_quantity p rows)
                     (line_sum pl_product pl_received p rows) (invoiced_sum p items)
                  \<or> p \<notin> pl_product ` set rows \<and> p \<notin> {p. \<exists>li \<in> set items. il_product li = Some p})))"
proof -
  obtain row items n where row: "find (\<lambda>r. iv_id r = invoice \<and> iv_tenant r = t) (fd_invoices d) = Some row"
      "iv_items row = Inr items" "(po, t) \<in> set (fd_purchase_orders d)" "d' = d"
    and found: "length (filter (\<lambda>r. gr_tenant r = t \<and> gr_po r = po \<and> gr_id r \<in> set receipts) (fd_receipts d)) = length receipts"
    and r: "tm_verdict r = match_verdict (match_lines
        (filter (\<lambda>l. pl_po l = po \<and> pl_tenant l = t) (fd_po_lines d)) items)"
    using in_tenant_tx_Ok [OF assms(1) [unfolded match_three_way_def]]
    by (auto simp: invoice_row_to_domain_def Let_def split: sum.splits)
  have "distinct receipts \<and> (\<forall>i \<in> set receipts. \<exists>g \<in> set (fd_receipts d).
      (gr_tenant g = t \<and> gr_po g = po) \<and> gr_id g = i)"
    by (rule all_found [OF assms(2)]) (use found in simp)
  with row r show ?thesis by (auto simp: Let_def match_verdict_lines)
qed

definition demo_match :: finance_db where
  "demo_match = empty_finance\<lparr>fd_purchase_orders := [(5, 9)],
     fd_receipts := [\<lparr>gr_id = 8, gr_tenant = 9, gr_po = 5\<rparr>],
     fd_po_lines := [\<lparr>pl_tenant = 9, pl_po = 5, pl_product = 2, pl_quantity = 10, pl_received = 4\<rparr>],
     fd_invoices := [\<lparr>iv_id = 6, iv_tenant = 9, iv_number = ''INV-1'', iv_customer = 1, iv_customer_name = ''acme'',
       iv_status = ''draft'', iv_items = Inr [\<lparr>il_description = [], il_quantity = 4, il_unit_price = 1,
         il_total = 4, il_product = Some 2\<rparr>], iv_subtotal = 4, iv_tax_percentage = 0, iv_tax_amount = 0,
       iv_total = 4, iv_currency = ''USD'', iv_due = 0, iv_paid_at = None, iv_notes = [], iv_created_by = 1,
       iv_created_at = 0\<rparr>]\<rparr>"

text \<open>Double precision is not exact: ten times 0.1 is less than 1.\<close>

lemma f64_tenths: "f64_sum (replicate 10 (f64_of (1 / 10))) = 1 - 1 / 2 ^ 53"
  by code_simp

lemma demo_sums: "f64_add 0 10 = 10" "f64_add 0 4 = 4" "4 < f64_add 4 tolerance" "4 < f64_add 10 tolerance"
  by code_simp+

lemma three_way_exact_witness:
  "\<exists>r. match_three_way no_faults 9 5 [8] 6 demo_match = (Ok r, demo_match) \<and> tm_verdict r = VMatched"
proof -
  let ?run = "match_three_way no_faults 9 5 [8] 6 demo_match"
  have "isl (fst ?run) = False" by code_simp
  then obtain r d' where run: "?run = (Ok r, d')" by (cases ?run; cases "fst ?run") auto
  have sums: "line_sum pl_product pl_quantity p rows = (if p = 2 then 10 else 0)"
    "line_sum pl_product pl_received p rows = (if p = 2 then 4 else 0)"
    if "rows = [\<lparr>pl_tenant = 9, pl_po = 5, pl_product = 2, pl_quantity = 10, pl_received = 4\<rparr>]" for p rows
    using that by (simp_all add: line_sum_def f64_sum_def demo_sums)
  have "i64_as_f64 4 = 4" by code_simp
  with three_way_exact [OF run] run demo_sums show ?thesis
    by (auto simp: demo_match_def empty_finance_def Let_def sums invoiced_sum_def f64_sum_def quantities_agree_def)
qed

end
