(* ===== verification/Finance_Service.thy ===== *)
theory Finance_Service
  imports Finance_Journal Finance_Costing
begin

text \<open>
  The finance service as a whole (\<open>sensei-services/src/finance/database.rs\<close>): the calls that
  change tables, runs of calls in which every call meets its own server and clock, and what
  holds of the tables in every run.
\<close>

section \<open>Calls and runs\<close>

datatype finance_call =
    CreateInvoice uuid create_invoice_request uuid "string option"
  | MarkInvoicePaid uuid uuid uuid
  | UpdateInvoice uuid uuid invoice
  | DeleteInvoice uuid uuid
  | RecordPayment uuid record_payment_request uuid "string option"
  | UpdatePayment uuid uuid payment
  | DeletePayment uuid uuid
  | CreateBudget uuid budget
  | AllocateBudget uuid uuid decimal
  | UpdateBudget uuid uuid budget
  | DeleteBudget uuid uuid
  | PostJournalEntry uuid journal_entry "string option"
  | UpdateJournalEntry uuid uuid journal_entry
  | DeleteJournalEntry uuid uuid
  | ReverseJournalEntry uuid uuid uuid "string option"
  | RunCostRollup uuid uuid

fun finance_next :: "fin_server \<Rightarrow> pg \<Rightarrow> env \<Rightarrow> finance_call \<Rightarrow> finance_db \<Rightarrow> finance_db" where
  "finance_next v f e (CreateInvoice t req actor key) d = snd (create_invoice v f e t req actor key d)"
| "finance_next v f e (MarkInvoicePaid t i pay) d = snd (mark_invoice_paid v f e t i pay d)"
| "finance_next v f e (UpdateInvoice t i new) d = snd (update_invoice v f t i new d)"
| "finance_next v f e (DeleteInvoice t i) d = snd (delete_invoice v f t i d)"
| "finance_next v f e (RecordPayment t req actor key) d = snd (record_payment f e t req actor key d)"
| "finance_next v f e (UpdatePayment t i new) d = snd (update_payment f t i new d)"
| "finance_next v f e (DeletePayment t i) d = snd (delete_payment f t i d)"
| "finance_next v f e (CreateBudget t b) d = snd (create_budget f e t b d)"
| "finance_next v f e (AllocateBudget t i amount) d = snd (allocate_budget f t i amount d)"
| "finance_next v f e (UpdateBudget t i b) d = snd (update_budget f t i b d)"
| "finance_next v f e (DeleteBudget t i) d = snd (delete_budget f t i d)"
| "finance_next v f e (PostJournalEntry t entry key) d = snd (post_journal_entry f e t entry key d)"
| "finance_next v f e (UpdateJournalEntry t i new) d = snd (update_journal_entry f t i new d)"
| "finance_next v f e (DeleteJournalEntry t i) d = snd (delete_journal_entry v f t i d)"
| "finance_next v f e (ReverseJournalEntry t i actor key) d = snd (reverse_journal_entry f e t i actor key d)"
| "finance_next v f e (RunCostRollup t product) d = snd (run_cost_rollup v f e t product d)"

text \<open>
  What other parts of the system do in between: anything to the tables the service only reads
  and to the idempotency records.
\<close>

definition same_documents :: "finance_db \<Rightarrow> finance_db \<Rightarrow> bool" where
  "same_documents d d' \<longleftrightarrow> fd_invoices d' = fd_invoices d \<and> fd_payments d' = fd_payments d
     \<and> fd_budgets d' = fd_budgets d \<and> fd_journal d' = fd_journal d \<and> fd_rollups d' = fd_rollups d
     \<and> fd_audit d' = fd_audit d \<and> fd_outbox d' = fd_outbox d"

inductive finance_run :: "fin_server \<Rightarrow> (finance_call \<Rightarrow> bool) \<Rightarrow> finance_db \<Rightarrow> finance_db \<Rightarrow> bool"
  for v ok d0 where
  start: "finance_run v ok d0 d0"
| call: "finance_run v ok d0 d \<Longrightarrow> ok c \<Longrightarrow> finance_run v ok d0 (finance_next v f e c d)"
| elsewhere: "finance_run v ok d0 d \<Longrightarrow> same_documents d d' \<Longrightarrow> finance_run v ok d0 d'"

text \<open>The contract of a run: what each call keeps, and how the tables may move.\<close>

locale finance_contract =
  fixes v :: fin_server and ok :: "finance_call \<Rightarrow> bool"
    and good :: "finance_db \<Rightarrow> bool" and rel :: "finance_db \<Rightarrow> finance_db \<Rightarrow> bool"
  assumes keeps_call: "good d \<Longrightarrow> ok c \<Longrightarrow> good (finance_next v f e c d) \<and> rel d (finance_next v f e c d)"
    and keeps_elsewhere: "good d \<Longrightarrow> same_documents d d' \<Longrightarrow> good d' \<and> rel d d'"
    and refl: "rel d d"
    and trans: "rel d d1 \<Longrightarrow> rel d1 d2 \<Longrightarrow> rel d d2"
begin

lemma run: "finance_run v ok d0 d \<Longrightarrow> good d0 \<Longrightarrow> good d \<and> rel d0 d"
proof (induction rule: finance_run.induct)
  case start
  then show ?case using refl by simp
next
  case (call d c f e)
  then show ?case using keeps_call [of d c f e] trans by blast
next
  case (elsewhere d d')
  then show ?case using keeps_elsewhere trans by blast
qed

end

text \<open>Budgets and rollups are tables of their own.\<close>

definition other_tables :: "finance_db \<Rightarrow> finance_db \<Rightarrow> bool" where
  "other_tables d d' \<longleftrightarrow> fd_invoices d' = fd_invoices d \<and> fd_payments d' = fd_payments d
     \<and> fd_journal d' = fd_journal d \<and> fd_audit d' = fd_audit d \<and> fd_outbox d' = fd_outbox d
     \<and> fd_idempotency d' = fd_idempotency d"

lemma other_tables_refl [simp]: "other_tables d d"
  by (simp add: other_tables_def)

lemma write_budget_other: "write_budget f t i g d = Inr (row, d') \<Longrightarrow> other_tables d d'"
  by (auto simp: write_budget_def update_rows_def other_tables_def Let_def split: if_splits)

lemma budget_calls_other:
  "other_tables d (snd (create_budget f e t b d))"
  "other_tables d (snd (allocate_budget f t i amount d))"
  "other_tables d (snd (update_budget f t i b d))"
  "other_tables d (snd (delete_budget f t i d))"
  "other_tables d (snd (run_cost_rollup v f e t product d))"
proof -
  show "other_tables d (snd (create_budget f e t b d))"
    unfolding create_budget_def
    by (rule in_tenant_tx_post) (auto simp: other_tables_def insert_row_Inr Let_def split: if_splits sum.splits)
  show "other_tables d (snd (allocate_budget f t i amount d))"
    unfolding allocate_budget_def snd_then_map
    by (rule in_tenant_tx_post) (auto dest: write_budget_other)
  show "other_tables d (snd (update_budget f t i b d))"
    unfolding update_budget_def by (rule in_tenant_tx_post) (auto dest: write_budget_other)
  show "other_tables d (snd (delete_budget f t i d))"
    unfolding delete_budget_def by (rule in_tenant_tx_post) (auto simp: other_tables_def delete_rows_def)
  show "other_tables d (snd (run_cost_rollup v f e t product d))"
    unfolding run_cost_rollup_def
    by (rule in_tenant_tx_post) (auto simp: other_tables_def insert_row_Inr Let_def split: if_splits sum.splits)
qed

lemma write_invoice_others:
  "write_invoice f v t i new d = Inr (row, d') \<Longrightarrow> fd_journal d' = fd_journal d \<and> fd_payments d' = fd_payments d
     \<and> fd_audit d' = fd_audit d \<and> fd_outbox d' = fd_outbox d \<and> fd_idempotency d' = fd_idempotency d"
  by (auto simp: write_invoice_def update_rows_def Let_def split: if_splits)

lemma write_payment_others:
  "write_payment f t i new d = Inr (row, d') \<Longrightarrow> fd_journal d' = fd_journal d \<and> fd_invoices d' = fd_invoices d
     \<and> fd_audit d' = fd_audit d \<and> fd_outbox d' = fd_outbox d \<and> fd_idempotency d' = fd_idempotency d"
  by (auto simp: write_payment_def update_rows_def Let_def
      split: if_splits option.splits prod.splits sum.splits)

lemma invoice_calls_journal:
  "fd_journal (snd (create_invoice v f e t req actor key d)) = fd_journal d"
  "fd_journal (snd (mark_invoice_paid v f e t i pay d)) = fd_journal d"
  "fd_journal (snd (update_invoice v f t i new d)) = fd_journal d"
  "fd_journal (snd (delete_invoice v f t i d)) = fd_journal d"
  "fd_journal (snd (record_payment f e t preq actor key d)) = fd_journal d"
  "fd_journal (snd (update_payment f t i pnew d)) = fd_journal d"
  "fd_journal (snd (delete_payment f t i d)) = fd_journal d"
proof -
  show "fd_journal (snd (create_invoice v f e t req actor key d)) = fd_journal d"
    using create_invoice_effect [of v f e t req actor key d] by (elim disjE) (simp_all add: audited_def)
  show "fd_journal (snd (mark_invoice_paid v f e t i pay d)) = fd_journal d"
    using mark_invoice_paid_effect [of v f e t i pay d] by (auto simp: set_paid_def update_rows_def)
  show "fd_journal (snd (update_invoice v f t i new d)) = fd_journal d"
    using update_invoice_effect [of v f t i new d] by (auto dest: write_invoice_others)
  show "fd_journal (snd (delete_invoice v f t i d)) = fd_journal d"
    using delete_invoice_effect [of v f t i d] by auto
  show "fd_journal (snd (record_payment f e t preq actor key d)) = fd_journal d"
    using record_payment_effect [of f e t preq actor key d] by (elim disjE) (simp_all add: audited_def)
  show "fd_journal (snd (update_payment f t i pnew d)) = fd_journal d"
    using update_payment_effect [of f t i pnew d] by (auto dest: write_payment_others)
  show "fd_journal (snd (delete_payment f t i d)) = fd_journal d"
    using delete_payment_effect [of f t i d] by auto
qed

lemma journal_calls_invoices:
  "fd_invoices (snd (post_journal_entry f e t entry key d)) = fd_invoices d"
  "fd_payments (snd (post_journal_entry f e t entry key d)) = fd_payments d"
  "fd_invoices (snd (update_journal_entry f t i new d)) = fd_invoices d"
  "fd_payments (snd (update_journal_entry f t i new d)) = fd_payments d"
  "fd_invoices (snd (delete_journal_entry v f t i d)) = fd_invoices d"
  "fd_payments (snd (delete_journal_entry v f t i d)) = fd_payments d"
  "fd_invoices (snd (reverse_journal_entry f e t i actor key d)) = fd_invoices d"
  "fd_payments (snd (reverse_journal_entry f e t i actor key d)) = fd_payments d"
proof -
  have "fd_invoices d' = fd_invoices d \<and> fd_payments d' = fd_payments d"
    if "d' = snd (post_journal_entry f e t entry key d)" for d'
    using post_journal_entry_effect [of f e t entry key d] that by (elim disjE) (simp_all add: audited_def)
  then show "fd_invoices (snd (post_journal_entry f e t entry key d)) = fd_invoices d"
    "fd_payments (snd (post_journal_entry f e t entry key d)) = fd_payments d" by blast+
  show "fd_invoices (snd (update_journal_entry f t i new d)) = fd_invoices d"
    "fd_payments (snd (update_journal_entry f t i new d)) = fd_payments d"
    using update_journal_entry_effect [of f t i new d] by auto
  show "fd_invoices (snd (delete_journal_entry v f t i d)) = fd_invoices d"
    "fd_payments (snd (delete_journal_entry v f t i d)) = fd_payments d"
    using delete_journal_entry_effect [of v f t i d] by auto
  show "fd_invoices (snd (reverse_journal_entry f e t i actor key d)) = fd_invoices d"
    "fd_payments (snd (reverse_journal_entry f e t i actor key d)) = fd_payments d"
    using reverse_journal_entry_effect [of f e t i actor key d]
    by (auto simp: audited_def mark_entry_reversed_def)
qed

section \<open>Settlement\<close>

text \<open>Payments are recorded with amounts that are not negative.\<close>

fun pays :: "finance_call \<Rightarrow> bool" where
  "pays (RecordPayment t req actor key) = (0 \<le> rp_amount req)"
| "pays _ = True"

definition paid_kept :: "finance_db \<Rightarrow> finance_db \<Rightarrow> bool" where
  "paid_kept d d' \<longleftrightarrow> (\<forall>r \<in> set (fd_invoices d). iv_status r = ''paid'' \<longrightarrow> r \<in> set (fd_invoices d'))"

lemma settles_iff: "settles d d' \<longleftrightarrow> settlement_ok (fd_invoices d') (fd_payments d') \<and> paid_kept d d'"
  by (simp add: settles_def paid_kept_def)

lemma settles_next:
  assumes "settlement_ok (fd_invoices d) (fd_payments d)" and "pays c"
  shows "settles d (finance_next v f e c d)"
proof -
  have other: "settles d d'" if "fd_invoices d' = fd_invoices d" "fd_payments d' = fd_payments d" for d'
    using assms(1) that by (simp add: settles_def)
  show ?thesis
    using assms budget_calls_other
    by (cases c) (auto simp: settled_create_invoice settled_mark_paid settled_update_invoice
        settled_delete_invoice settled_record_payment settled_update_payment settled_delete_payment
        journal_calls_invoices other_tables_def intro!: other)
qed

interpretation settlement: finance_contract v pays "\<lambda>d. settlement_ok (fd_invoices d) (fd_payments d)" paid_kept
  for v
proof
  show "settlement_ok (fd_invoices (finance_next v f e c d)) (fd_payments (finance_next v f e c d))
      \<and> paid_kept d (finance_next v f e c d)"
    if "settlement_ok (fd_invoices d) (fd_payments d)" "pays c" for d c f e
    using settles_next [OF that] by (simp add: settles_iff)
qed (auto simp: same_documents_def paid_kept_def)

text \<open>
  Calls that run one after another: in every such run that starts without invoices and payments
  and in which no negative payment is recorded, whatever the server fails, each paid invoice is
  covered, up to one cent, by the payments that name it, and no later call changes or removes its
  row. \<open>Finance_Concurrency\<close> says what is left of it when the calls overlap.
\<close>

theorem serial_paid_covered:
  assumes "finance_run v pays d0 d" and "fd_invoices d0 = []" and "fd_payments d0 = []"
    and "r \<in> set (fd_invoices d)" and "iv_status r = ''paid''"
  shows "iv_total r \<le> paid_sum (iv_tenant r) (iv_id r) d + 1 / 100
    \<and> (\<forall>d'. finance_run v pays d d' \<longrightarrow> r \<in> set (fd_invoices d')
          \<and> iv_total r \<le> paid_sum (iv_tenant r) (iv_id r) d' + 1 / 100)"
proof -
  have covered: "iv_total r \<le> paid_sum (iv_tenant r) (iv_id r) d + 1 / 100"
    if "settlement_ok (fd_invoices d) (fd_payments d)" "r \<in> set (fd_invoices d)" for d
    using that assms(5)
    by (auto simp: settlement_ok_def covers_def paid_sum_def payments_of_def pays_for_def [abs_def])
  have ok: "settlement_ok (fd_invoices d) (fd_payments d)"
    using settlement.run [OF assms(1)] assms(2,3) by (simp add: settlement_ok_def)
  moreover have "r \<in> set (fd_invoices d') \<and> settlement_ok (fd_invoices d') (fd_payments d')"
    if "finance_run v pays d d'" for d'
    using settlement.run [OF that ok] assms(4,5) by (auto simp: paid_kept_def)
  ultimately show ?thesis using covered assms(4) by blast
qed

text \<open>An invoice of 100 with 10 percent tax, settled by one payment; and a reversed entry.\<close>

definition demo_finance_calls :: "finance_call list" where
  "demo_finance_calls =
     [CreateInvoice 9 \<lparr>cr_customer = 3, cr_customer_name = ''acme'', cr_items =
        [\<lparr>cl_description = ''pump'', cl_quantity = 4, cl_unit_price = 25, cl_product = Some 2\<rparr>],
        cr_tax_percentage = 10, cr_currency = ''USD'', cr_due = 90, cr_notes = []\<rparr> 7 None,
      RecordPayment 9 \<lparr>rp_invoice = 0, rp_amount = 110, rp_currency = ''USD'', rp_method = ''wire'',
        rp_reference = []\<rparr> 7 None,
      MarkInvoicePaid 9 0 10,
      PostJournalEntry 9 \<lparr>je_id = 0, je_tenant = 0, je_number = [], je_description = ''sale'', je_debit = ''1200'',
        je_credit = ''4000'', je_amount = 110, je_currency = ''USD'', je_date = 5, je_posted_by = 7\<rparr> None,
      ReverseJournalEntry 9 30 7 None]"

definition finance_calls_run :: "finance_call list \<Rightarrow> finance_db" where
  "finance_calls_run calls = snd (fold (\<lambda>c (k, d).
     (k + 1, finance_next demo_server no_faults (demo_at k) c d)) calls (0, empty_finance))"

lemma finance_calls_reach:
  assumes "\<forall>c \<in> set calls. ok c"
  shows "finance_run demo_server ok empty_finance (finance_calls_run calls)"
proof -
  have "finance_run demo_server ok empty_finance (snd (fold (\<lambda>c (k, d).
       (k + 1, finance_next demo_server no_faults (demo_at k) c d)) calls (k, d)))"
    if "finance_run demo_server ok empty_finance d" for k d
    using assms that by (induction calls arbitrary: k d) (auto intro: finance_run.call)
  then show ?thesis unfolding finance_calls_run_def using finance_run.start by blast
qed

section \<open>The journal\<close>

definition entries_kept :: "finance_db \<Rightarrow> finance_db \<Rightarrow> bool" where
  "entries_kept d d' \<longleftrightarrow> (\<forall>r \<in> set (fd_journal d). jr_status r \<noteq> ''draft''
     \<longrightarrow> (\<exists>r' \<in> set (fd_journal d'). same_content r r'))"

lemma keeps_books_iff: "keeps_books d d' \<longleftrightarrow> journal_ok (fd_journal d') \<and> entries_kept d d'"
  by (simp add: keeps_books_def entries_kept_def)

lemma keeps_books_next:
  assumes "journal_ok (fd_journal d)"
  shows "keeps_books d (finance_next v f e c d)"
proof -
  have other: "keeps_books d d'" if "fd_journal d' = fd_journal d" for d'
    using keeps_books_refl [OF assms] that by (simp add: keeps_books_def)
  show ?thesis
    using assms budget_calls_other
    by (cases c) (auto simp: keeps_post_entry keeps_update_entry keeps_delete_entry keeps_reverse_entry
        invoice_calls_journal other_tables_def intro!: other)
qed

lemma entries_kept_trans: "entries_kept d d1 \<Longrightarrow> entries_kept d1 d2 \<Longrightarrow> entries_kept d d2"
  unfolding entries_kept_def same_content_def by fastforce

interpretation books: finance_contract v "\<lambda>_. True" "\<lambda>d. journal_ok (fd_journal d)" entries_kept
  for v
proof
  show "journal_ok (fd_journal (finance_next v f e c d)) \<and> entries_kept d (finance_next v f e c d)"
    if "journal_ok (fd_journal d)" for d c f e
    using keeps_books_next [OF that] by (simp add: keeps_books_iff)
  show "entries_kept d d2" if "entries_kept d d1" "entries_kept d1 d2" for d d1 d2
    using that by (rule entries_kept_trans)
qed (auto simp: same_documents_def entries_kept_def same_content_def)

text \<open>
  The journal when calls run one after another, from an empty one: a reversal is the mirror of an
  entry of its tenant that is marked reversed, an entry has at most one reversal, and an entry
  whose status is not draft keeps its content, so that a later call can only mark it reversed. The
  entries that \<open>post_journal_entry\<close> writes have the status draft and are not protected.
\<close>

theorem serial_ledger_history:
  assumes "finance_run v (\<lambda>_. True) d0 d" and "fd_journal d0 = []" and "r \<in> set (fd_journal d)"
  shows "(\<forall>i. jr_reversal_of r = Some i \<longrightarrow>
        (\<exists>q \<in> set (fd_journal d). je_id q = i \<and> mirrors r q \<and> jr_status q = ''reversed'')
        \<and> (\<forall>r' \<in> set (fd_journal d). jr_reversal_of r' = Some i \<longrightarrow> r' = r))
    \<and> (jr_status r \<noteq> ''draft'' \<longrightarrow> (\<forall>d'. finance_run v (\<lambda>_. True) d d' \<longrightarrow>
          r \<in> set (fd_journal d') \<or> r\<lparr>jr_status := ''reversed''\<rparr> \<in> set (fd_journal d')))"
proof -
  have ok: "journal_ok (fd_journal d)"
    using books.run [OF assms(1)] assms(2) by (simp add: journal_ok_def)
  have "\<exists>q \<in> set (fd_journal d). je_id q = i \<and> mirrors r q \<and> jr_status q = ''reversed''"
    if "jr_reversal_of r = Some i" for i
    using reversal_of_row [OF ok assms(3)] that by (auto simp: mirrors_def)
  moreover have "entries_kept d d'" if "finance_run v (\<lambda>_. True) d d'" for d'
    using books.run [OF that ok] by simp
  ultimately show ?thesis
    using one_reversal [OF ok _ assms(3)] assms(3) unfolding entries_kept_def same_content_def by blast
qed

end
