(* ===== verification/Finance_Trace.thy ===== *)
theory Finance_Trace
  imports Finance_Service
begin

text \<open>
  What the finance calls leave behind: the audit and outbox rows of every document, the
  idempotency records they complete, and the balances after a reversal.
\<close>

section \<open>What a call writes\<close>

text \<open>The document an audit row speaks of: kind, action, tenant, entity and actor.\<close>

definition audit_subject :: "audit_row \<Rightarrow> string \<times> string \<times> uuid \<times> uuid \<times> uuid" where
  "audit_subject a = (au_entity_type a, au_action a, au_tenant a, au_entity a, au_actor a)"

definition invoice_subject :: "invoice_row \<Rightarrow> string \<times> string \<times> uuid \<times> uuid \<times> uuid" where
  "invoice_subject r = (''invoice'', ''invoice.created'', iv_tenant r, iv_id r, iv_created_by r)"

definition payment_subject :: "payment_row \<Rightarrow> string \<times> string \<times> uuid \<times> uuid \<times> uuid" where
  "payment_subject p = (''payment'', ''payment.recorded'', py_tenant p, py_id p, py_created_by p)"

definition entry_subject :: "journal_row \<Rightarrow> string \<times> string \<times> uuid \<times> uuid \<times> uuid" where
  "entry_subject r = (''journal_entry'', if jr_reversal_of r = None then ''journal.posted'' else ''journal.reversed'',
     je_tenant r, case jr_reversal_of r of None \<Rightarrow> je_id r | Some i \<Rightarrow> i, je_posted_by r)"

definition subjects :: "finance_db \<Rightarrow> (string \<times> string \<times> uuid \<times> uuid \<times> uuid) set" where
  "subjects d = invoice_subject ` set (fd_invoices d) \<union> payment_subject ` set (fd_payments d)
     \<union> entry_subject ` set (fd_journal d)"

text \<open>
  A call writes no document of a new subject, or it writes one with its audit row and outbox
  row; the only thing it does to idempotency records is to complete those of one key.
\<close>

definition traced :: "finance_db \<Rightarrow> finance_db \<Rightarrow> bool" where
  "traced d d' \<longleftrightarrow>
     (\<exists>key. fd_idempotency d' = complete_if_idempotent key (fd_idempotency d))
     \<and> (fd_audit d' = fd_audit d \<and> fd_outbox d' = fd_outbox d \<and> subjects d' \<subseteq> subjects d
        \<or> (\<exists>e t actor action kind i meta.
              fd_audit d' = fd_audit d @ [audit_entry e 1 t actor action kind i meta]
            \<and> fd_outbox d' = fd_outbox d @ [outbox_entry e 1 t actor action kind i meta]
            \<and> subjects d' \<subseteq> insert (kind, action, t, i, actor) (subjects d)))"

lemma complete_None [simp]: "complete_if_idempotent None rows = rows"
  by (simp add: complete_if_idempotent_def)

lemma traced_same:
  assumes "fd_audit d' = fd_audit d" "fd_outbox d' = fd_outbox d" "fd_idempotency d' = fd_idempotency d"
    and "subjects d' \<subseteq> subjects d"
  shows "traced d d'"
  unfolding traced_def using assms complete_None by metis

lemma traced_refl: "traced d d"
  by (rule traced_same) simp_all

lemma traced_audited:
  assumes "fd_audit d' = fd_audit d" "fd_outbox d' = fd_outbox d" "fd_idempotency d' = fd_idempotency d"
    and "subjects d' \<subseteq> insert (kind, action, t, i, actor) (subjects d)"
  shows "traced d (audited e t actor action kind i meta key d')"
proof -
  have "subjects (audited e t actor action kind i meta key d') = subjects d'"
    by (simp add: subjects_def audited_def)
  with assms(4) have "subjects (audited e t actor action kind i meta key d') \<subseteq> insert (kind, action, t, i, actor) (subjects d)"
    by simp
  moreover have "fd_audit (audited e t actor action kind i meta key d') = fd_audit d @ [audit_entry e 1 t actor action kind i meta]"
    "fd_outbox (audited e t actor action kind i meta key d') = fd_outbox d @ [outbox_entry e 1 t actor action kind i meta]"
    "fd_idempotency (audited e t actor action kind i meta key d') = complete_if_idempotent key (fd_idempotency d)"
    using assms(1-3) by (simp_all add: audited_def)
  ultimately show ?thesis unfolding traced_def by blast
qed

text \<open>Updates keep subjects, deletions drop some.\<close>

lemma subjects_mono:
  assumes "invoice_subject ` set (fd_invoices d') \<subseteq> invoice_subject ` set (fd_invoices d)"
    and "payment_subject ` set (fd_payments d') \<subseteq> payment_subject ` set (fd_payments d)"
    and "entry_subject ` set (fd_journal d') \<subseteq> entry_subject ` set (fd_journal d)"
  shows "subjects d' \<subseteq> subjects d"
  unfolding subjects_def using assms by blast

lemma image_map_same:
  assumes "\<And>x. h (g x) = h x" shows "h ` set (map g xs) \<subseteq> h ` set xs"
  using assms by (simp add: image_image)


lemma traced_create_invoice: "traced d (snd (create_invoice v f e t req actor key d))"
proof -
  let ?r = "store_invoice (new_invoice v e t req actor)"
  have "snd (create_invoice v f e t req actor key d) = d
      \<or> snd (create_invoice v f e t req actor key d) = audited e t actor ''invoice.created'' ''invoice''
      (fresh e 0) (JObj [(''invoice_number'', JStr (finance_number ''INV'' e (fresh e 0)))]) key
      (d\<lparr>fd_invoices := fd_invoices d @ [?r]\<rparr>)"
    using create_invoice_effect [of v f e t req actor key d] by blast
  moreover have "invoice_subject ?r = (''invoice'', ''invoice.created'', t, fresh e 0, actor)"
    by (simp add: invoice_subject_def store_invoice_def new_invoice_def Let_def)
  ultimately show ?thesis
    by (elim disjE, simp add: traced_refl) (erule ssubst, intro traced_audited, auto simp: subjects_def)
qed

lemma traced_record_payment: "traced d (snd (record_payment f e t req actor key d))"
proof -
  let ?p = "(new_payment e t req actor)\<lparr>py_amount := round4 (rp_amount req)\<rparr>"
  have "snd (record_payment f e t req actor key d) = d
      \<or> snd (record_payment f e t req actor key d) = audited e t actor ''payment.recorded'' ''payment''
      (fresh e 0) (JObj [(''payment_number'', JStr (finance_number ''PAY'' e (fresh e 0))),
        (''invoice_id'', JStr (disp e (rp_invoice req)))]) key (d\<lparr>fd_payments := fd_payments d @ [?p]\<rparr>)"
    using record_payment_effect [of f e t req actor key d] by blast
  moreover have "payment_subject ?p = (''payment'', ''payment.recorded'', t, fresh e 0, actor)"
    by (simp add: payment_subject_def new_payment_def)
  ultimately show ?thesis
    by (elim disjE, simp add: traced_refl) (erule ssubst, intro traced_audited, auto simp: subjects_def)
qed

lemma traced_post_entry: "traced d (snd (post_journal_entry f e t entry key d))"
proof -
  let ?r = "(new_entry e t entry)\<lparr>je_amount := round4 (je_amount entry)\<rparr>"
  have "snd (post_journal_entry f e t entry key d) = d
      \<or> snd (post_journal_entry f e t entry key d) = audited e t (je_posted_by entry) ''journal.posted''
      ''journal_entry'' (fresh e 0) (JObj [(''entry_number'', JStr (finance_number ''JE'' e (fresh e 0)))]) key
      (d\<lparr>fd_journal := fd_journal d @ [?r]\<rparr>)"
    using post_journal_entry_effect [of f e t entry key d] by blast
  moreover have "entry_subject ?r = (''journal_entry'', ''journal.posted'', t, fresh e 0, je_posted_by entry)"
    by (simp add: entry_subject_def new_entry_def)
  ultimately show ?thesis
    by (elim disjE, simp add: traced_refl) (erule ssubst, intro traced_audited, auto simp: subjects_def)
qed

lemma entry_subject_status [simp]: "entry_subject (r\<lparr>jr_status := s\<rparr>) = entry_subject r"
  by (simp add: entry_subject_def split: option.split)

lemma traced_reverse: "traced d (snd (reverse_journal_entry f e t i actor key d))"
  using reverse_journal_entry_effect [of f e t i actor key d]
proof (elim disjE exE conjE)
  fix orig
  let ?m = "(mirror_entry f e t actor orig)\<lparr>je_amount := round4 (je_amount orig)\<rparr>"
  let ?d = "mark_entry_reversed t i (d\<lparr>fd_journal := fd_journal d @ [?m]\<rparr>)"
  assume at: "journal_at t i d = Some orig"
    and eq: "snd (reverse_journal_entry f e t i actor key d) = audited e t actor ''journal.reversed''
      ''journal_entry'' i (JObj [(''reversal_id'', JStr (disp e (fresh e 0)))]) key ?d"
  have "je_id orig = i" using find_Some_set [OF at [unfolded journal_at_def]] by simp
  then have m: "entry_subject ?m = (''journal_entry'', ''journal.reversed'', t, i, actor)"
    by (simp add: entry_subject_def mirror_entry_def)
  have "entry_subject ` set (fd_journal ?d) \<subseteq> entry_subject ` set (fd_journal d @ [?m])"
  proof -
    have rows: "fd_journal ?d = map (\<lambda>r. if je_id r = i \<and> je_tenant r = t then r\<lparr>jr_status := ''reversed''\<rparr> else r)
        (fd_journal d @ [?m])"
      by (simp add: mark_entry_reversed_def)
    show ?thesis unfolding rows by (rule image_map_same) simp
  qed
  moreover have "fd_invoices ?d = fd_invoices d" "fd_payments ?d = fd_payments d"
    "entry_subject ` set (fd_journal d @ [?m]) = insert (''journal_entry'', ''journal.reversed'', t, i, actor)
       (entry_subject ` set (fd_journal d))"
    using m by (simp_all add: mark_entry_reversed_def)
  ultimately have "subjects ?d \<subseteq> insert (''journal_entry'', ''journal.reversed'', t, i, actor) (subjects d)"
    unfolding subjects_def by auto
  then show ?thesis unfolding eq by (intro traced_audited) (simp_all add: mark_entry_reversed_def)
qed (simp add: traced_refl)


lemma traced_mark_paid: "traced d (snd (mark_invoice_paid v f e t i pay d))"
proof -
  have inv: "invoice_subject ` set (fd_invoices (snd (set_paid now t i d))) \<subseteq> invoice_subject ` set (fd_invoices d)" for now
  proof -
    have rows: "fd_invoices (snd (set_paid now t i d)) = map (\<lambda>r. if iv_id r = i \<and> iv_tenant r = t
        \<and> iv_status r \<noteq> ''paid'' \<and> iv_status r \<noteq> ''cancelled''
        then r\<lparr>iv_status := ''paid'', iv_paid_at := Some now\<rparr> else r) (fd_invoices d)"
      by (simp add: set_paid_def update_rows_def)
    show ?thesis unfolding rows by (rule image_map_same) (simp add: invoice_subject_def)
  qed
  have "subjects (snd (set_paid now t i d)) \<subseteq> subjects d" for now
    by (rule subjects_mono [OF inv]) (simp_all add: set_paid_def update_rows_def)
  then have "traced d (snd (set_paid now t i d))" for now
    by (intro traced_same) (simp_all add: set_paid_def update_rows_def)
  with mark_invoice_paid_effect [of v f e t i pay d] traced_refl show ?thesis by metis
qed

lemma traced_update_invoice: "traced d (snd (update_invoice v f t i new d))"
proof -
  have "traced d d'" if w: "write_invoice f v t i new d = Inr (row, d')" for row d'
  proof -
    have rows: "fd_invoices d' = map (\<lambda>r. if iv_id r = i \<and> iv_tenant r = t
        then store_invoice (changed_invoice v new r) else r) (fd_invoices d)"
      using w by (auto simp: write_invoice_def update_rows_def Let_def split: if_splits)
    have inv: "invoice_subject ` set (fd_invoices d') \<subseteq> invoice_subject ` set (fd_invoices d)"
      unfolding rows
      by (rule image_map_same) (simp add: invoice_subject_def store_invoice_def changed_invoice_def Let_def)
    from write_invoice_others [OF w] show ?thesis by (intro traced_same subjects_mono [OF inv]) simp_all
  qed
  with update_invoice_effect [of v f t i new d] traced_refl show ?thesis by metis
qed

lemma traced_delete_invoice: "traced d (snd (delete_invoice v f t i d))"
proof -
  let ?d = "d\<lparr>fd_invoices := filter (\<lambda>r. \<not> (iv_id r = i \<and> iv_tenant r = t)) (fd_invoices d),
      fd_payments := drop_payments v t i (fd_payments d)\<rparr>"
  have "payment_subject ` set (drop_payments v t i ps) \<subseteq> payment_subject ` set ps" for ps
  proof (cases "cascade_first v")
    case False
    then have rows: "drop_payments v t i ps = map (\<lambda>p. if py_invoice p = Some i then p\<lparr>py_invoice := None\<rparr> else p) ps"
      by (simp add: drop_payments_def)
    show ?thesis unfolding rows by (rule image_map_same) (simp add: payment_subject_def)
  qed (auto simp: drop_payments_def)
  then have "subjects ?d \<subseteq> subjects d" by (intro subjects_mono) auto
  then have "traced d ?d" by (intro traced_same) simp_all
  with delete_invoice_effect [of v f t i d] traced_refl [of d] show ?thesis by (elim disjE conjE) simp_all
qed

lemma traced_update_payment: "traced d (snd (update_payment f t i new d))"
proof -
  have "traced d d'" if w: "write_payment f t i new d = Inr (row, d')" for row d'
  proof -
    have rows: "fd_payments d' = map (\<lambda>p. if py_id p = i \<and> py_tenant p = t
        then p\<lparr>py_amount := round4 (py_amount new), py_currency := py_currency new,
          py_method := py_method new, py_reference := py_reference new\<rparr> else p) (fd_payments d)"
      using w by (auto simp: write_payment_def update_rows_def Let_def
          split: if_splits option.splits prod.splits sum.splits)
    have pay: "payment_subject ` set (fd_payments d') \<subseteq> payment_subject ` set (fd_payments d)"
      unfolding rows by (rule image_map_same) (simp add: payment_subject_def)
    from write_payment_others [OF w] show ?thesis by (intro traced_same subjects_mono [OF _ pay]) simp_all
  qed
  with update_payment_effect [of f t i new d] traced_refl show ?thesis by metis
qed

lemma traced_delete_payment: "traced d (snd (delete_payment f t i d))"
proof -
  let ?d = "d\<lparr>fd_payments := filter (\<lambda>p. \<not> (py_id p = i \<and> py_tenant p = t)) (fd_payments d)\<rparr>"
  have "traced d ?d" by (intro traced_same subjects_mono) auto
  with delete_payment_effect [of f t i d] traced_refl [of d] show ?thesis by (elim disjE conjE) simp_all
qed

lemma traced_update_entry: "traced d (snd (update_journal_entry f t i new d))"
proof -
  let ?g = "\<lambda>r. if je_id r = i \<and> je_tenant r = t then changed_entry new r else r"
  let ?d = "d\<lparr>fd_journal := map ?g (fd_journal d)\<rparr>"
  have "entry_subject (changed_entry new r) = entry_subject r" for r
    by (simp add: entry_subject_def changed_entry_def split: option.split)
  then have rows: "entry_subject ` set (map ?g (fd_journal d)) \<subseteq> entry_subject ` set (fd_journal d)"
    by (intro image_map_same) simp
  have "traced d (d\<lparr>fd_journal := rows\<rparr>)" if "entry_subject ` set rows \<subseteq> entry_subject ` set (fd_journal d)" for rows
    using that by (intro traced_same subjects_mono) simp_all
  note this [OF rows]
  with update_journal_entry_effect [of f t i new d] traced_refl [of d] show ?thesis by (elim disjE conjE) simp_all
qed

text \<open>Deleting an entry never touches a reversal, by the invariant of the journal.\<close>

lemma traced_delete_entry:
  assumes ok: "journal_ok (fd_journal d)"
  shows "traced d (snd (delete_journal_entry v f t i d))"
  using delete_journal_entry_effect [of v f t i d]
proof (elim disjE conjE)
  let ?rows = "filter (\<lambda>r. \<not> (je_id r = i \<and> je_tenant r = t)) (fd_journal d)"
  assume open_: "\<not> entry_frozen t i d" and "\<exists>q \<in> set (fd_journal d). je_id q = i \<and> je_tenant q = t"
    and eq: "snd (delete_journal_entry v f t i d) = d\<lparr>fd_journal := drop_reversals v t i ?rows\<rparr>"
  then have same: "drop_reversals v t i ?rows = ?rows" by (rule_tac drop_reversals_idle [OF ok])
  show ?thesis unfolding eq same by (intro traced_same subjects_mono) auto
qed (simp add: traced_refl)


lemma traced_other: "other_tables d d' \<Longrightarrow> traced d d'"
  by (rule traced_same) (simp_all add: other_tables_def subjects_def)

lemmas traced_calls = traced_create_invoice traced_mark_paid traced_update_invoice traced_delete_invoice
  traced_record_payment traced_update_payment traced_delete_payment traced_post_entry traced_update_entry
  traced_reverse budget_calls_other [THEN traced_other]

lemma traced_next: "journal_ok (fd_journal d) \<Longrightarrow> traced d (finance_next v f e c d)"
  by (cases c) (simp_all add: traced_calls traced_delete_entry)

lemma next_completes: "\<exists>key. fd_idempotency (finance_next v f e c d) = complete_if_idempotent key (fd_idempotency d)"
proof (cases "\<exists>t i. c = DeleteJournalEntry t i")
  case True
  then obtain t i where "c = DeleteJournalEntry t i" by blast
  with delete_journal_entry_effect [of v f t i d]
  have "fd_idempotency (finance_next v f e c d) = complete_if_idempotent None (fd_idempotency d)"
    by (elim disjE conjE) simp_all
  then show ?thesis by blast
next
  case False
  then have "traced d (finance_next v f e c d)" by (cases c) (simp_all add: traced_calls)
  then show ?thesis by (simp add: traced_def)
qed

section \<open>The audit trail\<close>

text \<open>The outbox row that goes with an audit row.\<close>

definition announces :: "audit_row \<Rightarrow> outbox_row \<Rightarrow> bool" where
  "announces a b \<longleftrightarrow> ob_tenant b = au_tenant a \<and> ob_aggregate_type b = au_entity_type a
     \<and> ob_aggregate b = au_entity a
     \<and> ob_event_type b = ''sensei.'' @ au_entity_type a @ ''.'' @ au_action a"

definition audit_ok :: "finance_db \<Rightarrow> bool" where
  "audit_ok d \<longleftrightarrow> journal_ok (fd_journal d) \<and> list_all2 announces (fd_audit d) (fd_outbox d)
     \<and> subjects d \<subseteq> audit_subject ` set (fd_audit d)"

definition audit_grows :: "finance_db \<Rightarrow> finance_db \<Rightarrow> bool" where
  "audit_grows d d' \<longleftrightarrow> (\<exists>rows. fd_audit d' = fd_audit d @ rows) \<and> (\<exists>rows. fd_outbox d' = fd_outbox d @ rows)"

lemma audit_ok_traced:
  assumes ok: "audit_ok d" and books: "journal_ok (fd_journal d')" and traced: "traced d d'"
  shows "audit_ok d' \<and> audit_grows d d'"
  using traced unfolding traced_def
proof (elim conjE disjE exE)
  assume "fd_audit d' = fd_audit d" "fd_outbox d' = fd_outbox d" "subjects d' \<subseteq> subjects d"
  with ok books show ?thesis by (simp add: audit_ok_def audit_grows_def) blast
next
  fix e t actor action kind i meta
  let ?a = "audit_entry e 1 t actor action kind i meta" and ?b = "outbox_entry e 1 t actor action kind i meta"
  assume rows: "fd_audit d' = fd_audit d @ [?a]" "fd_outbox d' = fd_outbox d @ [?b]"
    and sub: "subjects d' \<subseteq> insert (kind, action, t, i, actor) (subjects d)"
  have "announces ?a ?b" by (simp add: announces_def audit_entry_def outbox_entry_def)
  then have "list_all2 announces (fd_audit d') (fd_outbox d')"
    using ok rows by (simp add: audit_ok_def list_all2_appendI)
  moreover have "audit_subject ?a = (kind, action, t, i, actor)"
    by (simp add: audit_subject_def audit_entry_def)
  then have "audit_subject ` set (fd_audit d') = insert (kind, action, t, i, actor) (audit_subject ` set (fd_audit d))"
    using rows by simp
  then have "subjects d' \<subseteq> audit_subject ` set (fd_audit d')" using ok sub by (auto simp: audit_ok_def)
  ultimately show ?thesis using books rows by (auto simp: audit_ok_def audit_grows_def)
qed

interpretation trail: finance_contract v "\<lambda>_. True" audit_ok audit_grows
  for v
proof
  show "audit_ok (finance_next v f e c d) \<and> audit_grows d (finance_next v f e c d)" if "audit_ok d" for d c f e
  proof (rule audit_ok_traced [OF that])
    have "journal_ok (fd_journal d)" using that by (simp add: audit_ok_def)
    then show "journal_ok (fd_journal (finance_next v f e c d))" "traced d (finance_next v f e c d)"
      using keeps_books_next traced_next by (auto simp: keeps_books_def)
  qed
  show "audit_ok d' \<and> audit_grows d d'" if "audit_ok d" "same_documents d d'" for d d'
    using that by (simp add: audit_ok_def audit_grows_def same_documents_def subjects_def)
qed (auto simp: audit_grows_def)

text \<open>C13.
  No document without its audit trail. In every run that starts with empty tables, each invoice,
  payment and journal entry has an audit row with its kind, action, tenant, identifier and author
  (for a reversal, the entry it reverses), every audit row has the outbox row that announces
  it, in the same order, and no call changes or removes an audit or outbox row.
\<close>

theorem documents_audited:
  assumes "finance_run v (\<lambda>_. True) empty_finance d"
  shows "invoice_subject ` set (fd_invoices d) \<union> payment_subject ` set (fd_payments d)
      \<union> entry_subject ` set (fd_journal d) \<subseteq> audit_subject ` set (fd_audit d)
    \<and> list_all2 announces (fd_audit d) (fd_outbox d)
    \<and> (\<forall>d'. finance_run v (\<lambda>_. True) d d' \<longrightarrow>
          take (length (fd_audit d)) (fd_audit d') = fd_audit d
        \<and> take (length (fd_outbox d)) (fd_outbox d') = fd_outbox d)"
proof -
  have ok: "audit_ok d"
    using trail.run [OF assms] by (simp add: audit_ok_def subjects_def empty_finance_def journal_ok_def)
  have "take (length (fd_audit d)) (fd_audit d') = fd_audit d
      \<and> take (length (fd_outbox d)) (fd_outbox d') = fd_outbox d" if "finance_run v (\<lambda>_. True) d d'" for d'
    using trail.run [OF that ok] by (auto simp: audit_grows_def)
  with ok show ?thesis unfolding audit_ok_def subjects_def by blast
qed

lemma documents_audited_witness:
  "list_all2 announces (fd_audit (finance_calls_run demo_finance_calls)) (fd_outbox (finance_calls_run demo_finance_calls))
   \<and> length (fd_audit (finance_calls_run demo_finance_calls)) = 4"
proof
  have "finance_run demo_server (\<lambda>_. True) empty_finance (finance_calls_run demo_finance_calls)"
    by (rule finance_calls_reach) simp
  from documents_audited [OF this] show "list_all2 announces (fd_audit (finance_calls_run demo_finance_calls))
      (fd_outbox (finance_calls_run demo_finance_calls))" by blast
  show "length (fd_audit (finance_calls_run demo_finance_calls)) = 4" by code_simp
qed


section \<open>Keyed calls\<close>

definition key_completed :: "string \<Rightarrow> idem_row list \<Rightarrow> bool" where
  "key_completed k rows \<longleftrightarrow> map_option ir_state (find (\<lambda>r. ir_key r = k) rows) = Some ''completed''"

text \<open>The key a call checks before it writes; a reversal completes its key and checks none.\<close>

fun checked_key :: "finance_call \<Rightarrow> string option" where
  "checked_key (CreateInvoice t req actor key) = key"
| "checked_key (RecordPayment t req actor key) = key"
| "checked_key (PostJournalEntry t entry key) = key"
| "checked_key _ = None"

lemma find_map_key: "find (\<lambda>r. ir_key r = k) (complete_if_idempotent key rows) =
  map_option (\<lambda>r. if key = Some k then r\<lparr>ir_state := ''completed'', ir_status := Some 200\<rparr> else r)
    (find (\<lambda>r. ir_key r = k) rows)"
  by (cases key) (induction rows, auto simp: complete_if_idempotent_def option.map_id [unfolded id_def])+

lemma key_completed_stays: "key_completed k rows \<Longrightarrow> key_completed k (complete_if_idempotent key rows)"
  by (cases "key = Some k") (auto simp: key_completed_def find_map_key)

lemma key_completed_now: "has_key k rows \<Longrightarrow> key_completed k (complete_if_idempotent (Some k) rows)"
  by (induction rows) (auto simp: key_completed_def has_key_def complete_if_idempotent_def)

lemma key_refused: "reject_if_idempotency_completed (Some k) rows = Ok () \<longleftrightarrow> \<not> key_completed k rows"
  by (simp add: reject_if_idempotency_completed_def key_completed_def)

text \<open>A keyed call that wrote found its key open and completed it.\<close>

lemma keyed_next:
  assumes "checked_key c = Some k" and "finance_next v f e c d \<noteq> d"
  shows "\<not> key_completed k (fd_idempotency d)
    \<and> fd_idempotency (finance_next v f e c d) = complete_if_idempotent (Some k) (fd_idempotency d)"
proof (cases c)
  case (CreateInvoice t req actor key)
  with assms create_invoice_effect [of v f e t req actor key d] show ?thesis
    by (auto simp: key_refused audited_def)
next
  case (RecordPayment t req actor key)
  with assms record_payment_effect [of f e t req actor key d] show ?thesis
    by (auto simp: key_refused audited_def)
next
  case (PostJournalEntry t entry key)
  with assms post_journal_entry_effect [of f e t entry key d] show ?thesis
    by (auto simp: key_refused audited_def)
qed (use assms in simp_all)

lemma key_stays_in_calls:
  "key_completed k (fd_idempotency d) \<Longrightarrow>
   key_completed k (fd_idempotency (fold (\<lambda>(f, e, c). finance_next v f e c) calls d))"
proof (induction calls arbitrary: d)
  case (Cons x calls)
  obtain f e c where "x = (f, e, c)" by (cases x)
  moreover have "key_completed k (fd_idempotency (finance_next v f e c d))"
    using next_completes [of v f e c d] key_completed_stays Cons.prems by metis
  ultimately show ?case using Cons.IH by simp
qed simp

text \<open>C14.
  An idempotency key takes effect once. When a request with a key whose record exists has
  created an invoice, recorded a payment or posted an entry, the record was not completed before
  and is completed in the same transaction; every later request of these kinds with the
  key leaves all tables alone, whatever other finance calls came between and whatever the
  server fails. (Until the record is deleted: the middleware does that when it aborts late.)
\<close>

theorem keyed_call_once:
  assumes "checked_key c = Some k" and "has_key k (fd_idempotency d)" and "finance_next v f e c d \<noteq> d"
    and "checked_key c' = Some k" and "d' = fold (\<lambda>(f, e, c). finance_next v f e c) calls (finance_next v f e c d)"
  shows "\<not> key_completed k (fd_idempotency d) \<and> key_completed k (fd_idempotency (finance_next v f e c d))
    \<and> finance_next v f' e' c' d' = d'"
proof -
  note first = keyed_next [OF assms(1,3)]
  then have done_: "key_completed k (fd_idempotency (finance_next v f e c d))"
    using key_completed_now [OF assms(2)] by simp
  then have "key_completed k (fd_idempotency d')" unfolding assms(5) by (rule key_stays_in_calls)
  then have "finance_next v f' e' c' d' = d'" using keyed_next [OF assms(4)] by blast
  with first done_ show ?thesis by blast
qed

text \<open>A keyed invoice, a reversal in between, and the retry.\<close>

definition keyed_finance :: finance_db where
  "keyed_finance = empty_finance\<lparr>fd_idempotency := claim_insert ''k1'' ''h'' 500 []\<rparr>"

definition demo_invoice_call :: finance_call where
  "demo_invoice_call = CreateInvoice 9 \<lparr>cr_customer = 3, cr_customer_name = ''acme'', cr_items =
      [\<lparr>cl_description = ''pump'', cl_quantity = 4, cl_unit_price = 25, cl_product = Some 2\<rparr>],
      cr_tax_percentage = 10, cr_currency = ''USD'', cr_due = 90, cr_notes = []\<rparr> 7 (Some ''k1'')"

lemma keyed_call_once_witness:
  "let d1 = finance_next demo_server no_faults (demo_at 0) demo_invoice_call keyed_finance;
       d2 = finance_next demo_server no_faults (demo_at 1) (DeleteInvoice 9 5) d1
   in length (fd_invoices d1) = 1 \<and> finance_next demo_server no_faults (demo_at 2) demo_invoice_call d2 = d2"
proof -
  let ?d1 = "finance_next demo_server no_faults (demo_at 0) demo_invoice_call keyed_finance"
  let ?d2 = "finance_next demo_server no_faults (demo_at 1) (DeleteInvoice 9 5) ?d1"
  have "length (fd_invoices ?d1) = 1" "length (fd_invoices keyed_finance) = 0" by code_simp+
  moreover have "finance_next demo_server no_faults (demo_at 2) demo_invoice_call ?d2 = ?d2"
    by (rule keyed_call_once [where c = demo_invoice_call and k = "''k1''" and d = keyed_finance
        and calls = "[(no_faults, demo_at 1, DeleteInvoice 9 5)]", THEN conjunct2, THEN conjunct2])
      (use calculation in \<open>auto simp: demo_invoice_call_def keyed_finance_def has_key_def claim_insert_def\<close>)
  ultimately show ?thesis unfolding Let_def by blast
qed


section \<open>Reversal\<close>

lemma mirror_entry_sel [simp]:
  "je_id (mirror_entry f e t actor r) = fresh e 0" "je_tenant (mirror_entry f e t actor r) = t"
  "je_number (mirror_entry f e t actor r) = ''REV-'' @ je_number r"
  "je_debit (mirror_entry f e t actor r) = je_credit r" "je_credit (mirror_entry f e t actor r) = je_debit r"
  "je_amount (mirror_entry f e t actor r) = je_amount r" "je_currency (mirror_entry f e t actor r) = je_currency r"
  "jr_status (mirror_entry f e t actor r) = ''posted''" "jr_reversal_of (mirror_entry f e t actor r) = Some (je_id r)"
  by (simp_all add: mirror_entry_def)

lemma insert_journal_Ok:
  "insert_journal f r d = Inr (doc, d') \<longleftrightarrow> fits_numeric [je_amount r]
     \<and> (\<forall>q \<in> set (fd_journal d). je_id q \<noteq> je_id r \<and> (je_tenant q, je_number q) \<noteq> (je_tenant r, je_number r))
     \<and> doc = journal_row_to_domain (r\<lparr>je_amount := round4 (je_amount r)\<rparr>)
     \<and> d' = d\<lparr>fd_journal := fd_journal d @ [r\<lparr>je_amount := round4 (je_amount r)\<rparr>]\<rparr>"
  unfolding insert_journal_def insert_row_def Let_def list_ex_iff by auto

lemma entry_reversed_Ok:
  assumes "reverse_journal_entry f e t i actor key d = (Ok m, d')"
  shows "\<exists>orig. journal_at t i d = Some orig
    \<and> (\<forall>q \<in> set (fd_journal d). je_id q \<noteq> fresh e 0 \<and> (je_tenant q, je_number q) \<noteq> (t, ''REV-'' @ je_number orig))
    \<and> m = journal_row_to_domain ((mirror_entry f e t actor orig)\<lparr>je_amount := round4 (je_amount orig)\<rparr>)
    \<and> fd_journal d' = reversed_rows t i ((mirror_entry f e t actor orig)\<lparr>je_amount := round4 (je_amount orig)\<rparr>)
        (fd_journal d)"
proof -
  have "\<exists>orig d1. journal_at t i d = Some orig \<and> insert_journal f (mirror_entry f e t actor orig) d = Inr (m, d1)
      \<and> fd_journal d' = fd_journal (mark_entry_reversed t i d1)"
    using assms unfolding reverse_journal_entry_def
    by (auto dest!: in_tenant_tx_Ok complete_key_Ok write_business_audit_Ok)
  then obtain orig d1 where orig: "journal_at t i d = Some orig"
    "insert_journal f (mirror_entry f e t actor orig) d = Inr (m, d1)"
    "fd_journal d' = fd_journal (mark_entry_reversed t i d1)" by blast
  have rows: "fd_journal (mark_entry_reversed t i (d\<lparr>fd_journal := fd_journal d @ [r]\<rparr>))
      = reversed_rows t i r (fd_journal d)" for r
    by (simp add: mark_entry_reversed_def reversed_rows_def)
  show ?thesis
    using orig(2,3) unfolding insert_journal_Ok mirror_entry_sel
    by (elim conjE, hypsubst, unfold rows) (intro exI [of _ orig] conjI orig(1); assumption?; rule refl)
qed

lemma moves_status [simp]: "moves a (r\<lparr>jr_status := s\<rparr>) = moves a r"
  by (simp add: moves_def)

lemma balance_map:
  assumes "\<And>r. moves a (g r) = moves a r" and "\<And>r. je_tenant (g r) = je_tenant r"
  shows "sum_list (map (moves a) (filter (\<lambda>r. je_tenant r = t) (map g rows))) =
         sum_list (map (moves a) (filter (\<lambda>r. je_tenant r = t) rows))"
  by (induction rows) (simp_all add: assms)

lemma balance_reversed:
  "sum_list (map (moves a) (filter (\<lambda>r. je_tenant r = t') (reversed_rows t i m rows))) =
   sum_list (map (moves a) (filter (\<lambda>r. je_tenant r = t') rows)) + (if je_tenant m = t' then moves a m else 0)"
  unfolding reversed_rows_def by (subst balance_map) (auto split: if_splits)

lemma reversed_rows_mem:
  "m \<in> set (reversed_rows t i m rows) \<or> je_id m = i \<and> je_tenant m = t"
  "r \<in> set rows \<Longrightarrow> je_id r = i \<Longrightarrow> je_tenant r = t \<Longrightarrow> r\<lparr>jr_status := ''reversed''\<rparr> \<in> set (reversed_rows t i m rows)"
proof -
  let ?g = "\<lambda>r. if je_id r = i \<and> je_tenant r = t then r\<lparr>jr_status := ''reversed''\<rparr> else r"
  have image: "?g x \<in> set (reversed_rows t i m rows)" if "x \<in> set (rows @ [m])" for x
    unfolding reversed_rows_def set_map using that by (rule imageI)
  show "m \<in> set (reversed_rows t i m rows) \<or> je_id m = i \<and> je_tenant m = t"
    using image [of m] by (cases "je_id m = i \<and> je_tenant m = t") simp_all
  show "r\<lparr>jr_status := ''reversed''\<rparr> \<in> set (reversed_rows t i m rows)"
    if "r \<in> set rows" "je_id r = i" "je_tenant r = t"
    using image [of r] that by simp
qed

text \<open>A reversed entry is not reversed again: its reversal has the number a second one would take.\<close>

lemma reversed_stays:
  assumes ok: "journal_ok (fd_journal d)" and m: "m \<in> set (fd_journal d)" "jr_reversal_of m = Some i"
    "je_tenant m = t" "jr_status m \<noteq> ''draft''"
    and run: "finance_run v (\<lambda>_. True) d d''"
  shows "\<exists>err. fst (reverse_journal_entry f e t i actor key d'') = Err err"
proof (rule ccontr)
  assume "\<nexists>err. fst (reverse_journal_entry f e t i actor key d'') = Err err"
  then obtain x where "fst (reverse_journal_entry f e t i actor key d'') = Ok x" by (metis sum.exhaust)
  then obtain d3 where "reverse_journal_entry f e t i actor key d'' = (Ok x, d3)" by (metis prod.collapse)
  from entry_reversed_Ok [OF this] obtain orig where at: "journal_at t i d'' = Some orig"
    and free: "\<forall>q \<in> set (fd_journal d''). (je_tenant q, je_number q) \<noteq> (t, ''REV-'' @ je_number orig)" by blast
  have ok'': "journal_ok (fd_journal d'')" and "entries_kept d d''" using books.run [OF run ok] by blast+
  then obtain m' where "m' \<in> set (fd_journal d'')" "same_content m m'"
    using m unfolding entries_kept_def by blast
  then have m': "m' \<in> set (fd_journal d'')" "jr_reversal_of m' = Some i" "je_tenant m' = t"
    using m by (auto simp: same_content_def)
  then obtain q where q: "q \<in> set (fd_journal d'')" "mirrors m' q"
    using reversal_of_row [OF ok'' m'(1)] by auto
  then have "q = orig" using journal_at_unique [OF ok'' q(1)] at m' by (auto simp: mirrors_def)
  with q free m' show False by (auto simp: mirrors_def)
qed

text \<open>C12.
  A reversal cancels the entry, once. A successful reversal of an entry of a ledger reached by any
  run returns the mirror of the entry, takes from the balance of every account of the tenant
  what the entry moved there and changes no balance of another tenant, marks the entry
  reversed; and in every run from then on no other reversal of the entry succeeds.
\<close>

theorem reversal_exact:
  assumes "finance_run v (\<lambda>_. True) d0 d" and "fd_journal d0 = []"
    and "reverse_journal_entry f e t i actor key d = (Ok m, d')"
  shows "\<exists>orig. journal_at t i d = Some orig
    \<and> je_debit m = je_credit orig \<and> je_credit m = je_debit orig \<and> je_amount m = je_amount orig
    \<and> (\<forall>t' a. balance_of t' a d' = balance_of t' a d - (if t' = t then moves a orig else 0))
    \<and> map_option jr_status (journal_at t i d') = Some ''reversed''
    \<and> (\<forall>d'' f' e' actor' key'. finance_run v (\<lambda>_. True) d' d'' \<longrightarrow>
          (\<exists>err. fst (reverse_journal_entry f' e' t i actor' key' d'') = Err err))"
proof -
  have ok: "journal_ok (fd_journal d)"
    using books.run [OF assms(1)] assms(2) by (simp add: journal_ok_def)
  from entry_reversed_Ok [OF assms(3)] obtain orig where at: "journal_at t i d = Some orig"
    and new: "\<forall>q \<in> set (fd_journal d). je_id q \<noteq> fresh e 0"
    and m: "m = journal_row_to_domain ((mirror_entry f e t actor orig)\<lparr>je_amount := round4 (je_amount orig)\<rparr>)"
    and rows: "fd_journal d' = reversed_rows t i ((mirror_entry f e t actor orig)\<lparr>je_amount := round4 (je_amount orig)\<rparr>)
        (fd_journal d)" by blast
  let ?m = "(mirror_entry f e t actor orig)\<lparr>je_amount := round4 (je_amount orig)\<rparr>"
  have orig: "orig \<in> set (fd_journal d)" "je_id orig = i" "je_tenant orig = t"
    using find_Some_set [OF at [unfolded journal_at_def]] by simp_all
  then have amount: "round4 (je_amount orig) = je_amount orig" using ok by (simp add: journal_ok_def)
  have "moves a ((mirror_entry f e s actor orig)\<lparr>je_amount := round4 (je_amount orig)\<rparr>) = - moves a orig" for a s
    by (simp add: moves_def amount)
  then have balance: "balance_of t' a d' = balance_of t' a d - (if t' = t then moves a orig else 0)" for t' a
    by (simp add: balance_of_def rows balance_reversed)
  have d': "journal_ok (fd_journal d')"
    using keeps_reverse_entry [OF ok, of f e t i actor key] assms(3) by (simp add: keeps_books_def)
  have marked: "map_option jr_status (journal_at t i d') = Some ''reversed''"
    using journal_at_unique [OF d', of "orig\<lparr>jr_status := ''reversed''\<rparr>"] reversed_rows_mem(2) [OF orig] orig
    by (simp add: rows)
  have "?m \<in> set (fd_journal d')"
    using reversed_rows_mem(1) [of ?m t i "fd_journal d"] new orig by (auto simp: rows)
  then have "\<exists>err. fst (reverse_journal_entry f' e' t i actor' key' d'') = Err err"
    if "finance_run v (\<lambda>_. True) d' d''" for d'' f' e' actor' key'
    using that orig by (intro reversed_stays [OF d', of ?m]) simp_all
  with at balance marked show ?thesis
    by (intro exI [of _ orig]) (simp add: m journal_row_to_domain_def journal_entry.truncate_def amount)
qed

lemma reversal_exact_witness:
  "balance_of 9 ''1200'' (finance_calls_run (take 4 demo_finance_calls)) = 110
   \<and> balance_of 9 ''1200'' (snd (reverse_journal_entry no_faults (demo_at 5) 9 30 7 None
        (finance_calls_run (take 4 demo_finance_calls)))) = 0"
proof -
  let ?d = "finance_calls_run (take 4 demo_finance_calls)"
  let ?r = "reverse_journal_entry no_faults (demo_at 5) 9 30 7 None ?d"
  have b: "balance_of 9 ''1200'' ?d = 110" "isl (fst ?r) = False"
    "map_option (moves ''1200'') (journal_at 9 30 ?d) = Some 110"
    by code_simp+
  then obtain m where r: "?r = (Ok m, snd ?r)" by (metis isl_def obj_sumE prod.collapse)
  have run: "finance_run demo_server (\<lambda>_. True) empty_finance ?d"
    by (rule finance_calls_reach) simp
  have "fd_journal empty_finance = []" by (simp add: empty_finance_def)
  from reversal_exact [OF run this r] b show ?thesis by auto
qed


section \<open>What the tables permit\<close>

text \<open>
  An entry that was posted is a draft to the guards of the updates and deletions, because the
  default status of the column is \<open>draft\<close>; they stop at entries of reversals only.
\<close>

lemma posted_entry_open:
  assumes "post_journal_entry f e t entry key d = (Ok m, d')"
  shows "\<not> entry_frozen t (fresh e 0) d'"
proof -
  have "\<exists>d1. insert_journal f (new_entry e t entry) d = Inr (m, d1) \<and> fd_journal d' = fd_journal d1"
    using assms unfolding post_journal_entry_def
    by (auto dest!: in_tenant_tx_Ok reject_completed_Ok complete_key_Ok write_business_audit_Ok)
  then have new: "\<forall>q \<in> set (fd_journal d). je_id q \<noteq> fresh e 0"
    and rows: "fd_journal d' = fd_journal d @ [(new_entry e t entry)\<lparr>je_amount := round4 (je_amount entry)\<rparr>]"
    by (auto simp: insert_journal_Ok new_entry_def)
  have "find (\<lambda>r. je_id r = fresh e 0 \<and> je_tenant r = t) (xs @ [r])
      = (if je_id r = fresh e 0 \<and> je_tenant r = t then Some r else None)"
    if "\<forall>q \<in> set xs. je_id q \<noteq> fresh e 0" for xs and r :: journal_row
    using that by (induction xs) auto
  from this [OF new] have "journal_at t (fresh e 0) d' = Some ((new_entry e t entry)\<lparr>je_amount := round4 (je_amount entry)\<rparr>)"
    unfolding journal_at_def rows by (simp add: new_entry_def)
  then show ?thesis by (simp add: entry_frozen_def new_entry_def journal_default_status_def)
qed

text \<open>The payment method \<open>card\<close> of the request's documentation is refused by the table's \<open>CHECK\<close>.\<close>

lemma unknown_method_refused:
  "rp_method req \<notin> payment_methods \<Longrightarrow> \<exists>err. fst (record_payment f e t req actor key d) = Err err"
proof (rule ccontr)
  assume "rp_method req \<notin> payment_methods" "\<nexists>err. fst (record_payment f e t req actor key d) = Err err"
  then obtain m d' where "record_payment f e t req actor key d = (Ok m, d')"
    by (metis prod.collapse sum.exhaust)
  with \<open>rp_method req \<notin> payment_methods\<close> show False unfolding record_payment_def
    by (auto dest!: in_tenant_tx_Ok simp: insert_payment_def new_payment_def split: if_splits)
qed

end
