(* ===== verification/Finance_Concurrency.thy ===== *)
theory Finance_Concurrency
  imports Finance_Service
begin

text \<open>
  The finance service under concurrency. Seven methods of
  \<open>sensei-services/src/finance/database.rs\<close> read what they check with plain \<open>SELECT\<close>s
  under READ COMMITTED and then write without checking it again (the flip of
  \<open>mark_invoice_paid\<close> re-checks the status only). Here every read of these seven is a step
  of its own, and any number of calls interleave. The other methods check nothing before they
  write but their idempotency record, or lock the row that they check
  (\<open>reverse_journal_entry\<close>, \<open>FOR UPDATE\<close>); they are one step, \<open>finance_next\<close>.
\<close>

section \<open>Where a call stands\<close>

text \<open>
  A call between two statements, with what it has read: \<open>PayChecked\<close>, \<open>PayRead\<close> and
  \<open>PaySummed\<close> are \<open>mark_invoice_paid\<close> behind its three reads, the others an update or a
  delete behind its one.
\<close>

datatype fin_txn =
    PayChecked uuid uuid uuid
  | PayRead uuid uuid uuid invoice_row
  | PaySummed uuid uuid uuid invoice_row decimal
  | InvoiceOpen uuid uuid invoice
  | InvoiceDoomed uuid uuid
  | PaymentOpen uuid uuid payment
  | PaymentDoomed uuid uuid
  | EntryOpen uuid uuid journal_entry
  | EntryDoomed uuid uuid

fun reads_first :: "finance_call \<Rightarrow> bool" where
  "reads_first (MarkInvoicePaid t i pay) = True"
| "reads_first (UpdateInvoice t i new) = True"
| "reads_first (DeleteInvoice t i) = True"
| "reads_first (UpdatePayment t i new) = True"
| "reads_first (DeletePayment t i) = True"
| "reads_first (UpdateJournalEntry t i new) = True"
| "reads_first (DeleteJournalEntry t i) = True"
| "reads_first _ = False"

fun call_of :: "fin_txn \<Rightarrow> finance_call" where
  "call_of (PayChecked t i pay) = MarkInvoicePaid t i pay"
| "call_of (PayRead t i pay row) = MarkInvoicePaid t i pay"
| "call_of (PaySummed t i pay row cumulative) = MarkInvoicePaid t i pay"
| "call_of (InvoiceOpen t i new) = UpdateInvoice t i new"
| "call_of (InvoiceDoomed t i) = DeleteInvoice t i"
| "call_of (PaymentOpen t i new) = UpdatePayment t i new"
| "call_of (PaymentDoomed t i) = DeletePayment t i"
| "call_of (EntryOpen t i new) = UpdateJournalEntry t i new"
| "call_of (EntryDoomed t i) = DeleteJournalEntry t i"

section \<open>One statement\<close>

definition payment_exists :: "uuid \<Rightarrow> uuid \<Rightarrow> uuid \<Rightarrow> finance_db \<Rightarrow> bool" where
  "payment_exists t i pay d =
     list_ex (\<lambda>p. py_id p = pay \<and> py_invoice p = Some i \<and> py_tenant p = t) (fd_payments d)"

text \<open>The first read of a call; a call that it refuses has changed nothing.\<close>

fun fin_begin :: "finance_call \<Rightarrow> finance_db \<Rightarrow> fin_txn option" where
  "fin_begin (MarkInvoicePaid t i pay) d =
     (if payment_exists t i pay d then Some (PayChecked t i pay) else None)"
| "fin_begin (UpdateInvoice t i new) d =
     (if invoice_frozen t i d then None else Some (InvoiceOpen t i new))"
| "fin_begin (DeleteInvoice t i) d =
     (if invoice_frozen t i d then None else Some (InvoiceDoomed t i))"
| "fin_begin (UpdatePayment t i new) d =
     (if payment_settled t i d then None else Some (PaymentOpen t i new))"
| "fin_begin (DeletePayment t i) d =
     (if payment_settled t i d then None else Some (PaymentDoomed t i))"
| "fin_begin (UpdateJournalEntry t i new) d =
     (if entry_frozen t i d then None else Some (EntryOpen t i new))"
| "fin_begin (DeleteJournalEntry t i) d =
     (if entry_frozen t i d then None else Some (EntryDoomed t i))"
| "fin_begin _ d = None"

text \<open>The second and third read of \<open>mark_invoice_paid\<close>.\<close>

fun fin_read :: "fin_txn \<Rightarrow> finance_db \<Rightarrow> fin_txn option" where
  "fin_read (PayChecked t i pay) d =
     (case invoice_at t i d of
        None \<Rightarrow> None
      | Some row \<Rightarrow>
          if iv_status row = ''paid'' \<or> iv_status row = ''cancelled'' then None
          else Some (PayRead t i pay row))"
| "fin_read (PayRead t i pay row) d =
     (let cumulative = paid_sum t i d
      in if cumulative + 1 / 100 < iv_total row then None
         else Some (PaySummed t i pay row cumulative))"
| "fin_read _ d = None"

text \<open>
  The writing statement and its commit, one step: the \<open>UPDATE\<close> or \<open>DELETE\<close> locks what it
  hits until the commit. It sees the tables of that moment; a statement that fails or hits nothing
  ends the call with no effect.
\<close>

fun writes_next :: "fin_txn \<Rightarrow> bool" where
  "writes_next (PayChecked t i pay) = False"
| "writes_next (PayRead t i pay row) = False"
| "writes_next _ = True"

definition if_written :: "string + 'a \<times> finance_db \<Rightarrow> finance_db \<Rightarrow> finance_db" where
  "if_written r d = (case r of Inl e \<Rightarrow> d | Inr (x, d') \<Rightarrow> d')"

fun fin_write :: "fin_server \<Rightarrow> pg \<Rightarrow> env \<Rightarrow> fin_txn \<Rightarrow> finance_db \<Rightarrow> finance_db" where
  "fin_write v f e (PaySummed t i pay row cumulative) d = snd (set_paid (clock e 0) t i d)"
| "fin_write v f e (InvoiceOpen t i new) d = if_written (write_invoice f v t i new d) d"
| "fin_write v f e (InvoiceDoomed t i) d =
     (case delete_rows (\<lambda>r. iv_id r = i \<and> iv_tenant r = t) (fd_invoices d) of
        (n, rows) \<Rightarrow> if n = 0 then d else d\<lparr>fd_invoices := rows,
           fd_payments := drop_payments v t i (fd_payments d)\<rparr>)"
| "fin_write v f e (PaymentOpen t i new) d = if_written (write_payment f t i new d) d"
| "fin_write v f e (PaymentDoomed t i) d =
     (case delete_rows (\<lambda>p. py_id p = i \<and> py_tenant p = t) (fd_payments d) of
        (n, rows) \<Rightarrow> if n = 0 then d else d\<lparr>fd_payments := rows\<rparr>)"
| "fin_write v f e (EntryOpen t i new) d =
     (if journal_at t i d \<noteq> None \<and> \<not> fits_numeric [je_amount new] then d
      else (case update_rows (\<lambda>r. je_id r = i \<and> je_tenant r = t) (changed_entry new) (fd_journal d) of
              (row, rows) \<Rightarrow> d\<lparr>fd_journal := rows\<rparr>))"
| "fin_write v f e (EntryDoomed t i) d =
     (case delete_rows (\<lambda>r. je_id r = i \<and> je_tenant r = t) (fd_journal d) of
        (n, rows) \<Rightarrow> if n = 0 then d else d\<lparr>fd_journal := drop_reversals v t i rows\<rparr>)"
| "fin_write v f e _ d = d"

text \<open>What a call has read is still so.\<close>

fun still_reads :: "fin_txn \<Rightarrow> finance_db \<Rightarrow> bool" where
  "still_reads (PaySummed t i pay row cumulative) d \<longleftrightarrow>
     payment_exists t i pay d \<and> invoice_at t i d = Some row \<and> paid_sum t i d = cumulative"
| "still_reads (InvoiceOpen t i new) d \<longleftrightarrow> \<not> invoice_frozen t i d"
| "still_reads (InvoiceDoomed t i) d \<longleftrightarrow> \<not> invoice_frozen t i d"
| "still_reads (PaymentOpen t i new) d \<longleftrightarrow> \<not> payment_settled t i d"
| "still_reads (PaymentDoomed t i) d \<longleftrightarrow> \<not> payment_settled t i d"
| "still_reads (EntryOpen t i new) d \<longleftrightarrow> \<not> entry_frozen t i d"
| "still_reads (EntryDoomed t i) d \<longleftrightarrow> \<not> entry_frozen t i d"
| "still_reads _ d \<longleftrightarrow> True"

section \<open>Interleaved calls\<close>

text \<open>
  Runs of statements of overlapping calls from the tables \<open>d0\<close>: the committed states, the last
  one first, and the calls in flight. A call may be lost at any time. With \<open>current\<close>, a call
  writes only if what it has read is still so, as it would be under row locks or SERIALIZABLE;
  without it, always.
\<close>

inductive fin_interleaved ::
    "fin_server \<Rightarrow> (finance_call \<Rightarrow> bool) \<Rightarrow> bool \<Rightarrow> finance_db \<Rightarrow> finance_db list \<Rightarrow> fin_txn option list \<Rightarrow> bool"
  for v ok current d0 where
  start: "fin_interleaved v ok current d0 [d0] []"
| whole: "fin_interleaved v ok current d0 (d # h) ss \<Longrightarrow> ok c \<Longrightarrow> \<not> reads_first c
    \<Longrightarrow> fin_interleaved v ok current d0 (finance_next v f e c d # d # h) ss"
| begins: "fin_interleaved v ok current d0 (d # h) ss \<Longrightarrow> ok c \<Longrightarrow> fin_begin c d = Some x
    \<Longrightarrow> fin_interleaved v ok current d0 (d # h) (ss @ [Some x])"
| reads: "fin_interleaved v ok current d0 (d # h) ss \<Longrightarrow> s < length ss \<Longrightarrow> ss ! s = Some x
    \<Longrightarrow> fin_read x d = Some y \<Longrightarrow> fin_interleaved v ok current d0 (d # h) (ss[s := Some y])"
| writes: "fin_interleaved v ok current d0 (d # h) ss \<Longrightarrow> s < length ss \<Longrightarrow> ss ! s = Some x
    \<Longrightarrow> writes_next x \<Longrightarrow> (current \<Longrightarrow> still_reads x d)
    \<Longrightarrow> fin_interleaved v ok current d0 (fin_write v f e x d # d # h) (ss[s := None])"
| lost: "fin_interleaved v ok current d0 (d # h) ss
    \<Longrightarrow> fin_interleaved v ok current d0 (d # h) (ss[s := None])"
| elsewhere: "fin_interleaved v ok current d0 (d # h) ss \<Longrightarrow> same_documents d d'
    \<Longrightarrow> fin_interleaved v ok current d0 (d' # d # h) ss"

text \<open>With current reads, a write is the whole call at that moment, on a server without faults.\<close>

definition checked :: "fin_txn \<Rightarrow> bool" where
  "checked x \<longleftrightarrow> (case x of
       PayRead t i pay row \<Rightarrow> iv_status row \<noteq> ''paid'' \<and> iv_status row \<noteq> ''cancelled''
     | PaySummed t i pay row cumulative \<Rightarrow> iv_status row \<noteq> ''paid'' \<and> iv_status row \<noteq> ''cancelled''
         \<and> iv_total row \<le> cumulative + 1 / 100
     | _ \<Rightarrow> True)"

lemma fin_begin_call: "fin_begin c d = Some x \<Longrightarrow> call_of x = c \<and> checked x \<and> reads_first c"
  by (cases c) (auto simp: checked_def split: if_splits)

lemma fin_read_call: "fin_read x d = Some y \<Longrightarrow> checked x \<Longrightarrow> call_of y = call_of x \<and> checked y"
  by (cases x) (auto simp: checked_def Let_def split: if_splits option.splits)

lemma find_update: "find hit rows = None \<Longrightarrow> map (\<lambda>r. if hit r then g r else r) rows = rows"
  by (induction rows) (auto split: if_splits)

definition quiet :: "pg \<Rightarrow> pg" where
  "quiet f = f\<lparr>stmt_error := \<lambda>_. None\<rparr>"

lemma quiet_sel [simp]: "stmt_error (quiet f) = (\<lambda>_. None)" "range_error (quiet f) = range_error f"
  "check_error (quiet f) = check_error f" "null_error (quiet f) = null_error f"
  by (simp_all add: quiet_def)

lemma quiet_decode: "payment_row_to_domain (quiet f) = payment_row_to_domain f"
  by (rule ext) (simp add: payment_row_to_domain_def split: option.split)

lemma quiet_writes [simp]: "write_invoice (quiet f) = write_invoice f" "write_payment (quiet f) = write_payment f"
  by (intro ext, simp add: write_invoice_def, intro ext, simp only: write_payment_def quiet_decode quiet_sel)

lemmas quiet_call = in_tenant_tx_no_faults sql_read_def sql_no_faults tx_bind_def tx_then_def refuse_if_def
  some_or_def tx_return_def tx_fail_def

lemma write_none:
  "write_invoice f v t i new d = Inr (None, d') \<Longrightarrow> d' = d"
  "write_payment f t i pnew d = Inr (None, d') \<Longrightarrow> d' = d"
  by (auto simp: write_invoice_def write_payment_def update_rows_def Let_def find_update
      split: if_splits option.splits prod.splits sum.splits)

lemma write_is_call:
  assumes "writes_next x" and "checked x" and "still_reads x d"
  shows "fin_write v f e x d = finance_next v (quiet f) e (call_of x) d"
proof (cases x)
  case (PaySummed t i pay row cumulative)
  with assms have pre: "payment_exists t i pay d" "invoice_at t i d = Some row" "\<not> paid_sum t i d + 1 / 100 < iv_total row"
      "iv_status row \<noteq> ''paid''" "iv_status row \<noteq> ''cancelled''" by (auto simp: checked_def)
  obtain r d' where set: "set_paid (clock e 0) t i d = (r, d')" by (cases "set_paid (clock e 0) t i d")
  have "d' = d" if "r = None"
    using set that by (auto simp: set_paid_def update_rows_def find_update)
  then show ?thesis
    using pre set PaySummed
    by (cases r) (simp_all add: mark_invoice_paid_def quiet_call payment_exists_def)
next
  case (InvoiceOpen t i new)
  with assms have "\<not> invoice_frozen t i d" by simp
  with InvoiceOpen show ?thesis
    by (auto simp: update_invoice_def quiet_call if_written_def split: option.splits sum.splits dest: write_none)
next
  case (InvoiceDoomed t i)
  with assms show ?thesis
    by (auto simp: delete_invoice_def quiet_call split: prod.splits)
next
  case (PaymentOpen t i new)
  with assms have "\<not> payment_settled t i d" by simp
  with PaymentOpen show ?thesis
    by (auto simp: update_payment_def quiet_call if_written_def split: option.splits sum.splits dest: write_none)
next
  case (PaymentDoomed t i)
  with assms show ?thesis
    by (auto simp: delete_payment_def quiet_call split: prod.splits)
next
  case (EntryOpen t i new)
  with assms show ?thesis
    by (auto simp: update_journal_entry_def quiet_call update_rows_def find_update split: option.splits)
next
  case (EntryDoomed t i)
  with assms show ?thesis
    by (auto simp: delete_journal_entry_def quiet_call split: prod.splits)
qed (use assms in auto)

section \<open>Runs whose reads stay current\<close>

lemma set_update_Some: "Some x \<in> set (ss[s := v]) \<Longrightarrow> Some x = v \<or> Some x \<in> set ss"
  using set_update_subset_insert [of ss s v] by blast

lemma in_flight_ok:
  "fin_interleaved v ok current d0 h ss \<Longrightarrow> Some x \<in> set ss \<Longrightarrow> checked x \<and> ok (call_of x)"
proof (induction arbitrary: x rule: fin_interleaved.induct)
  case (begins d h ss c y)
  then show ?case using fin_begin_call [of c d y] by auto
next
  case (reads d h ss s y z)
  then have "checked y \<and> ok (call_of y)" by (metis nth_mem)
  with reads show ?case using fin_read_call [of y d z] by (auto dest: set_update_Some)
qed (auto dest: set_update_Some)

text \<open>They are runs of calls one after another, between any two of their states.\<close>

lemma current_run:
  "fin_interleaved v ok True d0 h ss \<Longrightarrow>
     h \<noteq> [] \<and> finance_run v ok d0 (hd h)
     \<and> (\<forall>d \<in> set h. finance_run v ok d0 d \<and> finance_run v ok d (hd h))"
proof (induction rule: fin_interleaved.induct)
  case (writes d h ss s x f e)
  then have x: "Some x \<in> set ss" by (metis nth_mem)
  from in_flight_ok [OF writes.hyps(1) x] have "checked x" "ok (call_of x)" by auto
  then have "fin_write v f e x d = finance_next v (quiet f) e (call_of x) d"
    using writes by (intro write_is_call) simp_all
  then show ?case using writes.IH \<open>ok (call_of x)\<close> by (auto intro: finance_run.intros)
qed (auto intro: finance_run.intros)

lemma finance_run_any: "finance_run v ok d0 d \<Longrightarrow> finance_run v (\<lambda>_. True) d0 d"
  by (induction rule: finance_run.induct) (auto intro: finance_run.intros)

section \<open>What a write can do to invoices\<close>






section \<open>Paid is covered\<close>












section \<open>Reversals stay linked\<close>

text \<open>
  What no interleaving breaks: a reversal names an entry of its tenant and carries that entry's
  number, and that entry is marked reversed.
\<close>

definition names_reversed :: "journal_row \<Rightarrow> journal_row \<Rightarrow> bool" where
  "names_reversed r q \<longleftrightarrow> jr_reversal_of r = Some (je_id q) \<and> je_tenant r = je_tenant q
     \<and> je_number r = ''REV-'' @ je_number q \<and> jr_status q = ''reversed''"

definition numbers_kept :: "journal_row list \<Rightarrow> bool" where
  "numbers_kept rows \<longleftrightarrow> distinct (map je_id rows) \<and> distinct (map (\<lambda>r. (je_tenant r, je_number r)) rows)"

definition links_ok :: "journal_row list \<Rightarrow> bool" where
  "links_ok rows \<longleftrightarrow> numbers_kept rows
     \<and> (\<forall>r \<in> set rows. jr_reversal_of r \<noteq> None \<longrightarrow> (\<exists>q \<in> set rows. names_reversed r q))"

text \<open>A change of rows that keeps their keys and links and withdraws no reversal.\<close>

definition same_links :: "(journal_row \<Rightarrow> journal_row) \<Rightarrow> bool" where
  "same_links g \<longleftrightarrow> (\<forall>r. je_id (g r) = je_id r \<and> je_tenant (g r) = je_tenant r \<and> je_number (g r) = je_number r
     \<and> jr_reversal_of (g r) \<in> {None, jr_reversal_of r}
     \<and> (jr_status r = ''reversed'' \<longrightarrow> jr_status (g r) = ''reversed''))"

lemma numbers_kept_map: "same_links g \<Longrightarrow> numbers_kept (map g rows) = numbers_kept rows"
  by (simp add: numbers_kept_def same_links_def comp_def)

lemma names_reversed_map:
  "same_links g \<Longrightarrow> jr_reversal_of (g r) \<noteq> None \<Longrightarrow> names_reversed r q \<Longrightarrow> names_reversed (g r) (g q)"
  unfolding names_reversed_def same_links_def by (metis empty_iff insert_iff)

lemma links_map:
  assumes g: "same_links g" and "numbers_kept rows"
    and "\<And>r. r \<in> set rows \<Longrightarrow> jr_reversal_of (g r) \<noteq> None \<Longrightarrow> \<exists>q \<in> set rows. names_reversed r q"
  shows "links_ok (map g rows)"
  using assms(2,3) names_reversed_map [OF g] by (auto simp: links_ok_def numbers_kept_map [OF g]) blast

lemma links_map_ok: "same_links g \<Longrightarrow> links_ok rows \<Longrightarrow> links_ok (map g rows)"
proof (rule links_map)
  fix r assume g: "same_links g" and ok: "links_ok rows" and r: "r \<in> set rows" "jr_reversal_of (g r) \<noteq> None"
  then have "jr_reversal_of r \<noteq> None" unfolding same_links_def by (metis empty_iff insert_iff)
  with ok r(1) show "\<exists>q \<in> set rows. names_reversed r q" by (simp add: links_ok_def)
qed (simp_all add: links_ok_def)

text \<open>Rows whose entry was deleted go with it.\<close>

lemma cascade_is_filter: "\<exists>P. cascade_reversals t dead rows = filter P rows"
proof (induction t dead rows rule: cascade_reversals.induct)
  case (1 t dead rows)
  then show ?case
    by (subst cascade_reversals.simps) (auto simp: Let_def intro: exI [of _ "\<lambda>_. True"])
qed

lemma cascade_links:
  assumes "\<forall>r \<in> set rows. jr_reversal_of r \<noteq> None \<longrightarrow> (\<exists>q \<in> set rows. names_reversed r q)
      \<or> (je_tenant r = t \<and> jr_reversal_of r \<in> Some ` set dead)"
  shows "\<forall>r \<in> set (cascade_reversals t dead rows). jr_reversal_of r \<noteq> None \<longrightarrow>
    (\<exists>q \<in> set (cascade_reversals t dead rows). names_reversed r q)"
  using assms
proof (induction t dead rows rule: cascade_reversals.induct)
  case (1 t dead rows)
  let ?hit = "\<lambda>r. je_tenant r = t \<and> jr_reversal_of r \<in> Some ` set dead"
  show ?case
  proof (cases "filter ?hit rows = []")
    case True
    then have "cascade_reversals t dead rows = rows" by (subst cascade_reversals.simps) (simp add: Let_def)
    then show ?thesis
    proof (simp only:, intro ballI impI)
      fix r assume "r \<in> set rows" "jr_reversal_of r \<noteq> None"
      with "1.prems" True show "\<exists>q \<in> set rows. names_reversed r q" unfolding filter_empty_conv by blast
    qed
  next
    case False
    then have eq: "cascade_reversals t dead rows
        = cascade_reversals t (map je_id (filter ?hit rows)) (filter (\<lambda>r. \<not> ?hit r) rows)"
      by (subst cascade_reversals.simps) (simp add: Let_def)
    have "\<forall>r \<in> set (filter (\<lambda>r. \<not> ?hit r) rows). jr_reversal_of r \<noteq> None \<longrightarrow>
        (\<exists>q \<in> set (filter (\<lambda>r. \<not> ?hit r) rows). names_reversed r q)
        \<or> (je_tenant r = t \<and> jr_reversal_of r \<in> Some ` set (map je_id (filter ?hit rows)))"
    proof (intro ballI impI)
      fix r assume r: "r \<in> set (filter (\<lambda>r. \<not> ?hit r) rows)" "jr_reversal_of r \<noteq> None"
      with "1.prems" obtain q where q: "q \<in> set rows" "names_reversed r q" by auto
      then show "(\<exists>q \<in> set (filter (\<lambda>r. \<not> ?hit r) rows). names_reversed r q)
        \<or> (je_tenant r = t \<and> jr_reversal_of r \<in> Some ` set (map je_id (filter ?hit rows)))"
        by (cases "?hit q") (auto simp: names_reversed_def)
    qed
    from "1.IH" [OF refl False this] show ?thesis unfolding eq .
  qed
qed

lemma numbers_kept_filter: "numbers_kept rows \<Longrightarrow> numbers_kept (filter P rows)"
  by (simp add: numbers_kept_def distinct_map_filter)

lemma links_delete:
  assumes ok: "links_ok rows"
  shows "links_ok (drop_reversals v t i (filter (\<lambda>r. \<not> (je_id r = i \<and> je_tenant r = t)) rows))"
proof -
  let ?rows = "filter (\<lambda>r. \<not> (je_id r = i \<and> je_tenant r = t)) rows"
  have num: "numbers_kept ?rows" using ok numbers_kept_filter by (auto simp: links_ok_def)
  have left: "(\<exists>q \<in> set ?rows. names_reversed r q) \<or> (je_tenant r = t \<and> jr_reversal_of r = Some i)"
    if "r \<in> set ?rows" "jr_reversal_of r \<noteq> None" for r
  proof -
    from ok that obtain q where q: "q \<in> set rows" "names_reversed r q" by (auto simp: links_ok_def)
    then show ?thesis by (cases "je_id q = i \<and> je_tenant q = t") (auto simp: names_reversed_def)
  qed
  show ?thesis
  proof (cases "cascade_first v")
    case True
    have "numbers_kept (cascade_reversals t [i] ?rows)"
      using cascade_is_filter [of t "[i]" ?rows] num numbers_kept_filter by metis
    moreover have "\<forall>r \<in> set (cascade_reversals t [i] ?rows). jr_reversal_of r \<noteq> None \<longrightarrow>
        (\<exists>q \<in> set (cascade_reversals t [i] ?rows). names_reversed r q)"
      by (rule cascade_links, intro ballI impI, drule (1) left, simp)
    ultimately show ?thesis using True by (simp add: drop_reversals_def links_ok_def)
  next
    case False
    let ?g = "\<lambda>r. if jr_reversal_of r = Some i then r\<lparr>jr_reversal_of := None\<rparr> else r"
    have "links_ok (map ?g ?rows)"
      by (rule links_map [OF _ num]) (use left in \<open>auto simp: same_links_def split: if_splits\<close>)
    with False show ?thesis by (simp add: drop_reversals_def)
  qed
qed

lemma links_append:
  assumes "links_ok rows" and "je_id m \<notin> je_id ` set rows"
    and "\<forall>q \<in> set rows. (je_tenant q, je_number q) \<noteq> (je_tenant m, je_number m)" and "jr_reversal_of m = None"
  shows "links_ok (rows @ [m])"
  using assms by (auto simp: links_ok_def numbers_kept_def)

text \<open>A reversal locks its entry, so it is one step: the entry is marked as the mirror is added.\<close>

lemma links_reverse:
  assumes ok: "links_ok (fd_journal d)"
  shows "links_ok (fd_journal (snd (reverse_journal_entry f e t i actor key d)))"
  using reverse_journal_entry_effect [of f e t i actor key d]
proof (elim disjE exE conjE)
  fix orig
  let ?m = "(mirror_entry f e t actor orig)\<lparr>je_amount := round4 (je_amount orig)\<rparr>"
  let ?g = "\<lambda>r. if je_id r = i \<and> je_tenant r = t then r\<lparr>jr_status := ''reversed''\<rparr> else r"
  let ?rows = "fd_journal d @ [?m]"
  assume at_i: "journal_at t i d = Some orig" and new: "fresh e 0 \<notin> je_id ` set (fd_journal d)"
    "\<forall>q \<in> set (fd_journal d). (je_tenant q, je_number q) \<noteq> (t, ''REV-'' @ je_number orig)"
    and eq: "snd (reverse_journal_entry f e t i actor key d) = audited e t actor ''journal.reversed''
       ''journal_entry'' i (JObj [(''reversal_id'', JStr (disp e (fresh e 0)))]) key
       (mark_entry_reversed t i (d\<lparr>fd_journal := ?rows\<rparr>))"
  have orig: "orig \<in> set (fd_journal d)" "je_id orig = i" "je_tenant orig = t"
    using find_Some_set [OF at_i [unfolded journal_at_def]] by simp_all
  have g: "same_links ?g" by (simp add: same_links_def)
  have m: "je_id ?m = fresh e 0" "je_tenant ?m = t" "je_number ?m = ''REV-'' @ je_number orig"
    "jr_reversal_of ?m = Some i" using orig by (simp_all add: mirror_entry_def)
  have "numbers_kept ?rows" using ok new m by (auto simp: links_ok_def numbers_kept_def)
  moreover have "\<exists>q \<in> set (map ?g ?rows). names_reversed (?g r) q"
    if r: "r \<in> set ?rows" "jr_reversal_of (?g r) \<noteq> None" for r
  proof (cases "r = ?m")
    case True
    have "names_reversed (?g r) (?g orig)" unfolding True names_reversed_def using orig m by simp
    then show ?thesis using orig(1) by (intro bexI [of _ "?g orig"]) simp_all
  next
    case False
    then have "r \<in> set (fd_journal d)" "jr_reversal_of r \<noteq> None" using r by (auto split: if_splits)
    then obtain q where "q \<in> set (fd_journal d)" "names_reversed r q" using ok by (auto simp: links_ok_def)
    then show ?thesis using names_reversed_map [OF g r(2)] by (intro bexI [of _ "?g q"]) simp_all
  qed
  ultimately have "links_ok (map ?g ?rows)"
    unfolding links_ok_def numbers_kept_map [OF g] set_map [of ?g] by blast
  then show ?thesis unfolding eq by (simp add: audited_def mark_entry_reversed_def)
qed (simp add: ok)

lemma links_whole:
  assumes ok: "links_ok (fd_journal d)" and "\<not> reads_first c"
  shows "links_ok (fd_journal (finance_next v f e c d))"
proof (cases c)
  case (PostJournalEntry t entry key)
  let ?m = "(new_entry e t entry)\<lparr>je_amount := round4 (je_amount entry)\<rparr>"
  have m: "je_id ?m = fresh e 0" "je_tenant ?m = t" "je_number ?m = je_number (new_entry e t entry)"
    "jr_reversal_of ?m = None" by (simp_all add: new_entry_def)
  let ?done = "audited e t (je_posted_by entry) ''journal.posted'' ''journal_entry'' (fresh e 0)
     (JObj [(''entry_number'', JStr (finance_number ''JE'' e (fresh e 0)))]) key
     (d\<lparr>fd_journal := fd_journal d @ [?m]\<rparr>)"
  have added: "links_ok (fd_journal ?done)"
    if "fresh e 0 \<notin> je_id ` set (fd_journal d)"
      "\<forall>q \<in> set (fd_journal d). (je_tenant q, je_number q) \<noteq> (t, je_number (new_entry e t entry))"
  proof -
    from that m have "links_ok (fd_journal d @ [?m])" by (intro links_append [OF ok]) simp_all
    then show ?thesis by (simp add: audited_def)
  qed
  have "links_ok (fd_journal (snd (post_journal_entry f e t entry key d)))"
    using post_journal_entry_effect [of f e t entry key d] added ok by metis
  with PostJournalEntry show ?thesis by simp
next
  case (ReverseJournalEntry t i actor key)
  with links_reverse [OF ok] show ?thesis by simp
qed (use assms budget_calls_other in \<open>auto simp: invoice_calls_journal other_tables_def\<close>)

lemma links_write:
  assumes ok: "links_ok (fd_journal d)"
  shows "links_ok (fd_journal (fin_write v f e x d))"
proof (cases x)
  case (EntryOpen t i new)
  let ?g = "\<lambda>r. if je_id r = i \<and> je_tenant r = t then changed_entry new r else r"
  have "links_ok (map ?g (fd_journal d))"
    by (rule links_map_ok [OF _ ok]) (simp add: same_links_def changed_entry_def)
  with EntryOpen ok show ?thesis by (simp add: update_rows_def)
next
  case (EntryDoomed t i)
  with ok links_delete [OF ok] show ?thesis by (simp add: delete_rows_def)
next
  case (InvoiceOpen t i new)
  with ok show ?thesis by (auto simp: if_written_def dest: write_invoice_others split: sum.split)
next
  case (PaymentOpen t i new)
  with ok show ?thesis by (auto simp: if_written_def dest: write_payment_others split: sum.split)
qed (use ok in \<open>auto simp: set_paid_def update_rows_def delete_rows_def\<close>)

lemma interleaved_links:
  "fin_interleaved v ok current d0 h ss \<Longrightarrow> fd_journal d0 = [] \<Longrightarrow> links_ok (fd_journal (hd h))"
proof (induction rule: fin_interleaved.induct)
  case start
  then show ?case by (simp add: links_ok_def numbers_kept_def)
next
  case (elsewhere d h ss d')
  then show ?case by (simp add: same_documents_def)
qed (simp_all add: links_whole links_write)

text \<open>C11.
  The ledger under concurrency. In every interleaving of statements of overlapping finance calls,
  from an empty journal, with failing statements and lost calls: a reversal names an entry of its
  tenant that is there, carries its number and has marked it reversed, and an entry has at most
  one reversal. If moreover every call writes only while what it has read is still so, then a
  reversal is the mirror of its entry (accounts swapped, amount and currency the same), and an
  entry whose status was not draft at some earlier moment has its content still; at most it has
  been marked reversed. Entries that \<open>post_journal_entry\<close> writes have the status draft, so
  this protects reversals and reversed entries and no others; and the code does not make its reads
  stay so: without that the second part is false.
\<close>

theorem ledger_history:
  assumes "fin_interleaved v ok current d0 (d # h) ss" and "fd_journal d0 = []"
  shows "(\<forall>r \<in> set (fd_journal d). \<forall>i. jr_reversal_of r = Some i \<longrightarrow>
        (\<exists>q \<in> set (fd_journal d). je_id q = i \<and> je_tenant q = je_tenant r
           \<and> je_number r = ''REV-'' @ je_number q \<and> jr_status q = ''reversed''
           \<and> (current \<longrightarrow> je_debit r = je_credit q \<and> je_credit r = je_debit q
                \<and> je_amount r = je_amount q \<and> je_currency r = je_currency q))
        \<and> (\<forall>r' \<in> set (fd_journal d). jr_reversal_of r' = Some i \<longrightarrow> r' = r))
    \<and> (current \<longrightarrow> (\<forall>d1 \<in> set h. \<forall>q \<in> set (fd_journal d1). jr_status q \<noteq> ''draft'' \<longrightarrow>
          q \<in> set (fd_journal d) \<or> q\<lparr>jr_status := ''reversed''\<rparr> \<in> set (fd_journal d)))"
proof -
  have links: "links_ok (fd_journal d)" using interleaved_links [OF assms] by simp
  have ids: "distinct (map je_id (fd_journal d))" and nums: "distinct (map (\<lambda>r. (je_tenant r, je_number r)) (fd_journal d))"
    using links by (simp_all add: links_ok_def numbers_kept_def)
  have named: "\<exists>q \<in> set (fd_journal d). names_reversed r q" if "r \<in> set (fd_journal d)" "jr_reversal_of r = Some i" for r i
    using links that by (auto simp: links_ok_def)
  have single: "r' = r" if r: "r \<in> set (fd_journal d)" "jr_reversal_of r = Some i"
      "r' \<in> set (fd_journal d)" "jr_reversal_of r' = Some i" for r r' i
  proof -
    obtain q q' where q: "q \<in> set (fd_journal d)" "names_reversed r q" "q' \<in> set (fd_journal d)" "names_reversed r' q'"
      using named [OF r(1,2)] named [OF r(3,4)] by blast
    then have "je_id q = je_id q'" using r by (simp add: names_reversed_def)
    with q ids have "q = q'" by (auto simp: distinct_map inj_on_def)
    with q have "(je_tenant r', je_number r') = (je_tenant r, je_number r)" by (simp add: names_reversed_def)
    with r nums show ?thesis by (auto simp: distinct_map inj_on_def)
  qed
  have mirror: "je_debit r = je_credit q \<and> je_credit r = je_debit q \<and> je_amount r = je_amount q \<and> je_currency r = je_currency q"
    if "current" and r: "r \<in> set (fd_journal d)" and q: "q \<in> set (fd_journal d)" "names_reversed r q" for r q
  proof -
    have "finance_run v ok d0 d" using current_run [of v ok d0 "d # h" ss] assms(1) \<open>current\<close> by simp
    then have "finance_run v (\<lambda>_. True) d0 d" by (rule finance_run_any)
    from serial_ledger_history [OF this assms(2) r] q(2) obtain q2 where
      q2: "q2 \<in> set (fd_journal d)" "je_id q2 = je_id q" "mirrors r q2" by (auto simp: names_reversed_def)
    with q(1) ids have "q2 = q" by (auto simp: distinct_map inj_on_def)
    with q2(3) show ?thesis by (simp add: mirrors_def)
  qed
  have kept: "q \<in> set (fd_journal d) \<or> q\<lparr>jr_status := ''reversed''\<rparr> \<in> set (fd_journal d)"
    if "current" "d1 \<in> set h" "q \<in> set (fd_journal d1)" "jr_status q \<noteq> ''draft''" for d1 q
  proof -
    have "finance_run v ok d0 d1" "finance_run v ok d1 d"
      using current_run [of v ok d0 "d # h" ss] assms(1) that(1,2) by auto
    then have "finance_run v (\<lambda>_. True) d0 d1" "finance_run v (\<lambda>_. True) d1 d" by (simp_all add: finance_run_any)
    from serial_ledger_history [OF this(1) assms(2) that(3)] this(2) that(4) show ?thesis by blast
  qed
  have "\<exists>q \<in> set (fd_journal d). je_id q = i \<and> je_tenant q = je_tenant r
      \<and> je_number r = ''REV-'' @ je_number q \<and> jr_status q = ''reversed''
      \<and> (current \<longrightarrow> je_debit r = je_credit q \<and> je_credit r = je_debit q
           \<and> je_amount r = je_amount q \<and> je_currency r = je_currency q)"
    if r: "r \<in> set (fd_journal d)" "jr_reversal_of r = Some i" for r i
  proof -
    obtain q where q: "q \<in> set (fd_journal d)" "names_reversed r q" using named [OF r] by blast
    with r(2) have "je_id q = i" "je_tenant q = je_tenant r" "je_number r = ''REV-'' @ je_number q" "jr_status q = ''reversed''"
      by (simp_all add: names_reversed_def)
    with mirror [OF _ r(1) q] q(1) show ?thesis by blast
  qed
  with single kept show ?thesis by (intro conjI ballI allI impI) simp_all
qed

section \<open>Schedules\<close>

text \<open>
  A schedule starts calls and lets those in flight run their next statement. With
  \<open>current\<close>, a call whose reads are out of date is lost.
\<close>

datatype fin_event = Calls finance_call | Next nat

fun fin_event_step ::
    "fin_server \<Rightarrow> bool \<Rightarrow> env \<Rightarrow> fin_event \<Rightarrow> finance_db list \<times> fin_txn option list
      \<Rightarrow> finance_db list \<times> fin_txn option list" where
  "fin_event_step v current e (Calls c) (h, ss) =
     (if reads_first c
      then (case fin_begin c (hd h) of None \<Rightarrow> (h, ss) | Some x \<Rightarrow> (h, ss @ [Some x]))
      else (finance_next v no_faults e c (hd h) # h, ss))"
| "fin_event_step v current e (Next s) (h, ss) =
     (case (if s < length ss then ss ! s else None) of
        None \<Rightarrow> (h, ss)
      | Some x \<Rightarrow>
          if writes_next x
          then if current \<and> \<not> still_reads x (hd h) then (h, ss[s := None])
               else (fin_write v no_faults e x (hd h) # h, ss[s := None])
          else (h, ss[s := fin_read x (hd h)]))"

fun fin_event_ok :: "(finance_call \<Rightarrow> bool) \<Rightarrow> fin_event \<Rightarrow> bool" where
  "fin_event_ok ok (Calls c) = ok c"
| "fin_event_ok ok (Next s) = True"

definition schedule_run :: "bool \<Rightarrow> fin_event list \<Rightarrow> finance_db list \<times> fin_txn option list" where
  "schedule_run current evs = snd (fold (\<lambda>ev (k, x).
     (k + 1, fin_event_step demo_server current (demo_at k) ev x)) evs (0, [empty_finance], []))"

lemma fin_event_step_reaches:
  assumes "fin_interleaved v ok current d0 h ss" and "fin_event_ok ok ev"
    and "fin_event_step v current e ev (h, ss) = (h', ss')"
  shows "fin_interleaved v ok current d0 h' ss'"
proof -
  obtain d h1 where h: "h = d # h1"
    using assms(1) by (cases rule: fin_interleaved.cases) auto
  note run = assms(1) [unfolded h]
  show ?thesis
  proof (cases ev)
    case (Calls c)
    then have ok: "ok c" using assms(2) by simp
    show ?thesis
    proof (cases "reads_first c")
      case True
      show ?thesis
      proof (cases "fin_begin c d")
        case None
        with Calls True assms(3) h run show ?thesis by simp
      next
        case (Some x)
        with Calls True assms(3) h fin_interleaved.begins [OF run ok Some] show ?thesis by simp
      qed
    next
      case False
      with Calls assms(3) h fin_interleaved.whole [OF run ok False, of no_faults e] show ?thesis by simp
    qed
  next
    case (Next s)
    show ?thesis
    proof (cases "if s < length ss then ss ! s else None")
      case None
      with Next assms(3) h run show ?thesis by (simp add: None)
    next
      case (Some x)
      then have s: "s < length ss" "ss ! s = Some x" by (simp_all split: if_splits)
      have "fin_interleaved v ok current d0 (d # h1) (ss[s := fin_read x d])"
        by (cases "fin_read x d") (simp_all add: fin_interleaved.lost [OF run] fin_interleaved.reads [OF run s])
      moreover have "fin_interleaved v ok current d0 (d # h1) (ss[s := None])"
        by (rule fin_interleaved.lost [OF run])
      moreover have "fin_interleaved v ok current d0 (fin_write v no_faults e x d # d # h1) (ss[s := None])"
        if "writes_next x" "current \<longrightarrow> still_reads x d"
        using fin_interleaved.writes [OF run s that(1)] that(2) by simp
      ultimately show ?thesis using Next Some assms(3) h by (auto split: if_splits)
    qed
  qed
qed

lemma schedule_run_reaches:
  assumes "list_all (fin_event_ok ok) evs"
  shows "fin_interleaved demo_server ok current empty_finance (fst (schedule_run current evs)) (snd (schedule_run current evs))"
proof -
  have "case snd (fold (\<lambda>ev (k, x). (k + 1, fin_event_step demo_server current (demo_at k) ev x)) evs (k, h, ss)) of
      (h', ss') \<Rightarrow> fin_interleaved demo_server ok current empty_finance h' ss'"
    if "fin_interleaved demo_server ok current empty_finance h ss" for k h ss
    using that assms
  proof (induction evs arbitrary: k h ss)
    case (Cons ev evs)
    obtain h' ss' where step: "fin_event_step demo_server current (demo_at k) ev (h, ss) = (h', ss')"
      by (cases "fin_event_step demo_server current (demo_at k) ev (h, ss)")
    have "fin_interleaved demo_server ok current empty_finance h' ss'"
      using fin_event_step_reaches [OF Cons.prems(1) _ step] Cons.prems(2) by simp
    from Cons.IH [OF this] Cons.prems(2) step show ?case by simp
  qed simp
  from this [OF fin_interleaved.start, of 0] show ?thesis by (simp add: schedule_run_def split_beta)
qed

text \<open>An invoice of 110 with one payment of 110, and an entry of 110.\<close>

definition invoiced :: "fin_event list" where
  "invoiced = map Calls (take 2 demo_finance_calls)"

definition sale :: journal_entry where
  "sale = \<lparr>je_id = 0, je_tenant = 0, je_number = [], je_description = ''sale'', je_debit = ''1200'',
     je_credit = ''4000'', je_amount = 110, je_currency = ''USD'', je_date = 5, je_posted_by = 7\<rparr>"

section \<open>What the unlocked reads allow\<close>

text \<open>
  \<open>mark_invoice_paid\<close> has summed the payments when \<open>delete_payment\<close>, which has found
  the invoice unpaid, deletes the only one: the invoice becomes paid with no payment.
\<close>

definition payment_race :: "fin_event list" where
  "payment_race = invoiced @ [Calls (MarkInvoicePaid 9 0 10), Next 0, Next 0,
     Calls (DeletePayment 9 10), Next 1, Next 0]"

lemma paid_without_payment:
  "map iv_status (fd_invoices (hd (fst (schedule_run False payment_race)))) = [''paid'']
   \<and> fd_payments (hd (fst (schedule_run False payment_race))) = []"
  by code_simp

text \<open>
  \<open>update_journal_entry\<close> has found the entry a draft when \<open>reverse_journal_entry\<close>
  reverses it; then it writes: the reversed entry is 1, its reversal 110.
\<close>

definition reversal_race :: "fin_event list" where
  "reversal_race = [Calls (PostJournalEntry 9 sale None), Calls (UpdateJournalEntry 9 0 (sale\<lparr>je_amount := 1\<rparr>)),
     Calls (ReverseJournalEntry 9 0 7 None), Next 0]"

lemma reversal_of_other_amount:
  "map (\<lambda>r. (je_amount r, jr_status r)) (fd_journal (hd (fst (schedule_run False reversal_race))))
    = [(1, ''reversed''), (110, ''posted'')]"
  by code_simp

section \<open>Runs to the end\<close>



lemma ledger_history_witness:
  "\<exists>q \<in> set (fd_journal (hd (fst (schedule_run True
       [Calls (PostJournalEntry 9 sale None), Calls (ReverseJournalEntry 9 0 7 None)])))).
     je_id q = 0 \<and> jr_status q = ''reversed'' \<and> je_debit q = ''1200'' \<and> je_amount q = 110"
proof -
  let ?x = "schedule_run True [Calls (PostJournalEntry 9 sale None), Calls (ReverseJournalEntry 9 0 7 None)]"
  have r: "fst ?x \<noteq> []" "map (\<lambda>r. (jr_reversal_of r, je_credit r, je_amount r)) (fd_journal (hd (fst ?x)))
      = [(None, ''4000'', 110), (Some 0, ''1200'', 110)]"
    by code_simp+
  have "(Some 0, ''1200'', 110) \<in> set (map (\<lambda>r. (jr_reversal_of r, je_credit r, je_amount r)) (fd_journal (hd (fst ?x))))"
    unfolding r(2) by simp
  then obtain m where m: "m \<in> set (fd_journal (hd (fst ?x)))" "jr_reversal_of m = Some 0"
      "je_credit m = ''1200''" "je_amount m = 110" by auto
  have "fin_interleaved demo_server (\<lambda>_. True) True empty_finance (hd (fst ?x) # tl (fst ?x)) (snd ?x)"
    using schedule_run_reaches [of "\<lambda>_. True" _ True] r(1) by simp
  from ledger_history [OF this] m show ?thesis
    by (simp add: empty_finance_def) metis
qed

end
