(* ===== verification/Lease_Protocol.thy ===== *)
theory Lease_Protocol
  imports Rust_Prelude
begin

text \<open>
  What the lease tables of the workers have in common (\<open>sensei-workers/src\<close>:
  \<open>outbox_relay.rs\<close>, \<open>task.rs\<close>, \<open>scheduler.rs\<close>): a key is free, held by an owner
  until an instant, or finished for good. The protocol is a specification of its own; a locale
  carries its theorem to every system of workers whose steps it simulates.
\<close>

section \<open>The protocol\<close>

datatype 'o lease = Free | Held 'o timestamp | Finished

text \<open>
  The time of the database, the state of every key, and what every worker believes to hold
  and until when.
\<close>

record ('w, 'k, 'o) lease_sys =
  ls_now :: timestamp
  ls_table :: "'k \<Rightarrow> 'o lease"
  ls_claims :: "'w \<Rightarrow> 'k \<Rightarrow> timestamp option"

definition takeable :: "timestamp \<Rightarrow> 'o lease \<Rightarrow> bool" where
  "takeable now l = (case l of Free \<Rightarrow> True | Held w u \<Rightarrow> u < now | Finished \<Rightarrow> False)"

definition drop_claim :: "'w \<Rightarrow> 'k \<Rightarrow> ('w \<Rightarrow> 'k \<Rightarrow> timestamp option) \<Rightarrow> 'w \<Rightarrow> 'k \<Rightarrow> timestamp option" where
  "drop_claim w k cl = cl(w := (cl w)(k := None))"

text \<open>
  Time passes; a worker takes a set of keys, renews one it still owns, ends one as finished or
  free, or forgets some. Ending does not ask who the owner is.
\<close>

inductive lease_step :: "('w \<Rightarrow> 'o) \<Rightarrow> ('w, 'k, 'o) lease_sys \<Rightarrow> ('w, 'k, 'o) lease_sys \<Rightarrow> bool" for own where
  tick: "ls_now s \<le> n \<Longrightarrow> lease_step own s (s\<lparr>ls_now := n\<rparr>)"
| take_keys: "\<forall>k \<in> K. takeable (ls_now s) (ls_table s k) \<Longrightarrow>
    lease_step own s (s\<lparr>ls_table := (\<lambda>k. if k \<in> K then Held (own w) u else ls_table s k),
      ls_claims := (ls_claims s)(w := (\<lambda>k. if k \<in> K then Some u else ls_claims s w k))\<rparr>)"
| renew: "ls_claims s w k \<noteq> None \<Longrightarrow> ls_table s k = Held (own w) u0 \<Longrightarrow>
    lease_step own s (s\<lparr>ls_table := (ls_table s)(k := Held (own w) u),
      ls_claims := (ls_claims s)(w := (ls_claims s w)(k \<mapsto> u))\<rparr>)"
| end_lease: "ls_claims s w k \<noteq> None \<Longrightarrow> l \<in> {Free, Finished} \<Longrightarrow> ls_table s k \<noteq> Finished \<Longrightarrow>
    lease_step own s (s\<lparr>ls_table := (ls_table s)(k := l), ls_claims := drop_claim w k (ls_claims s)\<rparr>)"
| forget: "\<forall>k. cl k \<in> {None, ls_claims s w k} \<Longrightarrow>
    lease_step own s (s\<lparr>ls_claims := (ls_claims s)(w := cl)\<rparr>)"

text \<open>No belief outlives its lease; and the invariant.\<close>

definition timely_claims :: "('w, 'k, 'o) lease_sys \<Rightarrow> bool" where
  "timely_claims s \<longleftrightarrow> (\<forall>w k u. ls_claims s w k = Some u \<longrightarrow> ls_now s \<le> u)"

definition leases_ok :: "('w \<Rightarrow> 'o) \<Rightarrow> ('w, 'k, 'o) lease_sys \<Rightarrow> bool" where
  "leases_ok own s \<longleftrightarrow> (\<forall>w k u. ls_claims s w k = Some u \<longrightarrow> ls_table s k = Held (own w) u
     \<and> (\<forall>w'. w' \<noteq> w \<longrightarrow> ls_claims s w' k = None))"

lemma leases_okD:
  assumes "leases_ok own s" and "ls_claims s w k = Some u"
  shows "ls_table s k = Held (own w) u" "w' \<noteq> w \<Longrightarrow> ls_claims s w' k = None"
  using assms unfolding leases_ok_def by blast+

lemma lease_step_ok:
  assumes step: "lease_step own s s'" and ok: "leases_ok own s" and timely: "timely_claims s"
  shows "leases_ok own s' \<and> (\<forall>k. ls_table s k = Finished \<longrightarrow> ls_table s' k = Finished)"
  using step
proof cases
  case (take_keys K w u)
  have none: "ls_claims s w' k = None" if "k \<in> K" for w' k
  proof (cases "ls_claims s w' k")
    case (Some u')
    with leases_okD [OF ok] timely take_keys(2) that show ?thesis
      by (fastforce simp: timely_claims_def takeable_def)
  qed
  have table: "ls_table s k = Finished \<Longrightarrow> k \<notin> K" for k
    using take_keys(2) by (fastforce simp: takeable_def)
  have "leases_ok own s'"
    unfolding leases_ok_def
  proof (intro allI impI)
    fix w1 k u1 assume c: "ls_claims s' w1 k = Some u1"
    show "ls_table s' k = Held (own w1) u1 \<and> (\<forall>w'. w' \<noteq> w1 \<longrightarrow> ls_claims s' w' k = None)"
    proof (cases "k \<in> K")
      case True
      with c none [OF True] show ?thesis by (auto simp: take_keys(1) split: if_splits)
    next
      case False
      with c have "ls_claims s w1 k = Some u1" by (auto simp: take_keys(1) split: if_splits)
      with False leases_okD [OF ok this] show ?thesis by (auto simp: take_keys(1))
    qed
  qed
  with table show ?thesis by (auto simp: take_keys(1))
next
  case (renew w k u0 u)
  then obtain u1 where "ls_claims s w k = Some u1" by blast
  with renew leases_okD [OF ok] show ?thesis by (auto simp: leases_ok_def split: if_splits)
next
  case (end_lease w k l)
  then obtain u1 where "ls_claims s w k = Some u1" by blast
  with end_lease leases_okD [OF ok] show ?thesis
    by (auto simp: leases_ok_def drop_claim_def split: if_splits)
next
  case (forget cl w)
  have "ls_claims s w1 k = Some u1" if "ls_claims s' w1 k = Some u1" for w1 k u1
    using that spec [OF forget(2), of k] by (auto simp: forget(1) split: if_splits)
  note kept = this
  have none: "ls_claims s' w1 k = None" if "ls_claims s w1 k = None" for w1 k
    using that spec [OF forget(2), of k] by (auto simp: forget(1))
  have table: "ls_table s' = ls_table s" by (simp add: forget(1))
  have "leases_ok own s'"
    unfolding leases_ok_def table
  proof (intro allI impI)
    fix w1 k u1 assume "ls_claims s' w1 k = Some u1"
    then have "ls_claims s w1 k = Some u1" by (rule kept)
    with leases_okD [OF ok this] none
    show "ls_table s k = Held (own w1) u1 \<and> (\<forall>w'. w' \<noteq> w1 \<longrightarrow> ls_claims s' w' k = None)" by blast
  qed
  with table show ?thesis by simp
qed (use ok in \<open>simp_all add: leases_ok_def\<close>)

section \<open>Systems that follow it\<close>

text \<open>Runs in which no worker goes on past its lease.\<close>

inductive timely_run :: "('s \<Rightarrow> ('w, 'k, 'o) lease_sys) \<Rightarrow> ('s \<Rightarrow> 's \<Rightarrow> bool) \<Rightarrow> 's \<Rightarrow> 's \<Rightarrow> bool"
  for view step s0 where
  start: "timely_run view step s0 s0"
| further: "timely_run view step s0 s \<Longrightarrow> step s s' \<Longrightarrow> timely_claims (view s') \<Longrightarrow> timely_run view step s0 s'"

lemma timely_run_trans:
  "timely_run view step s1 s2 \<Longrightarrow> timely_run view step s0 s1 \<Longrightarrow> timely_run view step s0 s2"
  by (induction rule: timely_run.induct) (auto intro: timely_run.intros)

text \<open>
  A system of workers with an invariant of its own, seen as a system of leases: as long as
  the leases are in order, each of its steps is a step of the protocol or leaves them alone.
\<close>

locale lease_protocol =
  fixes own :: "'w \<Rightarrow> 'o"
    and view :: "'s \<Rightarrow> ('w, 'k, 'o) lease_sys"
    and step :: "'s \<Rightarrow> 's \<Rightarrow> bool"
    and inv :: "'s \<Rightarrow> bool"
  assumes keeps: "step s s' \<Longrightarrow> inv s \<Longrightarrow> inv s'"
    and simulates: "step s s' \<Longrightarrow> inv s \<Longrightarrow> leases_ok own (view s) \<Longrightarrow>
      lease_step own (view s) (view s') \<or> view s' = view s"
begin

lemma run:
  "timely_run view step s0 s \<Longrightarrow> inv s0 \<Longrightarrow> leases_ok own (view s0) \<Longrightarrow> timely_claims (view s0) \<Longrightarrow>
    inv s \<and> leases_ok own (view s) \<and> timely_claims (view s)
    \<and> (\<forall>k. ls_table (view s0) k = Finished \<longrightarrow> ls_table (view s) k = Finished)"
proof (induction rule: timely_run.induct)
  case (further s s')
  then have s: "inv s" "leases_ok own (view s)" "timely_claims (view s)" by auto
  from simulates [OF further(2) s(1,2)] lease_step_ok [OF _ s(2,3)]
  have "leases_ok own (view s') \<and> (\<forall>k. ls_table (view s) k = Finished \<longrightarrow> ls_table (view s') k = Finished)"
    using s(2) by metis
  with further keeps [OF further(2) s(1)] show ?case by auto
qed auto

text \<open>A key has one holder at a time, and its row says so; a finished key has none, ever again.\<close>

lemma one_holder:
  assumes "timely_run view step s0 s" and "inv s0" "leases_ok own (view s0)" "timely_claims (view s0)"
    and "ls_claims (view s) w k = Some u" "ls_claims (view s) w' k = Some u'"
  shows "w = w' \<and> ls_table (view s) k = Held (own w) u"
proof -
  have ok: "leases_ok own (view s)" using run [OF assms(1-4)] by blast
  show ?thesis using leases_okD [OF ok assms(5)] assms(6) by (cases "w' = w") auto
qed

lemma finished_is_final:
  assumes "timely_run view step s0 s" and "inv s0" "leases_ok own (view s0)" "timely_claims (view s0)"
    and "ls_table (view s0) k = Finished"
  shows "ls_table (view s) k = Finished \<and> ls_claims (view s) w k = None"
proof -
  have ok: "leases_ok own (view s)" and fin: "ls_table (view s) k = Finished"
    using run [OF assms(1-4)] assms(5) by blast+
  show ?thesis using leases_okD(1) [OF ok, of w k] fin by (cases "ls_claims (view s) w k") auto
qed

end

end
