(* ===== verification/Outbox_Relay.thy ===== *)
theory Outbox_Relay
  imports Lease_Protocol Event_Bus Finance_Db
begin

text \<open>
  The relay of the transactional outbox (\<open>sensei-workers/src/outbox_relay.rs\<close>) on the rows
  that the services write in their transactions: the statements of a relay, one pass of a
  single relay as the code runs it, and the relays of several processes interleaved statement
  by statement. An event goes out as a \<open>GenericJsonEvent\<close>
  (\<open>sensei-core/src/domain/events.rs\<close>).
\<close>

section \<open>Rows and statements\<close>

text \<open>The row with the columns that migrations 069 and 080 add to what a service writes.\<close>

record relay_row = outbox_row +
  rl_occurred :: timestamp
  rl_published :: "timestamp option"
  rl_attempts :: int
  rl_error :: "string option"
  rl_claimed_by :: "string option"
  rl_claim_until :: "timestamp option"

definition enqueued :: "timestamp \<Rightarrow> outbox_row \<Rightarrow> relay_row" where
  "enqueued now r = outbox_row.extend r \<lparr>rl_occurred = now, rl_published = None, rl_attempts = 0,
     rl_error = None, rl_claimed_by = None, rl_claim_until = None\<rparr>"

definition BATCH_SIZE :: nat where
  "BATCH_SIZE = 50"

definition MAX_ATTEMPTS :: int where
  "MAX_ATTEMPTS = 25"

text \<open>\<open>INTERVAL '30 seconds'\<close>; instants are microseconds.\<close>

definition CLAIM_LEASE :: int where
  "CLAIM_LEASE = 30 * 1000000"

definition claimable :: "timestamp \<Rightarrow> uuid \<Rightarrow> relay_row \<Rightarrow> bool" where
  "claimable now t r \<longleftrightarrow> ob_tenant r = t \<and> rl_published r = None \<and> rl_attempts r < MAX_ATTEMPTS
     \<and> (case rl_claim_until r of None \<Rightarrow> True | Some u \<Rightarrow> u < now)"

text \<open>
  The claim: the oldest claimable rows that no other transaction has locked, updated and
  returned in an order of the server's choice.
\<close>

definition claim_row_for :: "timestamp \<Rightarrow> string \<Rightarrow> relay_row \<Rightarrow> relay_row" where
  "claim_row_for now w r = r\<lparr>rl_claimed_by := Some w, rl_claim_until := Some (now + CLAIM_LEASE)\<rparr>"

definition selected_events :: "pg \<Rightarrow> (uuid \<Rightarrow> bool) \<Rightarrow> timestamp \<Rightarrow> uuid \<Rightarrow> relay_row list \<Rightarrow> relay_row list" where
  "selected_events f locked now t rows =
     take BATCH_SIZE (order_by f rl_occurred (filter (\<lambda>r. claimable now t r \<and> \<not> locked (ob_id r)) rows))"

definition claim_batch ::
    "pg \<Rightarrow> (uuid \<Rightarrow> bool) \<Rightarrow> timestamp \<Rightarrow> string \<Rightarrow> uuid \<Rightarrow> relay_row list \<Rightarrow> relay_row list \<times> relay_row list"
where
  "claim_batch f locked now w t rows =
     (let ids = map ob_id (selected_events f locked now t rows);
          rows' = map (\<lambda>r. if ob_id r \<in> set ids then claim_row_for now w r else r) rows
      in (order_by f (\<lambda>_. 0 :: nat) (filter (\<lambda>r. ob_id r \<in> set ids) rows'), rows'))"

definition owned_unpublished :: "string \<Rightarrow> uuid \<Rightarrow> uuid \<Rightarrow> relay_row \<Rightarrow> bool" where
  "owned_unpublished w t i r \<longleftrightarrow>
     ob_id r = i \<and> rl_published r = None \<and> rl_claimed_by r = Some w \<and> ob_tenant r = t"

definition renew_claim :: "timestamp \<Rightarrow> string \<Rightarrow> uuid \<Rightarrow> uuid \<Rightarrow> relay_row list \<Rightarrow> relay_row list" where
  "renew_claim now w t i rows =
     map (\<lambda>r. if owned_unpublished w t i r
          then r\<lparr>rl_claim_until := Some (now + CLAIM_LEASE)\<rparr> else r) rows"

text \<open>The tables of the relay, and the publications the bus has acknowledged so far.\<close>

record generic_json_event =
  ge_event_id :: uuid
  ge_type :: string
  ge_payload :: json
  ge_correlation :: uuid
  ge_tenant :: uuid

record relay_db =
  rd_rows :: "relay_row list"
  rd_published :: "(uuid \<times> timestamp) list"
  rd_acked :: "(uuid \<times> generic_json_event) list"

definition mark_published :: "timestamp \<Rightarrow> string \<Rightarrow> uuid \<Rightarrow> uuid \<Rightarrow> relay_db \<Rightarrow> relay_db" where
  "mark_published now w t i d =
     (let hit = owned_unpublished w t i
      in if length (filter hit (rd_rows d)) = 1
         then d\<lparr>rd_rows := map (\<lambda>r. if hit r then r\<lparr>rl_published := Some now, rl_claimed_by := None,
                  rl_claim_until := None\<rparr> else r) (rd_rows d),
                rd_published := (if i \<in> fst ` set (rd_published d) then rd_published d
                                 else rd_published d @ [(i, now)])\<rparr>
         else d)"

definition record_failure :: "uuid \<Rightarrow> uuid \<Rightarrow> string \<Rightarrow> relay_db \<Rightarrow> relay_db" where
  "record_failure t i err d =
     d\<lparr>rd_rows := map (\<lambda>r. if ob_id r = i \<and> ob_tenant r = t
         then r\<lparr>rl_attempts := rl_attempts r + 1, rl_error := Some err, rl_claimed_by := None,
                rl_claim_until := None\<rparr> else r) (rd_rows d)\<rparr>"

section \<open>The publication\<close>

text \<open>
  The envelope of an event and its subject. \<open>GenericJsonEvent\<close> keeps the type it is given in
  a field, but reports the constant \<open>generic.json\<close> as its type, and the nil tenant.
\<close>

function trim_start_matches :: "string \<Rightarrow> string \<Rightarrow> string" where
  "trim_start_matches p s =
     (if p \<noteq> [] \<and> starts_with p s then trim_start_matches p (drop (length p) s) else s)"
  by pat_completeness auto
termination
  by (relation "measure (length \<circ> snd)") (force simp: starts_with_def intro!: diff_less)+

declare trim_start_matches.simps [simp del]

definition relay_envelope :: "env \<Rightarrow> relay_row \<Rightarrow> json" where
  "relay_envelope e r = JObj [(''event_id'', JStr (disp e (ob_id r))), (''tenant_id'', JStr (disp e (ob_tenant r))),
     (''aggregate_type'', JStr (ob_aggregate_type r)), (''aggregate_id'', JStr (disp e (ob_aggregate r))),
     (''event_type'', JStr (ob_event_type r)), (''payload'', ob_payload r)]"

definition generic_event :: "env \<Rightarrow> string \<Rightarrow> json \<Rightarrow> generic_json_event" where
  "generic_event e ty payload =
     \<lparr>ge_event_id = fresh e 0, ge_type = ty, ge_payload = payload, ge_correlation = fresh e 1,
      ge_tenant = uuid_nil\<rparr>"

definition relayed_event :: "env \<Rightarrow> relay_row \<Rightarrow> generic_json_event" where
  "relayed_event e r =
     generic_event e (trim_start_matches ''sensei.'' (''sensei.'' @ ob_event_type r)) (relay_envelope e r)"

definition generic_event_type :: "generic_json_event \<Rightarrow> string" where
  "generic_event_type ev = ''generic.json''"

definition relayed_subject :: "generic_json_event \<Rightarrow> string" where
  "relayed_subject ev = SUBJECT_PREFIX @ ''.'' @ generic_event_type ev"

section \<open>One pass of a relay\<close>

text \<open>
  What happens to one event of a batch: the renewals of its claim while it is in flight, the
  answer of the bus, the environment of its envelope, and whether the transaction that records
  the answer commits.
\<close>

record event_world =
  ew_renewals :: "timestamp list"
  ew_error :: "string option"
  ew_env :: env
  ew_time :: timestamp
  ew_recorded :: bool

record pass_world =
  pw_pg :: pg
  pw_time :: timestamp
  pw_locked :: "uuid \<Rightarrow> bool"
  pw_event :: "nat \<Rightarrow> event_world"

definition relay_event :: "string \<Rightarrow> uuid \<Rightarrow> event_world \<Rightarrow> relay_row \<Rightarrow> relay_db \<Rightarrow> relay_db" where
  "relay_event w t ew r d =
     (let d = d\<lparr>rd_rows := fold (\<lambda>now. renew_claim now w t (ob_id r)) (ew_renewals ew) (rd_rows d)\<rparr>
      in case ew_error ew of
           None \<Rightarrow>
             (let d = d\<lparr>rd_acked := rd_acked d @ [(ob_id r, relayed_event (ew_env ew) r)]\<rparr>
              in if ew_recorded ew then mark_published (ew_time ew) w t (ob_id r) d else d)
         | Some err \<Rightarrow> if ew_recorded ew then record_failure t (ob_id r) err d else d)"

fun relay_events :: "string \<Rightarrow> uuid \<Rightarrow> (nat \<Rightarrow> event_world) \<Rightarrow> nat \<Rightarrow> relay_row list \<Rightarrow> relay_db \<Rightarrow> relay_db" where
  "relay_events w t world k [] d = d"
| "relay_events w t world k (r # rs) d = relay_events w t world (k + 1) rs (relay_event w t (world k) r d)"

fun first_error :: "pg \<Rightarrow> (nat \<times> string) list \<Rightarrow> string option" where
  "first_error f [] = None"
| "first_error f ((n, what) # rest) =
     (case stmt_error f n of Some err \<Rightarrow> Some (what @ err) | None \<Rightarrow> first_error f rest)"

definition relay_tenant :: "string \<Rightarrow> uuid \<Rightarrow> pass_world \<Rightarrow> relay_db \<Rightarrow> (string + unit) \<times> relay_db" where
  "relay_tenant w t pw d =
     (case first_error (pw_pg pw) [(0, ''Failed to begin claim tx: ''), (1, ''Failed to set tenant context: ''),
         (2, ''Failed to claim outbox batch: ''), (3, ''Failed to commit claim tx: '')] of
        Some err \<Rightarrow> (Inl err, d)
      | None \<Rightarrow>
          (case claim_batch (pw_pg pw) (pw_locked pw) (pw_time pw) w t (rd_rows d) of
             (batch, rows) \<Rightarrow> (Inr (), relay_events w t (pw_event pw) 0 batch (d\<lparr>rd_rows := rows\<rparr>))))"

text \<open>A pass over all tenants: an error of one is logged and the next one served.\<close>

definition relay_once ::
    "string \<Rightarrow> (string + uuid list) \<Rightarrow> (uuid \<Rightarrow> pass_world) \<Rightarrow> relay_db \<Rightarrow> (string + unit) \<times> relay_db" where
  "relay_once w tenants world d =
     (case tenants of
        Inl err \<Rightarrow> (Inl (''Failed to enumerate tenants: '' @ err), d)
      | Inr ts \<Rightarrow> (Inr (), fold (\<lambda>t d. snd (relay_tenant w t (world t) d)) ts d))"


section \<open>Relays of several processes\<close>

text \<open>
  Where a relay stands: what is left of its batch, with the end of each claim as the relay knows
  it, and the answer of the bus for the first event of it.
\<close>

datatype relay_stage = Publishing | Acknowledged | Refused string

record relay_sys =
  rs_now :: timestamp
  rs_db :: relay_db
  rs_queue :: "string \<Rightarrow> (relay_row \<times> timestamp) list"
  rs_stage :: "string \<Rightarrow> relay_stage"

text \<open>
  The statements of all relays in any order, with the inserts of the services in between. A
  statement whose transaction fails changes nothing; a process may stop at any point.
\<close>

inductive relay_step :: "relay_sys \<Rightarrow> relay_sys \<Rightarrow> bool" where
  tick: "rs_now s \<le> n \<Longrightarrow> relay_step s (s\<lparr>rs_now := n\<rparr>)"
| enqueue: "ob_id r \<notin> ob_id ` set (rd_rows (rs_db s)) \<Longrightarrow>
    relay_step s (s\<lparr>rs_db := (rs_db s)\<lparr>rd_rows := rd_rows (rs_db s) @ [enqueued (rs_now s) r]\<rparr>\<rparr>)"
| claim: "rs_queue s w = [] \<Longrightarrow>
    claim_batch f locked (rs_now s) w t (rd_rows (rs_db s)) = (batch, rows) \<Longrightarrow>
    relay_step s (s\<lparr>rs_db := (rs_db s)\<lparr>rd_rows := rows\<rparr>,
      rs_queue := (rs_queue s)(w := map (\<lambda>r. (r, rs_now s + CLAIM_LEASE)) batch),
      rs_stage := (rs_stage s)(w := Publishing)\<rparr>)"
| renewal: "rs_queue s w = (r, u) # rest \<Longrightarrow> rs_stage s w = Publishing \<Longrightarrow>
    rows = renew_claim (rs_now s) w (ob_tenant r) (ob_id r) (rd_rows (rs_db s)) \<Longrightarrow>
    relay_step s (s\<lparr>rs_db := (rs_db s)\<lparr>rd_rows := rows\<rparr>, rs_queue := (rs_queue s)(w :=
      (r, if list_ex (owned_unpublished w (ob_tenant r) (ob_id r)) (rd_rows (rs_db s))
          then rs_now s + CLAIM_LEASE else u) # rest)\<rparr>)"
| ack: "rs_queue s w = (r, u) # rest \<Longrightarrow> rs_stage s w = Publishing \<Longrightarrow>
    relay_step s (s\<lparr>rs_db := (rs_db s)\<lparr>rd_acked := rd_acked (rs_db s) @ [(ob_id r, relayed_event e r)]\<rparr>,
      rs_stage := (rs_stage s)(w := Acknowledged)\<rparr>)"
| refuse: "rs_queue s w \<noteq> [] \<Longrightarrow> rs_stage s w = Publishing \<Longrightarrow>
    relay_step s (s\<lparr>rs_stage := (rs_stage s)(w := Refused err)\<rparr>)"
| mark: "rs_queue s w = (r, u) # rest \<Longrightarrow> rs_stage s w = Acknowledged \<Longrightarrow>
    relay_step s (s\<lparr>rs_db := mark_published (rs_now s) w (ob_tenant r) (ob_id r) (rs_db s),
      rs_queue := (rs_queue s)(w := rest), rs_stage := (rs_stage s)(w := Publishing)\<rparr>)"
| failed: "rs_queue s w = (r, u) # rest \<Longrightarrow> rs_stage s w = Refused err \<Longrightarrow>
    relay_step s (s\<lparr>rs_db := record_failure (ob_tenant r) (ob_id r) err (rs_db s),
      rs_queue := (rs_queue s)(w := rest), rs_stage := (rs_stage s)(w := Publishing)\<rparr>)"
| unrecorded: "rs_queue s w = (r, u) # rest \<Longrightarrow> rs_stage s w \<noteq> Publishing \<Longrightarrow>
    relay_step s (s\<lparr>rs_queue := (rs_queue s)(w := rest), rs_stage := (rs_stage s)(w := Publishing)\<rparr>)"
| crash: "relay_step s (s\<lparr>rs_queue := (rs_queue s)(w := []), rs_stage := (rs_stage s)(w := Publishing)\<rparr>)"

text \<open>The system seen as leases: a published row is finished.\<close>

definition row_lease :: "relay_row \<Rightarrow> string lease" where
  "row_lease r = (if rl_published r \<noteq> None then Finished
     else case (rl_claimed_by r, rl_claim_until r) of (Some w, Some u) \<Rightarrow> Held w u | _ \<Rightarrow> Free)"

definition relay_row_at :: "uuid \<Rightarrow> relay_row list \<Rightarrow> relay_row option" where
  "relay_row_at i rows = find (\<lambda>r. ob_id r = i) rows"

definition event_lease :: "relay_row list \<Rightarrow> uuid \<Rightarrow> string lease" where
  "event_lease rows i = (case relay_row_at i rows of None \<Rightarrow> Free | Some r \<Rightarrow> row_lease r)"

definition queue_claims :: "(relay_row \<times> timestamp) list \<Rightarrow> uuid \<Rightarrow> timestamp option" where
  "queue_claims q = map_of (map (\<lambda>(r, u). (ob_id r, u)) q)"

definition relay_view :: "relay_sys \<Rightarrow> (string, uuid, string) lease_sys" where
  "relay_view s = \<lparr>ls_now = rs_now s, ls_table = event_lease (rd_rows (rs_db s)),
     ls_claims = (\<lambda>w. queue_claims (rs_queue s w))\<rparr>"

definition relay_inv :: "relay_sys \<Rightarrow> bool" where
  "relay_inv s \<longleftrightarrow> distinct (map ob_id (rd_rows (rs_db s)))
     \<and> (\<forall>w. distinct (map (\<lambda>(r, u). ob_id r) (rs_queue s w)))
     \<and> (\<forall>r \<in> set (rd_rows (rs_db s)). rl_claimed_by r = None \<longleftrightarrow> rl_claim_until r = None)"


lemma row_at_map:
  assumes "\<And>r. ob_id (g r) = ob_id r"
  shows "relay_row_at i (map g rows) = map_option g (relay_row_at i rows)"
  unfolding relay_row_at_def by (induction rows) (simp_all add: assms)

lemma row_at_Some: "relay_row_at i rows = Some r \<Longrightarrow> r \<in> set rows \<and> ob_id r = i"
  unfolding relay_row_at_def by (rule find_Some_set)

lemma row_at_None: "relay_row_at i rows = None \<longleftrightarrow> i \<notin> ob_id ` set rows"
  unfolding relay_row_at_def by (auto simp: find_None_iff)

lemma row_at_mem: "distinct (map ob_id rows) \<Longrightarrow> r \<in> set rows \<Longrightarrow> relay_row_at (ob_id r) rows = Some r"
  unfolding relay_row_at_def by (induction rows) (auto simp: image_iff)

text \<open>A statement that rewrites rows and keeps their ids changes the leases of the rows it hits.\<close>

lemma ids_map: "(\<And>r. ob_id (g r) = ob_id r) \<Longrightarrow> map ob_id (map g rows) = map ob_id rows"
  by simp

lemma lease_map:
  assumes "\<And>r. ob_id (g r) = ob_id r"
    and "\<And>r. r \<in> set rows \<Longrightarrow> ob_id r = i \<Longrightarrow> row_lease (g r) = (if hit r then l else row_lease r)"
  shows "event_lease (map g rows) i =
    (case relay_row_at i rows of None \<Rightarrow> Free | Some r \<Rightarrow> if hit r then l else row_lease r)"
  unfolding event_lease_def row_at_map [of g, OF assms(1)] using assms(2) row_at_Some
  by (auto split: option.splits)

lemma selected_claimable:
  "r \<in> set (selected_events f locked now t rows) \<Longrightarrow> r \<in> set rows \<and> claimable now t r"
  unfolding selected_events_def by (drule in_set_takeD) simp

lemma claimable_takeable: "claimable now t r \<Longrightarrow> takeable now (row_lease r)"
  by (auto simp: claimable_def takeable_def row_lease_def split: option.splits)

lemma claim_batch_ids:
  assumes "claim_batch f locked now w t rows = (batch, rows')"
  shows "map ob_id rows' = map ob_id rows"
    "ob_id ` set batch = ob_id ` set (selected_events f locked now t rows)"
    "distinct (map ob_id rows) \<Longrightarrow> distinct (map ob_id batch)"
proof -
  let ?ids = "set (map ob_id (selected_events f locked now t rows))"
  let ?g = "\<lambda>r. if ob_id r \<in> ?ids then claim_row_for now w r else r"
  have rows': "rows' = map ?g rows" and batch: "mset batch = mset (filter (\<lambda>r. ob_id r \<in> ?ids) rows')"
    using assms by (auto simp: claim_batch_def Let_def)
  have g: "ob_id (?g r) = ob_id r" for r by (simp add: claim_row_for_def)
  show ids: "map ob_id rows' = map ob_id rows" unfolding rows' using g by simp
  have "set batch = set (filter (\<lambda>r. ob_id r \<in> ?ids) rows')" using batch by (rule mset_eq_setD)
  then have "ob_id ` set batch = ob_id ` set rows' \<inter> ?ids" by auto
  also have "ob_id ` set rows' = ob_id ` set rows" using ids by (metis set_map)
  also have "ob_id ` set rows \<inter> ?ids = ?ids" using selected_claimable by fastforce
  finally show "ob_id ` set batch = ob_id ` set (selected_events f locked now t rows)" by simp
  show "distinct (map ob_id batch)" if "distinct (map ob_id rows)"
  proof -
    have "mset (map ob_id batch) = mset (map ob_id (filter (\<lambda>r. ob_id r \<in> ?ids) rows'))" using batch by simp
    moreover have "distinct (map ob_id (filter (\<lambda>r. ob_id r \<in> ?ids) rows'))"
      using that ids by (simp add: distinct_map_filter)
    ultimately show ?thesis by (metis mset_eq_imp_distinct_iff)
  qed
qed

lemma claim_batch_lease:
  assumes "claim_batch f locked now w t rows = (batch, rows')" and "distinct (map ob_id rows)"
  shows "event_lease rows' k = (if k \<in> ob_id ` set batch then Held w (now + CLAIM_LEASE) else event_lease rows k)"
    and "k \<in> ob_id ` set batch \<Longrightarrow> takeable now (event_lease rows k)"
proof -
  let ?ids = "ob_id ` set (selected_events f locked now t rows)"
  let ?g = "\<lambda>r. if ob_id r \<in> set (map ob_id (selected_events f locked now t rows)) then claim_row_for now w r else r"
  have rows': "rows' = map ?g rows" using assms(1) by (auto simp: claim_batch_def Let_def)
  have sel: "claimable now t r" if "r \<in> set rows" "ob_id r \<in> ?ids" for r
  proof -
    from that(2) obtain q where "q \<in> set (selected_events f locked now t rows)" "ob_id q = ob_id r" by auto
    with selected_claimable that(1) assms(2) show ?thesis by (metis distinct_map inj_onD)
  qed
  have "event_lease rows' k = (case relay_row_at k rows of None \<Rightarrow> Free
      | Some r \<Rightarrow> if ob_id r \<in> ?ids then Held w (now + CLAIM_LEASE) else row_lease r)"
    unfolding rows'
  proof (rule lease_map)
    fix r assume "r \<in> set rows"
    then show "row_lease (?g r) = (if ob_id r \<in> ?ids then Held w (now + CLAIM_LEASE) else row_lease r)"
      using sel [of r] by (auto simp: row_lease_def claim_row_for_def claimable_def)
  qed (simp add: claim_row_for_def)
  moreover have "k \<in> ?ids \<Longrightarrow> relay_row_at k rows \<noteq> None"
    using selected_claimable by (auto simp: row_at_None)
  moreover have "relay_row_at k rows = Some r \<Longrightarrow> ob_id r = k" for r using row_at_Some by blast
  ultimately show "event_lease rows' k =
      (if k \<in> ob_id ` set batch then Held w (now + CLAIM_LEASE) else event_lease rows k)"
    unfolding claim_batch_ids(2) [OF assms(1)] by (auto simp: event_lease_def split: option.splits)
  show "takeable now (event_lease rows k)" if "k \<in> ob_id ` set batch"
  proof (cases "relay_row_at k rows")
    case (Some r)
    with that sel [of r] claimable_takeable show ?thesis
      unfolding claim_batch_ids(2) [OF assms(1)] by (auto simp: event_lease_def dest: row_at_Some)
  qed (simp add: event_lease_def takeable_def)
qed


lemma queue_claims_simps [simp]:
  "queue_claims [] = (\<lambda>_. None)" "queue_claims ((r, u) # q) = (queue_claims q)(ob_id r \<mapsto> u)"
  by (auto simp: queue_claims_def)

lemma queue_claims_None: "queue_claims q k = None \<longleftrightarrow> k \<notin> (\<lambda>(r, u). ob_id r) ` set q"
  by (simp add: queue_claims_def map_of_eq_None_iff image_image case_prod_unfold)

lemma queue_claims_batch: "queue_claims (map (\<lambda>r. (r, u)) batch) k = (if k \<in> ob_id ` set batch then Some u else None)"
  by (induction batch) auto

text \<open>After its head is done the queue has no claim of it.\<close>

lemma queue_claims_tail:
  "distinct (map (\<lambda>(r, u). ob_id r) ((r, u) # rest)) \<Longrightarrow>
     queue_claims rest = (queue_claims ((r, u) # rest))(ob_id r := None)"
  using queue_claims_None [of rest "ob_id r"] by (auto simp: image_iff)

lemma owned_here:
  assumes "distinct (map ob_id rows)"
  shows "list_ex (owned_unpublished w t i) rows \<longleftrightarrow>
    (\<exists>r. relay_row_at i rows = Some r \<and> owned_unpublished w t i r)"
proof
  assume "list_ex (owned_unpublished w t i) rows"
  then obtain r where r: "r \<in> set rows" "owned_unpublished w t i r" unfolding list_ex_iff by blast
  with row_at_mem [OF assms r(1)] show "\<exists>r. relay_row_at i rows = Some r \<and> owned_unpublished w t i r"
    unfolding owned_unpublished_def by blast
next
  assume "\<exists>r. relay_row_at i rows = Some r \<and> owned_unpublished w t i r"
  then show "list_ex (owned_unpublished w t i) rows" unfolding list_ex_iff using row_at_Some by blast
qed

lemma owned_lookup:
  assumes "distinct (map ob_id rows)"
  shows "(case relay_row_at k rows of None \<Rightarrow> Free | Some r \<Rightarrow> if owned_unpublished w t i r then l else row_lease r)
    = (if k = i \<and> list_ex (owned_unpublished w t i) rows then l else event_lease rows k)"
proof (cases "relay_row_at k rows")
  case None
  then show ?thesis by (cases "k = i") (simp_all add: event_lease_def owned_here [OF assms])
next
  case (Some r)
  then have "ob_id r = k" using row_at_Some by blast
  show ?thesis
  proof (cases "k = i")
    case True
    with Some show ?thesis by (simp add: event_lease_def owned_here [OF assms])
  next
    case False
    with \<open>ob_id r = k\<close> have "\<not> owned_unpublished w t i r" by (simp add: owned_unpublished_def)
    with Some False show ?thesis by (simp add: event_lease_def)
  qed
qed

lemma renew_lease:
  assumes "distinct (map ob_id rows)"
  shows "event_lease (renew_claim now w t i rows) k = (if k = i \<and> list_ex (owned_unpublished w t i) rows
     then Held w (now + CLAIM_LEASE) else event_lease rows k)"
  unfolding renew_claim_def owned_lookup [OF assms, symmetric]
  by (rule lease_map) (auto simp: owned_unpublished_def row_lease_def)

lemma owned_lease:
  assumes "distinct (map ob_id rows)" and "list_ex (owned_unpublished w t i) rows"
    and "\<forall>r \<in> set rows. rl_claimed_by r = None \<longleftrightarrow> rl_claim_until r = None"
  shows "\<exists>u. event_lease rows i = Held w u"
proof -
  obtain r where r: "relay_row_at i rows = Some r" "owned_unpublished w t i r"
    using owned_here [OF assms(1)] assms(2) by blast
  then have "r \<in> set rows" using row_at_Some by blast
  with r(2) assms(3) obtain u where "rl_claim_until r = Some u" by (auto simp: owned_unpublished_def)
  with r show ?thesis by (auto simp: event_lease_def row_lease_def owned_unpublished_def)
qed

lemma one_owned:
  assumes "distinct (map ob_id rows)"
  shows "length (filter (owned_unpublished w t i) rows) = 1 \<longleftrightarrow> list_ex (owned_unpublished w t i) rows"
proof -
  have "length (filter (\<lambda>r. ob_id r = i) rows) \<le> 1"
    using assms by (induction rows) (auto simp: filter_empty_conv image_iff)
  moreover have "length (filter (owned_unpublished w t i) rows) \<le> length (filter (\<lambda>r. ob_id r = i) rows)"
    by (induction rows) (auto simp: owned_unpublished_def)
  moreover have "filter (owned_unpublished w t i) rows \<noteq> [] \<longleftrightarrow> list_ex (owned_unpublished w t i) rows"
    by (auto simp: filter_empty_conv list_ex_iff)
  ultimately show ?thesis by (cases "filter (owned_unpublished w t i) rows") (auto simp: le_Suc_eq)
qed

lemma mark_lease:
  assumes "distinct (map ob_id (rd_rows d))"
  shows "event_lease (rd_rows (mark_published now w t i d)) k =
    (if k = i \<and> list_ex (owned_unpublished w t i) (rd_rows d) then Finished else event_lease (rd_rows d) k)"
proof -
  let ?g = "\<lambda>r. if owned_unpublished w t i r
     then r\<lparr>rl_published := Some now, rl_claimed_by := None, rl_claim_until := None\<rparr> else r"
  show ?thesis
  proof (cases "list_ex (owned_unpublished w t i) (rd_rows d)")
    case True
    then have rows: "rd_rows (mark_published now w t i d) = map ?g (rd_rows d)"
      using one_owned [OF assms] by (simp add: mark_published_def)
    show ?thesis unfolding rows owned_lookup [OF assms, symmetric]
      by (rule lease_map) (auto simp: owned_unpublished_def row_lease_def)
  qed (use one_owned [OF assms] in \<open>simp add: mark_published_def\<close>)
qed

lemma failure_lease:
  "event_lease (rd_rows (record_failure t i err d)) k =
    (case relay_row_at k (rd_rows d) of None \<Rightarrow> Free
     | Some r \<Rightarrow> if k = i \<and> ob_tenant r = t \<and> rl_published r = None then Free else row_lease r)"
proof -
  let ?g = "\<lambda>r. if ob_id r = i \<and> ob_tenant r = t
      then r\<lparr>rl_attempts := rl_attempts r + 1, rl_error := Some err, rl_claimed_by := None, rl_claim_until := None\<rparr>
      else r"
  have "event_lease (map ?g (rd_rows d)) k = (case relay_row_at k (rd_rows d) of None \<Rightarrow> Free
      | Some r \<Rightarrow> if ob_id r = i \<and> ob_tenant r = t \<and> rl_published r = None then Free else row_lease r)"
    by (rule lease_map) (auto simp: row_lease_def)
  then show ?thesis
    using row_at_Some [of k "rd_rows d"] by (auto simp: record_failure_def split: option.splits)
qed


lemma enqueued_sel [simp]:
  "ob_id (enqueued now r) = ob_id r" "ob_tenant (enqueued now r) = ob_tenant r"
  "rl_published (enqueued now r) = None" "rl_claimed_by (enqueued now r) = None"
  "rl_claim_until (enqueued now r) = None" "rl_attempts (enqueued now r) = 0"
  by (simp_all add: enqueued_def outbox_row.extend_def)

lemma statement_ids [simp]:
  "map ob_id (renew_claim now w t i rows) = map ob_id rows"
  "map ob_id (rd_rows (mark_published now w t i d)) = map ob_id (rd_rows d)"
  "map ob_id (rd_rows (record_failure t i err d)) = map ob_id (rd_rows d)"
  by (auto simp: renew_claim_def mark_published_def record_failure_def Let_def)

lemma lease_enqueue:
  "ob_id r \<notin> ob_id ` set rows \<Longrightarrow> event_lease (rows @ [enqueued now r]) k = event_lease rows k"
  unfolding event_lease_def relay_row_at_def
  by (induction rows) (auto simp: row_lease_def)

text \<open>Both claim columns are set or none is.\<close>

definition claims_paired :: "relay_row list \<Rightarrow> bool" where
  "claims_paired rows \<longleftrightarrow> (\<forall>r \<in> set rows. rl_claimed_by r = None \<longleftrightarrow> rl_claim_until r = None)"

lemma claims_paired_statements:
  assumes "claims_paired rows"
  shows "claims_paired (renew_claim now w t i rows)"
    "rd_rows d = rows \<Longrightarrow> claims_paired (rd_rows (mark_published now w t i d))"
    "rd_rows d = rows \<Longrightarrow> claims_paired (rd_rows (record_failure t i err d))"
    "claim_batch f locked now w t rows = (batch, rows') \<Longrightarrow> claims_paired rows'"
    "claims_paired (rows @ [enqueued now q])"
  using assms
  by (auto simp: claims_paired_def renew_claim_def mark_published_def record_failure_def claim_batch_def Let_def
      claim_row_for_def owned_unpublished_def)

lemma relay_inv_iff: "relay_inv s \<longleftrightarrow> distinct (map ob_id (rd_rows (rs_db s)))
    \<and> (\<forall>w. distinct (map (\<lambda>(r, u). ob_id r) (rs_queue s w))) \<and> claims_paired (rd_rows (rs_db s))"
  by (simp add: relay_inv_def claims_paired_def)

lemma queue_ids_batch: "map (\<lambda>(r, u). ob_id r) (map (\<lambda>r. (r, c)) batch) = map ob_id batch"
  by simp

lemma relay_inv_update:
  assumes "relay_inv s" and "map ob_id (rd_rows (rs_db s')) = map ob_id (rd_rows (rs_db s))"
    and "claims_paired (rd_rows (rs_db s'))"
    and "rs_queue s' = (rs_queue s)(w := q)" and "distinct (map (\<lambda>(r, u). ob_id r) q)"
  shows "relay_inv s'"
  using assms by (simp add: relay_inv_iff)

lemma relay_keeps:
  assumes step: "relay_step s s'" and inv: "relay_inv s"
  shows "relay_inv s'"
proof -
  have paired: "claims_paired (rd_rows (rs_db s))" and ids: "distinct (map ob_id (rd_rows (rs_db s)))"
    and queue: "distinct (map (\<lambda>(r, u). ob_id r) (rs_queue s w))" for w
    using inv by (simp_all add: relay_inv_iff)
  have rest: "distinct (map (\<lambda>(r, u). ob_id r) q)" if "rs_queue s w = x # q" for w x q
    using queue [of w] that by simp
  note kept = claims_paired_statements [OF paired]
  show ?thesis
    using step
  proof cases
    case (enqueue r)
    with inv kept(5) show ?thesis by (simp add: relay_inv_iff)
  next
    case (claim w f locked t batch rows)
    have "distinct (map (\<lambda>(r, u). ob_id r) (map (\<lambda>r. (r, rs_now s + CLAIM_LEASE)) batch))"
      using claim_batch_ids(3) [OF claim(3) ids] by (simp only: queue_ids_batch)
    then show ?thesis
    proof (rule relay_inv_update [OF inv, of s' w, rotated 3])
      show "map ob_id (rd_rows (rs_db s')) = map ob_id (rd_rows (rs_db s))" "claims_paired (rd_rows (rs_db s'))"
        "rs_queue s' = (rs_queue s)(w := map (\<lambda>r. (r, rs_now s + CLAIM_LEASE)) batch)"
        by (simp_all add: claim(1) kept(4) [OF claim(3)] claim_batch_ids(1) [OF claim(3)])
    qed
  next
    case (renewal w r u rest rows)
    show ?thesis
      by (rule relay_inv_update [OF inv, of s' w "rs_queue s' w"]) (use renewal kept(1) queue [of w] in simp_all)
  next
    case (mark w r u rest)
    show ?thesis
      by (rule relay_inv_update [OF inv, of s' w rest]) (use mark kept(2) rest [OF mark(2)] in simp_all)
  next
    case (failed w r u rest err)
    show ?thesis
      by (rule relay_inv_update [OF inv, of s' w rest]) (use failed kept(3) rest [OF failed(2)] in simp_all)
  next
    case (unrecorded w r u rest)
    show ?thesis
      by (rule relay_inv_update [OF inv, of s' w rest]) (use unrecorded paired rest [OF unrecorded(2)] in simp_all)
  next
    case (crash w)
    show ?thesis
      by (rule relay_inv_update [OF inv, of s' w "[]"]) (use crash paired in simp_all)
  qed (use inv in \<open>simp_all add: relay_inv_iff\<close>)
qed

text \<open>Every statement is a step of the lease protocol, or leaves the leases alone.\<close>

lemma drop_is_forget:
  "lease_step own s (s\<lparr>ls_claims := drop_claim w k (ls_claims s)\<rparr>)"
  using lease_step.forget [of "(ls_claims s w)(k := None)" s w own] by (simp add: drop_claim_def)

lemma view_head_done:
  assumes "relay_inv s" and "rs_queue s w = (r, u) # rest"
  shows "(\<lambda>w'. queue_claims (((rs_queue s)(w := rest)) w')) = drop_claim w (ob_id r) (ls_claims (relay_view s))"
proof -
  have "distinct (map (\<lambda>(r, u). ob_id r) ((r, u) # rest))" using assms by (metis relay_inv_def)
  from queue_claims_tail [OF this] assms(2) show ?thesis
    by (auto simp: drop_claim_def relay_view_def fun_eq_iff)
qed

lemma relay_simulates:
  assumes step: "relay_step s s'" and inv: "relay_inv s"
  shows "lease_step (\<lambda>w. w) (relay_view s) (relay_view s') \<or> relay_view s' = relay_view s"
  using step
proof cases
  case (tick n)
  then show ?thesis using lease_step.tick [of "relay_view s" n] by (auto simp: relay_view_def)
next
  case (enqueue r)
  then have "relay_view s' = relay_view s" by (simp add: relay_view_def fun_eq_iff lease_enqueue)
  then show ?thesis ..
next
  case (claim w f locked t batch rows)
  have dist: "distinct (map ob_id (rd_rows (rs_db s)))" using inv by (simp add: relay_inv_def)
  let ?K = "ob_id ` set batch" and ?u = "rs_now s + CLAIM_LEASE"
  have "relay_view s' = (relay_view s)\<lparr>
      ls_table := (\<lambda>k. if k \<in> ?K then Held w ?u else ls_table (relay_view s) k),
      ls_claims := (ls_claims (relay_view s))(w := (\<lambda>k. if k \<in> ?K then Some ?u else ls_claims (relay_view s) w k))\<rparr>"
    using claim_batch_lease(1) [OF claim(3) dist] claim(2)
    by (auto simp: claim(1) relay_view_def fun_eq_iff queue_claims_batch)
  moreover have "\<forall>k \<in> ?K. takeable (ls_now (relay_view s)) (ls_table (relay_view s) k)"
    using claim_batch_lease(2) [OF claim(3) dist] by (simp add: relay_view_def)
  ultimately show ?thesis
    using lease_step.take_keys [of ?K "relay_view s" "\<lambda>w. w" w ?u] by metis
next
  case (renewal w r u rest rows)
  have dist: "distinct (map ob_id (rd_rows (rs_db s)))" using inv by (simp add: relay_inv_def)
  have claimed: "ls_claims (relay_view s) w (ob_id r) \<noteq> None" using renewal(2) by (simp add: relay_view_def)
  show ?thesis
  proof (cases "list_ex (owned_unpublished w (ob_tenant r) (ob_id r)) (rd_rows (rs_db s))")
    case True
    let ?u = "rs_now s + CLAIM_LEASE"
    obtain u0 where "event_lease (rd_rows (rs_db s)) (ob_id r) = Held w u0"
      using owned_lease [OF dist True] inv by (auto simp: relay_inv_def)
    then have "ls_table (relay_view s) (ob_id r) = Held w u0" by (simp add: relay_view_def)
    moreover have "relay_view s' = (relay_view s)\<lparr>ls_table := (ls_table (relay_view s))(ob_id r := Held w ?u),
        ls_claims := (ls_claims (relay_view s))(w := (ls_claims (relay_view s) w)(ob_id r \<mapsto> ?u))\<rparr>"
      using True renew_lease [OF dist] renewal(2,4) by (auto simp: renewal(1) relay_view_def fun_eq_iff)
    ultimately show ?thesis
      using lease_step.renew [of "relay_view s" w "ob_id r" "\<lambda>w. w" u0 ?u] claimed by metis
  next
    case False
    then have "relay_view s' = relay_view s"
      using renew_lease [OF dist] renewal(2,4) by (auto simp: renewal(1) relay_view_def fun_eq_iff)
    then show ?thesis ..
  qed
next
  case (mark w r u rest)
  have dist: "distinct (map ob_id (rd_rows (rs_db s)))" using inv by (simp add: relay_inv_def)
  have claimed: "ls_claims (relay_view s) w (ob_id r) \<noteq> None" using mark(2) by (simp add: relay_view_def)
  note claims = view_head_done [OF inv mark(2)] and lease = mark_lease [OF dist]
  show ?thesis
  proof (cases "list_ex (owned_unpublished w (ob_tenant r) (ob_id r)) (rd_rows (rs_db s))")
    case True
    obtain u0 where "event_lease (rd_rows (rs_db s)) (ob_id r) = Held w u0"
      using owned_lease [OF dist True] inv by (auto simp: relay_inv_def)
    then have "ls_table (relay_view s) (ob_id r) \<noteq> Finished" by (simp add: relay_view_def)
    moreover have "relay_view s' = (relay_view s)\<lparr>ls_table := (ls_table (relay_view s))(ob_id r := Finished),
        ls_claims := drop_claim w (ob_id r) (ls_claims (relay_view s))\<rparr>"
      using True lease claims by (simp add: mark(1) relay_view_def fun_eq_iff)
    ultimately show ?thesis
      using lease_step.end_lease [of "relay_view s" w "ob_id r" Finished "\<lambda>w. w"] claimed by simp
  next
    case False
    then have "relay_view s' = (relay_view s)\<lparr>ls_claims := drop_claim w (ob_id r) (ls_claims (relay_view s))\<rparr>"
      using lease claims by (simp add: mark(1) relay_view_def fun_eq_iff)
    then show ?thesis by (simp only: drop_is_forget simp_thms)
  qed
next
  case (failed w r u rest err)
  have claimed: "ls_claims (relay_view s) w (ob_id r) \<noteq> None" using failed(2) by (simp add: relay_view_def)
  note claims = view_head_done [OF inv failed(2)]
  show ?thesis
  proof (cases "\<exists>q. relay_row_at (ob_id r) (rd_rows (rs_db s)) = Some q \<and> ob_tenant q = ob_tenant r \<and> rl_published q = None")
    case True
    then obtain q where q: "relay_row_at (ob_id r) (rd_rows (rs_db s)) = Some q" "ob_tenant q = ob_tenant r"
      "rl_published q = None" by blast
    then have "ls_table (relay_view s) (ob_id r) \<noteq> Finished"
      by (simp add: relay_view_def event_lease_def row_lease_def split: option.split)
    moreover have "event_lease (rd_rows (record_failure (ob_tenant r) (ob_id r) err (rs_db s)))
        = (event_lease (rd_rows (rs_db s)))(ob_id r := Free)"
      using q by (intro ext, subst failure_lease) (auto simp: event_lease_def split: option.split)
    then have "relay_view s' = (relay_view s)\<lparr>ls_table := (ls_table (relay_view s))(ob_id r := Free),
        ls_claims := drop_claim w (ob_id r) (ls_claims (relay_view s))\<rparr>"
      using claims by (simp add: failed(1) relay_view_def)
    ultimately show ?thesis
      using lease_step.end_lease [of "relay_view s" w "ob_id r" Free "\<lambda>w. w"] claimed by simp
  next
    case False
    then have "event_lease (rd_rows (record_failure (ob_tenant r) (ob_id r) err (rs_db s)))
        = event_lease (rd_rows (rs_db s))"
      by (intro ext, subst failure_lease) (auto simp: event_lease_def split: option.split)
    then have "relay_view s' = (relay_view s)\<lparr>ls_claims := drop_claim w (ob_id r) (ls_claims (relay_view s))\<rparr>"
      using claims by (simp add: failed(1) relay_view_def)
    then show ?thesis by (simp only: drop_is_forget simp_thms)
  qed
next
  case (unrecorded w r u rest)
  then have "relay_view s' = (relay_view s)\<lparr>ls_claims := drop_claim w (ob_id r) (ls_claims (relay_view s))\<rparr>"
    using view_head_done [OF inv unrecorded(2)] by (simp add: relay_view_def)
  then show ?thesis by (simp only: drop_is_forget simp_thms)
next
  case (crash w)
  then have "relay_view s' = (relay_view s)\<lparr>ls_claims := (ls_claims (relay_view s))(w := (\<lambda>_. None))\<rparr>"
    by (auto simp: relay_view_def fun_eq_iff)
  then show ?thesis using lease_step.forget [of "\<lambda>_. None" "relay_view s" w "\<lambda>w. w"] by simp
qed (auto simp: relay_view_def fun_eq_iff)


interpretation relays: lease_protocol "\<lambda>w. w" relay_view relay_step relay_inv
  by unfold_locales (rule relay_keeps, assumption+, rule relay_simulates, assumption+)


section \<open>What the relays guarantee\<close>

definition relays_start :: "relay_sys \<Rightarrow> bool" where
  "relays_start s \<longleftrightarrow> relay_inv s \<and> (\<forall>w. rs_queue s w = [] \<and> rs_stage s w = Publishing)
     \<and> (\<forall>r \<in> set (rd_rows (rs_db s)). rl_published r = None)"

definition acks_of :: "uuid \<Rightarrow> relay_sys \<Rightarrow> nat" where
  "acks_of i s = length (filter (\<lambda>(j, ev). j = i) (rd_acked (rs_db s)))"

lemma start_leases: "relays_start s \<Longrightarrow> leases_ok (\<lambda>w. w) (relay_view s) \<and> timely_claims (relay_view s)"
  by (simp add: relays_start_def leases_ok_def timely_claims_def relay_view_def)

lemma queued_claim:
  assumes "(r, u) \<in> set (rs_queue s w)" shows "\<exists>u'. ls_claims (relay_view s) w (ob_id r) = Some u'"
proof -
  have "ob_id r \<in> (\<lambda>(r, u). ob_id r) ` set (rs_queue s w)" using assms by force
  then show ?thesis using queue_claims_None [of "rs_queue s w" "ob_id r"]
    by (cases "queue_claims (rs_queue s w) (ob_id r)") (simp_all add: relay_view_def)
qed

lemma published_finished:
  assumes "relay_inv s" and "q \<in> set (rd_rows (rs_db s))"
  shows "ls_table (relay_view s) (ob_id q) = Finished \<longleftrightarrow> rl_published q \<noteq> None"
  using row_at_mem [OF _ assms(2)] assms(1)
  by (auto simp: relay_view_def event_lease_def relay_inv_def row_lease_def split: option.splits)

text \<open>Only an event in a queue is acknowledged.\<close>

lemma acks_step:
  "relay_step s s' \<Longrightarrow> (\<And>w. ls_claims (relay_view s) w i = None) \<Longrightarrow> acks_of i s' = acks_of i s"
proof (induction rule: relay_step.induct)
  case (ack s w r u rest e)
  then have "ob_id r \<noteq> i" using queued_claim [of r u s w] by (metis list.set_intros(1) option.distinct(1))
  then show ?case by (simp add: acks_of_def)
qed (auto simp: acks_of_def mark_published_def record_failure_def Let_def)

lemma finished_acks:
  assumes "timely_run relay_view relay_step s s'" and "relay_inv s"
    and "leases_ok (\<lambda>w. w) (relay_view s)" "timely_claims (relay_view s)"
    and "ls_table (relay_view s) i = Finished"
  shows "acks_of i s' = acks_of i s"
  using assms(1)
proof (induction rule: timely_run.induct)
  case (further s1 s2)
  have "ls_claims (relay_view s1) w i = None" for w
    using relays.finished_is_final [OF further(1) assms(2-5)] by blast
  with acks_step [OF further(2)] further(4) show ?case by metis
qed simp

text \<open>A relay \<open>a\<close> that claims, publishes and marks one event.\<close>

definition demo_outbox :: outbox_row where
  "demo_outbox = \<lparr>ob_id = 1, ob_tenant = 7, ob_aggregate_type = ''invoice'', ob_aggregate = 3,
     ob_event_type = ''invoice.created'', ob_payload = JNull\<rparr>"

definition relay_demo :: relay_sys where
  "relay_demo = \<lparr>rs_now = 0, rs_db = \<lparr>rd_rows = [enqueued 0 demo_outbox], rd_published = [], rd_acked = []\<rparr>,
     rs_queue = (\<lambda>_. []), rs_stage = (\<lambda>_. Publishing)\<rparr>"

definition demo_claimed :: relay_sys where
  "demo_claimed = (let r = claim_row_for 0 ''a'' (enqueued 0 demo_outbox) in
     relay_demo\<lparr>rs_db := (rs_db relay_demo)\<lparr>rd_rows := [r]\<rparr>,
       rs_queue := (rs_queue relay_demo)(''a'' := map (\<lambda>r. (r, rs_now relay_demo + CLAIM_LEASE)) [r]),
       rs_stage := (rs_stage relay_demo)(''a'' := Publishing)\<rparr>)"

definition demo_acked :: relay_sys where
  "demo_acked = (let r = claim_row_for 0 ''a'' (enqueued 0 demo_outbox) in
     demo_claimed\<lparr>rs_db := (rs_db demo_claimed)\<lparr>rd_acked := rd_acked (rs_db demo_claimed) @ [(ob_id r, relayed_event demo_env r)]\<rparr>,
       rs_stage := (rs_stage demo_claimed)(''a'' := Acknowledged)\<rparr>)"

definition demo_marked :: relay_sys where
  "demo_marked = (let r = claim_row_for 0 ''a'' (enqueued 0 demo_outbox) in
     demo_acked\<lparr>rs_db := mark_published (rs_now demo_acked) ''a'' (ob_tenant r) (ob_id r) (rs_db demo_acked),
       rs_queue := (rs_queue demo_acked)(''a'' := []), rs_stage := (rs_stage demo_acked)(''a'' := Publishing)\<rparr>)"

lemma demo_start: "relays_start relay_demo"
  by (simp add: relays_start_def relay_inv_def relay_demo_def enqueued_def outbox_row.defs)

lemma demo_claim: "relay_step relay_demo demo_claimed"
proof -
  have "claim_batch no_faults (\<lambda>_. False) (rs_now relay_demo) ''a'' 7 (rd_rows (rs_db relay_demo))
      = ([claim_row_for 0 ''a'' (enqueued 0 demo_outbox)], [claim_row_for 0 ''a'' (enqueued 0 demo_outbox)])"
    by code_simp
  from relay_step.claim [OF _ this] show ?thesis
    unfolding demo_claimed_def Let_def by (simp add: relay_demo_def)
qed

lemma demo_claimed_run: "timely_run relay_view relay_step relay_demo demo_claimed"
proof (rule timely_run.further)
  show "timely_run relay_view relay_step relay_demo relay_demo" by (rule timely_run.start)
  show "relay_step relay_demo demo_claimed" by (rule demo_claim)
  show "timely_claims (relay_view demo_claimed)"
    by (auto simp: timely_claims_def relay_view_def demo_claimed_def Let_def relay_demo_def CLAIM_LEASE_def)
qed

text \<open>C15.
  Relays do not collide. In every run of any number of relays in which no relay goes on with an
  event past the end of its claim: an event is in the batch of at most one relay, its row is
  then unpublished and names that relay; and once its row is marked as published it stays so and is never
  handed to the bus again.
\<close>

theorem relays_exclusive:
  assumes "relays_start s0" and "timely_run relay_view relay_step s0 s"
  shows "(\<forall>w w' r u r' u'. (r, u) \<in> set (rs_queue s w) \<and> (r', u') \<in> set (rs_queue s w') \<and> ob_id r = ob_id r' \<longrightarrow> w = w')
    \<and> (\<forall>w r u. \<forall>q \<in> set (rd_rows (rs_db s)). (r, u) \<in> set (rs_queue s w) \<and> ob_id q = ob_id r \<longrightarrow>
          rl_published q = None \<and> rl_claimed_by q = Some w)
    \<and> (\<forall>q \<in> set (rd_rows (rs_db s)). rl_published q \<noteq> None \<longrightarrow> (\<forall>s'. timely_run relay_view relay_step s s' \<longrightarrow>
          acks_of (ob_id q) s' = acks_of (ob_id q) s
          \<and> (\<forall>q' \<in> set (rd_rows (rs_db s')). ob_id q' = ob_id q \<longrightarrow> rl_published q' \<noteq> None)))"
proof -
  have inv0: "relay_inv s0" using assms(1) by (simp add: relays_start_def)
  note start = start_leases [OF assms(1)]
  have s: "relay_inv s" "leases_ok (\<lambda>w. w) (relay_view s)" "timely_claims (relay_view s)"
    using relays.run [OF assms(2) inv0] start by blast+
  note holder = relays.one_holder [OF assms(2) inv0 conjunct1 [OF start] conjunct2 [OF start]]
  have "w = w'" if "(r, u) \<in> set (rs_queue s w)" "(r', u') \<in> set (rs_queue s w')" "ob_id r = ob_id r'"
    for w w' r u r' u'
    using queued_claim [OF that(1)] queued_claim [OF that(2)] that(3) holder by metis
  moreover have "rl_published q = None \<and> rl_claimed_by q = Some w"
    if h: "q \<in> set (rd_rows (rs_db s))" "(r, u) \<in> set (rs_queue s w)" "ob_id q = ob_id r" for w r u q
  proof -
    obtain u' where "ls_claims (relay_view s) w (ob_id r) = Some u'" using queued_claim [OF h(2)] by blast
    from holder [OF this this] have "ls_table (relay_view s) (ob_id q) = Held w u'" using h(3) by simp
    moreover have "relay_row_at (ob_id q) (rd_rows (rs_db s)) = Some q"
      using row_at_mem [OF _ h(1)] s(1) by (simp add: relay_inv_def)
    ultimately show ?thesis
      by (auto simp: relay_view_def event_lease_def row_lease_def split: if_splits option.splits)
  qed
  moreover have "acks_of (ob_id q) s' = acks_of (ob_id q) s
      \<and> (\<forall>q' \<in> set (rd_rows (rs_db s')). ob_id q' = ob_id q \<longrightarrow> rl_published q' \<noteq> None)"
    if q: "q \<in> set (rd_rows (rs_db s))" "rl_published q \<noteq> None" and run: "timely_run relay_view relay_step s s'" for q s'
  proof -
    have fin: "ls_table (relay_view s) (ob_id q) = Finished" using published_finished [OF s(1) q(1)] q(2) by simp
    have inv': "relay_inv s'" using relays.run [OF run s] by blast
    have "rl_published q' \<noteq> None" if q': "q' \<in> set (rd_rows (rs_db s'))" "ob_id q' = ob_id q" for q'
      using relays.finished_is_final [OF run s fin] published_finished [OF inv' q'(1)] q'(2) by metis
    then show ?thesis using finished_acks [OF run s fin] by blast
  qed
  ultimately show ?thesis by blast
qed

lemma relays_exclusive_witness:
  "relays_start relay_demo \<and> timely_run relay_view relay_step relay_demo demo_claimed
     \<and> map rl_claimed_by (rd_rows (rs_db demo_claimed)) = [Some ''a'']"
proof -
  let ?r = "claim_row_for 0 ''a'' (enqueued 0 demo_outbox)"
  have rows: "rd_rows (rs_db demo_claimed) = [?r]" and queue: "rs_queue demo_claimed ''a'' = [(?r, CLAIM_LEASE)]"
    by (simp_all add: demo_claimed_def relay_demo_def Let_def)
  have "?r \<in> set (rd_rows (rs_db demo_claimed))" "(?r, CLAIM_LEASE) \<in> set (rs_queue demo_claimed ''a'')"
    by (simp_all add: rows queue)
  then have "rl_claimed_by ?r = Some ''a''"
    using relays_exclusive [OF demo_start demo_claimed_run] by blast
  then show ?thesis using demo_start demo_claimed_run rows by simp
qed

lemma claim_batch_published:
  assumes "claim_batch f locked now w t rows = (batch, rows')" and "q \<in> set rows'"
  shows "\<exists>q0 \<in> set rows. ob_id q0 = ob_id q \<and> rl_published q0 = rl_published q"
proof -
  let ?g = "\<lambda>r. if ob_id r \<in> ob_id ` set (selected_events f locked now t rows) then claim_row_for now w r else r"
  have g: "ob_id (?g r) = ob_id r" "rl_published (?g r) = rl_published r" for r
    by (simp_all add: claim_row_for_def)
  have "rows' = map ?g rows" using assms(1) by (auto simp: claim_batch_def Let_def)
  with assms(2) have "q \<in> ?g ` set rows" by simp
  then obtain q0 where q0: "q0 \<in> set rows" "q = ?g q0" by (rule imageE)
  show ?thesis by (rule bexI [OF _ q0(1)]) (unfold q0(2) g, simp)
qed

text \<open>An event of the table whose row is marked as published was acknowledged.\<close>

definition published_backed :: "relay_db \<Rightarrow> bool" where
  "published_backed d \<longleftrightarrow> (\<forall>q \<in> set (rd_rows d). rl_published q \<noteq> None \<longrightarrow>
     ob_id q \<in> fst ` set (rd_acked d) \<and> ob_id q \<in> fst ` set (rd_published d))"

lemma backed_map:
  assumes "published_backed d" and "\<And>q. q \<in> set rows \<Longrightarrow>
      \<exists>q0 \<in> set (rd_rows d). ob_id q0 = ob_id q \<and> rl_published q0 = rl_published q"
  shows "published_backed (d\<lparr>rd_rows := rows\<rparr>)"
  unfolding published_backed_def
proof (intro ballI impI)
  fix q assume q: "q \<in> set (rd_rows (d\<lparr>rd_rows := rows\<rparr>))" "rl_published q \<noteq> None"
  then obtain q0 where "q0 \<in> set (rd_rows d)" "ob_id q0 = ob_id q" "rl_published q0 = rl_published q"
    using assms(2) [of q] by auto
  then show "ob_id q \<in> fst ` set (rd_acked (d\<lparr>rd_rows := rows\<rparr>))
      \<and> ob_id q \<in> fst ` set (rd_published (d\<lparr>rd_rows := rows\<rparr>))"
    using assms(1) q(2) by (simp add: published_backed_def) metis
qed

lemma mark_backed:
  assumes "published_backed d" and "i \<in> fst ` set (rd_acked d)"
  shows "published_backed (mark_published now w t i d)"
proof (cases "length (filter (owned_unpublished w t i) (rd_rows d)) = 1")
  case True
  let ?g = "\<lambda>r. if owned_unpublished w t i r
      then r\<lparr>rl_published := Some now, rl_claimed_by := None, rl_claim_until := None\<rparr> else r"
  let ?d = "mark_published now w t i d"
  have rows: "rd_rows ?d = map ?g (rd_rows d)" and acked: "rd_acked ?d = rd_acked d"
    and dedup: "fst ` set (rd_published ?d) = insert i (fst ` set (rd_published d))"
    using True by (auto simp: mark_published_def Let_def image_iff)
  have "ob_id (?g r) \<in> fst ` set (rd_acked ?d) \<and> ob_id (?g r) \<in> fst ` set (rd_published ?d)"
    if "r \<in> set (rd_rows d)" "rl_published (?g r) \<noteq> None" for r
  proof (cases "owned_unpublished w t i r")
    case True
    then show ?thesis using assms(2) by (simp add: acked dedup owned_unpublished_def)
  next
    case False
    then show ?thesis using that assms(1) by (simp add: acked dedup published_backed_def)
  qed
  then show ?thesis unfolding published_backed_def rows set_map ball_simps by blast
next
  case False
  with assms(1) show ?thesis by (simp add: mark_published_def Let_def)
qed

lemma failure_backed: "published_backed d \<Longrightarrow> published_backed (record_failure t i err d)"
  unfolding record_failure_def by (rule backed_map) (auto split: if_splits)

lemma renewal_backed: "published_backed d \<Longrightarrow> published_backed (d\<lparr>rd_rows := renew_claim now w t i (rd_rows d)\<rparr>)"
  unfolding renew_claim_def by (rule backed_map) (auto split: if_splits)

lemma backed_step:
  assumes "relay_step s s'" and "published_backed (rs_db s)"
    and "\<forall>w r u rest. rs_stage s w = Acknowledged \<and> rs_queue s w = (r, u) # rest \<longrightarrow>
          ob_id r \<in> fst ` set (rd_acked (rs_db s))"
  shows "published_backed (rs_db s') \<and> (\<forall>w r u rest. rs_stage s' w = Acknowledged \<and> rs_queue s' w = (r, u) # rest \<longrightarrow>
          ob_id r \<in> fst ` set (rd_acked (rs_db s')))"
  using assms
proof (induction rule: relay_step.induct)
  case (claim s w f locked t batch rows)
  then show ?case
    using backed_map [OF claim(3) claim_batch_published [OF claim(2)]] by simp
next
  case (renewal s w r u rest rows)
  then show ?case using renewal_backed [OF renewal(4)] by simp
next
  case (mark s w r u rest)
  then have "ob_id r \<in> fst ` set (rd_acked (rs_db s))" by blast
  moreover have "rd_acked (mark_published n w t i d) = rd_acked d" for n t i d
    by (simp add: mark_published_def Let_def)
  ultimately show ?case using mark_backed [OF mark(3)] mark(4) by simp
next
  case (failed s w r u rest err)
  moreover have "rd_acked (record_failure t i err d) = rd_acked d" for t i d
    by (simp add: record_failure_def)
  ultimately show ?case using failure_backed [OF failed(3)] by simp
qed (auto simp: published_backed_def enqueued_def outbox_row.defs)

text \<open>C16.
  Nothing is marked as published that was not. In every run of any number of relays, however
  late, an event whose row is marked as published was acknowledged by the bus, and is in the table
  from which consumers remove duplicates.
\<close>

theorem published_was_acked:
  assumes "relays_start s0" and "relay_step\<^sup>*\<^sup>* s0 s"
    and "q \<in> set (rd_rows (rs_db s))" and "rl_published q \<noteq> None"
  shows "ob_id q \<in> fst ` set (rd_acked (rs_db s)) \<and> ob_id q \<in> fst ` set (rd_published (rs_db s))"
proof -
  have "published_backed (rs_db s) \<and> (\<forall>w r u rest. rs_stage s w = Acknowledged \<and> rs_queue s w = (r, u) # rest \<longrightarrow>
          ob_id r \<in> fst ` set (rd_acked (rs_db s)))"
    using assms(2)
  proof (induction rule: rtranclp_induct)
    case base
    show ?case using assms(1) by (simp add: relays_start_def published_backed_def)
  next
    case (step s s')
    then show ?case using backed_step by blast
  qed
  then show ?thesis using assms(3,4) by (simp add: published_backed_def)
qed

lemma published_was_acked_witness:
  "relay_step\<^sup>*\<^sup>* relay_demo demo_marked \<and> map rl_published (rd_rows (rs_db demo_marked)) = [Some 0]
     \<and> 1 \<in> fst ` set (rd_published (rs_db demo_marked))"
proof -
  let ?r = "claim_row_for 0 ''a'' (enqueued 0 demo_outbox)"
  have acked: "relay_step demo_claimed demo_acked"
    unfolding demo_acked_def Let_def by (rule relay_step.ack [where u = CLAIM_LEASE and rest = "[]"])
      (simp_all add: demo_claimed_def Let_def relay_demo_def)
  have marked: "relay_step demo_acked demo_marked"
    unfolding demo_marked_def Let_def by (rule relay_step.mark [where u = CLAIM_LEASE])
      (simp_all add: demo_acked_def demo_claimed_def Let_def relay_demo_def)
  have run: "relay_step\<^sup>*\<^sup>* relay_demo demo_marked"
    using demo_claim acked marked by (meson converse_rtranclp_into_rtranclp rtranclp.rtrancl_refl)
  let ?q = "?r\<lparr>rl_published := Some 0, rl_claimed_by := None, rl_claim_until := None\<rparr>"
  have rows: "rd_rows (rs_db demo_marked) = [?q]" by code_simp
  have "ob_id ?q \<in> fst ` set (rd_published (rs_db demo_marked))"
    using published_was_acked [OF demo_start run, of ?q] rows by simp
  then have "1 \<in> fst ` set (rd_published (rs_db demo_marked))"
    by (simp add: claim_row_for_def enqueued_def demo_outbox_def outbox_row.defs)
  then show ?thesis using run rows by simp
qed

section \<open>Where the relay departs from its comments\<close>

text \<open>Every row is published under one subject, for no tenant.\<close>

lemma relayed_generic:
  "relayed_subject (relayed_event e r) = ''sensei.generic.json'' \<and> ge_tenant (relayed_event e r) = uuid_nil"
  by (simp add: relayed_subject_def generic_event_type_def SUBJECT_PREFIX_def relayed_event_def generic_event_def)

text \<open>A failure recorded late by one relay releases the claim of another.\<close>

lemma stale_failure_releases:
  assumes "rd_rows d = [r]" and "rl_claimed_by r = Some w"
  shows "map rl_claimed_by (rd_rows (record_failure (ob_tenant r) (ob_id r) err d)) = [None]"
  using assms by (simp add: record_failure_def)

end
