(* ===== verification/Relay_Progress.thy ===== *)
theory Relay_Progress
  imports Outbox_Relay
begin

text \<open>
  A single relay whose statements and publications succeed: what a pass does to the outbox, and
  that enough passes empty it.
\<close>

section \<open>One event\<close>

definition pending :: "uuid \<Rightarrow> relay_row list \<Rightarrow> relay_row list" where
  "pending t rows = filter (\<lambda>r. ob_tenant r = t \<and> rl_published r = None) rows"

text \<open>The rows of the given ids are published, the others as they were.\<close>

definition row_settled :: "uuid set \<Rightarrow> relay_row \<Rightarrow> relay_row \<Rightarrow> bool" where
  "row_settled ids q q' \<longleftrightarrow> ob_id q' = ob_id q \<and> ob_tenant q' = ob_tenant q
     \<and> (if ob_id q \<in> ids then rl_published q' \<noteq> None else q' = q)"

definition rows_settled :: "uuid set \<Rightarrow> relay_row list \<Rightarrow> relay_row list \<Rightarrow> bool" where
  "rows_settled ids = list_all2 (row_settled ids)"

lemma settled_refl: "rows_settled {} rows rows"
  by (simp add: rows_settled_def list_all2_refl row_settled_def)

lemma settled_trans:
  "rows_settled A xs ys \<Longrightarrow> rows_settled B ys zs \<Longrightarrow> rows_settled (A \<union> B) xs zs"
  unfolding rows_settled_def
  by (rule list_all2_trans [of "row_settled A" "row_settled B" "row_settled (A \<union> B)"])
    (auto simp: row_settled_def split: if_splits)

lemma settled_ids: "rows_settled ids rows rows' \<Longrightarrow> map ob_id rows' = map ob_id rows"
  unfolding rows_settled_def by (induction rule: list_all2_induct) (simp_all add: row_settled_def)

lemma settled_pending:
  "rows_settled ids rows rows' \<Longrightarrow> pending t rows' = filter (\<lambda>r. ob_id r \<notin> ids) (pending t rows)"
  unfolding rows_settled_def
  by (induction rule: list_all2_induct) (auto simp: row_settled_def pending_def split: if_splits)

lemma settled_rest:
  "rows_settled ids rows rows' \<Longrightarrow> r \<in> set rows \<Longrightarrow> ob_id r \<notin> ids \<Longrightarrow> r \<in> set rows'"
  unfolding rows_settled_def
  by (induction rule: list_all2_induct) (auto simp: row_settled_def split: if_splits)

text \<open>The renewals of a claim keep its rows up to the end of the claim.\<close>

lemma renewals_map:
  "\<exists>g. fold (\<lambda>now. renew_claim now w t i) ts rows = map g rows
     \<and> (\<forall>q. g q = q \<or> owned_unpublished w t i q \<and> (\<exists>u. g q = q\<lparr>rl_claim_until := u\<rparr>))"
proof (induction ts arbitrary: rows)
  case Nil
  show ?case by (intro exI [of _ id]) simp
next
  case (Cons now ts)
  let ?h = "\<lambda>r. if owned_unpublished w t i r then r\<lparr>rl_claim_until := Some (now + CLAIM_LEASE)\<rparr> else r"
  obtain g where g: "fold (\<lambda>now. renew_claim now w t i) ts (map ?h rows) = map g (map ?h rows)"
    "\<And>q. g q = q \<or> owned_unpublished w t i q \<and> (\<exists>u. g q = q\<lparr>rl_claim_until := u\<rparr>)"
    using Cons.IH by blast
  have "g (?h q) = q \<or> owned_unpublished w t i q \<and> (\<exists>u. g (?h q) = q\<lparr>rl_claim_until := u\<rparr>)" for q
  proof (cases "owned_unpublished w t i q")
    case True
    then show ?thesis using g(2) [of "?h q"] by (auto intro: exI [of _ "Some (now + CLAIM_LEASE)"])
  next
    case False
    then show ?thesis using g(2) [of q] by simp
  qed
  moreover have "renew_claim now w t i rows = map ?h rows" by (simp add: renew_claim_def)
  ultimately show ?case using g(1) by (intro exI [of _ "\<lambda>q. g (?h q)"]) (simp add: o_def)
qed

lemma relay_event_settles:
  assumes dist: "distinct (map ob_id (rd_rows d))"
    and here: "q \<in> set (rd_rows d)" "owned_unpublished w t (ob_id r) q"
    and good: "ew_error ew = None" "ew_recorded ew"
  shows "rows_settled {ob_id r} (rd_rows d) (rd_rows (relay_event w t ew r d))"
    "map fst (rd_acked (relay_event w t ew r d)) = map fst (rd_acked d) @ [ob_id r]"
    "fst ` set (rd_published (relay_event w t ew r d)) = insert (ob_id r) (fst ` set (rd_published d))"
proof -
  obtain g where g: "fold (\<lambda>now. renew_claim now w t (ob_id r)) (ew_renewals ew) (rd_rows d) = map g (rd_rows d)"
    "\<And>q. g q = q \<or> owned_unpublished w t (ob_id r) q \<and> (\<exists>u. g q = q\<lparr>rl_claim_until := u\<rparr>)"
    using renewals_map by blast
  let ?hit = "owned_unpublished w t (ob_id r)"
  have hit: "?hit (g p) = ?hit p" and ident: "ob_id (g p) = ob_id p" for p
    using g(2) [of p] by (auto simp: owned_unpublished_def)
  have "filter ?hit (map g (rd_rows d)) = map g (filter ?hit (rd_rows d))"
    by (simp add: filter_map o_def hit)
  moreover have "length (filter ?hit (rd_rows d)) = 1"
    unfolding one_owned [OF dist] list_ex_iff using here by blast
  ultimately have one: "length (filter ?hit (map g (rd_rows d))) = 1" by simp
  let ?m = "\<lambda>p. if ?hit p then p\<lparr>rl_published := Some (ew_time ew), rl_claimed_by := None,
      rl_claim_until := None\<rparr> else p"
  have rows: "rd_rows (relay_event w t ew r d) = map (\<lambda>p. ?m (g p)) (rd_rows d)"
    using one good g(1) by (simp add: relay_event_def mark_published_def Let_def)
  have "row_settled {ob_id r} p (?m (g p))" if "p \<in> set (rd_rows d)" for p
  proof (cases "ob_id p = ob_id r")
    case True
    with here dist that have "p = q" by (metis distinct_map inj_onD owned_unpublished_def)
    with here(2) hit [of q] ident [of q] g(2) [of q] show ?thesis
      by (auto simp: row_settled_def owned_unpublished_def)
  next
    case False
    then have "\<not> ?hit p" by (simp add: owned_unpublished_def)
    with g(2) [of p] False show ?thesis by (auto simp: row_settled_def)
  qed
  then show "rows_settled {ob_id r} (rd_rows d) (rd_rows (relay_event w t ew r d))"
    unfolding rows rows_settled_def list.rel_map(2) by (rule list.rel_refl_strong)
  show "map fst (rd_acked (relay_event w t ew r d)) = map fst (rd_acked d) @ [ob_id r]"
    using one good g(1) by (simp add: relay_event_def mark_published_def Let_def)
  show "fst ` set (rd_published (relay_event w t ew r d)) = insert (ob_id r) (fst ` set (rd_published d))"
    using one good g(1) by (auto simp: relay_event_def mark_published_def Let_def image_iff)
qed

section \<open>One pass\<close>

lemma relay_events_settle:
  assumes "distinct (map ob_id (rd_rows d))" and "distinct (map ob_id batch)"
    and "\<forall>r \<in> set batch. \<exists>q \<in> set (rd_rows d). owned_unpublished w t (ob_id r) q"
    and "\<forall>k. ew_error (world k) = None \<and> ew_recorded (world k)"
  shows "rows_settled (ob_id ` set batch) (rd_rows d) (rd_rows (relay_events w t world k batch d))
    \<and> map fst (rd_acked (relay_events w t world k batch d)) = map fst (rd_acked d) @ map ob_id batch
    \<and> fst ` set (rd_published (relay_events w t world k batch d)) = ob_id ` set batch \<union> fst ` set (rd_published d)"
  using assms
proof (induction batch arbitrary: d k)
  case Nil
  show ?case by (simp add: settled_refl)
next
  case (Cons r batch)
  let ?d = "relay_event w t (world k) r d"
  obtain q where q: "q \<in> set (rd_rows d)" "owned_unpublished w t (ob_id r) q" using Cons.prems(3) by auto
  have good: "ew_error (world k) = None" "ew_recorded (world k)" using Cons.prems(4) by simp_all
  note here = relay_event_settles [OF Cons.prems(1) q good]
  have still: "\<exists>p \<in> set (rd_rows ?d). owned_unpublished w t (ob_id r') p" if "r' \<in> set batch" for r'
  proof -
    obtain p where p: "p \<in> set (rd_rows d)" "owned_unpublished w t (ob_id r') p" using Cons.prems(3) \<open>r' \<in> set batch\<close> by auto
    moreover have "ob_id r' \<noteq> ob_id r" using Cons.prems(2) \<open>r' \<in> set batch\<close> by (auto simp: image_iff)
    ultimately show ?thesis using settled_rest [OF here(1) p(1)] by (auto simp: owned_unpublished_def)
  qed
  have "distinct (map ob_id (rd_rows ?d))" using settled_ids [OF here(1)] Cons.prems(1) by simp
  from Cons.IH [OF this _ ballI [OF still] Cons.prems(4), of "k + 1"] Cons.prems(2)
  have rest: "rows_settled (ob_id ` set batch) (rd_rows ?d) (rd_rows (relay_events w t world (k + 1) batch ?d))
    \<and> map fst (rd_acked (relay_events w t world (k + 1) batch ?d)) = map fst (rd_acked ?d) @ map ob_id batch
    \<and> fst ` set (rd_published (relay_events w t world (k + 1) batch ?d)) = ob_id ` set batch \<union> fst ` set (rd_published ?d)"
    by simp
  with here settled_trans [OF here(1) conjunct1 [OF rest]] show ?case by simp
qed

definition healthy_pass :: "timestamp \<Rightarrow> pass_world \<Rightarrow> bool" where
  "healthy_pass since pw \<longleftrightarrow> since \<le> pw_time pw \<and> (\<forall>n. stmt_error (pw_pg pw) n = None)
     \<and> (\<forall>i. \<not> pw_locked pw i) \<and> (\<forall>k. ew_error (pw_event pw k) = None \<and> ew_recorded (pw_event pw k))"

text \<open>A row no live claim and no exhausted count of attempts keeps from a relay.\<close>

definition unhindered :: "timestamp \<Rightarrow> relay_row \<Rightarrow> bool" where
  "unhindered since r \<longleftrightarrow> rl_attempts r < MAX_ATTEMPTS
     \<and> (case rl_claim_until r of None \<Rightarrow> True | Some u \<Rightarrow> u < since)"

lemma pass_selects:
  assumes "\<forall>r \<in> set (pending t rows). unhindered since r" and "since \<le> now" and "\<And>i. \<not> locked i"
  shows "filter (\<lambda>r. claimable now t r \<and> \<not> locked (ob_id r)) rows = pending t rows"
  unfolding pending_def using assms
  by (intro filter_cong refl) (auto simp: claimable_def unhindered_def pending_def split: option.splits)

lemma claim_batch_owned:
  assumes claim: "claim_batch f locked now w t rows = (batch, rows')" and dist: "distinct (map ob_id rows)"
  shows "\<forall>r \<in> set batch. \<exists>q \<in> set rows'. owned_unpublished w t (ob_id r) q"
    and "r \<in> set rows \<Longrightarrow> ob_id r \<notin> ob_id ` set batch \<Longrightarrow> r \<in> set rows'"
    and "list_all2 (\<lambda>q q'. ob_id q' = ob_id q \<and> ob_tenant q' = ob_tenant q \<and> rl_published q' = rl_published q
           \<and> (ob_id q \<notin> ob_id ` set batch \<longrightarrow> q' = q)) rows rows'"
proof -
  let ?sel = "selected_events f locked now t rows"
  let ?g = "\<lambda>r. if ob_id r \<in> ob_id ` set ?sel then claim_row_for now w r else r"
  have rows': "rows' = map ?g rows" using claim by (auto simp: claim_batch_def Let_def)
  have g: "ob_id (?g r) = ob_id r" "ob_tenant (?g r) = ob_tenant r" "rl_published (?g r) = rl_published r" for r
    by (simp_all add: claim_row_for_def)
  note ids = claim_batch_ids(2) [OF claim]
  show "list_all2 (\<lambda>q q'. ob_id q' = ob_id q \<and> ob_tenant q' = ob_tenant q \<and> rl_published q' = rl_published q
           \<and> (ob_id q \<notin> ob_id ` set batch \<longrightarrow> q' = q)) rows rows'"
    unfolding rows' ids list.rel_map(2) by (rule list.rel_refl_strong) (intro conjI g(1-3) impI, simp)
  show "r \<in> set rows'" if "r \<in> set rows" "ob_id r \<notin> ob_id ` set batch"
    using that unfolding rows' ids set_map by (intro image_eqI [of _ _ r]) simp_all
  show "\<forall>r \<in> set batch. \<exists>q \<in> set rows'. owned_unpublished w t (ob_id r) q"
  proof
    fix r assume "r \<in> set batch"
    then have "ob_id r \<in> ob_id ` set ?sel" unfolding ids [symmetric] by simp
    then obtain q where q: "q \<in> set ?sel" "ob_id q = ob_id r" by auto
    then have mem: "q \<in> set rows" "claimable now t q" using selected_claimable by blast+
    have "?g q = claim_row_for now w q" using q(1) by (intro if_P imageI)
    then have "claim_row_for now w q \<in> set rows'" unfolding rows' set_map using imageI [OF mem(1), of ?g] by simp
    moreover have "owned_unpublished w t (ob_id r) (claim_row_for now w q)"
      using mem(2) q(2) by (simp add: owned_unpublished_def claimable_def claim_row_for_def)
    ultimately show "\<exists>q \<in> set rows'. owned_unpublished w t (ob_id r) q" by blast
  qed
qed

lemma claimed_settles:
  assumes "list_all2 (\<lambda>q q'. ob_id q' = ob_id q \<and> ob_tenant q' = ob_tenant q \<and> rl_published q' = rl_published q
           \<and> (ob_id q \<notin> ids \<longrightarrow> q' = q)) rows rows'" and "rows_settled ids rows' rows''"
  shows "rows_settled ids rows rows''"
  using assms unfolding rows_settled_def
  by (rule list_all2_trans [rotated]) (auto simp: row_settled_def)

lemma healthy_pass_settles:
  assumes dist: "distinct (map ob_id (rd_rows d))" and pw: "healthy_pass since pw"
    and free: "\<forall>r \<in> set (pending t (rd_rows d)). unhindered since r"
  obtains ids where "ids \<subseteq> set (map ob_id (pending t (rd_rows d)))"
    "card ids = min BATCH_SIZE (length (pending t (rd_rows d)))"
    "rows_settled ids (rd_rows d) (rd_rows (snd (relay_tenant w t pw d)))"
    "mset (map fst (rd_acked (snd (relay_tenant w t pw d)))) = mset (map fst (rd_acked d)) + mset_set ids"
    "fst ` set (rd_published (snd (relay_tenant w t pw d))) = ids \<union> fst ` set (rd_published d)"
proof -
  let ?sel = "selected_events (pw_pg pw) (pw_locked pw) (pw_time pw) t (rd_rows d)"
  obtain batch rows' where claim:
    "claim_batch (pw_pg pw) (pw_locked pw) (pw_time pw) w t (rd_rows d) = (batch, rows')" by fastforce
  let ?d = "snd (relay_tenant w t pw d)"
  have after: "?d = relay_events w t (pw_event pw) 0 batch (d\<lparr>rd_rows := rows'\<rparr>)"
    using pw claim by (simp add: relay_tenant_def healthy_pass_def)
  have sel: "?sel = take BATCH_SIZE (order_by (pw_pg pw) rl_occurred (pending t (rd_rows d)))"
    unfolding selected_events_def
    by (subst pass_selects [OF free]) (use pw in \<open>simp_all add: healthy_pass_def\<close>)
  note ids = claim_batch_ids [OF claim] and owned = claim_batch_owned [OF claim dist]
  have "distinct (map ob_id (order_by (pw_pg pw) rl_occurred (pending t (rd_rows d))))"
  proof (rule mset_eq_imp_distinct_iff [THEN iffD2])
    show "mset (map ob_id (order_by (pw_pg pw) rl_occurred (pending t (rd_rows d)))) = mset (map ob_id (pending t (rd_rows d)))"
      by simp
    show "distinct (map ob_id (pending t (rd_rows d)))"
      using dist by (simp add: pending_def distinct_map_filter)
  qed
  then have dist_sel: "distinct (map ob_id ?sel)" unfolding sel by (simp add: take_map [symmetric] distinct_take)
  have "card (ob_id ` set batch) = length ?sel"
    unfolding ids(2) using distinct_card [OF dist_sel] by simp
  also have "\<dots> = min BATCH_SIZE (length (pending t (rd_rows d)))"
    unfolding sel by (metis length_take min.commute mset_order_by size_mset)
  finally have card: "card (ob_id ` set batch) = min BATCH_SIZE (length (pending t (rd_rows d)))" .
  have sub: "ob_id ` set batch \<subseteq> set (map ob_id (pending t (rd_rows d)))"
    unfolding ids(2) sel using set_take_subset [of BATCH_SIZE "order_by (pw_pg pw) rl_occurred (pending t (rd_rows d))"]
    by auto
  have world: "\<forall>k. ew_error (pw_event pw k) = None \<and> ew_recorded (pw_event pw k)"
    using pw by (simp add: healthy_pass_def)
  have "distinct (map ob_id (rd_rows (d\<lparr>rd_rows := rows'\<rparr>)))" using ids(1) dist by simp
  from relay_events_settle [OF this ids(3) [OF dist] _ world, of w t 0] owned(1)
  have settled: "rows_settled (ob_id ` set batch) rows' (rd_rows ?d)"
    "map fst (rd_acked ?d) = map fst (rd_acked d) @ map ob_id batch"
    "fst ` set (rd_published ?d) = ob_id ` set batch \<union> fst ` set (rd_published d)"
    unfolding after by simp_all
  have "mset (map ob_id batch) = mset_set (ob_id ` set batch)"
    using mset_set_set [OF ids(3) [OF dist]] by simp
  with settled(2) have "mset (map fst (rd_acked ?d)) = mset (map fst (rd_acked d)) + mset_set (ob_id ` set batch)"
    by simp
  with that [OF sub card claimed_settles [OF owned(3) settled(1)] _ settled(3)] show thesis by blast
qed

lemma pending_split:
  assumes "distinct (map f xs)" and "A \<subseteq> set (map f xs)"
  shows "mset_set A + mset (map f (filter (\<lambda>x. f x \<notin> A) xs)) = mset (map f xs)"
    and "card A + length (filter (\<lambda>x. f x \<notin> A) xs) = length xs"
    and "A \<union> f ` set (filter (\<lambda>x. f x \<notin> A) xs) = f ` set xs"
proof -
  have A: "A = set (map f (filter (\<lambda>x. f x \<in> A) xs))" using assms(2) by auto
  have "mset_set A = mset (map f (filter (\<lambda>x. f x \<in> A) xs))"
    by (subst A, subst mset_set_set) (use assms(1) in \<open>simp_all add: distinct_map_filter\<close>)
  moreover have 0: "mset (map f xs) = mset (map f (filter (\<lambda>x. f x \<in> A) xs)) + mset (map f (filter (\<lambda>x. f x \<notin> A) xs))"
    by (induction xs) simp_all
  ultimately show 1: "mset_set A + mset (map f (filter (\<lambda>x. f x \<notin> A) xs)) = mset (map f xs)"
    by (simp only:)
  from arg_cong [OF 1, of size] show "card A + length (filter (\<lambda>x. f x \<notin> A) xs) = length xs"
    by (simp only: size_union size_mset_set size_mset length_map)
  show "A \<union> f ` set (filter (\<lambda>x. f x \<notin> A) xs) = f ` set xs" using assms(2) by auto
qed

section \<open>The outbox empties\<close>

definition relay_passes :: "string \<Rightarrow> uuid \<Rightarrow> pass_world list \<Rightarrow> relay_db \<Rightarrow> relay_db" where
  "relay_passes w t pws d = fold (\<lambda>pw d. snd (relay_tenant w t pw d)) pws d"

text \<open>C17.
  The outbox empties. Passes of a relay over a tenant whose statements and publications
  succeed, at least one for every fifty events still to publish, leave no event of the tenant
  unpublished: each of them is handed to the bus exactly once and recorded for the consumers, no
  other row changes, and no row is lost. It takes that no event has used up its 25 attempts and no
  claim of another relay is alive.
\<close>

theorem relay_drains:
  assumes "distinct (map ob_id (rd_rows d))" and "\<forall>pw \<in> set pws. healthy_pass since pw"
    and "\<forall>r \<in> set (pending t (rd_rows d)). unhindered since r"
    and "length (pending t (rd_rows d)) \<le> BATCH_SIZE * length pws"
  shows "pending t (rd_rows (relay_passes w t pws d)) = []
    \<and> map ob_id (rd_rows (relay_passes w t pws d)) = map ob_id (rd_rows d)
    \<and> mset (map fst (rd_acked (relay_passes w t pws d)))
        = mset (map fst (rd_acked d)) + mset (map ob_id (pending t (rd_rows d)))
    \<and> fst ` set (rd_published (relay_passes w t pws d))
        = ob_id ` set (pending t (rd_rows d)) \<union> fst ` set (rd_published d)
    \<and> (\<forall>r \<in> set (rd_rows d). r \<notin> set (pending t (rd_rows d)) \<longrightarrow> r \<in> set (rd_rows (relay_passes w t pws d)))"
  using assms
proof (induction pws arbitrary: d)
  case Nil
  then show ?case by (simp add: relay_passes_def)
next
  case (Cons pw pws)
  have pw: "healthy_pass since pw" using Cons.prems(2) by simp
  obtain ids where ids: "ids \<subseteq> set (map ob_id (pending t (rd_rows d)))"
    "card ids = min BATCH_SIZE (length (pending t (rd_rows d)))"
    "rows_settled ids (rd_rows d) (rd_rows (snd (relay_tenant w t pw d)))"
    "mset (map fst (rd_acked (snd (relay_tenant w t pw d)))) = mset (map fst (rd_acked d)) + mset_set ids"
    "fst ` set (rd_published (snd (relay_tenant w t pw d))) = ids \<union> fst ` set (rd_published d)"
    using healthy_pass_settles [OF Cons.prems(1) pw Cons.prems(3)] by blast
  let ?d = "snd (relay_tenant w t pw d)"
  note pend = settled_pending [OF ids(3), of t]
  have dist: "distinct (map ob_id (rd_rows ?d))" using settled_ids [OF ids(3)] Cons.prems(1) by simp
  have dp: "distinct (map ob_id (pending t (rd_rows d)))"
    using Cons.prems(1) by (simp add: pending_def distinct_map_filter)
  note split = pending_split [OF dp ids(1)]
  have "length (pending t (rd_rows ?d)) \<le> BATCH_SIZE * length pws"
    using Cons.prems(4) split(2) ids(2) by (simp add: pend)
  moreover have "\<forall>r \<in> set (pending t (rd_rows ?d)). unhindered since r" using Cons.prems(3) by (simp add: pend)
  ultimately have IH: "pending t (rd_rows (relay_passes w t pws ?d)) = []
    \<and> map ob_id (rd_rows (relay_passes w t pws ?d)) = map ob_id (rd_rows ?d)
    \<and> mset (map fst (rd_acked (relay_passes w t pws ?d)))
        = mset (map fst (rd_acked ?d)) + mset (map ob_id (pending t (rd_rows ?d)))
    \<and> fst ` set (rd_published (relay_passes w t pws ?d))
        = ob_id ` set (pending t (rd_rows ?d)) \<union> fst ` set (rd_published ?d)
    \<and> (\<forall>r \<in> set (rd_rows ?d). r \<notin> set (pending t (rd_rows ?d)) \<longrightarrow> r \<in> set (rd_rows (relay_passes w t pws ?d)))"
    using Cons.IH [OF dist] Cons.prems(2) by simp
  have "r \<in> set (rd_rows (relay_passes w t pws ?d))"
    if r: "r \<in> set (rd_rows d)" "r \<notin> set (pending t (rd_rows d))" for r
  proof -
    have "ob_id r \<notin> ids"
    proof
      assume "ob_id r \<in> ids"
      then obtain q where "q \<in> set (pending t (rd_rows d))" "ob_id q = ob_id r" using ids(1) by auto
      moreover from this have "q = r"
        using Cons.prems(1) r(1) inj_onD [of ob_id "set (rd_rows d)" q r] by (simp add: distinct_map pending_def)
      ultimately show False using r(2) by simp
    qed
    with settled_rest [OF ids(3) r(1)] r(2) IH show ?thesis by (simp add: pend)
  qed
  moreover have "relay_passes w t (pw # pws) d = relay_passes w t pws ?d" by (simp add: relay_passes_def)
  ultimately show ?case using IH ids(4,5) split(1,3) settled_ids [OF ids(3)] by (auto simp: pend)
qed

text \<open>Two events of tenant 7, one of them of a claim that has expired, and one of tenant 8.\<close>

definition drained_rows :: "relay_row list" where
  "drained_rows = [enqueued 0 demo_outbox, claim_row_for 1 ''b'' (enqueued 0 (demo_outbox\<lparr>ob_id := 2\<rparr>)),
     enqueued 0 (demo_outbox\<lparr>ob_id := 3, ob_tenant := 8\<rparr>)]"

definition drained_pass :: pass_world where
  "drained_pass = \<lparr>pw_pg = no_faults, pw_time = 60000000, pw_locked = (\<lambda>_. False),
     pw_event = (\<lambda>_. \<lparr>ew_renewals = [], ew_error = None, ew_env = demo_env, ew_time = 60000001, ew_recorded = True\<rparr>)\<rparr>"

lemma relay_drains_witness:
  "pending 7 (rd_rows (relay_passes ''a'' 7 [drained_pass] \<lparr>rd_rows = drained_rows, rd_published = [], rd_acked = []\<rparr>)) = []
   \<and> map ob_id (pending 8 (rd_rows (relay_passes ''a'' 7 [drained_pass]
        \<lparr>rd_rows = drained_rows, rd_published = [], rd_acked = []\<rparr>))) = [3]"
proof -
  let ?d = "\<lparr>rd_rows = drained_rows, rd_published = [], rd_acked = []\<rparr> :: relay_db"
  have "distinct (map ob_id (rd_rows ?d))" by code_simp
  moreover have "\<forall>pw \<in> set [drained_pass]. healthy_pass 60000000 pw"
    by (simp add: healthy_pass_def drained_pass_def no_faults_def)
  moreover have "\<forall>r \<in> set (pending 7 (rd_rows ?d)). unhindered 60000000 r" by code_simp
  moreover have "length (pending 7 (rd_rows ?d)) \<le> BATCH_SIZE * length [drained_pass]" by code_simp
  ultimately have "pending 7 (rd_rows (relay_passes ''a'' 7 [drained_pass] ?d)) = []"
    by (rule relay_drains [THEN conjunct1])
  moreover have "map ob_id (pending 8 (rd_rows (relay_passes ''a'' 7 [drained_pass] ?d))) = [3]" by code_simp
  ultimately show ?thesis by simp
qed

end
