(* ===== verification/Task_Guard.thy ===== *)
theory Task_Guard
  imports Lease_Protocol Sql_Model
begin

text \<open>
  The idempotency guard of the workers (\<open>sensei-workers/src/task.rs\<close>): the leases of the
  table \<open>processed_tasks\<close>, and the processes that claim tasks, run their effects and record
  them, interleaved statement by statement. The counts of attempts are unbounded.
\<close>

section \<open>The guard\<close>

datatype worker_error =
    We_Serialization string
  | We_Nats string
  | We_Processing string
  | We_RetryLater string
  | We_NatsClient string
  | We_JetStream string
  | We_KvStore string
  | We_InvalidConfig string
  | We_Timeout string
  | We_Shutdown string

fun worker_error_text :: "worker_error \<Rightarrow> string" where
  "worker_error_text (We_Serialization e) = ''Serialization error: '' @ e"
| "worker_error_text (We_Nats e) = ''NATS error: '' @ e"
| "worker_error_text (We_Processing e) = ''Processing error: '' @ e"
| "worker_error_text (We_RetryLater e) = ''Retry later: '' @ e"
| "worker_error_text (We_NatsClient e) = ''NATS client error: '' @ e"
| "worker_error_text (We_JetStream e) = ''JetStream error: '' @ e"
| "worker_error_text (We_KvStore e) = ''KV store error: '' @ e"
| "worker_error_text (We_InvalidConfig e) = ''Invalid configuration: '' @ e"
| "worker_error_text (We_Timeout e) = ''Timeout: '' @ e"
| "worker_error_text (We_Shutdown e) = ''Shutdown: '' @ e"

record task_row =
  tk_id :: string
  tk_worker :: string
  tk_state :: string
  tk_owner :: "uuid option"
  tk_until :: timestamp
  tk_attempts :: int
  tk_completed :: "timestamp option"
  tk_failed :: "timestamp option"

text \<open>\<open>INTERVAL '5 minutes'\<close> in microseconds.\<close>

definition TASK_LEASE :: int where
  "TASK_LEASE = 300 * 1000000"

text \<open>A guard: whether it has a pool, the kind of its worker, and the owner id of the process.\<close>

record guard =
  gd_pool :: bool
  gd_worker :: string
  gd_owner :: uuid

datatype claim_outcome = Proceed | AlreadyCompleted | Busy

text \<open>The atomic acquisition: an insert, or an update of a row that may be taken.\<close>

definition task_takeable :: "timestamp \<Rightarrow> task_row \<Rightarrow> bool" where
  "task_takeable now r \<longleftrightarrow> tk_state r \<noteq> ''completed'' \<and> (tk_state r \<noteq> ''in_progress'' \<or> tk_until r < now)"

definition task_row_at :: "string \<Rightarrow> task_row list \<Rightarrow> task_row option" where
  "task_row_at i rows = find (\<lambda>r. tk_id r = i) rows"

definition acquire_lease ::
    "timestamp \<Rightarrow> guard \<Rightarrow> string \<Rightarrow> task_row list \<Rightarrow> (uuid \<times> string) option \<times> task_row list" where
  "acquire_lease now g i rows =
     (case task_row_at i rows of
        None \<Rightarrow> (Some (gd_owner g, ''in_progress''),
          rows @ [\<lparr>tk_id = i, tk_worker = gd_worker g, tk_state = ''in_progress'', tk_owner = Some (gd_owner g),
                   tk_until = now + TASK_LEASE, tk_attempts = 1, tk_completed = None, tk_failed = None\<rparr>])
      | Some r \<Rightarrow>
          if task_takeable now r
          then (Some (gd_owner g, ''in_progress''),
            map (\<lambda>r. if tk_id r = i then r\<lparr>tk_state := ''in_progress'', tk_owner := Some (gd_owner g),
                tk_until := now + TASK_LEASE, tk_worker := gd_worker g, tk_attempts := tk_attempts r + 1\<rparr>
              else r) rows)
          else (None, rows))"

text \<open>The answers of the server to the statements of one call: an error, or none.\<close>

record guard_world =
  gw_now :: timestamp
  gw_claim :: "string option"
  gw_probe :: "string option"
  gw_record :: "string option"

definition try_claim ::
    "guard_world \<Rightarrow> guard \<Rightarrow> string \<Rightarrow> task_row list \<Rightarrow> (worker_error + claim_outcome) \<times> task_row list" where
  "try_claim gw g i rows =
     (if \<not> gd_pool g then (Inr Proceed, rows)
      else case gw_claim gw of
        Some e \<Rightarrow> (Inl (We_Processing (''idempotency claim for task '' @ quoted i @ '' failed: '' @ e)), rows)
      | None \<Rightarrow>
          (case acquire_lease (gw_now gw) g i rows of
             (Some (owner, state), rows) \<Rightarrow>
               (Inr (if owner = gd_owner g
                     then (if state = ''in_progress'' then Proceed
                           else if state = ''completed'' then AlreadyCompleted else Busy)
                     else Busy), rows)
           | (None, rows) \<Rightarrow>
               (case gw_probe gw of
                  Some e \<Rightarrow> (Inl (We_Processing (''idempotency probe for task '' @ quoted i @ '' failed: '' @ e)), rows)
                | None \<Rightarrow> (Inr (if map_option tk_state (task_row_at i rows) = Some ''completed''
                                then AlreadyCompleted else Busy), rows))))"

definition owned_task :: "guard \<Rightarrow> string \<Rightarrow> task_row \<Rightarrow> bool" where
  "owned_task g i r \<longleftrightarrow> tk_id r = i \<and> tk_state r = ''in_progress'' \<and> tk_owner r = Some (gd_owner g)"

definition renew_lease ::
    "guard_world \<Rightarrow> guard \<Rightarrow> string \<Rightarrow> task_row list \<Rightarrow> (worker_error + bool) \<times> task_row list" where
  "renew_lease gw g i rows =
     (if \<not> gd_pool g then (Inr True, rows)
      else case gw_record gw of
        Some e \<Rightarrow> (Inl (We_Processing (''lease renewal for task '' @ quoted i @ '' failed: '' @ e)), rows)
      | None \<Rightarrow> (Inr (length (filter (owned_task g i) rows) = 1),
          map (\<lambda>r. if owned_task g i r then r\<lparr>tk_until := gw_now gw + TASK_LEASE\<rparr> else r) rows))"

definition mark_completed ::
    "guard_world \<Rightarrow> guard \<Rightarrow> string \<Rightarrow> task_row list \<Rightarrow> (worker_error + unit) \<times> task_row list" where
  "mark_completed gw g i rows =
     (if \<not> gd_pool g then (Inr (), rows)
      else case gw_record gw of
        Some e \<Rightarrow> (Inl (We_Processing (''idempotency completion for task '' @ quoted i @ '' failed: '' @ e)), rows)
      | None \<Rightarrow> (Inr (), map (\<lambda>r. if owned_task g i r
          then r\<lparr>tk_state := ''completed'', tk_completed := Some (gw_now gw)\<rparr> else r) rows))"

text \<open>The record of a failure asks for no owner.\<close>

definition mark_failed ::
    "guard_world \<Rightarrow> guard \<Rightarrow> string \<Rightarrow> task_row list \<Rightarrow> (worker_error + unit) \<times> task_row list" where
  "mark_failed gw g i rows =
     (if \<not> gd_pool g then (Inr (), rows)
      else case gw_record gw of
        Some e \<Rightarrow> (Inl (We_Processing (''idempotency failure record for task '' @ quoted i @ '' failed: '' @ e)), rows)
      | None \<Rightarrow> (Inr (), map (\<lambda>r. if tk_id r = i \<and> tk_state r = ''in_progress''
          then r\<lparr>tk_state := ''failed'', tk_failed := Some (gw_now gw)\<rparr> else r) rows))"

section \<open>Processes that share the table\<close>

text \<open>
  The processes with a pool, each with its owner id, and what each of them has in work: a task,
  the end of its lease as the process last set it, and whether its effect has succeeded. The
  effects are those that did.
\<close>

record task_sys =
  ts_now :: timestamp
  ts_rows :: "task_row list"
  ts_work :: "uuid \<Rightarrow> string \<Rightarrow> timestamp option"
  ts_done :: "uuid \<Rightarrow> string \<Rightarrow> bool"
  ts_effects :: "string list"

definition process_guard :: "string \<Rightarrow> uuid \<Rightarrow> guard" where
  "process_guard worker w = \<lparr>gd_pool = True, gd_worker = worker, gd_owner = w\<rparr>"

definition quiet_world :: "timestamp \<Rightarrow> guard_world" where
  "quiet_world now = \<lparr>gw_now = now, gw_claim = None, gw_probe = None, gw_record = None\<rparr>"

lemma quiet_world_sel [simp]:
  "gw_now (quiet_world now) = now" "gw_claim (quiet_world now) = None"
  "gw_probe (quiet_world now) = None" "gw_record (quiet_world now) = None"
  by (simp_all add: quiet_world_def)

lemma process_guard_sel [simp]:
  "gd_pool (process_guard k w) = True" "gd_worker (process_guard k w) = k" "gd_owner (process_guard k w) = w"
  by (simp_all add: process_guard_def)

text \<open>
  A statement that fails changes nothing, and a process may give a task up at any moment: its
  effect failed, or the process stopped.
\<close>

inductive task_step :: "task_sys \<Rightarrow> task_sys \<Rightarrow> bool" where
  tick: "ts_now s \<le> n \<Longrightarrow> task_step s (s\<lparr>ts_now := n\<rparr>)"
| claimed: "try_claim (quiet_world (ts_now s)) (process_guard k w) i (ts_rows s) = (Inr Proceed, rows) \<Longrightarrow>
    task_step s (s\<lparr>ts_rows := rows,
      ts_work := (ts_work s)(w := (ts_work s w)(i \<mapsto> ts_now s + TASK_LEASE)),
      ts_done := (ts_done s)(w := (ts_done s w)(i := False))\<rparr>)"
| declined: "try_claim (quiet_world (ts_now s)) (process_guard k w) i (ts_rows s) = (Inr c, rows) \<Longrightarrow>
    c \<noteq> Proceed \<Longrightarrow> task_step s (s\<lparr>ts_rows := rows\<rparr>)"
| renewed: "ts_work s w i = Some u \<Longrightarrow>
    renew_lease (quiet_world (ts_now s)) (process_guard k w) i (ts_rows s) = (Inr b, rows) \<Longrightarrow>
    task_step s (s\<lparr>ts_rows := rows, ts_work := (ts_work s)(w := (ts_work s w)(i \<mapsto>
      (if list_ex (owned_task (process_guard k w) i) (ts_rows s) then ts_now s + TASK_LEASE else u)))\<rparr>)"
| effect: "ts_work s w i \<noteq> None \<Longrightarrow> \<not> ts_done s w i \<Longrightarrow>
    task_step s (s\<lparr>ts_effects := ts_effects s @ [i], ts_done := (ts_done s)(w := (ts_done s w)(i := True))\<rparr>)"
| completed: "ts_work s w i \<noteq> None \<Longrightarrow> ts_done s w i \<Longrightarrow>
    mark_completed (quiet_world (ts_now s)) (process_guard k w) i (ts_rows s) = (Inr (), rows) \<Longrightarrow>
    task_step s (s\<lparr>ts_rows := rows, ts_work := (ts_work s)(w := (ts_work s w)(i := None))\<rparr>)"
| failed: "ts_work s w i \<noteq> None \<Longrightarrow>
    mark_failed (quiet_world (ts_now s)) (process_guard k w) i (ts_rows s) = (Inr (), rows) \<Longrightarrow>
    task_step s (s\<lparr>ts_rows := rows, ts_work := (ts_work s)(w := (ts_work s w)(i := None))\<rparr>)"
| given_up: "task_step s (s\<lparr>ts_work := (ts_work s)(w := (ts_work s w)(i := None))\<rparr>)"

definition task_lease :: "task_row \<Rightarrow> uuid option lease" where
  "task_lease r = (if tk_state r = ''completed'' then Finished
     else if tk_state r = ''in_progress'' then Held (tk_owner r) (tk_until r) else Free)"

definition lease_of_task :: "task_row list \<Rightarrow> string \<Rightarrow> uuid option lease" where
  "lease_of_task rows i = (case task_row_at i rows of None \<Rightarrow> Free | Some r \<Rightarrow> task_lease r)"

definition task_view :: "task_sys \<Rightarrow> (uuid, string, uuid option) lease_sys" where
  "task_view s = \<lparr>ls_now = ts_now s, ls_table = lease_of_task (ts_rows s), ls_claims = ts_work s\<rparr>"

definition task_inv :: "task_sys \<Rightarrow> bool" where
  "task_inv s \<longleftrightarrow> distinct (map tk_id (ts_rows s))"

section \<open>Its statements as steps of the protocol\<close>

lemma task_at_Some: "task_row_at i rows = Some r \<Longrightarrow> r \<in> set rows \<and> tk_id r = i"
  unfolding task_row_at_def by (rule find_Some_set)

lemma task_at_None: "task_row_at i rows = None \<longleftrightarrow> i \<notin> tk_id ` set rows"
  unfolding task_row_at_def by (auto simp: find_None_iff)

lemma task_at_mem: "distinct (map tk_id rows) \<Longrightarrow> r \<in> set rows \<Longrightarrow> task_row_at (tk_id r) rows = Some r"
  unfolding task_row_at_def by (induction rows) (auto simp: image_iff)

lemma task_at_map:
  "(\<And>r. tk_id (g r) = tk_id r) \<Longrightarrow> task_row_at i (map g rows) = map_option g (task_row_at i rows)"
  unfolding task_row_at_def by (induction rows) simp_all

lemma task_at_append:
  "task_row_at i (rows @ rows') = (case task_row_at i rows of None \<Rightarrow> task_row_at i rows' | Some r \<Rightarrow> Some r)"
  unfolding task_row_at_def by (induction rows) simp_all

text \<open>The lease of one task after a statement that rewrites its row.\<close>

lemma task_lease_map:
  assumes "\<And>r. tk_id (g r) = tk_id r" and "\<And>r. tk_id r \<noteq> i \<Longrightarrow> g r = r"
  shows "lease_of_task (map g rows) = (lease_of_task rows)(i :=
    (case task_row_at i rows of None \<Rightarrow> Free | Some r \<Rightarrow> task_lease (g r)))"
proof
  fix k
  show "lease_of_task (map g rows) k = ((lease_of_task rows)(i :=
    (case task_row_at i rows of None \<Rightarrow> Free | Some r \<Rightarrow> task_lease (g r)))) k"
  proof (cases "task_row_at k rows")
    case (Some r)
    then have "tk_id r = k" using task_at_Some by blast
    with Some assms(2) [of r] show ?thesis by (auto simp: lease_of_task_def task_at_map [of g, OF assms(1)])
  qed (auto simp: lease_of_task_def task_at_map [of g, OF assms(1)])
qed

lemma takeable_task: "task_takeable now r \<longleftrightarrow> takeable now (task_lease r)"
  by (simp add: task_takeable_def takeable_def task_lease_def)

lemma acquire_lease_got:
  assumes "acquire_lease now g i rows = (Some x, rows')"
  shows "takeable now (lease_of_task rows i)" and "x = (gd_owner g, ''in_progress'')"
    and "lease_of_task rows' = (lease_of_task rows)(i := Held (Some (gd_owner g)) (now + TASK_LEASE))"
    and "distinct (map tk_id rows) \<Longrightarrow> distinct (map tk_id rows')"
proof -
  let ?g = "\<lambda>r. if tk_id r = i then r\<lparr>tk_state := ''in_progress'', tk_owner := Some (gd_owner g),
      tk_until := now + TASK_LEASE, tk_worker := gd_worker g, tk_attempts := tk_attempts r + 1\<rparr> else r"
  have "takeable now (lease_of_task rows i) \<and> x = (gd_owner g, ''in_progress'')
    \<and> lease_of_task rows' = (lease_of_task rows)(i := Held (Some (gd_owner g)) (now + TASK_LEASE))
    \<and> (distinct (map tk_id rows) \<longrightarrow> distinct (map tk_id rows'))"
  proof (cases "task_row_at i rows")
    case None
    then have "i \<notin> tk_id ` set rows" by (simp add: task_at_None)
    let ?n = "\<lparr>tk_id = i, tk_worker = gd_worker g, tk_state = ''in_progress'', tk_owner = Some (gd_owner g),
                   tk_until = now + TASK_LEASE, tk_attempts = 1, tk_completed = None, tk_failed = None\<rparr>"
    have new: "rows' = rows @ [?n]" "x = (gd_owner g, ''in_progress'')"
      using assms None by (simp_all add: acquire_lease_def)
    have "lease_of_task rows' k = ((lease_of_task rows)(i := Held (Some (gd_owner g)) (now + TASK_LEASE))) k" for k
      unfolding new(1) lease_of_task_def task_at_append using None
      by (cases "k = i"; cases "task_row_at k rows") (simp_all add: task_row_at_def task_lease_def)
    then show ?thesis
      using None new \<open>i \<notin> tk_id ` set rows\<close> by (simp add: fun_eq_iff lease_of_task_def takeable_def image_iff)
  next
    case (Some r)
    then have r: "task_takeable now r" "rows' = map ?g rows" "x = (gd_owner g, ''in_progress'')"
      using assms by (simp_all add: acquire_lease_def split: if_splits)
    have "lease_of_task rows' = (lease_of_task rows)(i := task_lease (?g r))"
      unfolding r(2) using Some by (subst task_lease_map [of ?g i]) simp_all
    moreover have "tk_id r = i" using task_at_Some [OF Some] by blast
    moreover have "map tk_id rows' = map tk_id rows" unfolding r(2) by simp
    ultimately show ?thesis using Some r(1,3) by (simp add: lease_of_task_def takeable_task task_lease_def)
  qed
  then show "takeable now (lease_of_task rows i)" "x = (gd_owner g, ''in_progress'')"
    "lease_of_task rows' = (lease_of_task rows)(i := Held (Some (gd_owner g)) (now + TASK_LEASE))"
    "distinct (map tk_id rows) \<Longrightarrow> distinct (map tk_id rows')" by simp_all
qed

lemma acquire_lease_none: "acquire_lease now g i rows = (None, rows') \<Longrightarrow> rows' = rows"
  by (auto simp: acquire_lease_def split: option.splits if_splits)

text \<open>A claim proceeds with the lease taken, and otherwise leaves the table as it was.\<close>

lemma try_claim_cases:
  assumes "try_claim (quiet_world now) (process_guard k w) i rows = (Inr c, rows')"
  obtains (got) x where "c = Proceed" "acquire_lease now (process_guard k w) i rows = (Some x, rows')"
  | (not_got) "c \<noteq> Proceed" "rows' = rows"
proof (cases "acquire_lease now (process_guard k w) i rows")
  case (Pair x rows1)
  show thesis
  proof (cases x)
    case None
    with Pair assms acquire_lease_none [of now "process_guard k w" i rows rows1] not_got show thesis
      by (auto simp: try_claim_def split: if_splits)
  next
    case (Some y)
    with Pair acquire_lease_got(2) [of now "process_guard k w" i rows y rows1]
    have "y = (w, ''in_progress'')" by simp
    with Some Pair assms got show thesis
      by (auto simp: try_claim_def )
  qed
qed

text \<open>The updates by id and state: of a lease the process owns, and of any lease.\<close>

lemma task_row_of:
  assumes "distinct (map tk_id rows)" and "r \<in> set rows" "tk_id r = i"
  shows "lease_of_task rows i = task_lease r"
  using task_at_mem [OF assms(1,2)] assms(3) by (simp add: lease_of_task_def)

lemma owned_task_lease:
  assumes "distinct (map tk_id rows)"
  shows "list_ex (owned_task g i) rows \<longleftrightarrow> (\<exists>u. lease_of_task rows i = Held (Some (gd_owner g)) u)"
proof
  assume "list_ex (owned_task g i) rows"
  then obtain r where "r \<in> set rows" "owned_task g i r" unfolding list_ex_iff by blast
  with task_row_of [OF assms, of r i] show "\<exists>u. lease_of_task rows i = Held (Some (gd_owner g)) u"
    by (auto simp: owned_task_def task_lease_def)
next
  assume "\<exists>u. lease_of_task rows i = Held (Some (gd_owner g)) u"
  then obtain r where "task_row_at i rows = Some r" "owned_task g i r"
    using task_at_Some by (auto simp: lease_of_task_def owned_task_def task_lease_def split: option.splits if_splits)
  with task_at_Some show "list_ex (owned_task g i) rows" unfolding list_ex_iff by blast
qed

lemma task_update_lease:
  assumes dist: "distinct (map tk_id rows)" and hit: "\<And>r. hit r \<Longrightarrow> tk_id r = i"
    and g: "\<And>r. tk_id (g r) = tk_id r" "\<And>r. hit r \<Longrightarrow> task_lease (g r) = l"
  shows "lease_of_task (map (\<lambda>r. if hit r then g r else r) rows)
    = (lease_of_task rows)(i := if list_ex hit rows then l else lease_of_task rows i)"
proof -
  let ?g = "\<lambda>r. if hit r then g r else r"
  have "lease_of_task (map ?g rows) = (lease_of_task rows)(i :=
      (case task_row_at i rows of None \<Rightarrow> Free | Some r \<Rightarrow> task_lease (?g r)))"
    by (rule task_lease_map) (use g(1) hit in auto)
  moreover have "(case task_row_at i rows of None \<Rightarrow> Free | Some r \<Rightarrow> task_lease (?g r))
      = (if list_ex hit rows then l else lease_of_task rows i)"
  proof (cases "task_row_at i rows")
    case None
    then have "\<not> list_ex hit rows" using hit by (auto simp: list_ex_iff task_at_None)
    with None show ?thesis by (simp add: lease_of_task_def)
  next
    case (Some r)
    have "list_ex hit rows \<longleftrightarrow> hit r"
      using task_at_Some [OF Some] task_at_mem [OF dist] hit Some unfolding list_ex_iff by (metis option.inject)
    with Some g(2) show ?thesis by (simp add: lease_of_task_def)
  qed
  ultimately show ?thesis by simp
qed

lemma renew_task_lease:
  assumes "distinct (map tk_id rows)"
    and "renew_lease (quiet_world now) (process_guard k w) i rows = (Inr b, rows')"
  shows "lease_of_task rows' = (lease_of_task rows)(i :=
      if list_ex (owned_task (process_guard k w) i) rows then Held (Some w) (now + TASK_LEASE) else lease_of_task rows i)"
    and "map tk_id rows' = map tk_id rows"
proof -
  let ?g = "\<lambda>r. if owned_task (process_guard k w) i r then r\<lparr>tk_until := now + TASK_LEASE\<rparr> else r"
  have rows': "rows' = map ?g rows"
    using assms(2) by (auto simp: renew_lease_def)
  show "lease_of_task rows' = (lease_of_task rows)(i :=
      if list_ex (owned_task (process_guard k w) i) rows then Held (Some w) (now + TASK_LEASE) else lease_of_task rows i)"
    unfolding rows' by (rule task_update_lease [OF assms(1)])
      (auto simp: owned_task_def task_lease_def)
  show "map tk_id rows' = map tk_id rows" unfolding rows' by simp
qed

lemma complete_task_lease:
  assumes "distinct (map tk_id rows)"
    and "mark_completed (quiet_world now) (process_guard k w) i rows = (Inr (), rows')"
  shows "lease_of_task rows' = (lease_of_task rows)(i :=
      if list_ex (owned_task (process_guard k w) i) rows then Finished else lease_of_task rows i)"
    and "map tk_id rows' = map tk_id rows"
proof -
  let ?g = "\<lambda>r. if owned_task (process_guard k w) i r
      then r\<lparr>tk_state := ''completed'', tk_completed := Some now\<rparr> else r"
  have rows': "rows' = map ?g rows"
    using assms(2) by (auto simp: mark_completed_def)
  show "lease_of_task rows' = (lease_of_task rows)(i :=
      if list_ex (owned_task (process_guard k w) i) rows then Finished else lease_of_task rows i)"
    unfolding rows' by (rule task_update_lease [OF assms(1)]) (auto simp: owned_task_def task_lease_def)
  show "map tk_id rows' = map tk_id rows" unfolding rows' by simp
qed

lemma fail_task_lease:
  assumes "distinct (map tk_id rows)"
    and "mark_failed (quiet_world now) (process_guard k w) i rows = (Inr (), rows')"
  shows "lease_of_task rows' = (lease_of_task rows)(i :=
      if list_ex (\<lambda>r. tk_id r = i \<and> tk_state r = ''in_progress'') rows then Free else lease_of_task rows i)"
    and "map tk_id rows' = map tk_id rows"
proof -
  let ?g = "\<lambda>r. if tk_id r = i \<and> tk_state r = ''in_progress''
      then r\<lparr>tk_state := ''failed'', tk_failed := Some now\<rparr> else r"
  have rows': "rows' = map ?g rows"
    using assms(2) by (auto simp: mark_failed_def)
  show "lease_of_task rows' = (lease_of_task rows)(i :=
      if list_ex (\<lambda>r. tk_id r = i \<and> tk_state r = ''in_progress'') rows then Free else lease_of_task rows i)"
    unfolding rows' by (rule task_update_lease [OF assms(1)]) (auto simp: task_lease_def)
  show "map tk_id rows' = map tk_id rows" unfolding rows' by simp
qed

lemma task_keeps: "task_step s s' \<Longrightarrow> task_inv s \<Longrightarrow> task_inv s'"
proof (induction rule: task_step.induct)
  case (claimed s k w i rows)
  then show ?case using acquire_lease_got(4) by (auto simp: task_inv_def elim!: try_claim_cases)
next
  case (declined s k w i c rows)
  then show ?case by (auto simp: task_inv_def elim!: try_claim_cases)
next
  case (renewed s w i u k b rows)
  then show ?case using renew_task_lease(2) by (simp add: task_inv_def)
next
  case (completed s w i k rows)
  then show ?case using complete_task_lease(2) by (simp add: task_inv_def)
next
  case (failed s w i k rows)
  then show ?case using fail_task_lease(2) by (simp add: task_inv_def)
qed (simp_all add: task_inv_def)

lemma task_simulates:
  assumes "task_step s s'" and inv: "task_inv s" and ok: "leases_ok Some (task_view s)"
  shows "lease_step Some (task_view s) (task_view s') \<or> task_view s' = task_view s"
  using assms(1)
proof cases
  case (tick n)
  then show ?thesis using lease_step.tick [of "task_view s" n Some] by (simp add: task_view_def)
next
  case (claimed k w i rows)
  show ?thesis
  proof (rule try_claim_cases [OF claimed(2)])
    fix x assume "acquire_lease (ts_now s) (process_guard k w) i (ts_rows s) = (Some x, rows)"
    note got = acquire_lease_got [OF this]
    have "task_view s' = (task_view s)\<lparr>ls_table := (\<lambda>k. if k \<in> {i} then Held (Some w) (ts_now s + TASK_LEASE) else ls_table (task_view s) k),
        ls_claims := (ls_claims (task_view s))(w := (\<lambda>k. if k \<in> {i} then Some (ts_now s + TASK_LEASE) else ls_claims (task_view s) w k))\<rparr>"
      using got(3) by (auto simp: claimed(1) task_view_def fun_eq_iff)
    moreover have "\<forall>k \<in> {i}. takeable (ls_now (task_view s)) (ls_table (task_view s) k)"
      using got(1) by (simp add: task_view_def)
    ultimately show ?thesis using lease_step.take_keys [of "{i}" "task_view s" Some w "ts_now s + TASK_LEASE"] by simp
  qed simp
next
  case (declined k w i c rows)
  have "rows = ts_rows s" using declined(2,3) by (auto elim: try_claim_cases)
  then show ?thesis by (simp add: declined(1) task_view_def)
next
  case (renewed w i u k b rows)
  have claim: "ls_claims (task_view s) w i = Some u" using renewed(2) by (simp add: task_view_def)
  have held: "ls_table (task_view s) i = Held (Some w) u" using leases_okD(1) [OF ok claim] .
  have dist: "distinct (map tk_id (ts_rows s))" using inv by (simp add: task_inv_def)
  have owned: "list_ex (owned_task (process_guard k w) i) (ts_rows s)"
    unfolding owned_task_lease [OF dist] using held by (simp add: task_view_def)
  have "task_view s' = (task_view s)\<lparr>ls_table := (ls_table (task_view s))(i := Held (Some w) (ts_now s + TASK_LEASE)),
      ls_claims := (ls_claims (task_view s))(w := (ls_claims (task_view s) w)(i \<mapsto> ts_now s + TASK_LEASE))\<rparr>"
    using renew_task_lease(1) [OF dist renewed(3)] owned by (simp add: renewed(1) task_view_def)
  then show ?thesis using lease_step.renew [of "task_view s" w i Some u] claim held by simp
next
  case (completed w i k rows)
  then obtain u where claim: "ls_claims (task_view s) w i = Some u" by (auto simp: task_view_def)
  have held: "ls_table (task_view s) i = Held (Some w) u" using leases_okD(1) [OF ok claim] .
  have dist: "distinct (map tk_id (ts_rows s))" using inv by (simp add: task_inv_def)
  have "list_ex (owned_task (process_guard k w) i) (ts_rows s)"
    unfolding owned_task_lease [OF dist] using held by (simp add: task_view_def)
  then have "task_view s' = (task_view s)\<lparr>ls_table := (ls_table (task_view s))(i := Finished),
      ls_claims := drop_claim w i (ls_claims (task_view s))\<rparr>"
    using complete_task_lease(1) [OF dist completed(4)] by (simp add: completed(1) task_view_def drop_claim_def)
  then show ?thesis using lease_step.end_lease [of "task_view s" w i Finished Some] claim held by simp
next
  case (failed w i k rows)
  then obtain u where claim: "ls_claims (task_view s) w i = Some u" by (auto simp: task_view_def)
  have held: "ls_table (task_view s) i = Held (Some w) u" using leases_okD(1) [OF ok claim] .
  have dist: "distinct (map tk_id (ts_rows s))" using inv by (simp add: task_inv_def)
  have "list_ex (\<lambda>r. tk_id r = i \<and> tk_state r = ''in_progress'') (ts_rows s)"
    using owned_task_lease [OF dist, of "process_guard k w" i] held
    by (auto simp: task_view_def list_ex_iff owned_task_def)
  then have "task_view s' = (task_view s)\<lparr>ls_table := (ls_table (task_view s))(i := Free),
      ls_claims := drop_claim w i (ls_claims (task_view s))\<rparr>"
    using fail_task_lease(1) [OF dist failed(3)] by (simp add: failed(1) task_view_def drop_claim_def)
  then show ?thesis using lease_step.end_lease [of "task_view s" w i Free Some] claim held by simp
next
  case (given_up w i)
  then have "task_view s' = (task_view s)\<lparr>ls_claims := (ls_claims (task_view s))(w := (ls_claims (task_view s) w)(i := None))\<rparr>"
    by (simp add: task_view_def)
  then show ?thesis
    using lease_step.forget [of "(ls_claims (task_view s) w)(i := None)" "task_view s" w Some] by simp
qed (simp_all add: task_view_def)

interpretation tasks: lease_protocol Some task_view task_step task_inv
  by unfold_locales (rule task_keeps, assumption+, rule task_simulates, assumption+)

section \<open>What the guard guarantees\<close>

definition tasks_start :: "task_sys \<Rightarrow> bool" where
  "tasks_start s \<longleftrightarrow> task_inv s \<and> (\<forall>w i. ts_work s w i = None \<and> \<not> ts_done s w i)
     \<and> (\<forall>r \<in> set (ts_rows s). tk_state r = ''completed'' \<longrightarrow> tk_id r \<in> set (ts_effects s))"

definition task_completed :: "task_sys \<Rightarrow> string \<Rightarrow> bool" where
  "task_completed s i \<longleftrightarrow> (\<exists>r \<in> set (ts_rows s). tk_id r = i \<and> tk_state r = ''completed'')"

lemma completed_finished: "task_inv s \<Longrightarrow> task_completed s i \<longleftrightarrow> ls_table (task_view s) i = Finished"
proof
  assume "task_inv s" and "task_completed s i"
  then obtain r where "r \<in> set (ts_rows s)" "tk_id r = i" "tk_state r = ''completed''" "distinct (map tk_id (ts_rows s))"
    by (auto simp: task_completed_def task_inv_def)
  then show "ls_table (task_view s) i = Finished"
    using task_row_of [of "ts_rows s" r i] by (simp add: task_view_def task_lease_def)
next
  assume "ls_table (task_view s) i = Finished"
  then obtain r where "task_row_at i (ts_rows s) = Some r" "tk_state r = ''completed''"
    by (auto simp: task_view_def lease_of_task_def task_lease_def split: option.splits if_splits)
  then show "task_completed s i" using task_at_Some unfolding task_completed_def by blast
qed

text \<open>What is completed had its effect.\<close>

definition effects_backed :: "task_sys \<Rightarrow> bool" where
  "effects_backed s \<longleftrightarrow> (\<forall>w i. ts_done s w i \<longrightarrow> i \<in> set (ts_effects s))
     \<and> (\<forall>i. ls_table (task_view s) i = Finished \<longrightarrow> i \<in> set (ts_effects s))"

lemma acquired_not_finished:
  assumes "try_claim (quiet_world now) (process_guard k w) i rows = (Inr c, rows')"
    and "lease_of_task rows' j = Finished"
  shows "lease_of_task rows j = Finished"
  using assms(1)
proof (rule try_claim_cases)
  fix x assume "acquire_lease now (process_guard k w) i rows = (Some x, rows')"
  from acquire_lease_got(3) [OF this] assms(2) show ?thesis by (auto split: if_splits)
qed (use assms(2) in simp)

lemma backed_effects:
  assumes "task_step s s'" and "task_inv s" and "effects_backed s"
  shows "effects_backed s'"
  using assms
proof (induction rule: task_step.induct)
  case (claimed s k w i rows)
  then show ?case using acquired_not_finished [OF claimed(1)] by (simp add: effects_backed_def task_view_def)
next
  case (declined s k w i c rows)
  then show ?case using acquired_not_finished [OF declined(1)] by (simp add: effects_backed_def task_view_def)
next
  case (renewed s w i u k b rows)
  then show ?case using renew_task_lease(1) [of "ts_rows s"]
    by (simp add: effects_backed_def task_view_def task_inv_def)
next
  case (completed s w i k rows)
  then show ?case using complete_task_lease(1) [of "ts_rows s"]
    by (simp add: effects_backed_def task_view_def task_inv_def)
next
  case (failed s w i k rows)
  then show ?case using fail_task_lease(1) [of "ts_rows s"]
    by (simp add: effects_backed_def task_view_def task_inv_def)
qed (simp_all add: effects_backed_def task_view_def)

lemma effect_claimed:
  "task_step s s' \<Longrightarrow> (\<And>w. ts_work s w i = None) \<Longrightarrow> count_list (ts_effects s') i = count_list (ts_effects s) i"
  by (induction rule: task_step.induct) auto

lemma finished_effects:
  assumes "timely_run task_view task_step s s'" and "task_inv s"
    and "leases_ok Some (task_view s)" "timely_claims (task_view s)" and "ls_table (task_view s) i = Finished"
  shows "count_list (ts_effects s') i = count_list (ts_effects s) i"
  using assms(1)
proof (induction rule: timely_run.induct)
  case (further s1 s2)
  have "ts_work s1 w i = None" for w
    using tasks.finished_is_final [OF further(1) assms(2-5)] by (simp add: task_view_def)
  with effect_claimed [OF further(2)] further(4) show ?case by metis
qed simp

text \<open>C18.
  The effect of a task happens once it is recorded and never again. In every run of any number
  of worker processes in which no process goes on with a task past its lease: a task is in work
  in at most one process, and its row names that process; a task recorded as completed had its
  effect, is in work nowhere, stays completed, and its effect is not repeated.
\<close>

theorem tasks_exclusive:
  assumes "tasks_start s0" and "timely_run task_view task_step s0 s"
  shows "(\<forall>w w' i u u'. ts_work s w i = Some u \<and> ts_work s w' i = Some u' \<longrightarrow>
        w = w' \<and> lease_of_task (ts_rows s) i = Held (Some w) u)
    \<and> (\<forall>i. task_completed s i \<longrightarrow> i \<in> set (ts_effects s) \<and> (\<forall>w. ts_work s w i = None)
        \<and> (\<forall>s'. timely_run task_view task_step s s' \<longrightarrow>
            task_completed s' i \<and> count_list (ts_effects s') i = count_list (ts_effects s) i))"
proof -
  have start: "task_inv s0" "leases_ok Some (task_view s0)" "timely_claims (task_view s0)"
    using assms(1) by (simp_all add: tasks_start_def leases_ok_def timely_claims_def task_view_def)
  have s: "task_inv s" "leases_ok Some (task_view s)" "timely_claims (task_view s)"
    using tasks.run [OF assms(2) start] by blast+
  have "i \<in> set (ts_effects s0)" if "ls_table (task_view s0) i = Finished" for i
    using that assms(1) completed_finished [OF start(1), of i] unfolding task_completed_def tasks_start_def by blast
  then have "effects_backed s0" using assms(1) by (simp add: tasks_start_def effects_backed_def)
  with assms(2) have "task_inv s \<and> effects_backed s"
  proof (induction rule: timely_run.induct)
    case (further s1 s2)
    then show ?case using backed_effects task_keeps by blast
  qed (use start in simp)
  then have had: "task_completed s i \<Longrightarrow> i \<in> set (ts_effects s)" for i
    using completed_finished [OF s(1)] by (simp add: effects_backed_def)
  have "w = w' \<and> lease_of_task (ts_rows s) i = Held (Some w) u"
    if "ts_work s w i = Some u" "ts_work s w' i = Some u'" for w w' i u u'
    using tasks.one_holder [OF assms(2) start, of w i u w' u'] that by (simp add: task_view_def)
  moreover have "ts_work s w i = None" if "task_completed s i" for w i
    using tasks.finished_is_final [OF timely_run.start s] that completed_finished [OF s(1)] by (simp add: task_view_def)
  moreover have "task_completed s' i \<and> count_list (ts_effects s') i = count_list (ts_effects s) i"
    if "task_completed s i" and run: "timely_run task_view task_step s s'" for s' i
  proof -
    have fin: "ls_table (task_view s) i = Finished" using that(1) completed_finished [OF s(1)] by simp
    have "task_inv s'" using tasks.run [OF run s] by blast
    then show ?thesis
      using completed_finished tasks.finished_is_final [OF run s fin] finished_effects [OF run s fin] by blast
  qed
  ultimately show ?thesis using had by blast
qed

text \<open>A process that claims a task.\<close>

definition demo_tasks :: task_sys where
  "demo_tasks = \<lparr>ts_now = 0, ts_rows = [], ts_work = (\<lambda>_ _. None), ts_done = (\<lambda>_ _. False), ts_effects = []\<rparr>"

definition demo_task_claimed :: task_sys where
  "demo_task_claimed = demo_tasks\<lparr>
     ts_rows := snd (try_claim (quiet_world 0) (process_guard ''email'' 4) ''t'' []),
     ts_work := (ts_work demo_tasks)(4 := (ts_work demo_tasks 4)(''t'' \<mapsto> 0 + TASK_LEASE)),
     ts_done := (ts_done demo_tasks)(4 := (ts_done demo_tasks 4)(''t'' := False))\<rparr>"

lemma tasks_exclusive_witness:
  "tasks_start demo_tasks \<and> timely_run task_view task_step demo_tasks demo_task_claimed
     \<and> lease_of_task (ts_rows demo_task_claimed) ''t'' = Held (Some 4) TASK_LEASE"
proof -
  have start: "tasks_start demo_tasks" by (simp add: tasks_start_def task_inv_def demo_tasks_def)
  have "try_claim (quiet_world (ts_now demo_tasks)) (process_guard ''email'' 4) ''t'' (ts_rows demo_tasks)
      = (Inr Proceed, ts_rows demo_task_claimed)"
    by (simp add: demo_tasks_def demo_task_claimed_def try_claim_def acquire_lease_def task_row_at_def)
  from task_step.claimed [OF this] have step: "task_step demo_tasks demo_task_claimed"
    by (simp add: demo_tasks_def demo_task_claimed_def)
  have timely: "timely_claims (task_view demo_task_claimed)"
    by (simp add: timely_claims_def task_view_def demo_task_claimed_def demo_tasks_def TASK_LEASE_def)
  have run: "timely_run task_view task_step demo_tasks demo_task_claimed"
    by (rule timely_run.further [where s = demo_tasks]) (rule timely_run.start step timely)+
  have "ts_work demo_task_claimed 4 ''t'' = Some TASK_LEASE" by (simp add: demo_task_claimed_def)
  with conjunct1 [OF tasks_exclusive [OF start run]]
  have "lease_of_task (ts_rows demo_task_claimed) ''t'' = Held (Some 4) TASK_LEASE" by blast
  then show ?thesis using start run by simp
qed

end
