(* ===== verification/Task_Dispatch.thy ===== *)
theory Task_Dispatch
  imports Task_Guard
begin

text \<open>
  What happens to one message of a task (\<open>sensei-workers/src/task.rs\<close>): the dispatcher with its
  ack, NAK and dead-letter policy, and the workers for mail (\<open>email.rs\<close>) and analytics
  (\<open>analytics.rs\<close>) behind it. The JSON codec, the mail library and the queries of the analytics
  are parameters; the JetStream server is its answers. The long dash of one message of the mail
  worker is written \<open>-\<close>.
\<close>

section \<open>Tasks\<close>

datatype task_type = SendEmail | GenerateA3Pdf | GenerateQuotePdf | RunModelTraining | CheckDriftAndRetrain
  | ForceModelRetrain | ScheduledRetrainAll | DailyAnalyticsSnapshot | ComputeWarehouseKpis

fun task_subject :: "task_type \<Rightarrow> string" where
  "task_subject SendEmail = ''sensei.tasks.email.send''"
| "task_subject GenerateA3Pdf = ''sensei.tasks.pdf.a3''"
| "task_subject GenerateQuotePdf = ''sensei.tasks.pdf.quote''"
| "task_subject RunModelTraining = ''sensei.tasks.ml.training''"
| "task_subject CheckDriftAndRetrain = ''sensei.tasks.ml.drift-check''"
| "task_subject ForceModelRetrain = ''sensei.tasks.ml.force-retrain''"
| "task_subject ScheduledRetrainAll = ''sensei.tasks.ml.retrain-all''"
| "task_subject DailyAnalyticsSnapshot = ''sensei.tasks.analytics.snapshot''"
| "task_subject ComputeWarehouseKpis = ''sensei.tasks.analytics.kpi''"

text \<open>The derived \<open>Debug\<close> text.\<close>

fun task_type_debug :: "task_type \<Rightarrow> string" where
  "task_type_debug SendEmail = ''SendEmail''"
| "task_type_debug GenerateA3Pdf = ''GenerateA3Pdf''"
| "task_type_debug GenerateQuotePdf = ''GenerateQuotePdf''"
| "task_type_debug RunModelTraining = ''RunModelTraining''"
| "task_type_debug CheckDriftAndRetrain = ''CheckDriftAndRetrain''"
| "task_type_debug ForceModelRetrain = ''ForceModelRetrain''"
| "task_type_debug ScheduledRetrainAll = ''ScheduledRetrainAll''"
| "task_type_debug DailyAnalyticsSnapshot = ''DailyAnalyticsSnapshot''"
| "task_type_debug ComputeWarehouseKpis = ''ComputeWarehouseKpis''"

record task_metadata =
  tm_id :: uuid
  tm_type :: task_type
  tm_correlation :: "uuid option"
  tm_created :: timestamp
  tm_attempts :: int

definition record_delivery :: "int \<Rightarrow> task_metadata \<Rightarrow> task_metadata" where
  "record_delivery delivered m =
     m\<lparr>tm_attempts := max 0 (max (- (2 ^ 63)) (delivered - 1)) mod 2 ^ 32\<rparr>"

record task_envelope =
  te_meta :: task_metadata
  te_payload :: json

datatype task_outcome = Completed | RetryLater "nat option" | FailedPermanent

fun outcome_from_result :: "worker_error + 'a \<Rightarrow> worker_error + task_outcome" where
  "outcome_from_result (Inr _) = Inr Completed"
| "outcome_from_result (Inl (We_RetryLater msg)) = Inr (RetryLater None)"
| "outcome_from_result (Inl e) = Inl e"

section \<open>The state of a worker process\<close>

text \<open>The copies on \<open>sensei.tasks.dead\<close> that the server has acknowledged.\<close>

record dead_letter_copy =
  dq_headers :: "(string \<times> string) list"
  dq_payload :: string

record mail_message =
  ml_from :: string
  ml_subject :: string
  ml_to :: "string list"
  ml_cc :: "string list"
  ml_bcc :: "string list"
  ml_reply :: "string option"
  ml_text :: "string option"
  ml_html :: string

datatype task_effect = MailSent mail_message | Analysed task_type

record worker_state =
  ws_rows :: "task_row list"
  ws_effects :: "(string \<times> task_effect) list"
  ws_dlq :: "dead_letter_copy list"

type_synonym task_process = "string \<Rightarrow> task_metadata \<Rightarrow> worker_state \<Rightarrow> (worker_error + task_outcome) \<times> worker_state"

section \<open>The dispatcher\<close>

datatype disposition = Acked | Nacked "nat option" | LeftUnacked

datatype dlq_answer = Dlq_acknowledged | Dlq_unacknowledged | Dlq_error

text \<open>
  The codec of the envelopes, and the answers of the server for one message: its delivery
  count, the publication of a dead letter, whether an ack or NAK gets through.
\<close>

record task_codec =
  tc_decode :: "string \<Rightarrow> string + task_envelope"
  tc_encode :: "json \<Rightarrow> string + string"
  tc_disp :: "uuid \<Rightarrow> string"

record delivery_world =
  dw_info :: "int option"
  dw_dlq :: dlq_answer
  dw_sent :: bool

text \<open>\<open>DEFAULT_RETRY_DELAY\<close>, in seconds.\<close>

definition DEFAULT_RETRY_DELAY :: nat where
  "DEFAULT_RETRY_DELAY = 30"

definition answered :: "delivery_world \<Rightarrow> disposition \<Rightarrow> disposition" where
  "answered dw a = (if dw_sent dw then a else LeftUnacked)"

definition dead_letter ::
    "task_codec \<Rightarrow> delivery_world \<Rightarrow> string \<Rightarrow> task_metadata option \<Rightarrow> string option \<Rightarrow> worker_state
      \<Rightarrow> disposition \<times> worker_state" where
  "dead_letter c dw msg meta err st =
     (let headers = (case meta of None \<Rightarrow> [] | Some m \<Rightarrow>
              [(''sensei-task-id'', tc_disp c (tm_id m)), (''sensei-task-type'', task_type_debug (tm_type m))])
            @ (case err of None \<Rightarrow> [] | Some e \<Rightarrow> [(''sensei-task-error'', e)])
      in case dw_dlq dw of
           Dlq_acknowledged \<Rightarrow>
             (answered dw Acked, st\<lparr>ws_dlq := ws_dlq st @ [\<lparr>dq_headers = headers, dq_payload = msg\<rparr>]\<rparr>)
         | Dlq_unacknowledged \<Rightarrow> (LeftUnacked, st)
         | Dlq_error \<Rightarrow> (answered dw (Nacked None), st))"

definition dispatch_message ::
    "task_codec \<Rightarrow> delivery_world \<Rightarrow> task_process \<Rightarrow> string \<Rightarrow> worker_state \<Rightarrow> disposition \<times> worker_state" where
  "dispatch_message c dw process msg st =
     (case tc_decode c msg of
        Inl e \<Rightarrow> dead_letter c dw msg None (Some (''malformed task envelope: '' @ e)) st
      | Inr envelope \<Rightarrow>
          (case tc_encode c (te_payload envelope) of
             Inl e \<Rightarrow> dead_letter c dw msg (Some (te_meta envelope))
               (Some (''payload re-serialization failed: '' @ e)) st
           | Inr bytes \<Rightarrow>
               (let meta = (case dw_info dw of None \<Rightarrow> te_meta envelope
                            | Some n \<Rightarrow> record_delivery n (te_meta envelope))
                in case process bytes meta st of
                     (Inr Completed, st) \<Rightarrow> (answered dw Acked, st)
                   | (Inr (RetryLater delay), st) \<Rightarrow>
                       (answered dw (Nacked (Some (case delay of None \<Rightarrow> DEFAULT_RETRY_DELAY | Some d \<Rightarrow> d))), st)
                   | (Inr FailedPermanent, st) \<Rightarrow> dead_letter c dw msg (Some meta) None st
                   | (Inl e, st) \<Rightarrow> dead_letter c dw msg (Some meta) (Some (worker_error_text e)) st)))"

section \<open>The claim before an effect\<close>

text \<open>\<open>None\<close>: the worker goes on to the effect.\<close>

definition claim_gate ::
    "string \<Rightarrow> guard_world \<Rightarrow> guard \<Rightarrow> string \<Rightarrow> worker_state \<Rightarrow> (worker_error + task_outcome) option \<times> worker_state"
where
  "claim_gate what gw g i st =
     (case try_claim gw g i (ws_rows st) of
        (Inr Proceed, rows) \<Rightarrow> (None, st\<lparr>ws_rows := rows\<rparr>)
      | (Inr Busy, rows) \<Rightarrow>
          (Some (Inl (We_RetryLater ''idempotency lease busy; retrying'')), st\<lparr>ws_rows := rows\<rparr>)
      | (Inr AlreadyCompleted, rows) \<Rightarrow> (Some (Inr Completed), st\<lparr>ws_rows := rows\<rparr>)
      | (Inl e, rows) \<Rightarrow>
          (Some (Inl (We_RetryLater (''idempotency claim failed for '' @ what @ '' task: '' @ worker_error_text e))),
            st\<lparr>ws_rows := rows\<rparr>))"

section \<open>The mail worker\<close>

record email_payload =
  ep_to :: "string list"
  ep_subject :: string
  ep_html :: string
  ep_text :: "string option"
  ep_reply :: "string option"
  ep_cc :: "string list"
  ep_bcc :: "string list"

record email_worker =
  ew_available :: bool
  ew_host :: string
  ew_from :: string
  ew_guard :: guard

text \<open>The mail library: addresses, messages, the transport, and the delivery.\<close>

record mail_lib =
  li_payload :: "string \<Rightarrow> string + email_payload"
  li_mailbox :: "string \<Rightarrow> string + string"
  li_build :: "mail_message \<Rightarrow> string option"
  li_relay :: "string \<Rightarrow> string option"
  li_send :: "mail_message \<Rightarrow> string option"

fun mailboxes :: "mail_lib \<Rightarrow> string \<Rightarrow> string list \<Rightarrow> worker_error + string list" where
  "mailboxes l what [] = Inr []"
| "mailboxes l what (a # as) =
     (case li_mailbox l a of
        Inl e \<Rightarrow> Inl (We_Processing (''Invalid '' @ what @ '' address '' @ quoted a @ '': '' @ e))
      | Inr m \<Rightarrow> (case mailboxes l what as of Inl e \<Rightarrow> Inl e | Inr ms \<Rightarrow> Inr (m # ms)))"

definition send_email :: "mail_lib \<Rightarrow> email_worker \<Rightarrow> email_payload \<Rightarrow> worker_error + mail_message" where
  "send_email l w p =
     (if ep_to p = [] then Inl (We_Processing (''Email must have at least one '' @ quoted ''to'' @ '' recipient''))
      else if \<not> ew_available w
      then Inl (We_Processing ''SMTP is not configured (SMTP_HOST is unset) - email delivery is unavailable'')
      else case li_mailbox l (ew_from w) of
        Inl e \<Rightarrow> Inl (We_Processing (''Invalid SMTP_FROM address '' @ quoted (ew_from w) @ '': '' @ e))
      | Inr from \<Rightarrow>
     (case mailboxes l (quoted ''to'') (ep_to p) of Inl e \<Rightarrow> Inl e | Inr to \<Rightarrow>
     (case mailboxes l (quoted ''cc'') (ep_cc p) of Inl e \<Rightarrow> Inl e | Inr cc \<Rightarrow>
     (case mailboxes l (quoted ''bcc'') (ep_bcc p) of Inl e \<Rightarrow> Inl e | Inr bcc \<Rightarrow>
     (case mailboxes l (quoted ''reply_to'') (case ep_reply p of None \<Rightarrow> [] | Some r \<Rightarrow> [r]) of Inl e \<Rightarrow> Inl e | Inr reply \<Rightarrow>
        (let m = \<lparr>ml_from = from, ml_subject = ep_subject p, ml_to = to, ml_cc = cc, ml_bcc = bcc,
              ml_reply = (case reply of [] \<Rightarrow> None | r # _ \<Rightarrow> Some r), ml_text = ep_text p, ml_html = ep_html p\<rparr>
         in case li_build l m of
              Some e \<Rightarrow> Inl (We_Processing (''Failed to build email message: '' @ e))
            | None \<Rightarrow>
                (case li_relay l (ew_host w) of
                   Some e \<Rightarrow> Inl (We_Processing (''Failed to create STARTTLS transport for '' @ ew_host w @ '': '' @ e))
                 | None \<Rightarrow>
                     (case li_send l m of
                        None \<Rightarrow> Inr m
                      | Some e \<Rightarrow> Inl (We_RetryLater (''SMTP delivery failed: '' @ e))))))))))"

definition email_process :: "task_codec \<Rightarrow> mail_lib \<Rightarrow> guard_world \<Rightarrow> email_worker \<Rightarrow> task_process" where
  "email_process c l gw w bytes meta st =
     (case li_payload l bytes of
        Inl e \<Rightarrow> (Inl (We_Serialization e), st)
      | Inr p \<Rightarrow>
          (let i = tc_disp c (tm_id meta)
           in case claim_gate ''email'' gw (ew_guard w) i st of
                (Some early, st) \<Rightarrow> (early, st)
              | (None, st) \<Rightarrow>
                  (case send_email l w p of
                     Inr m \<Rightarrow> (Inr Completed, st\<lparr>ws_effects := ws_effects st @ [(i, MailSent m)],
                         ws_rows := snd (mark_completed gw (ew_guard w) i (ws_rows st))\<rparr>)
                   | Inl e \<Rightarrow> (outcome_from_result (Inl e :: worker_error + unit), st))))"

section \<open>The analytics worker\<close>

text \<open>The results of the two computations.\<close>

record analytics_lib =
  al_payload :: "string \<Rightarrow> string option"
  al_snapshot :: "worker_error option"
  al_kpis :: "worker_error option"

definition analysed ::
    "guard_world \<Rightarrow> guard \<Rightarrow> string \<Rightarrow> task_type \<Rightarrow> worker_error option \<Rightarrow> worker_state
      \<Rightarrow> (worker_error + task_outcome) \<times> worker_state" where
  "analysed gw g i ty result st =
     (case result of
        Some e \<Rightarrow> (Inl e, st)
      | None \<Rightarrow>
          (let st = st\<lparr>ws_effects := ws_effects st @ [(i, Analysed ty)]\<rparr>
           in case mark_completed gw g i (ws_rows st) of
                (Inl e, rows) \<Rightarrow> (Inl e, st\<lparr>ws_rows := rows\<rparr>)
              | (Inr _, rows) \<Rightarrow> (Inr Completed, st\<lparr>ws_rows := rows\<rparr>)))"

definition analytics_process :: "task_codec \<Rightarrow> analytics_lib \<Rightarrow> guard_world \<Rightarrow> guard \<Rightarrow> task_process" where
  "analytics_process c l gw g bytes meta st =
     (case al_payload l bytes of
        Some e \<Rightarrow> (Inl (We_Serialization e), st)
      | None \<Rightarrow>
          (let i = tc_disp c (tm_id meta)
           in case claim_gate ''analytics'' gw g i st of
                (Some early, st) \<Rightarrow> (early, st)
              | (None, st) \<Rightarrow>
                  (case tm_type meta of
                     DailyAnalyticsSnapshot \<Rightarrow> analysed gw g i DailyAnalyticsSnapshot (al_snapshot l) st
                   | ComputeWarehouseKpis \<Rightarrow> analysed gw g i ComputeWarehouseKpis (al_kpis l) st
                   | ty \<Rightarrow> (Inl (We_Processing (''Unsupported task type for AnalyticsWorker: '' @ task_type_debug ty)), st))))"

section \<open>Messages one after another\<close>

datatype task_worker = MailWorker mail_lib email_worker | AnalyticsWorker analytics_lib guard

fun worker_process :: "task_codec \<Rightarrow> guard_world \<Rightarrow> task_worker \<Rightarrow> task_process" where
  "worker_process c gw (MailWorker l w) = email_process c l gw w"
| "worker_process c gw (AnalyticsWorker l g) = analytics_process c l gw g"

record task_delivery =
  dl_msg :: string
  dl_worker :: task_worker
  dl_guard :: guard_world
  dl_world :: delivery_world

definition deliver :: "task_codec \<Rightarrow> task_delivery \<Rightarrow> worker_state \<Rightarrow> disposition \<times> worker_state" where
  "deliver c d st = dispatch_message c (dl_world d) (worker_process c (dl_guard d) (dl_worker d)) (dl_msg d) st"

fun deliveries :: "task_codec \<Rightarrow> task_delivery list \<Rightarrow> worker_state \<Rightarrow> (task_delivery \<times> disposition) list \<times> worker_state" where
  "deliveries c [] st = ([], st)"
| "deliveries c (d # ds) st =
     (case deliver c d st of (a, st) \<Rightarrow> (case deliveries c ds st of (as, st) \<Rightarrow> ((d, a) # as, st)))"

text \<open>A completed row has its effect, and neither effects nor dead letters are lost.\<close>

definition worker_inv :: "worker_state \<Rightarrow> bool" where
  "worker_inv st \<longleftrightarrow> (\<forall>r \<in> set (ws_rows st). tk_state r = ''completed'' \<longrightarrow> tk_id r \<in> fst ` set (ws_effects st))"

definition grows :: "worker_state \<Rightarrow> worker_state \<Rightarrow> bool" where
  "grows st st' \<longleftrightarrow> worker_inv st' \<and> set (ws_effects st) \<subseteq> set (ws_effects st') \<and> set (ws_dlq st) \<subseteq> set (ws_dlq st')"

lemma grows_refl: "worker_inv st \<Longrightarrow> grows st st"
  by (simp add: grows_def)

lemma grows_trans: "grows st st1 \<Longrightarrow> grows st1 st2 \<Longrightarrow> grows st st2"
  by (auto simp: grows_def)

lemma acquire_completed:
  assumes "acquire_lease now g i rows = (x, rows')" and "r \<in> set rows'" "tk_state r = ''completed''"
  shows "r \<in> set rows"
proof (cases "task_row_at i rows")
  case None
  with assms show ?thesis by (auto simp: acquire_lease_def)
next
  case (Some q)
  let ?g = "\<lambda>r. if tk_id r = i then r\<lparr>tk_state := ''in_progress'', tk_owner := Some (gd_owner g),
      tk_until := now + TASK_LEASE, tk_worker := gd_worker g, tk_attempts := tk_attempts r + 1\<rparr> else r"
  from Some assms(1) have "rows' = map ?g rows \<or> rows' = rows" by (auto simp: acquire_lease_def split: if_splits)
  then show ?thesis
  proof
    assume "rows' = map ?g rows"
    with assms(2) have "r \<in> ?g ` set rows" by (simp only: set_map)
    then obtain q where q: "q \<in> set rows" "r = ?g q" by (rule imageE)
    with assms(3) have "tk_id q \<noteq> i" by (auto simp del: if_split split: if_splits)
    with q show ?thesis by simp
  qed (use assms(2) in simp)
qed

lemma try_claim_completed:
  assumes "try_claim gw g i rows = (res, rows')"
  shows "r \<in> set rows' \<Longrightarrow> tk_state r = ''completed'' \<Longrightarrow> r \<in> set rows"
    and "res = Inr AlreadyCompleted \<Longrightarrow> \<exists>r \<in> set rows. tk_id r = i \<and> tk_state r = ''completed''"
proof -
  obtain x rows1 where acq: "acquire_lease (gw_now gw) g i rows = (x, rows1)" by fastforce
  have rows': "rows' = rows \<or> rows' = rows1"
    using assms acq by (auto simp: try_claim_def split: if_splits option.splits)
  then show "r \<in> set rows' \<Longrightarrow> tk_state r = ''completed'' \<Longrightarrow> r \<in> set rows"
    using acquire_completed [OF acq] by blast
  assume res: "res = Inr AlreadyCompleted"
  have "x = None"
  proof (rule ccontr)
    assume "x \<noteq> None"
    then obtain y where "x = Some y" by blast
    with acquire_lease_got(2) acq have "x = Some (gd_owner g, ''in_progress'')" by blast
    with acq assms res show False by (auto simp: try_claim_def split: if_splits option.splits)
  qed
  then have "rows1 = rows" using acquire_lease_none acq by blast
  with \<open>x = None\<close> acq assms res have "map_option tk_state (task_row_at i rows) = Some ''completed''"
    by (auto simp: try_claim_def split: if_splits option.splits)
  then show "\<exists>r \<in> set rows. tk_id r = i \<and> tk_state r = ''completed''"
    using task_at_Some by (auto split: option.splits)
qed

lemma claim_gate_grows:
  assumes "claim_gate what gw g i st = (early, st')" and "worker_inv st"
  shows "grows st st'" and "ws_effects st' = ws_effects st" "ws_dlq st' = ws_dlq st"
    and "early = Some (Inr Completed) \<Longrightarrow> i \<in> fst ` set (ws_effects st)"
proof -
  obtain res rows' where claim: "try_claim gw g i (ws_rows st) = (res, rows')" by fastforce
  have st': "st' = st\<lparr>ws_rows := rows'\<rparr>"
    using assms(1) claim by (auto simp: claim_gate_def split: sum.splits claim_outcome.splits)
  then show "ws_effects st' = ws_effects st" "ws_dlq st' = ws_dlq st" by simp_all
  show "grows st st'"
    using assms(2) try_claim_completed(1) [OF claim] by (auto simp: st' grows_def worker_inv_def)
  assume "early = Some (Inr Completed)"
  with assms(1) claim have "res = Inr AlreadyCompleted"
    by (auto simp: claim_gate_def split: sum.splits claim_outcome.splits)
  from try_claim_completed(2) [OF claim this] assms(2) show "i \<in> fst ` set (ws_effects st)"
    by (auto simp: worker_inv_def)
qed

text \<open>An effect, then the attempt to record it.\<close>

lemma effect_grows:
  assumes "worker_inv st"
  shows "grows st (st\<lparr>ws_effects := ws_effects st @ [(i, e)], ws_rows := snd (mark_completed gw g i (ws_rows st))\<rparr>)"
proof -
  have "tk_id r = i \<or> r \<in> set (ws_rows st)" if "r \<in> set (snd (mark_completed gw g i (ws_rows st)))" for r
    using that by (auto simp: mark_completed_def owned_task_def split: if_splits option.splits)
  with assms show ?thesis by (auto simp: grows_def worker_inv_def)
qed

lemma email_settles:
  assumes "email_process c l gw w bytes meta st = (res, st')" and "worker_inv st"
  shows "grows st st'" and "res = Inr Completed \<Longrightarrow> tc_disp c (tm_id meta) \<in> fst ` set (ws_effects st')"
proof -
  let ?i = "tc_disp c (tm_id meta)"
  obtain early st1 where gate: "claim_gate ''email'' gw (ew_guard w) ?i st = (early, st1)" by fastforce
  note st1 = claim_gate_grows [OF gate assms(2)]
  have inv1: "worker_inv st1" using st1(1) by (simp add: grows_def)
  have "grows st st' \<and> (res = Inr Completed \<longrightarrow> ?i \<in> fst ` set (ws_effects st'))"
  proof (cases "li_payload l bytes")
    case (Inr p)
    show ?thesis
    proof (cases early)
      case None
      show ?thesis
      proof (cases "send_email l w p")
        case (Inl e)
        with assms(1) Inr None gate have "st' = st1" "res = outcome_from_result (Inl e :: worker_error + unit)"
          by (simp_all add: email_process_def)
        then show ?thesis using st1(1) by (cases e) simp_all
      next
        case (Inr m)
        with assms(1) \<open>li_payload l bytes = _\<close> None gate
        have st': "st' = st1\<lparr>ws_effects := ws_effects st1 @ [(?i, MailSent m)],
            ws_rows := snd (mark_completed gw (ew_guard w) ?i (ws_rows st1))\<rparr>"
          by (simp add: email_process_def Let_def)
        have "grows st st'" unfolding st' by (rule grows_trans [OF st1(1) effect_grows [OF inv1]])
        then show ?thesis by (simp add: st')
      qed
    next
      case (Some r)
      with assms(1) Inr gate have "st' = st1" "res = r" by (simp_all add: email_process_def)
      then show ?thesis using Some st1 by auto
    qed
  qed (use assms in \<open>auto simp: email_process_def grows_refl\<close>)
  then show "grows st st'" "res = Inr Completed \<Longrightarrow> ?i \<in> fst ` set (ws_effects st')" by simp_all
qed

lemma analysed_settles:
  assumes "analysed gw g i ty result st = (res, st')" and "worker_inv st"
  shows "grows st st'" and "res = Inr Completed \<Longrightarrow> i \<in> fst ` set (ws_effects st')"
proof -
  have "grows st st' \<and> (res = Inr Completed \<longrightarrow> i \<in> fst ` set (ws_effects st'))"
  proof (cases result)
    case None
    with assms(1) have st': "st' = st\<lparr>ws_effects := ws_effects st @ [(i, Analysed ty)],
        ws_rows := snd (mark_completed gw g i (ws_rows st))\<rparr>"
      by (auto simp: analysed_def Let_def split: prod.splits sum.splits)
    show ?thesis using effect_grows [OF assms(2)] by (simp add: st')
  qed (use assms in \<open>auto simp: analysed_def grows_refl\<close>)
  then show "grows st st'" "res = Inr Completed \<Longrightarrow> i \<in> fst ` set (ws_effects st')" by simp_all
qed

lemma analytics_settles:
  assumes "analytics_process c l gw g bytes meta st = (res, st')" and "worker_inv st"
  shows "grows st st'" and "res = Inr Completed \<Longrightarrow> tc_disp c (tm_id meta) \<in> fst ` set (ws_effects st')"
proof -
  let ?i = "tc_disp c (tm_id meta)"
  obtain early st1 where gate: "claim_gate ''analytics'' gw g ?i st = (early, st1)" by fastforce
  note st1 = claim_gate_grows [OF gate assms(2)]
  have inv1: "worker_inv st1" using st1(1) by (simp add: grows_def)
  have "grows st st' \<and> (res = Inr Completed \<longrightarrow> ?i \<in> fst ` set (ws_effects st'))"
  proof (cases "al_payload l bytes")
    case None
    show ?thesis
    proof (cases early)
      case (Some r)
      with assms(1) None gate have "st' = st1" "res = r" by (simp_all add: analytics_process_def)
      then show ?thesis using Some st1 by auto
    next
      case no: None
      have "(\<exists>ty result. analysed gw g ?i ty result st1 = (res, st')) \<or> st' = st1 \<and> (\<exists>e. res = Inl e)"
        using assms(1) None no gate by (cases "tm_type meta") (auto simp: analytics_process_def Let_def)
      then show ?thesis
        using analysed_settles [OF _ inv1] grows_trans [OF st1(1)] st1(1) by blast
    qed
  qed (use assms in \<open>auto simp: analytics_process_def grows_refl\<close>)
  then show "grows st st'" "res = Inr Completed \<Longrightarrow> ?i \<in> fst ` set (ws_effects st')" by simp_all
qed

lemma worker_settles:
  assumes "worker_process c gw w bytes meta st = (res, st')" and "worker_inv st"
  shows "grows st st'" and "res = Inr Completed \<Longrightarrow> tc_disp c (tm_id meta) \<in> fst ` set (ws_effects st')"
  using assms email_settles analytics_settles by (cases w; simp)+

lemma dead_letter_settles:
  assumes "dead_letter c dw msg meta err st = (a, st')" and "worker_inv st"
  shows "grows st st'" and "a = Acked \<Longrightarrow> msg \<in> dq_payload ` set (ws_dlq st')"
  using assms by (auto simp: dead_letter_def answered_def grows_def worker_inv_def Let_def
      split: dlq_answer.splits if_splits)

text \<open>An acknowledged message is on the dead-letter subject, or its task had its effect.\<close>

definition settled_message :: "task_codec \<Rightarrow> string \<Rightarrow> worker_state \<Rightarrow> bool" where
  "settled_message c msg st \<longleftrightarrow> msg \<in> dq_payload ` set (ws_dlq st)
     \<or> (case tc_decode c msg of Inl _ \<Rightarrow> False
        | Inr env \<Rightarrow> tc_disp c (tm_id (te_meta env)) \<in> fst ` set (ws_effects st))"

lemma settled_grows: "settled_message c msg st \<Longrightarrow> grows st st' \<Longrightarrow> settled_message c msg st'"
  by (auto simp: settled_message_def grows_def split: sum.splits)

lemma record_delivery_id [simp]: "tm_id (record_delivery n m) = tm_id m"
  by (simp add: record_delivery_def)

lemma dispatch_settles:
  assumes "dispatch_message c dw (worker_process c gw w) msg st = (a, st')" and inv: "worker_inv st"
  shows "grows st st' \<and> (a = Acked \<longrightarrow> settled_message c msg st')"
proof (cases "\<exists>meta err. dead_letter c dw msg meta err st = (a, st')")
  case True
  then show ?thesis using dead_letter_settles [OF _ inv] by (auto simp: settled_message_def)
next
  case False
  then obtain env bytes where env: "tc_decode c msg = Inr env" "tc_encode c (te_payload env) = Inr bytes"
    using assms(1) by (auto simp: dispatch_message_def split: sum.splits)
  let ?m = "case dw_info dw of None \<Rightarrow> te_meta env | Some n \<Rightarrow> record_delivery n (te_meta env)"
  obtain res st1 where run: "worker_process c gw w bytes ?m st = (res, st1)" by fastforce
  note st1 = worker_settles [OF run inv]
  have inv1: "worker_inv st1" using st1(1) by (simp add: grows_def)
  have id: "tm_id ?m = tm_id (te_meta env)" by (simp split: option.split)
  consider (ok) "res = Inr Completed" "a = answered dw Acked" "st' = st1"
    | (retry) d where "a = answered dw (Nacked d)" "st' = st1"
    | (dead) meta err where "dead_letter c dw msg meta err st1 = (a, st')"
    using assms(1) env run
    by (cases res; cases "projr res") (auto simp: dispatch_message_def Let_def split: option.splits)
  then show ?thesis
  proof cases
    case ok
    then show ?thesis using st1 env(1) id by (auto simp: settled_message_def)
  next
    case retry
    then show ?thesis using st1(1) by (auto simp: answered_def split: if_splits)
  next
    case dead
    then show ?thesis using dead_letter_settles [OF dead inv1] grows_trans [OF st1(1)]
      by (auto simp: settled_message_def)
  qed
qed

lemma deliveries_settle:
  "deliveries c ds st = (as, st') \<Longrightarrow> worker_inv st \<Longrightarrow>
    grows st st' \<and> (\<forall>(d, a) \<in> set as. a = Acked \<longrightarrow> settled_message c (dl_msg d) st')"
proof (induction ds arbitrary: st as)
  case (Cons d ds)
  obtain a st1 where first: "deliver c d st = (a, st1)" by fastforce
  obtain as' where rest: "deliveries c ds st1 = (as', st')" "as = (d, a) # as'"
    using Cons.prems(1) first by (auto split: prod.splits)
  have "grows st st1 \<and> (a = Acked \<longrightarrow> settled_message c (dl_msg d) st1)"
    using dispatch_settles [OF first [unfolded deliver_def] Cons.prems(2)] .
  moreover from this Cons.IH [OF rest(1)] have
    "grows st1 st' \<and> (\<forall>(d, a) \<in> set as'. a = Acked \<longrightarrow> settled_message c (dl_msg d) st')"
    by (simp add: grows_def)
  ultimately show ?case unfolding rest(2) using settled_grows grows_trans by fastforce
qed (simp add: grows_refl)

text \<open>A mail task, a mail server that is up or down, and an empty table.\<close>

definition demo_codec :: task_codec where
  "demo_codec = \<lparr>tc_decode = (\<lambda>msg. if msg = ''m'' then Inr \<lparr>te_meta = \<lparr>tm_id = 5, tm_type = SendEmail,
       tm_correlation = None, tm_created = 0, tm_attempts = 0\<rparr>, te_payload = JNull\<rparr> else Inl ''eof''),
     tc_encode = (\<lambda>_. Inr ''null''), tc_disp = (\<lambda>_. ''t5'')\<rparr>"

definition demo_email :: email_payload where
  "demo_email = \<lparr>ep_to = [''a''], ep_subject = ''s'', ep_html = ''h'', ep_text = None,
     ep_reply = None, ep_cc = [], ep_bcc = []\<rparr>"

definition demo_mail :: "bool \<Rightarrow> mail_lib" where
  "demo_mail up = \<lparr>li_payload = (\<lambda>_. Inr demo_email), li_mailbox = Inr, li_build = (\<lambda>_. None),
     li_relay = (\<lambda>_. None), li_send = (\<lambda>_. if up then None else Some ''timeout'')\<rparr>"

definition demo_mailer :: email_worker where
  "demo_mailer = \<lparr>ew_available = True, ew_host = ''mx'', ew_from = ''noreply'', ew_guard = process_guard ''email'' 1\<rparr>"

definition demo_answers :: delivery_world where
  "demo_answers = \<lparr>dw_info = None, dw_dlq = Dlq_acknowledged, dw_sent = True\<rparr>"

definition no_tasks :: worker_state where
  "no_tasks = \<lparr>ws_rows = [], ws_effects = [], ws_dlq = []\<rparr>"

text \<open>C19.
  No task is dropped. Over any sequence of deliveries to the mail and analytics workers, with
  or without a pool, whatever the database, the mail server, the queries and the JetStream server
  answer: a message that is acknowledged is on the dead-letter subject, or its task had its
  effect.
\<close>

theorem acked_is_settled:
  assumes "worker_inv st" and "deliveries c ds st = (as, st')" and "(d, Acked) \<in> set as"
  shows "dl_msg d \<in> dq_payload ` set (ws_dlq st')
    \<or> (\<exists>env. tc_decode c (dl_msg d) = Inr env
         \<and> tc_disp c (tm_id (te_meta env)) \<in> fst ` set (ws_effects st'))"
proof -
  have "settled_message c (dl_msg d) st'" using deliveries_settle [OF assms(2,1)] assms(3) by blast
  then show ?thesis by (auto simp: settled_message_def split: sum.splits)
qed

lemma acked_is_settled_witness:
  "map snd (fst (deliveries demo_codec [\<lparr>dl_msg = ''m'', dl_worker = MailWorker (demo_mail True) demo_mailer,
      dl_guard = quiet_world 0, dl_world = demo_answers\<rparr>] no_tasks)) = [Acked]
   \<and> fst ` set (ws_effects (snd (deliveries demo_codec [\<lparr>dl_msg = ''m'', dl_worker = MailWorker (demo_mail True) demo_mailer,
      dl_guard = quiet_world 0, dl_world = demo_answers\<rparr>] no_tasks))) = {''t5''}"
proof -
  let ?d = "\<lparr>dl_msg = ''m'', dl_worker = MailWorker (demo_mail True) demo_mailer,
      dl_guard = quiet_world 0, dl_world = demo_answers\<rparr>"
  obtain as st' where out: "deliveries demo_codec [?d] no_tasks = (as, st')" by fastforce
  have "map fst (fst (deliveries demo_codec [?d] no_tasks)) = [?d]" by (simp split: prod.split)
  moreover have acked: "map snd (fst (deliveries demo_codec [?d] no_tasks)) = [Acked]" by code_simp
  ultimately have "as = [(?d, Acked)]" unfolding out by (auto simp: map_eq_Cons_conv)
  moreover have "worker_inv no_tasks" by (simp add: worker_inv_def no_tasks_def)
  ultimately have "''m'' \<in> dq_payload ` set (ws_dlq st')
      \<or> (\<exists>env. tc_decode demo_codec ''m'' = Inr env \<and> tc_disp demo_codec (tm_id (te_meta env)) \<in> fst ` set (ws_effects st'))"
    using acked_is_settled [OF _ out, of ?d] by (simp del: deliveries.simps)
  moreover have "ws_dlq (snd (deliveries demo_codec [?d] no_tasks)) = []" by code_simp
  ultimately have "''t5'' \<in> fst ` set (ws_effects st')" unfolding out by (simp add: demo_codec_def)
  moreover have "fst ` set (ws_effects (snd (deliveries demo_codec [?d] no_tasks))) \<subseteq> {''t5''}" by code_simp
  ultimately show ?thesis using acked unfolding out by auto
qed

section \<open>A mail the server does not take at once\<close>

text \<open>A transient failure of the mail server is not retried. The first delivery is handed back with
  a delay of 30 seconds; but it has left the lease of the task alive, for five minutes. A
  redelivery within that time, to this process or another, finds the lease busy, which reaches
  the dispatcher as an error: the message goes to the dead-letter subject and is
  acknowledged, and the mail is never sent, even when the mail server is up again.
\<close>

theorem transient_failure_lost:
  assumes msg: "tc_decode c msg = Inr env" "tc_encode c (te_payload env) = Inr bytes"
    and mail: "li_payload l bytes = Inr p" "li_payload l' bytes = Inr p" "send_email l w p = Inl (We_RetryLater e)"
    and guards: "gd_pool (ew_guard w)" "gd_pool (ew_guard w')"
    and free: "task_row_at (tc_disp c (tm_id (te_meta env))) (ws_rows st) = None"
    and first: "gw_claim gw = None" "dw_sent dw"
    and second: "gw_claim gw' = None" "gw_probe gw' = None" "gw_now gw' \<le> gw_now gw + TASK_LEASE"
      "dw_dlq dw' = Dlq_acknowledged" "dw_sent dw'"
  shows "case dispatch_message c dw (email_process c l gw w) msg st of (a, st1) \<Rightarrow>
      a = Nacked (Some 30) \<and>
      (case dispatch_message c dw' (email_process c l' gw' w') msg st1 of (a', st2) \<Rightarrow>
         a' = Acked \<and> ws_effects st2 = ws_effects st \<and> map dq_payload (ws_dlq st2) = map dq_payload (ws_dlq st) @ [msg])"
proof -
  let ?i = "tc_disp c (tm_id (te_meta env))"
  define r where "r = \<lparr>tk_id = ?i, tk_worker = gd_worker (ew_guard w), tk_state = ''in_progress'',
    tk_owner = Some (gd_owner (ew_guard w)), tk_until = gw_now gw + TASK_LEASE, tk_attempts = 1,
    tk_completed = None, tk_failed = None\<rparr>"
  define st1 where "st1 = st\<lparr>ws_rows := ws_rows st @ [r]\<rparr>"
  have id: "tm_id (case i of None \<Rightarrow> te_meta env | Some n \<Rightarrow> record_delivery n (te_meta env)) = tm_id (te_meta env)" for i
    by (simp split: option.split)
  have "claim_gate ''email'' gw (ew_guard w) ?i st = (None, st1)"
    using guards(1) first(1) free by (simp add: claim_gate_def try_claim_def acquire_lease_def st1_def r_def)
  then have 1: "dispatch_message c dw (email_process c l gw w) msg st = (Nacked (Some 30), st1)"
    using msg mail first(2)
    by (simp add: dispatch_message_def email_process_def id Let_def answered_def DEFAULT_RETRY_DELAY_def)
  have row: "task_row_at ?i (ws_rows st1) = Some r"
    using free by (simp add: st1_def task_at_append) (simp add: task_row_at_def r_def)
  have "\<not> task_takeable (gw_now gw') r" using second(3) by (simp add: task_takeable_def r_def)
  moreover have "tk_state r \<noteq> ''completed''" by (simp add: r_def)
  ultimately have "claim_gate ''email'' gw' (ew_guard w') ?i st1
      = (Some (Inl (We_RetryLater ''idempotency lease busy; retrying'')), st1)"
    using guards(2) second(1,2) row by (simp add: claim_gate_def try_claim_def acquire_lease_def)
  then have "dispatch_message c dw' (email_process c l' gw' w') msg st1
      = dead_letter c dw' msg (Some (case dw_info dw' of None \<Rightarrow> te_meta env | Some n \<Rightarrow> record_delivery n (te_meta env)))
          (Some (worker_error_text (We_RetryLater ''idempotency lease busy; retrying''))) st1"
    using msg mail(2) by (simp add: dispatch_message_def email_process_def id Let_def)
  then show ?thesis
    using 1 second(4,5) by (simp add: dead_letter_def answered_def st1_def Let_def)
qed

lemma transient_failure_lost_witness:
  "case dispatch_message demo_codec demo_answers (email_process demo_codec (demo_mail False) (quiet_world 0) demo_mailer)
       ''m'' no_tasks of (a, st1) \<Rightarrow>
     a = Nacked (Some 30) \<and>
     (case dispatch_message demo_codec demo_answers (email_process demo_codec (demo_mail True) (quiet_world 30000000) demo_mailer)
        ''m'' st1 of (a', st2) \<Rightarrow>
       a' = Acked \<and> ws_effects st2 = ws_effects no_tasks
       \<and> map dq_payload (ws_dlq st2) = map dq_payload (ws_dlq no_tasks) @ [''m''])"
proof (rule transient_failure_lost)
  show "send_email (demo_mail False) demo_mailer demo_email = Inl (We_RetryLater ''SMTP delivery failed: timeout'')"
    by code_simp
qed (simp_all add: demo_codec_def demo_mail_def demo_mailer_def demo_answers_def no_tasks_def task_row_at_def TASK_LEASE_def)

end
