(* ===== verification/Task_Scheduler.thy ===== *)
theory Task_Scheduler
  imports Task_Dispatch "HOL-Library.Signed_Division"
begin

text \<open>
  The scheduler (\<open>sensei-workers/src/scheduler.rs\<close>): the cron expressions, the next run of a
  schedule, the leased slots of the table \<open>scheduler_run_log\<close>, and the loop that publishes
  a task at each slot. Instants are microseconds UTC, without leap seconds.
  The text of a slot (\<open>%Y-%m-%dT%H:%M\<close>) and the last instant that a \<open>DateTime\<close> holds are
  parameters.
\<close>

section \<open>Cron expressions\<close>

datatype cron_schedule = Daily nat nat | Hourly nat | Every nat

text \<open>\<open>str::parse\<close> for an unsigned type of \<open>2 ^ bits\<close> values, and \<open>str::strip_suffix\<close>.\<close>

definition parse_unsigned :: "nat \<Rightarrow> string \<Rightarrow> nat option" where
  "parse_unsigned bits s =
     (case parse_digits (if starts_with ''+'' s then tl s else s) of
        None \<Rightarrow> None | Some n \<Rightarrow> if int n < 2 ^ bits then Some n else None)"

definition strip_suffix :: "string \<Rightarrow> string \<Rightarrow> string option" where
  "strip_suffix p s = map_option rev (strip_prefix (rev p) (rev s))"

definition parse_daily :: "string \<Rightarrow> string \<Rightarrow> worker_error + cron_schedule" where
  "parse_daily expr rest =
     (case split_on (CHR '':'') rest of
        [hh, mm] \<Rightarrow>
          (case parse_unsigned 32 hh of
             None \<Rightarrow> Inl (We_InvalidConfig (''Invalid hour in '' @ quoted expr))
           | Some hour \<Rightarrow>
               (case parse_unsigned 32 mm of
                  None \<Rightarrow> Inl (We_InvalidConfig (''Invalid minute in '' @ quoted expr))
                | Some minute \<Rightarrow>
                    if hour > 23 \<or> minute > 59
                    then Inl (We_InvalidConfig (''Invalid time in '' @ quoted expr @ '': HH must be 0-23, MM must be 0-59''))
                    else Inr (Daily hour minute)))
      | _ \<Rightarrow> Inl (We_InvalidConfig (''Invalid daily expression '' @ quoted expr @ '': expected daily@HH:MM'')))"

definition parse_hourly :: "string \<Rightarrow> string \<Rightarrow> worker_error + cron_schedule" where
  "parse_hourly expr rest =
     (case parse_unsigned 32 (case strip_prefix '':'' rest of None \<Rightarrow> rest | Some r \<Rightarrow> r) of
        None \<Rightarrow> Inl (We_InvalidConfig (''Invalid minute in '' @ quoted expr))
      | Some minute \<Rightarrow>
          if minute > 59 then Inl (We_InvalidConfig (''Invalid minute in '' @ quoted expr @ '': must be 0-59''))
          else Inr (Hourly minute))"

definition parse_every :: "string \<Rightarrow> string \<Rightarrow> worker_error + cron_schedule" where
  "parse_every expr rest =
     (let hours_str = (case strip_suffix ''hours'' rest of Some r \<Rightarrow> r | None \<Rightarrow>
            (case strip_suffix ''hour'' rest of Some r \<Rightarrow> r | None \<Rightarrow> rest))
      in case parse_unsigned 64 hours_str of
           None \<Rightarrow> Inl (We_InvalidConfig (''Invalid hours in '' @ quoted expr @ '': expected every@Nhours''))
         | Some hours \<Rightarrow>
             if hours = 0 then Inl (We_InvalidConfig (''Invalid interval in '' @ quoted expr @ '': must be >= 1 hour''))
             else Inr (Every hours))"

definition parse_cron :: "string \<Rightarrow> worker_error + cron_schedule" where
  "parse_cron expr =
     (case strip_prefix ''daily@'' expr of Some rest \<Rightarrow> parse_daily expr rest
      | None \<Rightarrow>
     (case strip_prefix ''hourly@'' expr of Some rest \<Rightarrow> parse_hourly expr rest
      | None \<Rightarrow>
     (case strip_prefix ''every@'' expr of Some rest \<Rightarrow> parse_every expr rest
      | None \<Rightarrow> Inl (We_InvalidConfig (''Unrecognised cron expression '' @ quoted expr
          @ ''. Expected: daily@HH:MM, hourly@:MM, or every@Nhours'')))))"

section \<open>The next run\<close>

definition MINUTE :: int where
  "MINUTE = 60 * 1000000"

definition HOUR :: int where
  "HOUR = 60 * MINUTE"

definition DAY :: int where
  "DAY = 24 * HOUR"

definition midnight_of :: "timestamp \<Rightarrow> timestamp" where
  "midnight_of now = now - now mod DAY"

definition hour_of :: "timestamp \<Rightarrow> int" where
  "hour_of now = (now mod DAY) div HOUR"

definition minute_of :: "timestamp \<Rightarrow> int" where
  "minute_of now = (now mod HOUR) div MINUTE"

text \<open>\<open>and_hms_opt\<close> with no seconds, on the day that starts at \<open>d\<close>.\<close>

definition hms_opt :: "timestamp \<Rightarrow> int \<Rightarrow> int \<Rightarrow> timestamp option" where
  "hms_opt d h m = (if 0 \<le> h \<and> h < 24 \<and> 0 \<le> m \<and> m < 60 then Some (d + h * HOUR + m * MINUTE) else None)"

text \<open>A run, an error, or a panic of the calendar arithmetic or of a division by zero.\<close>

datatype next_answer = Fires timestamp | BadConfig string | Panics

definition fires :: "timestamp \<Rightarrow> timestamp \<Rightarrow> next_answer" where
  "fires limit t = (if t \<le> limit then Fires t else Panics)"

definition next_daily :: "timestamp \<Rightarrow> nat \<Rightarrow> nat \<Rightarrow> timestamp \<Rightarrow> next_answer" where
  "next_daily limit hour minute now =
     (case hms_opt (midnight_of now) (int hour) (int minute) of
        None \<Rightarrow> BadConfig ''invalid daily time''
      | Some t \<Rightarrow> fires limit (if t > now then t else t + DAY))"

definition next_hourly :: "timestamp \<Rightarrow> nat \<Rightarrow> timestamp \<Rightarrow> next_answer" where
  "next_hourly limit minute now =
     (case (if minute_of now < int minute then hms_opt (midnight_of now) (hour_of now) (int minute)
            else if hour_of now < 23 then hms_opt (midnight_of now) (hour_of now + 1) (int minute)
            else hms_opt (midnight_of now + DAY) 0 (int minute)) of
        None \<Rightarrow> Panics
      | Some t \<Rightarrow> fires limit (if t > now then t else t + HOUR))"

text \<open>The period is an \<open>i64\<close> that has wrapped; \<open>Duration::minutes\<close> holds \<open>i64\<close> milliseconds.\<close>

definition next_every :: "timestamp \<Rightarrow> nat \<Rightarrow> timestamp \<Rightarrow> next_answer" where
  "next_every limit hours now =
     (let period = i64_wrap (int (u64_wrap (hours * 60)));
          elapsed = (now - midnight_of now) div MINUTE
      in if period = 0 then Panics
         else (let minutes = i64_wrap (i64_wrap (elapsed sdiv period + 1) * period)
               in if (2 ^ 63 - 1) div 60000 < \<bar>minutes\<bar> then Panics
                  else fires limit (midnight_of now + minutes * MINUTE)))"

fun next_run :: "timestamp \<Rightarrow> cron_schedule \<Rightarrow> timestamp \<Rightarrow> next_answer" where
  "next_run limit (Daily hour minute) now = next_daily limit hour minute now"
| "next_run limit (Hourly minute) now = next_hourly limit minute now"
| "next_run limit (Every hours) now = next_every limit hours now"

section \<open>Slots and the loop of a schedule\<close>

definition SECOND :: int where
  "SECOND = 1000000"

text \<open>\<open>INTERVAL '2 minutes'\<close>; a slot is a task type and the text of its instant.\<close>

definition SLOT_LEASE :: int where
  "SLOT_LEASE = 120 * SECOND"

type_synonym slot_key = "string \<times> string"

record run_slot =
  sl_state :: string
  sl_until :: timestamp
  sl_owner :: "uuid option"

type_synonym slot_log = "slot_key \<Rightarrow> run_slot option"

definition slot_takeable :: "timestamp \<Rightarrow> run_slot \<Rightarrow> bool" where
  "slot_takeable now r \<longleftrightarrow> sl_state r \<noteq> ''published'' \<and> (sl_state r \<noteq> ''claimed'' \<or> sl_until r < now)"

definition claim_slot :: "timestamp \<Rightarrow> uuid \<Rightarrow> slot_key \<Rightarrow> slot_log \<Rightarrow> bool \<times> slot_log" where
  "claim_slot now owner key slots =
     (let taken = slots(key \<mapsto> \<lparr>sl_state = ''claimed'', sl_until = now + SLOT_LEASE, sl_owner = Some owner\<rparr>)
      in case slots key of
           None \<Rightarrow> (True, taken)
         | Some r \<Rightarrow> if slot_takeable now r then (True, taken) else (False, slots))"

definition mark_slot_published :: "timestamp \<Rightarrow> slot_key \<Rightarrow> slot_log \<Rightarrow> slot_log" where
  "mark_slot_published now key slots =
     (case slots key of None \<Rightarrow> slots
      | Some r \<Rightarrow> slots(key \<mapsto> r\<lparr>sl_state := ''published'', sl_until := now\<rparr>))"

definition release_slot :: "slot_key \<Rightarrow> slot_log \<Rightarrow> slot_log" where
  "release_slot key slots = slots(key := None)"

text \<open>
  One turn of the loop: the clock when the next run is computed and when the delay is, whether
  the process is told to stop, and the answers of the database and of the server.
\<close>

datatype publish_answer = PublishAcked | PublishUnacked | PublishFailed | EncodeFailed

record turn_world =
  tw_now :: timestamp
  tw_later :: timestamp
  tw_stop :: bool
  tw_db :: timestamp
  tw_claim :: "string option"
  tw_publish :: publish_answer
  tw_recorded :: bool

record schedule_state =
  ss_log :: slot_log
  ss_published :: "slot_key list"

definition turn_delay :: "timestamp \<Rightarrow> timestamp \<Rightarrow> int" where
  "turn_delay fire later = max (max 0 (fire - later)) SECOND"

definition publish_slot :: "bool \<Rightarrow> turn_world \<Rightarrow> slot_key \<Rightarrow> schedule_state \<Rightarrow> bool \<times> schedule_state" where
  "publish_slot pool tw key st =
     (if tw_publish tw = PublishAcked
      then (True, st\<lparr>ss_published := ss_published st @ [key],
              ss_log := (if pool \<and> tw_recorded tw then mark_slot_published (tw_db tw) key (ss_log st) else ss_log st)\<rparr>)
      else (False, st\<lparr>ss_log := (if pool \<and> tw_recorded tw then release_slot key (ss_log st) else ss_log st)\<rparr>))"

text \<open>\<open>None\<close>: the loop has ended.\<close>

definition schedule_turn ::
    "(timestamp \<Rightarrow> string) \<Rightarrow> timestamp \<Rightarrow> bool \<Rightarrow> uuid \<Rightarrow> task_type \<Rightarrow> cron_schedule \<Rightarrow> turn_world \<Rightarrow> schedule_state
      \<Rightarrow> (timestamp \<times> bool) option \<times> schedule_state" where
  "schedule_turn fmt limit pool owner ty s tw st =
     (case next_run limit s (tw_now tw) of
        Fires fire \<Rightarrow>
          (if tw_stop tw then (None, st)
           else (let key = (task_type_debug ty, fmt fire)
                 in if pool
                    then (case tw_claim tw of
                            Some e \<Rightarrow> (Some (fire, False), st)
                          | None \<Rightarrow>
                              (case claim_slot (tw_db tw) owner key (ss_log st) of
                                 (False, slots) \<Rightarrow> (Some (fire, False), st\<lparr>ss_log := slots\<rparr>)
                               | (True, slots) \<Rightarrow>
                                   (case publish_slot pool tw key (st\<lparr>ss_log := slots\<rparr>) of
                                      (b, st) \<Rightarrow> (Some (fire, b), st))))
                    else (case publish_slot pool tw key st of (b, st) \<Rightarrow> (Some (fire, b), st))))
      | _ \<Rightarrow> (None, st))"

fun schedule_loop ::
    "(timestamp \<Rightarrow> string) \<Rightarrow> timestamp \<Rightarrow> bool \<Rightarrow> uuid \<Rightarrow> task_type \<Rightarrow> cron_schedule \<Rightarrow> turn_world list \<Rightarrow> schedule_state
      \<Rightarrow> (timestamp \<times> bool) list \<times> schedule_state" where
  "schedule_loop fmt limit pool owner ty s [] st = ([], st)"
| "schedule_loop fmt limit pool owner ty s (tw # tws) st =
     (case schedule_turn fmt limit pool owner ty s tw st of
        (None, st) \<Rightarrow> ([], st)
      | (Some turn, st) \<Rightarrow>
          (case schedule_loop fmt limit pool owner ty s tws st of (turns, st) \<Rightarrow> (turn # turns, st)))"

text \<open>The default schedule, as expressions and task types.\<close>

definition default_schedule :: "(string \<times> task_type) list" where
  "default_schedule = [(''daily@02:00'', DailyAnalyticsSnapshot), (''every@4hours'', ComputeWarehouseKpis),
     (''daily@03:00'', ScheduledRetrainAll)]"

section \<open>Parsed schedules\<close>

fun wf_cron :: "cron_schedule \<Rightarrow> bool" where
  "wf_cron (Daily hour minute) \<longleftrightarrow> hour \<le> 23 \<and> minute \<le> 59"
| "wf_cron (Hourly minute) \<longleftrightarrow> minute \<le> 59"
| "wf_cron (Every hours) \<longleftrightarrow> 0 < hours \<and> hours < 2 ^ 64"

fun cron_text :: "cron_schedule \<Rightarrow> string" where
  "cron_text (Daily hour minute) = ''daily@'' @ show_nat hour @ '':'' @ show_nat minute"
| "cron_text (Hourly minute) = ''hourly@:'' @ show_nat minute"
| "cron_text (Every hours) = ''every@'' @ show_nat hours @ ''hours''"

lemma parse_unsigned_show:
  assumes "int n < 2 ^ bits"
  shows "parse_unsigned bits (show_nat n) = Some n"
proof -
  have digits: "list_all is_digit (show_nat n)" using show_nat_digits by (fastforce simp: list_all_iff)
  then have "\<not> starts_with ''+'' (show_nat n)"
    by (cases "show_nat n") (auto simp: starts_with_def is_digit_def)
  then show ?thesis using assms digits by (simp add: parse_unsigned_def parse_digits_def read_show_nat)
qed

lemma show_nat_plain: "\<not> is_digit c \<Longrightarrow> c \<notin> set (show_nat n)"
  using show_nat_digits digit_char_is_digit by blast

lemma parsed_cron_wf: "parse_cron expr = Inr s \<Longrightarrow> wf_cron s"
  by (auto simp: parse_cron_def parse_daily_def parse_hourly_def parse_every_def parse_unsigned_def Let_def
      split: option.splits list.splits if_splits)

lemma parse_cron_text:
  assumes "wf_cron s" shows "parse_cron (cron_text s) = Inr s"
proof (cases s)
  case (Daily h m)
  have "CHR '':'' \<notin> set (show_nat h)" "CHR '':'' \<notin> set (show_nat m)" by (simp_all add: show_nat_plain is_digit_def)
  then have "split_on (CHR '':'') (show_nat h @ '':'' @ show_nat m) = [show_nat h, show_nat m]"
    using split_on_prefix [of "CHR '':''" "show_nat h" "show_nat m"] by (simp add: split_on_whole)
  moreover have "strip_prefix ''daily@'' (cron_text s) = Some (show_nat h @ '':'' @ show_nat m)"
    using Daily strip_prefix_append [of "''daily@''"] by simp
  ultimately show ?thesis
    using assms Daily by (simp add: parse_cron_def parse_daily_def parse_unsigned_show)
next
  case (Hourly m)
  have "strip_prefix ''hourly@'' (cron_text s) = Some ('':'' @ show_nat m)" "strip_prefix ''daily@'' (cron_text s) = None"
    using Hourly strip_prefix_append [of "''hourly@''" "'':'' @ show_nat m"] by (simp_all add: strip_prefix_def starts_with_def)
  moreover have "strip_prefix '':'' ('':'' @ show_nat m) = Some (show_nat m)" by (rule strip_prefix_append)
  ultimately show ?thesis using assms Hourly by (simp add: parse_cron_def parse_hourly_def parse_unsigned_show)
next
  case (Every n)
  have "strip_prefix ''every@'' (cron_text s) = Some (show_nat n @ ''hours'')"
    "strip_prefix ''daily@'' (cron_text s) = None" "strip_prefix ''hourly@'' (cron_text s) = None"
    using Every strip_prefix_append [of "''every@''" "show_nat n @ ''hours''"]
    by (simp_all add: strip_prefix_def starts_with_def)
  moreover have "strip_suffix ''hours'' (show_nat n @ ''hours'') = Some (show_nat n)"
    unfolding strip_suffix_def rev_append strip_prefix_append by simp
  ultimately show ?thesis using assms Every by (simp add: parse_cron_def parse_every_def parse_unsigned_show)
qed

lemma wf_no_bad_config: "wf_cron s \<Longrightarrow> next_run limit s now \<noteq> BadConfig e"
  by (cases s) (auto simp: next_daily_def next_hourly_def next_every_def hms_opt_def fires_def Let_def
      split: option.splits)

text \<open>C31.
  A cron expression that parses is well formed: its hour and minute are on the clock, its period
  is at least one hour and fits 64 bits; it is the reading of its own text; and computing its
  next run never ends in a configuration error.
\<close>

theorem parsed_cron_well_formed:
  assumes "parse_cron expr = Inr s"
  shows "wf_cron s \<and> parse_cron (cron_text s) = Inr s \<and> next_run limit s now \<noteq> BadConfig e"
  using parsed_cron_wf [OF assms] parse_cron_text wf_no_bad_config by simp

lemma parsed_cron_well_formed_witness:
  "parse_cron ''every@4hours'' = Inr (Every 4) \<and> wf_cron (Every 4) \<and> parse_cron (cron_text (Every 4)) = Inr (Every 4)"
proof -
  have "cron_text (Every 4) = ''every@4hours''" by code_simp
  then have "parse_cron ''every@4hours'' = Inr (Every 4)" using parse_cron_text [of "Every 4"] by simp
  with parsed_cron_well_formed [OF this] show ?thesis by simp
qed

section \<open>The least slot after an instant\<close>

text \<open>The slots of a schedule; a period that does not divide the day has none of its own.\<close>

fun is_slot :: "cron_schedule \<Rightarrow> timestamp \<Rightarrow> bool" where
  "is_slot (Daily hour minute) t \<longleftrightarrow> t mod DAY = int hour * HOUR + int minute * MINUTE"
| "is_slot (Hourly minute) t \<longleftrightarrow> t mod HOUR = int minute * MINUTE"
| "is_slot (Every hours) t \<longleftrightarrow> t mod (int hours * HOUR) = 0"

definition next_slot :: "int \<Rightarrow> int \<Rightarrow> timestamp \<Rightarrow> timestamp" where
  "next_slot p c now = (let t = now - now mod p + c in if t > now then t else t + p)"

lemma next_slot_least:
  assumes "0 < p" "0 \<le> c" "c < p"
  shows "now < next_slot p c now" "next_slot p c now mod p = c" "next_slot p c now \<le> now + p"
    and "now < t \<Longrightarrow> t mod p = c \<Longrightarrow> next_slot p c now \<le> t"
proof -
  have now: "now - now mod p = p * (now div p)" "0 \<le> now mod p" "now mod p < p"
    using assms(1) by (simp_all add: minus_mod_eq_mult_div)
  have around: "p * (now div p) \<le> now" "now < p * (now div p) + p" using now by linarith+
  show "now < next_slot p c now" "next_slot p c now \<le> now + p"
    unfolding next_slot_def now(1) Let_def using around assms(2,3) by (cases "p * (now div p) + c > now"; simp)+
  have "(p * k + c) mod p = c" for k using assms by simp
  from this [of "now div p"] this [of "now div p + 1"] show "next_slot p c now mod p = c"
    unfolding next_slot_def now(1) Let_def by (simp add: algebra_simps)
  assume t: "now < t" "t mod p = c"
  then have t_eq: "t = p * (t div p) + c" by (metis mult_div_mod_eq)
  have le: "now div p \<le> t div p" using t(1) assms(1) by (simp add: zdiv_mono1)
  show "next_slot p c now \<le> t"
  proof (cases "p * (now div p) + c > now")
    case True
    have "p * (now div p) \<le> p * (t div p)" using le assms(1) by simp
    with True t_eq show ?thesis unfolding next_slot_def now(1) Let_def by simp
  next
    case False
    with t(1) t_eq have "p * (now div p) < p * (t div p)" by linarith
    then have "now div p + 1 \<le> t div p" using assms(1) by simp
    then have "p * (now div p + 1) \<le> p * (t div p)" using assms(1) by (intro mult_left_mono) simp_all
    with False t_eq show ?thesis unfolding next_slot_def now(1) Let_def by (simp add: algebra_simps)
  qed
qed

lemma units: "MINUTE > 0" "HOUR > 0" "DAY > 0" "HOUR = 60 * MINUTE" "DAY = 24 * HOUR"
  by (simp_all add: MINUTE_def HOUR_def DAY_def)

lemma minutes_below_hour: "m \<le> 59 \<Longrightarrow> int m * MINUTE < HOUR"
  by (simp add: MINUTE_def HOUR_def)

lemma quotient_below:
  assumes "0 < (p :: int)" shows "a div p < k \<longleftrightarrow> a < k * p"
proof -
  have a: "a = p * (a div p) + a mod p" "0 \<le> a mod p" "a mod p < p" using assms by simp_all
  show ?thesis
  proof
    assume "a div p < k"
    then have "p * (a div p + 1) \<le> p * k" using assms by (intro mult_left_mono) simp_all
    then have "p * (a div p) + p \<le> k * p" by (simp add: algebra_simps)
    with a show "a < k * p" by linarith
  next
    assume less: "a < k * p"
    show "a div p < k"
    proof (rule ccontr)
      assume "\<not> a div p < k"
      then have "p * k \<le> p * (a div p)" using assms by (intro mult_left_mono) simp_all
      then have "k * p \<le> p * (a div p)" by (simp add: mult.commute)
      with a less show False by linarith
    qed
  qed
qed

lemma next_daily_eq:
  assumes "hour \<le> 23" "minute \<le> 59"
  shows "next_daily limit hour minute now = fires limit (next_slot DAY (int hour * HOUR + int minute * MINUTE) now)"
  using assms by (simp add: next_daily_def hms_opt_def midnight_of_def next_slot_def Let_def add.assoc)

lemma hour_in_day: "now mod DAY = hour_of now * HOUR + now mod HOUR" "0 \<le> hour_of now" "hour_of now < 24"
proof -
  have "(now mod DAY) mod HOUR = now mod HOUR" by (rule mod_mod_cancel) (simp add: units(5))
  then show "now mod DAY = hour_of now * HOUR + now mod HOUR"
    unfolding hour_of_def by (metis div_mult_mod_eq)
  show "0 \<le> hour_of now" unfolding hour_of_def using units by (simp add: pos_imp_zdiv_nonneg_iff)
  have "now mod DAY < 24 * HOUR" using pos_mod_bound [of DAY now] units(3) unfolding units(5) by simp
  then show "hour_of now < 24" unfolding hour_of_def using units(2) by (simp add: quotient_below)
qed

lemma minute_before: "minute_of now < m \<longleftrightarrow> now mod HOUR < m * MINUTE"
  unfolding minute_of_def using units(1) by (rule quotient_below)

lemma next_hourly_eq:
  assumes "minute \<le> 59"
  shows "next_hourly limit minute now = fires limit (next_slot HOUR (int minute * MINUTE) now)"
proof -
  let ?c = "int minute * MINUTE" and ?d = "now - now mod HOUR"
  have d: "midnight_of now + hour_of now * HOUR = ?d"
    unfolding midnight_of_def using hour_in_day(1) [of now] by simp
  have m: "0 \<le> int minute" "int minute < 60" using assms by simp_all
  show ?thesis
  proof (cases "minute_of now < int minute")
    case True
    then have "now < ?d + ?c" using minute_before [of now "int minute"] by linarith
    with True m hour_in_day(2,3) [of now] d show ?thesis
      by (simp add: next_hourly_def hms_opt_def next_slot_def Let_def)
  next
    case False
    then have below: "?d + ?c \<le> now" using minute_before [of now "int minute"] by linarith
    have "0 \<le> ?c" using units(1) by simp
    then have above: "now < ?d + ?c + HOUR" using pos_mod_bound [of HOUR now] units(2) by linarith
    show ?thesis
    proof (cases "hour_of now < 23")
      case True
      have t: "midnight_of now + (hour_of now + 1) * HOUR + ?c = ?d + ?c + HOUR"
        unfolding d [symmetric] by (simp add: distrib_right)
      show ?thesis
        using False True m hour_in_day(2) [of now] below above
        by (simp add: next_hourly_def hms_opt_def next_slot_def Let_def t)
    next
      case last: False
      then have "hour_of now = 23" using hour_in_day(3) [of now] by simp
      then have t: "midnight_of now + DAY + ?c = ?d + ?c + HOUR"
        unfolding d [symmetric] units(5) by simp
      show ?thesis
        using False last m below above by (simp add: next_hourly_def hms_opt_def next_slot_def Let_def t)
    qed
  qed
qed

text \<open>Without overflow the next run is the next multiple of the period since midnight.\<close>

lemma next_every_eq:
  assumes "0 < n" "n \<le> 10 ^ 9"
  shows "next_every limit n now
    = fires limit (midnight_of now + ((now mod DAY) div (int n * HOUR) + 1) * (int n * HOUR))"
proof -
  let ?e = "(now mod DAY) div MINUTE" and ?p = "60 * int n"
  have mod: "0 \<le> now mod DAY" "now mod DAY < DAY" using units(3) by simp_all
  have e: "0 \<le> ?e" using mod(1) units(1) by (simp add: pos_imp_zdiv_nonneg_iff)
  have "now mod DAY < 1440 * MINUTE" using mod(2) unfolding units(4,5) by simp
  then have e_less: "?e < 1440" using units(1) by (simp add: quotient_below)
  have p: "0 < ?p" "?p \<le> 60 * 10 ^ 9" using assms by (simp_all add: of_nat_le_iff [of n "10 ^ 9", simplified])
  have period: "i64_wrap (int (u64_wrap (n * 60))) = ?p"
  proof -
    have "u64_wrap (n * 60) = n * 60" using assms(2) by (simp add: u64_wrap_def)
    then show ?thesis using p by (simp add: i64_wrap_id in_i64_def mult.commute)
  qed
  have "?e sdiv ?p = sgn ?e * (?e div ?p)" using e p(1) by (simp add: signed_divide_int_def)
  then have q: "?e sdiv ?p = ?e div ?p" "0 \<le> ?e div ?p" "?e div ?p \<le> ?e"
    using e p(1) zdiv_mono2 [of ?e 1 ?p] by (simp_all add: sgn_if pos_imp_zdiv_nonneg_iff)
  let ?m = "(?e div ?p + 1) * ?p"
  have "?e div ?p * ?p \<le> ?e" using p(1) pos_mod_sign [of ?p ?e] div_mult_mod_eq [of ?e ?p] by linarith
  then have m: "0 \<le> ?m" "?m \<le> 1440 + 60 * 10 ^ 9" using e_less p q(2) by (simp_all add: distrib_right)
  have wrap: "i64_wrap (?e div ?p + 1) = ?e div ?p + 1" "i64_wrap ?m = ?m"
  proof -
    have "in_i64 (?e div ?p + 1)" unfolding in_i64_def using q e_less by simp
    moreover have "?m < 2 ^ 63" using m(2) by (rule le_less_trans) simp
    moreover have "- (2 ^ 63) \<le> ?m" by (rule order_trans [OF _ m(1)]) simp
    ultimately show "i64_wrap (?e div ?p + 1) = ?e div ?p + 1" "i64_wrap ?m = ?m"
      by (simp_all only: i64_wrap_id in_i64_def simp_thms)
  qed
  have split: "?e div ?p = (now mod DAY) div (int n * HOUR)"
    unfolding units(4) using units(1) p(1) by (simp add: zdiv_zmult2_eq [symmetric] mult.assoc mult.left_commute mult.commute)
  have at: "?m * MINUTE = ((now mod DAY) div (int n * HOUR) + 1) * (int n * HOUR)"
    unfolding split units(4) by (simp add: mult.assoc mult.left_commute mult.commute)
  have fits: "\<not> (2 ^ 63 - 1) div 60000 < \<bar>?m\<bar>" using m by simp
  have since: "now - midnight_of now = now mod DAY" by (simp add: midnight_of_def)
  show ?thesis
    unfolding next_every_def Let_def since period q(1) wrap at using p(1) fits by simp
qed

lemma next_every_slot:
  assumes "n dvd 24"
  shows "next_every limit n now = fires limit (next_slot (int n * HOUR) 0 now)"
proof -
  let ?p = "int n * HOUR"
  have "n \<le> 24" "0 < n" using assms by (auto dest: dvd_imp_le intro: gr0I)
  then have n: "n \<le> 10 ^ 9" "0 < n" by simp_all
  have p: "0 < ?p" using n(2) units(2) by simp
  have "int n dvd 24" using assms by (metis int_dvd_int_iff of_nat_numeral)
  then have "?p dvd DAY" unfolding units(5) by (rule mult_dvd_mono) simp
  then have "(now mod DAY) mod ?p = now mod ?p" by (rule mod_mod_cancel)
  then have "midnight_of now + ((now mod DAY) div ?p + 1) * ?p = now - now mod ?p + ?p"
    using div_mult_mod_eq [of "now mod DAY" ?p] by (simp add: midnight_of_def distrib_right)
  moreover have "next_slot ?p 0 now = now - now mod ?p + ?p"
    unfolding next_slot_def Let_def by (subst if_not_P) (use pos_mod_sign [OF p, of now] in linarith)+
  ultimately show ?thesis unfolding next_every_eq [OF n(2,1)] by simp
qed

text \<open>C29.
  The next run is the next slot. For an expression that parses, with a period that divides the
  day, and away from the end of the calendar: the run computed at an instant is a slot of the
  schedule strictly after that instant, no more than a day away, and no slot lies between.
\<close>

theorem next_run_exact:
  assumes "parse_cron expr = Inr s" and "case s of Every n \<Rightarrow> n dvd 24 | _ \<Rightarrow> True" and "now + DAY \<le> limit"
  shows "\<exists>t. next_run limit s now = Fires t \<and> now < t \<and> t \<le> now + DAY \<and> is_slot s t
    \<and> (\<forall>t'. now < t' \<and> is_slot s t' \<longrightarrow> t \<le> t')"
proof -
  have wf: "wf_cron s" using assms(1) by (rule parsed_cron_wf)
  have "\<exists>p c. 0 < p \<and> 0 \<le> c \<and> c < p \<and> p \<le> DAY \<and> next_run limit s now = fires limit (next_slot p c now)
      \<and> (\<forall>t. is_slot s t \<longleftrightarrow> t mod p = c)"
  proof (cases s)
    case (Daily h m)
    have "int h * HOUR \<le> 23 * HOUR" using wf Daily units(2) by (intro mult_right_mono) simp_all
    then have "int h * HOUR + int m * MINUTE < DAY"
      using wf Daily minutes_below_hour [of m] unfolding units(5) by simp
    then show ?thesis using wf Daily units
      by (intro exI [of _ DAY] exI [of _ "int h * HOUR + int m * MINUTE"]) (simp add: next_daily_eq)
  next
    case (Hourly m)
    then show ?thesis using wf minutes_below_hour [of m] units
      by (intro exI [of _ HOUR] exI [of _ "int m * MINUTE"]) (simp add: next_hourly_eq)
  next
    case (Every n)
    then have "n dvd 24" "0 < n" using assms(2) wf by simp_all
    then have "int n \<le> 24" by (auto dest: dvd_imp_le)
    then have "int n * HOUR \<le> DAY" unfolding units(5) using units(2) by (intro mult_right_mono) simp_all
    with Every \<open>n dvd 24\<close> \<open>0 < n\<close> units(2) show ?thesis
      by (intro exI [of _ "int n * HOUR"] exI [of _ 0]) (simp add: next_every_slot)
  qed
  then obtain p c where p: "0 < p" "0 \<le> c" "c < p" "p \<le> DAY"
    "next_run limit s now = fires limit (next_slot p c now)" "\<And>t. is_slot s t \<longleftrightarrow> t mod p = c" by blast
  note least = next_slot_least [OF p(1-3)]
  have "next_slot p c now \<le> now + DAY" using least(3) [of now] p(4) by linarith
  moreover from this have "next_run limit s now = Fires (next_slot p c now)"
    using assms(3) p(5) by (simp add: fires_def)
  ultimately show ?thesis using least(1,2,4) p(6) by blast
qed

lemma next_run_exact_witness:
  "next_run (10 ^ 18) (Every 4) (5 * HOUR) = Fires (8 * HOUR) \<and> is_slot (Every 4) (8 * HOUR)"
proof -
  have "cron_text (Every 4) = ''every@4hours''" by code_simp
  then have "parse_cron ''every@4hours'' = Inr (Every 4)" using parse_cron_text [of "Every 4"] by simp
  from next_run_exact [OF this, of "5 * HOUR" "10 ^ 18"]
  obtain t where t: "next_run (10 ^ 18) (Every 4) (5 * HOUR) = Fires t" "is_slot (Every 4) t"
    by (auto simp: DAY_def HOUR_def MINUTE_def)
  moreover have "next_run (10 ^ 18) (Every 4) (5 * HOUR) = Fires (8 * HOUR)" by code_simp
  ultimately show ?thesis by simp
qed

text \<open>
  A period that does not divide the day starts anew at midnight: five hours after 20:00 is
  01:00 for a loop that computed it before midnight, and 05:00 for one that starts after it.
\<close>

lemma every_5_hours_realigns:
  "next_run (10 ^ 18) (Every 5) (23 * HOUR) = Fires (DAY + 1 * HOUR)
   \<and> next_run (10 ^ 18) (Every 5) (DAY + 30 * MINUTE) = Fires (DAY + 5 * HOUR)"
  by code_simp

text \<open>A period whose minutes wrap to zero.\<close>

lemma wrapped_period_panics: "next_run limit (Every (2 ^ 62)) now = Panics"
proof -
  have "u64_wrap (2 ^ 62 * 60) = 0" by (simp add: u64_wrap_def)
  then show ?thesis by (simp add: next_every_def i64_wrap_def)
qed

section \<open>The turns of one loop\<close>

definition modest_period :: "cron_schedule \<Rightarrow> bool" where
  "modest_period s \<longleftrightarrow> (case s of Every n \<Rightarrow> n \<le> 10 ^ 9 | _ \<Rightarrow> True)"

lemma next_run_after:
  assumes "wf_cron s" "modest_period s" "next_run limit s now = Fires t"
  shows "now < t" and "t mod MINUTE = 0"
proof -
  have hour: "HOUR mod MINUTE = 0" "DAY mod MINUTE = 0" by (simp_all add: HOUR_def DAY_def)
  have slot: "(now - now mod p + c) mod MINUTE = 0" if "p mod MINUTE = 0" "c mod MINUTE = 0" for p c
    using that by (simp add: minus_mod_eq_mult_div mod_add_eq mod_eq_0_iff_dvd)
  have next_whole: "next_slot p c now mod MINUTE = 0" if "p mod MINUTE = 0" "c mod MINUTE = 0" for p c
    using slot [OF that] that(1) by (simp add: next_slot_def Let_def mod_eq_0_iff_dvd)
  have "now < t \<and> t mod MINUTE = 0"
  proof (cases s)
    case (Daily h m)
    have c: "int h * HOUR + int m * MINUTE < DAY" "0 \<le> int h * HOUR + int m * MINUTE"
    proof -
      have "int h * HOUR \<le> 23 * HOUR" using assms(1) Daily units(2) by (intro mult_right_mono) simp_all
      then show "int h * HOUR + int m * MINUTE < DAY"
        using assms(1) Daily minutes_below_hour [of m] unfolding units(5) by simp
    qed (use units in simp)
    have "t = next_slot DAY (int h * HOUR + int m * MINUTE) now"
      using assms(1,3) Daily by (simp add: next_daily_eq fires_def split: if_splits)
    moreover have "(int h * HOUR + int m * MINUTE) mod MINUTE = 0" by (simp add: HOUR_def mod_eq_0_iff_dvd)
    ultimately show ?thesis
      using next_slot_least(1) [OF units(3) c(2,1)] next_whole [OF hour(2)] by simp
  next
    case (Hourly m)
    have "t = next_slot HOUR (int m * MINUTE) now"
      using assms(1,3) Hourly by (simp add: next_hourly_eq fires_def split: if_splits)
    moreover have "0 \<le> int m * MINUTE" "int m * MINUTE < HOUR"
      using assms(1) Hourly minutes_below_hour [of m] units(1) by simp_all
    ultimately show ?thesis
      using next_slot_least(1) [OF units(2), of "int m * MINUTE" now] next_whole [OF hour(1), of "int m * MINUTE"] by simp
  next
    case (Every n)
    let ?p = "int n * HOUR"
    have n: "0 < n" "n \<le> 10 ^ 9" using assms(1,2) Every by (simp_all add: modest_period_def)
    have p: "0 < ?p" using n(1) units(2) by simp
    have t: "t = midnight_of now + ((now mod DAY) div ?p + 1) * ?p"
      using assms(3) Every next_every_eq [OF n] by (simp add: fires_def split: if_splits)
    have "now mod DAY < ((now mod DAY) div ?p + 1) * ?p"
      using quotient_below [OF p, of "now mod DAY" "(now mod DAY) div ?p + 1"] by simp
    then have "now < t" unfolding t midnight_of_def by simp
    moreover have "?p mod MINUTE = 0" by (simp add: HOUR_def mod_eq_0_iff_dvd)
    then have "t mod MINUTE = 0" unfolding t midnight_of_def using slot [OF hour(2), of 0]
      by (simp add: mod_eq_0_iff_dvd)
    ultimately show ?thesis by simp
  qed
  then show "now < t" "t mod MINUTE = 0" by simp_all
qed

text \<open>A turn computes its run after the delay of the turn before it has passed.\<close>

fun turns_in_time :: "timestamp \<Rightarrow> cron_schedule \<Rightarrow> turn_world list \<Rightarrow> bool" where
  "turns_in_time limit s (tw # tw' # tws) \<longleftrightarrow>
     (case next_run limit s (tw_now tw) of
        Fires fire \<Rightarrow> tw_later tw + turn_delay fire (tw_later tw) \<le> tw_now tw'
      | _ \<Rightarrow> True) \<and> turns_in_time limit s (tw' # tws)"
| "turns_in_time limit s _ \<longleftrightarrow> True"

lemma delay_reaches: "fire \<le> later + turn_delay fire later"
  by (simp add: turn_delay_def)

lemma schedule_turn_effect:
  assumes "schedule_turn fmt limit pool owner ty s tw st = (Some (t, b), st')"
  shows "next_run limit s (tw_now tw) = Fires t"
    and "ss_published st' = ss_published st @ (if b then [(task_type_debug ty, fmt t)] else [])"
  using assms by (auto simp: schedule_turn_def publish_slot_def Let_def
      split: next_answer.splits if_splits option.splits prod.splits bool.splits)

lemma schedule_turn_end:
  "schedule_turn fmt limit pool owner ty s tw st = (None, st') \<Longrightarrow> st' = st"
  by (auto simp: schedule_turn_def Let_def split: next_answer.splits if_splits option.splits prod.splits bool.splits)

lemma schedule_loop_order:
  assumes "wf_cron s" "modest_period s"
  shows "turns_in_time limit s tws \<Longrightarrow> schedule_loop fmt limit pool owner ty s tws st = (turns, st') \<Longrightarrow>
    sorted_wrt (<) (map fst turns)
    \<and> (\<forall>turn \<in> set turns. fst turn mod MINUTE = 0 \<and> tw_now (hd tws) < fst turn)
    \<and> ss_published st' = ss_published st @ map (\<lambda>turn. (task_type_debug ty, fmt (fst turn))) (filter snd turns)"
proof (induction tws arbitrary: st turns)
  case (Cons tw tws)
  obtain r st1 where turn: "schedule_turn fmt limit pool owner ty s tw st = (r, st1)" by fastforce
  show ?case
  proof (cases r)
    case None
    with Cons.prems(2) turn have "turns = []" "st' = st" using schedule_turn_end by auto
    then show ?thesis by simp
  next
    case (Some tb)
    obtain t b where tb: "tb = (t, b)" by fastforce
    note effect = schedule_turn_effect [OF turn [unfolded Some tb]]
    note after = next_run_after [OF assms effect(1)]
    obtain turns' where rest: "schedule_loop fmt limit pool owner ty s tws st1 = (turns', st')" "turns = (t, b) # turns'"
      using Cons.prems(2) turn Some tb by (auto split: prod.splits)
    show ?thesis
    proof (cases tws)
      case Nil
      with rest after effect(2) show ?thesis by simp
    next
      case (Cons tw' tws')
      then have "t \<le> tw_now tw'" "turns_in_time limit s tws"
        using Cons.prems(1) effect(1) delay_reaches [of t "tw_later tw"] by simp_all
      with Cons.IH [OF _ rest(1)] Cons rest(2) after effect(2) show ?thesis by fastforce
    qed
  qed
qed simp

text \<open>C30.
  A loop never turns back. For a schedule that was parsed, with a period of at most 10^9 if it is
  periodic (a longer one may wrap), with a clock that does not run ahead of the delays and a time
  format that tells minutes apart: the slots that one loop attempts lie strictly one after
  the other, whatever became of each attempt; what it publishes is the slots of its successful
  turns, and each at most once, with or without a database. So a slot whose publication failed is
  not attempted again by that loop.
\<close>

theorem slots_strictly_increase:
  assumes "parse_cron expr = Inr s" and "modest_period s" and "turns_in_time limit s tws"
    and "schedule_loop fmt limit pool owner ty s tws st = (turns, st')" and "inj_on fmt {t. t mod MINUTE = 0}"
  shows "sorted_wrt (<) (map fst turns)
    \<and> ss_published st' = ss_published st @ map (\<lambda>turn. (task_type_debug ty, fmt (fst turn))) (filter snd turns)
    \<and> distinct (map (\<lambda>turn. (task_type_debug ty, fmt (fst turn))) (filter snd turns))"
proof -
  note order = schedule_loop_order [OF parsed_cron_wf [OF assms(1)] assms(2-4)]
  have "distinct (map fst turns)" using order strict_sorted_iff by blast
  then have "distinct (map fst (filter snd turns))" by (rule distinct_map_filter)
  moreover have "inj_on fmt (set (map fst (filter snd turns)))"
    by (rule inj_on_subset [OF assms(5)]) (use order in auto)
  ultimately have "distinct (map fmt (map fst (filter snd turns)))" by (simp only: distinct_map)
  then have "distinct (map (Pair (task_type_debug ty)) (map fmt (map fst (filter snd turns))))"
    unfolding distinct_map [of "Pair (task_type_debug ty)"] by (simp add: inj_on_def)
  then show ?thesis using order by (simp add: o_def)
qed

text \<open>A publication that fails at 04:00 and one that succeeds at 08:00.\<close>

definition demo_fmt :: "timestamp \<Rightarrow> string" where
  "demo_fmt t = (if t < 0 then ''m'' @ show_nat (nat (- t)) else show_nat (nat t))"

definition demo_turn :: "timestamp \<Rightarrow> publish_answer \<Rightarrow> turn_world" where
  "demo_turn now p = \<lparr>tw_now = now, tw_later = now, tw_stop = False, tw_db = now, tw_claim = None,
     tw_publish = p, tw_recorded = True\<rparr>"

lemma show_nat_inj: "show_nat m = show_nat n \<Longrightarrow> m = n"
  using read_show_nat by metis

lemma demo_fmt_inj: "inj demo_fmt"
proof (rule injI)
  fix x y assume eq: "demo_fmt x = demo_fmt y"
  have head: "show_nat n \<noteq> ''m'' @ s" for n s
    using show_nat_plain [of "CHR ''m''" n] by (auto simp: is_digit_def)
  with eq head [symmetric] show "x = y"
    by (auto simp: demo_fmt_def split: if_splits dest!: show_nat_inj)
qed

lemma slots_strictly_increase_witness:
  "case schedule_loop demo_fmt (10 ^ 18) True 1 ComputeWarehouseKpis (Every 4)
      [demo_turn (3 * HOUR) PublishFailed, demo_turn (4 * HOUR) PublishAcked] \<lparr>ss_log = (\<lambda>_. None), ss_published = []\<rparr>
    of (turns, st) \<Rightarrow> turns = [(4 * HOUR, False), (8 * HOUR, True)] \<and> length (ss_published st) = 1"
proof -
  let ?s = "Every 4" and ?tws = "[demo_turn (3 * HOUR) PublishFailed, demo_turn (4 * HOUR) PublishAcked]"
  let ?st = "\<lparr>ss_log = (\<lambda>_. None), ss_published = []\<rparr> :: schedule_state"
  have "cron_text ?s = ''every@4hours''" by code_simp
  then have "parse_cron ''every@4hours'' = Inr ?s" using parse_cron_text [of ?s] by simp
  moreover have "modest_period ?s" by (simp add: modest_period_def)
  moreover have "turns_in_time (10 ^ 18) ?s ?tws" by code_simp
  moreover obtain turns st where
    loop: "schedule_loop demo_fmt (10 ^ 18) True 1 ComputeWarehouseKpis ?s ?tws ?st = (turns, st)" by fastforce
  moreover have "inj_on demo_fmt {t. t mod MINUTE = 0}" by (rule inj_on_subset [OF demo_fmt_inj]) simp
  ultimately have "ss_published st = ss_published ?st @ map (\<lambda>turn. (task_type_debug ComputeWarehouseKpis, demo_fmt (fst turn))) (filter snd turns)"
    by (rule slots_strictly_increase [THEN conjunct2, THEN conjunct1])
  moreover have "next_run (10 ^ 18) ?s (3 * HOUR) = Fires (4 * HOUR)" "next_run (10 ^ 18) ?s (4 * HOUR) = Fires (8 * HOUR)"
    by code_simp+
  then have "fst (schedule_loop demo_fmt (10 ^ 18) True 1 ComputeWarehouseKpis ?s ?tws ?st) = [(4 * HOUR, False), (8 * HOUR, True)]"
    by (simp add: demo_turn_def schedule_turn_def claim_slot_def publish_slot_def release_slot_def Let_def del: next_run.simps)
  ultimately show ?thesis using loop by simp
qed

section \<open>Schedulers that share the slots\<close>

text \<open>
  Processes with a database, whoever of them leads: what each has claimed, and whether the
  server has acknowledged its publication.
\<close>

record slot_sys =
  sy_now :: timestamp
  sy_slots :: slot_log
  sy_work :: "uuid \<Rightarrow> slot_key \<Rightarrow> timestamp option"
  sy_acked :: "uuid \<Rightarrow> slot_key \<Rightarrow> bool"
  sy_published :: "slot_key list"

inductive slot_step :: "slot_sys \<Rightarrow> slot_sys \<Rightarrow> bool" where
  tick: "sy_now s \<le> n \<Longrightarrow> slot_step s (s\<lparr>sy_now := n\<rparr>)"
| claimed: "claim_slot (sy_now s) w k (sy_slots s) = (True, slots) \<Longrightarrow>
    slot_step s (s\<lparr>sy_slots := slots, sy_work := (sy_work s)(w := (sy_work s w)(k \<mapsto> sy_now s + SLOT_LEASE)),
      sy_acked := (sy_acked s)(w := (sy_acked s w)(k := False))\<rparr>)"
| published: "sy_work s w k \<noteq> None \<Longrightarrow> \<not> sy_acked s w k \<Longrightarrow>
    slot_step s (s\<lparr>sy_published := sy_published s @ [k], sy_acked := (sy_acked s)(w := (sy_acked s w)(k := True))\<rparr>)"
| marked: "sy_work s w k \<noteq> None \<Longrightarrow> sy_acked s w k \<Longrightarrow>
    slot_step s (s\<lparr>sy_slots := mark_slot_published (sy_now s) k (sy_slots s),
      sy_work := (sy_work s)(w := (sy_work s w)(k := None))\<rparr>)"
| released: "sy_work s w k \<noteq> None \<Longrightarrow> \<not> sy_acked s w k \<Longrightarrow>
    slot_step s (s\<lparr>sy_slots := release_slot k (sy_slots s), sy_work := (sy_work s)(w := (sy_work s w)(k := None))\<rparr>)"
| given_up: "slot_step s (s\<lparr>sy_work := (sy_work s)(w := (sy_work s w)(k := None))\<rparr>)"

definition slot_lease :: "run_slot \<Rightarrow> uuid option lease" where
  "slot_lease r = (if sl_state r = ''published'' then Finished
     else if sl_state r = ''claimed'' then Held (sl_owner r) (sl_until r) else Free)"

definition slot_table :: "slot_log \<Rightarrow> slot_key \<Rightarrow> uuid option lease" where
  "slot_table slots k = (case slots k of None \<Rightarrow> Free | Some r \<Rightarrow> slot_lease r)"

definition slot_view :: "slot_sys \<Rightarrow> (uuid, slot_key, uuid option) lease_sys" where
  "slot_view s = \<lparr>ls_now = sy_now s,
     ls_table = slot_table (sy_slots s), ls_claims = sy_work s\<rparr>"

lemma slot_table_upd:
  "slot_table (slots(k := x)) = (slot_table slots)(k := (case x of None \<Rightarrow> Free | Some r \<Rightarrow> slot_lease r))"
  by (simp add: slot_table_def fun_eq_iff)

lemma claimed_slot:
  assumes "claim_slot now w k slots = (True, slots')"
  shows "takeable now (slot_table slots k)"
    and "slots' = slots(k \<mapsto> \<lparr>sl_state = ''claimed'', sl_until = now + SLOT_LEASE, sl_owner = Some w\<rparr>)"
  using assms by (auto simp: claim_slot_def slot_takeable_def takeable_def slot_lease_def slot_table_def Let_def
      split: option.splits if_splits)

lemma slot_simulates:
  assumes "slot_step s s'" and ok: "leases_ok Some (slot_view s)"
  shows "lease_step Some (slot_view s) (slot_view s') \<or> slot_view s' = slot_view s"
  using assms(1)
proof cases
  case (tick n)
  then show ?thesis using lease_step.tick [of "slot_view s" n Some] by (simp add: slot_view_def)
next
  case (claimed w k slots)
  note claim = claimed_slot [OF claimed(2)]
  have "slot_view s' = (slot_view s)\<lparr>ls_table := (\<lambda>i. if i \<in> {k} then Held (Some w) (sy_now s + SLOT_LEASE) else ls_table (slot_view s) i),
      ls_claims := (ls_claims (slot_view s))(w := (\<lambda>i. if i \<in> {k} then Some (sy_now s + SLOT_LEASE) else ls_claims (slot_view s) w i))\<rparr>"
    by (simp add: claimed(1) claim(2) slot_view_def slot_table_upd slot_lease_def fun_eq_iff)
  moreover have "\<forall>i \<in> {k}. takeable (ls_now (slot_view s)) (ls_table (slot_view s) i)"
    using claim(1) by (simp add: slot_view_def)
  ultimately show ?thesis
    using lease_step.take_keys [of "{k}" "slot_view s" Some w "sy_now s + SLOT_LEASE"] by simp
next
  case (marked w k)
  then obtain u where claim: "ls_claims (slot_view s) w k = Some u" by (auto simp: slot_view_def)
  have held: "ls_table (slot_view s) k = Held (Some w) u" using leases_okD(1) [OF ok claim] .
  then obtain r where "sy_slots s k = Some r" by (auto simp: slot_view_def slot_table_def split: option.splits)
  then have "slot_view s' = (slot_view s)\<lparr>ls_table := (ls_table (slot_view s))(k := Finished),
      ls_claims := drop_claim w k (ls_claims (slot_view s))\<rparr>"
    by (simp add: marked(1) slot_view_def mark_slot_published_def slot_table_upd slot_lease_def drop_claim_def)
  then show ?thesis using lease_step.end_lease [of "slot_view s" w k Finished Some] claim held by simp
next
  case (released w k)
  then obtain u where claim: "ls_claims (slot_view s) w k = Some u" by (auto simp: slot_view_def)
  have held: "ls_table (slot_view s) k = Held (Some w) u" using leases_okD(1) [OF ok claim] .
  have "slot_view s' = (slot_view s)\<lparr>ls_table := (ls_table (slot_view s))(k := Free),
      ls_claims := drop_claim w k (ls_claims (slot_view s))\<rparr>"
    by (simp add: released(1) slot_view_def release_slot_def slot_table_upd drop_claim_def)
  then show ?thesis using lease_step.end_lease [of "slot_view s" w k Free Some] claim held by simp
next
  case (given_up w k)
  then have "slot_view s' = (slot_view s)\<lparr>ls_claims := (ls_claims (slot_view s))(w := (ls_claims (slot_view s) w)(k := None))\<rparr>"
    by (simp add: slot_view_def)
  then show ?thesis
    using lease_step.forget [of "(ls_claims (slot_view s) w)(k := None)" "slot_view s" w Some] by simp
qed (simp_all add: slot_view_def)

interpretation slots: lease_protocol Some slot_view slot_step "\<lambda>_. True"
  by unfold_locales (rule TrueI, rule slot_simulates, assumption+)

definition slots_start :: "slot_sys \<Rightarrow> bool" where
  "slots_start s \<longleftrightarrow> (\<forall>w k. sy_work s w k = None \<and> \<not> sy_acked s w k)
     \<and> (\<forall>k. slot_table (sy_slots s) k = Finished \<longrightarrow> k \<in> set (sy_published s))"

lemma finished_was_published:
  assumes "slot_step s s'"
    and "(\<forall>w k. sy_acked s w k \<longrightarrow> k \<in> set (sy_published s)) \<and> (\<forall>k. slot_table (sy_slots s) k = Finished \<longrightarrow> k \<in> set (sy_published s))"
  shows "(\<forall>w k. sy_acked s' w k \<longrightarrow> k \<in> set (sy_published s')) \<and> (\<forall>k. slot_table (sy_slots s') k = Finished \<longrightarrow> k \<in> set (sy_published s'))"
  using assms
proof (induction rule: slot_step.induct)
  case (claimed s w k slots)
  have "slot_table slots = (slot_table (sy_slots s))(k := Held (Some w) (sy_now s + SLOT_LEASE))"
    unfolding claimed_slot(2) [OF claimed(1)] slot_table_upd by (simp add: slot_lease_def)
  with claimed(2) show ?case by auto
next
  case (marked s w k)
  have "slot_table (mark_slot_published (sy_now s) k (sy_slots s)) i = Finished \<Longrightarrow>
      i = k \<or> slot_table (sy_slots s) i = Finished" for i
    by (cases "sy_slots s k") (auto simp: mark_slot_published_def slot_table_def split: if_splits)
  moreover have "k \<in> set (sy_published s)" using marked(2,3) by blast
  ultimately show ?case using marked(3) by (simp del: split_paired_All) blast
next
  case (released s w k)
  have "slot_table (release_slot k (sy_slots s)) = (slot_table (sy_slots s))(k := Free)"
    unfolding release_slot_def slot_table_upd by simp
  with released(3) show ?case by auto
qed auto

lemma unclaimed_not_published:
  "slot_step s s' \<Longrightarrow> (\<And>w. sy_work s w k = None) \<Longrightarrow> count_list (sy_published s') k = count_list (sy_published s) k"
  by (induction rule: slot_step.induct) auto

lemma finished_not_published:
  assumes "timely_run slot_view slot_step s s'" and "leases_ok Some (slot_view s)" "timely_claims (slot_view s)"
    and "ls_table (slot_view s) k = Finished"
  shows "count_list (sy_published s') k = count_list (sy_published s) k"
  using assms(1)
proof (induction rule: timely_run.induct)
  case (further s1 s2)
  have "sy_work s1 w k = None" for w
    using slots.finished_is_final [OF further(1) TrueI assms(2-4)] by (simp add: slot_view_def)
  with unclaimed_not_published [OF further(2)] further(4) show ?case by metis
qed simp

text \<open>
  A slot is published by one process and not again once it is marked. In every run of any number
  of scheduler processes in which no process goes on with a slot past its two minutes: a slot is
  claimed by at most one process, and its row names that process; a slot marked as
  published was published, is claimed by nobody, stays marked, and is not published again.
\<close>

theorem slots_exclusive:
  assumes "slots_start s0" and "timely_run slot_view slot_step s0 s"
  shows "(\<forall>w w' k u u'. sy_work s w k = Some u \<and> sy_work s w' k = Some u' \<longrightarrow>
        w = w' \<and> slot_table (sy_slots s) k = Held (Some w) u)
    \<and> (\<forall>k. slot_table (sy_slots s) k = Finished \<longrightarrow> k \<in> set (sy_published s) \<and> (\<forall>w. sy_work s w k = None)
        \<and> (\<forall>s'. timely_run slot_view slot_step s s' \<longrightarrow> slot_table (sy_slots s') k = Finished
            \<and> count_list (sy_published s') k = count_list (sy_published s) k))"
proof -
  have start: "leases_ok Some (slot_view s0)" "timely_claims (slot_view s0)"
    using assms(1) by (simp_all add: slots_start_def leases_ok_def timely_claims_def slot_view_def)
  have s: "leases_ok Some (slot_view s)" "timely_claims (slot_view s)"
    using slots.run [OF assms(2) TrueI start] by blast+
  have table: "ls_table (slot_view x) = slot_table (sy_slots x)" "ls_claims (slot_view x) = sy_work x" for x
    by (simp_all add: slot_view_def)
  have "(\<forall>w k. sy_acked s w k \<longrightarrow> k \<in> set (sy_published s)) \<and> (\<forall>k. slot_table (sy_slots s) k = Finished \<longrightarrow> k \<in> set (sy_published s))"
    using assms(2)
  proof (induction rule: timely_run.induct)
    case start
    show ?case using assms(1) by (simp add: slots_start_def)
  next
    case (further s1 s2)
    from finished_was_published [OF further(2) further(4)] show ?case .
  qed
  note had = this
  have holder: "w = w' \<and> slot_table (sy_slots s) k = Held (Some w) u"
    if "sy_work s w k = Some u" "sy_work s w' k = Some u'" for w w' k u u'
    using slots.one_holder [OF assms(2) TrueI start, of w k u w' u'] that by (simp add: table)
  have final: "slot_table (sy_slots s') k = Finished \<and> sy_work s' w k = None
      \<and> count_list (sy_published s') k = count_list (sy_published s) k"
    if "slot_table (sy_slots s) k = Finished" "timely_run slot_view slot_step s s'" for s' k w
  proof -
    have fin: "ls_table (slot_view s) k = Finished" using that(1) by (simp add: table)
    show ?thesis
      using slots.finished_is_final [OF that(2) TrueI s fin] finished_not_published [OF that(2) s fin] by (simp add: table)
  qed
  show ?thesis using holder had final timely_run.start [of slot_view slot_step s] by blast
qed

definition demo_slots :: slot_sys where
  "demo_slots = \<lparr>sy_now = 0, sy_slots = (\<lambda>_. None), sy_work = (\<lambda>_ _. None), sy_acked = (\<lambda>_ _. False), sy_published = []\<rparr>"

definition demo_slot_claimed :: slot_sys where
  "demo_slot_claimed = demo_slots\<lparr>sy_slots := snd (claim_slot 0 4 (''SendEmail'', ''x'') (\<lambda>_. None)),
     sy_work := (sy_work demo_slots)(4 := (sy_work demo_slots 4)((''SendEmail'', ''x'') \<mapsto> 0 + SLOT_LEASE)),
     sy_acked := (sy_acked demo_slots)(4 := (sy_acked demo_slots 4)((''SendEmail'', ''x'') := False))\<rparr>"

lemma slots_exclusive_witness:
  "slots_start demo_slots \<and> timely_run slot_view slot_step demo_slots demo_slot_claimed
     \<and> slot_table (sy_slots demo_slot_claimed) (''SendEmail'', ''x'') = Held (Some 4) SLOT_LEASE"
proof -
  have start: "slots_start demo_slots" by (simp add: slots_start_def demo_slots_def slot_table_def)
  have "claim_slot (sy_now demo_slots) 4 (''SendEmail'', ''x'') (sy_slots demo_slots) = (True, sy_slots demo_slot_claimed)"
    by (simp add: demo_slots_def demo_slot_claimed_def claim_slot_def)
  from slot_step.claimed [OF this] have step: "slot_step demo_slots demo_slot_claimed"
    by (simp add: demo_slots_def demo_slot_claimed_def)
  have timely: "timely_claims (slot_view demo_slot_claimed)"
    by (simp add: timely_claims_def slot_view_def demo_slot_claimed_def demo_slots_def SLOT_LEASE_def SECOND_def)
  have run: "timely_run slot_view slot_step demo_slots demo_slot_claimed"
    by (rule timely_run.further [where s = demo_slots]) (rule timely_run.start step timely)+
  have "sy_work demo_slot_claimed 4 (''SendEmail'', ''x'') = Some SLOT_LEASE" by (simp add: demo_slot_claimed_def)
  with conjunct1 [OF slots_exclusive [OF start run]]
  have "slot_table (sy_slots demo_slot_claimed) (''SendEmail'', ''x'') = Held (Some 4) SLOT_LEASE" by blast
  then show ?thesis using start run by simp
qed

section \<open>A late scheduler\<close>

text \<open>
  Neither the mark nor the release of a slot asks for the owner of the claim: the release of a
  scheduler that is late removes the mark of its successor, and the slot can be claimed again.
\<close>

lemma late_release_reopens:
  "fst (claim_slot now w k (release_slot k (mark_slot_published now k (snd (claim_slot now w' k slots)))))"
  by (simp add: claim_slot_def release_slot_def)

end
