(* ===== verification/Tool_Policy.thy ===== *)
theory Tool_Policy
  imports Sql_Model
begin

text \<open>
  The tools of the agent (\<open>sensei-agent-core/src/tools.rs\<close>): their specifications, the policy
  that decides who may run them, the check of their output, and the bounded cache of
  \<open>cache.rs\<close>. A table of rights of \<open>context.rs\<close> gives the caller's permissions.
\<close>

section \<open>Tools and callers\<close>

datatype tool_risk = ReadOnly | LowRiskWrite | ControlledWrite | HighRisk | ProhibitedAutonomous

fun risk_rank :: "tool_risk \<Rightarrow> nat" where
  "risk_rank ReadOnly = 0"
| "risk_rank LowRiskWrite = 1"
| "risk_rank ControlledWrite = 2"
| "risk_rank HighRisk = 3"
| "risk_rank ProhibitedAutonomous = 4"

lemma risk_rank_inject: "risk_rank a = risk_rank b \<longleftrightarrow> a = b"
  by (cases a; cases b) simp_all

text \<open>The order that \<open>derive(PartialOrd, Ord)\<close> gives.\<close>

instantiation tool_risk :: linorder
begin

definition less_eq_tool_risk :: "tool_risk \<Rightarrow> tool_risk \<Rightarrow> bool" where
  "a \<le> b \<longleftrightarrow> risk_rank a \<le> risk_rank b"

definition less_tool_risk :: "tool_risk \<Rightarrow> tool_risk \<Rightarrow> bool" where
  "a < b \<longleftrightarrow> risk_rank a < risk_rank b"

instance
  by standard (auto simp: less_eq_tool_risk_def less_tool_risk_def risk_rank_inject [symmetric])

end

datatype approval_policy = Automatic | Required | Denied

record tool_spec =
  ts_name :: string
  ts_version :: nat
  ts_risk :: tool_risk
  ts_permission :: string
  ts_input :: json
  ts_output :: json
  ts_timeout_ms :: nat
  ts_max_rows :: nat
  ts_idempotent :: bool
  ts_approval :: approval_policy

definition read_only :: "string \<Rightarrow> string \<Rightarrow> json \<Rightarrow> json \<Rightarrow> tool_spec" where
  "read_only n p i q = \<lparr>ts_name = n, ts_version = 1, ts_risk = ReadOnly, ts_permission = p, ts_input = i,
     ts_output = q, ts_timeout_ms = 10000, ts_max_rows = 500, ts_idempotent = True, ts_approval = Automatic\<rparr>"

record approval_artifact =
  va_workflow :: string
  va_approval :: string
  va_by :: string
  va_at :: timestamp
  va_role :: string

record agent_context =
  ac_tenant :: uuid
  ac_user :: uuid
  ac_session :: "uuid option"
  ac_site :: "uuid option"
  ac_value_stream :: "uuid option"
  ac_work_center :: "uuid option"
  ac_shift :: "uuid option"
  ac_roles :: "string list"
  ac_permissions :: "string set"
  ac_locale :: string
  ac_timezone :: string
  ac_request :: uuid
  ac_conversation :: "uuid option"

definition ends_with :: "string \<Rightarrow> string \<Rightarrow> bool" where
  "ends_with e s \<longleftrightarrow> length e \<le> length s \<and> drop (length s - length e) s = e"

definition permission_covers :: "string \<Rightarrow> string \<Rightarrow> bool" where
  "permission_covers p q \<longleftrightarrow> p = ''*:*'' \<or> p = q
     \<or> (ends_with '':*'' p \<and> starts_with (take (length p - 1) p) q)"

definition agent_can :: "agent_context \<Rightarrow> string \<Rightarrow> bool" where
  "agent_can c q \<longleftrightarrow> (\<exists>p \<in> ac_permissions c. permission_covers p q)"

text \<open>
  The rule is not that of the role service (\<open>permission_matches\<close> of \<open>sensei-auth/src/rbac.rs\<close>):
  a grant of an action on every resource covers nothing here, and a grant on a resource covers
  whatever follows its colon, dots included.
\<close>

lemma agent_rule_differs:
  "\<not> permission_covers ''*:read'' ''orders:read''" "permission_covers ''orders:*'' ''orders:read.all''"
  by code_simp+

section \<open>The policy\<close>

record policy_engine =
  pe_tools :: "tool_spec list"
  pe_ceiling :: tool_risk

definition effective_tools :: "policy_engine \<Rightarrow> agent_context \<Rightarrow> tool_spec list" where
  "effective_tools pe c = filter (\<lambda>t. agent_can c (ts_permission t) \<and> ts_risk t \<le> pe_ceiling pe
     \<and> ts_approval t \<noteq> Denied) (pe_tools pe)"

definition can_execute :: "policy_engine \<Rightarrow> agent_context \<Rightarrow> tool_spec \<Rightarrow> approval_artifact option \<Rightarrow> bool" where
  "can_execute pe c t a =
     (if ts_approval t = Denied then False
      else if ts_approval t = Required \<and> a = None then False
      else agent_can c (ts_permission t) \<and> ts_risk t \<le> pe_ceiling pe)"

definition approval_required :: "tool_spec \<Rightarrow> bool" where
  "approval_required t \<longleftrightarrow> ts_approval t = Required \<or> HighRisk \<le> ts_risk t"

text \<open>
  The two answers agree: a registered tool is offered exactly when the caller may execute it
  with an approval at hand.
\<close>

lemma effective_executable:
  "t \<in> set (effective_tools pe c) \<longleftrightarrow> t \<in> set (pe_tools pe) \<and> can_execute pe c t (Some a)"
  by (auto simp: effective_tools_def can_execute_def)

text \<open>
  A tool that needs an approval is executed without one when it is declared automatic: the
  decision looks at the declared policy, not at the risk that calls for the approval.
\<close>

lemma high_risk_unapproved:
  assumes "ts_approval t = Automatic" and "ts_risk t = HighRisk"
    and "HighRisk \<le> pe_ceiling pe" and "agent_can c (ts_permission t)"
  shows "approval_required t \<and> can_execute pe c t None"
  using assms by (simp add: approval_required_def can_execute_def)

lemma high_risk_unapproved_witness:
  "\<exists>pe c t. approval_required t \<and> can_execute pe c t None"
proof -
  let ?t = "read_only ''post'' ''p'' JNull JNull \<lparr>ts_risk := HighRisk\<rparr>"
  let ?c = "\<lparr>ac_tenant = 1, ac_user = 1, ac_session = None, ac_site = None, ac_value_stream = None,
    ac_work_center = None, ac_shift = None, ac_roles = [], ac_permissions = {''p''}, ac_locale = [],
    ac_timezone = [], ac_request = 1, ac_conversation = None\<rparr>"
  have "approval_required ?t \<and> can_execute \<lparr>pe_tools = [], pe_ceiling = HighRisk\<rparr> ?c ?t None"
    by (rule high_risk_unapproved) (simp_all add: read_only_def agent_can_def permission_covers_def)
  then show ?thesis by blast
qed

section \<open>The output of a tool\<close>

definition json_get :: "string \<Rightarrow> json \<Rightarrow> json option" where
  "json_get k j = (case j of JObj kvs \<Rightarrow> map_of kvs k | _ \<Rightarrow> None)"

text \<open>\<open>is_i64 || is_u64\<close>: an integer of one of the two widths.\<close>

fun has_kind :: "string \<Rightarrow> json \<Rightarrow> bool" where
  "has_kind k (JStr s) \<longleftrightarrow> k = ''string''"
| "has_kind k (JNum n) \<longleftrightarrow> k = ''number'' \<or> (k = ''integer'' \<and> - (2 ^ 63) \<le> n \<and> n < 2 ^ 64)"
| "has_kind k (JFloat x) \<longleftrightarrow> k = ''number''"
| "has_kind k (JBool b) \<longleftrightarrow> k = ''boolean''"
| "has_kind k (JObj kvs) \<longleftrightarrow> k = ''object''"
| "has_kind k (JArr js) \<longleftrightarrow> k = ''array''"
| "has_kind k JNull \<longleftrightarrow> False"

definition kind_ok :: "json \<Rightarrow> json \<Rightarrow> bool" where
  "kind_ok expected v = (case expected of JStr k \<Rightarrow> has_kind k v | _ \<Rightarrow> False)"

text \<open>
  The texts quote the field; \<open>show_json\<close> is the serialisation of \<open>serde_json\<close>. The
  fields of an object are listed in the order of the map.
\<close>

definition field_error :: "(json \<Rightarrow> string) \<Rightarrow> (string \<times> json) list \<Rightarrow> string \<times> json \<Rightarrow> string option" where
  "field_error show_json kvs f =
     (case map_of kvs (fst f) of
        None \<Rightarrow> Some (''missing required field '' @ quoted (fst f))
      | Some v \<Rightarrow> if kind_ok (snd f) v then None
          else Some (''field '' @ quoted (fst f) @ '' has wrong kind (expected '' @ quoted (show_json (snd f)) @ '')''))"

definition extra_error :: "(string \<times> json) list \<Rightarrow> string \<Rightarrow> string option" where
  "extra_error fs k =
     (if map_of fs k = None then Some (''unexpected field '' @ quoted k @ '' -- output must match the schema'')
      else None)"

definition first_some :: "('a \<Rightarrow> 'b option) \<Rightarrow> 'a list \<Rightarrow> 'b option" where
  "first_some f xs = (case filter (\<lambda>x. f x \<noteq> None) xs of [] \<Rightarrow> None | x # _ \<Rightarrow> f x)"

definition validate_output :: "(json \<Rightarrow> string) \<Rightarrow> json \<Rightarrow> json \<Rightarrow> string + unit" where
  "validate_output show_json j schema =
     (case schema of
        JObj fs \<Rightarrow>
          (case j of
             JObj kvs \<Rightarrow>
               (case first_some (field_error show_json kvs) fs of
                  Some e \<Rightarrow> Inl e
                | None \<Rightarrow> (case first_some (extra_error fs) (map fst kvs) of Some e \<Rightarrow> Inl e | None \<Rightarrow> Inr ()))
           | _ \<Rightarrow> Inl ''output must be a JSON object'')
      | _ \<Rightarrow> Inr ())"

lemma first_some_None: "first_some f xs = None \<longleftrightarrow> (\<forall>x \<in> set xs. f x = None)"
proof (cases "filter (\<lambda>x. f x \<noteq> None) xs")
  case Nil
  then show ?thesis by (simp add: first_some_def filter_empty_conv)
next
  case (Cons x ys)
  then have "x \<in> set xs" "f x \<noteq> None" using set_filter [of "\<lambda>x. f x \<noteq> None" xs] by auto
  with Cons show ?thesis by (auto simp: first_some_def)
qed

text \<open>The schema as a contract: exactly the declared fields, each of its declared kind.\<close>

definition conforms :: "(string \<times> json) list \<Rightarrow> (string \<times> json) list \<Rightarrow> bool" where
  "conforms fs kvs \<longleftrightarrow> fst ` set kvs = fst ` set fs
     \<and> (\<forall>(k, e) \<in> set fs. \<exists>v. map_of kvs k = Some v \<and> kind_ok e v)"

lemma validate_output_exact:
  "validate_output show_json (JObj kvs) (JObj fs) = Inr () \<longleftrightarrow> conforms fs kvs"
proof -
  have fields: "(\<forall>f \<in> set fs. field_error show_json kvs f = None) \<longleftrightarrow>
      (\<forall>(k, e) \<in> set fs. \<exists>v. map_of kvs k = Some v \<and> kind_ok e v)"
    unfolding field_error_def
    by (rule ball_cong [OF refl]) (simp add: case_prod_unfold split: option.split)
  have extras: "(\<forall>k \<in> fst ` set kvs. extra_error fs k = None) \<longleftrightarrow> fst ` set kvs \<subseteq> fst ` set fs"
    by (auto simp: extra_error_def map_of_eq_None_iff subset_iff split: if_splits)
  have present: "fst ` set fs \<subseteq> fst ` set kvs"
    if "\<forall>(k, e) \<in> set fs. \<exists>v. map_of kvs k = Some v \<and> kind_ok e v"
    using that by (force dest: map_of_SomeD)
  have "validate_output show_json (JObj kvs) (JObj fs) = Inr () \<longleftrightarrow>
      first_some (field_error show_json kvs) fs = None \<and> first_some (extra_error fs) (map fst kvs) = None"
    by (simp add: validate_output_def split: option.split)
  also have "\<dots> \<longleftrightarrow>
      (\<forall>f \<in> set fs. field_error show_json kvs f = None) \<and> (\<forall>k \<in> fst ` set kvs. extra_error fs k = None)"
    by (simp add: first_some_None)
  finally show ?thesis unfolding conforms_def fields extras using present by blast
qed

section \<open>The bounded map\<close>

record 'v bounded_map =
  bm_entries :: "(string, 'v) hmap"
  bm_order :: "string list"
  bm_capacity :: nat

definition bm_new :: "nat \<Rightarrow> 'v bounded_map" where
  "bm_new n = \<lparr>bm_entries = [], bm_order = [], bm_capacity = max n 1\<rparr>"

definition bm_get :: "'v bounded_map \<Rightarrow> string \<Rightarrow> 'v option" where
  "bm_get m k = hm_get (bm_entries m) k"

fun bm_evict :: "nat \<Rightarrow> string list \<Rightarrow> (string, 'v) hmap \<Rightarrow> string list \<times> (string, 'v) hmap" where
  "bm_evict n [] es = ([], es)"
| "bm_evict n (k # ks) es = (if n < length (k # ks) then bm_evict n ks (hm_remove k es) else (k # ks, es))"

definition bm_insert :: "string \<Rightarrow> 'v \<Rightarrow> 'v bounded_map \<Rightarrow> 'v bounded_map" where
  "bm_insert k v m =
     (if hm_get (bm_entries m) k \<noteq> None then m\<lparr>bm_entries := hm_insert k v (bm_entries m)\<rparr>
      else case bm_evict (bm_capacity m) (bm_order m @ [k]) (hm_insert k v (bm_entries m)) of
        (ks, es) \<Rightarrow> m\<lparr>bm_order := ks, bm_entries := es\<rparr>)"

definition bm_remove :: "string \<Rightarrow> 'v bounded_map \<Rightarrow> 'v bounded_map" where
  "bm_remove k m = m\<lparr>bm_entries := hm_remove k (bm_entries m), bm_order := filter (\<lambda>k'. k' \<noteq> k) (bm_order m)\<rparr>"

definition bm_len :: "'v bounded_map \<Rightarrow> nat" where
  "bm_len m = length (bm_entries m)"

text \<open>
  The order lists each cached key once and the cache never outgrows its capacity. An eviction
  takes the key that was inserted first; a key that is written again keeps its place.
\<close>

definition bm_wf :: "'v bounded_map \<Rightarrow> bool" where
  "bm_wf m \<longleftrightarrow> hm_wf (bm_entries m) \<and> distinct (bm_order m)
     \<and> (\<forall>k. bm_get m k \<noteq> None \<longleftrightarrow> k \<in> set (bm_order m)) \<and> length (bm_order m) \<le> bm_capacity m"

lemma bm_wf_len: "bm_wf m \<Longrightarrow> bm_len m = length (bm_order m) \<and> bm_len m \<le> bm_capacity m"
proof -
  assume wf: "bm_wf m"
  have "set (map fst (bm_entries m)) = set (bm_order m)"
    using wf by (auto simp: bm_wf_def bm_get_def hm_get_def map_of_eq_None_iff)
  moreover have "distinct (map fst (bm_entries m))" "distinct (bm_order m)"
    using wf by (simp_all add: bm_wf_def hm_wf_def)
  ultimately have "length (map fst (bm_entries m)) = length (bm_order m)"
    by (metis distinct_card)
  with wf show ?thesis by (simp add: bm_len_def bm_wf_def)
qed

lemma bm_evict_drop:
  "bm_evict n ks es = (drop (length ks - n) ks, fold hm_remove (take (length ks - n) ks) es)"
  by (induction n ks es rule: bm_evict.induct) (auto simp: Suc_diff_le not_less)

lemma fold_remove_get: "hm_get (fold hm_remove ks es) k = (if k \<in> set ks then None else hm_get es k)"
  by (induction ks arbitrary: es) auto

lemma fold_remove_wf: "hm_wf es \<Longrightarrow> hm_wf (fold hm_remove ks es)"
  by (induction ks arbitrary: es) auto

lemma bm_wf_new: "bm_wf (bm_new n)"
  by (simp add: bm_wf_def bm_new_def bm_get_def)

lemma bm_wf_insert:
  assumes "bm_wf m"
  shows "bm_wf (bm_insert k v m)"
proof (cases "hm_get (bm_entries m) k")
  case (Some w)
  with assms show ?thesis by (auto simp: bm_wf_def bm_insert_def bm_get_def)
next
  case None
  let ?ks = "bm_order m @ [k]" and ?d = "Suc (length (bm_order m)) - bm_capacity m"
  have fresh: "k \<notin> set (bm_order m)"
    using assms None unfolding bm_wf_def bm_get_def by metis
  have order: "distinct ?ks" "\<And>k'. hm_get (bm_entries m) k' \<noteq> None \<longleftrightarrow> k' \<in> set (bm_order m)"
    using assms fresh by (auto simp: bm_wf_def bm_get_def)
  have split: "set ?ks = set (take ?d ?ks) \<union> set (drop ?d ?ks)"
      "set (take ?d ?ks) \<inter> set (drop ?d ?ks) = {}"
    using order(1) by (metis append_take_drop_id set_append, metis append_take_drop_id distinct_append)
  define ks es where "ks = drop ?d ?ks" and "es = fold hm_remove (take ?d ?ks) (hm_insert k v (bm_entries m))"
  have new: "bm_insert k v m = m\<lparr>bm_order := ks, bm_entries := es\<rparr>"
    using None by (simp add: bm_insert_def bm_evict_drop ks_def es_def)
  have "hm_get es k' \<noteq> None \<longleftrightarrow> k' \<in> set ks" for k'
  proof -
    have "hm_get es k' \<noteq> None \<longleftrightarrow> k' \<notin> set (take ?d ?ks) \<and> k' \<in> set ?ks"
      unfolding es_def using order(2) [of k'] by (auto simp: fold_remove_get)
    with split show ?thesis unfolding ks_def by blast
  qed
  moreover have "hm_wf es"
    unfolding es_def using assms by (auto simp: bm_wf_def intro!: fold_remove_wf)
  moreover have "distinct ks" "length ks \<le> bm_capacity m"
    unfolding ks_def using order(1) by (rule distinct_drop, simp)
  ultimately show ?thesis unfolding new bm_wf_def bm_get_def by simp
qed

lemma bm_wf_remove: "bm_wf m \<Longrightarrow> bm_wf (bm_remove k m)"
  by (auto simp: bm_wf_def bm_remove_def bm_get_def intro: le_trans [OF length_filter_le])

text \<open>The key just written is in the cache, whatever was evicted.\<close>

lemma bm_get_insert_same:
  assumes "bm_wf m" and "1 \<le> bm_capacity m"
  shows "bm_get (bm_insert k v m) k = Some v"
proof (cases "hm_get (bm_entries m) k")
  case None
  have "k \<notin> set (bm_order m)"
    using assms None unfolding bm_wf_def bm_get_def by metis
  then have "k \<notin> set (take (Suc (length (bm_order m)) - bm_capacity m) (bm_order m @ [k]))"
    using assms(2) by (auto dest: in_set_takeD)
  with None show ?thesis by (simp add: bm_get_def bm_insert_def bm_evict_drop fold_remove_get)
qed (simp add: bm_get_def bm_insert_def)

end
