(* ===== verification/Command_Journal.thy ===== *)
theory Command_Journal
  imports Tool_Policy Idempotency
begin

text \<open>
  The journal of agent commands (\<open>sensei-services/src/ai/command_journal.rs\<close>, the contract in
  \<open>sensei-agent-core/src/journal.rs\<close>) and the executor that uses it (\<open>tools.rs\<close>):
  the rows of \<open>command_journal\<close> with their leases and fencing tokens, one function per
  statement, and the calls of any number of processes interleaved statement by statement. The
  handler of a tool is what it returns. Long dashes of messages are written as two hyphens.
\<close>

section \<open>The journal\<close>

record command_row =
  cj_tenant :: uuid
  cj_key :: string
  cj_tool :: string
  cj_status :: string
  cj_result :: json
  cj_owner :: "string option"
  cj_token :: "string option"
  cj_lease :: "timestamp option"
  cj_heartbeat :: "timestamp option"
  cj_claimed :: "timestamp option"
  cj_attempt :: int

datatype reservation_outcome = Fresh string | Already_Exists

text \<open>\<open>WHERE tenant_id = $1 AND execution_key = $2\<close>, and an \<open>UPDATE\<close> of that row.\<close>

definition command_at :: "uuid \<times> string \<Rightarrow> command_row list \<Rightarrow> command_row option" where
  "command_at tk rows = find (\<lambda>r. (cj_tenant r, cj_key r) = tk) rows"

definition update_claim ::
    "uuid \<times> string \<Rightarrow> (command_row \<Rightarrow> bool) \<Rightarrow> (command_row \<Rightarrow> command_row) \<Rightarrow> command_row list \<Rightarrow> bool \<times> command_row list" where
  "update_claim tk P f rows =
     (list_ex (\<lambda>r. (cj_tenant r, cj_key r) = tk \<and> P r) rows,
      map (\<lambda>r. if (cj_tenant r, cj_key r) = tk \<and> P r then f r else r) rows)"

text \<open>\<open>make_interval(secs)\<close> in microseconds.\<close>

definition lease_end :: "timestamp \<Rightarrow> int \<Rightarrow> timestamp" where
  "lease_end now secs = now + secs * 1000000"

definition reserve_key ::
    "timestamp \<Rightarrow> string \<Rightarrow> string \<Rightarrow> int \<Rightarrow> uuid \<times> string \<Rightarrow> string \<Rightarrow> command_row list \<Rightarrow> reservation_outcome \<times> command_row list" where
  "reserve_key now token owner secs tk tool rows =
     (if command_at tk rows \<noteq> None then (Already_Exists, rows)
      else (Fresh token, rows @
        [\<lparr>cj_tenant = fst tk, cj_key = snd tk, cj_tool = tool, cj_status = ''reserved'', cj_result = JObj [],
          cj_owner = Some owner, cj_token = Some token, cj_lease = Some (lease_end now secs),
          cj_heartbeat = Some now, cj_claimed = Some now, cj_attempt = 1\<rparr>]))"

definition begin_dispatch ::
    "timestamp \<Rightarrow> uuid \<times> string \<Rightarrow> string \<Rightarrow> command_row list \<Rightarrow> bool \<times> command_row list" where
  "begin_dispatch now tk token rows = update_claim tk
     (\<lambda>r. cj_token r = Some token \<and> cj_status r = ''reserved'' \<and> is_none_or (cj_lease r) (\<lambda>u. now < u))
     (\<lambda>r. r\<lparr>cj_status := ''dispatching'', cj_heartbeat := Some now\<rparr>) rows"

definition load_command :: "uuid \<times> string \<Rightarrow> command_row list \<Rightarrow> (string \<times> json) option" where
  "load_command tk rows = map_option (\<lambda>r. (cj_status r, cj_result r)) (command_at tk rows)"

text \<open>A comparison or a difference with a NULL is NULL.\<close>

definition heartbeat :: "timestamp \<Rightarrow> uuid \<times> string \<Rightarrow> string \<Rightarrow> command_row list \<Rightarrow> bool \<times> command_row list" where
  "heartbeat now tk token rows = update_claim tk
     (\<lambda>r. cj_token r = Some token \<and> cj_status r \<in> {''reserved'', ''dispatching'', ''executing''}
        \<and> is_some_and (cj_lease r) (\<lambda>u. now \<le> u))
     (\<lambda>r. r\<lparr>cj_lease := (case (cj_lease r, cj_heartbeat r) of (Some u, Some b) \<Rightarrow> Some (now + (u - b)) | _ \<Rightarrow> None),
        cj_heartbeat := Some now\<rparr>) rows"

definition reconcile_note :: json where
  "reconcile_note = JObj [(''error'', JStr (''lease expired while the command was dispatching/'' @
     ''executing -- the mutation may have happened; automatic '' @
     ''re-dispatch is blocked, reconcile the row before retrying''))]"

definition recover_key ::
    "timestamp \<Rightarrow> string \<Rightarrow> string \<Rightarrow> int \<Rightarrow> uuid \<times> string \<Rightarrow> command_row list \<Rightarrow> string option \<times> command_row list" where
  "recover_key now token owner secs tk rows =
     (case update_claim tk (\<lambda>r. cj_status r = ''reserved'' \<and> is_none_or (cj_lease r) (\<lambda>u. u < now))
         (\<lambda>r. r\<lparr>cj_status := ''reserved'', cj_owner := Some owner, cj_token := Some token,
            cj_lease := Some (lease_end now secs), cj_heartbeat := Some now, cj_claimed := Some now,
            cj_attempt := cj_attempt r + 1, cj_result := JObj []\<rparr>) rows of
        (True, rows) \<Rightarrow> (Some token, rows)
      | (False, rows) \<Rightarrow>
          (None, snd (update_claim tk (\<lambda>r. cj_status r \<in> {''dispatching'', ''executing''}
                \<and> is_none_or (cj_lease r) (\<lambda>u. u < now))
              (\<lambda>r. r\<lparr>cj_status := ''reconcile_required'', cj_result := reconcile_note, cj_owner := None,
                 cj_token := None, cj_lease := None, cj_heartbeat := None\<rparr>) rows)))"

text \<open>A fenced owner is told so by the text of a \<open>SenseiError::Database\<close>.\<close>

definition fenced_text :: string where
  "fenced_text = ''Database error: command journal complete failed: claim_token mismatch '' @
     ''(stale owner fenced -- the claim was recovered or completed)''"

definition complete_command ::
    "uuid \<times> string \<Rightarrow> string \<Rightarrow> string \<Rightarrow> json \<Rightarrow> command_row list \<Rightarrow> (string + unit) \<times> command_row list" where
  "complete_command tk token status result rows =
     (case update_claim tk (\<lambda>r. cj_token r = Some token)
         (\<lambda>r. r\<lparr>cj_status := status, cj_result := result, cj_owner := None, cj_token := None,
            cj_lease := None, cj_heartbeat := None\<rparr>) rows of
        (updated, rows) \<Rightarrow> (if updated then Inr () else Inl fenced_text, rows))"

section \<open>The executor\<close>

datatype tool_error =
    Te_NotPermitted string
  | Te_Dispatch string string
  | Te_Timeout string nat
  | Te_OutputValidation string string
  | Te_Conflict string string

fun tool_error_text :: "tool_error \<Rightarrow> string" where
  "tool_error_text (Te_NotPermitted t) = ''Tool '' @ quoted t @ '' is not permitted for this caller''"
| "tool_error_text (Te_Dispatch t m) = ''Tool '' @ quoted t @ '' dispatch failed: '' @ m"
| "tool_error_text (Te_Timeout t ms) = ''Tool '' @ quoted t @ '' exceeded its '' @ show_nat ms @ ''ms timeout''"
| "tool_error_text (Te_OutputValidation t m) = ''Tool '' @ quoted t @ '' output failed validation: '' @ m"
| "tool_error_text (Te_Conflict t m) = ''Tool '' @ quoted t @ '' is already executing: '' @ m"

text \<open>A call: who makes it, under which policy and approval, the tool and the execution key.\<close>

record command =
  cm_ctx :: agent_context
  cm_policy :: policy_engine
  cm_approval :: "approval_artifact option"
  cm_tool :: tool_spec
  cm_exec :: string
  cm_owner :: string

definition command_key :: "command \<Rightarrow> uuid \<times> string" where
  "command_key c = (ac_tenant (cm_ctx c), cm_exec c)"

definition journaled :: "tool_spec \<Rightarrow> bool" where
  "journaled t \<longleftrightarrow> ts_idempotent t \<and> ts_risk t \<noteq> ReadOnly"

definition lease_seconds :: "tool_spec \<Rightarrow> int" where
  "lease_seconds t = 300 + int (ts_timeout_ms t div 1000)"

definition permitted :: "command \<Rightarrow> bool" where
  "permitted c \<longleftrightarrow> can_execute (cm_policy c) (cm_ctx c) (cm_tool c) (cm_approval c)"

text \<open>What a dispatch comes back with: a value, an error, or nothing before its timeout.\<close>

datatype dispatch_result = Returned json | Failed_With tool_error | Elapsed

definition is_timeout :: "tool_error \<Rightarrow> bool" where
  "is_timeout e = (case e of Te_Timeout t ms \<Rightarrow> True | _ \<Rightarrow> False)"

definition error_result :: "tool_error \<Rightarrow> json" where
  "error_result e = JObj [(''error'', JStr (tool_error_text e))]"

text \<open>The status and result that are recorded for a dispatch, and the answer of its call.\<close>

definition verdict :: "(json \<Rightarrow> string) \<Rightarrow> tool_spec \<Rightarrow> dispatch_result \<Rightarrow> string \<times> json \<times> (tool_error + json)" where
  "verdict show_json t d =
     (case d of
        Elapsed \<Rightarrow> let e = Te_Timeout (ts_name t) (ts_timeout_ms t) in (''unknown_outcome'', error_result e, Inl e)
      | Failed_With e \<Rightarrow> (if is_timeout e then ''unknown_outcome'' else ''failed'', error_result e, Inl e)
      | Returned v \<Rightarrow>
          (case validate_output show_json v (ts_output t) of
             Inl m \<Rightarrow> let e = Te_OutputValidation (ts_name t) m in (''failed'', error_result e, Inl e)
           | Inr _ \<Rightarrow> (''succeeded'', v, Inr v)))"

text \<open>The error when the record of a dispatch is refused with a message.\<close>

definition unrecorded :: "(json \<Rightarrow> string) \<Rightarrow> tool_spec \<Rightarrow> dispatch_result \<Rightarrow> string \<Rightarrow> tool_error" where
  "unrecorded show_json t d m =
     (let blocked = ''; automatic re-dispatch is blocked, reconcile the row before retrying'';
          ambiguous = ''ambiguous outcome -- the command journal failed to record ''
      in case d of
        Elapsed \<Rightarrow> Te_Conflict (ts_name t) (ambiguous @ quoted ''unknown_outcome'' @ '' after a timeout: '' @ m @ blocked)
      | Failed_With e \<Rightarrow> Te_Conflict (ts_name t) (ambiguous @ quoted (if is_timeout e then ''unknown_outcome'' else ''failed'')
          @ '' after a dispatch error ('' @ tool_error_text e @ ''): '' @ m @ blocked)
      | Returned v \<Rightarrow>
          (case validate_output show_json v (ts_output t) of
             Inl msg \<Rightarrow> Te_Conflict (ts_name t) (ambiguous @ quoted ''failed''
               @ '' after an output-validation failure ('' @ msg @ ''): '' @ m @ blocked)
           | Inr _ \<Rightarrow> Te_Dispatch (ts_name t) (''command journal complete failed: '' @ m)))"

text \<open>
  Where a call stands between two statements: before its policy check; before the reservation,
  the load, the recovery, the gate; past the gate with the handler still to be invoked; in the
  handler; before the record of the outcome; answered; or gone with its process. A call of a
  tool that is not journaled leaves this path.
\<close>

datatype call_phase =
    Not_Entered
  | Unjournaled
  | Reserving
  | Loading
  | Recovering
  | Gating string
  | Cleared string
  | In_Handler string
  | Recording string dispatch_result
  | Replied "tool_error + json"
  | Crashed

definition enter_call :: "command \<Rightarrow> call_phase" where
  "enter_call c = (if \<not> permitted c then Replied (Inl (Te_NotPermitted (ts_name (cm_tool c))))
     else if journaled (cm_tool c) then Reserving else Unjournaled)"

definition ambiguous_text :: string where
  "ambiguous_text = ''ambiguous outcome -- requires reconciliation; automatic re-dispatch is blocked''"

definition after_load :: "string \<Rightarrow> (string \<times> json) option \<Rightarrow> call_phase" where
  "after_load t found =
     (case found of
        None \<Rightarrow> Replied (Inl (Te_Dispatch t ''command journal inconsistency: key exists but no row''))
      | Some (status, result) \<Rightarrow>
          if status = ''succeeded'' then Replied (Inr result)
          else if status = ''failed'' then Replied (Inl (Te_Dispatch t
            (case json_get ''error'' result of Some (JStr m) \<Rightarrow> m | _ \<Rightarrow> ''command previously failed'')))
          else if status \<in> {''unknown_outcome'', ''reconcile_required''} then Replied (Inl (Te_Conflict t ambiguous_text))
          else Recovering)"

definition gate_text :: string where
  "gate_text = ''cannot begin dispatch -- the claim is no longer '' @ quoted ''reserved'' @
     '' under this token (stale claim or expired lease); automatic re-dispatch '' @
     ''is blocked, reconcile the row before retrying''"

text \<open>The next statement of a call; \<open>token\<close> is the random token drawn for it.\<close>

fun call_statement ::
    "(json \<Rightarrow> string) \<Rightarrow> timestamp \<Rightarrow> string \<Rightarrow> command \<Rightarrow> call_phase \<Rightarrow> command_row list \<Rightarrow> call_phase \<times> command_row list" where
  "call_statement show_json now token c Reserving rows =
     (case reserve_key now token (cm_owner c) (lease_seconds (cm_tool c)) (command_key c) (ts_name (cm_tool c)) rows of
        (Fresh claim, rows) \<Rightarrow> (Gating claim, rows)
      | (Already_Exists, rows) \<Rightarrow> (Loading, rows))"
| "call_statement show_json now token c Loading rows =
     (after_load (ts_name (cm_tool c)) (load_command (command_key c) rows), rows)"
| "call_statement show_json now token c Recovering rows =
     (case recover_key now token (cm_owner c) (lease_seconds (cm_tool c)) (command_key c) rows of
        (Some claim, rows) \<Rightarrow> (Gating claim, rows)
      | (None, rows) \<Rightarrow> (Replied (Inl (Te_Conflict (ts_name (cm_tool c))
          ''command already in progress (lease held by another worker)'')), rows))"
| "call_statement show_json now token c (Gating claim) rows =
     (case begin_dispatch now (command_key c) claim rows of
        (began, rows) \<Rightarrow> (if began then Cleared claim else Replied (Inl (Te_Conflict (ts_name (cm_tool c)) gate_text)), rows))"
| "call_statement show_json now token c (Recording claim d) rows =
     (case verdict show_json (cm_tool c) d of
        (status, result, answer) \<Rightarrow>
          (case complete_command (command_key c) claim status result rows of
             (Inr _, rows) \<Rightarrow> (Replied answer, rows)
           | (Inl m, rows) \<Rightarrow> (Replied (Inl (unrecorded show_json (cm_tool c) d m)), rows)))"
| "call_statement show_json now token c p rows = (p, rows)"

text \<open>What a call becomes when its statement comes back as an error.\<close>

fun statement_failed :: "(json \<Rightarrow> string) \<Rightarrow> string \<Rightarrow> command \<Rightarrow> call_phase \<Rightarrow> call_phase" where
  "statement_failed show_json m c Reserving = Replied (Inl (Te_Dispatch (ts_name (cm_tool c)) (''command journal reserve failed: '' @ m)))"
| "statement_failed show_json m c Loading = Replied (Inl (Te_Dispatch (ts_name (cm_tool c)) (''command journal load failed: '' @ m)))"
| "statement_failed show_json m c Recovering = Replied (Inl (Te_Dispatch (ts_name (cm_tool c)) (''command journal recover failed: '' @ m)))"
| "statement_failed show_json m c (Gating claim) = Replied (Inl (Te_Dispatch (ts_name (cm_tool c)) (''command journal begin_dispatch failed: '' @ m)))"
| "statement_failed show_json m c (Recording claim d) = Replied (Inl (unrecorded show_json (cm_tool c) d m))"
| "statement_failed show_json m c p = p"

text \<open>
  Without a journal, or for a tool that is not journaled: the dispatch runs unless the cache of
  the executor answers; the flag tells whether it ran.
\<close>

definition execute_direct ::
    "(json \<Rightarrow> string) \<Rightarrow> command \<Rightarrow> dispatch_result \<Rightarrow> json bounded_map \<Rightarrow> (tool_error + json) \<times> json bounded_map \<times> bool" where
  "execute_direct show_json c d cache =
     (let t = cm_tool c in
      if \<not> permitted c then (Inl (Te_NotPermitted (ts_name t)), cache, False)
      else case (if journaled t then bm_get cache (cm_exec c) else None) of
        Some v \<Rightarrow> (Inr v, cache, False)
      | None \<Rightarrow>
          (case d of
             Elapsed \<Rightarrow> (Inl (Te_Timeout (ts_name t) (ts_timeout_ms t)), cache, True)
           | Failed_With e \<Rightarrow> (Inl e, cache, True)
           | Returned v \<Rightarrow>
               (case validate_output show_json v (ts_output t) of
                  Inl m \<Rightarrow> (Inl (Te_OutputValidation (ts_name t) m), cache, True)
                | Inr _ \<Rightarrow> (Inr v, if journaled t then bm_insert (cm_exec c) v cache else cache, True))))"

section \<open>Processes at work\<close>

text \<open>
  The time of the database, the journal, the calls, the calls whose handler was invoked in
  their order, and what the handlers came back with.
\<close>

record command_system =
  cs_now :: timestamp
  cs_journal :: "command_row list"
  cs_calls :: "nat \<Rightarrow> call_phase"
  cs_runs :: "nat list"
  cs_results :: "(nat \<times> dispatch_result) list"

text \<open>
  A statement runs, fails, or takes effect without its answer (\<open>fate\<close>). The handler of a
  cleared call is invoked and comes back, or never does; a process dies at any point, and any
  holder of a token may renew its lease.
\<close>

inductive command_step :: "(json \<Rightarrow> string) \<Rightarrow> (nat \<Rightarrow> command) \<Rightarrow> command_system \<Rightarrow> command_system \<Rightarrow> bool"
  for show_json cmd where
  tick: "cs_now s \<le> n \<Longrightarrow> command_step show_json cmd s (s\<lparr>cs_now := n\<rparr>)"
| enter: "cs_calls s c = Not_Entered \<Longrightarrow>
    command_step show_json cmd s (s\<lparr>cs_calls := (cs_calls s)(c := enter_call (cmd c))\<rparr>)"
| statement: "call_statement show_json (cs_now s) token (cmd c) (cs_calls s c) (cs_journal s) = (p, rows) \<Longrightarrow>
    command_step show_json cmd s (s\<lparr>cs_journal := (if fate = Failed then cs_journal s else rows),
      cs_calls := (cs_calls s)(c := (if fate = Ran then p else statement_failed show_json m (cmd c) (cs_calls s c)))\<rparr>)"
| invoke: "cs_calls s c = Cleared token \<Longrightarrow>
    command_step show_json cmd s (s\<lparr>cs_calls := (cs_calls s)(c := In_Handler token), cs_runs := cs_runs s @ [c]\<rparr>)"
| return: "cs_calls s c = In_Handler token \<Longrightarrow>
    command_step show_json cmd s (s\<lparr>cs_calls := (cs_calls s)(c := Recording token d),
      cs_results := cs_results s @ [(c, d)]\<rparr>)"
| beat: "heartbeat (cs_now s) tk token (cs_journal s) = (b, rows) \<Longrightarrow>
    command_step show_json cmd s (s\<lparr>cs_journal := rows\<rparr>)"
| crash: "command_step show_json cmd s (s\<lparr>cs_calls := (cs_calls s)(c := Crashed)\<rparr>)"

definition command_start :: "timestamp \<Rightarrow> command_system" where
  "command_start now = \<lparr>cs_now = now, cs_journal = [], cs_calls = (\<lambda>_. Not_Entered), cs_runs = [], cs_results = []\<rparr>"


section \<open>What a statement does to the row of its key\<close>

abbreviation journal_ok :: "command_row list \<Rightarrow> bool" where
  "journal_ok rows \<equiv> distinct (map (\<lambda>r. (cj_tenant r, cj_key r)) rows)"

lemma command_at_key: "command_at tk rows = Some r \<Longrightarrow> (cj_tenant r, cj_key r) = tk \<and> r \<in> set rows"
  by (auto simp: command_at_def find_Some_iff)

lemma command_at_iff:
  "journal_ok rows \<Longrightarrow> command_at tk rows = Some r \<longleftrightarrow> (cj_tenant r, cj_key r) = tk \<and> r \<in> set rows"
  unfolding command_at_def by (induction rows) force+

text \<open>An update changes the row of its key, if it is there and meets the condition, and nothing else.\<close>

lemma update_claim_cases [consumes 2, case_names keeps hit miss]:
  assumes upd: "update_claim tk P f rows = (b, rows')" and ok: "journal_ok rows"
    and keeps: "\<And>r. cj_tenant (f r) = cj_tenant r \<and> cj_key (f r) = cj_key r"
  obtains (hit) r where "b" "command_at tk rows = Some r" "P r" "command_at tk rows' = Some (f r)" "journal_ok rows'"
      "\<And>tk'. tk' \<noteq> tk \<Longrightarrow> command_at tk' rows' = command_at tk' rows"
  | (miss) "\<not> b" "rows' = rows" "\<And>r. command_at tk rows = Some r \<Longrightarrow> \<not> P r"
proof -
  have b: "b \<longleftrightarrow> list_ex (\<lambda>r. (cj_tenant r, cj_key r) = tk \<and> P r) rows"
    and rows': "rows' = map (\<lambda>r. if (cj_tenant r, cj_key r) = tk \<and> P r then f r else r) rows"
    using upd by (auto simp: update_claim_def)
  show ?thesis
  proof (cases b)
    case True
    then obtain r where r: "command_at tk rows = Some r" "P r"
      unfolding b list_ex_iff command_at_iff [OF ok] by blast
    have "map (\<lambda>r. (cj_tenant r, cj_key r)) rows' = map (\<lambda>r. (cj_tenant r, cj_key r)) rows"
      unfolding rows' using keeps by simp
    then have ok': "journal_ok rows'" using ok by simp
    moreover have "command_at tk' rows' =
        (if tk' = tk then map_option (\<lambda>r. if P r then f r else r) (command_at tk rows) else command_at tk' rows)" for tk'
      unfolding rows' command_at_def using keeps by (induction rows) auto
    ultimately show ?thesis using True r hit [of r] by simp
  next
    case False
    have "rows' = rows" unfolding rows' using False b by (auto simp: list_ex_iff intro!: map_idI)
    with False show ?thesis using miss b command_at_key by (auto simp: list_ex_iff)
  qed
qed

text \<open>
  What matters of a row: status, token and result. The moves of a call and of the row of its
  key are a protocol of their own; the statements follow it.
\<close>

type_synonym row_view = "(string \<times> string option \<times> json) option"

definition peek :: "command_row list \<Rightarrow> uuid \<times> string \<Rightarrow> row_view" where
  "peek rows tk = map_option (\<lambda>r. (cj_status r, cj_token r, cj_result r)) (command_at tk rows)"

inductive row_move :: "(json \<Rightarrow> string) \<Rightarrow> command \<Rightarrow> call_phase \<Rightarrow> row_view \<Rightarrow> call_phase \<Rightarrow> row_view \<Rightarrow> bool"
  for show_json c where
  reserved: "row_move show_json c Reserving None (Gating k) (Some (''reserved'', Some k, JObj []))"
| seen: "row_move show_json c Reserving (Some v) Loading (Some v)"
| loaded: "row_move show_json c Loading v (after_load (ts_name (cm_tool c)) (map_option (\<lambda>(st, t, j). (st, j)) v)) v"
| recovered: "row_move show_json c Recovering (Some (''reserved'', t, j)) (Gating k) (Some (''reserved'', Some k, JObj []))"
| fenced: "st \<in> {''dispatching'', ''executing''} \<Longrightarrow>
    row_move show_json c Recovering (Some (st, t, j)) (Replied (Inl e)) (Some (''reconcile_required'', None, reconcile_note))"
| gated: "row_move show_json c (Gating k) (Some (''reserved'', Some k, j)) (Cleared k) (Some (''dispatching'', Some k, j))"
| recorded: "verdict show_json (cm_tool c) d = (st', j', a) \<Longrightarrow>
    row_move show_json c (Recording k d) (Some (st, Some k, j)) (Replied a) (Some (st', None, j'))"
| refused: "p \<in> {Reserving, Loading, Recovering, Gating k, Recording k d} \<Longrightarrow> row_move show_json c p v (Replied (Inl e)) v"
| waiting: "p \<in> {Not_Entered, Unjournaled, Cleared k, In_Handler k, Replied a, Crashed} \<Longrightarrow> row_move show_json c p v p v"

inductive_cases row_moveE: "row_move show_json c p v p' v'"

lemma call_statement_move:
  assumes ok: "journal_ok rows" and step: "call_statement show_json now token c p rows = (p', rows')"
  shows "journal_ok rows' \<and> (\<forall>tk. tk \<noteq> command_key c \<longrightarrow> peek rows' tk = peek rows tk)
    \<and> row_move show_json c p (peek rows (command_key c)) p' (peek rows' (command_key c))"
proof (cases p)
  case Reserving
  let ?tk = "command_key c"
  show ?thesis
  proof (cases "command_at ?tk rows")
    case None
    then have fresh: "?tk \<notin> (\<lambda>r. (cj_tenant r, cj_key r)) ` set rows"
      by (auto simp: command_at_def find_None_iff)
    from None step obtain r where r: "rows' = rows @ [r]" "p' = Gating token" "(cj_tenant r, cj_key r) = ?tk"
        "cj_status r = ''reserved''" "cj_token r = Some token" "cj_result r = JObj []"
      by (auto simp: Reserving reserve_key_def)
    have "journal_ok rows'" using ok fresh r(3) by (auto simp: r(1))
    moreover have "command_at tk rows' = (if tk = ?tk then Some r else command_at tk rows)" for tk
      using None r(3) by (auto simp: r(1) command_at_def find_append split: option.splits)
    ultimately show ?thesis using None r row_move.reserved by (simp add: Reserving peek_def)
  next
    case (Some r)
    with step ok show ?thesis by (auto simp: Reserving reserve_key_def peek_def intro: row_move.seen)
  qed
next
  case Loading
  have "load_command tk rows = map_option (\<lambda>(st, t, j). (st, j)) (peek rows tk)" for tk
    by (simp add: load_command_def peek_def option.map_comp comp_def)
  with step ok show ?thesis by (auto simp: Loading intro: row_move.loaded)
next
  case Recovering
  obtain b rows1 where upd: "update_claim (command_key c) (\<lambda>r. cj_status r = ''reserved'' \<and> is_none_or (cj_lease r) (\<lambda>u. u < now))
      (\<lambda>r. r\<lparr>cj_status := ''reserved'', cj_owner := Some (cm_owner c), cj_token := Some token,
         cj_lease := Some (lease_end now (lease_seconds (cm_tool c))), cj_heartbeat := Some now, cj_claimed := Some now,
         cj_attempt := cj_attempt r + 1, cj_result := JObj []\<rparr>) rows = (b, rows1)" (is "?upd = _")
    by (cases ?upd)
  from upd ok show ?thesis
  proof (cases rule: update_claim_cases)
    case (hit r)
    then show ?thesis using step upd
      by (auto simp: Recovering recover_key_def peek_def intro: row_move.recovered)
  next
    case miss
    obtain b' where upd': "update_claim (command_key c) (\<lambda>r. cj_status r \<in> {''dispatching'', ''executing''}
          \<and> is_none_or (cj_lease r) (\<lambda>u. u < now))
        (\<lambda>r. r\<lparr>cj_status := ''reconcile_required'', cj_result := reconcile_note, cj_owner := None,
           cj_token := None, cj_lease := None, cj_heartbeat := None\<rparr>) rows = (b', rows')" (is "?upd' = _")
        and p': "\<exists>e. p' = Replied (Inl e)"
      using step upd miss(1,2) by (cases ?upd') (auto simp: Recovering recover_key_def)
    from upd' ok show ?thesis
    proof (cases rule: update_claim_cases)
      case (hit r)
      then show ?thesis using p' by (auto simp: Recovering peek_def intro!: row_move.fenced)
    qed (use ok p' in \<open>auto simp: Recovering intro!: row_move.refused\<close>)
  qed auto
next
  case (Gating k)
  obtain b where upd: "update_claim (command_key c)
      (\<lambda>r. cj_token r = Some k \<and> cj_status r = ''reserved'' \<and> is_none_or (cj_lease r) (\<lambda>u. now < u))
      (\<lambda>r. r\<lparr>cj_status := ''dispatching'', cj_heartbeat := Some now\<rparr>) rows = (b, rows')"
      and p': "p' = (if b then Cleared k else Replied (Inl (Te_Conflict (ts_name (cm_tool c)) gate_text)))"
    using step by (auto simp: Gating begin_dispatch_def split: prod.splits)
  from upd ok show ?thesis
  proof (cases rule: update_claim_cases)
    case (hit r)
    then show ?thesis using p' by (auto simp: Gating peek_def intro: row_move.gated)
  qed (use ok p' in \<open>auto simp: Gating intro!: row_move.refused\<close>)
next
  case (Recording k d)
  obtain st j a where v: "verdict show_json (cm_tool c) d = (st, j, a)" by (rule prod_cases3)
  obtain b where upd: "update_claim (command_key c) (\<lambda>r. cj_token r = Some k)
      (\<lambda>r. r\<lparr>cj_status := st, cj_result := j, cj_owner := None, cj_token := None,
         cj_lease := None, cj_heartbeat := None\<rparr>) rows = (b, rows')"
      and p': "p' = (if b then Replied a else Replied (Inl (unrecorded show_json (cm_tool c) d fenced_text)))"
    using step by (auto simp: Recording v complete_command_def split: prod.splits if_splits)
  from upd ok show ?thesis
  proof (cases rule: update_claim_cases)
    case (hit r)
    then show ?thesis using p' v by (auto simp: Recording peek_def intro!: row_move.recorded)
  qed (use ok p' in \<open>auto simp: Recording intro!: row_move.refused\<close>)
qed (use step ok in \<open>auto intro!: row_move.waiting\<close>)

lemma heartbeat_peek:
  assumes "heartbeat now tk token rows = (b, rows')" and "journal_ok rows"
  shows "journal_ok rows' \<and> peek rows' = peek rows"
  using assms unfolding heartbeat_def
proof (cases rule: update_claim_cases)
  case (hit r)
  have "peek rows' tk' = peek rows tk'" for tk'
    using hit(2,4,6) by (cases "tk' = tk") (simp_all add: peek_def)
  with hit(5) show ?thesis by blast
qed (use assms in auto)

section \<open>One dispatch per command\<close>

lemma verdict_status: "verdict show_json t d = (st, j, a) \<Longrightarrow> st \<in> {''succeeded'', ''failed'', ''unknown_outcome''}"
  by (auto simp: verdict_def Let_def split: dispatch_result.splits sum.splits)

lemma verdict_succeeded:
  "verdict show_json t d = (''succeeded'', j, a) \<Longrightarrow> d = Returned j \<and> validate_output show_json j (ts_output t) = Inr ()"
  by (auto simp: verdict_def Let_def split: dispatch_result.splits sum.splits if_splits)

lemma verdict_answer:
  "verdict show_json t d = (st, j, Inr v) \<Longrightarrow> d = Returned v \<and> validate_output show_json v (ts_output t) = Inr ()"
  by (auto simp: verdict_def Let_def split: dispatch_result.splits sum.splits if_splits)

lemma after_load_cases:
  "(\<exists>r. after_load t found = Replied r) \<or> after_load t found = Recovering"
  "after_load t found = Replied (Inr v) \<Longrightarrow> found = Some (''succeeded'', v)"
  by (auto simp: after_load_def split: option.splits if_splits prod.splits)

text \<open>A call past the gate, and one between its entry and its answer.\<close>

fun past_gate :: "call_phase \<Rightarrow> bool" where
  "past_gate (Cleared k) = True"
| "past_gate (In_Handler k) = True"
| "past_gate (Recording k d) = True"
| "past_gate p = False"

fun under_way :: "call_phase \<Rightarrow> bool" where
  "under_way Not_Entered = False"
| "under_way Unjournaled = False"
| "under_way (Replied a) = False"
| "under_way Crashed = False"
| "under_way p = True"

lemma past_gate_under_way: "past_gate p \<Longrightarrow> under_way p"
  by (cases p) simp_all

text \<open>A move whose answer may get lost.\<close>

definition fated_move :: "(json \<Rightarrow> string) \<Rightarrow> command \<Rightarrow> call_phase \<Rightarrow> row_view \<Rightarrow> call_phase \<Rightarrow> row_view \<Rightarrow> bool" where
  "fated_move show_json c p v p' v' \<longleftrightarrow> row_move show_json c p v p' v'
     \<or> (\<exists>p1 e. row_move show_json c p v p1 v' \<and> p' = Replied (Inl e) \<and> under_way p)"

definition live_status :: "string \<Rightarrow> bool" where
  "live_status st \<longleftrightarrow> st \<in> {''reserved'', ''dispatching'', ''executing''}"

definition past_reserved :: "row_view \<Rightarrow> bool" where
  "past_reserved v \<longleftrightarrow> (\<exists>st t j. v = Some (st, t, j) \<and> st \<noteq> ''reserved'')"

lemma after_load_gate [simp]: "\<not> past_gate (after_load t found)" "after_load t found \<noteq> In_Handler k"
    "after_load t found \<noteq> Recording k d"
  using after_load_cases(1) [of t found] by auto

lemma row_move_kept: "row_move show_json c p v p' v' \<Longrightarrow> past_reserved v \<Longrightarrow> past_reserved v'"
  by (erule row_moveE) (auto simp: past_reserved_def dest: verdict_status)

lemma row_move_gate:
  "row_move show_json c p v p' v' \<Longrightarrow> past_gate p' \<Longrightarrow> (past_gate p \<and> p' = p \<and> v' = v) \<or>
     (\<exists>k. p' = Cleared k \<and> \<not> past_reserved v \<and> past_reserved v')"
  by (erule row_moveE) (auto simp: past_reserved_def)

lemma row_move_under_way: "row_move show_json c p v p' v' \<Longrightarrow> under_way p' \<Longrightarrow> under_way p"
  by (erule row_moveE) auto

lemma fated_move_facts:
  assumes "fated_move show_json c p v p' v'"
  shows "past_reserved v \<Longrightarrow> past_reserved v'"
    "past_gate p' \<Longrightarrow> (past_gate p \<and> p' = p \<and> v' = v) \<or>
       (\<exists>k. p' = Cleared k \<and> \<not> past_reserved v \<and> past_reserved v')"
    "under_way p' \<Longrightarrow> under_way p"
proof -
  show "past_reserved v'" if "past_reserved v"
    using assms that row_move_kept unfolding fated_move_def by blast
  show "(past_gate p \<and> p' = p \<and> v' = v) \<or> (\<exists>k. p' = Cleared k \<and> \<not> past_reserved v \<and> past_reserved v')"
    if "past_gate p'"
    using assms that unfolding fated_move_def by (elim disjE exE conjE) (erule row_move_gate, assumption, simp)
  show "under_way p" if "under_way p'"
    using assms that unfolding fated_move_def by (elim disjE exE conjE) (erule row_move_under_way, assumption)
qed

text \<open>Every statement step of the system is such a move; all others leave the rows as they are.\<close>

lemma statement_fated:
  assumes "journal_ok rows" and "call_statement show_json now token c p rows = (p1, rows1)"
    and "p' = (if fate = Ran then p1 else statement_failed show_json m c p)"
    and "rows' = (if fate = Failed then rows else rows1)"
  shows "journal_ok rows'" "tk \<noteq> command_key c \<Longrightarrow> peek rows' tk = peek rows tk"
    "fated_move show_json c p (peek rows (command_key c)) p' (peek rows' (command_key c))"
proof -
  note move = call_statement_move [OF assms(1,2)]
  show "journal_ok rows'" "tk \<noteq> command_key c \<Longrightarrow> peek rows' tk = peek rows tk"
    using move assms(1,4) by (simp, cases "fate = Failed") (simp_all del: split_paired_All)
  have failed: "(under_way p \<and> (\<exists>e. statement_failed show_json m c p = Replied (Inl e))) \<or>
      (statement_failed show_json m c p = p \<and> (\<exists>k a. p \<in> {Not_Entered, Unjournaled, Cleared k, In_Handler k, Replied a, Crashed}))"
    by (cases p) auto
  have idle: "p1 = p \<and> rows1 = rows" if "p \<in> {Not_Entered, Unjournaled, Cleared k, In_Handler k, Replied a, Crashed}" for k a
    using that assms(2) by auto
  show "fated_move show_json c p (peek rows (command_key c)) p' (peek rows' (command_key c))"
  proof (cases fate)
    case Ran
    with move assms(3,4) show ?thesis by (simp add: fated_move_def)
  next
    case Failed
    then have *: "p' = statement_failed show_json m c p" "rows' = rows" using assms(3,4) by simp_all
    show ?thesis unfolding * fated_move_def
      by (cases p) (auto intro: row_move.waiting row_move.refused)
  next
    case Unanswered
    then have *: "p' = statement_failed show_json m c p" "rows' = rows1" using assms(3,4) by simp_all
    from failed show ?thesis
    proof
      assume "under_way p \<and> (\<exists>e. statement_failed show_json m c p = Replied (Inl e))"
      with move show ?thesis unfolding * fated_move_def by blast
    next
      assume w: "statement_failed show_json m c p = p \<and> (\<exists>k a. p \<in> {Not_Entered, Unjournaled, Cleared k, In_Handler k, Replied a, Crashed})"
      then have "p1 = p \<and> rows1 = rows" using idle by blast
      with move w show ?thesis unfolding * fated_move_def by simp
    qed
  qed
qed

text \<open>
  A call that passed the gate, or whose handler was invoked, has its row past
  \<open>reserved\<close>; and there is one such call per key.
\<close>

definition involved :: "command_system \<Rightarrow> nat \<Rightarrow> bool" where
  "involved s c \<longleftrightarrow> past_gate (cs_calls s c) \<or> c \<in> set (cs_runs s)"

definition exclusive_ok :: "(nat \<Rightarrow> command) \<Rightarrow> command_system \<Rightarrow> bool" where
  "exclusive_ok cmd s \<longleftrightarrow> journal_ok (cs_journal s)
     \<and> (\<forall>c. involved s c \<longrightarrow> past_reserved (peek (cs_journal s) (command_key (cmd c))))
     \<and> (\<forall>c c'. involved s c \<and> involved s c' \<and> command_key (cmd c) = command_key (cmd c') \<longrightarrow> c = c')
     \<and> distinct (cs_runs s) \<and> (\<forall>c k. cs_calls s c = Cleared k \<longrightarrow> c \<notin> set (cs_runs s))
     \<and> (\<forall>c. under_way (cs_calls s c) \<or> c \<in> set (cs_runs s) \<longrightarrow> permitted (cmd c) \<and> journaled (cm_tool (cmd c)))"

lemma exclusive_okD:
  assumes "exclusive_ok cmd s"
  shows "journal_ok (cs_journal s)" "involved s c \<Longrightarrow> past_reserved (peek (cs_journal s) (command_key (cmd c)))"
    "involved s c \<Longrightarrow> involved s c' \<Longrightarrow> command_key (cmd c) = command_key (cmd c') \<Longrightarrow> c = c'"
    "distinct (cs_runs s)" "cs_calls s c = Cleared k \<Longrightarrow> c \<notin> set (cs_runs s)"
    "under_way (cs_calls s c) \<or> c \<in> set (cs_runs s) \<Longrightarrow> permitted (cmd c) \<and> journaled (cm_tool (cmd c))"
  using assms unfolding exclusive_ok_def by blast+

text \<open>Steps that involve nobody new keep it.\<close>

lemma exclusive_shrink:
  assumes ok: "exclusive_ok cmd s" and "journal_ok (cs_journal s')"
    and "\<And>tk. past_reserved (peek (cs_journal s) tk) \<Longrightarrow> past_reserved (peek (cs_journal s') tk)"
    and "\<And>c. involved s' c \<Longrightarrow> involved s c" and "distinct (cs_runs s')"
    and "\<And>c k. cs_calls s' c = Cleared k \<Longrightarrow> c \<notin> set (cs_runs s')"
    and "\<And>c. under_way (cs_calls s' c) \<or> c \<in> set (cs_runs s') \<Longrightarrow> permitted (cmd c) \<and> journaled (cm_tool (cmd c))"
  shows "exclusive_ok cmd s'"
  unfolding exclusive_ok_def
  using assms(2,5,6,7) assms(3) [OF exclusive_okD(2) [OF ok assms(4)]]
    exclusive_okD(3) [OF ok assms(4) assms(4)] by blast

lemma exclusive_step:
  assumes "command_step show_json cmd s s'" and ok: "exclusive_ok cmd s"
  shows "exclusive_ok cmd s'"
  using assms(1)
proof cases
  case (tick n)
  show ?thesis unfolding tick(1)
    by (rule exclusive_shrink [OF ok]) (use exclusive_okD [OF ok] in \<open>auto simp: involved_def\<close>)
next
  case (enter c)
  show ?thesis
  proof (rule exclusive_shrink [OF ok])
    show "permitted (cmd c') \<and> journaled (cm_tool (cmd c'))"
      if "under_way (cs_calls s' c') \<or> c' \<in> set (cs_runs s')" for c'
      using that exclusive_okD(6) [OF ok, of c'] by (auto simp: enter(1) enter_call_def split: if_splits)
    show "involved s c'" if "involved s' c'" for c'
      using that by (auto simp: enter(1) involved_def enter_call_def split: if_splits)
    show "c' \<notin> set (cs_runs s')" if "cs_calls s' c' = Cleared k" for c' k
      using that exclusive_okD(5) [OF ok, of c' k] by (auto simp: enter(1) enter_call_def split: if_splits)
  qed (use exclusive_okD [OF ok] in \<open>auto simp: enter(1)\<close>)
next
  case (statement token c p rows fate m)
  let ?p = "if fate = Ran then p else statement_failed show_json m (cmd c) (cs_calls s c)"
    and ?rows = "if fate = Failed then cs_journal s else rows"
  let ?v = "peek (cs_journal s) (command_key (cmd c))"
  note st = statement_fated [where fate = fate and m = m, OF exclusive_okD(1) [OF ok] statement(2) refl refl]
  note facts = fated_move_facts [OF st(3)]
  have calls: "cs_calls s' c' = (if c' = c then ?p else cs_calls s c')" for c'
    by (simp add: statement(1))
  have rest: "cs_journal s' = ?rows" "cs_runs s' = cs_runs s" by (simp_all add: statement(1))
  have kept: "past_reserved (peek ?rows tk)" if "past_reserved (peek (cs_journal s) tk)" for tk
    using that st(2) [of tk] facts(1) by (cases "tk = command_key (cmd c)") simp_all
  have admitted: "permitted (cmd c') \<and> journaled (cm_tool (cmd c'))"
    if "under_way (cs_calls s' c') \<or> c' \<in> set (cs_runs s')" for c'
  proof (rule exclusive_okD(6) [OF ok])
    show "under_way (cs_calls s c') \<or> c' \<in> set (cs_runs s)"
      using that facts(3) unfolding calls rest by (cases "c' = c") (simp_all only: if_True if_False simp_thms, blast)
  qed
  show ?thesis
  proof (cases "past_gate ?p \<and> \<not> past_reserved ?v")
    case False
    then have same: "?p = cs_calls s c" if "past_gate ?p" using facts(2) that by blast
    show ?thesis
    proof (rule exclusive_shrink [OF ok])
      show "journal_ok (cs_journal s')" unfolding rest by (rule st(1))
      show "past_reserved (peek (cs_journal s') tk)" if "past_reserved (peek (cs_journal s) tk)" for tk
        unfolding rest using kept [OF that] .
      show "involved s c'" if "involved s' c'" for c'
        using that same unfolding involved_def calls rest by (cases "c' = c") auto
      show "c' \<notin> set (cs_runs s')" if c': "cs_calls s' c' = Cleared k" for c' k
      proof (rule exclusive_okD(5) [OF ok, of c' k, folded rest(2)])
        show "cs_calls s c' = Cleared k" using c' same unfolding calls by (cases "c' = c") auto
      qed
    qed (use exclusive_okD(4) [OF ok] rest admitted in auto)
  next
    case True
    then obtain k where new: "?p = Cleared k" "past_reserved (peek ?rows (command_key (cmd c)))"
      using facts(2) True exclusive_okD(2) [OF ok, of c] unfolding involved_def by blast
    have other: "command_key (cmd c') \<noteq> command_key (cmd c)" if "involved s c'" for c'
      using exclusive_okD(2) [OF ok that] True by metis
    have inv: "involved s' c' \<longleftrightarrow> c' = c \<or> involved s c'" for c'
      using new(1) other [of c] unfolding involved_def calls rest by auto
    show ?thesis
      unfolding exclusive_ok_def
    proof (intro conjI allI impI)
      show "past_reserved (peek (cs_journal s') (command_key (cmd c')))" if "involved s' c'" for c'
        using that new(2) kept exclusive_okD(2) [OF ok] unfolding inv rest by blast
      show "c1 = c2" if "involved s' c1 \<and> involved s' c2 \<and> command_key (cmd c1) = command_key (cmd c2)" for c1 c2
        using that other exclusive_okD(3) [OF ok] unfolding inv by metis
      show "c' \<notin> set (cs_runs s')" if "cs_calls s' c' = Cleared k'" for c' k'
        using that other [of c] exclusive_okD(5) [OF ok] unfolding calls rest by (cases "c' = c") (auto simp: involved_def)
    qed (use st(1) exclusive_okD(4) [OF ok] admitted rest in auto)
  qed
next
  case (invoke c k)
  show ?thesis
  proof (rule exclusive_shrink [OF ok])
    show "permitted (cmd c') \<and> journaled (cm_tool (cmd c'))"
      if "under_way (cs_calls s' c') \<or> c' \<in> set (cs_runs s')" for c'
      using that exclusive_okD(6) [OF ok, of c'] invoke(2) by (auto simp: invoke(1) split: if_splits)
    show "involved s c'" if "involved s' c'" for c'
      using that invoke(2) by (auto simp: invoke(1) involved_def split: if_splits)
    show "c' \<notin> set (cs_runs s')" if "cs_calls s' c' = Cleared k'" for c' k'
      using that exclusive_okD(5) [OF ok, of c' k'] by (auto simp: invoke(1) split: if_splits)
  qed (use exclusive_okD [OF ok] exclusive_okD(5) [OF ok invoke(2)] in \<open>auto simp: invoke(1)\<close>)
next
  case (return c k d)
  show ?thesis
  proof (rule exclusive_shrink [OF ok])
    show "permitted (cmd c') \<and> journaled (cm_tool (cmd c'))"
      if "under_way (cs_calls s' c') \<or> c' \<in> set (cs_runs s')" for c'
      using that exclusive_okD(6) [OF ok, of c'] return(2) by (auto simp: return(1) split: if_splits)
    show "involved s c'" if "involved s' c'" for c'
      using that return(2) by (auto simp: return(1) involved_def split: if_splits)
    show "c' \<notin> set (cs_runs s')" if "cs_calls s' c' = Cleared k'" for c' k'
      using that exclusive_okD(5) [OF ok, of c' k'] by (auto simp: return(1) split: if_splits)
  qed (use exclusive_okD [OF ok] in \<open>auto simp: return(1)\<close>)
next
  case (beat tk token b rows)
  have same: "journal_ok rows" "peek rows = peek (cs_journal s)"
    using heartbeat_peek [OF beat(2) exclusive_okD(1) [OF ok]] by simp_all
  show ?thesis unfolding beat(1)
    by (rule exclusive_shrink [OF ok]) (use exclusive_okD [OF ok] same in \<open>auto simp: involved_def\<close>)
next
  case (crash c)
  show ?thesis unfolding crash(1)
    by (rule exclusive_shrink [OF ok])
      (use exclusive_okD [OF ok] in \<open>auto simp: involved_def split: if_splits\<close>)
qed

section \<open>Answers and records come from that dispatch\<close>

definition earned :: "(json \<Rightarrow> string) \<Rightarrow> (nat \<Rightarrow> command) \<Rightarrow> command_system \<Rightarrow> uuid \<times> string \<Rightarrow> json \<Rightarrow> bool" where
  "earned show_json cmd s tk v \<longleftrightarrow> (\<exists>c. command_key (cmd c) = tk \<and> (c, Returned v) \<in> set (cs_results s)
     \<and> validate_output show_json v (ts_output (cm_tool (cmd c))) = Inr ())"

text \<open>A row has a token as long as its status is live.\<close>

definition tokens_ok :: "row_view \<Rightarrow> bool" where
  "tokens_ok v \<longleftrightarrow> (\<forall>st t j. v = Some (st, t, j) \<longrightarrow> (t \<noteq> None \<longleftrightarrow> live_status st))"

definition results_ok :: "(json \<Rightarrow> string) \<Rightarrow> (nat \<Rightarrow> command) \<Rightarrow> command_system \<Rightarrow> bool" where
  "results_ok show_json cmd s \<longleftrightarrow>
     (\<forall>c d. (c, d) \<in> set (cs_results s) \<longrightarrow> c \<in> set (cs_runs s))
     \<and> (\<forall>c k d. cs_calls s c = Recording k d \<longrightarrow> (c, d) \<in> set (cs_results s))
     \<and> (\<forall>c k. cs_calls s c = In_Handler k \<longrightarrow> c \<in> set (cs_runs s))
     \<and> (\<forall>tk. tokens_ok (peek (cs_journal s) tk))
     \<and> (\<forall>tk t j. peek (cs_journal s) tk = Some (''succeeded'', t, j) \<longrightarrow> earned show_json cmd s tk j)
     \<and> (\<forall>c v. cs_calls s c = Replied (Inr v) \<longrightarrow> earned show_json cmd s (command_key (cmd c)) v)"

lemma results_okD:
  assumes "results_ok show_json cmd s"
  shows "(c, d) \<in> set (cs_results s) \<Longrightarrow> c \<in> set (cs_runs s)"
    "cs_calls s c = Recording k d \<Longrightarrow> (c, d) \<in> set (cs_results s)"
    "cs_calls s c = In_Handler k \<Longrightarrow> c \<in> set (cs_runs s)" "tokens_ok (peek (cs_journal s) tk)"
    "peek (cs_journal s) tk = Some (''succeeded'', t, j) \<Longrightarrow> earned show_json cmd s tk j"
    "cs_calls s c = Replied (Inr v) \<Longrightarrow> earned show_json cmd s (command_key (cmd c)) v"
  using assms unfolding results_ok_def by blast+

lemma row_move_tokens: "row_move show_json c p v p' v' \<Longrightarrow> tokens_ok v \<Longrightarrow> tokens_ok v'"
  by (erule row_moveE) (auto simp: tokens_ok_def live_status_def dest: verdict_status)

lemma row_move_success:
  "row_move show_json c p v p' (Some (''succeeded'', t, j)) \<Longrightarrow> v = Some (''succeeded'', t, j) \<or>
     (\<exists>k. p = Recording k (Returned j) \<and> validate_output show_json j (ts_output (cm_tool c)) = Inr ())"
  by (erule row_moveE) (auto dest: verdict_succeeded)

lemma row_move_answer:
  "row_move show_json c p v (Replied (Inr j)) v' \<Longrightarrow> p = Replied (Inr j) \<or> (\<exists>t. v = Some (''succeeded'', t, j)) \<or>
     (\<exists>k. p = Recording k (Returned j) \<and> validate_output show_json j (ts_output (cm_tool c)) = Inr ())"
  by (erule row_moveE) (auto dest: verdict_answer after_load_cases(2) [OF sym])

lemma row_move_phase:
  "row_move show_json c p v (In_Handler k) v' \<Longrightarrow> p = In_Handler k"
  "row_move show_json c p v (Recording k d) v' \<Longrightarrow> p = Recording k d"
  by (erule row_moveE; simp add: eq_commute [of _ "after_load _ _"])+

text \<open>A row without a token is final.\<close>

lemma row_move_final:
  "row_move show_json c p v p' v' \<Longrightarrow> v = Some (st, None, j) \<Longrightarrow> tokens_ok v \<Longrightarrow> v' = v"
  by (erule row_moveE) (auto simp: tokens_ok_def live_status_def)

lemma fated_move_results:
  assumes "fated_move show_json c p v p' v'"
  shows "tokens_ok v \<Longrightarrow> tokens_ok v'"
    "v' = Some (''succeeded'', t, j) \<Longrightarrow> v = Some (''succeeded'', t, j) \<or>
     (\<exists>k. p = Recording k (Returned j) \<and> validate_output show_json j (ts_output (cm_tool c)) = Inr ())"
    "p' = Replied (Inr j) \<Longrightarrow> p = Replied (Inr j) \<or> (\<exists>t. v = Some (''succeeded'', t, j)) \<or>
     (\<exists>k. p = Recording k (Returned j) \<and> validate_output show_json j (ts_output (cm_tool c)) = Inr ())"
    "p' = In_Handler k \<Longrightarrow> p = In_Handler k" "p' = Recording k d \<Longrightarrow> p = Recording k d"
    "v = Some (st, None, j) \<Longrightarrow> tokens_ok v \<Longrightarrow> v' = v"
proof -
  from assms consider "row_move show_json c p v p' v'" | p1 e where "row_move show_json c p v p1 v'" "p' = Replied (Inl e)"
    unfolding fated_move_def by blast
  note cases = this
  show "tokens_ok v \<Longrightarrow> tokens_ok v'" using cases row_move_tokens by cases blast+
  show "v' = Some (''succeeded'', t, j) \<Longrightarrow> v = Some (''succeeded'', t, j) \<or>
     (\<exists>k. p = Recording k (Returned j) \<and> validate_output show_json j (ts_output (cm_tool c)) = Inr ())"
    using cases row_move_success by cases blast+
  show "p' = Replied (Inr j) \<Longrightarrow> p = Replied (Inr j) \<or> (\<exists>t. v = Some (''succeeded'', t, j)) \<or>
     (\<exists>k. p = Recording k (Returned j) \<and> validate_output show_json j (ts_output (cm_tool c)) = Inr ())"
    using cases row_move_answer by cases (blast, simp)
  show "p' = In_Handler k \<Longrightarrow> p = In_Handler k" using cases row_move_phase(1) by cases (blast, simp)
  show "p' = Recording k d \<Longrightarrow> p = Recording k d" using cases row_move_phase(2) by cases (blast, simp)
  show "v = Some (st, None, j) \<Longrightarrow> tokens_ok v \<Longrightarrow> v' = v" using cases row_move_final by cases blast+
qed

lemma earned_mono: "earned show_json cmd s tk v \<Longrightarrow> set (cs_results s) \<subseteq> set (cs_results s') \<Longrightarrow> earned show_json cmd s' tk v"
  unfolding earned_def by blast

text \<open>Steps that touch no row and answer nobody keep it, if their phases are backed.\<close>

lemma results_kept:
  assumes ok: "results_ok show_json cmd s" and "peek (cs_journal s') = peek (cs_journal s)"
    and sub: "set (cs_results s) \<subseteq> set (cs_results s')" and "set (cs_runs s) \<subseteq> set (cs_runs s')"
    and "\<And>c d. (c, d) \<in> set (cs_results s') \<Longrightarrow> c \<in> set (cs_runs s')"
    and "\<And>c k d. cs_calls s' c = Recording k d \<Longrightarrow> (c, d) \<in> set (cs_results s')"
    and "\<And>c k. cs_calls s' c = In_Handler k \<Longrightarrow> c \<in> set (cs_runs s')"
    and "\<And>c v. cs_calls s' c = Replied (Inr v) \<Longrightarrow> cs_calls s c = Replied (Inr v)"
  shows "results_ok show_json cmd s'"
  unfolding results_ok_def assms(2)
  using assms(5-7) results_okD(4,5) [OF ok] results_okD(6) [OF ok assms(8)] earned_mono [OF _ sub] by metis

lemma results_step:
  assumes "command_step show_json cmd s s'" and ex: "exclusive_ok cmd s" and ok: "results_ok show_json cmd s"
  shows "results_ok show_json cmd s'"
  using assms(1)
proof cases
  case (tick n)
  show ?thesis unfolding tick(1) by (rule results_kept [OF ok]) (use results_okD [OF ok] in auto)
next
  case (enter c)
  show ?thesis unfolding enter(1)
    by (rule results_kept [OF ok]) (use results_okD [OF ok] in \<open>auto simp: enter_call_def split: if_splits\<close>)
next
  case (statement token c p rows fate m)
  let ?p = "if fate = Ran then p else statement_failed show_json m (cmd c) (cs_calls s c)"
    and ?rows = "if fate = Failed then cs_journal s else rows"
  let ?tk = "command_key (cmd c)"
  note st = statement_fated [where fate = fate and m = m, OF exclusive_okD(1) [OF ex] statement(2) refl refl]
  note facts = fated_move_results [OF st(3)]
  have calls: "cs_calls s' c' = (if c' = c then ?p else cs_calls s c')" for c'
    by (simp add: statement(1))
  have rest: "cs_journal s' = ?rows" "cs_runs s' = cs_runs s" "cs_results s' = cs_results s"
    by (simp_all add: statement(1))
  have earned: "earned show_json cmd s' tk v \<longleftrightarrow> earned show_json cmd s tk v" for tk v
    by (simp add: earned_def rest)
  have recorded: "earned show_json cmd s ?tk j"
    if "cs_calls s c = Recording k (Returned j)" "validate_output show_json j (ts_output (cm_tool (cmd c))) = Inr ()" for k j
    using results_okD(2) [OF ok that(1)] that(2) unfolding earned_def by blast
  show ?thesis
    unfolding results_ok_def
  proof (intro conjI allI impI)
    show "c' \<in> set (cs_runs s')" if "(c', d) \<in> set (cs_results s')" for c' d
      using that results_okD(1) [OF ok] unfolding rest by blast
    show "(c', d) \<in> set (cs_results s')" if "cs_calls s' c' = Recording k d" for c' k d
      using that facts(5) results_okD(2) [OF ok] unfolding rest calls by metis
    show "c' \<in> set (cs_runs s')" if "cs_calls s' c' = In_Handler k" for c' k
      using that facts(4) results_okD(3) [OF ok] unfolding rest calls by metis
    show "tokens_ok (peek (cs_journal s') tk)" for tk
      using facts(1) st(2) results_okD(4) [OF ok] unfolding rest by metis
    show "earned show_json cmd s' tk j" if "peek (cs_journal s') tk = Some (''succeeded'', t, j)" for tk t j
      using that facts(2) st(2) results_okD(5) [OF ok] recorded unfolding rest earned by metis
    show "earned show_json cmd s' (command_key (cmd c')) v" if "cs_calls s' c' = Replied (Inr v)" for c' v
      using that facts(3) results_okD(5,6) [OF ok] recorded unfolding calls earned by metis
  qed
next
  case (invoke c k)
  show ?thesis unfolding invoke(1)
    by (rule results_kept [OF ok]) (use results_okD [OF ok] in \<open>auto split: if_splits\<close>)
next
  case (return c k d)
  show ?thesis unfolding return(1)
    by (rule results_kept [OF ok]) (use results_okD [OF ok] return(2) in \<open>auto split: if_splits\<close>)
next
  case (beat tk token b rows)
  have same: "peek rows = peek (cs_journal s)"
    using heartbeat_peek [OF beat(2) exclusive_okD(1) [OF ex]] by simp
  show ?thesis unfolding beat(1) by (rule results_kept [OF ok]) (use results_okD [OF ok] same in auto)
next
  case (crash c)
  show ?thesis unfolding crash(1)
    by (rule results_kept [OF ok]) (use results_okD [OF ok] in \<open>auto split: if_splits\<close>)
qed

lemma only_element: "distinct xs \<Longrightarrow> w \<in> set xs \<Longrightarrow> (\<And>c. c \<in> set xs \<Longrightarrow> c = w) \<Longrightarrow> xs = [w]"
proof (cases xs)
  case (Cons x ys)
  assume *: "distinct xs" "w \<in> set xs" "\<And>c. c \<in> set xs \<Longrightarrow> c = w"
  from *(3) [of x] have "x = w" by (simp add: Cons)
  moreover have "ys = []" using *(1) *(3) [of "hd ys"] \<open>x = w\<close> by (cases ys) (auto simp: Cons)
  ultimately show ?thesis by (simp add: Cons)
qed simp

definition command_reachable :: "(json \<Rightarrow> string) \<Rightarrow> (nat \<Rightarrow> command) \<Rightarrow> timestamp \<Rightarrow> command_system \<Rightarrow> bool" where
  "command_reachable show_json cmd now s \<longleftrightarrow> (command_step show_json cmd)\<^sup>*\<^sup>* (command_start now) s"

lemma command_reachable_ok:
  assumes "command_reachable show_json cmd now s"
  shows "exclusive_ok cmd s \<and> results_ok show_json cmd s"
  using assms unfolding command_reachable_def
proof (induction rule: rtranclp_induct)
  case base
  show ?case
    by (auto simp: command_start_def exclusive_ok_def results_ok_def involved_def tokens_ok_def peek_def command_at_def)
next
  case (step s s')
  with exclusive_step results_step show ?case by blast
qed

text \<open>C20.
  A command is dispatched once. However the statements of any number of calls are interleaved,
  with statements that fail or take effect without an answer, leases that expire, recoveries,
  renewals, tokens drawn twice and processes that die anywhere, at most one of the calls with a
  tenant and execution key ever invokes its handler, and every call that does was permitted by
  its policy and is a call of a journaled tool. No assumption on time is made.
\<close>

theorem commands_run_once:
  assumes "command_reachable show_json cmd now s"
  shows "length (filter (\<lambda>c. command_key (cmd c) = tk) (cs_runs s)) \<le> 1
    \<and> list_all (\<lambda>c. permitted (cmd c) \<and> journaled (cm_tool (cmd c))) (cs_runs s)"
proof -
  have ok: "exclusive_ok cmd s" using command_reachable_ok [OF assms] by blast
  let ?own = "filter (\<lambda>c. command_key (cmd c) = tk) (cs_runs s)"
  have "c = c'" if "c \<in> set ?own" "c' \<in> set ?own" for c c'
    using that exclusive_okD(3) [OF ok, of c c'] by (auto simp: involved_def)
  then have "card (set ?own) \<le> Suc 0" by (subst card_le_Suc0_iff_eq) blast+
  moreover have "distinct ?own" using exclusive_okD(4) [OF ok] by (rule distinct_filter)
  ultimately have "length ?own \<le> 1" using distinct_card [of ?own] by linarith
  then show ?thesis using exclusive_okD(6) [OF ok] by (auto simp: list_all_iff)
qed

text \<open>C21.
  Every successful answer is the outcome of that one dispatch: when a call is answered with a
  value, exactly one call with its key invoked its handler, that handler came back with the
  value, and the value conforms to the output schema of that call's tool. Two callers never
  see two outcomes of one command.
\<close>

theorem answer_is_the_outcome:
  assumes "command_reachable show_json cmd now s" and "cs_calls s c = Replied (Inr v)"
  shows "\<exists>w. filter (\<lambda>c'. command_key (cmd c') = command_key (cmd c)) (cs_runs s) = [w]
    \<and> (w, Returned v) \<in> set (cs_results s)
    \<and> validate_output show_json v (ts_output (cm_tool (cmd w))) = Inr ()"
proof -
  have ok: "exclusive_ok cmd s" "results_ok show_json cmd s" using command_reachable_ok [OF assms(1)] by blast+
  obtain w where w: "command_key (cmd w) = command_key (cmd c)" "(w, Returned v) \<in> set (cs_results s)"
      "validate_output show_json v (ts_output (cm_tool (cmd w))) = Inr ()"
    using results_okD(6) [OF ok(2) assms(2)] unfolding earned_def by blast
  let ?own = "filter (\<lambda>c'. command_key (cmd c') = command_key (cmd c)) (cs_runs s)"
  have own: "distinct ?own" "w \<in> set ?own"
    using exclusive_okD(4) [OF ok(1)] results_okD(1) [OF ok(2) w(2)] w(1) by simp_all
  have "c' = w" if "c' \<in> set ?own" for c'
    using that own(2) exclusive_okD(3) [OF ok(1), of c' w] by (auto simp: involved_def)
  then have "?own = [w]" using own by (rule only_element [rotated 2])
  with w show ?thesis by blast
qed

text \<open>A settled command stays as it is: once the row of a key carries no token, its status and its
  result never change again, whatever owner comes late.
\<close>

theorem settled_command_final:
  assumes "command_reachable show_json cmd now s" and "peek (cs_journal s) tk = Some (st, None, j)"
    and "(command_step show_json cmd)\<^sup>*\<^sup>* s s'"
  shows "peek (cs_journal s') tk = Some (st, None, j)"
proof -
  have "command_reachable show_json cmd now s' \<and> peek (cs_journal s') tk = Some (st, None, j)"
    using assms(3)
  proof (induction rule: rtranclp_induct)
    case (step s1 s2)
    then have reach: "command_reachable show_json cmd now s1" and row: "peek (cs_journal s1) tk = Some (st, None, j)" by blast+
    then have ok: "exclusive_ok cmd s1" "results_ok show_json cmd s1" using command_reachable_ok by blast+
    have "peek (cs_journal s2) tk = peek (cs_journal s1) tk"
      using step(2)
    proof cases
      case (statement token c p rows fate m)
      note st = statement_fated [where fate = fate and m = m, OF exclusive_okD(1) [OF ok(1)] statement(2) refl refl]
      have journal: "cs_journal s2 = (if fate = Failed then cs_journal s1 else rows)" by (simp add: statement(1))
      show ?thesis
      proof (cases "tk = command_key (cmd c)")
        case True
        show ?thesis unfolding journal True
          by (rule fated_move_results(6) [OF st(3)]) (use row True results_okD(4) [OF ok(2), of tk] in auto)
      next
        case False
        show ?thesis unfolding journal by (rule st(2) [OF False])
      qed
    next
      case (beat tk' token b rows)
      with heartbeat_peek [OF beat(2) exclusive_okD(1) [OF ok(1)]] show ?thesis by simp
    qed simp_all
    with reach row step(2) show ?case
      unfolding command_reachable_def by (auto intro: rtranclp.rtrancl_into_rtrancl)
  qed (use assms in simp)
  then show ?thesis by blast
qed

section \<open>Scripts of steps\<close>

datatype command_event =
    Clock timestamp
  | Call nat
  | Sql nat string fate string
  | Invoke nat
  | Return nat dispatch_result
  | Crash nat

fun command_apply :: "(json \<Rightarrow> string) \<Rightarrow> (nat \<Rightarrow> command) \<Rightarrow> command_event \<Rightarrow> command_system \<Rightarrow> command_system" where
  "command_apply show_json cmd (Clock n) s = (if cs_now s \<le> n then s\<lparr>cs_now := n\<rparr> else s)"
| "command_apply show_json cmd (Call c) s =
     (if cs_calls s c = Not_Entered then s\<lparr>cs_calls := (cs_calls s)(c := enter_call (cmd c))\<rparr> else s)"
| "command_apply show_json cmd (Sql c token fate m) s =
     (case call_statement show_json (cs_now s) token (cmd c) (cs_calls s c) (cs_journal s) of
        (p, rows) \<Rightarrow> s\<lparr>cs_journal := (if fate = Failed then cs_journal s else rows),
          cs_calls := (cs_calls s)(c := (if fate = Ran then p else statement_failed show_json m (cmd c) (cs_calls s c)))\<rparr>)"
| "command_apply show_json cmd (Invoke c) s =
     (case cs_calls s c of
        Cleared k \<Rightarrow> s\<lparr>cs_calls := (cs_calls s)(c := In_Handler k), cs_runs := cs_runs s @ [c]\<rparr>
      | _ \<Rightarrow> s)"
| "command_apply show_json cmd (Return c d) s =
     (case cs_calls s c of
        In_Handler k \<Rightarrow> s\<lparr>cs_calls := (cs_calls s)(c := Recording k d), cs_results := cs_results s @ [(c, d)]\<rparr>
      | _ \<Rightarrow> s)"
| "command_apply show_json cmd (Crash c) s = s\<lparr>cs_calls := (cs_calls s)(c := Crashed)\<rparr>"

lemma command_apply_step: "command_apply show_json cmd ev s = s \<or> command_step show_json cmd s (command_apply show_json cmd ev s)"
proof (cases ev)
  case (Sql c token fate m)
  obtain p rows where "call_statement show_json (cs_now s) token (cmd c) (cs_calls s c) (cs_journal s) = (p, rows)"
    by fastforce
  then show ?thesis using command_step.statement [where c = c and cmd = cmd and fate = fate and m = m] by (simp add: Sql)
qed (auto intro: command_step.intros split: call_phase.split)

lemma command_script_reachable: "command_reachable show_json cmd now (fold (command_apply show_json cmd) evs (command_start now))"
proof (induction evs rule: rev_induct)
  case (snoc ev evs)
  with command_apply_step [of show_json cmd ev "fold (command_apply show_json cmd) evs (command_start now)"] show ?case
    unfolding command_reachable_def by (auto intro: rtranclp.rtrancl_into_rtrancl)
qed (simp add: command_reachable_def)

definition demo_agent :: agent_context where
  "demo_agent = \<lparr>ac_tenant = 1, ac_user = 2, ac_session = None, ac_site = None, ac_value_stream = None,
     ac_work_center = None, ac_shift = None, ac_roles = [], ac_permissions = {''*:*''}, ac_locale = ''en'',
     ac_timezone = ''UTC'', ac_request = 3, ac_conversation = None\<rparr>"

definition demo_command :: command where
  "demo_command = \<lparr>cm_ctx = demo_agent, cm_policy = \<lparr>pe_tools = [], pe_ceiling = HighRisk\<rparr>, cm_approval = None,
     cm_tool = (read_only ''post'' ''finance:post'' JNull (JObj [(''id'', JStr ''integer'')]))\<lparr>ts_risk := LowRiskWrite\<rparr>,
     cm_exec = ''k'', cm_owner = ''w''\<rparr>"

lemma demo_command_enters: "enter_call demo_command = Reserving"
  by (simp add: enter_call_def permitted_def can_execute_def journaled_def demo_command_def demo_agent_def read_only_def
      agent_can_def permission_covers_def less_eq_tool_risk_def)

text \<open>Two calls of one command: the second one finds the key, and replays when the first is done.\<close>

definition demo_race_events :: "command_event list" where
  "demo_race_events = [Call 0, Call 1, Sql 0 ''t0'' Ran [], Sql 1 ''t1'' Ran [], Sql 0 [] Ran [], Invoke 0,
     Return 0 (Returned (JObj [(''id'', JNum 7)])), Sql 0 [] Ran [], Sql 1 [] Ran []]"

definition demo_raced :: command_system where
  "demo_raced = fold (command_apply (\<lambda>_. []) (\<lambda>_. demo_command)) demo_race_events (command_start 0)"

lemma demo_raced_reachable: "command_reachable (\<lambda>_. []) (\<lambda>_. demo_command) 0 demo_raced"
  unfolding demo_raced_def by (rule command_script_reachable)

lemma demo_raced_runs: "cs_runs demo_raced = [0]"
  by code_simp

lemma demo_raced_answer: "cs_calls demo_raced 1 = Replied (Inr (JObj [(''id'', JNum 7)]))"
  by code_simp

lemma demo_raced_row:
  "peek (cs_journal demo_raced) (1, ''k'') = Some (''succeeded'', None, JObj [(''id'', JNum 7)])"
  by code_simp

lemma commands_run_once_witness:
  "length (filter (\<lambda>c. command_key demo_command = (1, ''k'')) (cs_runs demo_raced)) \<le> 1
    \<and> cs_runs demo_raced = [0] \<and> journaled (cm_tool demo_command)"
proof -
  note once = commands_run_once [OF demo_raced_reachable, of "(1, ''k'')"]
  have "journaled (cm_tool demo_command)"
    using conjunct2 [OF once] unfolding demo_raced_runs by simp
  with conjunct1 [OF once] demo_raced_runs show ?thesis by blast
qed

lemma answer_is_the_outcome_witness:
  "\<exists>w. filter (\<lambda>c. command_key demo_command = command_key demo_command) (cs_runs demo_raced) = [w]
    \<and> (w, Returned (JObj [(''id'', JNum 7)])) \<in> set (cs_results demo_raced)"
  using answer_is_the_outcome [OF demo_raced_reachable demo_raced_answer] by blast

text \<open>After the race another call comes, and a process that had died long ago tries to renew.\<close>

definition demo_later :: command_system where
  "demo_later = fold (command_apply (\<lambda>_. []) (\<lambda>_. demo_command))
     [Clock 1000000000, Call 2, Sql 2 ''t2'' Ran [], Sql 2 [] Ran [], Crash 0] demo_raced"

lemma command_script_steps: "(command_step show_json cmd)\<^sup>*\<^sup>* s (fold (command_apply show_json cmd) evs s)"
proof (induction evs arbitrary: s)
  case (Cons ev evs)
  with command_apply_step [of show_json cmd ev s] show ?case
    by (metis converse_rtranclp_into_rtranclp fold_simps(2))
qed simp

lemma settled_command_final_witness:
  "peek (cs_journal demo_later) (1, ''k'') = Some (''succeeded'', None, JObj [(''id'', JNum 7)])"
  by (rule settled_command_final [OF demo_raced_reachable demo_raced_row])
    (unfold demo_later_def, rule command_script_steps)

text \<open>
  A mark of reconciliation does not stop an owner that has passed the gate: when its lease runs
  out before the handler is invoked, another call marks the row, and the dispatch follows.
\<close>

definition demo_late_events :: "command_event list" where
  "demo_late_events = [Call 0, Sql 0 ''t0'' Ran [], Sql 0 [] Ran [], Clock 400000000, Call 1, Sql 1 ''t1'' Ran [],
     Sql 1 [] Ran [], Sql 1 ''t1'' Ran [], Invoke 0]"

lemma marked_command_dispatches:
  "let s = fold (command_apply (\<lambda>_. []) (\<lambda>_. demo_command)) demo_late_events (command_start 0)
   in peek (cs_journal s) (1, ''k'') = Some (''reconcile_required'', None, reconcile_note)
     \<and> cs_calls s 0 = In_Handler ''t0'' \<and> cs_runs s = [0]"
  by code_simp

section \<open>A command and its retry\<close>

text \<open>One call by itself, with a server that fails nothing; the flag tells whether the handler ran.\<close>

definition solo_turn ::
    "(json \<Rightarrow> string) \<Rightarrow> timestamp \<Rightarrow> string \<Rightarrow> dispatch_result \<Rightarrow> command
      \<Rightarrow> call_phase \<times> command_row list \<times> bool \<Rightarrow> call_phase \<times> command_row list \<times> bool" where
  "solo_turn show_json now token d c t =
     (case t of (p, rows, invoked) \<Rightarrow>
        (case p of
           Cleared k \<Rightarrow> (In_Handler k, rows, True)
         | In_Handler k \<Rightarrow> (Recording k d, rows, invoked)
         | _ \<Rightarrow> (case call_statement show_json now token c p rows of (p', rows') \<Rightarrow> (p', rows', invoked))))"

text \<open>The longest way has seven turns: reserve, load, recover, gate, invocation, return, record.\<close>

definition execute_call ::
    "(json \<Rightarrow> string) \<Rightarrow> timestamp \<Rightarrow> string \<Rightarrow> dispatch_result \<Rightarrow> command \<Rightarrow> command_row list \<Rightarrow> call_phase \<times> command_row list \<times> bool" where
  "execute_call show_json now token d c rows =
     (solo_turn show_json now token d c ^^ 7) (enter_call c, rows, False)"

lemma seven_turns: "(f ^^ 7) x = f (f (f (f (f (f (f x))))))"
  by (simp add: numeral_eq_Suc)

lemma update_claim_last:
  assumes "command_at tk rows = None" and "(cj_tenant r, cj_key r) = tk"
  shows "update_claim tk P f (rows @ [r]) = (P r, rows @ [if P r then f r else r])"
proof -
  have "(cj_tenant q, cj_key q) \<noteq> tk" if "q \<in> set rows" for q
    using assms(1) that by (auto simp: command_at_def find_None_iff)
  with assms(2) show ?thesis by (auto simp: update_claim_def list_ex_iff intro!: map_idI)
qed

lemma command_at_last:
  "command_at tk rows = None \<Longrightarrow> (cj_tenant r, cj_key r) = tk \<Longrightarrow> command_at tk (rows @ [r]) = Some r"
  by (simp add: command_at_def find_append)

lemma lease_ahead: "now < lease_end now (lease_seconds t)"
  by (simp add: lease_end_def lease_seconds_def)

lemma replayed_verdict:
  assumes "verdict show_json t d = (st, j, a)"
  shows "after_load n (Some (st, j)) = Replied (case a of
      Inr j \<Rightarrow> Inr j
    | Inl e \<Rightarrow> Inl (if is_timeout e then Te_Conflict n ambiguous_text else Te_Dispatch n (tool_error_text e)))"
proof (cases d)
  case (Returned v)
  with assms show ?thesis
    by (cases "validate_output show_json v (ts_output t)")
      (auto simp: verdict_def after_load_def Let_def is_timeout_def error_result_def json_get_def)
next
  case (Failed_With e)
  with assms show ?thesis
    by (cases "is_timeout e") (auto simp: verdict_def after_load_def error_result_def json_get_def)
next
  case Elapsed
  with assms show ?thesis by (auto simp: verdict_def after_load_def Let_def is_timeout_def)
qed

text \<open>C22.
  A command and its retry, each running alone. A permitted call of a journaled tool whose key is
  new, in which every statement on the journal runs and the clock stands still, invokes its
  handler, answers with its outcome and records it. A call after it, at any time and with
  any owner, token and handler, that is permitted itself, names a journaled tool and has
  the same tenant and key, and whose statements run, invokes nothing, changes nothing, and
  answers with the same value, with the text of the recorded error, or, when the outcome is
  unknown, with a conflict.
\<close>

theorem retry_replays:
  assumes "permitted c" "journaled (cm_tool c)" and "permitted c'" "journaled (cm_tool c')"
    and same: "command_key c' = command_key c" and new: "command_at (command_key c) rows = None"
    and v: "verdict show_json (cm_tool c) d = (st, j, a)"
    and run: "execute_call show_json now token d c rows = (p, rows1, invoked)"
  shows "p = Replied a \<and> invoked
    \<and> execute_call show_json now' token' d' c' rows1 =
        (Replied (case a of
           Inr j \<Rightarrow> Inr j
         | Inl e \<Rightarrow> Inl (if is_timeout e then Te_Conflict (ts_name (cm_tool c')) ambiguous_text
                         else Te_Dispatch (ts_name (cm_tool c')) (tool_error_text e))), rows1, False)"
proof -
  let ?t = "cm_tool c" and ?tk = "command_key c"
  have enter: "enter_call c = Reserving" "enter_call c' = Reserving"
    using assms(1-4) by (simp_all add: enter_call_def)
  obtain r where r: "reserve_key now token (cm_owner c) (lease_seconds ?t) ?tk (ts_name ?t) rows = (Fresh token, rows @ [r])"
      "(cj_tenant r, cj_key r) = ?tk" "cj_status r = ''reserved''" "cj_token r = Some token"
      "cj_lease r = Some (lease_end now (lease_seconds ?t))"
    using new by (simp add: reserve_key_def)
  let ?r1 = "r\<lparr>cj_status := ''dispatching'', cj_heartbeat := Some now\<rparr>"
  have gate: "begin_dispatch now ?tk token (rows @ [r]) = (True, rows @ [?r1])"
    unfolding begin_dispatch_def update_claim_last [OF new r(2)] using r lease_ahead by (simp add: is_none_or_def)
  define r2 where "r2 = ?r1\<lparr>cj_status := st, cj_result := j, cj_owner := None, cj_token := None,
      cj_lease := None, cj_heartbeat := None\<rparr>"
  have key1: "(cj_tenant ?r1, cj_key ?r1) = ?tk" using r(2) by simp
  have "complete_command ?tk token st j (rows @ [?r1]) = (Inr (), rows @ [r2])"
    unfolding complete_command_def update_claim_last [OF new key1] using r(4) by (simp add: r2_def)
  then have first: "p = Replied a" "rows1 = rows @ [r2]" invoked
    using run r(1) gate v by (simp_all add: execute_call_def seven_turns solo_turn_def enter)
  have found: "command_at (command_key c') rows1 = Some r2"
    unfolding first(2) same by (rule command_at_last [OF new]) (use r(2) in \<open>simp add: r2_def\<close>)
  let ?answer = "case a of Inr j \<Rightarrow> Inr j
    | Inl e \<Rightarrow> Inl (if is_timeout e then Te_Conflict (ts_name (cm_tool c')) ambiguous_text
        else Te_Dispatch (ts_name (cm_tool c')) (tool_error_text e))"
  let ?turn = "solo_turn show_json now' token' d' c'"
  have "?turn (Reserving, rows1, False) = (Loading, rows1, False)"
    using found by (simp add: solo_turn_def reserve_key_def)
  moreover have "load_command (command_key c') rows1 = Some (st, j)"
    using found by (simp add: load_command_def r2_def)
  then have "?turn (Loading, rows1, False) = (Replied ?answer, rows1, False)"
    using replayed_verdict [OF v] by (simp add: solo_turn_def)
  moreover have "?turn (Replied ?answer, rows1, False) = (Replied ?answer, rows1, False)"
    by (simp add: solo_turn_def)
  ultimately have "execute_call show_json now' token' d' c' rows1 = (Replied ?answer, rows1, False)"
    by (simp only: execute_call_def seven_turns enter)
  with first show ?thesis by blast
qed

lemma retry_replays_witness:
  "fst (execute_call (\<lambda>_. []) 5 ''t1'' Elapsed demo_command
      (fst (snd (execute_call (\<lambda>_. []) 0 ''t0'' (Returned (JObj [(''id'', JNum 7)])) demo_command []))))
    = Replied (Inr (JObj [(''id'', JNum 7)]))"
proof -
  let ?d = "Returned (JObj [(''id'', JNum 7)])"
  obtain p rows1 invoked where run: "execute_call (\<lambda>_. []) 0 ''t0'' ?d demo_command [] = (p, rows1, invoked)"
    by (rule prod_cases3)
  have may: "permitted demo_command" "journaled (cm_tool demo_command)"
    using demo_command_enters by (auto simp: enter_call_def split: if_splits)
  have "verdict (\<lambda>_. []) (cm_tool demo_command) ?d = (''succeeded'', JObj [(''id'', JNum 7)], Inr (JObj [(''id'', JNum 7)]))"
    by code_simp
  from retry_replays [OF may may refl _ this run, of 5 "''t1''" Elapsed] run show ?thesis
    by (simp add: command_at_def)
qed

section \<open>Without a journal\<close>

text \<open>The cache answers the retry; a tool that only reads runs every time and is never cached.\<close>

lemma direct_retry:
  assumes "bm_wf cache" "1 \<le> bm_capacity cache" "journaled (cm_tool c)"
    and "execute_direct show_json c d cache = (Inr v, cache', invoked)"
  shows "execute_direct show_json c d' cache' = (Inr v, cache', False)"
proof -
  have may: "permitted c" using assms(4) by (cases "permitted c") (auto simp: execute_direct_def Let_def)
  have "bm_get cache' (cm_exec c) = Some v"
    using assms(3,4) may bm_get_insert_same [OF assms(1,2)]
    by (auto simp: execute_direct_def Let_def split: option.splits dispatch_result.splits sum.splits)
  with may assms(3) show ?thesis by (simp add: execute_direct_def Let_def)
qed

lemma direct_read_only:
  "\<not> journaled (cm_tool c) \<Longrightarrow> execute_direct show_json c d cache = (a, cache', invoked) \<Longrightarrow>
    invoked = permitted c \<and> cache' = cache"
  by (auto simp: execute_direct_def Let_def split: if_splits dispatch_result.splits sum.splits)

end
