(* ===== verification/Residency.thy ===== *)
theory Residency
  imports Tenant_Db
begin

text \<open>
  The residency policy of the federation and the fanout of a projection
  (\<open>sensei-services/src/tps/replication.rs\<close>): jurisdictions, data classes, the gate that
  decides each edge, the decoding of the governance rows, and the transaction that enqueues a
  projection for every edge that admits it. What a server decides on its own is the governance
  that each statement sees. Long dashes of messages are written as two hyphens.
\<close>

section \<open>Jurisdictions and data classes\<close>

datatype jurisdiction = MA | TN | FR | US | DE | ES | IT | GB | Other_Code string

fun jurisdiction_str :: "jurisdiction \<Rightarrow> string" where
  "jurisdiction_str MA = ''ma''"
| "jurisdiction_str TN = ''tn''"
| "jurisdiction_str FR = ''fr''"
| "jurisdiction_str US = ''us''"
| "jurisdiction_str DE = ''de''"
| "jurisdiction_str ES = ''es''"
| "jurisdiction_str IT = ''it''"
| "jurisdiction_str GB = ''gb''"
| "jurisdiction_str (Other_Code s) = s"

definition ascii_lower_char :: "char \<Rightarrow> char" where
  "ascii_lower_char c = (let n = of_char c :: nat in if 65 \<le> n \<and> n \<le> 90 then char_of (n + 32) else c)"

definition ascii_lower :: "string \<Rightarrow> string" where
  "ascii_lower s = map ascii_lower_char s"

definition known_jurisdiction :: "string \<Rightarrow> jurisdiction option" where
  "known_jurisdiction s =
     (if s \<in> {''ma'', ''morocco''} then Some MA
      else if s \<in> {''tn'', ''tunisia''} then Some TN
      else if s \<in> {''fr'', ''france''} then Some FR
      else if s \<in> {''us'', ''usa''} then Some US
      else if s \<in> {''de'', ''germany''} then Some DE
      else if s \<in> {''es'', ''spain''} then Some ES
      else if s \<in> {''it'', ''italy''} then Some IT
      else if s \<in> {''gb'', ''uk''} then Some GB
      else None)"

definition parse_jurisdiction :: "string \<Rightarrow> string + jurisdiction" where
  "parse_jurisdiction v =
     (case known_jurisdiction (ascii_lower v) of
        Some j \<Rightarrow> Inr j
      | None \<Rightarrow> Inl (''unknown jurisdiction '' @ quoted (ascii_lower v) @
          '' -- residency codes are typed, not free-form''))"

definition jurisdiction_from_string :: "string \<Rightarrow> jurisdiction" where
  "jurisdiction_from_string v = (case known_jurisdiction (ascii_lower v) of Some j \<Rightarrow> j | None \<Rightarrow> Other_Code v)"

datatype data_policy = Public | Internal_Data | Confidential | Restricted | Personal

fun data_policy_str :: "data_policy \<Rightarrow> string" where
  "data_policy_str Public = ''public''"
| "data_policy_str Internal_Data = ''internal''"
| "data_policy_str Confidential = ''confidential''"
| "data_policy_str Restricted = ''restricted''"
| "data_policy_str Personal = ''personal''"

definition parse_data_policy :: "string \<Rightarrow> string + data_policy" where
  "parse_data_policy v =
     (if v = ''public'' then Inr Public
      else if v = ''internal'' then Inr Internal_Data
      else if v = ''confidential'' then Inr Confidential
      else if v = ''restricted'' then Inr Restricted
      else if v = ''personal'' then Inr Personal
      else Inl (''unknown data policy '' @ quoted v @ '' -- policies are typed, not free-form''))"

text \<open>Every label is read back, and nothing but a known code becomes a jurisdiction.\<close>

lemma ascii_lower_simps [simp]:
  "ascii_lower [] = []" "ascii_lower (c # s) = ascii_lower_char c # ascii_lower s"
  by (simp_all add: ascii_lower_def)

lemma parse_data_policy_str: "parse_data_policy (data_policy_str p) = Inr p"
  by (cases p) (simp_all add: parse_data_policy_def)

lemma parse_data_policy_exact: "parse_data_policy v = Inr p \<longleftrightarrow> v = data_policy_str p"
  by (cases p) (auto simp: parse_data_policy_def)

lemma parse_jurisdiction_typed: "parse_jurisdiction v = Inr j \<Longrightarrow> j \<in> {MA, TN, FR, US, DE, ES, IT, GB}"
  by (auto simp: parse_jurisdiction_def known_jurisdiction_def split: option.splits if_splits)

lemma parse_jurisdiction_str: "parse_jurisdiction v = Inr j \<Longrightarrow> parse_jurisdiction (jurisdiction_str j) = Inr j"
  by (drule parse_jurisdiction_typed) (auto simp: parse_jurisdiction_def known_jurisdiction_def ascii_lower_char_def)

section \<open>The gate\<close>

datatype residency_policy = LocalOnly | AllowedCountries "jurisdiction list" | CorporateAllowed

definition allows :: "residency_policy \<Rightarrow> jurisdiction \<Rightarrow> jurisdiction \<Rightarrow> bool" where
  "allows r src dst =
     (if src = dst then True
      else case r of LocalOnly \<Rightarrow> False | AllowedCountries js \<Rightarrow> dst \<in> set js | CorporateAllowed \<Rightarrow> True)"

definition allows_export :: "residency_policy \<Rightarrow> data_policy \<Rightarrow> jurisdiction \<Rightarrow> jurisdiction \<Rightarrow> bool" where
  "allows_export r p src dst =
     (if src = dst then True
      else if p \<in> {Restricted, Personal} then False
      else allows r src dst)"

fun residency_str :: "residency_policy \<Rightarrow> string" where
  "residency_str LocalOnly = ''local_only''"
| "residency_str (AllowedCountries js) = ''allowed_countries''"
| "residency_str CorporateAllowed = ''corporate_allowed''"

definition may_replicate ::
    "data_policy \<Rightarrow> jurisdiction option \<Rightarrow> jurisdiction option \<Rightarrow> residency_policy \<Rightarrow> bool" where
  "may_replicate p src dst r =
     (case (src, dst) of
        (Some s, Some d) \<Rightarrow> allows_export r p s d
      | (Some s, None) \<Rightarrow>
          (case r of CorporateAllowed \<Rightarrow> p \<notin> {Restricted, Personal} | LocalOnly \<Rightarrow> False | AllowedCountries js \<Rightarrow> False)
      | (None, Some d) \<Rightarrow> False
      | (None, None) \<Rightarrow> False)"

text \<open>What the gate lets out of a country.\<close>

lemma may_replicate_abroad:
  assumes "may_replicate p src (Some d) r" and "src \<noteq> Some d"
  shows "p \<notin> {Restricted, Personal}" "r \<noteq> LocalOnly" "r = AllowedCountries js \<Longrightarrow> d \<in> set js"
  using assms by (auto simp: may_replicate_def allows_export_def allows_def split: option.splits if_splits residency_policy.splits)

section \<open>Federation edges\<close>

record federation_edge =
  fe_source_tenant :: uuid
  fe_source_site :: "uuid option"
  fe_target_tenant :: uuid
  fe_target_site :: "uuid option"
  fe_jurisdiction :: jurisdiction
  fe_classes :: "data_policy list"
  fe_residency :: residency_policy
  fe_revision :: nat

text \<open>\<open>show_uuid\<close> is the text of a UUID.\<close>

definition policy_snapshot :: "(uuid \<Rightarrow> string) \<Rightarrow> federation_edge \<Rightarrow> json" where
  "policy_snapshot show_uuid e =
     (let opt = (\<lambda>x. case x of None \<Rightarrow> JNull | Some u \<Rightarrow> JStr (show_uuid u))
      in JObj [(''source_tenant'', JStr (show_uuid (fe_source_tenant e))), (''source_site'', opt (fe_source_site e)),
        (''target_tenant'', JStr (show_uuid (fe_target_tenant e))), (''target_site'', opt (fe_target_site e)),
        (''target_jurisdiction'', JStr (jurisdiction_str (fe_jurisdiction e))),
        (''allowed_data_classes'', JArr (map (\<lambda>p. JStr (data_policy_str p)) (fe_classes e))),
        (''residency_policy'', JStr (residency_str (fe_residency e))), (''policy_revision'', JNum (int (fe_revision e)))])"

text \<open>Casts between the columns and the unsigned fields.\<close>

definition as_u64 :: "int \<Rightarrow> nat" where
  "as_u64 x = nat (x mod 2 ^ 64)"

definition as_u32 :: "int \<Rightarrow> nat" where
  "as_u32 x = nat (x mod 2 ^ 32)"

definition as_i32 :: "nat \<Rightarrow> int" where
  "as_i32 n = (int n + 2 ^ 31) mod 2 ^ 32 - 2 ^ 31"

text \<open>A row of \<open>federation_governance_edges()\<close>.\<close>

record governance_row =
  gr_tenant :: uuid
  gr_site :: uuid
  gr_country :: string
  gr_residency :: "string option"
  gr_revision :: int
  gr_classes :: json
  gr_policy :: string
  gr_countries :: json

fun json_strings :: "json list \<Rightarrow> string list option" where
  "json_strings [] = Some []"
| "json_strings (JStr s # js) = map_option ((#) s) (json_strings js)"
| "json_strings (_ # js) = None"

definition as_labels :: "json \<Rightarrow> string list option" where
  "as_labels j = (case j of JArr js \<Rightarrow> json_strings js | _ \<Rightarrow> None)"

fun parse_all :: "(string \<Rightarrow> string + 'a) \<Rightarrow> string list \<Rightarrow> 'a list option" where
  "parse_all p [] = Some []"
| "parse_all p (s # ss) = (case p s of Inl _ \<Rightarrow> None | Inr x \<Rightarrow> map_option ((#) x) (parse_all p ss))"

definition decode_residency :: "string \<Rightarrow> json \<Rightarrow> residency_policy option" where
  "decode_residency label countries =
     (if label = ''local_only'' then Some LocalOnly
      else if label = ''corporate_allowed'' then Some CorporateAllowed
      else if label = ''allowed_countries''
      then (case as_labels countries of None \<Rightarrow> None | Some codes \<Rightarrow> map_option AllowedCountries (parse_all parse_jurisdiction codes))
      else None)"

definition decode_edge :: "uuid \<Rightarrow> uuid option \<Rightarrow> governance_row \<Rightarrow> federation_edge option" where
  "decode_edge tenant site g =
     (case gr_residency g of None \<Rightarrow> None | Some code \<Rightarrow>
     (case parse_jurisdiction code of Inl _ \<Rightarrow> None | Inr j \<Rightarrow>
     (case as_labels (gr_classes g) of None \<Rightarrow> None | Some labels \<Rightarrow>
     (case parse_all parse_data_policy labels of None \<Rightarrow> None | Some classes \<Rightarrow>
     (case decode_residency (gr_policy g) (gr_countries g) of None \<Rightarrow> None | Some r \<Rightarrow>
        Some \<lparr>fe_source_tenant = tenant, fe_source_site = site, fe_target_tenant = gr_tenant g,
          fe_target_site = Some (gr_site g), fe_jurisdiction = j, fe_classes = classes,
          fe_residency = r, fe_revision = as_u64 (gr_revision g)\<rparr>)))))"

definition decode_governance_edges :: "uuid \<Rightarrow> uuid option \<Rightarrow> governance_row list \<Rightarrow> federation_edge list" where
  "decode_governance_edges tenant site rows = List.map_filter (decode_edge tenant site) rows"

text \<open>
  The same membership and policy: lists of classes and countries are compared sorted. The order
  of the derived \<open>Ord\<close> does not matter for that, so the lists are compared as multisets.
\<close>

definition residency_unchanged :: "residency_policy \<Rightarrow> residency_policy \<Rightarrow> bool" where
  "residency_unchanged a b =
     (case (a, b) of
        (LocalOnly, LocalOnly) \<Rightarrow> True
      | (CorporateAllowed, CorporateAllowed) \<Rightarrow> True
      | (AllowedCountries xs, AllowedCountries ys) \<Rightarrow> mset xs = mset ys
      | _ \<Rightarrow> False)"

definition edge_governance_unchanged :: "federation_edge \<Rightarrow> federation_edge \<Rightarrow> bool" where
  "edge_governance_unchanged l c \<longleftrightarrow>
     fe_source_tenant l = fe_source_tenant c \<and> fe_source_site l = fe_source_site c
     \<and> fe_target_tenant l = fe_target_tenant c \<and> fe_target_site l = fe_target_site c
     \<and> fe_jurisdiction l = fe_jurisdiction c \<and> fe_revision l = fe_revision c
     \<and> mset (fe_classes l) = mset (fe_classes c) \<and> residency_unchanged (fe_residency l) (fe_residency c)"

section \<open>The queue\<close>

text \<open>A row of \<open>site_replication_log\<close>.\<close>

record repl_row =
  rr_id :: uuid
  rr_tenant :: uuid
  rr_site :: "uuid option"
  rr_entity_type :: string
  rr_entity :: "uuid option"
  rr_projection :: json
  rr_event :: "string option"
  rr_created :: timestamp
  rr_status :: string
  rr_token :: "uuid option"
  rr_claimed :: "timestamp option"
  rr_lease :: "timestamp option"
  rr_attempts :: int
  rr_next :: "timestamp option"
  rr_acked :: "timestamp option"
  rr_error :: "string option"
  rr_schema :: int
  rr_type :: "string option"
  rr_revision :: int
  rr_policy :: string
  rr_target :: "uuid option"
  rr_target_site :: "uuid option"
  rr_jurisdiction :: "string option"
  rr_edge_policy :: "json option"
  rr_confirmed :: "timestamp option"

record replication_envelope =
  en_schema :: nat
  en_event :: "string option"
  en_site :: "uuid option"
  en_type :: string
  en_revision :: nat
  en_policy :: string
  en_payload :: json

text \<open>
  The arguments of a publication with the results of its server: the texts of UUIDs, the id
  that the database draws for the row of each statement, the time, and the governance that
  each statement sees.
\<close>

record publication =
  pb_tenant :: uuid
  pb_site :: "uuid option"
  pb_entity_type :: string
  pb_entity :: uuid
  pb_projection :: json
  pb_event :: string
  pb_envelope :: replication_envelope
  pb_source :: jurisdiction
  pb_show :: "uuid \<Rightarrow> string"
  pb_new_id :: "nat \<Rightarrow> uuid"
  pb_now :: timestamp
  pb_governance :: "nat \<Rightarrow> governance_row list"

definition projection_type_of :: "string \<Rightarrow> replication_envelope \<Rightarrow> string" where
  "projection_type_of entity_type en = (if en_type en = [] then entity_type else en_type en)"

definition queue_row :: "publication \<Rightarrow> federation_edge \<Rightarrow> uuid \<Rightarrow> repl_row" where
  "queue_row p e i =
     \<lparr>rr_id = i, rr_tenant = pb_tenant p, rr_site = pb_site p, rr_entity_type = pb_entity_type p,
      rr_entity = Some (pb_entity p), rr_projection = pb_projection p, rr_event = Some (pb_event p),
      rr_created = pb_now p, rr_status = ''pending'', rr_token = None, rr_claimed = None, rr_lease = None,
      rr_attempts = 0, rr_next = None, rr_acked = None, rr_error = None, rr_schema = as_i32 (en_schema (pb_envelope p)),
      rr_type = Some (projection_type_of (pb_entity_type p) (pb_envelope p)),
      rr_revision = i64_wrap (int (en_revision (pb_envelope p))), rr_policy = en_policy (pb_envelope p),
      rr_target = Some (fe_target_tenant e), rr_target_site = fe_target_site e,
      rr_jurisdiction = Some (jurisdiction_str (fe_jurisdiction e)),
      rr_edge_policy = Some (policy_snapshot (pb_show p) e), rr_confirmed = None\<rparr>"

text \<open>\<open>with_tenant_tx\<close> of this module.\<close>

definition federation_tx :: "pg \<Rightarrow> ('d, sensei_error, 'a) step \<Rightarrow> 'd \<Rightarrow> 'a res \<times> 'd" where
  "federation_tx f body d =
     (case tx_then (sql_read f ''Failed to begin tenant tx: '' (\<lambda>_. ()))
           (tx_then (sql_read f ''Failed to set tenant context: '' (\<lambda>_. ()))
           (tx_bind body (\<lambda>x. tx_then (sql_read f ''Failed to commit tenant tx: '' (\<lambda>_. ())) (tx_return x)))) d 0 of
        (Inl e, _, _) \<Rightarrow> (Err e, d)
      | (Inr x, d', _) \<Rightarrow> (Ok x, d'))"

record fanout_report =
  fn_new :: nat
  fn_present :: nat
  fn_blocked :: nat

datatype fanout_mark = Mark_New | Mark_Present | Mark_Blocked

fun count_mark :: "fanout_mark \<Rightarrow> fanout_report \<Rightarrow> fanout_report" where
  "count_mark Mark_New r = r\<lparr>fn_new := fn_new r + 1\<rparr>"
| "count_mark Mark_Present r = r\<lparr>fn_present := fn_present r + 1\<rparr>"
| "count_mark Mark_Blocked r = r\<lparr>fn_blocked := fn_blocked r + 1\<rparr>"

definition edge_admits :: "publication \<Rightarrow> data_policy \<Rightarrow> federation_edge \<Rightarrow> bool" where
  "edge_admits p policy e \<longleftrightarrow> policy \<in> set (fe_classes e)
     \<and> may_replicate policy (Some (pb_source p)) (Some (fe_jurisdiction e)) (fe_residency e)"

definition same_peer :: "federation_edge \<Rightarrow> federation_edge \<Rightarrow> bool" where
  "same_peer e c \<longleftrightarrow> fe_target_tenant c = fe_target_tenant e \<and> fe_target_site c = fe_target_site e"

definition still_current :: "federation_edge list \<Rightarrow> federation_edge \<Rightarrow> bool" where
  "still_current cur e = is_some_and (find (same_peer e) cur) (edge_governance_unchanged e)"

text \<open>The unique indexes of migrations 148 and 159; the first reads NULL as the nil UUID.\<close>

definition nil_or :: "uuid option \<Rightarrow> uuid" where
  "nil_or u = (case u of None \<Rightarrow> 0 | Some i \<Rightarrow> i)"

definition row_type :: "repl_row \<Rightarrow> string" where
  "row_type r = (case rr_type r of None \<Rightarrow> rr_entity_type r | Some s \<Rightarrow> s)"

definition edge_clash :: "repl_row \<Rightarrow> repl_row \<Rightarrow> bool" where
  "edge_clash q r \<longleftrightarrow> rr_tenant r = rr_tenant q \<and> rr_event r = rr_event q \<and> rr_event q \<noteq> None
     \<and> row_type r = row_type q \<and> nil_or (rr_target r) = nil_or (rr_target q)
     \<and> nil_or (rr_target_site r) = nil_or (rr_target_site q)"

definition fanout_clash :: "repl_row \<Rightarrow> repl_row \<Rightarrow> bool" where
  "fanout_clash q r \<longleftrightarrow> rr_tenant r = rr_tenant q \<and> rr_event r = rr_event q \<and> rr_event q \<noteq> None
     \<and> rr_target r = rr_target q \<and> rr_target q \<noteq> None
     \<and> rr_target_site r = rr_target_site q \<and> rr_target_site q \<noteq> None"

definition fanout_key :: "publication \<Rightarrow> federation_edge \<Rightarrow> repl_row \<Rightarrow> bool" where
  "fanout_key p e r \<longleftrightarrow> rr_tenant r = pb_tenant p \<and> rr_event r = Some (pb_event p)
     \<and> rr_target r = Some (fe_target_tenant e) \<and> rr_target_site r = fe_target_site e"

text \<open>The guard in the \<open>INSERT\<close> itself; a missing site matches no row.\<close>

definition guard_count :: "governance_row list \<Rightarrow> federation_edge \<Rightarrow> nat" where
  "guard_count gov e = length (filter (\<lambda>g. gr_tenant g = fe_target_tenant e \<and> Some (gr_site g) = fe_target_site e
     \<and> gr_revision g = i64_wrap (int (fe_revision e))) gov)"

definition fanout_insert :: "pg \<Rightarrow> publication \<Rightarrow> federation_edge \<Rightarrow> (repl_row list, sensei_error, nat) step" where
  "fanout_insert f p e d n =
     sql f ''replication: fanout enqueue failed: '' (\<lambda>rows.
       let row = queue_row p e (pb_new_id p n)
       in if guard_count (pb_governance p n) e \<noteq> 1 \<or> list_ex (fanout_clash row) rows then Inr (0, rows)
          else map_sum id (Pair 1) (insert_row f (\<lambda>r. rr_id r = rr_id row \<or> edge_clash row r) row rows)) d n"

definition fanout_edge ::
    "pg \<Rightarrow> publication \<Rightarrow> data_policy \<Rightarrow> federation_edge list \<Rightarrow> federation_edge \<Rightarrow> (repl_row list, sensei_error, fanout_mark) step" where
  "fanout_edge f p policy cur e =
     (if \<not> edge_admits p policy e then tx_return Mark_Blocked
      else if \<not> still_current cur e then tx_return Mark_Blocked
      else tx_bind (sql_read f ''replication: fanout duplicate check: '' (list_ex (fanout_key p e)))
        (\<lambda>dup. if dup then tx_return Mark_Present
          else tx_bind (fanout_insert f p e) (\<lambda>k. tx_return (if k = 1 then Mark_New else Mark_Blocked))))"

fun fanout_edges ::
    "pg \<Rightarrow> publication \<Rightarrow> data_policy \<Rightarrow> federation_edge list \<Rightarrow> federation_edge list \<Rightarrow> fanout_report
      \<Rightarrow> (repl_row list, sensei_error, fanout_report) step" where
  "fanout_edges f p policy cur [] rep = tx_return rep"
| "fanout_edges f p policy cur (e # es) rep =
     tx_bind (fanout_edge f p policy cur e) (\<lambda>m. fanout_edges f p policy cur es (count_mark m rep))"

definition read_governance_edges :: "pg \<Rightarrow> publication \<Rightarrow> ('d, sensei_error, federation_edge list) step" where
  "read_governance_edges f p d n = sql_read f ''replication: federation edges: ''
     (\<lambda>_. decode_governance_edges (pb_tenant p) (pb_site p) (pb_governance p n)) d n"

definition enqueue_projection_fanout ::
    "pg \<Rightarrow> publication \<Rightarrow> federation_edge list \<Rightarrow> repl_row list \<Rightarrow> fanout_report res \<times> repl_row list" where
  "enqueue_projection_fanout f p edges rows =
     (case parse_data_policy (en_policy (pb_envelope p)) of
        Inl m \<Rightarrow> (Err (Validation [Txt m]), rows)
      | Inr policy \<Rightarrow>
          federation_tx f (tx_bind (read_governance_edges f p)
            (\<lambda>cur. fanout_edges f p policy cur edges \<lparr>fn_new = 0, fn_present = 0, fn_blocked = 0\<rparr>)) rows)"

text \<open>One edge, as the route enqueues it without the fanout.\<close>

definition enqueue_projection ::
    "pg \<Rightarrow> publication \<Rightarrow> string option \<Rightarrow> jurisdiction option \<Rightarrow> federation_edge \<Rightarrow> repl_row list \<Rightarrow> unit res \<times> repl_row list" where
  "enqueue_projection f p event src e rows =
     (case parse_data_policy (en_policy (pb_envelope p)) of
        Inl m \<Rightarrow> (Err (Validation [Txt m]), rows)
      | Inr policy \<Rightarrow>
          if policy \<notin> set (fe_classes e)
          then (Err (Validation [Txt (''the federation edge'' @ [CHR 0x27] @ ''s allowed_data_classes exclude this projection'')]), rows)
          else if \<not> may_replicate policy src (Some (fe_jurisdiction e)) (fe_residency e)
          then (Err (Validation [Txt ''data residency policy blocks this projection'']), rows)
          else federation_tx f (\<lambda>d n. sql f ''replication: enqueue failed: '' (\<lambda>rows.
            let row = (queue_row p e (pb_new_id p n))\<lparr>rr_event := event\<rparr>
            in map_sum id (Pair ()) (insert_row f (\<lambda>r. rr_id r = rr_id row \<or> edge_clash row r \<or> fanout_clash row r) row rows)) d n) rows)"

text \<open>\<open>load_federation_edges\<close>: the edges a route reads before it publishes.\<close>

definition load_federation_edges :: "pg \<Rightarrow> publication \<Rightarrow> 'd \<Rightarrow> federation_edge list res \<times> 'd" where
  "load_federation_edges f p d = federation_tx f (read_governance_edges f p) d"

section \<open>What a fanout enqueues\<close>

lemma federation_tx_Ok:
  "federation_tx f body d = (Ok x, d') \<Longrightarrow> \<exists>n. body d 2 = (Inr x, d', n)"
  by (auto simp: federation_tx_def tx_then_def sql_read_Ok numeral_2_eq_2 split: prod.splits sum.splits)

text \<open>The key under which a fanout recognises its rows.\<close>

definition repl_key :: "repl_row \<Rightarrow> uuid \<times> string option \<times> uuid option \<times> uuid option" where
  "repl_key r = (rr_tenant r, rr_event r, rr_target r, rr_target_site r)"

definition edge_key :: "publication \<Rightarrow> federation_edge \<Rightarrow> uuid \<times> string option \<times> uuid option \<times> uuid option" where
  "edge_key p e = (pb_tenant p, Some (pb_event p), Some (fe_target_tenant e), fe_target_site e)"

lemma fanout_key_iff: "fanout_key p e r \<longleftrightarrow> repl_key r = edge_key p e"
  by (auto simp: fanout_key_def repl_key_def edge_key_def)

lemma list_ex_fanout_key: "list_ex (fanout_key p e) rows \<longleftrightarrow> edge_key p e \<in> repl_key ` set rows"
  unfolding list_ex_iff fanout_key_iff by force

lemma repl_key_queue_row [simp]: "repl_key (queue_row p e i) = edge_key p e"
  by (simp add: repl_key_def edge_key_def queue_row_def)

lemma fanout_clash_key: "fanout_clash (queue_row p e i) r \<Longrightarrow> fanout_key p e r"
  by (auto simp: fanout_clash_def fanout_key_def queue_row_def)

lemma map_sum_Inr: "map_sum id g s = Inr y \<longleftrightarrow> (\<exists>x. s = Inr x \<and> y = g x)"
  by (cases s) auto

definition gate :: "publication \<Rightarrow> data_policy \<Rightarrow> federation_edge list \<Rightarrow> federation_edge \<Rightarrow> bool" where
  "gate p policy cur e \<longleftrightarrow> edge_admits p policy e \<and> still_current cur e"

lemma fanout_insert_Ok:
  assumes "fanout_insert f p e d n = (Inr k, d', n')" and "\<not> list_ex (fanout_key p e) d"
  shows "(k = 0 \<and> d' = d \<and> guard_count (pb_governance p n) e \<noteq> 1)
    \<or> (k = 1 \<and> d' = d @ [queue_row p e (pb_new_id p n)] \<and> guard_count (pb_governance p n) e = 1)"
  using assms fanout_clash_key [of p e "pb_new_id p n"]
  by (auto simp: fanout_insert_def Let_def insert_row_Inr map_sum_Inr list_ex_iff split: if_splits)

lemma fanout_edge_cases:
  assumes "fanout_edge f p policy cur e d n = (Inr m, d', n')"
  obtains (fresh) i where "m = Mark_New" "gate p policy cur e" "edge_key p e \<notin> repl_key ` set d"
      "guard_count (pb_governance p i) e = 1" "d' = d @ [queue_row p e (pb_new_id p i)]"
    | (present) "m = Mark_Present" "gate p policy cur e" "edge_key p e \<in> repl_key ` set d" "d' = d"
    | (closed) "m = Mark_Blocked" "\<not> gate p policy cur e" "d' = d"
    | (guarded) i where "m = Mark_Blocked" "gate p policy cur e" "edge_key p e \<notin> repl_key ` set d"
      "guard_count (pb_governance p i) e \<noteq> 1" "d' = d"
proof (cases "gate p policy cur e")
  case False
  then have "m = Mark_Blocked" "d' = d"
    using assms by (auto simp: fanout_edge_def gate_def split: if_splits)
  then show thesis using closed False by blast
next
  case True
  then have run: "fanout_edge f p policy cur e = tx_bind (sql_read f ''replication: fanout duplicate check: '' (list_ex (fanout_key p e)))
      (\<lambda>dup. if dup then tx_return Mark_Present
        else tx_bind (fanout_insert f p e) (\<lambda>k. tx_return (if k = 1 then Mark_New else Mark_Blocked)))"
    by (simp add: fanout_edge_def gate_def)
  show thesis
  proof (cases "list_ex (fanout_key p e) d")
    case dup: True
    then have "m = Mark_Present" "d' = d" using assms dup by (auto simp: run)
    then show thesis using present True dup unfolding list_ex_fanout_key by blast
  next
    case new: False
    then obtain k where ins: "fanout_insert f p e d (n + 1) = (Inr k, d', n')"
      and m: "m = (if k = 1 then Mark_New else Mark_Blocked)"
      using assms by (auto simp: run)
    have free: "edge_key p e \<notin> repl_key ` set d" using new unfolding list_ex_fanout_key .
    from fanout_insert_Ok [OF ins new] show thesis
    proof
      assume "k = 0 \<and> d' = d \<and> guard_count (pb_governance p (n + 1)) e \<noteq> 1"
      then show thesis using guarded [of "n + 1"] True free m by simp
    next
      assume "k = 1 \<and> d' = d @ [queue_row p e (pb_new_id p (n + 1))] \<and> guard_count (pb_governance p (n + 1)) e = 1"
      then show thesis using fresh [of "n + 1"] True free m by simp
    qed
  qed
qed

text \<open>What a fanout adds, in any governance.\<close>

definition granted :: "publication \<Rightarrow> data_policy \<Rightarrow> federation_edge list \<Rightarrow> federation_edge list \<Rightarrow> repl_row \<Rightarrow> bool" where
  "granted p policy cur es r \<longleftrightarrow> (\<exists>e i. e \<in> set es \<and> gate p policy cur e
     \<and> guard_count (pb_governance p i) e = 1 \<and> r = queue_row p e (pb_new_id p i))"

lemma granted_Cons: "granted p policy cur es r \<Longrightarrow> granted p policy cur (e # es) r"
  unfolding granted_def by fastforce

lemma granted_hd:
  "gate p policy cur e \<Longrightarrow> guard_count (pb_governance p i) e = 1 \<Longrightarrow>
     granted p policy cur (e # es) (queue_row p e (pb_new_id p i))"
  unfolding granted_def by fastforce

definition fanout_tally :: "fanout_report \<Rightarrow> nat" where
  "fanout_tally r = fn_new r + fn_present r + fn_blocked r"

lemma fanout_edges_added:
  assumes "fanout_edges f p policy cur es rep d n = (Inr rep', d', n')"
  shows "\<exists>added. d' = d @ added \<and> (\<forall>r \<in> set added. granted p policy cur es r)
    \<and> distinct (map repl_key added) \<and> repl_key ` set added \<inter> repl_key ` set d = {}
    \<and> fn_new rep' = fn_new rep + length added \<and> fanout_tally rep' = fanout_tally rep + length es"
  using assms
proof (induction es arbitrary: rep d n)
  case Nil
  then show ?case by simp
next
  case (Cons e es)
  from Cons.prems obtain m d1 n1 where head: "fanout_edge f p policy cur e d n = (Inr m, d1, n1)"
    and tail: "fanout_edges f p policy cur es (count_mark m rep) d1 n1 = (Inr rep', d', n')"
    by auto
  from Cons.IH [OF tail] obtain added where IH: "d' = d1 @ added" "\<forall>r \<in> set added. granted p policy cur es r"
      "distinct (map repl_key added)" "repl_key ` set added \<inter> repl_key ` set d1 = {}"
      "fn_new rep' = fn_new (count_mark m rep) + length added"
      "fanout_tally rep' = fanout_tally (count_mark m rep) + length es"
    by blast
  have more: "\<forall>r \<in> set added. granted p policy cur (e # es) r"
    using IH(2) granted_Cons by blast
  from head show ?case
  proof (cases rule: fanout_edge_cases)
    case (fresh i)
    have "\<forall>r \<in> set (queue_row p e (pb_new_id p i) # added). granted p policy cur (e # es) r"
      using more granted_hd [OF fresh(2,4)] by simp
    then show ?thesis
      using IH fresh by (intro exI [of _ "queue_row p e (pb_new_id p i) # added"]) (auto simp: fanout_tally_def)
  qed (use IH more in \<open>auto simp: fanout_tally_def\<close>)
qed

lemma fanout_Ok:
  assumes "enqueue_projection_fanout f p edges rows = (Ok rep, rows')"
  obtains policy n where "parse_data_policy (en_policy (pb_envelope p)) = Inr policy"
    "fanout_edges f p policy (decode_governance_edges (pb_tenant p) (pb_site p) (pb_governance p 2)) edges
       \<lparr>fn_new = 0, fn_present = 0, fn_blocked = 0\<rparr> rows 3 = (Inr rep, rows', n)"
  using assms
  by (fastforce simp: enqueue_projection_fanout_def read_governance_edges_def dest: federation_tx_Ok split: sum.splits)

text \<open>The rows that may not leave the country.\<close>

lemma granted_at_home:
  assumes "granted p policy cur es r" and "policy \<in> {Restricted, Personal}"
  shows "rr_jurisdiction r = Some (jurisdiction_str (pb_source p))"
proof -
  from assms(1) obtain e i where e: "edge_admits p policy e" and r: "r = queue_row p e (pb_new_id p i)"
    unfolding granted_def gate_def by blast
  have "pb_source p = fe_jurisdiction e"
    using may_replicate_abroad(1) [of policy "Some (pb_source p)" "fe_jurisdiction e" "fe_residency e"] e assms(2)
    unfolding edge_admits_def by auto
  then show ?thesis by (simp add: r queue_row_def)
qed

text \<open>With a governance that stays as it is, a second run finds every row of the first.\<close>

lemma same_peer_guard:
  assumes "still_current cur e" and "still_current cur e'" and "edge_key p e = edge_key p e'"
  shows "guard_count gov e = guard_count gov e'"
proof -
  have "same_peer e = same_peer e'" using assms(3) by (auto simp: edge_key_def same_peer_def)
  then have "fe_revision e = fe_revision e'"
    using assms(1,2) by (auto simp: still_current_def is_some_and_def edge_governance_unchanged_def split: option.splits)
  then show ?thesis using assms(3) by (simp add: guard_count_def edge_key_def)
qed

definition settled_edges ::
    "publication \<Rightarrow> data_policy \<Rightarrow> federation_edge list \<Rightarrow> (uuid \<times> string option \<times> uuid option \<times> uuid option) set
      \<Rightarrow> federation_edge list \<Rightarrow> federation_edge list" where
  "settled_edges p policy cur K es = filter (\<lambda>e. gate p policy cur e \<and> edge_key p e \<in> K) es"

lemma settled_edges_simps [simp]:
  "settled_edges p policy cur K [] = []"
  "settled_edges p policy cur K (e # es) =
     (if gate p policy cur e \<and> edge_key p e \<in> K then e # settled_edges p policy cur K es
      else settled_edges p policy cur K es)"
  by (simp_all add: settled_edges_def)

definition enqueued_keys ::
    "publication \<Rightarrow> data_policy \<Rightarrow> federation_edge list \<Rightarrow> governance_row list \<Rightarrow> federation_edge list
      \<Rightarrow> (uuid \<times> string option \<times> uuid option \<times> uuid option) set" where
  "enqueued_keys p policy cur gov es = edge_key p ` {e \<in> set es. gate p policy cur e \<and> guard_count gov e = 1}"

lemma fanout_edges_keys:
  assumes "fanout_edges f p policy cur es rep d n = (Inr rep', d', n')"
    and "\<And>k. pb_governance p k = gov"
  shows "repl_key ` set d' = repl_key ` set d \<union> enqueued_keys p policy cur gov es"
  using assms(1)
proof (induction es arbitrary: rep d n)
  case Nil
  then show ?case by (simp add: enqueued_keys_def)
next
  case (Cons e es)
  from Cons.prems obtain m d1 n1 where head: "fanout_edge f p policy cur e d n = (Inr m, d1, n1)"
    and tail: "fanout_edges f p policy cur es (count_mark m rep) d1 n1 = (Inr rep', d', n')"
    by auto
  have "repl_key ` set d1 \<union> enqueued_keys p policy cur gov es
      = repl_key ` set d \<union> enqueued_keys p policy cur gov (e # es)"
    using head by (cases rule: fanout_edge_cases) (auto simp: enqueued_keys_def assms(2))
  then show ?case using Cons.IH [OF tail] by simp
qed

lemma fanout_edges_present:
  assumes "fanout_edges f p policy cur es rep d n = (Inr rep', d', n')"
    and "\<And>k. pb_governance p k = gov"
  shows "fn_new rep' + fn_present rep' = fn_new rep + fn_present rep
    + length (settled_edges p policy cur (repl_key ` set d') es)"
  using assms(1)
proof (induction es arbitrary: rep d n)
  case Nil
  then show ?case by simp
next
  case (Cons e es)
  from Cons.prems obtain m d1 n1 where head: "fanout_edge f p policy cur e d n = (Inr m, d1, n1)"
    and tail: "fanout_edges f p policy cur es (count_mark m rep) d1 n1 = (Inr rep', d', n')"
    by auto
  note IH = Cons.IH [OF tail] and keys = fanout_edges_keys [OF tail assms(2)]
  from head show ?case
  proof (cases rule: fanout_edge_cases)
    case (guarded i)
    have "edge_key p e \<notin> enqueued_keys p policy cur gov es"
    proof
      assume "edge_key p e \<in> enqueued_keys p policy cur gov es"
      then obtain e' where e': "edge_key p e = edge_key p e'" "gate p policy cur e'" "guard_count gov e' = 1"
        unfolding enqueued_keys_def by blast
      then have "guard_count gov e = 1"
        using same_peer_guard [of cur e e' p gov] guarded(2) unfolding gate_def by simp
      then show False using guarded(4) assms(2) by simp
    qed
    then show ?thesis using IH keys guarded by simp
  qed (use IH keys in auto)
qed

lemma fanout_edge_again:
  assumes "stmt_error f = (\<lambda>_. None)"
    and "gate p policy cur e \<Longrightarrow> edge_key p e \<notin> repl_key ` set d \<Longrightarrow> guard_count gov e \<noteq> 1"
    and "\<And>k. pb_governance p k = gov"
  shows "\<exists>n'. fanout_edge f p policy cur e d n =
    (Inr (if gate p policy cur e \<and> edge_key p e \<in> repl_key ` set d then Mark_Present else Mark_Blocked), d, n')"
proof (cases "gate p policy cur e \<and> edge_key p e \<notin> repl_key ` set d")
  case True
  then have "guard_count gov e \<noteq> 1" using assms(2) by blast
  then show ?thesis
    using True assms(1,3) list_ex_fanout_key [of p e d]
    by (simp add: fanout_edge_def gate_def fanout_insert_def tx_bind_def sql_read_def sql_def tx_return_def)
next
  case False
  then show ?thesis
    using assms(1) list_ex_fanout_key [of p e d]
    by (simp add: fanout_edge_def gate_def tx_bind_def sql_read_def sql_def tx_return_def)
qed

lemma fanout_again:
  assumes "stmt_error f = (\<lambda>_. None)" and "\<And>k. pb_governance p k = gov"
    and "\<And>e. e \<in> set es \<Longrightarrow> gate p policy cur e \<Longrightarrow> edge_key p e \<notin> repl_key ` set d \<Longrightarrow> guard_count gov e \<noteq> 1"
  shows "\<exists>n'. fanout_edges f p policy cur es rep d n = (Inr \<lparr>fn_new = fn_new rep,
      fn_present = fn_present rep + length (settled_edges p policy cur (repl_key ` set d) es),
      fn_blocked = fn_blocked rep + (length es - length (settled_edges p policy cur (repl_key ` set d) es))\<rparr>, d, n')"
  using assms(3)
proof (induction es arbitrary: rep n)
  case Nil
  then show ?case by (simp add: tx_return_def)
next
  case (Cons e es)
  define m where "m = (if gate p policy cur e \<and> edge_key p e \<in> repl_key ` set d then Mark_Present else Mark_Blocked)"
  have "gate p policy cur e \<Longrightarrow> edge_key p e \<notin> repl_key ` set d \<Longrightarrow> guard_count gov e \<noteq> 1"
    using Cons.prems [of e] by simp
  from fanout_edge_again [of f p policy cur e d gov, OF assms(1) this assms(2)]
  obtain n1 where head: "fanout_edge f p policy cur e d n = (Inr m, d, n1)" unfolding m_def by blast
  from Cons.IH [of "count_mark m rep" n1] Cons.prems
  obtain n' where tail: "fanout_edges f p policy cur es (count_mark m rep) d n1 = (Inr \<lparr>fn_new = fn_new (count_mark m rep),
      fn_present = fn_present (count_mark m rep) + length (settled_edges p policy cur (repl_key ` set d) es),
      fn_blocked = fn_blocked (count_mark m rep) + (length es - length (settled_edges p policy cur (repl_key ` set d) es))\<rparr>, d, n')"
    by auto
  have "length (settled_edges p policy cur (repl_key ` set d) es) \<le> length es"
    by (simp add: settled_edges_def)
  then show ?case using tail by (simp add: tx_bind_def head m_def)
qed

section \<open>Properties\<close>

text \<open>
  C24. A fanout that returns has only appended rows, one per new edge and never two for one
  key, and has counted every edge; each new row is the queue row of an edge that lets the data
  class out, is unchanged in the governance the transaction read, and is the one membership of
  its revision at the \<open>INSERT\<close>; a restricted or personal projection stays at home.
\<close>

theorem fanout_within_policy:
  assumes "enqueue_projection_fanout f p edges rows = (Ok rep, rows')"
  shows "\<exists>added policy. rows' = rows @ added \<and> length added = fn_new rep
    \<and> fn_new rep + fn_present rep + fn_blocked rep = length edges
    \<and> distinct (map repl_key added) \<and> repl_key ` set added \<inter> repl_key ` set rows = {}
    \<and> en_policy (pb_envelope p) = data_policy_str policy
    \<and> (\<forall>r \<in> set added. (\<exists>e i. e \<in> set edges \<and> r = queue_row p e (pb_new_id p i)
          \<and> policy \<in> set (fe_classes e)
          \<and> allows_export (fe_residency e) policy (pb_source p) (fe_jurisdiction e)
          \<and> still_current (decode_governance_edges (pb_tenant p) (pb_site p) (pb_governance p 2)) e
          \<and> guard_count (pb_governance p i) e = 1)
        \<and> (policy \<in> {Restricted, Personal} \<longrightarrow> rr_jurisdiction r = Some (jurisdiction_str (pb_source p))))"
proof -
  from assms obtain policy n where policy: "parse_data_policy (en_policy (pb_envelope p)) = Inr policy"
    and run: "fanout_edges f p policy (decode_governance_edges (pb_tenant p) (pb_site p) (pb_governance p 2)) edges
      \<lparr>fn_new = 0, fn_present = 0, fn_blocked = 0\<rparr> rows 3 = (Inr rep, rows', n)"
    by (rule fanout_Ok)
  from fanout_edges_added [OF run] obtain added where added: "rows' = rows @ added"
      "\<forall>r \<in> set added. granted p policy (decode_governance_edges (pb_tenant p) (pb_site p) (pb_governance p 2)) edges r"
      "distinct (map repl_key added)" "repl_key ` set added \<inter> repl_key ` set rows = {}"
      "fn_new rep = length added" "fanout_tally rep = length edges"
    by (auto simp: fanout_tally_def)
  have "(\<exists>e i. e \<in> set edges \<and> r = queue_row p e (pb_new_id p i) \<and> policy \<in> set (fe_classes e)
          \<and> allows_export (fe_residency e) policy (pb_source p) (fe_jurisdiction e)
          \<and> still_current (decode_governance_edges (pb_tenant p) (pb_site p) (pb_governance p 2)) e
          \<and> guard_count (pb_governance p i) e = 1)
        \<and> (policy \<in> {Restricted, Personal} \<longrightarrow> rr_jurisdiction r = Some (jurisdiction_str (pb_source p)))"
    if "r \<in> set added" for r
    using bspec [OF added(2) that] granted_at_home [of p policy _ edges r]
    unfolding granted_def gate_def edge_admits_def may_replicate_def by auto
  then show ?thesis
    using added policy by (intro exI [of _ added] exI [of _ policy])
      (auto simp: parse_data_policy_exact fanout_tally_def)
qed

text \<open>Two publications of one command.\<close>

definition same_command :: "publication \<Rightarrow> publication \<Rightarrow> bool" where
  "same_command p q \<longleftrightarrow> pb_tenant q = pb_tenant p \<and> pb_site q = pb_site p \<and> pb_event q = pb_event p
     \<and> en_policy (pb_envelope q) = en_policy (pb_envelope p) \<and> pb_source q = pb_source p"

lemma same_command_gate:
  "same_command p q \<Longrightarrow> gate q policy cur e = gate p policy cur e"
  "same_command p q \<Longrightarrow> edge_key q e = edge_key p e"
  by (auto simp: same_command_def gate_def edge_admits_def edge_key_def)

text \<open>
  C25. A retry converges: against unchanged governance, publishing the command again (with other
  ids and another time, after any other work that leaves the keys of the queue) on a server
  that fails nothing enqueues no row, and reports as present every edge the first run enqueued
  or found, and as blocked those it blocked.
\<close>

theorem fanout_retry_converges:
  assumes "enqueue_projection_fanout f p edges rows = (Ok rep, rows')"
    and "\<And>k. pb_governance p k = gov" and "\<And>k. pb_governance q k = gov"
    and "same_command p q" and "repl_key ` set rows2 = repl_key ` set rows'"
    and "stmt_error f' = (\<lambda>_. None)"
  shows "enqueue_projection_fanout f' q edges rows2 =
    (Ok \<lparr>fn_new = 0, fn_present = fn_new rep + fn_present rep, fn_blocked = fn_blocked rep\<rparr>, rows2)"
proof -
  define cur where "cur = decode_governance_edges (pb_tenant p) (pb_site p) gov"
  from assms(1) obtain policy n where policy: "parse_data_policy (en_policy (pb_envelope p)) = Inr policy"
    and run: "fanout_edges f p policy cur edges \<lparr>fn_new = 0, fn_present = 0, fn_blocked = 0\<rparr> rows 3 = (Inr rep, rows', n)"
    unfolding cur_def assms(2) [symmetric, of 2] by (rule fanout_Ok)
  have "guard_count gov e \<noteq> 1" if "e \<in> set edges" "gate q policy cur e" "edge_key q e \<notin> repl_key ` set rows2" for e
    using that fanout_edges_keys [OF run assms(2)] assms(5) same_command_gate [OF assms(4)]
    by (auto simp: enqueued_keys_def)
  then obtain n' where again: "fanout_edges f' q policy cur edges \<lparr>fn_new = 0, fn_present = 0, fn_blocked = 0\<rparr> rows2 3
      = (Inr \<lparr>fn_new = 0, fn_present = length (settled_edges q policy cur (repl_key ` set rows2) edges),
          fn_blocked = length edges - length (settled_edges q policy cur (repl_key ` set rows2) edges)\<rparr>, rows2, n')"
    using fanout_again [of f' q gov edges policy cur rows2 "\<lparr>fn_new = 0, fn_present = 0, fn_blocked = 0\<rparr>" 3] assms(3,6)
    by auto
  have "settled_edges q policy cur (repl_key ` set rows2) edges = settled_edges p policy cur (repl_key ` set rows') edges"
    using same_command_gate [OF assms(4)] assms(5) by (simp add: settled_edges_def)
  moreover have "fn_new rep + fn_present rep = length (settled_edges p policy cur (repl_key ` set rows') edges)"
    using fanout_edges_present [OF run assms(2)] by simp
  moreover have "fn_new rep + fn_present rep + fn_blocked rep = length edges"
    using fanout_edges_added [OF run] by (auto simp: fanout_tally_def)
  ultimately have report: "length (settled_edges q policy cur (repl_key ` set rows2) edges) = fn_new rep + fn_present rep"
      "length edges - length (settled_edges q policy cur (repl_key ` set rows2) edges) = fn_blocked rep"
    by simp_all
  have blocked: "length edges - (fn_new rep + fn_present rep) = fn_blocked rep"
    using report by simp
  have read: "decode_governance_edges (pb_tenant q) (pb_site q) gov = cur" and label: "en_policy (pb_envelope q) = en_policy (pb_envelope p)"
    using assms(4) by (simp_all add: cur_def same_command_def)
  show ?thesis
    using again assms(6) blocked
    by (simp add: enqueue_projection_fanout_def label policy federation_tx_def read_governance_edges_def tx_then_def
        tx_bind_def sql_read_def sql_def tx_return_def assms(3) read report numeral_2_eq_2 numeral_3_eq_3)
qed

section \<open>A concrete publication\<close>

definition demo_governance :: "governance_row list" where
  "demo_governance =
     [\<lparr>gr_tenant = 20, gr_site = 21, gr_country = ''France'', gr_residency = Some ''FR'', gr_revision = 3,
       gr_classes = JArr [JStr ''internal'', JStr ''personal''], gr_policy = ''allowed_countries'', gr_countries = JArr [JStr ''fr'']\<rparr>,
      \<lparr>gr_tenant = 30, gr_site = 31, gr_country = ''USA'', gr_residency = Some ''us'', gr_revision = 1,
       gr_classes = JArr [JStr ''internal'', JStr ''personal''], gr_policy = ''local_only'', gr_countries = JArr []\<rparr>,
      \<lparr>gr_tenant = 40, gr_site = 41, gr_country = ''Spain'', gr_residency = Some ''spanish'', gr_revision = 1,
       gr_classes = JArr [], gr_policy = ''corporate_allowed'', gr_countries = JArr []\<rparr>]"

definition demo_publication :: "uuid \<Rightarrow> publication" where
  "demo_publication first = \<lparr>pb_tenant = 10, pb_site = Some 11, pb_entity_type = ''andon'', pb_entity = 7,
     pb_projection = JObj [(''status'', JStr ''open'')], pb_event = ''5'',
     pb_envelope = \<lparr>en_schema = 1, en_event = Some ''5'', en_site = Some 11, en_type = ''andon.opened'', en_revision = 1,
       en_policy = ''internal'', en_payload = JObj [(''status'', JStr ''open'')]\<rparr>,
     pb_source = MA, pb_show = (\<lambda>u. []), pb_new_id = (\<lambda>k. first + k), pb_now = 0,
     pb_governance = (\<lambda>k. demo_governance)\<rparr>"

definition demo_edges :: "federation_edge list" where
  "demo_edges = decode_governance_edges 10 (Some 11) demo_governance"

definition demo_report :: fanout_report where
  "demo_report = \<lparr>fn_new = 1, fn_present = 0, fn_blocked = 1\<rparr>"

lemma demo_fanout:
  "enqueue_projection_fanout no_faults (demo_publication 100) demo_edges [] =
     (Ok demo_report, [queue_row (demo_publication 100) (hd demo_edges) 104])"
  by code_simp

lemma fanout_within_policy_witness:
  "\<exists>added. [queue_row (demo_publication 100) (hd demo_edges) 104] = [] @ added
     \<and> length added = fn_new demo_report \<and> en_policy (pb_envelope (demo_publication 100)) = ''internal''
     \<and> fn_new demo_report + fn_present demo_report + fn_blocked demo_report = length demo_edges"
  using fanout_within_policy [OF demo_fanout] by (auto simp: demo_publication_def)

lemma fanout_retry_converges_witness:
  "enqueue_projection_fanout no_faults (demo_publication 200) demo_edges
       [queue_row (demo_publication 100) (hd demo_edges) 104] =
     (Ok \<lparr>fn_new = 0, fn_present = 1, fn_blocked = 1\<rparr>, [queue_row (demo_publication 100) (hd demo_edges) 104])"
proof -
  have "same_command (demo_publication 100) (demo_publication 200)"
    by (simp add: same_command_def demo_publication_def)
  from fanout_retry_converges [where gov = demo_governance, OF demo_fanout _ _ this refl]
  show ?thesis by (simp add: demo_publication_def demo_report_def no_faults_def)
qed

section \<open>Publications that overlap\<close>

text \<open>
  The fanout of one edge while another transaction commits \<open>others\<close> between the duplicate
  check and the \<open>INSERT\<close>. Alone it is \<open>fanout_edge\<close>.
\<close>

definition overlapped_edge ::
    "pg \<Rightarrow> publication \<Rightarrow> data_policy \<Rightarrow> federation_edge list \<Rightarrow> federation_edge \<Rightarrow> (repl_row list \<Rightarrow> repl_row list)
      \<Rightarrow> (repl_row list, sensei_error, fanout_mark) step" where
  "overlapped_edge f p policy cur e others =
     (if \<not> edge_admits p policy e then tx_return Mark_Blocked
      else if \<not> still_current cur e then tx_return Mark_Blocked
      else tx_bind (sql_read f ''replication: fanout duplicate check: '' (list_ex (fanout_key p e)))
        (\<lambda>dup. if dup then tx_return Mark_Present
          else tx_then (\<lambda>d n. (Inr (), others d, n))
            (tx_bind (fanout_insert f p e) (\<lambda>k. tx_return (if k = 1 then Mark_New else Mark_Blocked)))))"

lemma overlapped_edge_alone: "overlapped_edge f p policy cur e (\<lambda>d. d) = fanout_edge f p policy cur e"
  by (intro ext) (auto simp: overlapped_edge_def fanout_edge_def tx_bind_def tx_then_def tx_return_def
      split: prod.splits sum.splits)

text \<open>
  If the other transaction enqueued the very projection for the edge, the \<open>INSERT\<close> meets its
  row; the service counts the duplicate as blocked by the governance guard.
\<close>

lemma duplicate_counted_blocked:
  assumes "edge_admits p policy e" and "still_current cur e" and "stmt_error f = (\<lambda>_. None)"
    and "\<not> list_ex (fanout_key p e) rows"
    and "list_ex (fanout_clash (queue_row p e (pb_new_id p (n + 1)))) (others rows)"
  shows "overlapped_edge f p policy cur e others rows n = (Inr Mark_Blocked, others rows, n + 2)"
  using assms by (simp add: overlapped_edge_def fanout_insert_def sql_read_def sql_def tx_bind_def tx_then_def
      tx_return_def Let_def)

end
