(* ===== verification/Federation.thy ===== *)
theory Federation
  imports Residency
begin

text \<open>
  The federation after the fanout (\<open>sensei-services/src/tps/replication.rs\<close>,
  \<open>target_projectors.rs\<close>): the leases of the source queue, the reservation in the inbox of the
  target, the state machine that applies a projection through a registered projector, the
  receipt, and the poll of the source that confirms it. One state holds the tables of all
  tenants; a row-level security policy is the comparison of a row's tenant with the context of
  the transaction. SHA-256 of the canonical JSON, the text of UUIDs and RFC 3339 are parameters.
\<close>

section \<open>Tables\<close>

record inbox_row =
  ib_id :: uuid
  ib_tenant :: uuid
  ib_source :: uuid
  ib_queue :: "uuid option"
  ib_site :: "uuid option"
  ib_event :: uuid
  ib_type :: string
  ib_revision :: int
  ib_target :: uuid
  ib_target_site :: "uuid option"
  ib_hash :: "string option"
  ib_status :: string
  ib_received :: timestamp
  ib_started :: "timestamp option"
  ib_applied :: "timestamp option"
  ib_failed :: "timestamp option"

record application_receipt =
  rc_id :: uuid
  rc_tenant :: uuid
  rc_source :: uuid
  rc_queue :: uuid
  rc_site :: "uuid option"
  rc_event :: uuid
  rc_target :: uuid
  rc_target_site :: "uuid option"
  rc_inbox :: uuid
  rc_type :: string
  rc_revision :: int
  rc_hash :: string
  rc_received :: timestamp
  rc_applied :: timestamp

text \<open>The columns of \<open>operational_events\<close> that a mirror writes, and the links to its objects.\<close>

record mirror_event =
  me_id :: uuid
  me_tenant :: uuid
  me_type :: string
  me_occurred :: timestamp
  me_recorded :: timestamp
  me_objects :: json
  me_system :: string
  me_source :: string
  me_sensitivity :: string
  me_payload :: json
  me_key :: string

record mirror_object =
  mo_tenant :: uuid
  mo_event :: uuid
  mo_type :: string
  mo_object :: uuid
  mo_role :: string

record federation_db =
  fb_queue :: "repl_row list"
  fb_inbox :: "inbox_row list"
  fb_receipts :: "application_receipt list"
  fb_events :: "mirror_event list"
  fb_objects :: "mirror_object list"

definition empty_federation :: federation_db where
  "empty_federation = \<lparr>fb_queue = [], fb_inbox = [], fb_receipts = [], fb_events = [], fb_objects = []\<rparr>"

record replication_entry =
  re_id :: uuid
  re_site :: "uuid option"
  re_entity_type :: string
  re_entity :: "uuid option"
  re_projection :: json
  re_event :: "string option"
  re_created :: timestamp
  re_token :: "uuid option"
  re_target :: "uuid option"
  re_target_site :: "uuid option"
  re_jurisdiction :: "string option"
  re_schema :: nat
  re_type :: string
  re_revision :: nat
  re_policy :: string

definition entry_of_row :: "repl_row \<Rightarrow> replication_entry" where
  "entry_of_row r = \<lparr>re_id = rr_id r, re_site = rr_site r, re_entity_type = rr_entity_type r,
     re_entity = rr_entity r, re_projection = rr_projection r, re_event = rr_event r, re_created = rr_created r,
     re_token = None, re_target = rr_target r, re_target_site = rr_target_site r,
     re_jurisdiction = rr_jurisdiction r, re_schema = as_u32 (rr_schema r), re_type = row_type r,
     re_revision = as_u64 (rr_revision r), re_policy = rr_policy r\<rparr>"

text \<open>
  The parameters that do not change from call to call, and what the server and the clock do in
  one transaction: the id or default that each statement draws, the tokens of a claim, the rows
  that other transactions have locked, and the text of a statement in an aborted transaction.
\<close>

record federation_codec =
  fc_hash :: "json \<Rightarrow> string + string"
  fc_uuid :: "string \<Rightarrow> uuid option"
  fc_show :: "uuid \<Rightarrow> string"
  fc_rfc3339 :: "string \<Rightarrow> timestamp option"

record federation_world =
  fw_now :: timestamp
  fw_clock :: timestamp
  fw_id :: "nat \<Rightarrow> uuid"
  fw_token :: "uuid \<Rightarrow> uuid"
  fw_locked :: "uuid \<Rightarrow> bool"
  fw_aborted :: string

definition projection_payload_hash :: "federation_codec \<Rightarrow> json \<Rightarrow> ('d, sensei_error, string) step" where
  "projection_payload_hash c j =
     (case fc_hash c j of
        Inl e \<Rightarrow> tx_fail (Internal [Txt ''replication: payload canonicalization: '', FStr e])
      | Inr h \<Rightarrow> tx_return h)"

definition update_where :: "('r \<Rightarrow> bool) \<Rightarrow> ('r \<Rightarrow> 'r) \<Rightarrow> 'r list \<Rightarrow> nat \<times> 'r list" where
  "update_where hit g rows = (length (filter hit rows), map (\<lambda>r. if hit r then g r else r) rows)"

definition on_queue :: "(repl_row list \<Rightarrow> 'a \<times> repl_row list) \<Rightarrow> federation_db \<Rightarrow> 'a \<times> federation_db" where
  "on_queue g d = (case g (fb_queue d) of (x, q) \<Rightarrow> (x, d\<lparr>fb_queue := q\<rparr>))"

definition on_inbox :: "(inbox_row list \<Rightarrow> 'a \<times> inbox_row list) \<Rightarrow> federation_db \<Rightarrow> 'a \<times> federation_db" where
  "on_inbox g d = (case g (fb_inbox d) of (x, q) \<Rightarrow> (x, d\<lparr>fb_inbox := q\<rparr>))"

section \<open>Leases of the source queue\<close>

definition lease_lapsed :: "timestamp \<Rightarrow> uuid \<Rightarrow> repl_row \<Rightarrow> bool" where
  "lease_lapsed now t r \<longleftrightarrow> rr_tenant r = t \<and> rr_status r = ''claimed'' \<and> is_some_and (rr_lease r) (\<lambda>u. u < now)"

definition back_to_pending :: "repl_row \<Rightarrow> repl_row" where
  "back_to_pending r = r\<lparr>rr_status := ''pending'', rr_token := None\<rparr>"

definition release_expired :: "pg \<Rightarrow> federation_world \<Rightarrow> uuid \<Rightarrow> federation_db \<Rightarrow> nat res \<times> federation_db" where
  "release_expired f w t d = federation_tx f (sql f ''replication: release expired failed: ''
     (\<lambda>d. Inr (on_queue (update_where (lease_lapsed (fw_now w) t) back_to_pending) d))) d"

text \<open>\<open>INTERVAL '5 minutes'\<close> in microseconds.\<close>

definition REPLICATION_LEASE :: int where
  "REPLICATION_LEASE = 5 * 60 * 1000000"

definition repl_claimable :: "federation_world \<Rightarrow> uuid \<Rightarrow> repl_row \<Rightarrow> bool" where
  "repl_claimable w t r \<longleftrightarrow> rr_tenant r = t \<and> \<not> fw_locked w (rr_id r)
     \<and> (rr_status r = ''pending'' \<or> rr_status r = ''failed'' \<and> is_some_and (rr_next r) (\<lambda>u. u \<le> fw_now w))"

definition lease_row :: "federation_world \<Rightarrow> repl_row \<Rightarrow> repl_row" where
  "lease_row w r = r\<lparr>rr_status := ''claimed'', rr_token := Some (fw_token w (rr_id r)),
     rr_claimed := Some (fw_now w), rr_lease := Some (fw_now w + REPLICATION_LEASE), rr_attempts := rr_attempts r + 1\<rparr>"

definition select_claimable :: "pg \<Rightarrow> federation_world \<Rightarrow> uuid \<Rightarrow> int \<Rightarrow> (federation_db, sensei_error, replication_entry list) step" where
  "select_claimable f w t batch = sql_fetch f ''replication: claim failed: ''
     (\<lambda>d. if batch < 0 then Inl (range_error f)
          else Inr (map entry_of_row (take (nat batch)
            (sort_key rr_created (sort_key rr_id (filter (repl_claimable w t) (fb_queue d)))))))"

definition lease_entries :: "pg \<Rightarrow> federation_world \<Rightarrow> uuid \<Rightarrow> replication_entry list \<Rightarrow> (federation_db, sensei_error, replication_entry list) step" where
  "lease_entries f w t es =
     (if es = [] then tx_return []
      else tx_then (sql f ''replication: lease failed: ''
          (\<lambda>d. Inr (on_queue (update_where (\<lambda>r. rr_tenant r = t \<and> rr_id r \<in> re_id ` set es) (lease_row w)) d)))
        (tx_return (map (\<lambda>e. e\<lparr>re_token := Some (fw_token w (re_id e))\<rparr>) es)))"

definition claim_projections ::
    "pg \<Rightarrow> federation_world \<Rightarrow> uuid \<Rightarrow> int \<Rightarrow> federation_db \<Rightarrow> replication_entry list res \<times> federation_db" where
  "claim_projections f w t batch d = federation_tx f
     (tx_then (sql f ''replication: auto-reclaim: ''
         (\<lambda>d. Inr (on_queue (update_where (lease_lapsed (fw_now w) t) back_to_pending) d)))
      (tx_bind (select_claimable f w t batch) (lease_entries f w t))) d"

definition held_by :: "uuid \<Rightarrow> uuid \<Rightarrow> uuid \<Rightarrow> repl_row \<Rightarrow> bool" where
  "held_by t i k r \<longleftrightarrow> rr_id r = i \<and> rr_tenant r = t \<and> rr_token r = Some k"

definition ack_projection :: "pg \<Rightarrow> federation_world \<Rightarrow> uuid \<Rightarrow> uuid \<Rightarrow> uuid \<Rightarrow> federation_db \<Rightarrow> unit res \<times> federation_db" where
  "ack_projection f w t i k d = federation_tx f (tx_bind (sql f ''replication: ack failed: ''
      (\<lambda>d. Inr (on_queue (update_where (held_by t i k)
         (\<lambda>r. r\<lparr>rr_status := ''acked'', rr_acked := Some (fw_now w)\<rparr>)) d)))
     (\<lambda>n. refuse_if (n = 0) (NotFound [Txt ''replication: ack rejected -- no row with this id and claim token'']))) d"

definition fail_projection ::
    "pg \<Rightarrow> federation_world \<Rightarrow> uuid \<Rightarrow> uuid \<Rightarrow> uuid \<Rightarrow> string \<Rightarrow> int \<Rightarrow> federation_db \<Rightarrow> unit res \<times> federation_db" where
  "fail_projection f w t i k err secs d = federation_tx f (tx_bind (sql f ''replication: fail failed: ''
      (\<lambda>d. Inr (on_queue (update_where (held_by t i k)
         (\<lambda>r. r\<lparr>rr_status := ''failed'', rr_error := Some err, rr_next := Some (fw_now w + secs * 1000000)\<rparr>)) d)))
     (\<lambda>n. refuse_if (n = 0) (NotFound [Txt ''replication: fail rejected -- no row with this id and claim token'']))) d"

section \<open>The inbox of the target\<close>

text \<open>The key of the reservation; a UNIQUE constraint never matches a NULL site.\<close>

definition inbox_key :: "uuid \<Rightarrow> uuid \<Rightarrow> uuid \<Rightarrow> string \<Rightarrow> int \<Rightarrow> uuid \<Rightarrow> uuid option \<Rightarrow> inbox_row \<Rightarrow> bool" where
  "inbox_key t src ev ty version dst site r \<longleftrightarrow> ib_tenant r = t \<and> ib_source r = src \<and> ib_event r = ev
     \<and> ib_type r = ty \<and> ib_revision r = version \<and> ib_target r = dst \<and> ib_target_site r = site"

definition insert_inbox_receipt_tx ::
    "pg \<Rightarrow> federation_world \<Rightarrow> uuid \<Rightarrow> uuid \<Rightarrow> uuid \<Rightarrow> uuid option \<Rightarrow> uuid \<Rightarrow> string \<Rightarrow> nat \<Rightarrow> uuid option \<Rightarrow> string
      \<Rightarrow> (federation_db, sensei_error, bool) step" where
  "insert_inbox_receipt_tx f w t src qid site ev ty version dsite h d n =
     sql f ''replication: target inbox reservation failed: '' (\<lambda>d.
       if dsite \<noteq> None \<and> list_ex (inbox_key t src ev ty (i64_wrap (int version)) t dsite) (fb_inbox d)
       then Inr (False, d)
       else map_sum id (\<lambda>rows. (True, d\<lparr>fb_inbox := rows\<rparr>)) (insert_row f (\<lambda>r. ib_id r = fw_id w n)
         \<lparr>ib_id = fw_id w n, ib_tenant = t, ib_source = src, ib_queue = Some qid, ib_site = site, ib_event = ev,
          ib_type = ty, ib_revision = i64_wrap (int version), ib_target = t, ib_target_site = dsite,
          ib_hash = Some h, ib_status = ''received'', ib_received = fw_now w, ib_started = None,
          ib_applied = None, ib_failed = None\<rparr> (fb_inbox d))) d n"

definition event_uuid :: "federation_codec \<Rightarrow> replication_entry \<Rightarrow> uuid option" where
  "event_uuid c e = (case re_event e of None \<Rightarrow> None | Some s \<Rightarrow> fc_uuid c s)"

definition deliver_to_target_inbox ::
    "pg \<Rightarrow> federation_codec \<Rightarrow> federation_world \<Rightarrow> uuid \<Rightarrow> replication_entry \<Rightarrow> federation_db \<Rightarrow> bool res \<times> federation_db" where
  "deliver_to_target_inbox f c w src e d =
     (case re_target e of
        None \<Rightarrow> (Err (Validation [Txt ''replication: deliver_to_target_inbox requires an entry naming its target tenant (target_tenant_id) -- a destination-less row cannot reserve a target inbox'']), d)
      | Some dst \<Rightarrow>
     (case event_uuid c e of
        None \<Rightarrow> (Err (Validation [Txt ''replication: deliver_to_target_inbox requires a UUID source_event_id -- the target inbox receipt is keyed on the source event, and a key-less entry cannot be reserved'']), d)
      | Some ev \<Rightarrow>
     (case fc_hash c (re_projection e) of
        Inl m \<Rightarrow> (Err (Internal [Txt ''replication: payload canonicalization: '', FStr m]), d)
      | Inr h \<Rightarrow> federation_tx f
          (insert_inbox_receipt_tx f w dst src (re_id e) (re_site e) ev (re_type e) (re_revision e) (re_target_site e) h) d)))"

definition reserve_target_inbox ::
    "pg \<Rightarrow> federation_world \<Rightarrow> uuid \<Rightarrow> uuid \<Rightarrow> uuid \<Rightarrow> uuid option \<Rightarrow> uuid \<Rightarrow> string \<Rightarrow> nat \<Rightarrow> uuid \<Rightarrow> uuid option \<Rightarrow> string
      \<Rightarrow> federation_db \<Rightarrow> bool res \<times> federation_db" where
  "reserve_target_inbox f w t src qid site ev ty version dst dsite h d =
     (if t \<noteq> dst
      then (Err (Validation [Txt ''replication: the inbox receipt owner (tenant_id) must BE the target tenant (target_tenant_id) -- a receipt owned by any other tenant would mis-record the target'', Txt ([CHR 0x27] @ ''s inbox'')]), d)
      else federation_tx f (insert_inbox_receipt_tx f w t src qid site ev ty version dsite h) d)"

definition target_inbox_exists ::
    "pg \<Rightarrow> uuid \<Rightarrow> uuid \<Rightarrow> uuid \<Rightarrow> string \<Rightarrow> nat \<Rightarrow> uuid \<Rightarrow> uuid option \<Rightarrow> federation_db \<Rightarrow> bool res \<times> federation_db" where
  "target_inbox_exists f t src ev ty version dst dsite d =
     federation_tx f (sql_read f ''replication: target inbox exists: ''
       (\<lambda>d. list_ex (inbox_key t src ev ty (i64_wrap (int version)) dst dsite) (fb_inbox d))) d"

definition target_apply_status ::
    "pg \<Rightarrow> uuid \<Rightarrow> uuid \<Rightarrow> uuid \<Rightarrow> string \<Rightarrow> nat \<Rightarrow> uuid \<Rightarrow> uuid option \<Rightarrow> federation_db \<Rightarrow> string option res \<times> federation_db" where
  "target_apply_status f t src ev ty version dst dsite d =
     federation_tx f (sql_read f ''replication: target apply status read: ''
       (\<lambda>d. map_option ib_status (find (inbox_key t src ev ty (i64_wrap (int version)) dst dsite)
          (order_by f (\<lambda>_. 0 :: nat) (fb_inbox d))))) d"

section \<open>Registered projectors\<close>

definition registered_target_projector :: "string \<Rightarrow> string option" where
  "registered_target_projector entity_type = (if entity_type \<in> {''andon'', ''work_order''} then Some entity_type else None)"

text \<open>Inserting a key of an object replaces the value that is there; the order of keys is not kept by \<open>jsonb\<close>.\<close>

fun put_field :: "string \<Rightarrow> json \<Rightarrow> (string \<times> json) list \<Rightarrow> (string \<times> json) list" where
  "put_field k v [] = [(k, v)]"
| "put_field k v ((k', v') # fs) = (if k' = k then (k, v) # fs else (k', v') # put_field k v fs)"

definition with_provenance :: "federation_codec \<Rightarrow> uuid \<Rightarrow> uuid \<Rightarrow> replication_entry \<Rightarrow> json" where
  "with_provenance c src ev e =
     (case re_projection e of
        JObj fs \<Rightarrow> JObj (put_field ''federation_provenance'' (JObj
          [(''source_tenant_id'', JStr (fc_show c src)), (''source_queue_id'', JStr (fc_show c (re_id e))),
           (''source_site_id'', case re_site e of None \<Rightarrow> JNull | Some s \<Rightarrow> JStr (fc_show c s)),
           (''source_event_id'', JStr (fc_show c ev))]) fs)
      | j \<Rightarrow> j)"

definition projection_time :: "federation_codec \<Rightarrow> federation_world \<Rightarrow> json \<Rightarrow> timestamp" where
  "projection_time c w j =
     (case j of
        JObj fs \<Rightarrow>
          (case map_of fs ''occurred_at'' of
             Some (JStr s) \<Rightarrow> (case fc_rfc3339 c s of Some t \<Rightarrow> t | None \<Rightarrow> fw_clock w)
           | _ \<Rightarrow> fw_clock w)
      | _ \<Rightarrow> fw_clock w)"

definition subject_objects :: "federation_codec \<Rightarrow> string \<Rightarrow> uuid \<Rightarrow> json" where
  "subject_objects c ty i = JArr [JObj [(''object_type'', JStr ty), (''object_id'', JStr (fc_show c i)), (''role'', JStr ''subject'')]]"

definition mirror_row ::
    "federation_codec \<Rightarrow> federation_world \<Rightarrow> nat \<Rightarrow> string \<Rightarrow> uuid \<Rightarrow> uuid \<Rightarrow> uuid \<Rightarrow> uuid \<Rightarrow> replication_entry \<Rightarrow> mirror_event" where
  "mirror_row c w n ty dst src ev subject e =
     (let ptype = (if re_type e = [] then re_entity_type e else re_type e)
      in \<lparr>me_id = fw_id w n, me_tenant = dst, me_type = ptype, me_occurred = projection_time c w (re_projection e),
          me_recorded = fw_now w, me_objects = subject_objects c ty subject, me_system = ''federation'',
          me_source = fc_show c ev,
          me_sensitivity = (case parse_data_policy (re_policy e) of Inl _ \<Rightarrow> ''internal'' | Inr p \<Rightarrow> data_policy_str p),
          me_payload = with_provenance c src ev e, me_key = ''fed:'' @ fc_show c ev @ '':'' @ ptype\<rparr>)"

definition mirror_slot :: "uuid \<Rightarrow> string \<Rightarrow> mirror_event \<Rightarrow> bool" where
  "mirror_slot t source m \<longleftrightarrow> me_tenant m = t \<and> me_system m = ''federation'' \<and> me_source m = source"

definition insert_mirror ::
    "pg \<Rightarrow> federation_codec \<Rightarrow> federation_world \<Rightarrow> string \<Rightarrow> uuid \<Rightarrow> uuid \<Rightarrow> uuid \<Rightarrow> uuid \<Rightarrow> replication_entry
      \<Rightarrow> (federation_db, sensei_error, uuid option) step" where
  "insert_mirror f c w ty dst src ev subject e d n =
     sql f ''replication: mirror event: '' (\<lambda>d.
       let m = mirror_row c w n ty dst src ev subject e
       in if list_ex (mirror_slot dst (me_source m)) (fb_events d) then Inr (None, d)
          else map_sum id (\<lambda>rows. (Some (me_id m), d\<lparr>fb_events := rows\<rparr>))
            (insert_row f (\<lambda>q. me_id q = me_id m) m (fb_events d))) d n"

definition insert_mirror_object ::
    "pg \<Rightarrow> string \<Rightarrow> uuid \<Rightarrow> uuid \<Rightarrow> uuid \<Rightarrow> (federation_db, sensei_error, unit) step" where
  "insert_mirror_object f ty dst event subject =
     sql f ''replication: mirror object projection: '' (\<lambda>d.
       Inr ((), d\<lparr>fb_objects := fb_objects d @ [\<lparr>mo_tenant = dst, mo_event = event, mo_type = ty,
         mo_object = subject, mo_role = ''subject''\<rparr>]\<rparr>))"

definition mirror_projection ::
    "pg \<Rightarrow> federation_codec \<Rightarrow> federation_world \<Rightarrow> string \<Rightarrow> uuid \<Rightarrow> uuid \<Rightarrow> replication_entry \<Rightarrow> (federation_db, sensei_error, unit) step" where
  "mirror_projection f c w ty dst src e =
     (case event_uuid c e of
        None \<Rightarrow> tx_fail (Validation [Txt ''projector: the entry carries no UUID source_event_id -- a mirror without a source event identity would be unauditable and is refused''])
      | Some ev \<Rightarrow>
     (case re_entity e of
        None \<Rightarrow> tx_fail (Validation [Txt ''projector: the entry carries no entity_id -- the mirror binds the subject identity, and a projection without one is refused''])
      | Some subject \<Rightarrow> tx_bind (insert_mirror f c w ty dst src ev subject e)
          (\<lambda>i. case i of None \<Rightarrow> tx_return () | Some event \<Rightarrow> insert_mirror_object f ty dst event subject)))"

section \<open>Applying a projection\<close>

definition inbox_move :: "pg \<Rightarrow> string \<Rightarrow> uuid \<Rightarrow> string \<Rightarrow> (inbox_row \<Rightarrow> inbox_row) \<Rightarrow> (federation_db, sensei_error, nat) step" where
  "inbox_move f msg i from g =
     sql f msg (\<lambda>d. Inr (on_inbox (update_where (\<lambda>r. ib_id r = i \<and> ib_status r = from) g) d))"

definition fail_inbox_apply_tx :: "pg \<Rightarrow> federation_world \<Rightarrow> uuid \<Rightarrow> string \<Rightarrow> (federation_db, sensei_error, nat) step" where
  "fail_inbox_apply_tx f w i from = inbox_move f ''replication: reconcile-required transition failed: '' i from
     (\<lambda>r. r\<lparr>ib_status := ''reconcile_required'', ib_failed := Some (fw_now w)\<rparr>)"

definition applying_row :: "federation_world \<Rightarrow> inbox_row \<Rightarrow> inbox_row" where
  "applying_row w r = r\<lparr>ib_status := ''applying'', ib_started := Some (fw_now w)\<rparr>"

definition applied_row :: "federation_world \<Rightarrow> inbox_row \<Rightarrow> inbox_row" where
  "applied_row w r = r\<lparr>ib_status := ''applied'', ib_applied := Some (fw_now w)\<rparr>"

definition receipt_of :: "federation_world \<Rightarrow> nat \<Rightarrow> uuid \<Rightarrow> uuid \<Rightarrow> replication_entry \<Rightarrow> uuid \<Rightarrow> uuid \<Rightarrow> string \<Rightarrow> timestamp \<Rightarrow> application_receipt" where
  "receipt_of w n dst src e ev i h received =
     \<lparr>rc_id = fw_id w n, rc_tenant = dst, rc_source = src, rc_queue = re_id e, rc_site = re_site e, rc_event = ev,
      rc_target = dst, rc_target_site = re_target_site e, rc_inbox = i, rc_type = re_type e,
      rc_revision = i64_wrap (int (re_revision e)), rc_hash = h, rc_received = received, rc_applied = fw_now w\<rparr>"

definition receipt_clash :: "application_receipt \<Rightarrow> application_receipt \<Rightarrow> bool" where
  "receipt_clash q r \<longleftrightarrow> rc_id r = rc_id q
     \<or> (rc_tenant r = rc_tenant q \<and> rc_source r = rc_source q \<and> rc_event r = rc_event q \<and> rc_type r = rc_type q
        \<and> rc_revision r = rc_revision q \<and> rc_target r = rc_target q \<and> rc_target_site r = rc_target_site q
        \<and> rc_target_site q \<noteq> None)"

definition bind_application_receipt_tx ::
    "pg \<Rightarrow> federation_world \<Rightarrow> uuid \<Rightarrow> uuid \<Rightarrow> replication_entry \<Rightarrow> uuid \<Rightarrow> uuid \<Rightarrow> string \<Rightarrow> timestamp
      \<Rightarrow> (federation_db, sensei_error, unit) step" where
  "bind_application_receipt_tx f w dst src e ev i h received d n =
     sql f ''replication: receipt binding failed: '' (\<lambda>d.
       let q = receipt_of w n dst src e ev i h received
       in if list_ex (\<lambda>r. rc_tenant r = dst \<and> rc_inbox r = i) (fb_receipts d) then Inr ((), d)
          else map_sum id (\<lambda>rows. ((), d\<lparr>fb_receipts := rows\<rparr>))
            (insert_row f (receipt_clash q) q (fb_receipts d))) d n"

text \<open>
  The body fails in two ways: with an answer of its own, after which the row is marked, or with
  a failed statement, after which the transaction is aborted and the mark fails as well.
\<close>

definition server_failed :: "sensei_error \<Rightarrow> bool" where
  "server_failed e = (case e of Database _ \<Rightarrow> True | _ \<Rightarrow> False)"

definition body_or_mark ::
    "pg \<Rightarrow> federation_world \<Rightarrow> uuid \<Rightarrow> (federation_db, sensei_error, unit) step \<Rightarrow> (federation_db, sensei_error, unit) step" where
  "body_or_mark f w i body d n =
     (case body d n of
        (Inr x, d', n') \<Rightarrow> (Inr x, d', n')
      | (Inl e, d', n') \<Rightarrow>
          if server_failed e
          then (Inl (Database [Txt ''replication: reconcile-required transition failed: '', FStr (fw_aborted w)]), d', n' + 1)
          else tx_bind (fail_inbox_apply_tx f w i ''applying'') (\<lambda>_. tx_fail e) d' n')"

definition apply_received ::
    "pg \<Rightarrow> federation_codec \<Rightarrow> federation_world \<Rightarrow> uuid \<Rightarrow> uuid \<Rightarrow> uuid \<Rightarrow> replication_entry \<Rightarrow> inbox_row \<Rightarrow> string \<Rightarrow> string
      \<Rightarrow> (federation_db, sensei_error, unit) step" where
  "apply_received f c w dst src ev e i ty h =
     tx_bind (inbox_move f ''replication: apply start failed: '' (ib_id i) ''received'' (applying_row w)) (\<lambda>k.
     if k \<noteq> 1 then tx_fail (Validation [Txt ''replication: the inbox row was already being applied by another worker -- no second apply may start''])
     else tx_then (body_or_mark f w (ib_id i) (mirror_projection f c w ty dst src e))
      (tx_bind (inbox_move f ''replication: apply completion failed: '' (ib_id i) ''applying'' (applied_row w)) (\<lambda>k.
       if k \<noteq> 1 then tx_fail (Internal [Txt ''replication: the applied transition lost the applying row -- the state machine guard must be atomic''])
       else bind_application_receipt_tx f w dst src e ev (ib_id i) h (ib_received i))))"

definition apply_matching ::
    "pg \<Rightarrow> federation_codec \<Rightarrow> federation_world \<Rightarrow> uuid \<Rightarrow> uuid \<Rightarrow> uuid \<Rightarrow> replication_entry \<Rightarrow> inbox_row
      \<Rightarrow> (federation_db, sensei_error, unit) step" where
  "apply_matching f c w dst src ev e i =
     tx_bind (projection_payload_hash c (re_projection e)) (\<lambda>h.
     case ib_hash i of
       None \<Rightarrow> tx_fail (Validation [Txt ''replication: the inbox row for '', Txt (re_entity_type e), Txt '' carries no delivery payload_hash -- the apply cannot verify the projection against the delivered payload and is refused (redeliver the entry so delivery can bind the hash)''])
     | Some stored \<Rightarrow>
         if stored \<noteq> h
         then tx_then (fail_inbox_apply_tx f w (ib_id i) ''received'')
           (tx_fail (Validation [Txt ''replication: payload hash mismatch for '', Txt (re_entity_type e), Txt '' -- the projection about to be applied does not match the payload delivery recorded, so the row is marked '', Txt (quoted ''reconcile_required''), Txt '' instead of applied'']))
         else (case registered_target_projector (re_entity_type e) of
             None \<Rightarrow> tx_fail (Validation [Txt ''no target projector is registered for '', Txt (re_entity_type e), Txt '' -- application is refused rather than falsely recorded''])
           | Some ty \<Rightarrow> apply_received f c w dst src ev e i ty h))"

definition apply_found ::
    "pg \<Rightarrow> federation_codec \<Rightarrow> federation_world \<Rightarrow> uuid \<Rightarrow> uuid \<Rightarrow> uuid \<Rightarrow> replication_entry \<Rightarrow> inbox_row option
      \<Rightarrow> (federation_db, sensei_error, unit) step" where
  "apply_found f c w dst src ev e row =
     (case row of
        None \<Rightarrow> tx_fail (Validation [Txt ''replication: no inbox receipt is reserved for '', Txt (re_entity_type e), Txt '' -- applying an unreserved projection is refused rather than falsely recorded (deliver_to_target_inbox must run first)''])
      | Some i \<Rightarrow>
          if ib_queue i \<noteq> Some (re_id e)
          then tx_fail (Validation [Txt ''replication: the inbox receipt for '', Txt (re_entity_type e), Txt '' is bound to a different source queue row -- applying through a mismatched entry is refused rather than mis-bound''])
          else if ib_status i = ''applied'' then tx_return ()
          else if ib_status i = ''applying''
          then tx_fail (Validation [Txt ''replication: the inbox row for '', Txt (re_entity_type e), Txt '' is already being applied (status '', Txt (quoted ''applying''), Txt '') -- an inbox row is applied by exactly one worker, and no second apply may start''])
          else if ib_status i = ''reconcile_required''
          then tx_fail (Validation [Txt ''replication: the inbox row for '', Txt (re_entity_type e), Txt '' is in '', Txt (quoted ''reconcile_required''), Txt '' -- the previous application failed and must be reconciled before any new apply''])
          else if ib_status i = ''received'' then apply_matching f c w dst src ev e i
          else tx_fail (Validation [Txt ''replication: unknown inbox status '', Txt (quoted (ib_status i)), Txt '' for '', Txt (re_entity_type e), Txt '' -- the migration-166 CHECK makes this unreachable; fail-closed anyway'']))"

definition apply_target_projection ::
    "pg \<Rightarrow> federation_codec \<Rightarrow> federation_world \<Rightarrow> uuid \<Rightarrow> uuid \<Rightarrow> replication_entry \<Rightarrow> (federation_db, sensei_error, unit) step" where
  "apply_target_projection f c w context_tenant src e =
     (case event_uuid c e of
        None \<Rightarrow> tx_fail (Validation [Txt ''replication: apply_target_projection requires a UUID source_event_id -- a key-less entry has no reservable inbox receipt''])
      | Some ev \<Rightarrow>
     (case re_target e of
        None \<Rightarrow> tx_fail (Validation [Txt ''replication: apply_target_projection requires an entry naming its target tenant (target_tenant_id) -- a destination-less entry has no reserved receipt''])
      | Some dst \<Rightarrow> tx_bind (sql_read f ''replication: apply inbox-receipt validation: ''
           (\<lambda>d. find (\<lambda>r. ib_tenant r = context_tenant \<and> ib_site r = re_site e
                \<and> inbox_key dst src ev (re_type e) (i64_wrap (int (re_revision e))) dst (re_target_site e) r)
              (order_by f (\<lambda>_. 0 :: nat) (fb_inbox d))))
          (apply_found f c w dst src ev e)))"

text \<open>
  The caller owns the transaction. \<open>keep\<close> says whether it commits after an error, as
  \<open>fail_inbox_apply_tx\<close> recommends; after a failed statement a commit is a rollback.
\<close>

definition apply_in_tx ::
    "pg \<Rightarrow> federation_codec \<Rightarrow> federation_world \<Rightarrow> bool \<Rightarrow> uuid \<Rightarrow> uuid \<Rightarrow> replication_entry \<Rightarrow> federation_db \<Rightarrow> unit res \<times> federation_db" where
  "apply_in_tx f c w keep t src e d =
     (case apply_target_projection f c w t src e d 2 of
        (Inr x, d', n) \<Rightarrow> (if stmt_error f n = None then (Ok x, d') else (Err (Database [Txt ''commit'']), d))
      | (Inl err, d', n) \<Rightarrow> (Err err, if keep \<and> \<not> server_failed err \<and> stmt_error f n = None then d' else d))"

section \<open>The confirmation poll of the source\<close>

record confirmation_report =
  cf_confirmed :: nat
  cf_awaiting :: nat
  cf_mismatch :: nat

text \<open>\<open>federation_application_receipts(queue_id)\<close> in the context of a tenant: the hashes it returns.\<close>

definition federation_application_receipts :: "uuid \<Rightarrow> uuid \<Rightarrow> federation_db \<Rightarrow> string list" where
  "federation_application_receipts t qid d = concat (map (\<lambda>r. map (\<lambda>i. rc_hash r)
       (filter (\<lambda>i. ib_id i = rc_inbox r \<and> ib_tenant i = rc_tenant r) (fb_inbox d)))
     (filter (\<lambda>r. rc_source r = t \<and> rc_queue r = qid \<and> rc_tenant r = rc_target r \<and> rc_tenant r \<noteq> t) (fb_receipts d)))"

definition acked_batch :: "federation_world \<Rightarrow> uuid \<Rightarrow> int \<Rightarrow> repl_row list \<Rightarrow> (uuid \<times> json) list" where
  "acked_batch w t batch q = map (\<lambda>r. (rr_id r, rr_projection r)) (take (nat batch)
     (sort_key (\<lambda>r. case rr_acked r of None \<Rightarrow> (1 :: nat) | Some _ \<Rightarrow> 0)
     (sort_key (\<lambda>r. case rr_acked r of None \<Rightarrow> 0 | Some a \<Rightarrow> a)
     (sort_key rr_id (filter (\<lambda>r. rr_tenant r = t \<and> rr_status r = ''acked'' \<and> \<not> fw_locked w (rr_id r)) q)))))"

definition confirm_row :: "federation_world \<Rightarrow> repl_row \<Rightarrow> repl_row" where
  "confirm_row w r = r\<lparr>rr_status := ''application_confirmed'', rr_confirmed := Some (fw_now w)\<rparr>"

definition mark_confirmed :: "pg \<Rightarrow> federation_world \<Rightarrow> uuid \<Rightarrow> uuid \<Rightarrow> (federation_db, sensei_error, nat) step" where
  "mark_confirmed f w t qid = sql f ''replication: confirmation transition failed: ''
     (\<lambda>d. Inr (on_queue (update_where (\<lambda>r. rr_id r = qid \<and> rr_tenant r = t \<and> rr_status r = ''acked'') (confirm_row w)) d))"

fun weigh_receipts ::
    "pg \<Rightarrow> federation_world \<Rightarrow> uuid \<Rightarrow> uuid \<Rightarrow> string \<Rightarrow> string list \<Rightarrow> confirmation_report
      \<Rightarrow> (federation_db, sensei_error, confirmation_report) step" where
  "weigh_receipts f w t qid local_hash [] rep = tx_return rep"
| "weigh_receipts f w t qid local_hash (h # hs) rep =
     (if h = local_hash
      then tx_bind (mark_confirmed f w t qid) (\<lambda>n.
        weigh_receipts f w t qid local_hash hs (if n = 1 then rep\<lparr>cf_confirmed := cf_confirmed rep + 1\<rparr> else rep))
      else weigh_receipts f w t qid local_hash hs (rep\<lparr>cf_mismatch := cf_mismatch rep + 1\<rparr>))"

fun confirm_rows ::
    "pg \<Rightarrow> federation_codec \<Rightarrow> federation_world \<Rightarrow> uuid \<Rightarrow> (uuid \<times> json) list \<Rightarrow> confirmation_report
      \<Rightarrow> (federation_db, sensei_error, confirmation_report) step" where
  "confirm_rows f c w t [] rep = tx_return rep"
| "confirm_rows f c w t ((qid, j) # rows) rep =
     tx_bind (projection_payload_hash c j) (\<lambda>local_hash.
     tx_bind (sql_read f ''replication: receipt read failed: '' (federation_application_receipts t qid)) (\<lambda>hs.
     tx_bind (weigh_receipts f w t qid local_hash hs
         (if hs = [] then rep\<lparr>cf_awaiting := cf_awaiting rep + 1\<rparr> else rep))
       (confirm_rows f c w t rows)))"

definition confirm_application_receipts ::
    "pg \<Rightarrow> federation_codec \<Rightarrow> federation_world \<Rightarrow> uuid \<Rightarrow> int \<Rightarrow> federation_db \<Rightarrow> confirmation_report res \<times> federation_db" where
  "confirm_application_receipts f c w t batch d = federation_tx f
     (tx_bind (sql_fetch f ''replication: confirmation poll failed: ''
         (\<lambda>d. if batch < 0 then Inl (range_error f) else Inr (acked_batch w t batch (fb_queue d))))
       (\<lambda>rows. confirm_rows f c w t rows \<lparr>cf_confirmed = 0, cf_awaiting = 0, cf_mismatch = 0\<rparr>)) d"

end
