(* ===== verification/Federation_Trace.thy ===== *)
theory Federation_Trace
  imports Federation
begin

text \<open>
  Runs of the federation: any sequence of the calls of \<open>Federation\<close>, by any tenant, with any
  entry, token and outcome of the server. The calls are simulated by an abstract protocol of
  five moves, which keeps the invariant that ties a confirmed row to the receipt, the inbox row
  and the mirror of the target.
\<close>

section \<open>Calls and runs\<close>

datatype federation_call =
    Publish publication "federation_edge list"
  | Enqueue publication "string option" "jurisdiction option" federation_edge
  | Claim uuid int
  | Acknowledge uuid uuid uuid
  | Report_Failure uuid uuid uuid string int
  | Sweep uuid
  | Deliver uuid replication_entry
  | Reserve uuid uuid uuid "uuid option" uuid string nat uuid "uuid option" string
  | Apply bool uuid uuid replication_entry
  | Confirm uuid int

fun call_effect :: "federation_codec \<Rightarrow> pg \<Rightarrow> federation_world \<Rightarrow> federation_call \<Rightarrow> federation_db \<Rightarrow> federation_db" where
  "call_effect c f w (Publish p edges) d = snd (on_queue (enqueue_projection_fanout f p edges) d)"
| "call_effect c f w (Enqueue p event src e) d = snd (on_queue (enqueue_projection f p event src e) d)"
| "call_effect c f w (Claim t batch) d = snd (claim_projections f w t batch d)"
| "call_effect c f w (Acknowledge t i k) d = snd (ack_projection f w t i k d)"
| "call_effect c f w (Report_Failure t i k err secs) d = snd (fail_projection f w t i k err secs d)"
| "call_effect c f w (Sweep t) d = snd (release_expired f w t d)"
| "call_effect c f w (Deliver src e) d = snd (deliver_to_target_inbox f c w src e d)"
| "call_effect c f w (Reserve t src qid site ev ty version dst dsite h) d =
     snd (reserve_target_inbox f w t src qid site ev ty version dst dsite h d)"
| "call_effect c f w (Apply keep t src e) d = snd (apply_in_tx f c w keep t src e d)"
| "call_effect c f w (Confirm t batch) d = snd (confirm_application_receipts f c w t batch d)"

fun federation_run :: "federation_codec \<Rightarrow> (pg \<times> federation_world \<times> federation_call) list \<Rightarrow> federation_db \<Rightarrow> federation_db" where
  "federation_run c [] d = d"
| "federation_run c ((f, w, call) # steps) d = federation_run c steps (call_effect c f w call d)"

section \<open>The protocol\<close>

definition has_receipt :: "federation_codec \<Rightarrow> application_receipt list \<Rightarrow> repl_row \<Rightarrow> bool" where
  "has_receipt c receipts r \<longleftrightarrow> (\<exists>q \<in> set receipts. rc_source q = rr_tenant r \<and> rc_queue q = rr_id r
     \<and> rc_tenant q = rc_target q \<and> rc_tenant q \<noteq> rr_tenant r \<and> fc_hash c (rr_projection r) = Inr (rc_hash q))"

definition same_projection :: "repl_row \<Rightarrow> repl_row \<Rightarrow> bool" where
  "same_projection r r' \<longleftrightarrow> rr_id r' = rr_id r \<and> rr_tenant r' = rr_tenant r \<and> rr_projection r' = rr_projection r"

definition restated :: "federation_codec \<Rightarrow> federation_db \<Rightarrow> federation_db \<Rightarrow> bool" where
  "restated c d d' \<longleftrightarrow> (\<exists>g. d' = d\<lparr>fb_queue := map g (fb_queue d)\<rparr> \<and> (\<forall>r \<in> set (fb_queue d). same_projection r (g r)
     \<and> (g r = r \<or> rr_status (g r) \<noteq> ''application_confirmed'' \<or> has_receipt c (fb_receipts d) r)))"

definition set_inbox :: "uuid \<Rightarrow> (inbox_row \<Rightarrow> inbox_row) \<Rightarrow> federation_db \<Rightarrow> federation_db" where
  "set_inbox i g d = d\<lparr>fb_inbox := map (\<lambda>r. if ib_id r = i then g r else r) (fb_inbox d)\<rparr>"

definition same_delivery :: "inbox_row \<Rightarrow> inbox_row \<Rightarrow> bool" where
  "same_delivery r r' \<longleftrightarrow> ib_id r' = ib_id r \<and> ib_tenant r' = ib_tenant r \<and> ib_source r' = ib_source r
     \<and> ib_queue r' = ib_queue r \<and> ib_event r' = ib_event r \<and> ib_target r' = ib_target r \<and> ib_hash r' = ib_hash r"

definition receipt_for :: "inbox_row \<Rightarrow> application_receipt \<Rightarrow> bool" where
  "receipt_for i q \<longleftrightarrow> rc_inbox q = ib_id i \<and> rc_tenant q = ib_tenant i \<and> rc_target q = ib_target i \<and> ib_target i = ib_tenant i
     \<and> rc_source q = ib_source i \<and> Some (rc_queue q) = ib_queue i \<and> rc_event q = ib_event i \<and> Some (rc_hash q) = ib_hash i"

definition mirror_event_key :: "mirror_event \<Rightarrow> uuid \<times> string \<times> string" where
  "mirror_event_key m = (me_tenant m, me_system m, me_source m)"

text \<open>A mirror of an event, stored before or with this move, together with its one subject.\<close>

definition mirrored :: "uuid \<Rightarrow> string \<Rightarrow> federation_db \<Rightarrow> federation_db \<Rightarrow> bool" where
  "mirrored t source d d' \<longleftrightarrow>
     (fb_events d' = fb_events d \<and> fb_objects d' = fb_objects d \<and> list_ex (mirror_slot t source) (fb_events d))
     \<or> (\<exists>m x. fb_events d' = fb_events d @ [m] \<and> fb_objects d' = fb_objects d @ [x] \<and> mirror_slot t source m
          \<and> \<not> list_ex (mirror_slot t source) (fb_events d) \<and> me_id m \<notin> me_id ` set (fb_events d) \<and> mo_event x = me_id m)"

inductive federation_move :: "federation_codec \<Rightarrow> federation_db \<Rightarrow> federation_db \<Rightarrow> bool" for c where
  enqueued: "distinct (map rr_id (fb_queue d @ rows)) \<Longrightarrow> \<forall>r \<in> set rows. rr_status r = ''pending'' \<Longrightarrow>
    federation_move c d (d\<lparr>fb_queue := fb_queue d @ rows\<rparr>)"
| moved_on: "restated c d d' \<Longrightarrow> federation_move c d d'"
| reserved_row: "ib_id i \<notin> ib_id ` set (fb_inbox d) \<Longrightarrow> ib_status i = ''received'' \<Longrightarrow>
    federation_move c d (d\<lparr>fb_inbox := fb_inbox d @ [i]\<rparr>)"
| rejected: "i \<in> set (fb_inbox d) \<Longrightarrow> ib_status i = ''received'' \<Longrightarrow>
    same_delivery i (g i) \<Longrightarrow> ib_status (g i) = ''reconcile_required'' \<Longrightarrow> federation_move c d (set_inbox (ib_id i) g d)"
| landed: "i \<in> set (fb_inbox d) \<Longrightarrow> ib_status i = ''received'' \<Longrightarrow>
    same_delivery i (g i) \<Longrightarrow> ib_status (g i) = ''applied'' \<Longrightarrow>
    receipt_for i q \<Longrightarrow> mirrored (ib_target i) (fc_show c (ib_event i)) d d' \<Longrightarrow>
    fb_queue d' = fb_queue d \<Longrightarrow> fb_inbox d' = fb_inbox (set_inbox (ib_id i) g d) \<Longrightarrow>
    fb_receipts d' = fb_receipts d @ [q] \<Longrightarrow> federation_move c d d'"

inductive_cases federation_moveE: "federation_move c d d'"

section \<open>The invariant\<close>

definition receipt_ok :: "federation_codec \<Rightarrow> federation_db \<Rightarrow> application_receipt \<Rightarrow> bool" where
  "receipt_ok c d q \<longleftrightarrow> (\<exists>i \<in> set (fb_inbox d). receipt_for i q \<and> ib_status i = ''applied'')
     \<and> list_ex (mirror_slot (rc_target q) (fc_show c (rc_event q))) (fb_events d)"

definition inbox_ok :: "federation_db \<Rightarrow> inbox_row \<Rightarrow> bool" where
  "inbox_ok d i \<longleftrightarrow> ib_status i \<in> {''received'', ''applied'', ''reconcile_required''}
     \<and> (ib_status i = ''applied'' \<longrightarrow> ib_id i \<in> rc_inbox ` set (fb_receipts d))"

definition mirrors_ok :: "federation_db \<Rightarrow> bool" where
  "mirrors_ok d \<longleftrightarrow> distinct (map me_id (fb_events d)) \<and> distinct (map mirror_event_key (fb_events d))
     \<and> map mo_event (fb_objects d) = map me_id (fb_events d)"

definition federation_ok :: "federation_codec \<Rightarrow> federation_db \<Rightarrow> bool" where
  "federation_ok c d \<longleftrightarrow> distinct (map rr_id (fb_queue d)) \<and> distinct (map ib_id (fb_inbox d))
     \<and> distinct (map rc_inbox (fb_receipts d)) \<and> mirrors_ok d
     \<and> (\<forall>r \<in> set (fb_queue d). rr_status r = ''application_confirmed'' \<longrightarrow> has_receipt c (fb_receipts d) r)
     \<and> (\<forall>q \<in> set (fb_receipts d). receipt_ok c d q) \<and> (\<forall>i \<in> set (fb_inbox d). inbox_ok d i)"

lemma empty_federation_ok: "federation_ok c empty_federation"
  by (simp add: federation_ok_def empty_federation_def mirrors_ok_def)

lemma has_receipt_mono: "has_receipt c qs r \<Longrightarrow> set qs \<subseteq> set qs' \<Longrightarrow> has_receipt c qs' r"
  unfolding has_receipt_def by blast

lemma has_receipt_same: "same_projection r r' \<Longrightarrow> has_receipt c qs r' = has_receipt c qs r"
  by (simp add: has_receipt_def same_projection_def)

lemma set_inbox_sel [simp]:
  "fb_queue (set_inbox i g d) = fb_queue d" "fb_receipts (set_inbox i g d) = fb_receipts d"
  "fb_events (set_inbox i g d) = fb_events d" "fb_objects (set_inbox i g d) = fb_objects d"
  "fb_inbox (set_inbox i g d) = map (\<lambda>r. if ib_id r = i then g r else r) (fb_inbox d)"
  by (simp_all add: set_inbox_def)

text \<open>Rows of the inbox under a change of the one row with a given id.\<close>

lemma inbox_unique:
  "federation_ok c d \<Longrightarrow> i \<in> set (fb_inbox d) \<Longrightarrow> r \<in> set (fb_inbox d) \<Longrightarrow> ib_id r = ib_id i \<Longrightarrow> r = i"
  unfolding federation_ok_def by (auto simp: distinct_map inj_on_def)

lemma set_inbox_rows:
  assumes "federation_ok c d" and "i \<in> set (fb_inbox d)"
  shows "set (fb_inbox (set_inbox (ib_id i) g d)) = insert (g i) (set (fb_inbox d) - {i})"
proof -
  have "map (\<lambda>r. if ib_id r = ib_id i then g r else r) (fb_inbox d) = map (\<lambda>r. if r = i then g i else r) (fb_inbox d)"
    using inbox_unique [OF assms] by (intro map_cong) auto
  then show ?thesis using assms(2) by (auto simp: set_inbox_def)
qed

lemma set_inbox_ids:
  assumes "federation_ok c d" and "i \<in> set (fb_inbox d)" and "same_delivery i (g i)"
  shows "map ib_id (fb_inbox (set_inbox (ib_id i) g d)) = map ib_id (fb_inbox d)"
  using assms inbox_unique [OF assms(1,2)] by (auto simp: same_delivery_def)

lemma receipt_of_applied:
  assumes "federation_ok c d" and "i \<in> set (fb_inbox d)" and "ib_status i \<noteq> ''applied''" and "q \<in> set (fb_receipts d)"
  shows "rc_inbox q \<noteq> ib_id i"
proof
  assume eq: "rc_inbox q = ib_id i"
  from assms(1,4) obtain j where j: "j \<in> set (fb_inbox d)" "receipt_for j q" "ib_status j = ''applied''"
    unfolding federation_ok_def receipt_ok_def by blast
  then have "j = i" using inbox_unique [OF assms(1,2)] eq by (simp add: receipt_for_def)
  then show False using j(3) assms(3) by simp
qed

text \<open>A row that has not been applied may change, and every receipt keeps its inbox row.\<close>

lemma receipt_ok_other:
  assumes ok: "federation_ok c d" and i: "i \<in> set (fb_inbox d)" "ib_status i \<noteq> ''applied''"
    and q: "q \<in> set (fb_receipts d)" and d': "set (fb_inbox d') = insert j (set (fb_inbox d) - {i})"
    and events: "set (fb_events d) \<subseteq> set (fb_events d')"
  shows "receipt_ok c d' q"
proof -
  from ok q have "receipt_ok c d q" unfolding federation_ok_def by blast
  then obtain k where k: "k \<in> set (fb_inbox d)" "receipt_for k q" "ib_status k = ''applied''"
    and slot: "list_ex (mirror_slot (rc_target q) (fc_show c (rc_event q))) (fb_events d)"
    unfolding receipt_ok_def by blast
  have "k \<in> set (fb_inbox d')" using k(1,3) i(2) by (auto simp: d')
  then show ?thesis using k slot events unfolding receipt_ok_def by (auto simp: list_ex_iff)
qed

section \<open>The moves keep the invariant\<close>

lemma federation_okI:
  assumes "distinct (map rr_id (fb_queue d))" "distinct (map ib_id (fb_inbox d))"
    "distinct (map rc_inbox (fb_receipts d))" "mirrors_ok d"
    "\<And>r. r \<in> set (fb_queue d) \<Longrightarrow> rr_status r = ''application_confirmed'' \<Longrightarrow> has_receipt c (fb_receipts d) r"
    "\<And>q. q \<in> set (fb_receipts d) \<Longrightarrow> receipt_ok c d q" "\<And>i. i \<in> set (fb_inbox d) \<Longrightarrow> inbox_ok d i"
  shows "federation_ok c d"
  using assms unfolding federation_ok_def by blast

lemma federation_okD:
  assumes "federation_ok c d"
  shows "distinct (map rr_id (fb_queue d))" "distinct (map ib_id (fb_inbox d))"
    "distinct (map rc_inbox (fb_receipts d))" "mirrors_ok d"
    "r \<in> set (fb_queue d) \<Longrightarrow> rr_status r = ''application_confirmed'' \<Longrightarrow> has_receipt c (fb_receipts d) r"
    "q \<in> set (fb_receipts d) \<Longrightarrow> receipt_ok c d q" "i \<in> set (fb_inbox d) \<Longrightarrow> inbox_ok d i"
  using assms unfolding federation_ok_def by blast+

lemma queue_only:
  "receipt_ok c (d\<lparr>fb_queue := q\<rparr>) = receipt_ok c d" "inbox_ok (d\<lparr>fb_queue := q\<rparr>) = inbox_ok d"
  "mirrors_ok (d\<lparr>fb_queue := q\<rparr>) = mirrors_ok d"
  by (simp_all add: fun_eq_iff receipt_ok_def inbox_ok_def mirrors_ok_def)

lemma enqueued_ok:
  assumes "federation_ok c d" "distinct (map rr_id (fb_queue d @ rows))" "\<forall>r \<in> set rows. rr_status r = ''pending''"
  shows "federation_ok c (d\<lparr>fb_queue := fb_queue d @ rows\<rparr>)"
  using assms(2,3) federation_okD [OF assms(1)] by (intro federation_okI) (auto simp: queue_only)

lemma restated_ok:
  assumes "federation_ok c d" "restated c d d'"
  shows "federation_ok c d'"
proof -
  note ok = federation_okD [OF assms(1)]
  from assms(2) obtain g where d': "d' = d\<lparr>fb_queue := map g (fb_queue d)\<rparr>"
    and g: "\<And>r. r \<in> set (fb_queue d) \<Longrightarrow> same_projection r (g r)"
      "\<And>r. r \<in> set (fb_queue d) \<Longrightarrow> g r = r \<or> rr_status (g r) \<noteq> ''application_confirmed'' \<or> has_receipt c (fb_receipts d) r"
    unfolding restated_def by blast
  have ids: "map rr_id (map g (fb_queue d)) = map rr_id (fb_queue d)"
    using g(1) by (simp add: same_projection_def)
  have "has_receipt c (fb_receipts d) (g r)" if "r \<in> set (fb_queue d)" "rr_status (g r) = ''application_confirmed''" for r
    using g(2) [OF that(1)] that ok(5) [of r] has_receipt_same [OF g(1) [OF that(1)]] by auto
  then show ?thesis
    unfolding d' using ok ids by (intro federation_okI) (auto simp: queue_only simp del: map_map)
qed

lemma reserved_ok:
  assumes "federation_ok c d" "ib_id i \<notin> ib_id ` set (fb_inbox d)" "ib_status i = ''received''"
  shows "federation_ok c (d\<lparr>fb_inbox := fb_inbox d @ [i]\<rparr>)"
proof -
  note ok = federation_okD [OF assms(1)]
  have "receipt_ok c (d\<lparr>fb_inbox := fb_inbox d @ [i]\<rparr>) q" if "q \<in> set (fb_receipts d)" for q
    using ok(6) [OF that] by (auto simp: receipt_ok_def)
  moreover have "inbox_ok (d\<lparr>fb_inbox := fb_inbox d @ [i]\<rparr>) j" if "j \<in> set (fb_inbox d) \<or> j = i" for j
    using that ok(7) [of j] assms(3) by (auto simp: inbox_ok_def)
  ultimately show ?thesis
    using ok assms(2) by (intro federation_okI) (auto simp: mirrors_ok_def)
qed

lemma rejected_ok:
  assumes ok: "federation_ok c d" and i: "i \<in> set (fb_inbox d)" "ib_status i = ''received''"
    and g: "same_delivery i (g i)" "ib_status (g i) = ''reconcile_required''"
  shows "federation_ok c (set_inbox (ib_id i) g d)"
proof (rule federation_okI)
  let ?d' = "set_inbox (ib_id i) g d"
  note okd = federation_okD [OF ok] and rows = set_inbox_rows [OF ok i(1), of g]
  show "distinct (map ib_id (fb_inbox ?d'))"
    using set_inbox_ids [where g = g, OF ok i(1) g(1)] okd(2) by (simp only:)
  show "mirrors_ok ?d'" using okd(4) by (simp add: mirrors_ok_def)
  show "receipt_ok c ?d' q" if "q \<in> set (fb_receipts ?d')" for q
    by (rule receipt_ok_other [OF ok i(1) _ _ rows]) (use i that in auto)
  show "inbox_ok ?d' j" if "j \<in> set (fb_inbox ?d')" for j
  proof -
    have "j = g i \<or> j \<in> set (fb_inbox d)" using that unfolding rows by blast
    then show ?thesis using okd(7) [of j] g by (auto simp: inbox_ok_def)
  qed
qed (use federation_okD [OF ok] in auto)

lemma mirrored_ok:
  assumes "mirrors_ok d" "mirrored t source d d'"
  shows "mirrors_ok d'" "list_ex (mirror_slot t source) (fb_events d')" "set (fb_events d) \<subseteq> set (fb_events d')"
proof -
  have slot: "mirror_slot t source m \<longleftrightarrow> mirror_event_key m = (t, ''federation'', source)" for m
    by (auto simp: mirror_slot_def mirror_event_key_def)
  then have slots: "list_ex (mirror_slot t source) ms \<longleftrightarrow> (t, ''federation'', source) \<in> mirror_event_key ` set ms" for ms
    by (force simp: list_ex_iff)
  show "mirrors_ok d'" "list_ex (mirror_slot t source) (fb_events d')" "set (fb_events d) \<subseteq> set (fb_events d')"
    using assms by (auto simp: mirrored_def mirrors_ok_def slots slot)
qed

lemma landed_ok:
  assumes ok: "federation_ok c d" and i: "i \<in> set (fb_inbox d)" "ib_status i = ''received''"
    and g: "same_delivery i (g i)" "ib_status (g i) = ''applied''" and q: "receipt_for i q"
    and mirror: "mirrored (ib_target i) (fc_show c (ib_event i)) d d'"
    and d': "fb_queue d' = fb_queue d" "fb_inbox d' = fb_inbox (set_inbox (ib_id i) g d)"
      "fb_receipts d' = fb_receipts d @ [q]"
  shows "federation_ok c d'"
proof (rule federation_okI)
  note okd = federation_okD [OF ok] and rows = set_inbox_rows [OF ok i(1), of g]
    and mirrors = mirrored_ok [OF federation_okD(4) [OF ok] mirror]
  have received: "ib_status i \<noteq> ''applied''" using i(2) by simp
  show "distinct (map ib_id (fb_inbox d'))"
    unfolding d' using set_inbox_ids [where g = g, OF ok i(1) g(1)] okd(2) by (simp only:)
  show "mirrors_ok d'" by (rule mirrors(1))
  have "rc_inbox q \<notin> rc_inbox ` set (fb_receipts d)"
    using receipt_of_applied [OF ok i(1) received] q by (metis receipt_for_def imageE)
  then show "distinct (map rc_inbox (fb_receipts d'))" using okd(3) by (simp add: d')
  show "has_receipt c (fb_receipts d') r" if "r \<in> set (fb_queue d')" "rr_status r = ''application_confirmed''" for r
    using okd(5) [of r] that d' has_receipt_mono [of c "fb_receipts d" r "fb_receipts d'"] by auto
  show "receipt_ok c d' p" if "p \<in> set (fb_receipts d')" for p
  proof (cases "p = q")
    case True
    have "g i \<in> set (fb_inbox d')" unfolding d' rows by simp
    moreover have "receipt_for (g i) q" using q g(1) by (simp add: receipt_for_def same_delivery_def)
    moreover have "list_ex (mirror_slot (rc_target q) (fc_show c (rc_event q))) (fb_events d')"
      using q mirrors(2) by (simp add: receipt_for_def)
    ultimately show ?thesis using g(2) True unfolding receipt_ok_def by blast
  next
    case False
    then have "p \<in> set (fb_receipts d)" using that d' by auto
    then show ?thesis
      using receipt_ok_other [OF ok i(1) received, where d' = d' and j = "g i"] rows mirrors(3) d'(2) by metis
  qed
  show "inbox_ok d' j" if "j \<in> set (fb_inbox d')" for j
  proof -
    have "j = g i \<or> j \<in> set (fb_inbox d)" using that unfolding d' rows by blast
    then show ?thesis
      using okd(7) [of j] g q by (auto simp: inbox_ok_def d' receipt_for_def same_delivery_def)
  qed
qed (use federation_okD [OF ok] d' in auto)

lemma federation_move_ok:
  assumes "federation_move c d d'" "federation_ok c d"
  shows "federation_ok c d'"
  using assms
proof (cases rule: federation_move.cases)
  case (landed i g q)
  then show ?thesis using landed_ok assms(2) by metis
qed (use assms(2) enqueued_ok restated_ok reserved_ok rejected_ok in metis)+

section \<open>The calls make the moves\<close>

lemma federation_tx_state:
  "snd (federation_tx f body d) = d \<or> (\<exists>x n. body d 2 = (Inr x, snd (federation_tx f body d), n))"
  by (auto simp: federation_tx_def tx_then_def sql_read_Ok numeral_2_eq_2 split: prod.splits sum.splits)

lemma federation_tx_moves:
  assumes "\<And>x d' n. body d 2 = (Inr x, d', n) \<Longrightarrow> federation_move c d d'"
  shows "snd (federation_tx f body d) = d \<or> federation_move c d (snd (federation_tx f body d))"
  using federation_tx_state [of f body d] assms by blast

lemma restated_refl: "restated c d d"
proof -
  have "d = d\<lparr>fb_queue := map id (fb_queue d)\<rparr>" by simp
  then show ?thesis unfolding restated_def same_projection_def by fastforce
qed

lemma restated_trans:
  assumes "restated c d d1" "restated c d1 d2"
  shows "restated c d d2"
proof -
  from assms(1) obtain g where d1: "d1 = d\<lparr>fb_queue := map g (fb_queue d)\<rparr>"
    and g: "\<And>r. r \<in> set (fb_queue d) \<Longrightarrow> same_projection r (g r)
      \<and> (g r = r \<or> rr_status (g r) \<noteq> ''application_confirmed'' \<or> has_receipt c (fb_receipts d) r)"
    unfolding restated_def by blast
  from assms(2) obtain h where d2: "d2 = d1\<lparr>fb_queue := map h (fb_queue d1)\<rparr>"
    and h: "\<And>r. r \<in> set (fb_queue d1) \<Longrightarrow> same_projection r (h r)
      \<and> (h r = r \<or> rr_status (h r) \<noteq> ''application_confirmed'' \<or> has_receipt c (fb_receipts d1) r)"
    unfolding restated_def by blast
  have "same_projection r (h (g r)) \<and> (h (g r) = r \<or> rr_status (h (g r)) \<noteq> ''application_confirmed''
      \<or> has_receipt c (fb_receipts d) r)" if r: "r \<in> set (fb_queue d)" for r
  proof -
    have hg: "same_projection (g r) (h (g r)) \<and> (h (g r) = g r \<or> rr_status (h (g r)) \<noteq> ''application_confirmed''
        \<or> has_receipt c (fb_receipts d) (g r))"
      using h [of "g r"] r by (auto simp: d1)
    with g [OF r] has_receipt_same [of r "g r" c "fb_receipts d"] show ?thesis
      by (auto simp: same_projection_def)
  qed
  moreover have "d2 = d\<lparr>fb_queue := map (h \<circ> g) (fb_queue d)\<rparr>" by (simp add: d2 d1)
  ultimately show ?thesis unfolding restated_def by (intro exI [of _ "h \<circ> g"]) simp
qed

lemma restated_tables: "restated c d d' \<Longrightarrow> fb_receipts d' = fb_receipts d"
  by (auto simp: restated_def)

lemma restated_projection:
  assumes "restated c d d'" "\<And>r. r \<in> set (fb_queue d) \<Longrightarrow> rr_id r = i \<Longrightarrow> rr_projection r = j"
    and "r' \<in> set (fb_queue d')" "rr_id r' = i"
  shows "rr_projection r' = j"
  using assms by (fastforce simp: restated_def same_projection_def)

text \<open>One \<open>UPDATE\<close> of the queue.\<close>

lemma update_queue_restated:
  assumes "on_queue (update_where hit g) d = (n, d')"
    and "\<And>r. r \<in> set (fb_queue d) \<Longrightarrow> hit r \<Longrightarrow> same_projection r (g r)
      \<and> (rr_status (g r) \<noteq> ''application_confirmed'' \<or> has_receipt c (fb_receipts d) r)"
  shows "restated c d d'"
proof -
  have "d' = d\<lparr>fb_queue := map (\<lambda>r. if hit r then g r else r) (fb_queue d)\<rparr>"
    using assms(1) by (auto simp: on_queue_def update_where_def)
  with assms(2) show ?thesis
    unfolding restated_def by (intro exI [of _ "\<lambda>r. if hit r then g r else r"]) (auto simp: same_projection_def)
qed

lemma queue_changes:
  "same_projection r (back_to_pending r)" "rr_status (back_to_pending r) \<noteq> ''application_confirmed''"
  "same_projection r (lease_row w r)" "rr_status (lease_row w r) \<noteq> ''application_confirmed''"
  "same_projection r (confirm_row w r)"
  by (simp_all add: same_projection_def back_to_pending_def lease_row_def confirm_row_def)

lemma reclaim_restated:
  "on_queue (update_where (lease_lapsed now t) back_to_pending) d = (n, d') \<Longrightarrow> restated c d d'"
  by (erule update_queue_restated) (simp_all add: queue_changes)

lemma sweep_moves: "snd (release_expired f w t d) = d \<or> federation_move c d (snd (release_expired f w t d))"
  unfolding release_expired_def
  by (rule federation_tx_moves) (auto intro!: moved_on dest!: reclaim_restated)

lemma lease_restated: "lease_entries f w t es d n = (Inr x, d', n') \<Longrightarrow> restated c d d'"
  by (auto simp: lease_entries_def restated_refl queue_changes elim!: update_queue_restated split: if_splits)

lemma claim_moves: "snd (claim_projections f w t batch d) = d \<or> federation_move c d (snd (claim_projections f w t batch d))"
  unfolding claim_projections_def
proof (rule federation_tx_moves)
  fix x d' n
  assume "tx_then (sql f ''replication: auto-reclaim: ''
         (\<lambda>d. Inr (on_queue (update_where (lease_lapsed (fw_now w) t) back_to_pending) d)))
      (tx_bind (select_claimable f w t batch) (lease_entries f w t)) d 2 = (Inr x, d', n)"
  then obtain k d1 n1 es where "on_queue (update_where (lease_lapsed (fw_now w) t) back_to_pending) d = (k, d1)"
    and "lease_entries f w t es d1 n1 = (Inr x, d', n)"
    by (auto simp: select_claimable_def)
  then have "restated c d d1" "restated c d1 d'" using reclaim_restated lease_restated by blast+
  then show "federation_move c d d'" by (blast intro: moved_on restated_trans)
qed

lemma ack_moves: "snd (ack_projection f w t i k d) = d \<or> federation_move c d (snd (ack_projection f w t i k d))"
  unfolding ack_projection_def
  by (rule federation_tx_moves) (auto simp: same_projection_def intro!: moved_on elim!: update_queue_restated)

lemma fail_moves:
  "snd (fail_projection f w t i k err secs d) = d \<or> federation_move c d (snd (fail_projection f w t i k err secs d))"
  unfolding fail_projection_def
  by (rule federation_tx_moves) (auto simp: same_projection_def intro!: moved_on elim!: update_queue_restated)

text \<open>A confirmation reads the receipts it is backed by.\<close>

lemma exposed_receipt:
  assumes "h \<in> set (federation_application_receipts t i d)"
  shows "\<exists>q \<in> set (fb_receipts d). rc_source q = t \<and> rc_queue q = i \<and> rc_tenant q = rc_target q
    \<and> rc_tenant q \<noteq> t \<and> rc_hash q = h"
  using assms by (fastforce simp: federation_application_receipts_def)

lemma mark_confirmed_restated:
  assumes "mark_confirmed f w t i d n = (Inr k, d', n')"
    and "\<And>r. r \<in> set (fb_queue d) \<Longrightarrow> rr_id r = i \<Longrightarrow> rr_projection r = j"
    and "fc_hash c j = Inr h" and "h \<in> set (federation_application_receipts t i d)"
  shows "restated c d d'"
proof -
  have "on_queue (update_where (\<lambda>r. rr_id r = i \<and> rr_tenant r = t \<and> rr_status r = ''acked'') (confirm_row w)) d = (k, d')"
    using assms(1) by (simp add: mark_confirmed_def)
  then show ?thesis
  proof (rule update_queue_restated)
    fix r
    assume r: "r \<in> set (fb_queue d)" "rr_id r = i \<and> rr_tenant r = t \<and> rr_status r = ''acked''"
    then have "has_receipt c (fb_receipts d) r"
      using assms(2) [of r] assms(3) exposed_receipt [OF assms(4)] unfolding has_receipt_def by auto
    then show "same_projection r (confirm_row w r)
        \<and> (rr_status (confirm_row w r) \<noteq> ''application_confirmed'' \<or> has_receipt c (fb_receipts d) r)"
      by (simp add: queue_changes)
  qed
qed

lemma exposed_receipts_restated:
  "restated c d d' \<Longrightarrow> federation_application_receipts t i d' = federation_application_receipts t i d"
  by (auto simp: restated_def federation_application_receipts_def)

lemma weigh_receipts_restated:
  assumes "weigh_receipts f w t i h hs rep d n = (Inr rep', d', n')"
    and "\<And>r. r \<in> set (fb_queue d) \<Longrightarrow> rr_id r = i \<Longrightarrow> rr_projection r = j"
    and "fc_hash c j = Inr h" and "set hs \<subseteq> set (federation_application_receipts t i d)"
  shows "restated c d d'"
  using assms(1,2,4)
proof (induction hs arbitrary: rep d n)
  case Nil
  then show ?case by (simp add: restated_refl)
next
  case (Cons x hs)
  show ?case
  proof (cases "x = h")
    case True
    with Cons.prems(1) obtain k d1 n1 rep1 where mark: "mark_confirmed f w t i d n = (Inr k, d1, n1)"
      and rest: "weigh_receipts f w t i h hs rep1 d1 n1 = (Inr rep', d', n')"
      by auto
    have "h \<in> set (federation_application_receipts t i d)" using Cons.prems(3) True by auto
    from mark_confirmed_restated [OF mark Cons.prems(2) assms(3) this]
    have first: "restated c d d1" .
    moreover have "restated c d1 d'"
      by (rule Cons.IH [OF rest])
        (use restated_projection [OF first Cons.prems(2)] exposed_receipts_restated [OF first] Cons.prems(3) in auto)
    ultimately show ?thesis by (rule restated_trans)
  next
    case False
    then show ?thesis using Cons.prems(1) Cons.IH Cons.prems(2,3) by auto
  qed
qed

lemma confirm_rows_restated:
  assumes "confirm_rows f c w t rows rep d n = (Inr rep', d', n')"
    and "\<And>i j r. (i, j) \<in> set rows \<Longrightarrow> r \<in> set (fb_queue d) \<Longrightarrow> rr_id r = i \<Longrightarrow> rr_projection r = j"
  shows "restated c d d'"
  using assms
proof (induction rows arbitrary: rep d n)
  case Nil
  then show ?case by (simp add: restated_refl)
next
  case (Cons row rows)
  obtain i j where row: "row = (i, j)" by (cases row)
  from Cons.prems(1) obtain h rep1 rep2 d1 m1 m2 where hash: "fc_hash c j = Inr h"
    and weigh: "weigh_receipts f w t i h (federation_application_receipts t i d) rep1 d m1 = (Inr rep2, d1, m2)"
    and rest: "confirm_rows f c w t rows rep2 d1 m2 = (Inr rep', d', n')"
    by (auto simp: row projection_payload_hash_def split: sum.splits)
  have first: "restated c d d1"
    by (rule weigh_receipts_restated [OF weigh _ hash]) (use Cons.prems(2) row in auto)
  have "restated c d1 d'"
  proof (rule Cons.IH [OF rest])
    fix i' j' r
    assume "(i', j') \<in> set rows" "r \<in> set (fb_queue d1)" "rr_id r = i'"
    then show "rr_projection r = j'"
      using restated_projection [OF first, of i' j' r] Cons.prems(2) [of i' j'] by simp
  qed
  with first show ?case by (rule restated_trans)
qed

lemma acked_batch_rows:
  "(i, j) \<in> set (acked_batch w t batch q) \<Longrightarrow> \<exists>r \<in> set q. rr_id r = i \<and> rr_projection r = j"
  by (auto simp: acked_batch_def dest!: in_set_takeD)

lemma confirm_moves:
  assumes "federation_ok c d"
  shows "snd (confirm_application_receipts f c w t batch d) = d
    \<or> federation_move c d (snd (confirm_application_receipts f c w t batch d))"
  unfolding confirm_application_receipts_def
proof (rule federation_tx_moves)
  fix x d' n
  assume "tx_bind (sql_fetch f ''replication: confirmation poll failed: ''
         (\<lambda>d. if batch < 0 then Inl (range_error f) else Inr (acked_batch w t batch (fb_queue d))))
       (\<lambda>rows. confirm_rows f c w t rows \<lparr>cf_confirmed = 0, cf_awaiting = 0, cf_mismatch = 0\<rparr>) d 2 = (Inr x, d', n)"
  then obtain m where run: "confirm_rows f c w t (acked_batch w t batch (fb_queue d))
      \<lparr>cf_confirmed = 0, cf_awaiting = 0, cf_mismatch = 0\<rparr> d m = (Inr x, d', n)"
    by (auto split: if_splits)
  have "rr_projection r = j" if "(i, j) \<in> set (acked_batch w t batch (fb_queue d))" "r \<in> set (fb_queue d)" "rr_id r = i" for i j r
    using acked_batch_rows [OF that(1)] that(2,3) federation_okD(1) [OF assms] by (auto simp: distinct_map inj_on_def)
  then show "federation_move c d d'"
    using confirm_rows_restated [OF run] moved_on by blast
qed

section \<open>Enqueueing and delivering\<close>

lemma enqueued_rows:
  assumes "distinct (map rr_id (fb_queue d @ rows))" "\<forall>r \<in> set rows. rr_status r = ''pending''"
    and "snd (on_queue g d) = d\<lparr>fb_queue := fb_queue d @ rows\<rparr>"
  shows "federation_move c d (snd (on_queue g d))"
  unfolding assms(3) by (rule enqueued [OF assms(1,2)])

lemma fanout_edge_ids:
  assumes "fanout_edge f p policy cur e q n = (Inr m, q', n')" "distinct (map rr_id q)"
  shows "\<exists>rows. q' = q @ rows \<and> distinct (map rr_id q') \<and> (\<forall>r \<in> set rows. rr_status r = ''pending'')"
  using assms
  by (auto simp: fanout_edge_def fanout_insert_def Let_def insert_row_Inr map_sum_Inr queue_row_def split: if_splits)

lemma fanout_edges_ids:
  assumes "fanout_edges f p policy cur es rep q n = (Inr rep', q', n')" "distinct (map rr_id q)"
  shows "\<exists>rows. q' = q @ rows \<and> distinct (map rr_id q') \<and> (\<forall>r \<in> set rows. rr_status r = ''pending'')"
  using assms
proof (induction es arbitrary: rep q n)
  case Nil
  then show ?case by simp
next
  case (Cons e es)
  from Cons.prems(1) obtain m q1 n1 where head: "fanout_edge f p policy cur e q n = (Inr m, q1, n1)"
    and tail: "fanout_edges f p policy cur es (count_mark m rep) q1 n1 = (Inr rep', q', n')"
    by auto
  from fanout_edge_ids [OF head Cons.prems(2)] obtain rows where
    rows: "q1 = q @ rows" "distinct (map rr_id q1)" "\<forall>r \<in> set rows. rr_status r = ''pending''" by blast
  from Cons.IH [OF tail rows(2)] obtain rows' where
    rows': "q' = q1 @ rows'" "distinct (map rr_id q')" "\<forall>r \<in> set rows'. rr_status r = ''pending''" by blast
  show ?case using rows rows' by (intro exI [of _ "rows @ rows'"]) auto
qed

lemma on_queue_sel [simp]: "snd (on_queue g d) = d\<lparr>fb_queue := snd (g (fb_queue d))\<rparr>"
  by (simp add: on_queue_def split: prod.splits)

lemma publish_moves:
  assumes "federation_ok c d"
  shows "snd (on_queue (enqueue_projection_fanout f p edges) d) = d
    \<or> federation_move c d (snd (on_queue (enqueue_projection_fanout f p edges) d))"
proof (cases "enqueue_projection_fanout f p edges (fb_queue d)")
  case (Pair r q)
  show ?thesis
  proof (cases r)
    case (Inl e)
    then have "q = fb_queue d"
      using Pair by (auto simp: enqueue_projection_fanout_def federation_tx_def split: sum.splits prod.splits)
    then show ?thesis by (simp add: Pair)
  next
    case (Inr rep)
    then obtain policy n where run: "fanout_edges f p policy (decode_governance_edges (pb_tenant p) (pb_site p) (pb_governance p 2)) edges
       \<lparr>fn_new = 0, fn_present = 0, fn_blocked = 0\<rparr> (fb_queue d) 3 = (Inr rep, q, n)"
      using Pair fanout_Ok by metis
    from fanout_edges_ids [OF run federation_okD(1) [OF assms]] show ?thesis
      using enqueued [of d _ c] by (auto simp: Pair)
  qed
qed

lemma enqueue_moves:
  assumes "federation_ok c d"
  shows "snd (on_queue (enqueue_projection f p event src e) d) = d
    \<or> federation_move c d (snd (on_queue (enqueue_projection f p event src e) d))"
proof (cases "enqueue_projection f p event src e (fb_queue d)")
  case (Pair r q)
  show ?thesis
  proof (cases r)
    case (Inl e)
    then have "q = fb_queue d"
      using Pair by (auto simp: enqueue_projection_def federation_tx_def split: sum.splits prod.splits if_splits)
    then show ?thesis by (simp add: Pair)
  next
    case (Inr u)
    then have "\<exists>row. q = fb_queue d @ [row] \<and> rr_status row = ''pending'' \<and> rr_id row \<notin> rr_id ` set (fb_queue d)"
      using Pair by (fastforce simp: enqueue_projection_def Let_def insert_row_Inr map_sum_Inr queue_row_def
          dest!: federation_tx_Ok split: sum.splits if_splits)
    then obtain row where "q = fb_queue d @ [row]" "rr_status row = ''pending''" "rr_id row \<notin> rr_id ` set (fb_queue d)" by blast
    then show ?thesis
      using enqueued [of d "[row]" c] federation_okD(1) [OF assms] by (simp add: Pair)
  qed
qed

lemma insert_inbox_Ok:
  assumes "insert_inbox_receipt_tx f w t src qid site ev ty version dsite h d n = (Inr x, d', n')"
  shows "d' = d \<or> federation_move c d d'"
proof -
  have "d' = d \<or> (\<exists>i. d' = d\<lparr>fb_inbox := fb_inbox d @ [i]\<rparr> \<and> ib_id i \<notin> ib_id ` set (fb_inbox d) \<and> ib_status i = ''received'')"
    using assms by (fastforce simp: insert_inbox_receipt_tx_def insert_row_Inr map_sum_Inr split: if_splits)
  then show ?thesis using reserved_row by blast
qed

lemma insert_inbox_moves:
  "snd (federation_tx f (insert_inbox_receipt_tx f w t src qid site ev ty version dsite h) d) = d
    \<or> federation_move c d (snd (federation_tx f (insert_inbox_receipt_tx f w t src qid site ev ty version dsite h) d))"
  using federation_tx_state [of f "insert_inbox_receipt_tx f w t src qid site ev ty version dsite h" d]
    insert_inbox_Ok [of f w t src qid site ev ty version dsite h d 2 _ _ _ c] by metis

lemma deliver_moves:
  "snd (deliver_to_target_inbox f c w src e d) = d \<or> federation_move c d (snd (deliver_to_target_inbox f c w src e d))"
  using insert_inbox_moves by (auto simp: deliver_to_target_inbox_def split: option.splits sum.splits)

lemma reserve_moves:
  "snd (reserve_target_inbox f w t src qid site ev ty version dst dsite h d) = d
    \<or> federation_move c d (snd (reserve_target_inbox f w t src qid site ev ty version dst dsite h d))"
  using insert_inbox_moves by (simp add: reserve_target_inbox_def)

section \<open>Applying\<close>

text \<open>What a step may leave: one move, or after a failed statement, which is rolled back, anything.\<close>

definition one_move :: "federation_codec \<Rightarrow> federation_db \<Rightarrow> (sensei_error + 'a) \<times> federation_db \<times> nat \<Rightarrow> bool" where
  "one_move c d out \<longleftrightarrow> (case out of (x, d', n) \<Rightarrow>
     d' = d \<or> federation_move c d d' \<or> (case x of Inl e \<Rightarrow> server_failed e | Inr _ \<Rightarrow> False))"

lemma one_moveI [intro]:
  "d' = d \<Longrightarrow> one_move c d (x, d', n)" "federation_move c d d' \<Longrightarrow> one_move c d (x, d', n)"
  "server_failed e \<Longrightarrow> one_move c d (Inl e, d', n)"
  by (simp_all add: one_move_def)

lemma one_move_fail [simp]: "one_move c d (tx_fail e d n)"
  by (simp add: tx_fail_def one_moveI)

lemma one_move_return [simp]: "one_move c d (tx_return x d n)"
  by (simp add: tx_return_def one_moveI)

lemma tx_bind_cases:
  obtains (failed) e d' n' where "t d n = (Inl e, d', n')" "tx_bind t k d n = (Inl e, d', n')"
    | (passed) x d' n' where "t d n = (Inr x, d', n')" "tx_bind t k d n = k x d' n'"
proof (cases "t d n")
  case (fields x d' n')
  then show thesis using failed passed by (cases x) (auto simp: tx_bind_def)
qed

lemma sql_cases:
  obtains (failed) e where "sql f what stmt d n = (Inl e, d, n + 1)" "server_failed e"
    | (passed) x d' where "stmt d = Inr (x, d')" "sql f what stmt d n = (Inr x, d', n + 1)"
proof (cases "stmt_error f n")
  case None
  then show thesis
  proof (cases "stmt d")
    case (Inl e)
    then show thesis using failed None by (simp add: sql_def server_failed_def)
  next
    case (Inr y)
    then show thesis using passed None by (cases y) (simp add: sql_def)
  qed
next
  case (Some e)
  then show thesis using failed by (simp add: sql_def server_failed_def)
qed

lemma update_where_one:
  assumes "distinct (map ib_id rows)" "i \<in> set rows" "ib_status i = from"
  shows "update_where (\<lambda>r. ib_id r = ib_id i \<and> ib_status r = from) g rows
    = (1, map (\<lambda>r. if ib_id r = ib_id i then g r else r) rows)"
proof -
  have same: "ib_id r = ib_id i \<and> ib_status r = from \<longleftrightarrow> r = i" if "r \<in> set rows" for r
    using assms that by (auto simp: distinct_map inj_on_def)
  then have "filter (\<lambda>r. ib_id r = ib_id i \<and> ib_status r = from) rows = filter (\<lambda>r. i = r) rows"
    by (intro filter_cong) auto
  moreover have "length (filter (\<lambda>r. i = r) rows) = 1"
  proof -
    have "distinct rows" "{r. i = r} \<inter> set rows = {i}" using assms(1,2) by (auto simp: distinct_map)
    then show ?thesis by (simp add: distinct_length_filter)
  qed
  moreover have "map (\<lambda>r. if ib_id r = ib_id i \<and> ib_status r = from then g r else r) rows
      = map (\<lambda>r. if ib_id r = ib_id i then g r else r) rows"
    using assms by (intro map_cong) (auto simp: distinct_map inj_on_def)
  ultimately show ?thesis by (simp add: update_where_def)
qed

lemma inbox_move_cases:
  assumes "distinct (map ib_id (fb_inbox d))" "i \<in> set (fb_inbox d)" "ib_status i = from"
  obtains (failed) e where "inbox_move f msg (ib_id i) from g d n = (Inl e, d, n + 1)" "server_failed e"
    | (moved) "inbox_move f msg (ib_id i) from g d n = (Inr 1, set_inbox (ib_id i) g d, n + 1)"
proof -
  have run: "on_inbox (update_where (\<lambda>r. ib_id r = ib_id i \<and> ib_status r = from) g) d = (1, set_inbox (ib_id i) g d)"
    by (simp add: on_inbox_def update_where_one [OF assms] set_inbox_def)
  show thesis
    unfolding inbox_move_def
    by (rule sql_cases [of f msg "\<lambda>d. Inr (on_inbox (update_where (\<lambda>r. ib_id r = ib_id i \<and> ib_status r = from) g) d)" d n])
      (use failed moved run in \<open>auto simp: inbox_move_def\<close>)
qed

lemma set_inbox_twice:
  assumes "\<And>r. ib_id (g r) = ib_id r"
  shows "set_inbox i h (set_inbox i g d) = set_inbox i (\<lambda>r. h (g r)) d"
  using assms by (simp add: set_inbox_def)

text \<open>The projector.\<close>

definition with_mirrors :: "federation_db \<Rightarrow> federation_db \<Rightarrow> bool" where
  "with_mirrors d d' \<longleftrightarrow> fb_queue d' = fb_queue d \<and> fb_inbox d' = fb_inbox d \<and> fb_receipts d' = fb_receipts d"

lemma mirror_row_sel [simp]:
  "me_tenant (mirror_row c w n ty dst src ev subject e) = dst"
  "me_system (mirror_row c w n ty dst src ev subject e) = ''federation''"
  "me_source (mirror_row c w n ty dst src ev subject e) = fc_show c ev"
  by (simp_all add: mirror_row_def Let_def)

lemma insert_mirror_Ok:
  assumes "insert_mirror f c w ty dst src ev subject e d n = (Inr x, d', n')"
  shows "(x = None \<and> d' = d \<and> list_ex (mirror_slot dst (fc_show c ev)) (fb_events d))
    \<or> (\<exists>m. x = Some (me_id m) \<and> d' = d\<lparr>fb_events := fb_events d @ [m]\<rparr> \<and> mirror_slot dst (fc_show c ev) m
        \<and> \<not> list_ex (mirror_slot dst (fc_show c ev)) (fb_events d) \<and> me_id m \<notin> me_id ` set (fb_events d))"
proof (cases "list_ex (mirror_slot dst (fc_show c ev)) (fb_events d)")
  case True
  then show ?thesis using assms by (simp add: insert_mirror_def Let_def)
next
  case False
  let ?m = "mirror_row c w n ty dst src ev subject e"
  have "x = Some (me_id ?m) \<and> d' = d\<lparr>fb_events := fb_events d @ [?m]\<rparr> \<and> me_id ?m \<notin> me_id ` set (fb_events d)"
    using assms False by (auto simp: insert_mirror_def Let_def insert_row_Inr map_sum_Inr)
  then show ?thesis using False by (auto simp: mirror_slot_def)
qed

lemma mirror_projection_cases:
  assumes "event_uuid c e = Some ev" and "mirror_projection f c w ty dst src e d n = (x, d', n')"
  obtains (stored) "x = Inr ()" "mirrored dst (fc_show c ev) d d'" "with_mirrors d d'"
    | (answered) err where "x = Inl err" "d' = d"
    | (server) err where "x = Inl err" "server_failed err"
proof (cases "re_entity e")
  case None
  then show thesis using assms answered by (auto simp: mirror_projection_def tx_fail_def)
next
  case (Some subject)
  let ?k = "\<lambda>i. case i of None \<Rightarrow> tx_return () | Some event \<Rightarrow> insert_mirror_object f ty dst event subject"
  have run: "tx_bind (insert_mirror f c w ty dst src ev subject e) ?k d n = (x, d', n')"
    using assms Some by (simp add: mirror_projection_def)
  show thesis
  proof (cases rule: tx_bind_cases [of "insert_mirror f c w ty dst src ev subject e" d n ?k])
    case (failed err d1 n1)
    then have "server_failed err"
      by (auto simp: insert_mirror_def sql_def server_failed_def split: option.splits sum.splits prod.splits)
    then show thesis using failed(2) run server by simp
  next
    case (passed i d1 n1)
    from insert_mirror_Ok [OF passed(1)] show thesis
    proof (elim disjE exE conjE)
      assume "i = None" "d1 = d" "list_ex (mirror_slot dst (fc_show c ev)) (fb_events d)"
      then show thesis
        using stored passed(2) run by (simp add: mirrored_def with_mirrors_def tx_return_def)
    next
      fix m
      assume m: "i = Some (me_id m)" "d1 = d\<lparr>fb_events := fb_events d @ [m]\<rparr>" "mirror_slot dst (fc_show c ev) m"
        "\<not> list_ex (mirror_slot dst (fc_show c ev)) (fb_events d)" "me_id m \<notin> me_id ` set (fb_events d)"
      have obj: "insert_mirror_object f ty dst (me_id m) subject d1 n1 = (x, d', n')"
        using passed(2) run m(1) by simp
      show thesis
      proof (cases x)
        case (Inl err)
        with obj have "server_failed err"
          by (auto simp: insert_mirror_object_def sql_def server_failed_def split: option.splits)
        then show thesis using server Inl by blast
      next
        case (Inr u)
        with obj have d': "d' = d1\<lparr>fb_objects := fb_objects d1 @ [\<lparr>mo_tenant = dst, mo_event = me_id m, mo_type = ty,
            mo_object = subject, mo_role = ''subject''\<rparr>]\<rparr>"
          by (simp add: insert_mirror_object_def)
        have "mirrored dst (fc_show c ev) d d'"
          unfolding mirrored_def using m d' by (intro disjI2 exI [of _ m]) simp
        then show thesis using stored Inr m(2) d' by (simp add: with_mirrors_def)
      qed
    qed
  qed
qed

text \<open>The row the apply works on, with everything its look-up and the entry tie together.\<close>

definition apply_ready ::
    "federation_codec \<Rightarrow> federation_db \<Rightarrow> uuid \<Rightarrow> uuid \<Rightarrow> uuid \<Rightarrow> replication_entry \<Rightarrow> inbox_row \<Rightarrow> bool" where
  "apply_ready c d dst src ev e i \<longleftrightarrow> i \<in> set (fb_inbox d) \<and> ib_tenant i = dst \<and> ib_target i = dst \<and> ib_source i = src
     \<and> ib_event i = ev \<and> ib_queue i = Some (re_id e) \<and> event_uuid c e = Some ev"

lemma receipt_bound:
  assumes "\<And>q. q \<in> set (fb_receipts d) \<Longrightarrow> rc_inbox q \<noteq> i"
    and "bind_application_receipt_tx f w dst src e ev i h received d n = (x, d', n')"
  shows "(\<exists>err. x = Inl err \<and> server_failed err)
    \<or> (x = Inr () \<and> d' = d\<lparr>fb_receipts := fb_receipts d @ [receipt_of w n dst src e ev i h received]\<rparr>)"
proof -
  have "\<not> list_ex (\<lambda>r. rc_tenant r = dst \<and> rc_inbox r = i) (fb_receipts d)"
    using assms(1) by (auto simp: list_ex_iff)
  then show ?thesis
    using assms(2)
    by (auto simp: bind_application_receipt_tx_def sql_def server_failed_def insert_row_def Let_def
        split: option.splits if_splits)
qed

lemma body_or_mark_cases:
  assumes "event_uuid c e = Some ev" and "distinct (map ib_id (fb_inbox d))" "i \<in> set (fb_inbox d)" "ib_status i = ''applying''"
    and "body_or_mark f w (ib_id i) (mirror_projection f c w ty dst src e) d n = (x, d', n')"
  obtains (landed) "x = Inr ()" "mirrored dst (fc_show c ev) d d'" "with_mirrors d d'"
    | (marked) err where "x = Inl err"
        "d' = set_inbox (ib_id i) (\<lambda>r. r\<lparr>ib_status := ''reconcile_required'', ib_failed := Some (fw_now w)\<rparr>) d"
    | (server) err where "x = Inl err" "server_failed err"
proof (cases "mirror_projection f c w ty dst src e d n")
  case (fields y d1 n1)
  from assms(1) fields show thesis
  proof (cases rule: mirror_projection_cases)
    case stored
    then show thesis using landed assms(5) fields by (simp add: body_or_mark_def)
  next
    case (server err)
    then show thesis using assms(5) fields that(3) by (auto simp: body_or_mark_def server_failed_def)
  next
    case (answered err)
    show thesis
    proof (cases "server_failed err")
      case True
      then show thesis using assms(5) fields answered that(3) by (auto simp: body_or_mark_def server_failed_def)
    next
      case False
      then have run: "tx_bind (fail_inbox_apply_tx f w (ib_id i) ''applying'') (\<lambda>_. tx_fail err) d n1 = (x, d', n')"
        using assms(5) fields answered by (simp add: body_or_mark_def)
      show thesis
      proof (rule inbox_move_cases [OF assms(2-4), of f "''replication: reconcile-required transition failed: ''"
            "\<lambda>r. r\<lparr>ib_status := ''reconcile_required'', ib_failed := Some (fw_now w)\<rparr>" n1])
        fix e'
        assume "inbox_move f ''replication: reconcile-required transition failed: '' (ib_id i) ''applying''
            (\<lambda>r. r\<lparr>ib_status := ''reconcile_required'', ib_failed := Some (fw_now w)\<rparr>) d n1 = (Inl e', d, n1 + 1)"
          "server_failed e'"
        then show thesis using run that(3) by (auto simp: fail_inbox_apply_tx_def tx_bind_def)
      next
        assume "inbox_move f ''replication: reconcile-required transition failed: '' (ib_id i) ''applying''
            (\<lambda>r. r\<lparr>ib_status := ''reconcile_required'', ib_failed := Some (fw_now w)\<rparr>) d n1 =
            (Inr 1, set_inbox (ib_id i) (\<lambda>r. r\<lparr>ib_status := ''reconcile_required'', ib_failed := Some (fw_now w)\<rparr>) d, n1 + 1)"
        then show thesis using run marked by (auto simp: fail_inbox_apply_tx_def tx_bind_def tx_fail_def)
      qed
    qed
  qed
qed

lemma applying_sel [simp]:
  "ib_id (applying_row w r) = ib_id r" "ib_status (applying_row w r) = ''applying''"
  "ib_id (applied_row w r) = ib_id r" "ib_status (applied_row w r) = ''applied''"
  by (simp_all add: applying_row_def applied_row_def)

lemma apply_completed:
  assumes ok: "federation_ok c d" and i: "apply_ready c d dst src ev e i" "ib_status i = ''received''" "ib_hash i = Some h"
    and d2: "mirrored dst (fc_show c ev) (set_inbox (ib_id i) (applying_row w) d) d2"
      "with_mirrors (set_inbox (ib_id i) (applying_row w) d) d2"
    and bind: "bind_application_receipt_tx f w dst src e ev (ib_id i) h received
      (set_inbox (ib_id i) (applied_row w) d2) n = (x, d', n')"
  shows "one_move c d (x, d', n')"
proof -
  define d3 where "d3 = set_inbox (ib_id i) (applied_row w) d2"
  have ready: "i \<in> set (fb_inbox d)" "ib_tenant i = dst" "ib_target i = dst" "ib_source i = src" "ib_event i = ev"
      "ib_queue i = Some (re_id e)"
    using i(1) unfolding apply_ready_def by auto
  have receipts: "fb_receipts d3 = fb_receipts d" using d2(2) by (simp add: d3_def with_mirrors_def)
  have fresh: "rc_inbox q \<noteq> ib_id i" if "q \<in> set (fb_receipts d3)" for q
    using receipt_of_applied [OF ok ready(1) _, of q] that receipts i(2) by simp
  from receipt_bound [OF fresh bind [folded d3_def]] show ?thesis
  proof
    assume "\<exists>err. x = Inl err \<and> server_failed err"
    then show ?thesis by auto
  next
    assume "x = Inr () \<and> d' = d3\<lparr>fb_receipts := fb_receipts d3 @ [receipt_of w n dst src e ev (ib_id i) h received]\<rparr>"
    then have d': "d' = d3\<lparr>fb_receipts := fb_receipts d3 @ [receipt_of w n dst src e ev (ib_id i) h received]\<rparr>" by simp
    have "federation_move c d d'"
    proof (rule landed [OF ready(1) i(2)])
      show "same_delivery i (applied_row w (applying_row w i))"
        by (simp add: same_delivery_def applied_row_def applying_row_def)
      show "ib_status (applied_row w (applying_row w i)) = ''applied''" by simp
      show "receipt_for i (receipt_of w n dst src e ev (ib_id i) h received)"
        using ready i(3) by (simp add: receipt_for_def receipt_of_def)
      show "mirrored (ib_target i) (fc_show c (ib_event i)) d d'"
        using d2(1) ready(3,5) by (simp add: mirrored_def d' d3_def)
      show "fb_queue d' = fb_queue d" using d2(2) by (simp add: d' d3_def with_mirrors_def)
      show "fb_inbox d' = fb_inbox (set_inbox (ib_id i) (\<lambda>r. applied_row w (applying_row w r)) d)"
        using d2(2) by (simp add: d' d3_def with_mirrors_def)
      show "fb_receipts d' = fb_receipts d @ [receipt_of w n dst src e ev (ib_id i) h received]"
        by (simp add: d' receipts)
    qed
    then show ?thesis by auto
  qed
qed

lemma apply_received_move:
  assumes ok: "federation_ok c d" and i: "apply_ready c d dst src ev e i" "ib_status i = ''received''" "ib_hash i = Some h"
  shows "one_move c d (apply_received f c w dst src ev e i ty h d n)"
proof -
  let ?d1 = "set_inbox (ib_id i) (applying_row w) d"
  have ready: "i \<in> set (fb_inbox d)" "event_uuid c e = Some ev" using i(1) unfolding apply_ready_def by auto
  have ids: "map ib_id (fb_inbox ?d1) = map ib_id (fb_inbox d)" by simp
  have i1: "distinct (map ib_id (fb_inbox ?d1))" "applying_row w i \<in> set (fb_inbox ?d1)" "ib_status (applying_row w i) = ''applying''"
    using federation_okD(2) [OF ok] ready(1) unfolding ids by auto
  from federation_okD(2) [OF ok] ready(1) i(2) show ?thesis
  proof (cases rule: inbox_move_cases [where f = f and msg = "''replication: apply start failed: ''" and g = "applying_row w" and n = n])
    case (failed e')
    then show ?thesis by (auto simp: apply_received_def tx_bind_def)
  next
    case moved
    obtain x d2 n2 where body: "body_or_mark f w (ib_id i) (mirror_projection f c w ty dst src e) ?d1 (n + 1) = (x, d2, n2)"
      by (cases "body_or_mark f w (ib_id i) (mirror_projection f c w ty dst src e) ?d1 (n + 1)")
    have run: "apply_received f c w dst src ev e i ty h d n = (case (x, d2, n2) of
        (Inl e', d', n') \<Rightarrow> (Inl e', d', n')
      | (Inr _, d', n') \<Rightarrow> tx_bind (inbox_move f ''replication: apply completion failed: '' (ib_id i) ''applying'' (applied_row w)) (\<lambda>k.
         if k \<noteq> 1 then tx_fail (Internal [Txt ''replication: the applied transition lost the applying row -- the state machine guard must be atomic''])
         else bind_application_receipt_tx f w dst src e ev (ib_id i) h (ib_received i)) d' n')"
      using moved body by (cases x) (simp_all add: apply_received_def tx_bind_def tx_then_def)
    have "body_or_mark f w (ib_id (applying_row w i)) (mirror_projection f c w ty dst src e) ?d1 (n + 1) = (x, d2, n2)"
      using body by simp
    with ready(2) i1 show ?thesis
    proof (cases rule: body_or_mark_cases)
      case (server err)
      then show ?thesis by (auto simp: run)
    next
      case (marked err)
      have "d2 = set_inbox (ib_id i) (\<lambda>r. applying_row w r\<lparr>ib_status := ''reconcile_required'', ib_failed := Some (fw_now w)\<rparr>) d"
        using marked(2) by (simp add: set_inbox_twice)
      moreover have "federation_move c d (set_inbox (ib_id i)
          (\<lambda>r. applying_row w r\<lparr>ib_status := ''reconcile_required'', ib_failed := Some (fw_now w)\<rparr>) d)"
        by (rule rejected [OF ready(1) i(2)]) (simp_all add: same_delivery_def applying_row_def)
      ultimately show ?thesis by (auto simp: run marked(1))
    next
      case landed
      have inbox: "fb_inbox d2 = fb_inbox ?d1" using landed(3) by (simp add: with_mirrors_def)
      have i2: "distinct (map ib_id (fb_inbox d2))" "applying_row w i \<in> set (fb_inbox d2)" "ib_status (applying_row w i) = ''applying''"
        using i1 unfolding inbox by auto
      from i2 show ?thesis
      proof (cases rule: inbox_move_cases [where f = f and msg = "''replication: apply completion failed: ''" and g = "applied_row w" and n = n2])
        case (failed e')
        then show ?thesis by (auto simp: run landed(1) tx_bind_def)
      next
        case moved
        obtain y d' n' where bind: "bind_application_receipt_tx f w dst src e ev (ib_id i) h (ib_received i)
            (set_inbox (ib_id i) (applied_row w) d2) (n2 + 1) = (y, d', n')"
          by (cases "bind_application_receipt_tx f w dst src e ev (ib_id i) h (ib_received i)
            (set_inbox (ib_id i) (applied_row w) d2) (n2 + 1)")
        have "apply_received f c w dst src ev e i ty h d n = (y, d', n')"
          using moved bind by (simp add: run landed(1) tx_bind_def)
        then show ?thesis
          using apply_completed [OF ok i landed(2,3) bind] by simp
      qed
    qed
  qed
qed

lemma apply_matching_move:
  assumes ok: "federation_ok c d" and i: "apply_ready c d dst src ev e i" "ib_status i = ''received''"
  shows "one_move c d (apply_matching f c w dst src ev e i d n)"
proof (cases "fc_hash c (re_projection e)")
  case (Inl m)
  then show ?thesis by (simp add: apply_matching_def projection_payload_hash_def tx_bind_def tx_fail_def one_moveI)
next
  case (Inr h)
  show ?thesis
  proof (cases "ib_hash i")
    case None
    then show ?thesis by (simp add: apply_matching_def projection_payload_hash_def Inr tx_bind_def tx_return_def)
  next
    case (Some stored)
    show ?thesis
    proof (cases "stored = h")
      case True
      then show ?thesis
        using apply_received_move [OF ok i] Some
        by (simp add: apply_matching_def projection_payload_hash_def Inr tx_bind_def tx_return_def split: option.splits)
    next
      case False
      have inbox: "i \<in> set (fb_inbox d)" using i(1) unfolding apply_ready_def by simp
      let ?g = "\<lambda>r. r\<lparr>ib_status := ''reconcile_required'', ib_failed := Some (fw_now w)\<rparr>"
      have move: "federation_move c d (set_inbox (ib_id i) ?g d)"
        by (rule rejected [OF inbox i(2)]) (simp_all add: same_delivery_def)
      from federation_okD(2) [OF ok] inbox i(2) show ?thesis
      proof (cases rule: inbox_move_cases [where f = f and msg = "''replication: reconcile-required transition failed: ''"
            and g = ?g and n = n])
        case (failed e')
        then show ?thesis
          using Some False by (simp add: apply_matching_def projection_payload_hash_def Inr tx_bind_def tx_then_def tx_return_def
              fail_inbox_apply_tx_def one_moveI)
      next
        case moved
        then show ?thesis
          using Some False move by (simp add: apply_matching_def projection_payload_hash_def Inr tx_bind_def tx_then_def
              tx_return_def tx_fail_def fail_inbox_apply_tx_def one_moveI)
      qed
    qed
  qed
qed

lemma apply_target_projection_move:
  assumes ok: "federation_ok c d"
  shows "one_move c d (apply_target_projection f c w t src e d n)"
proof (cases "event_uuid c e")
  case None
  then show ?thesis by (simp add: apply_target_projection_def)
next
  case (Some ev)
  show ?thesis
  proof (cases "re_target e")
    case None
    then show ?thesis using Some by (simp add: apply_target_projection_def)
  next
    case (Some dst)
    let ?row = "find (\<lambda>r. ib_tenant r = t \<and> ib_site r = re_site e
                \<and> inbox_key dst src ev (re_type e) (i64_wrap (int (re_revision e))) dst (re_target_site e) r)
              (order_by f (\<lambda>_. 0 :: nat) (fb_inbox d))"
    have run: "apply_target_projection f c w t src e d n
        = (if stmt_error f n = None then apply_found f c w dst src ev e ?row d (n + 1)
           else (Inl (Database [Txt ''replication: apply inbox-receipt validation: '', FStr (the (stmt_error f n))]), d, n + 1))"
      using \<open>event_uuid c e = Some ev\<close> Some
      by (auto simp: apply_target_projection_def tx_bind_def sql_read_def sql_def)
    show ?thesis
    proof (cases ?row)
      case None
      then show ?thesis by (auto simp: run apply_found_def)
    next
      case row: (Some i)
      have found: "i \<in> set (fb_inbox d)" "inbox_key dst src ev (re_type e) (i64_wrap (int (re_revision e))) dst (re_target_site e) i"
        using row set_order_by [of f "\<lambda>_. 0 :: nat" "fb_inbox d"] unfolding find_Some_iff by (metis nth_mem)+
      show ?thesis
      proof (cases "ib_queue i = Some (re_id e)")
        case True
        then have ready: "apply_ready c d dst src ev e i"
          using found \<open>event_uuid c e = Some ev\<close> by (simp add: apply_ready_def inbox_key_def)
        show ?thesis
          using apply_matching_move [OF ok ready] True by (auto simp: run row apply_found_def)
      next
        case False
        then show ?thesis by (auto simp: run row apply_found_def)
      qed
    qed
  qed
qed

lemma apply_moves:
  assumes "federation_ok c d"
  shows "snd (apply_in_tx f c w keep t src e d) = d \<or> federation_move c d (snd (apply_in_tx f c w keep t src e d))"
  using apply_target_projection_move [OF assms, of f w t src e 2]
  by (auto simp: apply_in_tx_def one_move_def split: prod.splits sum.splits)

section \<open>Runs\<close>

text \<open>Every call is at most one move of the protocol.\<close>

lemma call_moves:
  assumes "federation_ok c d"
  shows "call_effect c f w call d = d \<or> federation_move c d (call_effect c f w call d)"
proof (cases call)
  case (Publish p edges)
  show ?thesis unfolding Publish call_effect.simps by (rule publish_moves [OF assms])
next
  case (Enqueue p event src e)
  show ?thesis unfolding Enqueue call_effect.simps by (rule enqueue_moves [OF assms])
next
  case (Claim t batch)
  show ?thesis unfolding Claim call_effect.simps by (rule claim_moves)
next
  case (Acknowledge t i k)
  show ?thesis unfolding Acknowledge call_effect.simps by (rule ack_moves)
next
  case (Report_Failure t i k err secs)
  show ?thesis unfolding Report_Failure call_effect.simps by (rule fail_moves)
next
  case (Sweep t)
  show ?thesis unfolding Sweep call_effect.simps by (rule sweep_moves)
next
  case (Deliver src e)
  show ?thesis unfolding Deliver call_effect.simps by (rule deliver_moves)
next
  case (Reserve t src qid site ev ty version dst dsite h)
  show ?thesis unfolding Reserve call_effect.simps by (rule reserve_moves)
next
  case (Apply keep t src e)
  show ?thesis unfolding Apply call_effect.simps by (rule apply_moves [OF assms])
next
  case (Confirm t batch)
  show ?thesis unfolding Confirm call_effect.simps by (rule confirm_moves [OF assms])
qed

lemma call_keeps_ok: "federation_ok c d \<Longrightarrow> federation_ok c (call_effect c f w call d)"
  using call_moves federation_move_ok by metis

lemma federation_run_ok: "federation_ok c d \<Longrightarrow> federation_ok c (federation_run c steps d)"
  by (induction c steps d rule: federation_run.induct) (simp_all add: call_keeps_ok)

text \<open>What a call keeps, a run keeps.\<close>

lemma federation_run_keeps:
  assumes "\<And>d d'. federation_ok c d \<Longrightarrow> federation_move c d d' \<Longrightarrow> P d \<Longrightarrow> P d'"
    and "federation_ok c d" and "P d"
  shows "P (federation_run c steps d)"
  using assms(2,3)
proof (induction steps arbitrary: d)
  case Nil
  then show ?case by simp
next
  case (Cons step steps)
  obtain f w call where step: "step = (f, w, call)" by (cases step)
  have "P (call_effect c f w call d)"
    using call_moves [OF Cons.prems(1), of f w call] assms(1) [OF Cons.prems(1) _ Cons.prems(2)] Cons.prems(2) by auto
  then show ?case using Cons.IH call_keeps_ok [OF Cons.prems(1)] by (simp add: step)
qed

lemma moved_row_stays:
  assumes "federation_move c d d'" "federation_ok c d" "i \<in> set (fb_inbox d)" "ib_status i \<noteq> ''received''"
  shows "i \<in> set (fb_inbox d')"
  using assms(1)
proof (cases rule: federation_move.cases)
  case moved_on
  then show ?thesis using assms(3) by (auto simp: restated_def)
next
  case (rejected j g)
  then show ?thesis using set_inbox_rows [OF assms(2) rejected(2), of g] assms(3,4) by auto
next
  case (landed j g q)
  then show ?thesis using set_inbox_rows [OF assms(2) landed(1), of g] assms(3,4) by auto
qed (use assms(3) in auto)

section \<open>Properties\<close>

text \<open>
  C26. Nothing is confirmed that was not applied. In every state that any sequence of calls
  reaches, with forged entries, stale tokens, lost leases and failing servers, a queue row
  that says \<open>application_confirmed\<close> has a receipt in the slice of another tenant, bound to
  this row and to the hash of this payload; the inbox row of the receipt was delivered with that hash and has been
  applied, and the target's event store holds the mirror of its source event.
\<close>

theorem confirmed_was_applied:
  assumes "r \<in> set (fb_queue (federation_run c steps empty_federation))"
    and "rr_status r = ''application_confirmed''"
  shows "\<exists>q i m. q \<in> set (fb_receipts (federation_run c steps empty_federation))
    \<and> i \<in> set (fb_inbox (federation_run c steps empty_federation))
    \<and> m \<in> set (fb_events (federation_run c steps empty_federation))
    \<and> rc_source q = rr_tenant r \<and> rc_queue q = rr_id r \<and> rc_tenant q \<noteq> rr_tenant r
    \<and> fc_hash c (rr_projection r) = Inr (rc_hash q)
    \<and> ib_id i = rc_inbox q \<and> ib_tenant i = rc_tenant q \<and> ib_hash i = Some (rc_hash q) \<and> ib_status i = ''applied''
    \<and> me_tenant m = rc_tenant q \<and> me_system m = ''federation'' \<and> me_source m = fc_show c (rc_event q)"
proof -
  let ?d = "federation_run c steps empty_federation"
  have ok: "federation_ok c ?d" by (rule federation_run_ok [OF empty_federation_ok])
  from federation_okD(5) [OF ok assms] obtain q where q: "q \<in> set (fb_receipts ?d)" "rc_source q = rr_tenant r"
      "rc_queue q = rr_id r" "rc_tenant q = rc_target q" "rc_tenant q \<noteq> rr_tenant r"
      "fc_hash c (rr_projection r) = Inr (rc_hash q)"
    unfolding has_receipt_def by blast
  from federation_okD(6) [OF ok q(1)] obtain i m where i: "i \<in> set (fb_inbox ?d)" "receipt_for i q" "ib_status i = ''applied''"
    and m: "m \<in> set (fb_events ?d)" "mirror_slot (rc_target q) (fc_show c (rc_event q)) m"
    unfolding receipt_ok_def list_ex_iff by blast
  show ?thesis
    by (rule exI [of _ q], rule exI [of _ i], rule exI [of _ m])
      (use q i m in \<open>simp add: receipt_for_def mirror_slot_def\<close>)
qed

text \<open>
  C27. A projection is applied at most once. However often an event is delivered and applied, an
  inbox row that has been applied has exactly one receipt and any other row has none; a target
  holds at most one mirror of a source event, and each mirror exactly one subject.
\<close>

theorem applied_at_most_once:
  "(\<forall>i \<in> set (fb_inbox (federation_run c steps empty_federation)).
      length (filter (\<lambda>q. rc_inbox q = ib_id i) (fb_receipts (federation_run c steps empty_federation)))
        = (if ib_status i = ''applied'' then 1 else 0))
   \<and> length (filter (mirror_slot t source) (fb_events (federation_run c steps empty_federation))) \<le> 1
   \<and> (\<forall>m \<in> set (fb_events (federation_run c steps empty_federation)).
      length (filter (\<lambda>x. mo_event x = me_id m) (fb_objects (federation_run c steps empty_federation))) = 1)"
proof -
  let ?d = "federation_run c steps empty_federation"
  have ok: "federation_ok c ?d" by (rule federation_run_ok [OF empty_federation_ok])
  have once: "length (filter (\<lambda>x. f x = y) xs) = (if y \<in> f ` set xs then 1 else 0)" if "distinct (map f xs)"
    for f :: "'a \<Rightarrow> 'b" and xs y
    using that by (induction xs) auto
  have "length (filter (\<lambda>q. rc_inbox q = ib_id i) (fb_receipts ?d)) = (if ib_status i = ''applied'' then 1 else 0)"
    if i: "i \<in> set (fb_inbox ?d)" for i
    using once [OF federation_okD(3) [OF ok], of "ib_id i"] federation_okD(7) [OF ok i] receipt_of_applied [OF ok i]
    by (auto simp: inbox_ok_def)
  moreover have mirrors: "distinct (map me_id (fb_events ?d))" "distinct (map mirror_event_key (fb_events ?d))"
      "map mo_event (fb_objects ?d) = map me_id (fb_events ?d)"
    using federation_okD(4) [OF ok] unfolding mirrors_ok_def by auto
  moreover have "length (filter (mirror_slot t source) (fb_events ?d)) \<le> 1"
  proof -
    have "mirror_slot t source = (\<lambda>m. mirror_event_key m = (t, ''federation'', source))"
      by (auto simp: fun_eq_iff mirror_slot_def mirror_event_key_def)
    then show ?thesis using once [OF mirrors(2), of "(t, ''federation'', source)"] by simp
  qed
  moreover have "length (filter (\<lambda>x. mo_event x = me_id m) (fb_objects ?d)) = 1" if "m \<in> set (fb_events ?d)" for m
  proof -
    have "distinct (map mo_event (fb_objects ?d))" using mirrors(1,3) by simp
    moreover have "me_id m \<in> mo_event ` set (fb_objects ?d)"
      using that mirrors(3) by (metis imageI set_map)
    ultimately show ?thesis using once [of mo_event "fb_objects ?d" "me_id m"] by simp
  qed
  ultimately show ?thesis by blast
qed

text \<open>
  C28. The end states of the inbox are final. Once a row is \<open>applied\<close>, no call changes it, so
  no redelivery applies it again and no failure takes it back; and once a row
  is \<open>reconcile_required\<close>, no call of the program changes it either: there is none that
  reconciles, and the event never reaches its target through that row.
\<close>

theorem settled_inbox_final:
  assumes "i \<in> set (fb_inbox (federation_run c steps empty_federation))"
    and "ib_status i \<in> {''applied'', ''reconcile_required''}"
  shows "i \<in> set (fb_inbox (federation_run c later_steps (federation_run c steps empty_federation)))"
proof (rule federation_run_keeps)
  show "federation_ok c (federation_run c steps empty_federation)"
    by (rule federation_run_ok [OF empty_federation_ok])
qed (use assms moved_row_stays in auto)

section \<open>A concrete run\<close>

definition demo_text :: federation_codec where
  "demo_text = \<lparr>fc_hash = (\<lambda>j. Inr (if j = JObj [(''status'', JStr ''open'')] then ''aa'' else ''bb'')),
     fc_uuid = (\<lambda>s. if s = ''5'' then Some 5 else None), fc_show = (\<lambda>u. if u = 5 then ''5'' else ''x''),
     fc_rfc3339 = (\<lambda>s. None)\<rparr>"

definition demo_world :: "nat \<Rightarrow> federation_world" where
  "demo_world k = \<lparr>fw_now = int k, fw_clock = int k, fw_id = (\<lambda>n. 1000 * k + n), fw_token = (\<lambda>i. i + k),
     fw_locked = (\<lambda>i. False), fw_aborted = []\<rparr>"

definition demo_entry :: replication_entry where
  "demo_entry = entry_of_row (queue_row (demo_publication 100) (hd demo_edges) 104)"

definition demo_row :: repl_row where
  "demo_row = (queue_row (demo_publication 100) (hd demo_edges) 104)\<lparr>rr_status := ''acked'', rr_token := Some 106,
     rr_claimed := Some 2, rr_lease := Some 300000002, rr_attempts := 1, rr_acked := Some 3\<rparr>"

definition demo_inbox_row :: inbox_row where
  "demo_inbox_row = \<lparr>ib_id = 5002, ib_tenant = 20, ib_source = 10, ib_queue = Some 104, ib_site = Some 11, ib_event = 5,
     ib_type = ''andon.opened'', ib_revision = 1, ib_target = 20, ib_target_site = Some 21, ib_hash = Some ''aa'',
     ib_status = ''received'', ib_received = 5, ib_started = None, ib_applied = None, ib_failed = None\<rparr>"

definition demo_applied_row :: inbox_row where
  "demo_applied_row = demo_inbox_row\<lparr>ib_status := ''applied'', ib_started := Some 6, ib_applied := Some 6\<rparr>"

definition demo_receipt :: application_receipt where
  "demo_receipt = \<lparr>rc_id = 6007, rc_tenant = 20, rc_source = 10, rc_queue = 104, rc_site = Some 11, rc_event = 5,
     rc_target = 20, rc_target_site = Some 21, rc_inbox = 5002, rc_type = ''andon.opened'', rc_revision = 1,
     rc_hash = ''aa'', rc_received = 5, rc_applied = 6\<rparr>"

text \<open>The queue holds one row, the inbox, the receipts and the mirrors of the target as given.\<close>

definition demo_state :: "repl_row \<Rightarrow> inbox_row list \<Rightarrow> bool \<Rightarrow> federation_db" where
  "demo_state r rows applied = \<lparr>fb_queue = [r], fb_inbox = rows,
     fb_receipts = (if applied then [demo_receipt] else []),
     fb_events = (if applied then [mirror_row demo_text (demo_world 6) 4 ''andon'' 20 10 5 7 demo_entry] else []),
     fb_objects = (if applied then [\<lparr>mo_tenant = 20, mo_event = 6004, mo_type = ''andon'', mo_object = 7, mo_role = ''subject''\<rparr>] else [])\<rparr>"

definition demo_confirmed_row :: repl_row where
  "demo_confirmed_row = demo_row\<lparr>rr_status := ''application_confirmed'', rr_confirmed := Some 7\<rparr>"

definition demo_final :: federation_db where
  "demo_final = demo_state demo_confirmed_row [demo_applied_row] True"

definition demo_enqueue :: "(pg \<times> federation_world \<times> federation_call) list" where
  "demo_enqueue = [(no_faults, demo_world 1, Publish (demo_publication 100) demo_edges),
     (no_faults, demo_world 2, Claim 10 5), (no_faults, demo_world 3, Acknowledge 10 104 106),
     (no_faults, demo_world 4, Confirm 10 5)]"

definition demo_calls :: "(pg \<times> federation_world \<times> federation_call) list" where
  "demo_calls = demo_enqueue @ [(no_faults, demo_world 5, Deliver 10 demo_entry),
     (no_faults, demo_world 6, Apply True 20 10 demo_entry), (no_faults, demo_world 7, Confirm 10 5)]"

definition demo_again :: "(pg \<times> federation_world \<times> federation_call) list" where
  "demo_again = [(no_faults, demo_world 8, Deliver 10 demo_entry), (no_faults, demo_world 9, Apply True 20 10 demo_entry)]"

lemma federation_run_append:
  "federation_run c (xs @ ys) d = federation_run c ys (federation_run c xs d)"
  by (induction c xs d rule: federation_run.induct) simp_all

text \<open>The acknowledged row stays unconfirmed in the poll that comes before the application.\<close>

lemma demo_enqueue_run: "federation_run demo_text demo_enqueue empty_federation = demo_state demo_row [] False"
  by code_simp

lemma demo_deliver:
  "call_effect demo_text no_faults (demo_world 5) (Deliver 10 demo_entry) (demo_state demo_row [] False)
     = demo_state demo_row [demo_inbox_row] False"
  by code_simp

lemma demo_apply:
  "call_effect demo_text no_faults (demo_world 6) (Apply True 20 10 demo_entry) (demo_state demo_row [demo_inbox_row] False)
     = demo_state demo_row [demo_applied_row] True"
  by code_simp

lemma demo_row_sel:
  "rr_id demo_row = 104" "rr_tenant demo_row = 10" "rr_status demo_row = ''acked''" "rr_acked demo_row = Some 3"
  "rr_projection demo_row = JObj [(''status'', JStr ''open'')]"
  by (simp_all add: demo_row_def queue_row_def demo_publication_def)

lemma demo_confirm:
  "call_effect demo_text no_faults (demo_world 7) (Confirm 10 5) (demo_state demo_row [demo_applied_row] True) = demo_final"
  by (simp add: confirm_application_receipts_def federation_tx_def tx_then_def tx_bind_def sql_fetch_def sql_read_def sql_def
      tx_return_def acked_batch_def demo_state_def demo_row_sel demo_world_def demo_text_def projection_payload_hash_def
      federation_application_receipts_def demo_receipt_def demo_applied_row_def demo_inbox_row_def mark_confirmed_def
      on_queue_def update_where_def confirm_row_def demo_final_def demo_confirmed_row_def)

lemma demo_deliver_again: "call_effect demo_text no_faults (demo_world 8) (Deliver 10 demo_entry) demo_final = demo_final"
  by code_simp

lemma demo_apply_again: "call_effect demo_text no_faults (demo_world 9) (Apply True 20 10 demo_entry) demo_final = demo_final"
  by code_simp

lemma demo_run: "federation_run demo_text demo_calls empty_federation = demo_final"
  by (simp add: demo_calls_def federation_run_append demo_enqueue_run demo_deliver demo_apply demo_confirm del: call_effect.simps)

lemma demo_run_again: "federation_run demo_text demo_again demo_final = demo_final"
  by (simp add: demo_again_def demo_deliver_again demo_apply_again del: call_effect.simps)

lemma demo_final_sel:
  "fb_queue demo_final = [demo_confirmed_row]" "fb_inbox demo_final = [demo_applied_row]"
  "fb_receipts demo_final = [demo_receipt]" "length (fb_events demo_final) = 1"
  "rr_status demo_confirmed_row = ''application_confirmed''" "ib_status demo_applied_row = ''applied''"
  by (simp_all add: demo_final_def demo_state_def demo_confirmed_row_def demo_applied_row_def)

lemma confirmed_was_applied_witness:
  "federation_run demo_text demo_calls empty_federation = demo_final
   \<and> (\<exists>q i m. q \<in> set (fb_receipts demo_final) \<and> i \<in> set (fb_inbox demo_final) \<and> m \<in> set (fb_events demo_final)
      \<and> rc_tenant q \<noteq> rr_tenant demo_confirmed_row \<and> fc_hash demo_text (rr_projection demo_confirmed_row) = Inr (rc_hash q)
      \<and> ib_id i = rc_inbox q \<and> ib_status i = ''applied'' \<and> me_source m = fc_show demo_text (rc_event q))"
  using confirmed_was_applied [where c = demo_text and steps = demo_calls and r = demo_confirmed_row]
  by (auto simp: demo_run demo_final_sel)

lemma applied_at_most_once_witness:
  "federation_run demo_text (demo_calls @ demo_again) empty_federation = demo_final
   \<and> length (filter (mirror_slot 20 ''5'') (fb_events demo_final)) \<le> 1
   \<and> length (filter (\<lambda>q. rc_inbox q = ib_id demo_applied_row) (fb_receipts demo_final)) = 1"
  using applied_at_most_once [where c = demo_text and steps = "demo_calls @ demo_again" and t = 20 and source = "''5''"]
  by (simp add: federation_run_append demo_run demo_run_again demo_final_sel)

lemma settled_inbox_final_witness:
  "ib_status demo_applied_row = ''applied''
   \<and> demo_applied_row \<in> set (fb_inbox (federation_run demo_text demo_again (federation_run demo_text demo_calls empty_federation)))"
  using settled_inbox_final [where c = demo_text and steps = demo_calls and later_steps = demo_again and i = demo_applied_row]
  by (simp add: demo_run demo_run_again demo_final_sel)

text \<open>
  Neither \<open>ack\<close> nor \<open>fail\<close> looks at the status or gives up the token. A worker that
  acknowledges once more takes the confirmation back; one that reports a failure sends the applied
  projection round again.
\<close>

lemma confirmation_taken_back:
  "map rr_status (fb_queue (call_effect demo_text no_faults (demo_world 8) (Acknowledge 10 104 106) demo_final)) = [''acked'']"
  by code_simp

lemma confirmed_fails:
  "map rr_status (fb_queue (call_effect demo_text no_faults (demo_world 8) (Report_Failure 10 104 106 ''late'' 0) demo_final)) = [''failed'']"
  by code_simp

text \<open>
  A body that answers with an error, here for an entry without an entity, marks the row only if
  the caller commits; with \<open>?\<close> in a transaction of \<open>with_tenant_tx\<close>, it is rolled back.
\<close>

lemma mark_needs_commit:
  "map ib_status (fb_inbox (call_effect demo_text no_faults (demo_world 6)
     (Apply True 20 10 (demo_entry\<lparr>re_entity := None\<rparr>)) (demo_state demo_row [demo_inbox_row] False))) = [''reconcile_required'']"
  by code_simp

lemma mark_rolled_back:
  "map ib_status (fb_inbox (call_effect demo_text no_faults (demo_world 6)
     (Apply False 20 10 (demo_entry\<lparr>re_entity := None\<rparr>)) (demo_state demo_row [demo_inbox_row] False))) = [''received'']"
  by code_simp

end
