(* ===== verification/Publication.thy ===== *)
theory Publication
  imports Residency Live_Authorization
begin

text \<open>
  What comes before the fanout: the authorization of a projection from its source event, its
  identity from the event's subject (\<open>sensei-services/src/tps/replication.rs\<close>), and the route
  that publishes an event (\<open>sensei-api/src/routes/replication.rs\<close>). The tables of the source
  tenant are those of their migrations; the texts of UUIDs and of times are parameters. Each
  transaction of the route meets its own server.
\<close>

section \<open>The source tenant\<close>

record canonical_event =
  ce_id :: uuid
  ce_tenant :: uuid
  ce_site :: "uuid option"
  ce_sensitivity :: string
  ce_type :: string
  ce_payload :: json
  ce_occurred :: timestamp

record event_object =
  eo_tenant :: uuid
  eo_event :: uuid
  eo_type :: string
  eo_object :: uuid
  eo_role :: "string option"

record site_manifest =
  sm_tenant :: uuid
  sm_site :: uuid
  sm_country :: string

record country_policy =
  cp_tenant :: uuid
  cp_country :: string
  cp_residency :: "string option"

record policy_version =
  pv_tenant :: uuid
  pv_country :: string
  pv_revision :: int

record source_db =
  sd_events :: "canonical_event list"
  sd_objects :: "event_object list"
  sd_manifests :: "site_manifest list"
  sd_policies :: "country_policy list"
  sd_versions :: "policy_version list"

record authorized_projection =
  ap_event :: uuid
  ap_site :: "uuid option"
  ap_jurisdiction :: jurisdiction
  ap_class :: string
  ap_schema :: string
  ap_revision :: nat
  ap_payload :: json

section \<open>Authorization\<close>

definition find_event :: "uuid \<Rightarrow> uuid \<Rightarrow> source_db \<Rightarrow> canonical_event option" where
  "find_event t i d = find (\<lambda>v. ce_id v = i \<and> ce_tenant v = t) (sd_events d)"

definition manifest_country :: "uuid \<Rightarrow> uuid \<Rightarrow> source_db \<Rightarrow> string option" where
  "manifest_country t site d =
     map_option sm_country (find (\<lambda>m. sm_tenant m = t \<and> sm_site m = site) (sd_manifests d))"

text \<open>A \<open>data_residency\<close> that is NULL cannot be read as a text.\<close>

definition policy_residency :: "pg \<Rightarrow> uuid \<Rightarrow> string \<Rightarrow> source_db \<Rightarrow> string + string option" where
  "policy_residency f t country d =
     (case find (\<lambda>p. cp_tenant p = t \<and> cp_country p = country) (sd_policies d) of
        None \<Rightarrow> Inr None
      | Some p \<Rightarrow> (case cp_residency p of None \<Rightarrow> Inl (null_error f) | Some code \<Rightarrow> Inr (Some code)))"

definition newest_revision :: "uuid \<Rightarrow> string option \<Rightarrow> source_db \<Rightarrow> int" where
  "newest_revision t country d =
     (case map pv_revision (filter (\<lambda>v. pv_tenant v = t \<and> Some (pv_country v) = country) (sd_versions d)) of
        [] \<Rightarrow> 0 | r # rs \<Rightarrow> fold max rs r)"

definition projected_payload :: "(uuid \<Rightarrow> string) \<Rightarrow> (timestamp \<Rightarrow> string) \<Rightarrow> canonical_event \<Rightarrow> timestamp \<Rightarrow> json" where
  "projected_payload show_uuid show_time v occurred =
     JObj [(''source_event'', JStr (show_uuid (ce_id v))), (''event_type'', JStr (ce_type v)),
       (''occurred_at'', JStr (show_time occurred)),
       (''scope_site'', case ce_site v of None \<Rightarrow> JNull | Some s \<Rightarrow> JStr (show_uuid s)), (''payload'', ce_payload v)]"

text \<open>A parse that fails ends the transaction with its message.\<close>

definition parsed :: "string + 'a \<Rightarrow> ('d, sensei_error, 'a) step" where
  "parsed p = (case p of Inl m \<Rightarrow> tx_fail (Validation [Txt m]) | Inr x \<Rightarrow> tx_return x)"

definition source_jurisdiction :: "pg \<Rightarrow> uuid \<Rightarrow> uuid option \<Rightarrow> (source_db, sensei_error, jurisdiction) step" where
  "source_jurisdiction f t site =
     (case site of
        None \<Rightarrow> tx_fail (Validation [Txt ''replication: the source event has no site scope -- its jurisdiction is                  unknown, so it cannot be authorized for replication''])
      | Some s \<Rightarrow>
          tx_bind (sql_read f ''replication: manifest lookup: '' (manifest_country t s)) (\<lambda>country.
          case country of
            None \<Rightarrow> tx_fail (Validation [Txt ''replication: the source site has no manifest -- its jurisdiction                      cannot be derived, so nothing may leave it''])
          | Some k \<Rightarrow>
              tx_bind (sql_fetch f ''replication: policy lookup: '' (policy_residency f t k)) (\<lambda>residency.
              case residency of
                None \<Rightarrow> tx_fail (Validation [Txt ''replication: no country policy for '', FStr k, Txt '' -- a country is a policy                      RECORD, not a code fork''])
              | Some code \<Rightarrow> parsed (parse_jurisdiction code))))"

definition authorize_event ::
    "pg \<Rightarrow> (uuid \<Rightarrow> string) \<Rightarrow> (timestamp \<Rightarrow> string) \<Rightarrow> uuid \<Rightarrow> string \<Rightarrow> canonical_event \<Rightarrow> (source_db, sensei_error, authorized_projection) step" where
  "authorize_event f show_uuid show_time t schema v =
     tx_bind (sql_fetch f ''replication: event time: ''
         (\<lambda>d. case find_event t (ce_id v) d of None \<Rightarrow> Inl (no_row_error f) | Some v' \<Rightarrow> Inr (ce_occurred v'))) (\<lambda>occurred.
     tx_bind (parsed (parse_data_policy (ce_sensitivity v))) (\<lambda>class.
     tx_bind (source_jurisdiction f t (ce_site v)) (\<lambda>j.
     tx_bind (sql_read f ''replication: policy revision: ''
         (\<lambda>d. newest_revision t (case ce_site v of None \<Rightarrow> None | Some s \<Rightarrow> manifest_country t s d) d)) (\<lambda>revision.
     tx_return \<lparr>ap_event = ce_id v, ap_site = ce_site v, ap_jurisdiction = j, ap_class = data_policy_str class,
       ap_schema = (if trim schema = [] then ce_type v else schema), ap_revision = as_u64 revision,
       ap_payload = projected_payload show_uuid show_time v occurred\<rparr>))))"

definition authorize_projection ::
    "pg \<Rightarrow> (uuid \<Rightarrow> string) \<Rightarrow> (timestamp \<Rightarrow> string) \<Rightarrow> uuid \<Rightarrow> uuid \<Rightarrow> string \<Rightarrow> source_db \<Rightarrow> authorized_projection res" where
  "authorize_projection f show_uuid show_time t i schema d = fst (federation_tx f
     (tx_bind (sql_read f ''replication: source event: '' (find_event t i)) (\<lambda>event.
      case event of
        None \<Rightarrow> tx_fail (Validation [Txt ''replication: source_event_id must reference an EXISTING canonical event in this tenant -- an artifact without a real source event is refused''])
      | Some v \<Rightarrow> authorize_event f show_uuid show_time t schema v)) d)"

definition event_subjects :: "uuid \<Rightarrow> uuid \<Rightarrow> source_db \<Rightarrow> (string \<times> uuid) list" where
  "event_subjects t i d = map (\<lambda>x. (eo_type x, eo_object x))
     (filter (\<lambda>x. eo_tenant x = t \<and> eo_event x = i \<and> eo_role x = Some ''subject'') (sd_objects d))"

text \<open>The order of several subjects does not matter, since they are refused.\<close>

definition derive_projection_identity :: "pg \<Rightarrow> uuid \<Rightarrow> uuid \<Rightarrow> source_db \<Rightarrow> (string \<times> uuid) res" where
  "derive_projection_identity f t i d = fst (federation_tx f
     (tx_bind (sql_read f ''replication: subject derivation: '' (event_subjects t i)) (\<lambda>subjects.
      case subjects of
        [] \<Rightarrow> tx_fail (Validation [Txt ''replication: the source event carries no subject object -- the projection identity cannot be derived, so it cannot be enqueued''])
      | [s] \<Rightarrow> tx_return s
      | _ \<Rightarrow> tx_fail (Validation [Txt ''replication: the source event projects MULTIPLE subject objects -- multiple subjects require explicit projector semantics (none defined yet), so the projection identity cannot be derived'']))) d)"

section \<open>The route\<close>

text \<open>
  The servers of the four transactions, the texts, the ids and the governance that the statements of the third
  and fourth see, and the source tables at each of the first two.
\<close>

record publish_world =
  pw_pool :: bool
  pw_server :: "nat \<Rightarrow> pg"
  pw_source :: "nat \<Rightarrow> source_db"
  pw_show :: "uuid \<Rightarrow> string"
  pw_time :: "timestamp \<Rightarrow> string"
  pw_new_id :: "nat \<Rightarrow> uuid"
  pw_now :: timestamp
  pw_loaded :: "governance_row list"
  pw_governance :: "nat \<Rightarrow> governance_row list"

definition publication_of :: "publish_world \<Rightarrow> uuid \<Rightarrow> authorized_projection \<Rightarrow> string \<times> uuid \<Rightarrow> publication" where
  "publication_of w t a subject =
     \<lparr>pb_tenant = t, pb_site = ap_site a, pb_entity_type = fst subject, pb_entity = snd subject,
      pb_projection = ap_payload a, pb_event = pw_show w (ap_event a),
      pb_envelope = \<lparr>en_schema = 1, en_event = Some (pw_show w (ap_event a)), en_site = ap_site a,
        en_type = ap_schema a, en_revision = 1, en_policy = ap_class a, en_payload = ap_payload a\<rparr>,
      pb_source = ap_jurisdiction a, pb_show = pw_show w, pb_new_id = pw_new_id w, pb_now = pw_now w,
      pb_governance = pw_governance w\<rparr>"

record publication_answer =
  pa_new :: nat
  pa_present :: nat
  pa_blocked :: nat
  pa_artifact :: authorized_projection

definition publish_outcome :: "authorized_projection \<Rightarrow> data_policy \<Rightarrow> fanout_report \<Rightarrow> publication_answer res" where
  "publish_outcome a policy rep =
     (if fn_new rep = 0 \<and> fn_present rep = 0 \<and> policy \<in> {Restricted, Personal}
      then Err (HttpError 422 [Txt ''no federation edge permits this restricted/personal projection -- nothing was enqueued''])
      else Ok \<lparr>pa_new = fn_new rep, pa_present = fn_present rep, pa_blocked = fn_blocked rep, pa_artifact = a\<rparr>)"

definition publish_authorized ::
    "publish_world \<Rightarrow> uuid \<Rightarrow> authorized_projection \<Rightarrow> repl_row list \<Rightarrow> publication_answer res \<times> repl_row list" where
  "publish_authorized w t a q =
     (case parse_data_policy (ap_class a) of
        Inl m \<Rightarrow> (Err (Validation [Txt m]), q)
      | Inr policy \<Rightarrow>
     (case derive_projection_identity (pw_server w 1) t (ap_event a) (pw_source w 1) of
        Inl e \<Rightarrow> (Err e, q)
      | Inr subject \<Rightarrow>
     (case fst (load_federation_edges (pw_server w 2) ((publication_of w t a subject)\<lparr>pb_governance := \<lambda>_. pw_loaded w\<rparr>) ()) of
        Inl e \<Rightarrow> (Err e, q)
      | Inr edges \<Rightarrow>
     (case enqueue_projection_fanout (pw_server w 3) (publication_of w t a subject) edges q of
        (Inl e, q') \<Rightarrow> (Err e, q')
      | (Inr rep, q') \<Rightarrow> (publish_outcome a policy rep, q')))))"

definition publish_projection ::
    "publish_world \<Rightarrow> authenticated_user \<Rightarrow> uuid \<Rightarrow> repl_row list \<Rightarrow> publication_answer res \<times> repl_row list" where
  "publish_projection w user i q =
     (case require_permission user ''federation:replication:publish'' of
        Inl e \<Rightarrow> (Err e, q)
      | Inr _ \<Rightarrow>
          if \<not> pw_pool w then (Err (Database [Txt ''Replication requires the database'']), q)
          else (case authorize_projection (pw_server w 0) (pw_show w) (pw_time w) (au_tenant user) i [] (pw_source w 0) of
              Inl e \<Rightarrow> (Err e, q)
            | Inr a \<Rightarrow> publish_authorized w (au_tenant user) a q))"

section \<open>What a publication rests on\<close>

lemma parsed_Ok [simp]: "parsed p d n = (Inr x, d', n') \<longleftrightarrow> p = Inr x \<and> d' = d \<and> n' = n"
  by (auto simp: parsed_def split: sum.splits)

lemma federation_tx_value: "fst (federation_tx f body d) = Inr x \<Longrightarrow> \<exists>d' n. body d 2 = (Inr x, d', n)"
  using federation_tx_Ok [of f body d x "snd (federation_tx f body d)"] by (metis prod.collapse)

lemma source_jurisdiction_Ok:
  assumes "source_jurisdiction f t site d n = (Inr j, d', n')"
  shows "d' = d \<and> (\<exists>s k code. site = Some s \<and> manifest_country t s d = Some k
    \<and> policy_residency f t k d = Inr (Some code) \<and> parse_jurisdiction code = Inr j)"
  using assms by (auto simp: source_jurisdiction_def split: option.splits sum.splits)

lemma authorize_projection_Ok:
  assumes "authorize_projection f su st t i schema d = Inr a"
  shows "\<exists>v s k code policy. find_event t i d = Some v \<and> ce_site v = Some s \<and> manifest_country t s d = Some k
    \<and> policy_residency f t k d = Inr (Some code) \<and> parse_jurisdiction code = Inr (ap_jurisdiction a)
    \<and> ce_sensitivity v = data_policy_str policy \<and> ap_class a = data_policy_str policy
    \<and> ap_event a = i \<and> ap_site a = ce_site v \<and> ap_schema a = (if trim schema = [] then ce_type v else schema)
    \<and> ap_payload a = projected_payload su st v (ce_occurred v)"
proof -
  from federation_tx_value [OF assms [unfolded authorize_projection_def]] obtain v d' n m where
    v: "find_event t i d = Some v" and run: "authorize_event f su st t schema v d m = (Inr a, d', n)"
    by (auto split: option.splits)
  have id: "ce_id v = i" using v by (auto simp: find_event_def find_Some_iff)
  from run obtain policy m1 d1 m2 revision where policy: "parse_data_policy (ce_sensitivity v) = Inr policy"
    and j: "source_jurisdiction f t (ce_site v) d m1 = (Inr (ap_jurisdiction a), d1, m2)"
    and a: "a = \<lparr>ap_event = i, ap_site = ce_site v, ap_jurisdiction = ap_jurisdiction a, ap_class = data_policy_str policy,
       ap_schema = (if trim schema = [] then ce_type v else schema), ap_revision = as_u64 revision,
       ap_payload = projected_payload su st v (ce_occurred v)\<rparr>"
    by (auto simp: authorize_event_def id v)
  have fields: "ap_event a = i \<and> ap_site a = ce_site v \<and> ap_class a = data_policy_str policy
      \<and> ap_schema a = (if trim schema = [] then ce_type v else schema)
      \<and> ap_payload a = projected_payload su st v (ce_occurred v)"
    by (subst a, subst (2) a, subst (3) a, subst (4) a, subst (5) a) simp
  show ?thesis
    using source_jurisdiction_Ok [OF j] v policy fields by (auto simp: parse_data_policy_exact)
qed

lemma derive_identity_Ok: "derive_projection_identity f t i d = Inr s \<Longrightarrow> event_subjects t i d = [s]"
  unfolding derive_projection_identity_def by (drule federation_tx_value) (auto split: list.splits)

lemma publish_outcome_Ok:
  "publish_outcome a policy rep = Inr ans \<Longrightarrow> pa_new ans = fn_new rep \<and> pa_present ans = fn_present rep
     \<and> pa_blocked ans = fn_blocked rep \<and> pa_artifact ans = a
     \<and> (policy \<in> {Restricted, Personal} \<longrightarrow> pa_new ans + pa_present ans > 0)"
  by (auto simp: publish_outcome_def split: if_splits)

lemma publish_projection_Ok:
  assumes "publish_projection w user i q = (Ok ans, q')"
  obtains a policy subject edges rep where
    "require_permission user ''federation:replication:publish'' = Ok ()"
    "authorize_projection (pw_server w 0) (pw_show w) (pw_time w) (au_tenant user) i [] (pw_source w 0) = Inr a"
    "parse_data_policy (ap_class a) = Inr policy"
    "derive_projection_identity (pw_server w 1) (au_tenant user) (ap_event a) (pw_source w 1) = Inr subject"
    "enqueue_projection_fanout (pw_server w 3) (publication_of w (au_tenant user) a subject) edges q = (Ok rep, q')"
    "publish_outcome a policy rep = Inr ans"
  using assms
  by (auto simp: publish_projection_def publish_authorized_def split: sum.splits prod.splits if_splits)

text \<open>A row of a publication carries what the artifact and the subject say.\<close>

lemma granted_publication:
  assumes "granted (publication_of w t a subject) policy cur es r"
  shows "rr_tenant r = t \<and> rr_event r = Some (pw_show w (ap_event a)) \<and> rr_status r = ''pending''
    \<and> rr_entity_type r = fst subject \<and> rr_entity r = Some (snd subject) \<and> rr_projection r = ap_payload a \<and> rr_policy r = ap_class a
    \<and> rr_type r = Some (if ap_schema a = [] then fst subject else ap_schema a)"
  using assms by (auto simp: granted_def queue_row_def publication_of_def projection_type_of_def)

text \<open>
  C23. A published projection is the event's own. When the route answers with success, the caller
  may publish, the event exists in the caller's tenant and has one subject, its site's manifest and
  country policy give a known jurisdiction, and its sensitivity is a data class; the call has
  only appended rows, and each of them bears the event, its subject, its type, its payload and
  its sensitivity. A restricted or personal projection stays in that jurisdiction, and is not
  answered with success unless some edge has it.
\<close>

theorem published_from_source:
  assumes "publish_projection w user i q = (Ok ans, q')"
  shows "\<exists>v site country code j policy subject added.
    require_permission user ''federation:replication:publish'' = Ok ()
    \<and> find_event (au_tenant user) i (pw_source w 0) = Some v \<and> ce_site v = Some site
    \<and> manifest_country (au_tenant user) site (pw_source w 0) = Some country
    \<and> policy_residency (pw_server w 0) (au_tenant user) country (pw_source w 0) = Inr (Some code)
    \<and> parse_jurisdiction code = Inr j \<and> ce_sensitivity v = data_policy_str policy
    \<and> event_subjects (au_tenant user) i (pw_source w 1) = [subject]
    \<and> q' = q @ added \<and> length added = pa_new ans
    \<and> (\<forall>r \<in> set added. rr_tenant r = au_tenant user \<and> rr_event r = Some (pw_show w i) \<and> rr_status r = ''pending''
        \<and> rr_entity_type r = fst subject \<and> rr_entity r = Some (snd subject)
        \<and> rr_type r = Some (if ce_type v = [] then fst subject else ce_type v) \<and> rr_policy r = ce_sensitivity v
        \<and> rr_projection r = projected_payload (pw_show w) (pw_time w) v (ce_occurred v)
        \<and> (policy \<in> {Restricted, Personal} \<longrightarrow> rr_jurisdiction r = Some (jurisdiction_str j)))
    \<and> (policy \<in> {Restricted, Personal} \<longrightarrow> pa_new ans + pa_present ans > 0)"
proof -
  from assms obtain a policy subject edges rep where perm: "require_permission user ''federation:replication:publish'' = Ok ()"
    and auth: "authorize_projection (pw_server w 0) (pw_show w) (pw_time w) (au_tenant user) i [] (pw_source w 0) = Inr a"
    and policy: "parse_data_policy (ap_class a) = Inr policy"
    and subject: "derive_projection_identity (pw_server w 1) (au_tenant user) (ap_event a) (pw_source w 1) = Inr subject"
    and fanout: "enqueue_projection_fanout (pw_server w 3) (publication_of w (au_tenant user) a subject) edges q = (Ok rep, q')"
    and outcome: "publish_outcome a policy rep = Inr ans"
    by (rule publish_projection_Ok)
  from authorize_projection_Ok [OF auth] obtain v s k code cls where
    v: "find_event (au_tenant user) i (pw_source w 0) = Some v" "ce_site v = Some s"
      "manifest_country (au_tenant user) s (pw_source w 0) = Some k"
      "policy_residency (pw_server w 0) (au_tenant user) k (pw_source w 0) = Inr (Some code)"
      "parse_jurisdiction code = Inr (ap_jurisdiction a)" "ce_sensitivity v = data_policy_str cls"
    and a: "ap_class a = data_policy_str cls" "ap_event a = i" "ap_schema a = ce_type v"
      "ap_payload a = projected_payload (pw_show w) (pw_time w) v (ce_occurred v)"
    by (auto simp: trim_def)
  have cls: "cls = policy" using policy a(1) by (simp add: parse_data_policy_str)
  let ?p = "publication_of w (au_tenant user) a subject"
  from fanout obtain policy' n where policy': "parse_data_policy (en_policy (pb_envelope ?p)) = Inr policy'"
    and run: "fanout_edges (pw_server w 3) ?p policy' (decode_governance_edges (pb_tenant ?p) (pb_site ?p) (pb_governance ?p 2)) edges
      \<lparr>fn_new = 0, fn_present = 0, fn_blocked = 0\<rparr> q 3 = (Inr rep, q', n)"
    by (rule fanout_Ok)
  have same: "policy' = policy" using policy policy' by (simp add: publication_of_def)
  from fanout_edges_added [OF run] obtain added where added: "q' = q @ added" "fn_new rep = length added"
      "\<forall>r \<in> set added. granted ?p policy (decode_governance_edges (pb_tenant ?p) (pb_site ?p) (pb_governance ?p 2)) edges r"
    unfolding same by auto
  have row: "rr_tenant r = au_tenant user \<and> rr_event r = Some (pw_show w i) \<and> rr_status r = ''pending''
        \<and> rr_entity_type r = fst subject \<and> rr_entity r = Some (snd subject)
        \<and> rr_type r = Some (if ce_type v = [] then fst subject else ce_type v) \<and> rr_policy r = ce_sensitivity v
        \<and> rr_projection r = projected_payload (pw_show w) (pw_time w) v (ce_occurred v)
        \<and> (policy \<in> {Restricted, Personal} \<longrightarrow> rr_jurisdiction r = Some (jurisdiction_str (ap_jurisdiction a)))"
    if "r \<in> set added" for r
  proof -
    have g: "granted ?p policy (decode_governance_edges (pb_tenant ?p) (pb_site ?p) (pb_governance ?p 2)) edges r"
      using added(3) that by blast
    have home: "pb_source ?p = ap_jurisdiction a" by (simp add: publication_of_def)
    show ?thesis
      using granted_publication [OF g] granted_at_home [OF g] a v(6) unfolding home by auto
  qed
  note out = publish_outcome_Ok [OF outcome]
  show ?thesis
    by (intro exI [of _ v] exI [of _ s] exI [of _ k] exI [of _ code] exI [of _ "ap_jurisdiction a"] exI [of _ policy]
        exI [of _ subject] exI [of _ added])
      (use perm v cls derive_identity_Ok [OF subject] a(2) added(1,2) out row in auto)
qed

section \<open>A concrete event\<close>

definition demo_source :: source_db where
  "demo_source = \<lparr>sd_events = [\<lparr>ce_id = 5, ce_tenant = 10, ce_site = Some 11, ce_sensitivity = ''internal'',
       ce_type = ''andon.opened'', ce_payload = JObj [(''status'', JStr ''open'')], ce_occurred = 1\<rparr>],
     sd_objects = [\<lparr>eo_tenant = 10, eo_event = 5, eo_type = ''andon'', eo_object = 7, eo_role = Some ''subject''\<rparr>],
     sd_manifests = [\<lparr>sm_tenant = 10, sm_site = 11, sm_country = ''Morocco''\<rparr>],
     sd_policies = [\<lparr>cp_tenant = 10, cp_country = ''Morocco'', cp_residency = Some ''ma''\<rparr>],
     sd_versions = [\<lparr>pv_tenant = 10, pv_country = ''Morocco'', pv_revision = 4\<rparr>]\<rparr>"

definition demo_publish :: publish_world where
  "demo_publish = \<lparr>pw_pool = True, pw_server = (\<lambda>k. no_faults), pw_source = (\<lambda>k. demo_source),
     pw_show = (\<lambda>u. if u = 5 then ''5'' else ''x''), pw_time = (\<lambda>t. ''t''), pw_new_id = (\<lambda>k. 100 + k), pw_now = 2,
     pw_loaded = demo_governance, pw_governance = (\<lambda>k. demo_governance)\<rparr>"

definition demo_publisher :: authenticated_user where
  "demo_publisher = \<lparr>au_user = 1, au_tenant = 10, au_roles = [], au_sid = None,
     au_permissions = {''federation:replication:publish''}\<rparr>"

definition demo_artifact :: authorized_projection where
  "demo_artifact = \<lparr>ap_event = 5, ap_site = Some 11, ap_jurisdiction = MA, ap_class = ''internal'', ap_schema = ''andon.opened'',
     ap_revision = 4, ap_payload = JObj [(''source_event'', JStr ''5''), (''event_type'', JStr ''andon.opened''),
       (''occurred_at'', JStr ''t''), (''scope_site'', JStr ''x''), (''payload'', JObj [(''status'', JStr ''open'')])]\<rparr>"

definition demo_published :: repl_row where
  "demo_published = queue_row (publication_of demo_publish 10 demo_artifact (''andon'', 7)) (hd demo_edges) 104"

lemma demo_permitted: "require_permission demo_publisher ''federation:replication:publish'' = Ok ()"
proof -
  have "split_once (CHR '':'') ''federation:replication:publish'' = Some (''federation'', ''replication:publish'')" by code_simp
  moreover have "grant_matches ''federation:replication:publish'' ''federation'' ''replication:publish''" by code_simp
  ultimately show ?thesis by (simp add: require_permission_def permission_set_grants_def demo_publisher_def)
qed

lemma demo_authorized:
  "authorize_projection (pw_server demo_publish 0) (pw_show demo_publish) (pw_time demo_publish) 10 5 [] (pw_source demo_publish 0)
     = Inr demo_artifact"
  by code_simp

lemma demo_enqueued:
  "publish_authorized demo_publish 10 demo_artifact [] =
     (Ok \<lparr>pa_new = 1, pa_present = 0, pa_blocked = 1, pa_artifact = demo_artifact\<rparr>, [demo_published])"
  by code_simp

lemma demo_publish_projection:
  "publish_projection demo_publish demo_publisher 5 [] =
     (Ok \<lparr>pa_new = 1, pa_present = 0, pa_blocked = 1, pa_artifact = demo_artifact\<rparr>, [demo_published])"
proof -
  have "pw_pool demo_publish" "au_tenant demo_publisher = 10"
    by (simp_all add: demo_publish_def demo_publisher_def)
  then show ?thesis by (simp add: publish_projection_def demo_permitted demo_authorized demo_enqueued)
qed

lemma published_from_source_witness:
  "publish_projection demo_publish demo_publisher 5 [] =
     (Ok \<lparr>pa_new = 1, pa_present = 0, pa_blocked = 1, pa_artifact = demo_artifact\<rparr>, [demo_published])
   \<and> (\<exists>v subject. find_event 10 5 (pw_source demo_publish 0) = Some v
        \<and> event_subjects 10 5 (pw_source demo_publish 1) = [subject]
        \<and> rr_policy demo_published = ce_sensitivity v \<and> rr_entity demo_published = Some (snd subject))"
proof -
  have "au_tenant demo_publisher = 10" by (simp add: demo_publisher_def)
  with published_from_source [OF demo_publish_projection] show ?thesis
    by (auto simp: demo_publish_projection)
qed

end
