(* ===== verification/Spec2Isabelle.thy ===== *)
theory Spec2Isabelle
  imports Event_Bus Workflow_Concurrency Supply_Service Production_Planning Refresh_Tokens Live_Authorization
    Rate_Limiter Finance_Trace Finance_Concurrency Relay_Progress Task_Scheduler Command_Journal Federation_Trace Publication
begin

text \<open>
  A verification development for the Starz Forge / Sensei manufacturing management system
  (\<open>sensei-rs\<close>). All paths below are under \<open>src/sensei-rs/crates/\<close>.

  The program and its parts. A request reaches a service with a tenant, a principal and an
  operational scope. The principal comes from a bearer token that is validated, checked against
  the revocation list and resolved to the live user and permissions
  (\<open>sensei-auth\<close>, \<open>sensei-api/src/middleware\<close>). The scope comes from the
  role-slot assignments in the database
  (\<open>sensei-core/src/domain/scope.rs\<close>) and is carried in a server-built context
  (\<open>domain/request_context.rs\<close>). The services (\<open>sensei-services\<close>) keep their
  records in tables behind locks and publish domain events (\<open>domain/events.rs\<close>) on a bus
  with NATS subject semantics (\<open>sensei-event-bus\<close>). Long-running human processes run on
  a durable workflow engine (\<open>sensei-workflow\<close>): checkpoints, evidence and approvals in
  PostgreSQL, with the corrective-action lifecycle on top. Listings are cut into pages
  (\<open>pagination.rs\<close>) and failures are the variants of \<open>error.rs\<close>.

  Theories, in the order of their imports.

  \<^item> \<open>Rust_Prelude\<close>: identifiers, errors with their message pieces, the \<open>i64\<close>,
    \<open>u64\<close> and \<open>f64\<close> casts of the release build (no overflow checks, so arithmetic
    wraps), trimming and number formatting, the \<open>HashMap\<close> contract (locale
    \<open>hash_table\<close>, interpreted on association lists), the environment that supplies fresh
    UUIDs, instants and the unspecified iteration order, and \<open>PaginatedResponse::new\<close>.
  \<^item> \<open>Sql_Model\<close>: one SQL statement as a function of the tables that the server may fail,
    transactions as state passing with rollback (\<open>with_tenant_tx\<close>).
  \<^item> \<open>Tenant_Db\<close>: what the database-backed services share, the transaction of a tenant
    (\<open>sensei-core/src/db/tenant_tx.rs\<close>) with service errors, statements on rows, pages with
    \<open>LIMIT\<close> and \<open>OFFSET\<close>, and \<open>NUMERIC(19,4)\<close> columns.
  \<^item> \<open>Access_Scope\<close>: scope algebra, resolution, context building and validation.
  \<^item> \<open>Rbac\<close>: the compiled role table and hierarchy of \<open>sensei-auth/src/rbac.rs\<close>, the
    breadth-first ancestor search (a terminating \<open>function\<close> for any hierarchy, cycles
    included), tenant roles and permission decisions.
  \<^item> \<open>Refresh_Tokens\<close> (\<open>sensei-auth/src/refresh_tokens.rs\<close>), \<open>Auth_Stores\<close>
    (\<open>sensei-api/src/middleware/shared_auth_stores.rs\<close>): token rotation, the access-token
    blacklist and the one-time tokens, each in its PostgreSQL and its in-memory backend, with
    runs of calls in which every call meets its own server, clock and users.
  \<^item> \<open>Live_Authorization\<close>: \<open>jwt.rs\<close>, \<open>auth_layer\<close>, \<open>auth_middleware\<close>,
    the live reload and \<open>resolver.rs\<close>.
  \<^item> \<open>Idempotency\<close>, \<open>Rate_Limiter\<close> (\<open>sensei-api/src/middleware\<close>): the idempotency
    protocol as a step relation in which the SQL statements of the replicas interleave
    (\<open>timely_reachable\<close>: no claim is held past its expiry), its in-memory mode, and the two
    functions of \<open>finance/database.rs\<close> that touch the record; the sliding-window log, its
    cleanup, the counter shared through the database and the client address.
  \<^item> \<open>Finance_Db\<close>, \<open>Finance_Invoices\<close>, \<open>Finance_Journal\<close>, \<open>Finance_Costing\<close>: the
    database-backed finance service (\<open>sensei-services/src/finance/database.rs\<close>) on the tables of
    its migrations, one definition per method; for every method that writes, an \<open>_effect\<close>
    lemma says what a committed call did to the tables. \<open>Finance_Service\<close>: \<open>finance_next\<close>,
    one call; \<open>finance_run\<close>, runs of calls under any server faults with changes of other
    parts in between; the locale \<open>finance_contract\<close>, interpreted for settlement, the
    journal and (in \<open>Finance_Trace\<close>) the audit trail. \<open>Finance_Trace\<close> also holds what
    the calls do to idempotency records and the balances after a reversal.
  \<^item> \<open>Finance_Concurrency\<close>: the seven finance methods that check rows they have read
    without a lock, one step for each of their reads and one for their write
    (\<open>fin_begin\<close>, \<open>fin_read\<close>, \<open>fin_write\<close>), interleaved with each other and
    with the other calls (\<open>fin_interleaved\<close>). \<open>write_is_call\<close> and \<open>current_run\<close>:
    where the reads are still true at the write, an interleaving is a \<open>finance_run\<close>;
    \<open>payment_race\<close> and \<open>reversal_race\<close>: what happens where they are not.
  \<^item> \<open>Domain_Events\<close>, \<open>Event_Bus\<close>: the events the modelled services publish; subject
    normalisation, matching and delivery of the in-memory bus.
  \<^item> \<open>Lease_Protocol\<close>: leases on keys as a specification of their own, and the locale
    \<open>lease_protocol\<close> for systems whose steps it simulates. \<open>Outbox_Relay\<close>
    (\<open>sensei-workers/src/outbox_relay.rs\<close>): the relay of the rows that the services write into
    the outbox, its statements interleaved between processes (\<open>relay_step\<close>), and one pass
    of one relay (\<open>relay_tenant\<close>, \<open>relay_once\<close>); \<open>Relay_Progress\<close>: that healthy
    passes empty the outbox. \<open>Task_Guard\<close> (\<open>sensei-workers/src/task.rs\<close>): the leases of
    tasks and the processes that share them (\<open>task_step\<close>). \<open>Task_Dispatch\<close>: the ack, NAK
    and dead-letter policy for one message, with the mail and analytics workers
    (\<open>email.rs\<close>, \<open>analytics.rs\<close>) behind it. \<open>Task_Scheduler\<close>
    (\<open>scheduler.rs\<close>): cron expressions, their next runs, the leased slots and the loop that
    publishes at each. The outbox, the tasks and the slots interpret \<open>lease_protocol\<close>; \<open>timely_run\<close> is a run in which no process goes on past its lease.
  \<^item> \<open>Tool_Policy\<close>, \<open>Command_Journal\<close>: the tools of the agent
    (\<open>sensei-agent-core/src/tools.rs\<close>): who may run them, the check of their output, the bounded
    cache; and the journal of mutating commands
    (\<open>sensei-services/src/ai/command_journal.rs\<close>) with the execution state machine on top of
    it. \<open>call_statement\<close> is one statement of a call, \<open>command_step\<close> interleaves calls,
    \<open>row_move\<close> is the protocol between a call and the row of its key that the statements
    refine (\<open>call_statement_move\<close>) and the invariants are proved on, and
    \<open>execute_call\<close> is a call by itself.
  \<^item> \<open>Residency\<close>, \<open>Federation\<close> (\<open>sensei-services/src/tps/replication.rs\<close>,
    \<open>target_projectors.rs\<close>, with the tables and indexes of their migrations): the residency gate,
    the fanout of a projection over the federation edges, and then the leases of the source
    queue, the inbox of the target, the projectors, the receipts and the poll that confirms.
    \<open>Federation_Trace\<close>: \<open>federation_run\<close> is any sequence of these calls by any
    tenant; \<open>federation_move\<close> is the protocol of five moves that every call refines
    (\<open>call_moves\<close>), and \<open>federation_ok\<close> the invariant proved on the moves.
    \<open>Publication\<close>: how a projection is authorized by its source event and published
    (\<open>sensei-api/src/routes/replication.rs\<close>).
  \<^item> \<open>Workflow_Engine\<close>, \<open>Corrective_Action\<close>: every function of \<open>sensei-workflow\<close> over
    its four tables; \<open>wf_reachable\<close> is the closure under its calls with any server fault,
    the locales \<open>lifecycle_invariant\<close> and \<open>engine_invariant\<close> state what a call has to
    keep, and their interpretations carry the history, version and lifecycle properties.
  \<^item> \<open>Workflow_Concurrency\<close>: the functions of \<open>corrective_action.rs\<close> and
    \<open>approval.rs\<close> statement by statement (\<open>wf_statement\<close>), any number of calls
    interleaved (\<open>wf_interleaved\<close>); \<open>solo_call\<close>: a call that meets no other is the
    \<open>run_call\<close> of \<open>Corrective_Action\<close>; \<open>two_closes\<close>: two calls that close the same
    investigation.
  \<^item> \<open>Supply_Types\<close>, \<open>Supply_Sales\<close>, \<open>Supply_Stock\<close>, \<open>Supply_Purchasing\<close>,
    \<open>Supply_Service\<close>: the in-memory supply-chain service
    (\<open>sensei-services/src/supply_chain/mod.rs\<close>), one definition per method with the
    method's name, its error paths in the method's order, and whatever it has already changed
    on an error path. \<open>supply_next\<close> is one call of the trait; \<open>supply_reachable\<close> and
    \<open>supply_run\<close> are sequences of calls; the locales \<open>stock_book\<close> and
    \<open>numbered_documents\<close> are the contracts of the stock balance and of document numbers.
  \<^item> \<open>Production\<close>, \<open>Production_Planning\<close>: the in-memory production service
    (\<open>sensei-services/src/production/mod.rs\<close>) under the request context, with its
    routings, completion, MRP and error answers.

  What the lemma groups show. Authorization: what a scope admits is exactly what the live
  assignments grant, a built context is consistent and authorized, and a production call
  changes only orders inside its caller's scope; role inheritance is the closure of the
  hierarchy, the compiled table gives the sensitive permissions to the intended roles, the
  decisions of the role service are exact, and an admitted request carries exactly the live
  permissions. Tokens: rotation exact and single-use, replay reported, revocation final,
  issued tokens accepted across a key rotation, revoked ones refused. Requests: one holder of an
  idempotency key at a time and a replay once the middleware has stored the response, a bound on
  the requests that the log of a process admits in every window. Workflows: gap-free histories,
  the approval role, compare-and-swap with a single winner, atomicity of every call but one, the
  order of the lifecycle for calls one after another, and what is left of it when they
  overlap. Supply chain: stock rows consistent under all calls, receipts booked exactly,
  reversals that restore and are recorded, quotes converted once, unique numbers, immutable
  identity and sites, and foreign orders indistinguishable from missing ones. Finance: paid
  invoices that were covered when they were paid, single reversals of entries that stay; where no
  read is out of date at its write, also paid invoices that are covered and final and reversed
  and reversing entries that never change; reversals exact at the moment they are made, every
  document with its audit and outbox row, keyed calls
  that take effect once, rollups exact in cents, and three-way matches that agree with the sums
  per product in double precision. Workers: one relay per event, one process per task and per slot at a time, runs that are
  the next slots of their schedule and never turn back, nothing marked
  as published or completed that was not, an outbox that empties, and no acknowledged task
  without its effect or its dead letter. Agent commands: one dispatch per tenant and execution key
  whatever fails and however late, answers and records that come from it, and retries that
  replay. Federation: rows enqueued only as the policies in force allow, retries that converge,
  nothing confirmed that the target has not applied, and nothing applied twice. Bus and
  pagination: matching refines the documented wildcard relation, pages partition a listing.
  Where the code departs from its comments or from a sensible contract, a concrete lemma at the
  end of the theory of that part shows it.

  Parameters. Hashing, signing (\<open>encode\<close>, \<open>decode\<close>), UUID parsing and Unix-time
  conversion are arguments of the definitions that use them; what a property takes from them is
  a premise of its own (\<open>signs\<close> states the documented law of the signature library). The
  policy of row-level security is an argument of the one-time token store. The finance service
  takes a \<open>fin_server\<close>: how line items read back from their JSON column, the text of a
  decimal, the sum in double precision, the overhead percentage, the rate column, the collation
  and the order of two foreign keys.

  Conventions and bounds. A record is the struct with its fields in order; a map field is an
  association list with distinct keys read through \<open>hm_get\<close>. A service method is a function
  of the environment, the arguments and the state, and returns its result and the state it
  leaves.

  Concurrency. A service call of the models is one step unless said otherwise, and a run is a
  sequence of calls. For the in-memory services this is what their locks give, up to calls that
  take two locks in turn. For the services on PostgreSQL (READ COMMITTED) it is an assumption: they
  read most of what they check without a lock. So the parts where it matters are modelled statement
  by statement: the idempotency middleware, the relays, the task guard, the slots of the
  scheduler, the command journal, the corrective-action functions
  (\<open>wf_interleaved\<close>) and the finance methods that check before they write
  (\<open>fin_interleaved\<close>); the last two carry their serial runs (\<open>wf_reachable\<close>,
  \<open>finance_run\<close>) along and say when an interleaving is one. The rest of the workflow engine,
  the other finance calls, the token stores and the federation are serial. In the federation, rows
  locked by another transaction are a parameter of each call; what serial calls miss there is a
  concurrent publication whose row appears between the duplicate check and the insert of a fanout,
  which the service counts as blocked (\<open>duplicate_counted_blocked\<close>).

  UUIDs are numbers drawn from
  \<open>fresh\<close>; a theorem that needs them new says so of the ids it uses. Ids and instants of
  events are taken from index 100 of the environment on, those of generated operations from
  index 200. Decimals are exact rationals (no 96-bit limit). An \<open>f64\<close>
  is the rational it denotes; the additions of the three-way match are rounded to doubles
  (\<open>f64_add\<close>; no overflow to infinity). Dashes and arrows in messages are written in ASCII. Trimming
  removes ASCII white space. A transaction whose commit fails counts as not committed. A foreign
  key or column-length refusal is one of the failures of a statement. No definition of the
  program runs on fuel; the recursions that are not structural (decimal digits, the ancestor search,
  the cascade of a deleted journal entry) terminate by a measure, so every function is total.
  \<open>solo\<close> and \<open>solo_turn\<close> count the statements of a call run alone; that their counts
  are enough is part of the theorems about them.

  Not modelled: the database-backed twins of the supply-chain and production services, the
  in-memory twin of the finance service, the other services (quality, costing, people), passwords, OAuth2 and server-side sessions, the HTTP routes, the
  other middleware (body limits, headers, CSRF, sessions), the workers for PDF files and models,
  the leader election of the scheduler, the watchers and the supervision of subscriptions, the NATS client, the rest of the agent
  and AI crates (context, retrieval, claims, language models), the rest of the TPS services and the frontend. The first group fits \<open>Tenant_Db\<close>; routes, the NATS client, the agents and the frontend are input
  and output, cryptography or generated text.
\<close>

end
